(* ===== verification/Cose_Prelude.thy ===== *)
theory Cose_Prelude
  imports Main "HOL-Library.Word"
begin

unbundle bit_operations_syntax

text \<open>
  The vocabulary every other theory of the development shares: the C integer types, the
  return codes, the sequencing of return codes, the arithmetic of
  \<open>size_t\<close> and the big-endian load and store helpers, with the arithmetic reading of bytes
  (\<open>be_bytes\<close>, \<open>be_val\<close>) that the specifications are written in.
\<close>

section \<open>C integers\<close>

type_synonym u8 = "8 word"
type_synonym u16 = "16 word"
type_synonym u32 = "32 word"
type_synonym u64 = "64 word"

text \<open>
  \<open>int64_t\<close> and \<open>int32_t\<close> are the same words read with \<open>sint\<close>. \<open>size_t\<close> is a natural
  number below \<open>2 ^ 64\<close> (the development fixes a 64-bit \<open>size_t\<close>); an addition or a
  subtraction that the code performs before it has checked the operands is written with
  \<open>sz_add\<close> and \<open>sz_sub\<close>, which wrap as the machine does.
\<close>

type_synonym i64 = "64 word"
type_synonym i32 = "32 word"
type_synonym size = nat

definition SIZE_MAX :: size where
  "SIZE_MAX = 2 ^ 64 - 1"

definition sz_add :: "size \<Rightarrow> size \<Rightarrow> size" where
  "sz_add a b = (a + b) mod 2 ^ 64"

definition sz_sub :: "size \<Rightarrow> size \<Rightarrow> size" where
  "sz_sub a b = (if b \<le> a then a - b else a + 2 ^ 64 - b)"

definition INT32_MIN :: int where "INT32_MIN = - (2 ^ 31)"
definition INT32_MAX :: int where "INT32_MAX = 2 ^ 31 - 1"
definition INT64_MAX :: int where "INT64_MAX = 2 ^ 63 - 1"

lemma sz_add_id [simp]: "a + b < 2 ^ 64 \<Longrightarrow> sz_add a b = a + b"
  by (simp add: sz_add_def)

lemma sz_sub_id [simp]: "b \<le> a \<Longrightarrow> sz_sub a b = a - b"
  by (simp add: sz_sub_def)

section \<open>Return codes\<close>

datatype rc =
    WOLFCOSE_SUCCESS
  | WOLFCOSE_E_INVALID_ARG
  | WOLFCOSE_E_BUFFER_TOO_SMALL
  | WOLFCOSE_E_CBOR_MALFORMED
  | WOLFCOSE_E_CBOR_TYPE
  | WOLFCOSE_E_CBOR_OVERFLOW
  | WOLFCOSE_E_CBOR_DEPTH
  | WOLFCOSE_E_COSE_BAD_TAG
  | WOLFCOSE_E_COSE_BAD_ALG
  | WOLFCOSE_E_COSE_SIG_FAIL
  | WOLFCOSE_E_COSE_DECRYPT_FAIL
  | WOLFCOSE_E_COSE_BAD_HDR
  | WOLFCOSE_E_COSE_KEY_TYPE
  | WOLFCOSE_E_COSE_MAC_FAIL
  | WOLFCOSE_E_CRYPTO
  | WOLFCOSE_E_UNSUPPORTED
  | WOLFCOSE_E_MAC_FAIL
  | WOLFCOSE_E_DETACHED_PAYLOAD

text \<open>
  \<open>on_success (ret, s) f\<close> is the code's \<open>if (ret == WOLFCOSE_SUCCESS) \<dots>\<close>: the next call
  runs on the state \<open>s\<close> that the earlier calls left, or is skipped with the state as it is.
\<close>

definition on_success :: "rc \<times> 's \<Rightarrow> ('s \<Rightarrow> rc \<times> 's) \<Rightarrow> rc \<times> 's" where
  "on_success r f = (if fst r = WOLFCOSE_SUCCESS then f (snd r) else r)"

lemma on_success_simps [simp]:
  "on_success (WOLFCOSE_SUCCESS, s) f = f s"
  "e \<noteq> WOLFCOSE_SUCCESS \<Longrightarrow> on_success (e, s) f = (e, s)"
  by (simp_all add: on_success_def)

lemma on_success_is_success:
  "fst (on_success r f) = WOLFCOSE_SUCCESS \<longleftrightarrow>
     fst r = WOLFCOSE_SUCCESS \<and> fst (f (snd r)) = WOLFCOSE_SUCCESS"
  by (simp add: on_success_def)

text \<open>\<open>repeat_ok n f\<close> is \<open>for (i = 0; (ret == WOLFCOSE_SUCCESS) && (i < n); i++)\<close> with body \<open>f\<close>.\<close>

primrec repeat_ok :: "nat \<Rightarrow> ('s \<Rightarrow> rc \<times> 's) \<Rightarrow> 's \<Rightarrow> rc \<times> 's" where
  "repeat_ok 0 f s = (WOLFCOSE_SUCCESS, s)"
| "repeat_ok (Suc n) f s = on_success (f s) (repeat_ok n f)"

lemma repeat_ok_invariant:
  assumes "\<And>s. P s \<Longrightarrow> P (snd (f s))" "P s"
  shows "P (snd (repeat_ok n f s))"
  using assms(2) by (induction n arbitrary: s) (auto simp: on_success_def assms(1))

lemma repeat_ok_collect:
  assumes "\<And>es s s'. P es s \<Longrightarrow> f s = (WOLFCOSE_SUCCESS, s') \<Longrightarrow> \<exists>e. P (es @ [e]) s'"
    and "P es s" "repeat_ok n f s = (WOLFCOSE_SUCCESS, s')"
  shows "\<exists>es'. length es' = n \<and> P (es @ es') s'"
  using assms(2,3)
proof (induction n arbitrary: es s)
  case 0
  then show ?case by simp
next
  case (Suc n)
  then obtain s1 where s1: "f s = (WOLFCOSE_SUCCESS, s1)" "repeat_ok n f s1 = (WOLFCOSE_SUCCESS, s')"
    by (cases "f s") (auto simp: on_success_def split: if_splits)
  then obtain e where "P (es @ [e]) s1" using assms(1) Suc.prems(1) by blast
  with Suc.IH s1(2) obtain es' where "length es' = n" "P ((es @ [e]) @ es') s'" by blast
  then show ?case by (intro exI [of _ "e # es'"]) simp
qed

section \<open>Bytes as numbers\<close>

fun be_bytes :: "nat \<Rightarrow> nat \<Rightarrow> u8 list" where
  "be_bytes 0 v = []"
| "be_bytes (Suc n) v = be_bytes n (v div 256) @ [of_nat v]"

definition be_val :: "u8 list \<Rightarrow> nat" where
  "be_val bs = foldl (\<lambda>a b. 256 * a + unat b) 0 bs"

lemma length_be_bytes [simp]: "length (be_bytes n v) = n"
  by (induction n arbitrary: v) auto

lemma be_val_snoc [simp]: "be_val (bs @ [b]) = 256 * be_val bs + unat b"
  by (simp add: be_val_def)

lemma be_val_Nil [simp]: "be_val [] = 0"
  by (simp add: be_val_def)

lemma unat_of_nat_u8: "unat (of_nat v :: u8) = v mod 256"
  by (simp add: unat_of_nat)

lemma unat_ucast_u8: "unat (ucast (x :: 'a::len word) :: u8) = unat x mod 256"
  by (simp add: unsigned_ucast_eq take_bit_eq_mod)

lemma u8_eqI: "unat x = unat y \<Longrightarrow> x = y" for x y :: u8
  by (rule word_unat_eq_iff [THEN iffD2])

lemma be_val_be_bytes: "be_val (be_bytes n v) = v mod 256 ^ n"
proof (induction n arbitrary: v)
  case 0
  then show ?case by simp
next
  case (Suc n)
  have "be_val (be_bytes (Suc n) v) = 256 * (v div 256 mod 256 ^ n) + v mod 256"
    by (simp add: Suc.IH unat_of_nat_u8)
  also have "\<dots> = v mod (256 * 256 ^ n)"
    by (simp add: mod_mult2_eq)
  finally show ?case by simp
qed

lemma be_bytes_be_val: "be_bytes (length bs) (be_val bs) = bs"
proof (induction bs rule: rev_induct)
  case Nil
  then show ?case by simp
next
  case (snoc b bs)
  have "unat b < 256" using unsigned_less [of b] by simp
  then have "(256 * be_val bs + unat b) div 256 = be_val bs" by simp
  moreover have "(of_nat (256 * be_val bs + unat b) :: u8) = b"
    by (rule u8_eqI) (use \<open>unat b < 256\<close> in \<open>simp add: unat_of_nat_u8 del: of_nat_add of_nat_mult\<close>)
  ultimately show ?case using snoc.IH by simp
qed

lemma be_val_less: "be_val bs < 256 ^ length bs"
proof (induction bs rule: rev_induct)
  case (snoc b bs)
  have "unat b < 256" using unsigned_less [of b] by simp
  with snoc.IH show ?case by simp
qed simp

section \<open>Big-endian load and store\<close>

text \<open>
  The stores return the bytes written to \<open>buf[0]\<close>, \<open>buf[1]\<close>, \dots; the loads take the memory a
  pointer leads to, from \<open>buf[0]\<close> on.
\<close>

definition wolfCose_StoreBE16 :: "u64 \<Rightarrow> u8 list" where
  "wolfCose_StoreBE16 val =
     (let beVal = (ucast val :: u16)
      in [ucast (drop_bit 8 (ucast beVal :: u32)), ucast ((ucast beVal :: u32) AND 0xFF)])"

definition wolfCose_StoreBE32 :: "u64 \<Rightarrow> u8 list" where
  "wolfCose_StoreBE32 val =
     (let beVal = (ucast val :: u32)
      in [ucast (drop_bit 24 beVal), ucast (drop_bit 16 beVal), ucast (drop_bit 8 beVal),
          ucast (beVal AND 0xFF)])"

definition wolfCose_StoreBE64 :: "u64 \<Rightarrow> u8 list" where
  "wolfCose_StoreBE64 val =
     [ucast (drop_bit 56 val), ucast (drop_bit 48 val), ucast (drop_bit 40 val),
      ucast (drop_bit 32 val), ucast (drop_bit 24 val), ucast (drop_bit 16 val),
      ucast (drop_bit 8 val), ucast (val AND 0xFF)]"

definition wolfCose_LoadBE16 :: "u8 list \<Rightarrow> u16" where
  "wolfCose_LoadBE16 buf =
     ucast (push_bit 8 (ucast (buf ! 0) :: u32) OR (ucast (buf ! 1) :: u32))"

definition wolfCose_LoadBE32 :: "u8 list \<Rightarrow> u32" where
  "wolfCose_LoadBE32 buf =
     push_bit 24 (ucast (buf ! 0)) OR push_bit 16 (ucast (buf ! 1)) OR
     push_bit 8 (ucast (buf ! 2)) OR ucast (buf ! 3)"

definition wolfCose_LoadBE64 :: "u8 list \<Rightarrow> u64" where
  "wolfCose_LoadBE64 buf =
     push_bit 56 (ucast (buf ! 0)) OR push_bit 48 (ucast (buf ! 1)) OR
     push_bit 40 (ucast (buf ! 2)) OR push_bit 32 (ucast (buf ! 3)) OR
     push_bit 24 (ucast (buf ! 4)) OR push_bit 16 (ucast (buf ! 5)) OR
     push_bit 8 (ucast (buf ! 6)) OR ucast (buf ! 7)"

lemma be_bytes_numeral [simp]:
  "be_bytes (numeral k) v = be_bytes (pred_numeral k) (v div 256) @ [of_nat v]"
  by (simp only: numeral_eq_Suc [of k] be_bytes.simps)

text \<open>The stores write the big-endian bytes of the value.\<close>

lemma ucast_and_FF: "(ucast (v AND 0xFF :: 'a::len word) :: u8) = ucast v"
proof -
  have FF: "(0xFF :: 'a word) = mask 8" by (simp add: mask_eq_exp_minus_1)
  show ?thesis
    unfolding FF by (rule bit_word_eqI) (auto simp: bit_simps dest: bit_imp_le_length)
qed

lemma unat_ucast_le:
  assumes "unat (x :: 'a::len word) < 2 ^ LENGTH('b::len)"
  shows "unat (ucast x :: 'b word) = unat x"
  using assms by (simp add: unsigned_ucast_eq take_bit_eq_mod)

lemmas store_arith =
  Let_def div_mult2_eq [symmetric] ucast_and_FF unat_ucast_u8 unat_of_nat_u8 unat_drop_bit_eq
  drop_bit_eq_div unat_div_distrib

lemma StoreBE64_be: "wolfCose_StoreBE64 v = be_bytes 8 (unat v)"
  by (simp add: wolfCose_StoreBE64_def store_arith, intro conjI u8_eqI)
    (simp_all add: store_arith)

lemma StoreBE32_be:
  assumes "unat v < 2 ^ 32"
  shows "wolfCose_StoreBE32 v = be_bytes 4 (unat v)"
proof -
  have "unat (ucast v :: u32) = unat v"
    using assms by (intro unat_ucast_le) simp
  then show ?thesis
    by (simp add: wolfCose_StoreBE32_def store_arith, intro conjI u8_eqI)
      (simp_all add: store_arith)
qed

lemma StoreBE16_be:
  assumes "unat v < 2 ^ 16"
  shows "wolfCose_StoreBE16 v = be_bytes 2 (unat v)"
proof -
  have "unat (ucast v :: u16) = unat v"
    using assms by (intro unat_ucast_le) simp
  moreover have "unat (ucast (ucast v :: u16) :: u32) = unat (ucast v :: u16)"
    using unsigned_less [of "ucast v :: u16", where 'a = nat] by (intro unat_ucast_le) simp
  ultimately show ?thesis
    by (simp add: wolfCose_StoreBE16_def store_arith, intro conjI u8_eqI)
      (simp_all add: store_arith)
qed

text \<open>Storing what was loaded gives the bytes back, so a load reads the big-endian number.\<close>

lemma Store_Load64:
  "wolfCose_StoreBE64 (wolfCose_LoadBE64 (a # b # c # d # e # f # g # h # r)) =
     [a, b, c, d, e, f, g, h]"
  by (simp add: wolfCose_StoreBE64_def wolfCose_LoadBE64_def,
      intro conjI; rule bit_word_eqI; auto simp add: ucast_and_FF bit_simps dest: bit_imp_le_length)

lemma Store_Load32:
  "wolfCose_StoreBE32 (ucast (wolfCose_LoadBE32 (a # b # c # d # r))) = [a, b, c, d]"
  by (simp add: wolfCose_StoreBE32_def wolfCose_LoadBE32_def Let_def,
      intro conjI; rule bit_word_eqI; auto simp add: ucast_and_FF bit_simps dest: bit_imp_le_length)

lemma Store_Load16:
  "wolfCose_StoreBE16 (ucast (wolfCose_LoadBE16 (a # b # r))) = [a, b]"
  by (simp add: wolfCose_StoreBE16_def wolfCose_LoadBE16_def Let_def,
      intro conjI; rule bit_word_eqI; auto simp add: ucast_and_FF bit_simps dest: bit_imp_le_length)

lemma unat_less_u64: "unat (v :: u64) < 2 ^ 64"
  using unsigned_less [of v] by simp

lemma unat_LoadBE64:
  assumes "8 \<le> length p"
  shows "unat (wolfCose_LoadBE64 p) = be_val (take 8 p)"
proof -
  obtain a b c d e f g h r where p: "p = a # b # c # d # e # f # g # h # r"
    using assms by (auto simp: numeral_eq_Suc Suc_le_length_iff)
  let ?v = "wolfCose_LoadBE64 p"
  have "be_val (take 8 p) = be_val (be_bytes 8 (unat ?v))"
    unfolding StoreBE64_be [symmetric] p by (simp add: Store_Load64)
  then show ?thesis
    using unat_less_u64 [of ?v] by (simp add: be_val_be_bytes del: be_bytes_numeral)
qed

lemma unat_ucast_u64: "unat (ucast (x :: u32) :: u64) = unat x"
  using unsigned_less [of x, where 'a = nat] by (intro unat_ucast_le) simp

lemma unat_ucast16_u64: "unat (ucast (x :: u16) :: u64) = unat x"
  using unsigned_less [of x, where 'a = nat] by (intro unat_ucast_le) simp

lemma unat_LoadBE32:
  assumes "4 \<le> length p"
  shows "unat (wolfCose_LoadBE32 p) = be_val (take 4 p)"
proof -
  obtain a b c d r where p: "p = a # b # c # d # r"
    using assms by (auto simp: numeral_eq_Suc Suc_le_length_iff)
  let ?v = "wolfCose_LoadBE32 p"
  have lt: "unat ?v < 2 ^ 32"
    using unsigned_less [of ?v] by simp
  have "be_val (take 4 p) = be_val (be_bytes 4 (unat (ucast ?v :: u64)))"
    using lt by (subst StoreBE32_be [symmetric]) (simp_all add: unat_ucast_u64 p Store_Load32 del: be_bytes_numeral)
  then show ?thesis
    using lt by (simp add: be_val_be_bytes del: be_bytes_numeral add: unat_ucast_u64)
qed

lemma unat_LoadBE16:
  assumes "2 \<le> length p"
  shows "unat (wolfCose_LoadBE16 p) = be_val (take 2 p)"
proof -
  obtain a b r where p: "p = a # b # r"
    using assms by (auto simp: numeral_eq_Suc Suc_le_length_iff)
  let ?v = "wolfCose_LoadBE16 p"
  have lt: "unat ?v < 2 ^ 16"
    using unsigned_less [of ?v] by simp
  have "be_val (take 2 p) = be_val (be_bytes 2 (unat (ucast ?v :: u64)))"
    using lt by (subst StoreBE16_be [symmetric]) (simp_all add: unat_ucast16_u64 p Store_Load16 del: be_bytes_numeral)
  then show ?thesis
    using lt by (simp add: be_val_be_bytes del: be_bytes_numeral add: unat_ucast16_u64)
qed

text \<open>The signed reading of an \<open>int64_t\<close>.\<close>

lemma uint_lt64: "uint (v :: i64) < 18446744073709551616" "0 \<le> uint v"
  using unsigned_less [of v, where 'a = int] by simp_all

lemma sint_cases64: "sint v = (if uint v < 2 ^ 63 then uint v else uint v - 2 ^ 64)" for v :: i64
proof -
  have "sint v = (uint v + 2 ^ 63) mod 2 ^ 64 - 2 ^ 63"
    by (simp add: sint_uint signed_take_bit_eq_take_bit_shift take_bit_eq_mod)
  moreover have "(uint v + 2 ^ 63) mod 2 ^ 64 = (if uint v < 2 ^ 63 then uint v + 2 ^ 63 else uint v - 2 ^ 63)"
  proof (cases "uint v < 2 ^ 63")
    case True
    then show ?thesis using uint_lt64 [of v] by simp
  next
    case False
    then show ?thesis using uint_lt64 [of v]
      by (intro int_mod_pos_eq [of _ _ 1]) simp_all
  qed
  ultimately show ?thesis by simp
qed

lemma unat_sint_nonneg:
  fixes v :: i64
  assumes "0 \<le> sint v"
  shows "unat v = nat (sint v)"
proof -
  have "uint v < 2 ^ 63" using assms uint_lt64 [of v] sint_cases64 [of v] by (cases "uint v < 2 ^ 63") simp_all
  then show ?thesis using sint_cases64 [of v] by (simp only: unat_eq_nat_uint if_True)
qed
lemma unat_neg_Suc:
  fixes v :: i64
  assumes "sint v < 0"
  shows "unat (- (v + 1)) = nat (- 1 - sint v)"
proof -
  have "\<not> uint v < 2 ^ 63" using assms uint_lt64 [of v] sint_cases64 [of v] by (cases "uint v < 2 ^ 63") simp_all
  then have s: "sint v = uint v - 2 ^ 64" using sint_cases64 [of v] by simp
  have "uint (- (v + 1)) = (- uint v - 1) mod 2 ^ 64"
    by (simp add: uint_word_ariths mod_simps)
  also have "\<dots> = 2 ^ 64 - 1 - uint v"
    using uint_lt64 [of v]
    by (intro int_mod_pos_eq [of _ _ "-1"]) (simp_all, use uint_lt64 [of v] in linarith)
  finally show ?thesis using s unat_eq_nat_uint [of "- (v + 1)"] by simp
qed
lemma unat_uint_less: "unat v < 2 ^ 63 \<longleftrightarrow> uint v < 2 ^ 63" for v :: u64
proof -
  have "unat v < 2 ^ 63 \<longleftrightarrow> v < 2 ^ 63" by (simp add: word_less_nat_alt)
  also have "\<dots> \<longleftrightarrow> uint v < 2 ^ 63" by (simp add: word_less_def)
  finally show ?thesis .
qed

lemma sint_small: 
  fixes v :: u64
  assumes "unat v < 2 ^ 63" shows "sint v = int (unat v)"
proof -
  have "uint v < 2 ^ 63" using assms unat_uint_less by blast
  then have "sint v = uint v" using sint_cases64 [of v] by presburger
  then show ?thesis by simp
qed
lemma sint_neg_small:
  fixes v :: u64
  assumes "unat v < 2 ^ 63"
  shows "sint (- 1 - v) = - 1 - int (unat v)"
proof -
  have "uint (- 1 - v) = (2 ^ 64 - 1 - uint v) mod 2 ^ 64" by (simp add: uint_word_ariths mod_simps)
  also have "\<dots> = 2 ^ 64 - 1 - uint v"
    using uint_lt64 [of v] by (intro int_mod_pos_eq [of _ _ 0]) (simp_all, use uint_lt64 [of v] in linarith)
  finally have *: "uint (- 1 - v) = 2 ^ 64 - 1 - uint v" .
  have "uint v < 2 ^ 63" using assms unat_uint_less by blast
  then have "\<not> uint (- 1 - v) < 2 ^ 63" unfolding * by simp
  then have "sint (- 1 - v) = - 1 - uint v" using sint_cases64 [of "- 1 - v"] * by simp
  then show ?thesis by simp
qed
lemma sint_bounds: "sint v < 2 ^ 63" "- (2 ^ 63) \<le> sint v" for v :: i64
  using sint_cases64 [of v] uint_lt64 [of v] uint_lt64(2) [of v]
  by (cases "uint v < 2 ^ 63"; simp; linarith)+
section \<open>Constant-time comparison\<close>

lemma or_eq_0: "a OR b = 0 \<longleftrightarrow> a = 0 \<and> b = 0" for a b :: "'a::len word"
  by (auto simp: bit_eq_iff bit_simps)

lemma xor_eq_0: "x XOR y = 0 \<longleftrightarrow> x = y" for x y :: "'a::len word"
  by (auto simp: bit_eq_iff bit_simps)

lemma ucast_u32_inj: "ucast x = (ucast y :: u32) \<longleftrightarrow> x = y" for x y :: u8
proof
  assume "ucast x = (ucast y :: u32)"
  then have "unat (ucast x :: u32) = unat (ucast y :: u32)" by simp
  moreover have "unat (ucast z :: u32) = unat z" for z :: u8
    using unsigned_less [of z, where 'a = nat] by (intro unat_ucast_le) simp
  ultimately show "x = y" by (intro u8_eqI) simp
qed simp

text \<open>
  The loop both byte comparisons of the library share: the differences of two arrays are
  accumulated in a 32-bit word, without an early exit.
\<close>

definition diff_bytes :: "u8 list \<Rightarrow> u8 list \<Rightarrow> nat \<Rightarrow> u32" where
  "diff_bytes a b n = foldl (\<lambda>diff i. diff OR ((ucast (a ! i) :: u32) XOR ucast (b ! i))) 0 [0..<n]"

lemma diff_bytes_0:
  assumes "n \<le> length a" "n \<le> length b"
  shows "diff_bytes a b n = 0 \<longleftrightarrow> take n a = take n b"
  using assms
proof (induction n)
  case 0
  then show ?case by (simp add: diff_bytes_def)
next
  case (Suc n)
  have "diff_bytes a b (Suc n) = diff_bytes a b n OR (ucast (a ! n) XOR ucast (b ! n))"
    by (simp add: diff_bytes_def)
  then have "diff_bytes a b (Suc n) = 0 \<longleftrightarrow> take n a = take n b \<and> a ! n = b ! n"
    using Suc by (simp only: or_eq_0 xor_eq_0 ucast_u32_inj)
  then show ?case using Suc.prems by (simp add: take_Suc_conv_app_nth)
qed

end
