(* ===== verification/Cose_Build.thy ===== *)
theory Cose_Build
  imports Cose_Prelude
begin

text \<open>
  The compile-time configuration (\<open>include/wolfcose/settings.h\<close>) as a record. A definition
  that sits under an \<open>#if\<close> of the source takes the record and tests the flag, so a theorem
  about it speaks of every build at once. \<open>build_ok\<close> holds the \<open>#error\<close> floor checks.
\<close>

record build =
  eat_psa_verify :: bool        \<comment> \<open>WOLFCOSE_EAT_PSA_VERIFY\<close>
  have_hpke_0 :: bool           \<comment> \<open>WOLFCOSE_HAVE_HPKE_0\<close>
  hpke_0_ke_decrypt :: bool     \<comment> \<open>WOLFCOSE_HPKE_0_KE_DECRYPT\<close>
  have_deprecated_algs :: bool  \<comment> \<open>WOLFCOSE_HAVE_DEPRECATED_ALGS\<close>
  have_es256 :: bool
  have_es384 :: bool
  have_es512 :: bool
  have_eddsa :: bool
  have_ed448 :: bool
  have_mldsa :: bool
  have_lms :: bool
  have_ps256 :: bool
  have_ps384 :: bool
  have_ps512 :: bool
  have_aesgcm :: bool
  have_chacha20 :: bool
  have_aesccm :: bool
  have_hmac256 :: bool
  have_hmac384 :: bool
  have_hmac512 :: bool
  have_aesmac :: bool
  allow_short_hmac_key :: bool  \<comment> \<open>WOLFCOSE_ALLOW_SHORT_HMAC_KEY\<close>
  ext_sign :: bool              \<comment> \<open>WOLFCOSE_EXT_SIGN\<close>
  deterministic_ecdsa :: bool   \<comment> \<open>WOLFCOSE_HAVE_DETERMINISTIC_ECDSA\<close>
  lms_verify_only :: bool       \<comment> \<open>WOLFSSL_LMS_VERIFY_ONLY\<close>
  no_asn :: bool                \<comment> \<open>NO_ASN\<close>
  have_ecc :: bool              \<comment> \<open>HAVE_ECC\<close>
  rsa_private_key :: bool       \<comment> \<open>WOLFCOSE_HAVE_RSA_PRIVATE_KEY\<close>
  rsa_private_key_decode :: bool \<comment> \<open>WOLFCOSE_HAVE_RSA_PRIVATE_KEY_DECODE\<close>
  mldsa_no_make_key :: bool     \<comment> \<open>WOLFSSL_MLDSA_NO_MAKE_KEY\<close>
  cbor_max_depth :: size        \<comment> \<open>WOLFCOSE_CBOR_MAX_DEPTH\<close>
  max_map_items :: size         \<comment> \<open>WOLFCOSE_MAX_MAP_ITEMS, also WOLFCOSE_MAX_HEADER_LABELS\<close>
  protected_hdr_max :: size     \<comment> \<open>WOLFCOSE_PROTECTED_HDR_MAX\<close>

definition have_ecdsa :: "build \<Rightarrow> bool" where
  "have_ecdsa b \<longleftrightarrow> have_es256 b \<or> have_es384 b \<or> have_es512 b"

definition have_rsapss :: "build \<Rightarrow> bool" where
  "have_rsapss b \<longleftrightarrow> have_ps256 b \<or> have_ps384 b \<or> have_ps512 b"

definition have_hmac :: "build \<Rightarrow> bool" where
  "have_hmac b \<longleftrightarrow> have_hmac256 b \<or> have_hmac384 b \<or> have_hmac512 b"

definition have_aead :: "build \<Rightarrow> bool" where
  "have_aead b \<longleftrightarrow> have_aesgcm b \<or> have_chacha20 b \<or> have_aesccm b"

definition build_ok :: "build \<Rightarrow> bool" where
  "build_ok b \<longleftrightarrow> 4 \<le> cbor_max_depth b \<and> cbor_max_depth b < 2 ^ 32 \<and>
     4 \<le> max_map_items b \<and> max_map_items b < 2 ^ 32"

text \<open>The default configuration of a full build (no HPKE, no PSA/EAT, no deprecated IDs).\<close>

definition full_build :: build where
  "full_build = \<lparr> eat_psa_verify = False, have_hpke_0 = False, hpke_0_ke_decrypt = False,
     have_deprecated_algs = False,
     have_es256 = True, have_es384 = True, have_es512 = True, have_eddsa = True,
     have_ed448 = True, have_mldsa = True, have_lms = True,
     have_ps256 = True, have_ps384 = True, have_ps512 = True,
     have_aesgcm = True, have_chacha20 = True, have_aesccm = True,
     have_hmac256 = True, have_hmac384 = True, have_hmac512 = True, have_aesmac = True,
     allow_short_hmac_key = False, ext_sign = False, deterministic_ecdsa = False,
     lms_verify_only = False, no_asn = False,
     have_ecc = True, rsa_private_key = True, rsa_private_key_decode = True, mldsa_no_make_key = False,
     cbor_max_depth = 8, max_map_items = 16, protected_hdr_max = 64 \<rparr>"

lemma build_ok_full [simp]: "build_ok full_build"
  by (simp add: build_ok_def full_build_def)

lemma build_okD:
  "build_ok b \<Longrightarrow> 0 < cbor_max_depth b"
  "build_ok b \<Longrightarrow> 0 < max_map_items b"
  by (simp_all add: build_ok_def)

end
