(* ===== verification/Cbor_Ctx.thy ===== *)
theory Cbor_Ctx
  imports Cose_Build
begin

text \<open>
  The cursor over a buffer (\<open>WOLFCOSE_CBOR_CTX\<close>), memory and pointers.

  A pointer to read-only bytes is \<open>None\<close> for \<open>NULL\<close> and \<open>Some p\<close> otherwise, where \<open>p\<close> is the
  memory from the pointed-to byte to the end of its object: \<open>p[i]\<close> is \<open>p ! i\<close>, \<open>&p[i]\<close> is
  \<open>drop i p\<close>, and an access at \<open>i \<ge> length p\<close> is undefined behaviour. The ghost field
  \<open>ctx_fault\<close> latches such an access through the cursor: it is no field of the C structure and
  no operation reads it. A function that takes a pointer to a structure or to an output
  variable is modelled on the value behind the pointer; \<open>through_ptr1\<close> and \<open>through_ptr2\<close> add
  the \<open>NULL\<close> test of its first lines.
\<close>

type_synonym cptr = "u8 list option"

record cbor_ctx =
  ctx_buf :: cptr       \<comment> \<open>buf: encode output\<close>
  ctx_cbuf :: cptr      \<comment> \<open>cbuf: decode input\<close>
  ctx_bufSz :: size
  ctx_idx :: size
  ctx_fault :: bool     \<comment> \<open>ghost\<close>

definition mem_len :: "cptr \<Rightarrow> nat" where
  "mem_len p = (case p of None \<Rightarrow> 0 | Some m \<Rightarrow> length m)"

lemma mem_len_simps [simp]: "mem_len None = 0" "mem_len (Some m) = length m"
  by (simp_all add: mem_len_def)

definition through_ptr1 :: "('a \<Rightarrow> rc \<times> 'a) \<Rightarrow> 'a option \<Rightarrow> rc \<times> 'a option" where
  "through_ptr1 f p =
     (case p of None \<Rightarrow> (WOLFCOSE_E_INVALID_ARG, p)
      | Some x \<Rightarrow> (case f x of (ret, x') \<Rightarrow> (ret, Some x')))"

definition through_ptr2 ::
  "('a \<Rightarrow> 'b \<Rightarrow> rc \<times> 'a \<times> 'b) \<Rightarrow> 'a option \<Rightarrow> 'b option \<Rightarrow> rc \<times> 'a option \<times> 'b option" where
  "through_ptr2 f p q =
     (case (p, q) of (Some x, Some y) \<Rightarrow> (case f x y of (ret, x', y') \<Rightarrow> (ret, Some x', Some y'))
      | _ \<Rightarrow> (WOLFCOSE_E_INVALID_ARG, p, q))"

section \<open>Writing through the cursor\<close>

definition splice :: "nat \<Rightarrow> 'a list \<Rightarrow> 'a list \<Rightarrow> 'a list" where
  "splice i bs p = take i p @ bs @ drop (i + length bs) p"

text \<open>Store \<open>bs\<close> at \<open>buf[idx]\<close>, \<open>buf[idx + 1]\<close>, \dots; the cursor stays.\<close>

definition put_bytes :: "cbor_ctx \<Rightarrow> u8 list \<Rightarrow> cbor_ctx" where
  "put_bytes c bs =
     (if ctx_idx c + length bs \<le> mem_len (ctx_buf c)
      then c\<lparr>ctx_buf := map_option (splice (ctx_idx c) bs) (ctx_buf c)\<rparr>
      else c\<lparr>ctx_fault := True\<rparr>)"

section \<open>Reading through the cursor\<close>

text \<open>The memory at \<open>&cbuf[idx]\<close>, and the check that \<open>n\<close> bytes there may be read.\<close>

definition cbuf_at :: "cbor_ctx \<Rightarrow> u8 list" where
  "cbuf_at c = (case ctx_cbuf c of None \<Rightarrow> [] | Some p \<Rightarrow> drop (ctx_idx c) p)"

definition get_check :: "cbor_ctx \<Rightarrow> nat \<Rightarrow> cbor_ctx" where
  "get_check c n =
     c\<lparr>ctx_fault := (ctx_fault c \<or> \<not> ctx_idx c + n \<le> mem_len (ctx_cbuf c))\<rparr>"

lemma length_splice [simp]: "i + length bs \<le> length p \<Longrightarrow> length (splice i bs p) = length p"
  by (simp add: splice_def)

lemma take_splice [simp]:
  "i + length bs \<le> length p \<Longrightarrow> take (i + length bs) (splice i bs p) = take i p @ bs"
  by (simp add: splice_def)

lemma splice_splice:
  "i + length a + length b \<le> length p \<Longrightarrow>
     splice (i + length a) b (splice i a p) = splice i (a @ b) p"
  by (simp add: splice_def ac_simps)

lemma splice_Nil [simp]: "splice i [] p = p"
  by (simp add: splice_def)

end
