(* ===== verification/Cbor_Utf8.thy ===== *)
theory Cbor_Utf8
  imports Cbor_Ctx
begin

text \<open>
  The UTF-8 validator of \<open>src/wolfcose_cbor.c\<close> (\<open>wolfCose_CBOR_IsUtf8\<close>) and the theorem that it
  accepts exactly the UTF-8 encodings of sequences of Unicode scalar values.
\<close>

section \<open>The validator\<close>

text \<open>
  One round of the loop at index \<open>i\<close>: the index after the code point, or \<open>None\<close> where the code
  sets \<open>ret\<close> to 0. The tests are the code's, in its order; \<open>len - i\<close> is taken after \<open>i++\<close>, so
  it does not wrap.
\<close>

definition cont_byte :: "u8 \<Rightarrow> bool" where
  "cont_byte x \<longleftrightarrow> x AND 0xC0 = 0x80"

definition utf8_step :: "u8 list \<Rightarrow> size \<Rightarrow> size \<Rightarrow> size option" where
  "utf8_step data len i0 =
     (let first = data ! i0; i = i0 + 1
      in if first \<le> 0x7F then Some i
         else if first \<ge> 0xC2 \<and> first \<le> 0xDF then
           (if len - i < 1 \<or> \<not> cont_byte (data ! i) then None else Some (i + 1))
         else if first = 0xE0 then
           (if len - i < 2 \<or> data ! i < 0xA0 \<or> data ! i > 0xBF \<or> \<not> cont_byte (data ! (i + 1))
            then None else Some (i + 2))
         else if first = 0xED then
           (if len - i < 2 \<or> data ! i < 0x80 \<or> data ! i > 0x9F \<or> \<not> cont_byte (data ! (i + 1))
            then None else Some (i + 2))
         else if (first \<ge> 0xE1 \<and> first \<le> 0xEC) \<or> (first \<ge> 0xEE \<and> first \<le> 0xEF) then
           (if len - i < 2 \<or> \<not> cont_byte (data ! i) \<or> \<not> cont_byte (data ! (i + 1))
            then None else Some (i + 2))
         else if first = 0xF0 then
           (if len - i < 3 \<or> data ! i < 0x90 \<or> data ! i > 0xBF \<or>
               \<not> cont_byte (data ! (i + 1)) \<or> \<not> cont_byte (data ! (i + 2))
            then None else Some (i + 3))
         else if first = 0xF4 then
           (if len - i < 3 \<or> data ! i < 0x80 \<or> data ! i > 0x8F \<or>
               \<not> cont_byte (data ! (i + 1)) \<or> \<not> cont_byte (data ! (i + 2))
            then None else Some (i + 3))
         else if first \<ge> 0xF1 \<and> first \<le> 0xF3 then
           (if len - i < 3 \<or> \<not> cont_byte (data ! i) \<or> \<not> cont_byte (data ! (i + 1)) \<or>
               \<not> cont_byte (data ! (i + 2))
            then None else Some (i + 3))
         else None)"

lemma utf8_step_gt: "utf8_step data len i = Some j \<Longrightarrow> i < j"
  by (auto simp: utf8_step_def Let_def split: if_splits)

function utf8_loop :: "u8 list \<Rightarrow> size \<Rightarrow> size \<Rightarrow> bool" where
  "utf8_loop data len i =
     (if i < len then
        (case utf8_step data len i of None \<Rightarrow> False | Some j \<Rightarrow> utf8_loop data len j)
      else True)"
  by auto
termination
  by (relation "measure (\<lambda>(data, len, i). len - i)") (auto dest: utf8_step_gt)

declare utf8_loop.simps [simp del]

definition wolfCose_CBOR_IsUtf8 :: "cptr \<Rightarrow> size \<Rightarrow> bool" where
  "wolfCose_CBOR_IsUtf8 data len =
     (case data of None \<Rightarrow> \<not> len > 0 | Some p \<Rightarrow> utf8_loop p len 0)"

section \<open>What it accepts\<close>

definition scalar_value :: "nat \<Rightarrow> bool" where
  "scalar_value n \<longleftrightarrow> n < 0xD800 \<or> 0xDFFF < n \<and> n < 0x110000"

definition utf8_code :: "nat \<Rightarrow> nat list" where
  "utf8_code n =
     (if n < 0x80 then [n]
      else if n < 0x800 then [0xC0 + n div 64, 0x80 + n mod 64]
      else if n < 0x10000 then [0xE0 + n div 64 div 64, 0x80 + n div 64 mod 64, 0x80 + n mod 64]
      else [0xF0 + n div 64 div 64 div 64, 0x80 + n div 64 div 64 mod 64, 0x80 + n div 64 mod 64,
            0x80 + n mod 64])"

definition utf8_enc :: "nat \<Rightarrow> u8 list" where
  "utf8_enc n = map of_nat (utf8_code n)"

definition cont :: "nat \<Rightarrow> bool" where
  "cont b \<longleftrightarrow> 0x80 \<le> b \<and> b < 0xC0"

definition utf8_len :: "nat list \<Rightarrow> nat option" where
  "utf8_len bs = (case bs of [] \<Rightarrow> None | b # r \<Rightarrow>
     if b < 0x80 then Some 1
     else (case r of [] \<Rightarrow> None | b1 # r1 \<Rightarrow>
       if 0xC2 \<le> b \<and> b < 0xE0 then (if cont b1 then Some 2 else None)
       else (case r1 of [] \<Rightarrow> None | b2 # r2 \<Rightarrow>
         if 0xE0 \<le> b \<and> b < 0xF0 then
           (if cont b1 \<and> cont b2 \<and> (b = 0xE0 \<longrightarrow> 0xA0 \<le> b1) \<and> (b = 0xED \<longrightarrow> b1 < 0xA0)
            then Some 3 else None)
         else (case r2 of [] \<Rightarrow> None | b3 # r3 \<Rightarrow>
           if 0xF0 \<le> b \<and> b < 0xF5 \<and> cont b1 \<and> cont b2 \<and> cont b3 \<and>
              (b = 0xF0 \<longrightarrow> 0x90 \<le> b1) \<and> (b = 0xF4 \<longrightarrow> b1 < 0x90)
           then Some 4 else None))))"


lemma cont_byte_iff: "cont_byte x \<longleftrightarrow> cont (unat x)"
proof -
  have "\<forall>n\<in>set [0..<256]. ((of_nat n :: u8) AND 0xC0 = 0x80) = (128 \<le> n \<and> n < 192)"
    by code_simp
  moreover have "unat x < 256" using unsigned_less [of x, where 'a = nat] by simp
  ultimately have "((of_nat (unat x) :: u8) AND 0xC0 = 0x80) = (128 \<le> unat x \<and> unat x < 192)"
    by (metis atLeastLessThan_iff atLeastLessThan_upt zero_le)
  then show ?thesis by (simp add: cont_byte_def cont_def)
qed

lemma div64: "c < 64 \<Longrightarrow> (64 * x + c) div 64 = x" "c < 64 \<Longrightarrow> (64 * x + c) mod 64 = c"
  for x c :: nat
  by simp_all

lemma utf8_code_2: "\<lbrakk>2 \<le> a; a < 32; c < 64\<rbrakk> \<Longrightarrow> utf8_code (64 * a + c) = [0xC0 + a, 0x80 + c]"
  by (simp add: utf8_code_def)

lemma utf8_code_3:
  assumes "a < 16" "b < 64" "c < 64" "a = 0 \<Longrightarrow> 32 \<le> b"
  shows "utf8_code (64 * (64 * a + b) + c) = [0xE0 + a, 0x80 + b, 0x80 + c]"
proof -
  have "\<not> 64 * (64 * a + b) + c < 0x800" "64 * (64 * a + b) + c < 0x10000"
    using assms by (cases "a = 0"; simp)+
  then show ?thesis
    using assms by (simp only: utf8_code_def div64) simp
qed

lemma utf8_code_4:
  assumes "a < 5" "b < 64" "c < 64" "d < 64" "a = 0 \<Longrightarrow> 16 \<le> b"
  shows "utf8_code (64 * (64 * (64 * a + b) + c) + d) = [0xF0 + a, 0x80 + b, 0x80 + c, 0x80 + d]"
proof -
  have "\<not> 64 * (64 * (64 * a + b) + c) + d < 0x10000"
    using assms by (cases "a = 0"; simp)
  then show ?thesis
    using assms by (simp only: utf8_code_def div64) simp
qed

text \<open>The four shapes of an accepted sequence, with their digits.\<close>

lemma cont_digit: "cont b \<longleftrightarrow> (\<exists>c<64. b = 0x80 + c)"
proof
  assume "cont b"
  then show "\<exists>c<64. b = 0x80 + c" by (intro exI [of _ "b - 0x80"]) (auto simp: cont_def)
qed (auto simp: cont_def)

lemma utf8_len_cases:
  assumes "utf8_len bs = Some k"
  obtains (one) b r where "b < 0x80" "bs = b # r" "k = 1"
  | (two) a c r where "2 \<le> a" "a < 32" "c < 64" "bs = (0xC0 + a) # (0x80 + c) # r" "k = 2"
  | (three) a b c r where "a < 16" "b < 64" "c < 64" "a = 0 \<longrightarrow> 32 \<le> b" "a = 13 \<longrightarrow> b < 32"
      "bs = (0xE0 + a) # (0x80 + b) # (0x80 + c) # r" "k = 3"
  | (four) a b c d r where "a < 5" "b < 64" "c < 64" "d < 64" "a = 0 \<longrightarrow> 16 \<le> b"
      "a = 4 \<longrightarrow> b < 16" "bs = (0xF0 + a) # (0x80 + b) # (0x80 + c) # (0x80 + d) # r" "k = 4"
proof -
  obtain b0 r where bs: "bs = b0 # r" using assms by (auto simp: utf8_len_def split: list.splits)
  consider "b0 < 0x80" | a where "a < 32" "2 \<le> a" "b0 = 0xC0 + a" | a where "b0 = 0xE0 + a" "a < 16"
    | a where "b0 = 0xF0 + a" | "0x80 \<le> b0" "b0 < 0xC2"
  proof -
    have "b0 < 0x80 \<or> 0x80 \<le> b0 \<and> b0 < 0xC2 \<or> b0 = 0xC0 + (b0 - 0xC0) \<and> b0 - 0xC0 < 32 \<and> 2 \<le> b0 - 0xC0
       \<or> b0 = 0xE0 + (b0 - 0xE0) \<and> b0 - 0xE0 < 16 \<or> b0 = 0xF0 + (b0 - 0xF0)" by linarith
    then show ?thesis using that by blast
  qed
  then show ?thesis
  proof cases
    case 1 then show ?thesis using assms bs one by (simp add: utf8_len_def)
  next
    case 2 then show ?thesis using assms bs two
      by (auto simp: utf8_len_def cont_digit split: list.splits if_splits)
  next
    case 3 then show ?thesis using assms bs three
      by (auto simp: utf8_len_def cont_digit split: list.splits if_splits)
  next
    case 4 then show ?thesis using assms bs four
      by (auto simp: utf8_len_def cont_digit split: list.splits if_splits)
  next
    case 5 then show ?thesis using assms bs
      by (auto simp: utf8_len_def split: list.splits if_splits)
  qed
qed

lemma utf8_len_sound:
  assumes "utf8_len bs = Some k"
  shows "\<exists>n r. scalar_value n \<and> bs = utf8_code n @ r \<and> k = length (utf8_code n)"
  using assms
proof (cases rule: utf8_len_cases)
  case (one b r)
  then show ?thesis by (intro exI [of _ b]) (simp add: utf8_code_def scalar_value_def)
next
  case (two a c r)
  then show ?thesis
    by (intro exI [of _ "64 * a + c"]) (simp add: utf8_code_2 scalar_value_def)
next
  case (three a b c r)
  then have "scalar_value (64 * (64 * a + b) + c)"
    by (cases "a < 13"; cases "a = 13") (simp_all add: scalar_value_def)
  with three show ?thesis
    by (intro exI [of _ "64 * (64 * a + b) + c"] exI [of _ r] conjI) (simp_all only: utf8_code_3, simp_all)
next
  case (four a b c d r)
  then have "scalar_value (64 * (64 * (64 * a + b) + c) + d)"
    by (cases "a = 0"; cases "a = 4") (simp_all add: scalar_value_def)
  with four show ?thesis
    by (intro exI [of _ "64 * (64 * (64 * a + b) + c) + d"] exI [of _ r] conjI)
     (simp_all only: utf8_code_4, simp_all)
qed

lemma utf8_len_complete:
  assumes "scalar_value n"
  shows "utf8_len (utf8_code n @ r) = Some (length (utf8_code n))"
proof -
  have n: "n = 64 * (n div 64) + n mod 64" "n div 64 = 64 * (n div 64 div 64) + n div 64 mod 64"
     "n div 64 div 64 = 64 * (n div 64 div 64 div 64) + n div 64 div 64 mod 64"
    by (simp_all only: mult_div_mod_eq)
  have lt: "n mod 64 < 64" "n div 64 mod 64 < 64" "n div 64 div 64 mod 64 < 64" by simp_all
  note sc = assms [unfolded scalar_value_def]
  show ?thesis
  proof (cases "n < 0x80")
    case True then show ?thesis by (simp add: utf8_code_def utf8_len_def)
  next
    case F1: False
    show ?thesis
    proof (cases "n < 0x800")
      case True
      then have "n div 64 < 32" "2 \<le> n div 64" using F1 by simp_all
      then show ?thesis using F1 True by (simp add: utf8_code_def utf8_len_def cont_def)
    next
      case F2: False
      define x where "x = n div 64"
      have x: "n = 64 * x + n mod 64" "x = 64 * (x div 64) + x mod 64" 
        by (simp_all only: x_def mult_div_mod_eq)
      show ?thesis
      proof (cases "n < 0x10000")
        case True
        have "x mod 64 < 64" by simp
        with True have "x div 64 < 16" "x div 64 = 0 \<longrightarrow> 32 \<le> x mod 64" "x div 64 = 13 \<longrightarrow> x mod 64 < 32"
          using F2 sc lt(1) x by linarith+
        then show ?thesis using F1 F2 True by (simp add: x_def utf8_code_def utf8_len_def cont_def)
      next
        case False
        define y where "y = x div 64"
        have y: "x = 64 * y + x mod 64" "y = 64 * (y div 64) + y mod 64" 
          by (simp_all only: y_def mult_div_mod_eq)
        have "x mod 64 < 64" "y mod 64 < 64" by simp_all
        then have "y div 64 < 5" "y div 64 = 0 \<longrightarrow> 16 \<le> y mod 64" "y div 64 = 4 \<longrightarrow> y mod 64 < 16"
          using False sc lt(1) x y by linarith+
        then show ?thesis using F1 F2 False by (simp add: x_def y_def utf8_code_def utf8_len_def cont_def)
      qed
    qed
  qed
qed

lemma lead_cases:
  fixes n :: nat
  obtains "n < 0x80" | "0x80 \<le> n" "n < 0xC2" | "0xC2 \<le> n" "n < 0xE0" | "n = 0xE0" | "n = 0xED"
  | "0xE1 \<le> n" "n < 0xF0" "n \<noteq> 0xED" | "n = 0xF0" | "0xF1 \<le> n" "n < 0xF4" | "n = 0xF4" | "0xF5 \<le> n"
  by linarith

lemma utf8_step_len:
  assumes "i < len" "len \<le> length data"
  shows "utf8_step data len i = map_option ((+) i) (utf8_len (map unat (drop i (take len data))))"
proof -
  define rest where "rest = drop i (take len data)"
  have len: "length rest = len - i" using assms by (simp add: rest_def)
  have nth: "data ! (i + k) = rest ! k" if "i + k < len" for k
    using assms that by (simp add: rest_def)
  obtain b0 r0 where r: "rest = b0 # r0" using len assms by (cases rest) auto
  have b0: "data ! i = b0" using nth [of 0] assms r by simp
  note U = utf8_step_def Let_def b0 cont_byte_iff word_le_nat_alt word_less_nat_alt word_unat_eq_iff
    utf8_len_def r
  have "utf8_step data len i = map_option ((+) i) (utf8_len (map unat rest))"
  proof -
    consider "r0 = []" | b1 where "r0 = [b1]" | b1 b2 where "r0 = [b1, b2]"
      | b1 b2 b3 r3 where "r0 = b1 # b2 # b3 # r3"
      by (metis neq_Nil_conv)
    then show ?thesis
    proof cases
      case 1
      then have "len = i + 1" using len r by simp
      then show ?thesis by (cases "unat b0" rule: lead_cases) (simp_all add: U 1)
    next
      case 2
      then have l: "len = i + 2" using len r by simp
      then have "data ! (i + 1) = b1" using nth [of 1] r 2 by simp
      then show ?thesis using l by (cases "unat b0" rule: lead_cases) (simp_all add: U 2)
    next
      case 3
      then have l: "len = i + 3" using len r by simp
      then have d: "data ! (i + 1) = b1" "data ! (i + 1 + 1) = b2" "data ! (Suc i) = b1" "data ! (Suc (Suc i)) = b2"
        using nth [of 1] nth [of 2] r 3 by (simp_all add: numeral_2_eq_2)
      have "cont (unat b1) \<longleftrightarrow> 128 \<le> unat b1 \<and> unat b1 < 192" by (simp add: cont_def)
      then show ?thesis using l d by (cases "unat b0" rule: lead_cases) (auto simp add: U 3)
    next
      case 4
      then have l: "i + 4 \<le> len" using len r by simp
      then have d: "data ! (i + 1) = b1" "data ! (i + 1 + 1) = b2" "data ! (i + 1 + 2) = b3" 
        "data ! (Suc i) = b1" "data ! (Suc (Suc i)) = b2" "data ! (Suc (Suc (Suc i))) = b3"
        using nth [of 1] nth [of 2] nth [of 3] r 4 by (simp_all add: numeral_2_eq_2 numeral_3_eq_3)
      have "cont (unat b1) \<longleftrightarrow> 128 \<le> unat b1 \<and> unat b1 < 192" by (simp add: cont_def)
      then show ?thesis using l d by (cases "unat b0" rule: lead_cases) (auto simp add: U 4)
    qed
  qed
  then show ?thesis by (simp add: rest_def)
qed

definition utf8_codes :: "nat list \<Rightarrow> bool" where
  "utf8_codes bs \<longleftrightarrow> (\<exists>ns. (\<forall>n\<in>set ns. scalar_value n) \<and> bs = concat (map utf8_code ns))"

lemma utf8_codes_Nil [simp]: "utf8_codes []"
  by (auto simp: utf8_codes_def intro: exI [of _ "[]"])

lemma utf8_codes_None: "utf8_len bs = None \<Longrightarrow> bs \<noteq> [] \<Longrightarrow> \<not> utf8_codes bs"
  unfolding utf8_codes_def
proof safe
  fix ns assume "utf8_len (concat (map utf8_code ns)) = None" "\<forall>n\<in>set ns. scalar_value n"
    "concat (map utf8_code ns) \<noteq> []"
  then show False using utf8_len_complete by (cases ns) auto
qed

lemma utf8_codes_Cons:
  assumes "scalar_value n"
  shows "utf8_codes (utf8_code n @ r) \<longleftrightarrow> utf8_codes r"
proof
  assume "utf8_codes r"
  then obtain ns where "\<forall>n\<in>set ns. scalar_value n" "r = concat (map utf8_code ns)"
    by (auto simp: utf8_codes_def)
  then show "utf8_codes (utf8_code n @ r)"
    unfolding utf8_codes_def using assms by (intro exI [of _ "n # ns"]) simp
next
  assume "utf8_codes (utf8_code n @ r)"
  then obtain ns where ns: "\<forall>n\<in>set ns. scalar_value n"
      "utf8_code n @ r = concat (map utf8_code ns)" by (auto simp: utf8_codes_def)
  have "utf8_code n \<noteq> []" by (simp add: utf8_code_def)
  then obtain m ms where m: "ns = m # ms" using ns by (cases ns) auto
  then have eq: "utf8_code n @ r = utf8_code m @ concat (map utf8_code ms)" using ns by simp
  then have "length (utf8_code m) = length (utf8_code n)"
    using utf8_len_complete [OF assms, of r] utf8_len_complete [of m "concat (map utf8_code ms)"] ns m
    by simp
  then show "utf8_codes r" using eq ns m by (auto simp: utf8_codes_def)
qed

lemma utf8_loop_codes:
  assumes "len \<le> length data" "i \<le> len"
  shows "utf8_loop data len i \<longleftrightarrow> utf8_codes (map unat (drop i (take len data)))"
  using assms
proof (induction data len i rule: utf8_loop.induct)
  case (1 data len i)
  let ?r = "map unat (drop i (take len data))"
  show ?case
  proof (cases "i < len")
    case False
    then show ?thesis using 1 by (subst utf8_loop.simps) simp
  next
    case True
    note step = utf8_step_len [OF True 1(2)]
    show ?thesis
    proof (cases "utf8_len ?r")
      case None
      then have "\<not> utf8_codes ?r" using utf8_codes_None True 1(2) by simp
      then show ?thesis using None True step by (subst utf8_loop.simps) simp
    next
      case (Some k)
      obtain n r where n: "scalar_value n" "?r = utf8_code n @ r" "k = length (utf8_code n)"
        using utf8_len_sound [OF Some] by blast
      have "length ?r = len - i" using 1 by simp
      then have le: "i + k \<le> len" using n True by simp
      have "drop k ?r = r" using n by simp
      then have r: "map unat (drop (i + k) (take len data)) = r"
        by (simp add: drop_map add.commute)
      have st: "utf8_step data len i = Some (i + k)" using step Some by simp
      show ?thesis
        using "1.IH" [OF True st 1(2) le] st True utf8_codes_Cons [OF n(1), of r] n(2) r
        by (subst utf8_loop.simps) simp
    qed
  qed
qed

text \<open>C28: the validator accepts a text string exactly when its bytes are the concatenation of the
UTF-8 encodings of Unicode scalar values (no surrogates, no overlong forms, nothing above
10FFFF).\<close>
theorem IsUtf8_iff:
  assumes "len \<le> length p"
  shows "wolfCose_CBOR_IsUtf8 (Some p) len \<longleftrightarrow>
    (\<exists>ns. (\<forall>n\<in>set ns. scalar_value n) \<and> take len p = concat (map utf8_enc ns))"
proof -
  have *: "map of_nat (map unat bs) = bs" for bs :: "u8 list" by (simp add: comp_def)
  have lt: "b < 256" if "scalar_value n" "b \<in> set (utf8_code n)" for b n
    using that by (auto simp: utf8_code_def scalar_value_def split: if_splits)
  have **: "map unat (concat (map utf8_enc ns)) = concat (map utf8_code ns)" 
    if "\<forall>n\<in>set ns. scalar_value n" for ns
    using that lt by (induction ns) (auto simp: utf8_enc_def unat_of_nat_u8 comp_def intro!: map_idI)
  have "take len p = concat (map utf8_enc ns) \<longleftrightarrow> map unat (take len p) = concat (map utf8_code ns)"
    if "\<forall>n\<in>set ns. scalar_value n" for ns
    using ** [OF that] by (metis *)
  then show ?thesis
    using assms utf8_loop_codes [OF assms, of 0]
    by (auto simp: wolfCose_CBOR_IsUtf8_def utf8_codes_def)
qed

lemma IsUtf8_iff_witness:
  "wolfCose_CBOR_IsUtf8 (Some [0x61, 0xE2, 0x82, 0xAC, 0xFF]) 4"
proof -
  have "take 4 [0x61, 0xE2, 0x82, 0xAC, 0xFF] = concat (map utf8_enc [0x61, 0x20AC])"
    by (simp add: utf8_enc_def utf8_code_def)
  then show ?thesis
    by (intro IsUtf8_iff [THEN iffD2] exI [of _ "[0x61, 0x20AC]"] conjI) (simp_all add: scalar_value_def)
qed

text \<open>No byte beyond \<open>len\<close> is looked at.\<close>

lemma IsUtf8_prefix:
  "len \<le> length p \<Longrightarrow> wolfCose_CBOR_IsUtf8 (Some p) len \<longleftrightarrow> wolfCose_CBOR_IsUtf8 (Some (take len p)) len"
  using utf8_loop_codes [of len p 0] utf8_loop_codes [of len "take len p" 0]
  by (simp add: wolfCose_CBOR_IsUtf8_def)

end
