(* ===== verification/Cbor_Encode.thy ===== *)
theory Cbor_Encode
  imports Cbor_Utf8
begin

text \<open>
  The CBOR encoder (the encode half of \<open>src/wolfcose_cbor.c\<close>). Every encoder is shown to be a
  \<open>cbor_writer\<close> of the bytes that RFC 8949 prescribes (\<open>cbor_head\<close>): it appends them when they
  fit, reports a too small buffer when they do not, and touches nothing else.
\<close>

section \<open>The encoder\<close>

definition WOLFCOSE_CBOR_UINT :: u8 where [simp]: "WOLFCOSE_CBOR_UINT = 0"
definition WOLFCOSE_CBOR_NEGINT :: u8 where [simp]: "WOLFCOSE_CBOR_NEGINT = 1"
definition WOLFCOSE_CBOR_BSTR :: u8 where [simp]: "WOLFCOSE_CBOR_BSTR = 2"
definition WOLFCOSE_CBOR_TSTR :: u8 where [simp]: "WOLFCOSE_CBOR_TSTR = 3"
definition WOLFCOSE_CBOR_ARRAY :: u8 where [simp]: "WOLFCOSE_CBOR_ARRAY = 4"
definition WOLFCOSE_CBOR_MAP :: u8 where [simp]: "WOLFCOSE_CBOR_MAP = 5"
definition WOLFCOSE_CBOR_TAG :: u8 where [simp]: "WOLFCOSE_CBOR_TAG = 6"
definition WOLFCOSE_CBOR_SIMPLE :: u8 where [simp]: "WOLFCOSE_CBOR_SIMPLE = 7"

definition WOLFCOSE_CBOR_AI_1BYTE :: u8 where [simp]: "WOLFCOSE_CBOR_AI_1BYTE = 24"
definition WOLFCOSE_CBOR_AI_2BYTE :: u8 where [simp]: "WOLFCOSE_CBOR_AI_2BYTE = 25"
definition WOLFCOSE_CBOR_AI_4BYTE :: u8 where [simp]: "WOLFCOSE_CBOR_AI_4BYTE = 26"
definition WOLFCOSE_CBOR_AI_8BYTE :: u8 where [simp]: "WOLFCOSE_CBOR_AI_8BYTE = 27"
definition WOLFCOSE_CBOR_AI_INDEF :: u8 where [simp]: "WOLFCOSE_CBOR_AI_INDEF = 31"

definition WOLFCOSE_CBOR_FALSE :: u8 where [simp]: "WOLFCOSE_CBOR_FALSE = 0xF4"
definition WOLFCOSE_CBOR_TRUE :: u8 where [simp]: "WOLFCOSE_CBOR_TRUE = 0xF5"
definition WOLFCOSE_CBOR_NULL :: u8 where [simp]: "WOLFCOSE_CBOR_NULL = 0xF6"

definition wc_CBOR_EncoderInit :: "cbor_ctx \<Rightarrow> cptr \<Rightarrow> size \<Rightarrow> rc \<times> cbor_ctx" where
  "wc_CBOR_EncoderInit ctx buf bufSz =
     (if buf \<noteq> None
      then (WOLFCOSE_SUCCESS, ctx\<lparr>ctx_buf := buf, ctx_cbuf := None, ctx_bufSz := bufSz, ctx_idx := 0\<rparr>)
      else (WOLFCOSE_E_INVALID_ARG, ctx))"

definition wolfCose_CBOR_IsEncodeContext :: "cbor_ctx \<Rightarrow> bool" where
  "wolfCose_CBOR_IsEncodeContext ctx \<longleftrightarrow> ctx_buf ctx \<noteq> None"

definition wolfCose_CBOR_HasRoom :: "cbor_ctx \<Rightarrow> size \<Rightarrow> bool" where
  "wolfCose_CBOR_HasRoom ctx need \<longleftrightarrow>
     ctx_idx ctx \<le> ctx_bufSz ctx \<and> need \<le> ctx_bufSz ctx - ctx_idx ctx"

text \<open>
  The body every branch of the encoder repeats: the capacity check for \<open>need\<close> bytes, the
  stores of \<open>bs\<close> at \<open>buf[idx]\<close>, and \<open>idx += need\<close>.
\<close>

definition emit :: "cbor_ctx \<Rightarrow> size \<Rightarrow> u8 list \<Rightarrow> rc \<times> cbor_ctx" where
  "emit ctx need bs =
     (if \<not> wolfCose_CBOR_HasRoom ctx need then (WOLFCOSE_E_BUFFER_TOO_SMALL, ctx)
      else (WOLFCOSE_SUCCESS, (put_bytes ctx bs)\<lparr>ctx_idx := ctx_idx ctx + need\<rparr>))"

definition wolfCose_CBOR_EncodeHead :: "cbor_ctx \<Rightarrow> u8 \<Rightarrow> u64 \<Rightarrow> rc \<times> cbor_ctx" where
  "wolfCose_CBOR_EncodeHead ctx majorType val =
     (if \<not> wolfCose_CBOR_IsEncodeContext ctx then (WOLFCOSE_E_INVALID_ARG, ctx)
      else
        let mt = push_bit 5 majorType
        in if val \<le> 23 then emit ctx 1 [mt OR ucast val]
           else if val \<le> 0xFF then emit ctx 2 [mt OR WOLFCOSE_CBOR_AI_1BYTE, ucast val]
           else if val \<le> 0xFFFF
             then emit ctx 3 ((mt OR WOLFCOSE_CBOR_AI_2BYTE) # wolfCose_StoreBE16 val)
           else if val \<le> 0xFFFFFFFF
             then emit ctx 5 ((mt OR WOLFCOSE_CBOR_AI_4BYTE) # wolfCose_StoreBE32 val)
           else emit ctx 9 ((mt OR WOLFCOSE_CBOR_AI_8BYTE) # wolfCose_StoreBE64 val))"

definition wc_CBOR_EncodeUint :: "cbor_ctx \<Rightarrow> u64 \<Rightarrow> rc \<times> cbor_ctx" where
  "wc_CBOR_EncodeUint ctx val = wolfCose_CBOR_EncodeHead ctx WOLFCOSE_CBOR_UINT val"

definition wc_CBOR_EncodeInt :: "cbor_ctx \<Rightarrow> i64 \<Rightarrow> rc \<times> cbor_ctx" where
  "wc_CBOR_EncodeInt ctx val =
     (if 0 \<le> sint val then wolfCose_CBOR_EncodeHead ctx WOLFCOSE_CBOR_UINT val
      else wolfCose_CBOR_EncodeHead ctx WOLFCOSE_CBOR_NEGINT (- (val + 1)))"

definition wolfCose_CBOR_EncodeBytes ::
  "cbor_ctx \<Rightarrow> u8 \<Rightarrow> cptr \<Rightarrow> size \<Rightarrow> rc \<times> cbor_ctx" where
  "wolfCose_CBOR_EncodeBytes ctx majorType data len =
     (if data = None \<and> len > 0 then (WOLFCOSE_E_INVALID_ARG, ctx)
      else on_success (wolfCose_CBOR_EncodeHead ctx majorType (of_nat len)) (\<lambda>ctx.
        if len > sz_sub (ctx_bufSz ctx) (ctx_idx ctx) then (WOLFCOSE_E_BUFFER_TOO_SMALL, ctx)
        else
          let ctx' = (if len > 0 then
                        (if len \<le> mem_len data then put_bytes ctx (take len (the data))
                         else ctx\<lparr>ctx_fault := True\<rparr>)
                      else ctx)
          in (WOLFCOSE_SUCCESS, ctx'\<lparr>ctx_idx := ctx_idx ctx' + len\<rparr>)))"

definition wc_CBOR_EncodeBstr :: "cbor_ctx \<Rightarrow> cptr \<Rightarrow> size \<Rightarrow> rc \<times> cbor_ctx" where
  "wc_CBOR_EncodeBstr ctx data len = wolfCose_CBOR_EncodeBytes ctx WOLFCOSE_CBOR_BSTR data len"

definition wc_CBOR_EncodeTstr :: "cbor_ctx \<Rightarrow> cptr \<Rightarrow> size \<Rightarrow> rc \<times> cbor_ctx" where
  "wc_CBOR_EncodeTstr ctx str len =
     (if \<not> wolfCose_CBOR_IsEncodeContext ctx \<or> (str = None \<and> len > 0)
        then (WOLFCOSE_E_INVALID_ARG, ctx)
      else if \<not> wolfCose_CBOR_IsUtf8 str len then (WOLFCOSE_E_CBOR_MALFORMED, ctx)
      else wolfCose_CBOR_EncodeBytes ctx WOLFCOSE_CBOR_TSTR str len)"

definition wc_CBOR_EncodeArrayStart :: "cbor_ctx \<Rightarrow> size \<Rightarrow> rc \<times> cbor_ctx" where
  "wc_CBOR_EncodeArrayStart ctx count =
     wolfCose_CBOR_EncodeHead ctx WOLFCOSE_CBOR_ARRAY (of_nat count)"

definition wc_CBOR_EncodeMapStart :: "cbor_ctx \<Rightarrow> size \<Rightarrow> rc \<times> cbor_ctx" where
  "wc_CBOR_EncodeMapStart ctx count =
     wolfCose_CBOR_EncodeHead ctx WOLFCOSE_CBOR_MAP (of_nat count)"

definition wc_CBOR_EncodeTag :: "cbor_ctx \<Rightarrow> u64 \<Rightarrow> rc \<times> cbor_ctx" where
  "wc_CBOR_EncodeTag ctx tag = wolfCose_CBOR_EncodeHead ctx WOLFCOSE_CBOR_TAG tag"

definition wolfCose_CBOR_EncodeSimpleVal :: "cbor_ctx \<Rightarrow> u8 \<Rightarrow> rc \<times> cbor_ctx" where
  "wolfCose_CBOR_EncodeSimpleVal ctx val =
     (if \<not> wolfCose_CBOR_IsEncodeContext ctx then (WOLFCOSE_E_INVALID_ARG, ctx)
      else if \<not> wolfCose_CBOR_HasRoom ctx 1 then (WOLFCOSE_E_BUFFER_TOO_SMALL, ctx)
      else (WOLFCOSE_SUCCESS, (put_bytes ctx [val])\<lparr>ctx_idx := ctx_idx ctx + 1\<rparr>))"

definition wc_CBOR_EncodeTrue :: "cbor_ctx \<Rightarrow> rc \<times> cbor_ctx" where
  "wc_CBOR_EncodeTrue ctx = wolfCose_CBOR_EncodeSimpleVal ctx WOLFCOSE_CBOR_TRUE"

definition wc_CBOR_EncodeFalse :: "cbor_ctx \<Rightarrow> rc \<times> cbor_ctx" where
  "wc_CBOR_EncodeFalse ctx = wolfCose_CBOR_EncodeSimpleVal ctx WOLFCOSE_CBOR_FALSE"

definition wc_CBOR_EncodeNull :: "cbor_ctx \<Rightarrow> rc \<times> cbor_ctx" where
  "wc_CBOR_EncodeNull ctx = wolfCose_CBOR_EncodeSimpleVal ctx WOLFCOSE_CBOR_NULL"

text \<open>
  The floating-point encoders copy the representation of the argument into an integer
  (\<open>XMEMCPY(&bits, &val, sizeof(bits))\<close>) and store that: \<open>bits\<close> is the argument of the model.
\<close>

definition wc_CBOR_EncodeFloat :: "cbor_ctx \<Rightarrow> u32 \<Rightarrow> rc \<times> cbor_ctx" where
  "wc_CBOR_EncodeFloat ctx bits =
     (if \<not> wolfCose_CBOR_IsEncodeContext ctx then (WOLFCOSE_E_INVALID_ARG, ctx)
      else emit ctx 5 ((push_bit 5 WOLFCOSE_CBOR_SIMPLE OR 26) # wolfCose_StoreBE32 (ucast bits)))"

definition wc_CBOR_EncodeDouble :: "cbor_ctx \<Rightarrow> u64 \<Rightarrow> rc \<times> cbor_ctx" where
  "wc_CBOR_EncodeDouble ctx bits =
     (if \<not> wolfCose_CBOR_IsEncodeContext ctx then (WOLFCOSE_E_INVALID_ARG, ctx)
      else emit ctx 9 ((push_bit 5 WOLFCOSE_CBOR_SIMPLE OR 27) # wolfCose_StoreBE64 bits))"

section \<open>What the encoder promises\<close>

text \<open>
  RFC 8949, section 3: the initial byte holds the major type in its three high bits and the
  additional information in the five low ones; the shortest form is chosen.
\<close>

definition cbor_head :: "nat \<Rightarrow> nat \<Rightarrow> u8 list" where
  "cbor_head mt v =
     (if v < 24 then [of_nat (32 * mt + v)]
      else if v < 2 ^ 8 then of_nat (32 * mt + 24) # be_bytes 1 v
      else if v < 2 ^ 16 then of_nat (32 * mt + 25) # be_bytes 2 v
      else if v < 2 ^ 32 then of_nat (32 * mt + 26) # be_bytes 4 v
      else of_nat (32 * mt + 27) # be_bytes 8 v)"

text \<open>
  \<open>enc_ctx\<close>: the cursor is one a caller may hand to the encoder, with its buffer inside one
  object. \<open>written\<close> is what has been encoded so far, \<open>append_out\<close> the cursor after writing.
\<close>

definition enc_ctx :: "cbor_ctx \<Rightarrow> bool" where
  "enc_ctx c \<longleftrightarrow> (\<exists>p. ctx_buf c = Some p \<and> ctx_bufSz c \<le> length p) \<and>
     ctx_idx c \<le> ctx_bufSz c \<and> \<not> ctx_fault c"

definition written :: "cbor_ctx \<Rightarrow> u8 list" where
  "written c = take (ctx_idx c) (the (ctx_buf c))"

definition append_out :: "cbor_ctx \<Rightarrow> u8 list \<Rightarrow> cbor_ctx" where
  "append_out c bs =
     c\<lparr>ctx_buf := map_option (splice (ctx_idx c) bs) (ctx_buf c),
       ctx_idx := ctx_idx c + length bs\<rparr>"

text \<open>What a failing encoder leaves alone: everything before the cursor and beyond \<open>bufSz\<close>.\<close>

definition out_frame :: "cbor_ctx \<Rightarrow> cbor_ctx \<Rightarrow> bool" where
  "out_frame c c' \<longleftrightarrow> enc_ctx c' \<and> ctx_cbuf c' = ctx_cbuf c \<and> ctx_bufSz c' = ctx_bufSz c \<and>
     ctx_idx c \<le> ctx_idx c' \<and>
     length (the (ctx_buf c')) = length (the (ctx_buf c)) \<and>
     take (ctx_idx c) (the (ctx_buf c')) = written c \<and>
     drop (ctx_bufSz c) (the (ctx_buf c')) = drop (ctx_bufSz c) (the (ctx_buf c))"

section \<open>Every encoder is a writer\<close>

lemma head_byte:
  assumes "m < (8 :: u8)" "x < (32 :: u8)"
  shows "push_bit 5 m OR x = of_nat (32 * unat m + unat x)"
proof -
  have "\<forall>m\<in>set [0..<8]. \<forall>x\<in>set [0..<32].
      push_bit 5 (of_nat m :: u8) OR of_nat x = of_nat (32 * m + x)"
    by code_simp
  moreover have "unat m \<in> set [0..<8]" "unat x \<in> set [0..<32]"
    using assms by (simp_all add: word_less_nat_alt)
  ultimately have "push_bit 5 (of_nat (unat m) :: u8) OR of_nat (unat x) = of_nat (32 * unat m + unat x)"
    by blast
  then show ?thesis by simp
qed

lemma length_cbor_head: "length (cbor_head mt v) =
    (if v < 24 then 1 else if v < 2 ^ 8 then 2 else if v < 2 ^ 16 then 3 else if v < 2 ^ 32 then 5 else 9)"
  by (simp add: cbor_head_def)

lemma EncodeHead_emit:
  assumes "majorType < 8" "ctx_buf ctx \<noteq> None"
  shows "wolfCose_CBOR_EncodeHead ctx majorType val =
    emit ctx (length (cbor_head (unat majorType) (unat val))) (cbor_head (unat majorType) (unat val))"
proof -
  note hb = head_byte [OF assms(1)]
  have c: "unat (ucast val :: u8) = unat val" if "unat val < 256"
    using that by (intro unat_ucast_le) simp
  have lt: "ucast val < (32 :: u8)" if "unat val < 24"
    using that c by (simp add: word_less_nat_alt)
  show ?thesis
    using assms(2)
    by (simp add: wolfCose_CBOR_EncodeHead_def wolfCose_CBOR_IsEncodeContext_def cbor_head_def
        Let_def word_le_nat_alt hb lt c StoreBE16_be StoreBE32_be StoreBE64_be u8_eqI unat_of_nat_u8
        del: be_bytes_numeral of_nat_add of_nat_mult) (simp add: numeral_2_eq_2)
qed


text \<open>
  The contract. A writer of \<open>bs\<close> appends \<open>bs\<close> when the buffer has room for them, and otherwise
  says so and leaves everything before the cursor and beyond \<open>bufSz\<close> as it was.
\<close>

definition writes_exactly :: "cbor_ctx \<Rightarrow> rc \<times> cbor_ctx \<Rightarrow> u8 list \<Rightarrow> bool" where
  "writes_exactly c r bs \<longleftrightarrow> out_frame c (snd r) \<and>
     (if ctx_idx c + length bs \<le> ctx_bufSz c
      then fst r = WOLFCOSE_SUCCESS \<and> written (snd r) = written c @ bs
      else fst r = WOLFCOSE_E_BUFFER_TOO_SMALL)"

locale cbor_writer =
  fixes f :: "cbor_ctx \<Rightarrow> rc \<times> cbor_ctx" and bs :: "u8 list"
  assumes fits: "\<lbrakk>enc_ctx c; ctx_idx c + length bs \<le> ctx_bufSz c\<rbrakk> \<Longrightarrow>
      f c = (WOLFCOSE_SUCCESS, append_out c bs)"
    and nofit: "\<lbrakk>enc_ctx c; ctx_bufSz c < ctx_idx c + length bs\<rbrakk> \<Longrightarrow>
      fst (f c) = WOLFCOSE_E_BUFFER_TOO_SMALL \<and> out_frame c (snd (f c))"

lemma enc_ctxE:
  assumes "enc_ctx c"
  obtains p where "ctx_buf c = Some p" "ctx_bufSz c \<le> length p" "ctx_idx c \<le> ctx_bufSz c"
    "ctx_idx c \<le> length p" "\<not> ctx_fault c"
  using assms by (auto simp: enc_ctx_def)

lemma append_out_simps [simp]:
  "ctx_bufSz (append_out c bs) = ctx_bufSz c"
  "ctx_cbuf (append_out c bs) = ctx_cbuf c"
  "ctx_idx (append_out c bs) = ctx_idx c + length bs"
  "ctx_fault (append_out c bs) = ctx_fault c"
  by (simp_all add: append_out_def)

lemma enc_ctx_append [simp]:
  assumes "enc_ctx c" "ctx_idx c + length bs \<le> ctx_bufSz c"
  shows "enc_ctx (append_out c bs)"
  using assms by (auto simp: enc_ctx_def append_out_def)

lemma written_append [simp]:
  assumes "enc_ctx c" "ctx_idx c + length bs \<le> ctx_bufSz c"
  shows "written (append_out c bs) = written c @ bs"
  using assms by (elim enc_ctxE) (simp add: written_def append_out_def)

lemma append_append_out:
  assumes "enc_ctx c" "ctx_idx c + length as + length bs \<le> ctx_bufSz c"
  shows "append_out (append_out c as) bs = append_out c (as @ bs)"
  using assms by (elim enc_ctxE) (simp add: append_out_def splice_splice add.assoc)

lemma out_frame_refl: "enc_ctx c \<Longrightarrow> out_frame c c"
  by (simp add: out_frame_def written_def)

lemma out_frame_append:
  assumes "enc_ctx c" "ctx_idx c + length bs \<le> ctx_bufSz c"
  shows "out_frame c (append_out c bs)"
proof -
  obtain p where p: "ctx_buf c = Some p" "ctx_bufSz c \<le> length p" using assms by (elim enc_ctxE)
  have "drop (ctx_bufSz c) (splice (ctx_idx c) bs p) = drop (ctx_bufSz c) p"
    using assms p by (simp add: splice_def)
  then show ?thesis
    using assms p enc_ctx_append [OF assms]
    by (simp add: out_frame_def written_def append_out_def) (simp add: splice_def)
qed

lemma out_frame_trans: "out_frame a b \<Longrightarrow> out_frame b c \<Longrightarrow> out_frame a c"
  unfolding out_frame_def written_def
  by (auto simp: min_def) (metis min.absorb1 take_take)

lemma emit_append:
  assumes "enc_ctx c" "ctx_idx c + length bs \<le> ctx_bufSz c"
  shows "emit c (length bs) bs = (WOLFCOSE_SUCCESS, append_out c bs)"
  using assms by (auto simp: enc_ctx_def emit_def wolfCose_CBOR_HasRoom_def put_bytes_def append_out_def)

lemma emit_full:
  assumes "enc_ctx c" "ctx_bufSz c < ctx_idx c + length bs"
  shows "emit c (length bs) bs = (WOLFCOSE_E_BUFFER_TOO_SMALL, c)"
  using assms by (auto simp: enc_ctx_def emit_def wolfCose_CBOR_HasRoom_def)

lemma writer_emit:
  assumes "\<And>c. enc_ctx c \<Longrightarrow> f c = emit c (length bs) bs"
  shows "cbor_writer f bs"
  by unfold_locales (simp_all add: assms emit_append emit_full out_frame_refl)

context cbor_writer
begin

lemma success_iff: "enc_ctx c \<Longrightarrow>
    fst (f c) = WOLFCOSE_SUCCESS \<longleftrightarrow> ctx_idx c + length bs \<le> ctx_bufSz c"
  using fits [of c] nofit [of c] by (cases "ctx_idx c + length bs \<le> ctx_bufSz c") auto

lemma success_written: "\<lbrakk>enc_ctx c; f c = (WOLFCOSE_SUCCESS, c')\<rbrakk> \<Longrightarrow>
    enc_ctx c' \<and> written c' = written c @ bs"
  using success_iff [of c] fits [of c] by auto

lemma frame: "enc_ctx c \<Longrightarrow> out_frame c (snd (f c))"
  using fits [of c] nofit [of c] out_frame_append [of c bs]
  by (cases "ctx_idx c + length bs \<le> ctx_bufSz c") auto

lemma appends: "enc_ctx c \<Longrightarrow> writes_exactly c (f c) bs"
  using fits [of c] nofit [of c] frame [of c] by (auto simp: writes_exactly_def)

lemma only_too_small: "enc_ctx c \<Longrightarrow>
    fst (f c) = WOLFCOSE_SUCCESS \<or> fst (f c) = WOLFCOSE_E_BUFFER_TOO_SMALL"
  using success_iff [of c] nofit [of c] by fastforce

end

text \<open>Two writers in a row, the second run when the first succeeded, write both strings.\<close>

locale cbor_writer_seq = fst: cbor_writer f as + snd: cbor_writer g bs
  for f as g bs

sublocale cbor_writer_seq \<subseteq> seq: cbor_writer "\<lambda>c. on_success (f c) g" "as @ bs"
proof
  fix c assume c: "enc_ctx c" "ctx_idx c + length (as @ bs) \<le> ctx_bufSz c"
  then have "enc_ctx (append_out c as)" by simp
  with c show "on_success (f c) g = (WOLFCOSE_SUCCESS, append_out c (as @ bs))"
    by (simp add: fst.fits snd.fits append_append_out)
next
  fix c assume c: "enc_ctx c" "ctx_bufSz c < ctx_idx c + length (as @ bs)"
  show "Product_Type.fst (on_success (f c) g) = WOLFCOSE_E_BUFFER_TOO_SMALL \<and>
      out_frame c (Product_Type.snd (on_success (f c) g))"
  proof (cases "ctx_idx c + length as \<le> ctx_bufSz c")
    case True
    then have "enc_ctx (append_out c as)" "out_frame c (append_out c as)"
      using c out_frame_append by simp_all
    then show ?thesis
      using snd.nofit [of "append_out c as"] c True out_frame_trans
      by (auto simp: fst.fits)
  next
    case False
    then have "Product_Type.fst (f c) = WOLFCOSE_E_BUFFER_TOO_SMALL \<and> out_frame c (Product_Type.snd (f c))"
      using fst.nofit [of c] c by simp
    then show ?thesis by (simp add: on_success_def)
  qed
qed

context cbor_writer_seq
begin

lemma in_sequence: "cbor_writer (\<lambda>c. on_success (f c) g) (as @ bs)"
  by unfold_locales

end

lemma writer_seq:
  assumes "cbor_writer f as" "cbor_writer g bs"
  shows "cbor_writer (\<lambda>c. on_success (f c) g) (as @ bs)"
  by (rule cbor_writer_seq.in_sequence) (intro cbor_writer_seq.intro assms)

lemma writer_cong:
  "cbor_writer f bs \<Longrightarrow> (\<And>c. enc_ctx c \<Longrightarrow> g c = f c) \<Longrightarrow> cbor_writer g bs"
  unfolding cbor_writer_def by auto

lemma writer_nothing: "cbor_writer (\<lambda>c. (WOLFCOSE_SUCCESS, c)) []"
  by unfold_locales (auto simp: append_out_def enc_ctx_def intro: cbor_ctx.equality)

section \<open>The encoders are writers\<close>

interpretation head: cbor_writer
  "\<lambda>c. wolfCose_CBOR_EncodeHead c (of_nat (mt mod 8)) v" "cbor_head (mt mod 8) (unat v)" for mt v
proof (rule writer_emit)
  fix c assume "enc_ctx c"
  moreover have "mt mod 8 < 256" by (rule less_le_trans [of _ 8]) simp_all
  then have "unat (of_nat (mt mod 8) :: u8) = mt mod 8" by (simp add: unat_of_nat_u8)
  ultimately show "wolfCose_CBOR_EncodeHead c (of_nat (mt mod 8)) v = 
    emit c (length (cbor_head (mt mod 8) (unat v))) (cbor_head (mt mod 8) (unat v))"
    by (subst EncodeHead_emit) (auto simp: word_less_nat_alt enc_ctx_def)
qed

lemma writer_head:
  "mt < 8 \<Longrightarrow> cbor_writer (\<lambda>c. wolfCose_CBOR_EncodeHead c mt v) (cbor_head (unat mt) (unat v))"
  using head.cbor_writer_axioms [of "unat mt" v] by (simp add: word_less_nat_alt)

interpretation uint: cbor_writer "\<lambda>c. wc_CBOR_EncodeUint c v" "cbor_head 0 (unat v)" for v
  using writer_head [of 0 v] by (simp add: wc_CBOR_EncodeUint_def)

interpretation array: cbor_writer
  "\<lambda>c. wc_CBOR_EncodeArrayStart c n" "cbor_head 4 (n mod 2 ^ 64)" for n
  using writer_head [of 4 "of_nat n"] by (simp add: wc_CBOR_EncodeArrayStart_def unat_of_nat)

interpretation map: cbor_writer
  "\<lambda>c. wc_CBOR_EncodeMapStart c n" "cbor_head 5 (n mod 2 ^ 64)" for n
  using writer_head [of 5 "of_nat n"] by (simp add: wc_CBOR_EncodeMapStart_def unat_of_nat)

interpretation tag: cbor_writer "\<lambda>c. wc_CBOR_EncodeTag c t" "cbor_head 6 (unat t)" for t
  using writer_head [of 6 t] by (simp add: wc_CBOR_EncodeTag_def)

text \<open>The integer \<open>n\<close> is the unsigned head \<open>n\<close>, or the negative head \<open>-1 - n\<close>.\<close>

definition cbor_int :: "int \<Rightarrow> u8 list" where
  "cbor_int n = (if 0 \<le> n then cbor_head 0 (nat n) else cbor_head 1 (nat (- 1 - n)))"


interpretation int: cbor_writer "\<lambda>c. wc_CBOR_EncodeInt c v" "cbor_int (sint v)" for v
proof (cases "0 \<le> sint v")
  case True
  then show "cbor_writer (\<lambda>c. wc_CBOR_EncodeInt c v) (cbor_int (sint v))"
    using writer_head [of 0 v]
    by (simp add: wc_CBOR_EncodeInt_def cbor_int_def unat_sint_nonneg)
next
  case False
  then show "cbor_writer (\<lambda>c. wc_CBOR_EncodeInt c v) (cbor_int (sint v))"
    using writer_head [of 1 "- (v + 1)"] unat_neg_Suc [of v]
    by (simp add: wc_CBOR_EncodeInt_def cbor_int_def)
qed

lemma simple_emit: "ctx_buf c \<noteq> None \<Longrightarrow> wolfCose_CBOR_EncodeSimpleVal c b = emit c (length [b]) [b]"
  by (simp add: wolfCose_CBOR_EncodeSimpleVal_def emit_def wolfCose_CBOR_IsEncodeContext_def)

interpretation simple: cbor_writer "\<lambda>c. wolfCose_CBOR_EncodeSimpleVal c b" "[b]" for b
  by (rule writer_emit) (auto simp: simple_emit enc_ctx_def)

interpretation true_val: cbor_writer wc_CBOR_EncodeTrue "[0xF5]"
  using simple.cbor_writer_axioms [of "0xF5"] by (simp add: wc_CBOR_EncodeTrue_def [abs_def])

interpretation false_val: cbor_writer wc_CBOR_EncodeFalse "[0xF4]"
  using simple.cbor_writer_axioms [of "0xF4"] by (simp add: wc_CBOR_EncodeFalse_def [abs_def])

interpretation null_val: cbor_writer wc_CBOR_EncodeNull "[0xF6]"
  using simple.cbor_writer_axioms [of "0xF6"] by (simp add: wc_CBOR_EncodeNull_def [abs_def])

interpretation float: cbor_writer "\<lambda>c. wc_CBOR_EncodeFloat c bits" "0xFA # be_bytes 4 (unat bits)" for bits
proof (rule writer_emit)
  fix c assume "enc_ctx c"
  moreover have "unat bits < 2 ^ 32" using unsigned_less [of bits, where 'a = nat] by simp
  then have "wolfCose_StoreBE32 (ucast bits) = be_bytes 4 (unat bits)"
    by (simp add: StoreBE32_be unat_ucast_u64 del: be_bytes_numeral)
  ultimately show "wc_CBOR_EncodeFloat c bits = emit c (length (0xFA # be_bytes 4 (unat bits))) (0xFA # be_bytes 4 (unat bits))"
    by (auto simp: enc_ctx_def wc_CBOR_EncodeFloat_def wolfCose_CBOR_IsEncodeContext_def simp del: be_bytes_numeral)
qed

interpretation double: cbor_writer "\<lambda>c. wc_CBOR_EncodeDouble c bits" "0xFB # be_bytes 8 (unat bits)" for bits
  by (rule writer_emit)
    (auto simp: enc_ctx_def wc_CBOR_EncodeDouble_def wolfCose_CBOR_IsEncodeContext_def StoreBE64_be simp del: be_bytes_numeral)

text \<open>The \<open>len\<close> bytes a pointer leads to.\<close>

definition bytes_at :: "cptr \<Rightarrow> size \<Rightarrow> u8 list" where
  "bytes_at data len = (case data of None \<Rightarrow> [] | Some p \<Rightarrow> take len p)"

definition readable :: "cptr \<Rightarrow> size \<Rightarrow> bool" where
  "readable data len \<longleftrightarrow> len \<le> mem_len data \<and> len < 2 ^ 64"

lemma length_bytes_at [simp]: "readable data len \<Longrightarrow> length (bytes_at data len) = len"
  by (cases data) (simp_all add: bytes_at_def readable_def)

lemma readable_Some [simp]: "readable (Some p) len \<longleftrightarrow> len \<le> length p \<and> len < 2 ^ 64"
  by (simp add: readable_def)

lemma readable_None [simp]: "readable None len \<longleftrightarrow> len = 0"
  by (auto simp add: readable_def)

lemma bytes_at_simps [simp]: "bytes_at (Some p) len = take len p" "bytes_at None len = []"
  by (simp_all add: bytes_at_def)

lemma writer_bytes:
  assumes "mt < 8" "readable data len"
  shows "cbor_writer (\<lambda>c. wolfCose_CBOR_EncodeBytes c mt data len)
     (cbor_head (unat mt) len @ bytes_at data len)"
proof -
  let ?copy = "\<lambda>ctx. if len > sz_sub (ctx_bufSz ctx) (ctx_idx ctx) then (WOLFCOSE_E_BUFFER_TOO_SMALL, ctx)
     else let ctx' = (if len > 0 then
                        (if len \<le> mem_len data then put_bytes ctx (take len (the data))
                         else ctx\<lparr>ctx_fault := True\<rparr>)
                      else ctx)
          in (WOLFCOSE_SUCCESS, ctx'\<lparr>ctx_idx := ctx_idx ctx' + len\<rparr>)"
  have head: "cbor_writer (\<lambda>c. wolfCose_CBOR_EncodeHead c mt (of_nat len)) (cbor_head (unat mt) len)"
    using writer_head [OF assms(1), of "of_nat len"] assms(2) by (simp add: unat_of_nat readable_def)
  have "cbor_writer ?copy (bytes_at data len)"
  proof (rule writer_emit)
    fix c assume c: "enc_ctx c"
    show "?copy c = emit c (length (bytes_at data len)) (bytes_at data len)"
    proof (cases data)
      case None
      then show ?thesis using assms(2) c
        by (auto simp: enc_ctx_def emit_def wolfCose_CBOR_HasRoom_def put_bytes_def readable_def)
    next
      case (Some d)
      then show ?thesis using assms(2) c
        by (cases "len = 0") (auto simp: enc_ctx_def emit_def wolfCose_CBOR_HasRoom_def put_bytes_def)
    qed
  qed
  moreover have "(data = None \<and> len > 0) = False" using assms(2) by (cases data) auto
  ultimately show ?thesis
    using writer_seq [OF head] by (simp only: wolfCose_CBOR_EncodeBytes_def if_False)
qed

lemma writer_bstr:
  "readable data len \<Longrightarrow>
     cbor_writer (\<lambda>c. wc_CBOR_EncodeBstr c data len) (cbor_head 2 len @ bytes_at data len)"
  using writer_bytes [of 2 data len] by (simp add: wc_CBOR_EncodeBstr_def)

lemma writer_tstr:
  "readable data len \<Longrightarrow> wolfCose_CBOR_IsUtf8 data len \<Longrightarrow>
     cbor_writer (\<lambda>c. wc_CBOR_EncodeTstr c data len) (cbor_head 3 len @ bytes_at data len)"
  by (rule writer_cong [OF writer_bytes [of 3 data len, simplified]])
    (auto simp: wc_CBOR_EncodeTstr_def enc_ctx_def wolfCose_CBOR_IsEncodeContext_def)

section \<open>The properties\<close>

text \<open>C30: the head encoder appends exactly the preferred (shortest) RFC 8949 head of the major
type and argument at the cursor, and moves the cursor behind it, when it fits; otherwise it reports a too
small buffer. Nothing else of the context changes: not a byte of the buffer before or behind the head, and
on a failure nothing at all.\<close>

theorem EncodeHead_writes:
  assumes "mt < 8" "enc_ctx c"
  shows "wolfCose_CBOR_EncodeHead c mt v =
    (let head = cbor_head (unat mt) (unat v)
     in if ctx_idx c + length head \<le> ctx_bufSz c
        then (WOLFCOSE_SUCCESS, c\<lparr>ctx_buf := map_option (splice (ctx_idx c) head) (ctx_buf c), ctx_idx := ctx_idx c + length head\<rparr>)
        else (WOLFCOSE_E_BUFFER_TOO_SMALL, c))"
proof -
  have "ctx_buf c \<noteq> None" using assms(2) by (auto elim: enc_ctxE)
  from EncodeHead_emit [OF assms(1) this] show ?thesis
    using emit_append [OF assms(2)] emit_full [OF assms(2)] by (simp add: Let_def append_out_def not_le)
qed

definition enc_example :: cbor_ctx where
  "enc_example = \<lparr> ctx_buf = Some (replicate 12 0), ctx_cbuf = None, ctx_bufSz = 8, ctx_idx = 2,
     ctx_fault = False \<rparr>"

lemma enc_example_ok: "enc_ctx enc_example"
  by (simp add: enc_ctx_def enc_example_def)

lemma EncodeHead_writes_witness:
  "wolfCose_CBOR_EncodeHead enc_example 4 1000 = (WOLFCOSE_SUCCESS, enc_example\<lparr>ctx_buf := Some [0, 0, 0x99, 0x03, 0xE8, 0, 0, 0, 0, 0, 0, 0],
     ctx_idx := 5\<rparr>) \<and>
   wolfCose_CBOR_EncodeHead enc_example 0 0x100000000 = (WOLFCOSE_E_BUFFER_TOO_SMALL, enc_example)"
proof -
  have h: "cbor_head 4 1000 = [0x99, 0x03, 0xE8]" "length (cbor_head 0 4294967296) = 9"
    by (simp_all add: cbor_head_def length_cbor_head)
  have b: "splice 2 [0x99, 0x03, 0xE8] (replicate 12 0) = [0, 0, 0x99, 0x03, 0xE8, 0, 0, 0, 0, 0, 0, 0 :: u8]"
    by (simp add: splice_def numeral_eq_Suc)
  have e: "ctx_idx enc_example = 2" "ctx_bufSz enc_example = 8" "ctx_buf enc_example = Some (replicate 12 0)"
    by (simp_all add: enc_example_def)
  have "wolfCose_CBOR_EncodeHead enc_example 4 1000 = (WOLFCOSE_SUCCESS,
      enc_example\<lparr>ctx_buf := Some [0, 0, 0x99, 0x03, 0xE8, 0, 0, 0, 0, 0, 0, 0], ctx_idx := 5\<rparr>)"
    using EncodeHead_writes [of 4 enc_example 1000] enc_example_ok h(1) b e by (simp add: word_less_nat_alt)
  moreover have "wolfCose_CBOR_EncodeHead enc_example 0 0x100000000 = (WOLFCOSE_E_BUFFER_TOO_SMALL, enc_example)"
    using EncodeHead_writes [of 0 enc_example 4294967296] enc_example_ok h(2) e by (simp add: Let_def)
  ultimately show ?thesis ..
qed

text \<open>Every signed 64-bit integer is encoded as RFC 8949 prescribes, the extremes included.\<close>

lemma EncodeInt_writes:
  assumes "enc_ctx c"
  shows "writes_exactly c (wc_CBOR_EncodeInt c v) (cbor_int (sint v))"
  by (rule int.appends [OF assms])

lemma EncodeInt_writes_witness:
  "writes_exactly enc_example (wc_CBOR_EncodeInt enc_example (- 256)) [0x38, 0xFF]"
  using EncodeInt_writes [of enc_example "- 256"] enc_example_ok
  by (simp add: cbor_int_def cbor_head_def sint_cases64)

text \<open>C32: the text-string encoder writes the head and the bytes exactly when they are UTF-8, and
otherwise reports malformed CBOR with the cursor and the buffer as they were.\<close>

theorem EncodeTstr_writes:
  assumes "enc_ctx c" "readable data len"
  shows "if wolfCose_CBOR_IsUtf8 data len
         then writes_exactly c (wc_CBOR_EncodeTstr c data len) (cbor_head 3 len @ bytes_at data len)
         else wc_CBOR_EncodeTstr c data len = (WOLFCOSE_E_CBOR_MALFORMED, c)"
proof (cases "wolfCose_CBOR_IsUtf8 data len")
  case True
  then show ?thesis
    using cbor_writer.appends [OF writer_tstr [OF assms(2) True] assms(1)] by simp
next
  case False
  then have "data \<noteq> None" using assms(2) by (cases data) (simp_all add: wolfCose_CBOR_IsUtf8_def)
  then show ?thesis
    using False assms(1) by (simp add: wc_CBOR_EncodeTstr_def enc_ctx_def wolfCose_CBOR_IsEncodeContext_def) blast
qed

lemma EncodeTstr_writes_witness:
  "writes_exactly enc_example (wc_CBOR_EncodeTstr enc_example (Some [0x61, 0x62]) 2) [0x62, 0x61, 0x62] \<and>
   wc_CBOR_EncodeTstr enc_example (Some [0x61, 0xFF]) 2 = (WOLFCOSE_E_CBOR_MALFORMED, enc_example)"
proof -
  have u: "wolfCose_CBOR_IsUtf8 (Some [0x61, 0x62]) 2" "\<not> wolfCose_CBOR_IsUtf8 (Some [0x61, 0xFF]) 2"
    by code_simp+
  show ?thesis
    using EncodeTstr_writes [of enc_example "Some [0x61, 0x62]" 2]
      EncodeTstr_writes [of enc_example "Some [0x61, 0xFF]" 2] enc_example_ok u
    by (simp add: cbor_head_def)
qed

end
