(* ===== verification/Cbor_Decode.thy ===== *)
theory Cbor_Decode
  imports Cbor_Encode
begin

text \<open>
  The CBOR decoder (the decode half of \<open>src/wolfcose_cbor.c\<close>, \<open>wc_CBOR_Skip\<close> apart). The head
  decoder is characterised in both directions against the byte format: it succeeds exactly on
  the heads of RFC 8949 (the preferred ones unless the tolerant profile is selected), moves the
  cursor by their length and never reads outside the buffer; each typed decoder is then a
  \<open>cbor_reader\<close>.
\<close>

section \<open>The decoder\<close>

record cbor_item =
  item_majorType :: u8
  item_val :: u64
  item_data :: cptr
  item_dataLen :: size

text \<open>
  A local \<open>WOLFCOSE_CBOR_ITEM item\<close> of the code: its fields are assigned by the head decoder
  before anything reads them.
\<close>

definition local_item :: cbor_item where
  "local_item = \<lparr> item_majorType = 0, item_val = 0, item_data = None, item_dataLen = 0 \<rparr>"

definition DECODE_ALLOW_NONPREFERRED :: u32 where
  "DECODE_ALLOW_NONPREFERRED = 1"

definition DECODE_FLAGS_VALID :: "build \<Rightarrow> u32 \<Rightarrow> bool" where
  "DECODE_FLAGS_VALID b flags \<longleftrightarrow>
     (if eat_psa_verify b then flags AND NOT DECODE_ALLOW_NONPREFERRED = 0 else flags = 0)"

definition wolfCose_CBOR_AllowsNonpreferred :: "build \<Rightarrow> u32 \<Rightarrow> bool" where
  "wolfCose_CBOR_AllowsNonpreferred b decodeFlags \<longleftrightarrow>
     (if eat_psa_verify b then decodeFlags AND DECODE_ALLOW_NONPREFERRED \<noteq> 0 else False)"

definition wc_CBOR_DecoderInit :: "cbor_ctx \<Rightarrow> cptr \<Rightarrow> size \<Rightarrow> rc \<times> cbor_ctx" where
  "wc_CBOR_DecoderInit ctx buf bufSz =
     (if buf \<noteq> None
      then (WOLFCOSE_SUCCESS, ctx\<lparr>ctx_buf := None, ctx_cbuf := buf, ctx_bufSz := bufSz, ctx_idx := 0\<rparr>)
      else (WOLFCOSE_E_INVALID_ARG, ctx))"

definition wc_CBOR_PeekType :: "cbor_ctx \<Rightarrow> u8" where
  "wc_CBOR_PeekType ctx =
     (if ctx_cbuf ctx \<noteq> None \<and> ctx_idx ctx < ctx_bufSz ctx
      then ucast (drop_bit 5 (ucast (cbuf_at ctx ! 0) :: u32)) else 0xFF)"

text \<open>The argument of the head: the branches on the additional information \<open>ai\<close>.\<close>

definition read_arg ::
  "cbor_ctx \<Rightarrow> cbor_item \<Rightarrow> size \<Rightarrow> (u8 list \<Rightarrow> u64) \<Rightarrow> rc \<times> cbor_ctx \<times> cbor_item" where
  "read_arg ctx item n load =
     (if sz_add (ctx_idx ctx) n > ctx_bufSz ctx then (WOLFCOSE_E_CBOR_MALFORMED, ctx, item)
      else (WOLFCOSE_SUCCESS, (get_check ctx n)\<lparr>ctx_idx := ctx_idx ctx + n\<rparr>,
            item\<lparr>item_val := load (cbuf_at ctx)\<rparr>))"

definition head_arg :: "cbor_ctx \<Rightarrow> cbor_item \<Rightarrow> u8 \<Rightarrow> rc \<times> cbor_ctx \<times> cbor_item" where
  "head_arg ctx item ai =
     (if ai \<le> 23 then (WOLFCOSE_SUCCESS, ctx, item\<lparr>item_val := ucast ai\<rparr>)
      else if ai = WOLFCOSE_CBOR_AI_1BYTE then read_arg ctx item 1 (\<lambda>p. ucast (p ! 0))
      else if ai = WOLFCOSE_CBOR_AI_2BYTE
        then read_arg ctx item 2 (\<lambda>p. ucast (wolfCose_LoadBE16 p))
      else if ai = WOLFCOSE_CBOR_AI_4BYTE
        then read_arg ctx item 4 (\<lambda>p. ucast (wolfCose_LoadBE32 p))
      else if ai = WOLFCOSE_CBOR_AI_8BYTE then read_arg ctx item 8 wolfCose_LoadBE64
      else if ai = WOLFCOSE_CBOR_AI_INDEF then (WOLFCOSE_E_UNSUPPORTED, ctx, item)
      else (WOLFCOSE_E_CBOR_MALFORMED, ctx, item))"

text \<open>The two checks on the argument: short simple values, and preferred serialization.\<close>

definition head_checks :: "build \<Rightarrow> u32 \<Rightarrow> u8 \<Rightarrow> cbor_ctx \<times> cbor_item \<Rightarrow> rc \<times> cbor_ctx \<times> cbor_item"
where
  "head_checks b decodeFlags ai s =
     (case s of (ctx, item) \<Rightarrow>
       if item_majorType item = WOLFCOSE_CBOR_SIMPLE \<and> ai = WOLFCOSE_CBOR_AI_1BYTE \<and>
          item_val item < 32
       then (WOLFCOSE_E_CBOR_MALFORMED, s)
       else if \<not> wolfCose_CBOR_AllowsNonpreferred b decodeFlags \<and>
          item_majorType item \<noteq> WOLFCOSE_CBOR_SIMPLE \<and>
          (ai = WOLFCOSE_CBOR_AI_1BYTE \<and> item_val item < 24 \<or>
           ai = WOLFCOSE_CBOR_AI_2BYTE \<and> item_val item < 256 \<or>
           ai = WOLFCOSE_CBOR_AI_4BYTE \<and> item_val item < 0x10000 \<or>
           ai = WOLFCOSE_CBOR_AI_8BYTE \<and> item_val item < 0x100000000)
       then (WOLFCOSE_E_CBOR_MALFORMED, s)
       else (WOLFCOSE_SUCCESS, s))"

text \<open>The content of a string: its length against the bytes left, and UTF-8 for text.\<close>

definition head_string :: "cbor_ctx \<times> cbor_item \<Rightarrow> rc \<times> cbor_ctx \<times> cbor_item" where
  "head_string s =
     (case s of (ctx, item) \<Rightarrow>
       if item_majorType item = WOLFCOSE_CBOR_BSTR \<or> item_majorType item = WOLFCOSE_CBOR_TSTR
       then
         if unat (item_val item) > sz_sub (ctx_bufSz ctx) (ctx_idx ctx)
         then (WOLFCOSE_E_CBOR_MALFORMED, s)
         else
           let item' = item\<lparr>item_data := map_option (drop (ctx_idx ctx)) (ctx_cbuf ctx),
                            item_dataLen := unat (item_val item)\<rparr>;
               ctx' = (get_check ctx (unat (item_val item)))\<lparr>ctx_idx := ctx_idx ctx + unat (item_val item)\<rparr>
           in if item_majorType item' = WOLFCOSE_CBOR_TSTR \<and>
                 \<not> wolfCose_CBOR_IsUtf8 (item_data item') (item_dataLen item')
              then (WOLFCOSE_E_CBOR_MALFORMED, ctx', item')
              else (WOLFCOSE_SUCCESS, ctx', item')
       else (WOLFCOSE_SUCCESS, s))"

definition wolfCose_CBOR_DecodeHead_ex ::
  "build \<Rightarrow> cbor_ctx \<Rightarrow> cbor_item \<Rightarrow> u32 \<Rightarrow> rc \<times> cbor_ctx \<times> cbor_item" where
  "wolfCose_CBOR_DecodeHead_ex b ctx item decodeFlags =
     (if ctx_cbuf ctx = None \<or> \<not> DECODE_FLAGS_VALID b decodeFlags
        then (WOLFCOSE_E_INVALID_ARG, ctx, item)
      else if ctx_idx ctx \<ge> ctx_bufSz ctx then (WOLFCOSE_E_CBOR_MALFORMED, ctx, item)
      else
        let ib = cbuf_at ctx ! 0;
            ctx1 = (get_check ctx 1)\<lparr>ctx_idx := ctx_idx ctx + 1\<rparr>;
            item1 = item\<lparr>item_majorType := ucast (drop_bit 5 (ucast ib :: u32)),
                         item_data := None, item_dataLen := 0\<rparr>;
            ai = ib AND 0x1F
        in on_success (on_success (head_arg ctx1 item1 ai)
             (head_checks b decodeFlags ai)) head_string)"

definition wolfCose_CBOR_DecodeHead :: "build \<Rightarrow> cbor_ctx \<Rightarrow> cbor_item \<Rightarrow> rc \<times> cbor_ctx \<times> cbor_item"
where
  "wolfCose_CBOR_DecodeHead b ctx item = wolfCose_CBOR_DecodeHead_ex b ctx item 0"

definition wc_CBOR_DecodeHead :: "build \<Rightarrow> cbor_ctx \<Rightarrow> cbor_item \<Rightarrow> rc \<times> cbor_ctx \<times> cbor_item"
where
  "wc_CBOR_DecodeHead b ctx item = wolfCose_CBOR_DecodeHead_ex b ctx item 0"

text \<open>
  A typed decoder reads a head into a local item, checks it, and assigns its output variable;
  the result carries the output variable, unchanged (\<open>val\<close>) when the call fails.
\<close>

definition wolfCose_CBOR_DecodeUint_ex :: "build \<Rightarrow> cbor_ctx \<Rightarrow> u64 \<Rightarrow> u32 \<Rightarrow> rc \<times> cbor_ctx \<times> u64"
where
  "wolfCose_CBOR_DecodeUint_ex b ctx val decodeFlags =
     (case wolfCose_CBOR_DecodeHead_ex b ctx local_item decodeFlags of (ret, ctx, item) \<Rightarrow>
        if ret \<noteq> WOLFCOSE_SUCCESS then (ret, ctx, val)
        else if item_majorType item \<noteq> WOLFCOSE_CBOR_UINT then (WOLFCOSE_E_CBOR_TYPE, ctx, val)
        else (WOLFCOSE_SUCCESS, ctx, item_val item))"

definition wc_CBOR_DecodeUint :: "build \<Rightarrow> cbor_ctx \<Rightarrow> u64 \<Rightarrow> rc \<times> cbor_ctx \<times> u64" where
  "wc_CBOR_DecodeUint b ctx val = wolfCose_CBOR_DecodeUint_ex b ctx val 0"

definition wolfCose_CBOR_DecodeInt_ex :: "build \<Rightarrow> cbor_ctx \<Rightarrow> i64 \<Rightarrow> u32 \<Rightarrow> rc \<times> cbor_ctx \<times> i64"
where
  "wolfCose_CBOR_DecodeInt_ex b ctx val decodeFlags =
     (case wolfCose_CBOR_DecodeHead_ex b ctx local_item decodeFlags of (ret, ctx, item) \<Rightarrow>
        if ret \<noteq> WOLFCOSE_SUCCESS then (ret, ctx, val)
        else if item_majorType item = WOLFCOSE_CBOR_UINT then
          (if item_val item > of_int INT64_MAX then (WOLFCOSE_E_CBOR_OVERFLOW, ctx, val)
           else (WOLFCOSE_SUCCESS, ctx, item_val item))
        else if item_majorType item = WOLFCOSE_CBOR_NEGINT then
          (if item_val item > of_int INT64_MAX then (WOLFCOSE_E_CBOR_OVERFLOW, ctx, val)
           else (WOLFCOSE_SUCCESS, ctx, - 1 - item_val item))
        else (WOLFCOSE_E_CBOR_TYPE, ctx, val))"

definition wc_CBOR_DecodeInt :: "build \<Rightarrow> cbor_ctx \<Rightarrow> i64 \<Rightarrow> rc \<times> cbor_ctx \<times> i64" where
  "wc_CBOR_DecodeInt b ctx val = wolfCose_CBOR_DecodeInt_ex b ctx val 0"

text \<open>The output of the string decoders is the pair of \<open>*data\<close> and \<open>*dataLen\<close>.\<close>

definition wolfCose_CBOR_DecodeBytes_ex ::
  "build \<Rightarrow> cbor_ctx \<Rightarrow> u8 \<Rightarrow> cptr \<times> size \<Rightarrow> u32 \<Rightarrow> rc \<times> cbor_ctx \<times> cptr \<times> size" where
  "wolfCose_CBOR_DecodeBytes_ex b ctx majorType out decodeFlags =
     (case wolfCose_CBOR_DecodeHead_ex b ctx local_item decodeFlags of (ret, ctx, item) \<Rightarrow>
        if ret \<noteq> WOLFCOSE_SUCCESS then (ret, ctx, out)
        else if item_majorType item \<noteq> majorType then (WOLFCOSE_E_CBOR_TYPE, ctx, out)
        else (WOLFCOSE_SUCCESS, ctx, item_data item, item_dataLen item))"

definition wolfCose_CBOR_DecodeBstr_ex ::
  "build \<Rightarrow> cbor_ctx \<Rightarrow> cptr \<times> size \<Rightarrow> u32 \<Rightarrow> rc \<times> cbor_ctx \<times> cptr \<times> size" where
  "wolfCose_CBOR_DecodeBstr_ex b ctx out decodeFlags =
     wolfCose_CBOR_DecodeBytes_ex b ctx WOLFCOSE_CBOR_BSTR out decodeFlags"

definition wc_CBOR_DecodeBstr :: "build \<Rightarrow> cbor_ctx \<Rightarrow> cptr \<times> size \<Rightarrow> rc \<times> cbor_ctx \<times> cptr \<times> size"
where
  "wc_CBOR_DecodeBstr b ctx out = wolfCose_CBOR_DecodeBstr_ex b ctx out 0"

definition wolfCose_CBOR_DecodeTstr_ex ::
  "build \<Rightarrow> cbor_ctx \<Rightarrow> cptr \<times> size \<Rightarrow> u32 \<Rightarrow> rc \<times> cbor_ctx \<times> cptr \<times> size" where
  "wolfCose_CBOR_DecodeTstr_ex b ctx out decodeFlags =
     wolfCose_CBOR_DecodeBytes_ex b ctx WOLFCOSE_CBOR_TSTR out decodeFlags"

definition wc_CBOR_DecodeTstr :: "build \<Rightarrow> cbor_ctx \<Rightarrow> cptr \<times> size \<Rightarrow> rc \<times> cbor_ctx \<times> cptr \<times> size"
where
  "wc_CBOR_DecodeTstr b ctx out = wolfCose_CBOR_DecodeTstr_ex b ctx out 0"

definition wolfCose_CBOR_DecodeContainerStart_ex ::
  "build \<Rightarrow> cbor_ctx \<Rightarrow> u8 \<Rightarrow> size \<Rightarrow> u32 \<Rightarrow> rc \<times> cbor_ctx \<times> size" where
  "wolfCose_CBOR_DecodeContainerStart_ex b ctx majorType count decodeFlags =
     (case wolfCose_CBOR_DecodeHead_ex b ctx local_item decodeFlags of (ret, ctx, item) \<Rightarrow>
        if ret \<noteq> WOLFCOSE_SUCCESS then (ret, ctx, count)
        else if item_majorType item \<noteq> majorType then (WOLFCOSE_E_CBOR_TYPE, ctx, count)
        else if majorType = WOLFCOSE_CBOR_ARRAY \<and>
                unat (item_val item) > sz_sub (ctx_bufSz ctx) (ctx_idx ctx) \<or>
                majorType = WOLFCOSE_CBOR_MAP \<and>
                unat (item_val item) > sz_sub (ctx_bufSz ctx) (ctx_idx ctx) div 2
        then (WOLFCOSE_E_CBOR_MALFORMED, ctx, count)
        else (WOLFCOSE_SUCCESS, ctx, unat (item_val item)))"

definition wolfCose_CBOR_DecodeArrayStart_ex ::
  "build \<Rightarrow> cbor_ctx \<Rightarrow> size \<Rightarrow> u32 \<Rightarrow> rc \<times> cbor_ctx \<times> size" where
  "wolfCose_CBOR_DecodeArrayStart_ex b ctx count decodeFlags =
     wolfCose_CBOR_DecodeContainerStart_ex b ctx WOLFCOSE_CBOR_ARRAY count decodeFlags"

definition wc_CBOR_DecodeArrayStart :: "build \<Rightarrow> cbor_ctx \<Rightarrow> size \<Rightarrow> rc \<times> cbor_ctx \<times> size" where
  "wc_CBOR_DecodeArrayStart b ctx count = wolfCose_CBOR_DecodeArrayStart_ex b ctx count 0"

definition wolfCose_CBOR_DecodeMapStart_ex ::
  "build \<Rightarrow> cbor_ctx \<Rightarrow> size \<Rightarrow> u32 \<Rightarrow> rc \<times> cbor_ctx \<times> size" where
  "wolfCose_CBOR_DecodeMapStart_ex b ctx count decodeFlags =
     wolfCose_CBOR_DecodeContainerStart_ex b ctx WOLFCOSE_CBOR_MAP count decodeFlags"

definition wc_CBOR_DecodeMapStart :: "build \<Rightarrow> cbor_ctx \<Rightarrow> size \<Rightarrow> rc \<times> cbor_ctx \<times> size" where
  "wc_CBOR_DecodeMapStart b ctx count = wolfCose_CBOR_DecodeMapStart_ex b ctx count 0"

definition wolfCose_CBOR_DecodeTag_ex :: "build \<Rightarrow> cbor_ctx \<Rightarrow> u64 \<Rightarrow> u32 \<Rightarrow> rc \<times> cbor_ctx \<times> u64"
where
  "wolfCose_CBOR_DecodeTag_ex b ctx tag decodeFlags =
     (case wolfCose_CBOR_DecodeHead_ex b ctx local_item decodeFlags of (ret, ctx, item) \<Rightarrow>
        if ret \<noteq> WOLFCOSE_SUCCESS then (ret, ctx, tag)
        else if item_majorType item \<noteq> WOLFCOSE_CBOR_TAG then (WOLFCOSE_E_CBOR_TYPE, ctx, tag)
        else (WOLFCOSE_SUCCESS, ctx, item_val item))"

definition wc_CBOR_DecodeTag :: "build \<Rightarrow> cbor_ctx \<Rightarrow> u64 \<Rightarrow> rc \<times> cbor_ctx \<times> u64" where
  "wc_CBOR_DecodeTag b ctx tag = wolfCose_CBOR_DecodeTag_ex b ctx tag 0"

text \<open>Map labels.\<close>

record cbor_label =
  label_val :: i64
  label_text :: cptr
  label_textLen :: size
  label_isText :: bool

definition wolfCose_CBOR_DecodeLabel_ex ::
  "build \<Rightarrow> cbor_ctx \<Rightarrow> cbor_label \<Rightarrow> u32 \<Rightarrow> rc \<times> cbor_ctx \<times> cbor_label" where
  "wolfCose_CBOR_DecodeLabel_ex b ctx label decodeFlags =
     (case wolfCose_CBOR_DecodeHead_ex b ctx local_item decodeFlags of (ret, ctx, item) \<Rightarrow>
        if ret \<noteq> WOLFCOSE_SUCCESS then (ret, ctx, label)
        else
          let label = \<lparr> label_val = 0, label_text = None, label_textLen = 0, label_isText = False \<rparr>
          in if item_majorType item = WOLFCOSE_CBOR_UINT then
               (if item_val item > of_int INT64_MAX then (WOLFCOSE_E_CBOR_OVERFLOW, ctx, label)
                else (WOLFCOSE_SUCCESS, ctx, label\<lparr>label_val := item_val item\<rparr>))
             else if item_majorType item = WOLFCOSE_CBOR_NEGINT then
               (if item_val item > of_int INT64_MAX then (WOLFCOSE_E_CBOR_OVERFLOW, ctx, label)
                else (WOLFCOSE_SUCCESS, ctx, label\<lparr>label_val := - 1 - item_val item\<rparr>))
             else if item_majorType item = WOLFCOSE_CBOR_TSTR then
               (WOLFCOSE_SUCCESS, ctx,
                label\<lparr>label_text := item_data item, label_textLen := item_dataLen item,
                      label_isText := True\<rparr>)
             else (WOLFCOSE_E_CBOR_TYPE, ctx, label))"

definition wc_CBOR_DecodeLabel :: "build \<Rightarrow> cbor_ctx \<Rightarrow> cbor_label \<Rightarrow> rc \<times> cbor_ctx \<times> cbor_label" where
  "wc_CBOR_DecodeLabel b ctx label = wolfCose_CBOR_DecodeLabel_ex b ctx label 0"

definition wc_CBOR_LabelIsInt :: "cbor_label option \<Rightarrow> i64 \<Rightarrow> bool" where
  "wc_CBOR_LabelIsInt label val =
     (case label of None \<Rightarrow> False
      | Some label \<Rightarrow> \<not> label_isText label \<and> label_val label = val)"

definition wc_CBOR_LabelIsText :: "cbor_label option \<Rightarrow> cptr \<Rightarrow> size \<Rightarrow> bool" where
  "wc_CBOR_LabelIsText label text textLen =
     (case label of None \<Rightarrow> False
      | Some label \<Rightarrow>
          if label_isText label \<and> label_textLen label = textLen then
            (if textLen = 0 then True
             else (case (label_text label, text) of
                     (Some t, Some u) \<Rightarrow> diff_bytes t u textLen = 0
                   | _ \<Rightarrow> False))
          else False)"

section \<open>The format\<close>

definition arg_width :: "nat \<Rightarrow> nat" where
  "arg_width ai = (if ai = 24 then 1 else if ai = 25 then 2 else if ai = 26 then 4
                   else if ai = 27 then 8 else 0)"

text \<open>
  A head with major type \<open>mt\<close>, additional information \<open>ai\<close> and argument \<open>v\<close>; which of them are
  valid; and which are the shortest of their argument (all of major type 7 count as such).
\<close>

definition head_bytes :: "nat \<Rightarrow> nat \<Rightarrow> nat \<Rightarrow> u8 list" where
  "head_bytes mt ai v = of_nat (32 * mt + ai) # be_bytes (arg_width ai) v"

definition head_ok :: "nat \<Rightarrow> nat \<Rightarrow> nat \<Rightarrow> bool" where
  "head_ok mt ai v \<longleftrightarrow> mt < 8 \<and>
     (ai \<le> 23 \<and> v = ai \<or> 24 \<le> ai \<and> ai \<le> 27 \<and> v < 256 ^ arg_width ai) \<and>
     (mt = 7 \<and> ai = 24 \<longrightarrow> 32 \<le> v)"

definition head_preferred :: "nat \<Rightarrow> nat \<Rightarrow> nat \<Rightarrow> bool" where
  "head_preferred mt ai v \<longleftrightarrow>
     mt = 7 \<or> \<not> (ai = 24 \<and> v < 24 \<or> ai = 25 \<and> v < 2 ^ 8 \<or> ai = 26 \<and> v < 2 ^ 16 \<or>
                ai = 27 \<and> v < 2 ^ 32)"

definition head_valid :: "bool \<Rightarrow> nat \<Rightarrow> nat \<Rightarrow> nat \<Rightarrow> bool" where
  "head_valid tolerant mt ai v \<longleftrightarrow> head_ok mt ai v \<and> (tolerant \<or> head_preferred mt ai v)"

text \<open>What follows the head belongs to the item when it is a string.\<close>

definition string_len :: "nat \<Rightarrow> nat \<Rightarrow> nat" where
  "string_len mt v = (if mt = 2 \<or> mt = 3 then v else 0)"

definition string_valid :: "nat \<Rightarrow> nat \<Rightarrow> u8 list \<Rightarrow> bool" where
  "string_valid mt v rest \<longleftrightarrow> string_len mt v \<le> length rest \<and>
     (mt = 3 \<longrightarrow> wolfCose_CBOR_IsUtf8 (Some rest) v)"

section \<open>Decoding contexts\<close>

text \<open>
  \<open>dec_ctx\<close>: a cursor over (a part of) one object; no object is longer than \<open>PTRDIFF_MAX\<close>.
  \<open>inp\<close> is the input that is left, \<open>advance\<close> the only change a decoder makes.
\<close>

definition dec_ctx :: "cbor_ctx \<Rightarrow> bool" where
  "dec_ctx c \<longleftrightarrow> (\<exists>p. ctx_cbuf c = Some p \<and> ctx_bufSz c \<le> length p \<and> length p < 2 ^ 63) \<and>
     ctx_idx c \<le> ctx_bufSz c \<and> \<not> ctx_fault c"

definition inp :: "cbor_ctx \<Rightarrow> u8 list" where
  "inp c = drop (ctx_idx c) (take (ctx_bufSz c) (the (ctx_cbuf c)))"

definition advance :: "cbor_ctx \<Rightarrow> nat \<Rightarrow> cbor_ctx" where
  "advance c n = c\<lparr>ctx_idx := ctx_idx c + n\<rparr>"

definition tolerant :: "build \<Rightarrow> u32 \<Rightarrow> bool" where
  "tolerant b flags \<longleftrightarrow> eat_psa_verify b \<and> flags = 1"

lemma dec_ctxE:
  assumes "dec_ctx c"
  obtains p where "ctx_cbuf c = Some p" "ctx_bufSz c \<le> length p" "length p < 2 ^ 63"
    "ctx_idx c \<le> ctx_bufSz c" "\<not> ctx_fault c"
  using assms by (auto simp: dec_ctx_def)

lemma length_inp [simp]: "dec_ctx c \<Longrightarrow> length (inp c) = ctx_bufSz c - ctx_idx c"
  by (auto elim!: dec_ctxE simp: inp_def)

lemma dec_ctx_advance [simp]: "dec_ctx c \<Longrightarrow> n \<le> length (inp c) \<Longrightarrow> dec_ctx (advance c n)"
  by (auto elim!: dec_ctxE simp: dec_ctx_def advance_def inp_def)

lemma inp_advance [simp]: "inp (advance c n) = drop n (inp c)"
  by (simp add: inp_def advance_def add.commute)

lemma advance_advance [simp]: "advance (advance c m) n = advance c (m + n)"
  by (simp add: advance_def add.assoc)

lemma advance_0 [simp]: "advance c 0 = c"
  by (simp add: advance_def)

lemma advance_fields [simp]:
  "ctx_cbuf (advance c n) = ctx_cbuf c" "ctx_buf (advance c n) = ctx_buf c"
  "ctx_bufSz (advance c n) = ctx_bufSz c" "ctx_idx (advance c n) = ctx_idx c + n"
  "ctx_fault (advance c n) = ctx_fault c"
  by (simp_all add: advance_def)

lemma take_cbuf_at: "dec_ctx c \<Longrightarrow> n \<le> length (inp c) \<Longrightarrow> take n (cbuf_at c) = take n (inp c)"
  unfolding length_inp by (elim dec_ctxE) (simp add: cbuf_at_def inp_def drop_take)

lemma cbuf_at_0: "dec_ctx c \<Longrightarrow> inp c \<noteq> [] \<Longrightarrow> cbuf_at c ! 0 = hd (inp c)"
  using take_cbuf_at [of c 1]
  by (cases "inp c"; cases "cbuf_at c") (auto simp del: length_inp)

lemma get_check_ok: "dec_ctx c \<Longrightarrow> n \<le> length (inp c) \<Longrightarrow> get_check c n = c"
  by (auto elim!: dec_ctxE simp: get_check_def inp_def)

lemma flags_valid_cases:
  "DECODE_FLAGS_VALID b flags \<longleftrightarrow> flags = 0 \<or> tolerant b flags"
proof -
  have "flags AND NOT 1 = 0 \<longleftrightarrow> flags = 0 \<or> flags = 1" for flags :: u32
  proof
    assume a: "flags AND NOT 1 = 0"
    have "flags = flags AND 1" 
    proof -
      have "flags = (flags AND 1) OR (flags AND NOT 1)" 
        by (simp flip: bit.conj_disj_distrib)
      then show ?thesis using a by simp
    qed
    also have "\<dots> = 0 \<or> \<dots> = 1" by (simp add: and_one_eq mod_2_eq_odd)
    finally show "flags = 0 \<or> flags = 1" using \<open>flags = flags AND 1\<close> by metis
  qed auto
  then show ?thesis
    by (auto simp: DECODE_FLAGS_VALID_def tolerant_def DECODE_ALLOW_NONPREFERRED_def)
qed

lemma allows_iff: "DECODE_FLAGS_VALID b flags \<Longrightarrow>
    wolfCose_CBOR_AllowsNonpreferred b flags \<longleftrightarrow> tolerant b flags"
  by (auto simp: flags_valid_cases wolfCose_CBOR_AllowsNonpreferred_def tolerant_def DECODE_ALLOW_NONPREFERRED_def)

lemma read_arg_eq:
  assumes "dec_ctx c" "n \<le> 8"
  shows "read_arg c item n load =
    (if n \<le> length (inp c) then (WOLFCOSE_SUCCESS, advance c n, item\<lparr>item_val := load (cbuf_at c)\<rparr>)
     else (WOLFCOSE_E_CBOR_MALFORMED, c, item))"
proof -
  have "ctx_idx c + n < 2 ^ 64" using assms by (auto elim!: dec_ctxE)
  then show ?thesis
    using assms get_check_ok [OF assms(1), of n]
    by (auto elim!: dec_ctxE simp: read_arg_def advance_def inp_def)
qed

lemma loads:
  assumes "dec_ctx c" "n \<le> length (inp c)"
  shows "n = 1 \<Longrightarrow> unat (ucast (cbuf_at c ! 0) :: u64) = be_val (take n (inp c))"
    "n = 2 \<Longrightarrow> unat (ucast (wolfCose_LoadBE16 (cbuf_at c)) :: u64) = be_val (take n (inp c))"
    "n = 4 \<Longrightarrow> unat (ucast (wolfCose_LoadBE32 (cbuf_at c)) :: u64) = be_val (take n (inp c))"
    "n = 8 \<Longrightarrow> unat (wolfCose_LoadBE64 (cbuf_at c)) = be_val (take n (inp c))"
proof -
  have le: "n \<le> length (cbuf_at c)"
    using assms by (auto elim!: dec_ctxE simp: cbuf_at_def inp_def)
  note t = take_cbuf_at [OF assms, symmetric]
  show "n = 1 \<Longrightarrow> unat (ucast (cbuf_at c ! 0) :: u64) = be_val (take n (inp c))"
    using le t unsigned_less [of "cbuf_at c ! 0", where 'a = nat]
    by (cases "cbuf_at c") (auto simp: be_val_def unat_ucast_le)
  show "n = 2 \<Longrightarrow> unat (ucast (wolfCose_LoadBE16 (cbuf_at c)) :: u64) = be_val (take n (inp c))"
    using le t by (simp add: unat_ucast16_u64 unat_LoadBE16)
  show "n = 4 \<Longrightarrow> unat (ucast (wolfCose_LoadBE32 (cbuf_at c)) :: u64) = be_val (take n (inp c))"
    using le t by (simp add: unat_ucast_u64 unat_LoadBE32)
  show "n = 8 \<Longrightarrow> unat (wolfCose_LoadBE64 (cbuf_at c)) = be_val (take n (inp c))"
    using le t by (simp add: unat_LoadBE64)
qed

definition arg_value :: "nat \<Rightarrow> u8 list \<Rightarrow> nat" where
  "arg_value ai bs = (if ai \<le> 23 then ai else be_val (take (arg_width ai) bs))"

lemma arg_value_less: "unat (ai :: u8) < 32 \<Longrightarrow> arg_value (unat ai) bs < 2 ^ 64"
proof -
  have "arg_width (unat ai) \<le> 8" by (simp add: arg_width_def)
  then have "(256 :: nat) ^ length (take (arg_width (unat ai)) bs) \<le> 256 ^ 8"
    by (intro power_increasing) simp_all
  then have "be_val (take (arg_width (unat ai)) bs) < 256 ^ 8"
    using be_val_less less_le_trans by blast
  then show ?thesis by (simp add: arg_value_def)
qed

lemma u64_eqI: "unat x = unat y \<Longrightarrow> x = y" for x y :: u64
  by (rule word_unat_eq_iff [THEN iffD2])

lemma head_arg_eq:
  assumes "dec_ctx c" "unat ai = a" "a < 32"
  shows "head_arg c item ai =
    (if a \<le> 27 then
       if arg_width a \<le> length (inp c)
       then (WOLFCOSE_SUCCESS, advance c (arg_width a), item\<lparr>item_val := of_nat (arg_value a (inp c))\<rparr>)
       else (WOLFCOSE_E_CBOR_MALFORMED, c, item)
     else if a = 31 then (WOLFCOSE_E_UNSUPPORTED, c, item)
     else (WOLFCOSE_E_CBOR_MALFORMED, c, item))"
proof -
  have v: "ucast ai = (of_nat a :: u64)"
    using assms by (intro u64_eqI) (simp add: unat_ucast_le unat_of_nat)
  have l: "of_nat (be_val (take n (inp c))) = l" if "unat (l :: u64) = be_val (take n (inp c))" for l n
    by (simp flip: that)
  note L = loads [OF assms(1), THEN l]
  show ?thesis
    using assms v L
    by (simp add: head_arg_def word_le_nat_alt word_unat_eq_iff arg_width_def arg_value_def read_arg_eq)
qed


lemma ib_major: "unat (ucast (drop_bit 5 (ucast (ib :: u8) :: u32)) :: u8) = unat ib div 32"
proof -
  have "unat ib < 256" using unsigned_less [of ib, where 'a = nat] by simp
  moreover from this have "unat (ucast ib :: u32) = unat ib" by (intro unat_ucast_le) simp
  ultimately show ?thesis
    by (simp add: unat_ucast_u8 unat_drop_bit_eq drop_bit_eq_div unat_div_distrib less_mult_imp_div_less)
qed

lemma ib_ai: "unat (ib AND 0x1F :: u8) = unat ib mod 32"
proof -
  have "ib AND 0x1F = take_bit 5 ib" by (simp add: take_bit_eq_mask mask_eq_exp_minus_1)
  then show ?thesis by (simp only: unsigned_take_bit_eq) (simp add: take_bit_eq_mod)
qed

text \<open>What is left of the head decoder after its first byte, as a function of the input.\<close>

definition head_result :: "build \<Rightarrow> cbor_ctx \<Rightarrow> cbor_item \<Rightarrow> u32 \<Rightarrow> nat \<Rightarrow> nat \<Rightarrow> rc \<times> cbor_ctx \<times> cbor_item"
where
  "head_result b c item flags mt ai =
     (let v = arg_value ai (drop 1 (inp c));
          w = 1 + arg_width ai;
          c1 = advance c w;
          it = item\<lparr>item_majorType := of_nat mt, item_data := None, item_dataLen := 0, item_val := of_nat v\<rparr>;
          it' = it\<lparr>item_data := Some (drop (ctx_idx c + w) (the (ctx_cbuf c))), item_dataLen := v\<rparr>
      in if ai > 27 then
           (if ai = 31 then WOLFCOSE_E_UNSUPPORTED else WOLFCOSE_E_CBOR_MALFORMED, advance c 1,
            item\<lparr>item_majorType := of_nat mt, item_data := None, item_dataLen := 0\<rparr>)
         else if length (inp c) < w then
           (WOLFCOSE_E_CBOR_MALFORMED, advance c 1,
            item\<lparr>item_majorType := of_nat mt, item_data := None, item_dataLen := 0\<rparr>)
         else if mt = 7 \<and> ai = 24 \<and> v < 32 \<or> \<not> (tolerant b flags \<or> head_preferred mt ai v)
         then (WOLFCOSE_E_CBOR_MALFORMED, c1, it)
         else if mt = 2 \<or> mt = 3 then
           if length (inp c1) < v then (WOLFCOSE_E_CBOR_MALFORMED, c1, it)
           else (if mt = 3 \<and> \<not> wolfCose_CBOR_IsUtf8 (Some (inp c1)) v then WOLFCOSE_E_CBOR_MALFORMED
                 else WOLFCOSE_SUCCESS, advance c (w + v), it')
         else (WOLFCOSE_SUCCESS, c1, it))"

lemma utf8_window:
  assumes "dec_ctx c" "v \<le> length (inp c)"
  shows "wolfCose_CBOR_IsUtf8 (Some (cbuf_at c)) v = wolfCose_CBOR_IsUtf8 (Some (inp c)) v"
proof -
  have "v \<le> length (cbuf_at c)"
    using assms by (auto elim!: dec_ctxE simp: cbuf_at_def inp_def)
  then show ?thesis
    using IsUtf8_prefix [of v "cbuf_at c"] IsUtf8_prefix [of v "inp c"] assms take_cbuf_at [OF assms]
    by metis
qed

lemma head_checks_eq:
  assumes "unat ai = a" "a \<le> 27" "unat (item_majorType item) = mt" "unat (item_val item) = v"
    "DECODE_FLAGS_VALID b flags"
  shows "head_checks b flags ai (c, item) =
    (if mt = 7 \<and> a = 24 \<and> v < 32 \<or> \<not> (tolerant b flags \<or> head_preferred mt a v)
     then WOLFCOSE_E_CBOR_MALFORMED else WOLFCOSE_SUCCESS, c, item)"
  using assms
  by (auto simp: head_checks_def allows_iff head_preferred_def word_unat_eq_iff word_less_nat_alt)

lemma head_string_eq:
  assumes "dec_ctx c" "unat (item_majorType item) = mt" "unat (item_val item) = v"
  shows "head_string (c, item) =
     (if mt = 2 \<or> mt = 3 then
        if length (inp c) < v then (WOLFCOSE_E_CBOR_MALFORMED, c, item)
        else (if mt = 3 \<and> \<not> wolfCose_CBOR_IsUtf8 (Some (inp c)) v then WOLFCOSE_E_CBOR_MALFORMED
              else WOLFCOSE_SUCCESS, advance c v,
              item\<lparr>item_data := Some (cbuf_at c), item_dataLen := v\<rparr>)
      else (WOLFCOSE_SUCCESS, c, item))"
proof -
  have sz: "sz_sub (ctx_bufSz c) (ctx_idx c) = length (inp c)"
    using assms(1) by (simp add: dec_ctx_def)
  have d: "map_option (drop (ctx_idx c)) (ctx_cbuf c) = Some (cbuf_at c)"
    using assms(1) by (auto elim!: dec_ctxE simp: cbuf_at_def)
  show ?thesis
    unfolding head_string_def prod.case Let_def sz d
    using assms(2,3) get_check_ok [OF assms(1), of v] utf8_window [OF assms(1), of v]
    by (auto simp: word_unat_eq_iff advance_def simp del: length_inp)
qed


lemma DecodeHead_eq:
  assumes "dec_ctx c" "DECODE_FLAGS_VALID b flags" "inp c = ib # r"
  shows "wolfCose_CBOR_DecodeHead_ex b c item flags =
    head_result b c item flags (unat ib div 32) (unat ib mod 32)"
proof -
  let ?mt = "unat ib div 32" and ?ai = "unat ib mod 32"
  let ?item1 = "item\<lparr>item_majorType := ucast (drop_bit 5 (ucast ib :: u32)), item_data := None,
     item_dataLen := 0\<rparr>"
  have idx: "ctx_idx c < ctx_bufSz c" using assms(1,3) length_inp [of c] by simp
  have hd: "cbuf_at c ! 0 = ib" using cbuf_at_0 [OF assms(1)] assms(3) by simp
  have c1: "(get_check c 1)\<lparr>ctx_idx := ctx_idx c + 1\<rparr> = advance c 1"
    using get_check_ok [OF assms(1), of 1] assms(3) by (simp add: advance_def)
  have d1: "dec_ctx (advance c 1)" using assms(1,3) by (intro dec_ctx_advance) simp_all
  have i1: "inp (advance c 1) = drop 1 (inp c)" by simp
  have mt8: "?mt < 8" using unsigned_less [of ib, where 'a = nat] by simp
  then have mt: "ucast (drop_bit 5 (ucast ib :: u32)) = (of_nat ?mt :: u8)"
    by (intro u8_eqI) (simp add: ib_major unat_of_nat_u8)
  have mt': "unat (of_nat ?mt :: u8) = ?mt" using mt8 by (simp add: unat_of_nat_u8)
  define v where "v = arg_value ?ai (drop 1 (inp c))"
  have v: "unat (of_nat v :: u64) = v"
    using arg_value_less [of "ib AND 0x1F"] by (simp add: v_def unat_of_nat ib_ai)
  have "?ai < 32" by simp
  note A = head_arg_eq [OF d1 ib_ai this, unfolded i1, of ?item1, folded v_def]
  have start: "wolfCose_CBOR_DecodeHead_ex b c item flags =
      on_success (on_success (head_arg (advance c 1) ?item1 (ib AND 0x1F))
             (head_checks b flags (ib AND 0x1F))) head_string"
    using assms(1,2) idx by (auto elim!: dec_ctxE simp: wolfCose_CBOR_DecodeHead_ex_def hd c1 [simplified] Let_def)
  show ?thesis
  proof (cases "?ai \<le> 27 \<and> arg_width ?ai \<le> length (drop 1 (inp c))")
    case False
    then have "\<not> ?ai \<le> 27 \<or> ?ai \<le> 27 \<and> \<not> arg_width ?ai \<le> length r" using assms(3) by auto
    then have "head_arg (advance c 1) ?item1 (ib AND 0x1F) =
        (if ?ai = 31 then WOLFCOSE_E_UNSUPPORTED else WOLFCOSE_E_CBOR_MALFORMED, advance c 1, ?item1)"
      unfolding A using assms(3) by (elim disjE) auto
    then show ?thesis
      unfolding start head_result_def Let_def using False assms(3)
      by (cases "?ai \<le> 27") (simp_all add: mt)
  next
    case True
    then have d2: "dec_ctx (advance c (1 + arg_width ?ai))"
      using assms(1,3) by (intro dec_ctx_advance) simp_all
    let ?c2 = "advance c (1 + arg_width ?ai)"
    define it where "it = item\<lparr>item_majorType := of_nat ?mt, item_data := None, item_dataLen := 0, item_val := of_nat v\<rparr>"
    have step: "head_arg (advance c 1) ?item1 (ib AND 0x1F) = (WOLFCOSE_SUCCESS, ?c2, it)"
      unfolding A using True by (simp add: it_def mt)
    have it: "unat (item_majorType it) = ?mt" "unat (item_val it) = v" by (simp_all add: it_def mt' v)
    have C: "head_checks b flags (ib AND 0x1F) (?c2, it) =
       (if ?mt = 7 \<and> ?ai = 24 \<and> v < 32 \<or> \<not> (tolerant b flags \<or> head_preferred ?mt ?ai v)
        then WOLFCOSE_E_CBOR_MALFORMED else WOLFCOSE_SUCCESS, ?c2, it)"
      using True by (intro head_checks_eq assms(2) ib_ai it) simp
    have D: "Some (drop (ctx_idx c + (1 + arg_width ?ai)) (the (ctx_cbuf c))) = Some (cbuf_at ?c2)"
      using assms(1) by (auto elim!: dec_ctxE simp: cbuf_at_def)
    have len: "\<not> length (inp c) < 1 + arg_width ?ai" using True assms(3) by simp
    have adv: "advance ?c2 v = advance c (1 + arg_width ?ai + v)" by simp
    show ?thesis
      unfolding start step on_success_simps C head_result_def Let_def v_def [symmetric] D it_def [symmetric]
      using True len head_string_eq [OF d2 it] unfolding adv
      by (cases "?mt = 7 \<and> ?ai = 24 \<and> v < 32 \<or> \<not> (tolerant b flags \<or> head_preferred ?mt ?ai v)")
        (simp_all del: length_inp advance_advance add: not_less [symmetric])
  qed
qed


section \<open>The head decoder against the format\<close>

lemma arg_value_ok:
  assumes "ai < 28" "arg_width ai \<le> length r"
  shows "(ai \<le> 23 \<and> arg_value ai r = ai \<or> 24 \<le> ai \<and> ai \<le> 27 \<and> arg_value ai r < 256 ^ arg_width ai) \<and>
    be_bytes (arg_width ai) (arg_value ai r) = take (arg_width ai) r"
proof (cases "ai \<le> 23")
  case True
  then show ?thesis by (simp add: arg_value_def arg_width_def)
next
  case False
  have "length (take (arg_width ai) r) = arg_width ai" using assms by simp
  then have "be_val (take (arg_width ai) r) < 256 ^ arg_width ai"
    "be_bytes (arg_width ai) (be_val (take (arg_width ai) r)) = take (arg_width ai) r"
    using be_val_less [of "take (arg_width ai) r"] be_bytes_be_val [of "take (arg_width ai) r"] by simp_all
  then show ?thesis using False assms by (simp add: arg_value_def)
qed

lemma arg_value_head: "head_ok mt ai v \<Longrightarrow> arg_value ai (be_bytes (arg_width ai) v @ rest) = v"
  by (auto simp: head_ok_def arg_value_def be_val_be_bytes simp del: be_bytes_numeral)

lemma head_byte_of_nat: "mt < 8 \<Longrightarrow> ai < 32 \<Longrightarrow> unat (of_nat (32 * mt + ai) :: u8) = 32 * mt + ai"
  by (simp add: unat_of_nat_u8 del: of_nat_add of_nat_mult)

definition head_item :: "cbor_ctx \<Rightarrow> nat \<Rightarrow> nat \<Rightarrow> nat \<Rightarrow> cbor_item" where
  "head_item c mt ai v =
     \<lparr> item_majorType = of_nat mt, item_val = of_nat v,
       item_data = (if mt = 2 \<or> mt = 3
                    then Some (drop (ctx_idx c + 1 + arg_width ai) (the (ctx_cbuf c))) else None),
       item_dataLen = string_len mt v \<rparr>"

lemma length_head_bytes [simp]: "length (head_bytes mt ai v) = 1 + arg_width ai"
  by (simp add: head_bytes_def)

lemma DecodeHead_accepts:
  assumes "dec_ctx c" "DECODE_FLAGS_VALID b flags" "inp c = head_bytes mt ai v @ rest"
    "head_valid (tolerant b flags) mt ai v" "string_valid mt v rest"
  shows "wolfCose_CBOR_DecodeHead_ex b c item flags =
    (WOLFCOSE_SUCCESS, advance c (1 + arg_width ai + string_len mt v), head_item c mt ai v)"
proof -
  let ?ib = "of_nat (32 * mt + ai) :: u8"
  have ok: "mt < 8" "ai \<le> 27" "head_ok mt ai v" using assms(4) by (auto simp: head_valid_def head_ok_def)
  then have ib: "unat ?ib div 32 = mt" "unat ?ib mod 32 = ai"
    using head_byte_of_nat [of mt ai] by (simp_all del: of_nat_add of_nat_mult)
  have inp: "inp c = ?ib # (be_bytes (arg_width ai) v @ rest)"
    using assms(3) by (simp add: head_bytes_def)
  have av: "arg_value ai (drop 1 (inp c)) = v" using arg_value_head [OF ok(3)] by (simp add: inp)
  have rest: "inp (advance c (1 + arg_width ai)) = rest" by (simp add: inp)
  have len: "\<not> length (inp c) < 1 + arg_width ai" by (simp add: inp)
  show ?thesis
    unfolding DecodeHead_eq [OF assms(1,2) inp] ib head_result_def Let_def av rest
    using ok assms(4,5) len
    by (auto simp: head_item_def string_valid_def string_len_def head_valid_def head_ok_def
        simp del: length_inp intro!: cbor_item.equality)
qed

lemma DecodeHead_inv:
  assumes "dec_ctx c" and ok: "wolfCose_CBOR_DecodeHead_ex b c item flags = (WOLFCOSE_SUCCESS, c', item')"
  obtains mt ai v rest where "DECODE_FLAGS_VALID b flags" "inp c = head_bytes mt ai v @ rest"
    "head_valid (tolerant b flags) mt ai v" "string_valid mt v rest" "v < 2 ^ 64"
    "c' = advance c (1 + arg_width ai + string_len mt v)" "item' = head_item c mt ai v"
proof -
  have flags: "DECODE_FLAGS_VALID b flags" and "ctx_idx c < ctx_bufSz c"
    using ok by (auto simp: wolfCose_CBOR_DecodeHead_ex_def split: if_splits)
  then obtain ib r where inp: "inp c = ib # r"
    using length_inp [OF assms(1)] by (cases "inp c") auto
  let ?mt = "unat ib div 32" and ?ai = "unat ib mod 32"
  let ?v = "arg_value ?ai r" and ?rest = "drop (arg_width ?ai) r"
  have res: "head_result b c item flags ?mt ?ai = (WOLFCOSE_SUCCESS, c', item')"
    using ok DecodeHead_eq [OF assms(1) flags inp] by simp
  then have ai: "?ai < 28" and w: "arg_width ?ai \<le> length r"
    by (auto simp: head_result_def inp Let_def split: if_splits)
  note V = arg_value_ok [OF ai w]
  have mt: "?mt < 8" using unsigned_less [of ib, where 'a = nat] by simp
  have "of_nat (32 * ?mt + ?ai) = ib" by (rule u8_eqI) (simp add: unat_of_nat_u8 del: of_nat_add of_nat_mult)
  with V have hb: "inp c = head_bytes ?mt ?ai ?v @ ?rest"
    by (simp add: head_bytes_def inp del: of_nat_add of_nat_mult)
  have acc: "head_valid (tolerant b flags) ?mt ?ai ?v" "string_valid ?mt ?v ?rest"
    using res V mt by (auto simp: head_result_def Let_def inp head_valid_def head_ok_def string_valid_def
        string_len_def split: if_splits)
  have lt: "?v < 2 ^ 64" using arg_value_less [of "ib AND 0x1F" r] by (simp add: ib_ai)
  show ?thesis
    by (rule that [OF flags hb acc lt])
      (use ok DecodeHead_accepts [OF assms(1) flags hb acc, of item] in simp_all)
qed

definition head_moves :: "bool \<Rightarrow> u8 list \<Rightarrow> nat \<Rightarrow> nat \<Rightarrow> nat" where
  "head_moves tol bs mt ai =
     (let v = arg_value ai (drop 1 bs); w = 1 + arg_width ai
      in if ai > 27 \<or> length bs < w then 1
         else if mt = 7 \<and> ai = 24 \<and> v < 32 \<or> \<not> (tol \<or> head_preferred mt ai v) then w
         else if mt = 2 \<or> mt = 3 then (if length bs - w < v then w else w + v) else w)"

lemma head_result_moves:
  "fst (snd (head_result b c item flags mt ai)) = advance c (head_moves (tolerant b flags) (inp c) mt ai)"
  unfolding head_result_def head_moves_def Let_def
  by (simp del: length_inp)

lemma head_moves_le: "bs \<noteq> [] \<Longrightarrow> head_moves tol bs mt ai \<le> length bs"
  by (cases bs) (auto simp: head_moves_def Let_def)

lemma DecodeHead_only_moves:
  assumes "dec_ctx c"
  obtains n where "fst (snd (wolfCose_CBOR_DecodeHead_ex b c item flags)) = advance c n"
    "n \<le> length (inp c)"
proof (cases "DECODE_FLAGS_VALID b flags \<and> inp c \<noteq> []")
  case False
  then have "fst (snd (wolfCose_CBOR_DecodeHead_ex b c item flags)) = c"
  proof (cases "inp c = []")
    case True
    then have "ctx_bufSz c \<le> ctx_idx c" using length_inp [OF assms] by simp
    then show ?thesis by (simp add: wolfCose_CBOR_DecodeHead_ex_def)
  qed (simp_all add: wolfCose_CBOR_DecodeHead_ex_def)
  then show ?thesis using that [of 0] by simp
next
  case True
  then obtain ib r where inp: "inp c = ib # r" and flags: "DECODE_FLAGS_VALID b flags"
    by (cases "inp c") auto
  show ?thesis
  proof (rule that)
    show "fst (snd (wolfCose_CBOR_DecodeHead_ex b c item flags)) =
        advance c (head_moves (tolerant b flags) (inp c) (unat ib div 32) (unat ib mod 32))"
      unfolding DecodeHead_eq [OF assms flags inp] by (rule head_result_moves)
    show "head_moves (tolerant b flags) (inp c) (unat ib div 32) (unat ib mod 32) \<le> length (inp c)"
      using inp by (intro head_moves_le) simp
  qed
qed

section \<open>Readers\<close>

text \<open>
  The contract of every decoder, tolerant or strict, on every input: the cursor moves forward
  inside its buffer and nothing else changes (no byte outside the buffer is read), and a
  success consumes something.
\<close>

locale cbor_reader =
  fixes f :: "cbor_ctx \<Rightarrow> rc \<times> cbor_ctx \<times> 'a"
  assumes only_moves: "dec_ctx c \<Longrightarrow> \<exists>n \<le> length (inp c). fst (snd (f c)) = advance c n"
    and makes_progress: "\<lbrakk>dec_ctx c; fst (f c) = WOLFCOSE_SUCCESS\<rbrakk> \<Longrightarrow>
      ctx_idx c < ctx_idx (fst (snd (f c)))"
begin

lemma keeps: "dec_ctx c \<Longrightarrow> f c = (ret, c', x) \<Longrightarrow>
    dec_ctx c' \<and> ctx_cbuf c' = ctx_cbuf c \<and> ctx_bufSz c' = ctx_bufSz c \<and> ctx_idx c \<le> ctx_idx c'"
  using only_moves [of c] by (auto simp del: length_inp)

lemma shrinks: "dec_ctx c \<Longrightarrow> f c = (WOLFCOSE_SUCCESS, c', x) \<Longrightarrow>
    ctx_idx c < ctx_idx c' \<and> (\<exists>n > 0. n \<le> length (inp c) \<and> c' = advance c n)"
  using only_moves [of c] makes_progress [of c] by auto

end

text \<open>A codec reads exactly the strings \<open>enc x\<close>, each back to its \<open>x\<close>.\<close>

locale cbor_codec = cbor_reader f for f :: "cbor_ctx \<Rightarrow> rc \<times> cbor_ctx \<times> 'a" +
  fixes enc :: "'a \<Rightarrow> u8 list"
  assumes reads: "\<lbrakk>dec_ctx c; inp c = enc x @ rest\<rbrakk> \<Longrightarrow>
      f c = (WOLFCOSE_SUCCESS, advance c (length (enc x)), x)"
    and reads_only: "\<lbrakk>dec_ctx c; f c = (WOLFCOSE_SUCCESS, c', x)\<rbrakk> \<Longrightarrow>
      inp c = enc x @ inp c' \<and> c' = advance c (length (enc x))"
begin

lemma success_iff: "dec_ctx c \<Longrightarrow>
    f c = (WOLFCOSE_SUCCESS, c', x) \<longleftrightarrow> (\<exists>rest. inp c = enc x @ rest) \<and> c' = advance c (length (enc x))"
  using reads [of c x] reads_only [of c c' x] by auto

lemma prefix_free: "length (enc x @ r) < 2 ^ 63 \<Longrightarrow> enc x @ r = enc y @ s \<Longrightarrow> x = y \<and> r = s"
proof -
  assume len: "length (enc x @ r) < 2 ^ 63" and eq: "enc x @ r = enc y @ s"
  define c where "c = \<lparr>ctx_buf = None, ctx_cbuf = Some (enc x @ r), ctx_bufSz = length (enc x @ r),
     ctx_idx = 0, ctx_fault = False\<rparr>"
  have "dec_ctx c" "inp c = enc x @ r" using len by (simp_all add: c_def dec_ctx_def inp_def)
  then have "x = y" using reads [of c x r] reads [of c y s] eq by simp
  then show ?thesis using eq by simp
qed

end

text \<open>A cursor to read back what an encoder wrote between \<open>c\<close> and \<open>c'\<close>.\<close>

definition reread :: "cbor_ctx \<Rightarrow> cbor_ctx \<Rightarrow> cbor_ctx" where
  "reread c c' = c'\<lparr>ctx_cbuf := ctx_buf c', ctx_bufSz := ctx_idx c', ctx_idx := ctx_idx c\<rparr>"

lemma reread_append:
  assumes "enc_ctx c" "length (the (ctx_buf c)) < 2 ^ 63" "ctx_idx c + length bs \<le> ctx_bufSz c"
  shows "dec_ctx (reread c (append_out c bs))" "inp (reread c (append_out c bs)) = bs"
  using assms by (auto elim!: enc_ctxE simp: dec_ctx_def reread_def append_out_def inp_def)

locale cbor_round_trip = cbor_writer w "enc x" + cbor_codec f enc
  for w :: "cbor_ctx \<Rightarrow> rc \<times> cbor_ctx" and enc :: "'a \<Rightarrow> u8 list" and x :: 'a
    and f :: "cbor_ctx \<Rightarrow> rc \<times> cbor_ctx \<times> 'a"
begin

lemma round_trip:
  assumes "enc_ctx c" "length (the (ctx_buf c)) < 2 ^ 63" "w c = (WOLFCOSE_SUCCESS, c')"
  shows "\<exists>c''. f (reread c c') = (WOLFCOSE_SUCCESS, c'', x) \<and> ctx_idx c'' = ctx_idx c'"
proof -
  have le: "ctx_idx c + length (enc x) \<le> ctx_bufSz c"
    using cbor_writer.success_iff [OF cbor_writer_axioms assms(1)] assms(3) by simp
  then have c': "c' = append_out c (enc x)" using fits [OF assms(1)] assms(3) by simp
  have "f (reread c c') = (WOLFCOSE_SUCCESS, advance (reread c c') (length (enc x)), x)"
    unfolding c' by (rule reads [of _ _ "[]"]) (use reread_append [OF assms(1,2) le] in simp_all)
  then show ?thesis by (simp add: reread_def c')
qed

end

lemma reader_of_head:
  assumes "\<And>c. fst (snd (f c)) = fst (snd (wolfCose_CBOR_DecodeHead_ex b c local_item flags))"
    "\<And>c. fst (f c) = WOLFCOSE_SUCCESS \<Longrightarrow>
       fst (wolfCose_CBOR_DecodeHead_ex b c local_item flags) = WOLFCOSE_SUCCESS"
  shows "cbor_reader f"
proof
  fix c assume c: "dec_ctx c"
  show "\<exists>n \<le> length (inp c). fst (snd (f c)) = advance c n"
    using DecodeHead_only_moves [OF c] assms(1) by metis
  assume "fst (f c) = WOLFCOSE_SUCCESS"
  then obtain c' item where "wolfCose_CBOR_DecodeHead_ex b c local_item flags = (WOLFCOSE_SUCCESS, c', item)"
    using assms(2) by (metis prod.collapse)
  from DecodeHead_inv [OF c this] this assms(1) [of c] show "ctx_idx c < ctx_idx (fst (snd (f c)))"
    by (metis add_gr_0 advance_fields(4) fst_conv less_add_same_cancel1 less_one snd_conv)
qed

lemma head_reader_any: "cbor_reader (\<lambda>c. wolfCose_CBOR_DecodeHead_ex b c item flags)"
proof
  fix c assume c: "dec_ctx c"
  show "\<exists>n \<le> length (inp c). fst (snd (wolfCose_CBOR_DecodeHead_ex b c item flags)) = advance c n"
    using DecodeHead_only_moves [OF c] by metis
  assume "fst (wolfCose_CBOR_DecodeHead_ex b c item flags) = WOLFCOSE_SUCCESS"
  then obtain c' item' where r: "wolfCose_CBOR_DecodeHead_ex b c item flags = (WOLFCOSE_SUCCESS, c', item')"
    by (metis prod.collapse)
  from DecodeHead_inv [OF c this]
  show "ctx_idx c < ctx_idx (fst (snd (wolfCose_CBOR_DecodeHead_ex b c item flags)))"
    unfolding r by (metis add_gr_0 advance_fields(4) fst_conv less_add_same_cancel1 less_one snd_conv)
qed

interpretation head_r: cbor_reader "\<lambda>c. wolfCose_CBOR_DecodeHead_ex b c item flags" for b item flags
  by (rule head_reader_any)

interpretation uint_r: cbor_reader "\<lambda>c. wolfCose_CBOR_DecodeUint_ex b c out flags" for b out flags
  by (rule reader_of_head [of _ b flags])
    (auto simp: wolfCose_CBOR_DecodeUint_ex_def split: prod.splits if_splits)

interpretation int_r: cbor_reader "\<lambda>c. wolfCose_CBOR_DecodeInt_ex b c out flags" for b out flags
  by (rule reader_of_head [of _ b flags])
    (auto simp: wolfCose_CBOR_DecodeInt_ex_def split: prod.splits if_splits)

interpretation bytes_r: cbor_reader "\<lambda>c. wolfCose_CBOR_DecodeBytes_ex b c mt out flags" for b mt out flags
  by (rule reader_of_head [of _ b flags])
    (auto simp: wolfCose_CBOR_DecodeBytes_ex_def split: prod.splits if_splits)

interpretation container_r: cbor_reader "\<lambda>c. wolfCose_CBOR_DecodeContainerStart_ex b c mt out flags"
  for b mt out flags
  by (rule reader_of_head [of _ b flags])
    (auto simp: wolfCose_CBOR_DecodeContainerStart_ex_def split: prod.splits if_splits)

interpretation tag_r: cbor_reader "\<lambda>c. wolfCose_CBOR_DecodeTag_ex b c out flags" for b out flags
  by (rule reader_of_head [of _ b flags])
    (auto simp: wolfCose_CBOR_DecodeTag_ex_def split: prod.splits if_splits)

interpretation label_r: cbor_reader "\<lambda>c. wolfCose_CBOR_DecodeLabel_ex b c out flags" for b out flags
  by (rule reader_of_head [of _ b flags])
    (auto simp: wolfCose_CBOR_DecodeLabel_ex_def Let_def split: prod.splits if_splits)


section \<open>Strict decoding\<close>

definition short_ai :: "nat \<Rightarrow> nat" where
  "short_ai v = (if v < 24 then v else if v < 2 ^ 8 then 24 else if v < 2 ^ 16 then 25
                 else if v < 2 ^ 32 then 26 else 27)"

lemma cbor_head_bytes: "cbor_head mt v = head_bytes mt (short_ai v) v"
  by (simp add: cbor_head_def head_bytes_def short_ai_def arg_width_def)

lemma head_valid_short: "mt < 7 \<Longrightarrow> v < 2 ^ 64 \<Longrightarrow> head_valid tol mt (short_ai v) v"
  by (simp add: head_valid_def head_ok_def head_preferred_def short_ai_def arg_width_def)

lemma head_valid_strict: "head_valid False mt ai v \<Longrightarrow> mt \<noteq> 7 \<Longrightarrow> ai = short_ai v"
  by (auto simp: head_valid_def head_ok_def head_preferred_def short_ai_def arg_width_def split: if_splits)

lemma tolerant_0 [simp]: "\<not> tolerant b 0"
  by (simp add: tolerant_def)

lemma flags_valid_0 [simp]: "DECODE_FLAGS_VALID b 0"
  by (simp add: flags_valid_cases)

lemma strict_accepts:
  assumes "dec_ctx c" "inp c = cbor_head mt v @ rest" "mt < 7" "v < 2 ^ 64" "string_valid mt v rest"
    "DECODE_FLAGS_VALID b flags"
  shows "wolfCose_CBOR_DecodeHead_ex b c item flags =
    (WOLFCOSE_SUCCESS, advance c (length (cbor_head mt v) + string_len mt v), head_item c mt (short_ai v) v)"
  using DecodeHead_accepts [OF assms(1,6) _ head_valid_short [OF assms(3,4)] assms(5)] assms(2)
  by (simp add: cbor_head_bytes)

lemma strict_inv:
  assumes "dec_ctx c" "wolfCose_CBOR_DecodeHead_ex b c item 0 = (WOLFCOSE_SUCCESS, c', item')"
    "unat (item_majorType item') \<noteq> 7"
  obtains mt v rest where "inp c = cbor_head mt v @ rest" "mt < 7" "v < 2 ^ 64" "string_valid mt v rest"
    "c' = advance c (length (cbor_head mt v) + string_len mt v)" "item' = head_item c mt (short_ai v) v"
    "unat (item_majorType item') = mt" "unat (item_val item') = v"
proof -
  obtain mt ai v rest where "DECODE_FLAGS_VALID b 0" and *: "inp c = head_bytes mt ai v @ rest"
    "head_valid (tolerant b 0) mt ai v" "string_valid mt v rest" "v < 2 ^ 64"
    "c' = advance c (1 + arg_width ai + string_len mt v)" "item' = head_item c mt ai v"
    by (rule DecodeHead_inv [OF assms(1,2)])
  have mt: "mt < 8" using *(2) by (simp add: head_valid_def head_ok_def)
  then have umt: "unat (item_majorType item') = mt"
    by (simp add: *(6) head_item_def unat_of_nat_u8)
  then have "ai = short_ai v" using head_valid_strict [of mt ai v] *(2) assms(3) by simp
  moreover have "unat (item_val item') = v" using *(4,6) by (simp add: head_item_def unat_of_nat)
  ultimately show ?thesis
    using that [of mt v rest] * mt umt assms(3) by (simp add: cbor_head_bytes)
qed

lemma strict_inv_mt:
  assumes "dec_ctx c" "wolfCose_CBOR_DecodeHead_ex b c it 0 = (WOLFCOSE_SUCCESS, c', item)"
    "item_majorType item = of_nat mt" "mt < 7" "v = unat (item_val item)"
  shows "\<exists>rest. inp c = cbor_head mt v @ rest \<and> string_valid mt v rest \<and>
    c' = advance c (length (cbor_head mt v) + string_len mt v) \<and> item = head_item c mt (short_ai v) v"
proof -
  have "unat (item_majorType item) = mt" using assms(3,4) by (simp add: unat_of_nat_u8)
  then have ne: "unat (item_majorType item) \<noteq> 7" using assms(4) by simp
  show ?thesis
  proof (rule strict_inv [OF assms(1,2) ne])
    fix mt' v' rest
    assume *: "inp c = cbor_head mt' v' @ rest" "string_valid mt' v' rest"
      "c' = advance c (length (cbor_head mt' v') + string_len mt' v')"
      "item = head_item c mt' (short_ai v') v'" "unat (item_majorType item) = mt'"
      "unat (item_val item) = v'"
    then have "mt' = mt" "v' = v" using \<open>unat (item_majorType item) = mt\<close> assms(5) by simp_all
    then show ?thesis using * by blast
  qed
qed

lemma head_item_simps [simp]:
  "mt < 8 \<Longrightarrow> item_majorType (head_item c mt ai v) = of_nat mt"
  "item_val (head_item c mt ai v) = of_nat v"
  "item_dataLen (head_item c mt ai v) = string_len mt v"
  by (simp_all add: head_item_def)

lemma string_len_0 [simp]: "mt \<noteq> 2 \<Longrightarrow> mt \<noteq> 3 \<Longrightarrow> string_len mt v = 0"
  by (simp add: string_len_def)

lemma string_valid_0 [simp]: "mt \<noteq> 2 \<Longrightarrow> mt \<noteq> 3 \<Longrightarrow> string_valid mt v rest"
  by (simp add: string_valid_def)

interpretation uint_c: cbor_codec "\<lambda>c. wc_CBOR_DecodeUint b c out" "\<lambda>v. cbor_head 0 (unat v)" for b out
proof (intro cbor_codec.intro cbor_codec_axioms.intro)
  show "cbor_reader (\<lambda>c. wc_CBOR_DecodeUint b c out)"
    unfolding wc_CBOR_DecodeUint_def by (rule uint_r.cbor_reader_axioms)
next
  fix c rest and v :: u64 assume "dec_ctx c" "inp c = cbor_head 0 (unat v) @ rest"
  then show "wc_CBOR_DecodeUint b c out =
      (WOLFCOSE_SUCCESS, advance c (length (cbor_head 0 (unat v))), v)"
    using strict_accepts [of c 0 "unat v" rest b 0 local_item] unat_less_u64 [of v]
    by (simp add: wc_CBOR_DecodeUint_def wolfCose_CBOR_DecodeUint_ex_def)
next
  fix c c' v assume c: "dec_ctx c" and "wc_CBOR_DecodeUint b c out = (WOLFCOSE_SUCCESS, c', v)"
  then obtain item where item: "wolfCose_CBOR_DecodeHead_ex b c local_item 0 = (WOLFCOSE_SUCCESS, c', item)"
    "item_majorType item = 0" "v = item_val item"
    by (auto simp: wc_CBOR_DecodeUint_def wolfCose_CBOR_DecodeUint_ex_def split: prod.splits if_splits)
  then show "inp c = cbor_head 0 (unat v) @ inp c' \<and> c' = advance c (length (cbor_head 0 (unat v)))"
    using strict_inv_mt [OF c item(1), of 0 "unat v"] by auto
qed

interpretation tag_c: cbor_codec "\<lambda>c. wc_CBOR_DecodeTag b c out" "\<lambda>v. cbor_head 6 (unat v)" for b out
proof (intro cbor_codec.intro cbor_codec_axioms.intro)
  show "cbor_reader (\<lambda>c. wc_CBOR_DecodeTag b c out)"
    unfolding wc_CBOR_DecodeTag_def by (rule tag_r.cbor_reader_axioms)
next
  fix c rest and v :: u64 assume "dec_ctx c" "inp c = cbor_head 6 (unat v) @ rest"
  then show "wc_CBOR_DecodeTag b c out =
      (WOLFCOSE_SUCCESS, advance c (length (cbor_head 6 (unat v))), v)"
    using strict_accepts [of c 6 "unat v" rest b 0 local_item] unat_less_u64 [of v]
    by (simp add: wc_CBOR_DecodeTag_def wolfCose_CBOR_DecodeTag_ex_def)
next
  fix c c' v assume c: "dec_ctx c" and "wc_CBOR_DecodeTag b c out = (WOLFCOSE_SUCCESS, c', v)"
  then obtain item where item: "wolfCose_CBOR_DecodeHead_ex b c local_item 0 = (WOLFCOSE_SUCCESS, c', item)"
    "item_majorType item = 6" "v = item_val item"
    by (auto simp: wc_CBOR_DecodeTag_def wolfCose_CBOR_DecodeTag_ex_def split: prod.splits if_splits)
  then show "inp c = cbor_head 6 (unat v) @ inp c' \<and> c' = advance c (length (cbor_head 6 (unat v)))"
    using strict_inv_mt [OF c item(1), of 6 "unat v"] by auto
qed


lemma unat_le_INT64_MAX: "v \<le> of_int INT64_MAX \<longleftrightarrow> unat v < 2 ^ 63" for v :: u64
  by (simp add: word_le_nat_alt INT64_MAX_def) linarith

lemma cbor_int_of_nat: "cbor_int (int n) = cbor_head 0 n"
  by (simp add: cbor_int_def)

lemma cbor_int_neg: "cbor_int (- 1 - int n) = cbor_head 1 n"
  by (simp add: cbor_int_def)

interpretation int_c: cbor_codec "\<lambda>c. wc_CBOR_DecodeInt b c out" "\<lambda>v. cbor_int (sint v)" for b out
proof (intro cbor_codec.intro cbor_codec_axioms.intro)
  show "cbor_reader (\<lambda>c. wc_CBOR_DecodeInt b c out)"
    unfolding wc_CBOR_DecodeInt_def by (rule int_r.cbor_reader_axioms)
next
  fix c rest and v :: i64
  assume c: "dec_ctx c" and inp: "inp c = cbor_int (sint v) @ rest"
  show "wc_CBOR_DecodeInt b c out = (WOLFCOSE_SUCCESS, advance c (length (cbor_int (sint v))), v)"
  proof (cases "0 \<le> sint v")
    case True
    then have "cbor_int (sint v) = cbor_head 0 (unat v)" "unat v < 2 ^ 63"
      using sint_bounds(1) [of v] by (simp_all add: cbor_int_def unat_sint_nonneg)
    then show ?thesis
      using strict_accepts [OF c, of 0 "unat v" rest b 0 local_item] inp unat_less_u64 [of v]
      by (simp add: wc_CBOR_DecodeInt_def wolfCose_CBOR_DecodeInt_ex_def not_less unat_le_INT64_MAX)
  next
    case False
    let ?n = "- (v + 1)"
    have e: "cbor_int (sint v) = cbor_head 1 (unat ?n)"
      using False unat_neg_Suc [of v] by (simp add: cbor_int_def)
    have "unat ?n < 2 ^ 63"
      using False unat_neg_Suc [of v] sint_bounds(2) [of v] by simp
    then have "\<not> of_int INT64_MAX < ?n" using unat_le_INT64_MAX [of ?n] by simp
    then show ?thesis
      using strict_accepts [OF c, of 1 "unat ?n" rest b 0 local_item] inp unat_less_u64 [of ?n]
      unfolding e by (simp add: wc_CBOR_DecodeInt_def wolfCose_CBOR_DecodeInt_ex_def)
  qed
next
  fix c c' v assume c: "dec_ctx c" and "wc_CBOR_DecodeInt b c out = (WOLFCOSE_SUCCESS, c', v)"
  then obtain item where item: "wolfCose_CBOR_DecodeHead_ex b c local_item 0 = (WOLFCOSE_SUCCESS, c', item)"
    and v: "\<not> item_val item > of_int INT64_MAX"
      "item_majorType item = 0 \<and> v = item_val item \<or> item_majorType item = 1 \<and> v = - 1 - item_val item"
    by (auto simp: wc_CBOR_DecodeInt_def wolfCose_CBOR_DecodeInt_ex_def split: prod.splits if_splits)
  from v(1) have "item_val item \<le> of_int INT64_MAX" by (simp only: not_less)
  then have lt: "unat (item_val item) < 2 ^ 63" using unat_le_INT64_MAX by blast
  show "inp c = cbor_int (sint v) @ inp c' \<and> c' = advance c (length (cbor_int (sint v)))"
    using v(2)
  proof
    assume *: "item_majorType item = 0 \<and> v = item_val item"
    then have "cbor_int (sint v) = cbor_head 0 (unat (item_val item))"
      by (simp only: sint_small [OF lt] cbor_int_of_nat)
    then show ?thesis using * strict_inv_mt [OF c item, of 0 "unat (item_val item)"] by auto
  next
    assume *: "item_majorType item = 1 \<and> v = - 1 - item_val item"
    then have "cbor_int (sint v) = cbor_head 1 (unat (item_val item))"
      by (simp only: sint_neg_small [OF lt] cbor_int_neg)
    then show ?thesis using * strict_inv_mt [OF c item, of 1 "unat (item_val item)"] by auto
  qed
qed

interpretation uint_rt: cbor_round_trip "\<lambda>c. wc_CBOR_EncodeUint c v" "\<lambda>v. cbor_head 0 (unat v)" v
    "\<lambda>c. wc_CBOR_DecodeUint b c out" for v b out
  by unfold_locales

interpretation int_rt: cbor_round_trip "\<lambda>c. wc_CBOR_EncodeInt c v" "\<lambda>v. cbor_int (sint v)" v
    "\<lambda>c. wc_CBOR_DecodeInt b c out" for v b out
  by unfold_locales

interpretation tag_rt: cbor_round_trip "\<lambda>c. wc_CBOR_EncodeTag c v" "\<lambda>v. cbor_head 6 (unat v)" v
    "\<lambda>c. wc_CBOR_DecodeTag b c out" for v b out
  by unfold_locales

text \<open>Strings: the output points at the content, inside the input.\<close>

lemma DecodeBytes_reads:
  assumes "dec_ctx c" "inp c = cbor_head (unat mt) (length s) @ s @ rest" "mt = 2 \<or> mt = 3"
    "mt = 3 \<longrightarrow> wolfCose_CBOR_IsUtf8 (Some s) (length s)"
  shows "wolfCose_CBOR_DecodeBytes_ex b c mt out 0 =
     (WOLFCOSE_SUCCESS, advance c (length (cbor_head (unat mt) (length s)) + length s),
      Some (drop (ctx_idx c + length (cbor_head (unat mt) (length s))) (the (ctx_cbuf c))), length s)"
proof -
  have "length s \<le> length (inp c)" using assms(2) by simp
  also have "\<dots> < 2 ^ 63" using assms(1) by (auto elim!: dec_ctxE)
  finally have len: "length s < 2 ^ 64" by simp
  have sv: "string_valid (unat mt) (length s) (s @ rest)"
    using assms(3,4) IsUtf8_prefix [of "length s" "s @ rest"] by (auto simp: string_valid_def string_len_def)
  have "unat mt < 7" using assms(3) by auto
  from strict_accepts [OF assms(1,2) this len sv, of b 0] assms(3) show ?thesis
    by (auto simp: wolfCose_CBOR_DecodeBytes_ex_def head_item_def cbor_head_bytes string_len_def)
qed

lemma DecodeBytes_reads_only:
  assumes "dec_ctx c" "mt = 2 \<or> mt = 3"
    "wolfCose_CBOR_DecodeBytes_ex b c mt out 0 = (WOLFCOSE_SUCCESS, c', data, len)"
  shows "readable data len \<and> inp c = cbor_head (unat mt) len @ bytes_at data len @ inp c' \<and>
    c' = advance c (length (cbor_head (unat mt) len) + len) \<and>
    (mt = 3 \<longrightarrow> wolfCose_CBOR_IsUtf8 data len)"
proof -
  obtain item where item: "wolfCose_CBOR_DecodeHead_ex b c local_item 0 = (WOLFCOSE_SUCCESS, c', item)"
    "item_majorType item = mt" "data = item_data item" "len = item_dataLen item"
    using assms(3) by (auto simp: wolfCose_CBOR_DecodeBytes_ex_def split: prod.splits if_splits)
  let ?mt = "unat mt" and ?v = "unat (item_val item)"
  have mt: "item_majorType item = of_nat ?mt" "?mt < 7" "?mt = 2 \<or> ?mt = 3" using item(2) assms(2) by auto
  obtain rest where r: "inp c = cbor_head ?mt ?v @ rest" "string_valid ?mt ?v rest"
      "c' = advance c (length (cbor_head ?mt ?v) + string_len ?mt ?v)" "item = head_item c ?mt (short_ai ?v) ?v"
    using strict_inv_mt [OF assms(1) item(1) mt(1,2) refl] by blast
  obtain p where p: "ctx_cbuf c = Some p" "ctx_bufSz c \<le> length p" "length p < 2 ^ 63" "ctx_idx c \<le> ctx_bufSz c"
    using assms(1) by (rule dec_ctxE)
  let ?h = "length (cbor_head ?mt ?v)"
  have len: "len = ?v" using item(4) r(4) mt(3) by (metis head_item_simps(3) string_len_def)
  have data: "data = Some (drop (ctx_idx c + ?h) p)"
    using item(3) arg_cong [OF r(4), of item_data] mt(3) p(1)
    by (simp add: head_item_def cbor_head_bytes)
  have rest: "rest = drop (ctx_idx c + ?h) (take (ctx_bufSz c) p)"
    using arg_cong [OF r(1), of "drop ?h"] p(1) by (simp add: inp_def add.commute)
  have le: "len \<le> length rest" using r(2) mt(3) len by (auto simp: string_valid_def string_len_def)
  have win: "take len (drop (ctx_idx c + ?h) p) = take len rest"
    using le unfolding rest by (simp add: drop_take)
  have fit: "len \<le> length (drop (ctx_idx c + ?h) p)" using le rest p by simp
  show ?thesis
  proof (intro conjI impI)
    show "readable data len" using fit p(3) by (simp add: data)
    show "c' = advance c (length (cbor_head ?mt len) + len)" using r(3) mt(3) by (simp add: string_len_def len)
    have "string_len ?mt ?v = len" using mt(3) by (simp add: string_len_def len)
    then have "inp c' = drop len rest" unfolding r(3) inp_advance by (simp add: r(1) len)
    then show "inp c = cbor_head ?mt len @ bytes_at data len @ inp c'"
      using r(1) win by (simp add: data len [symmetric])
    assume "mt = 3"
    then have "wolfCose_CBOR_IsUtf8 (Some rest) len" using r(2) by (simp add: string_valid_def len)
    then show "wolfCose_CBOR_IsUtf8 data len"
      using IsUtf8_prefix [OF fit] IsUtf8_prefix [OF le] win by (simp add: data)
  qed
qed

text \<open>Arrays and maps: the count, checked against the bytes that are left.\<close>

lemma DecodeContainer_reads:
  assumes "dec_ctx c" "inp c = cbor_head (unat mt) n @ rest" "mt = 4 \<and> n \<le> length rest \<or> mt = 5 \<and> 2 * n \<le> length rest"
    "DECODE_FLAGS_VALID b flags"
  shows "wolfCose_CBOR_DecodeContainerStart_ex b c mt out flags =
     (WOLFCOSE_SUCCESS, advance c (length (cbor_head (unat mt) n)), n)"
proof -
  let ?c' = "advance c (length (cbor_head (unat mt) n))"
  have "length rest \<le> length (inp c)" using assms(2) by simp
  also have "\<dots> < 2 ^ 63" using assms(1) by (auto elim!: dec_ctxE)
  finally have n: "n < 2 ^ 64" using assms(3) by auto
  have mt: "unat mt < 7" "unat mt \<noteq> 2" "unat mt \<noteq> 3" using assms(3) by auto
  have d: "dec_ctx ?c'" using assms(1,2) by (intro dec_ctx_advance) simp_all
  have "length rest = ctx_bufSz c - (ctx_idx c + length (cbor_head (unat mt) n))"
    using length_inp [OF d] by (simp add: assms(2))
  moreover have "ctx_idx c + length (cbor_head (unat mt) n) \<le> ctx_bufSz c" using d by (simp add: dec_ctx_def)
  ultimately show ?thesis
    using strict_accepts [OF assms(1,2) mt(1) n _ assms(4), of local_item] mt assms(3) n
    by (auto simp: wolfCose_CBOR_DecodeContainerStart_ex_def unat_of_nat)
qed

lemma DecodeContainer_reads_only:
  assumes "dec_ctx c" "mt = 4 \<or> mt = 5"
    "wolfCose_CBOR_DecodeContainerStart_ex b c mt out 0 = (WOLFCOSE_SUCCESS, c', n)"
  shows "inp c = cbor_head (unat mt) n @ inp c' \<and> c' = advance c (length (cbor_head (unat mt) n)) \<and>
    (if mt = 4 then n \<le> length (inp c') else 2 * n \<le> length (inp c'))"
proof -
  obtain item where item: "wolfCose_CBOR_DecodeHead_ex b c local_item 0 = (WOLFCOSE_SUCCESS, c', item)"
    "item_majorType item = mt" "n = unat (item_val item)"
    and le: "mt = 4 \<longrightarrow> n \<le> sz_sub (ctx_bufSz c') (ctx_idx c')" "mt = 5 \<longrightarrow> n \<le> sz_sub (ctx_bufSz c') (ctx_idx c') div 2"
    using assms(3) by (auto simp: wolfCose_CBOR_DecodeContainerStart_ex_def split: prod.splits if_splits)
  have mt: "item_majorType item = of_nat (unat mt)" "unat mt < 7" "unat mt \<noteq> 2" "unat mt \<noteq> 3"
    using item(2) assms(2) by auto
  obtain rest where r: "inp c = cbor_head (unat mt) n @ rest" "c' = advance c (length (cbor_head (unat mt) n))"
    using strict_inv_mt [OF assms(1) item(1) mt(1,2) item(3)] mt(3,4) by auto
  have "dec_ctx c'" unfolding r(2) using assms(1) r(1) by (intro dec_ctx_advance) simp_all
  then have "sz_sub (ctx_bufSz c') (ctx_idx c') = length (inp c')" by (simp add: dec_ctx_def)
  then show ?thesis using r le assms(2) by auto
qed

text \<open>Labels.\<close>

datatype label = LInt int | LText "u8 list"

fun label_bytes :: "label \<Rightarrow> u8 list" where
  "label_bytes (LInt n) = cbor_int n"
| "label_bytes (LText s) = cbor_head 3 (length s) @ s"

definition label_of :: "cbor_label \<Rightarrow> label" where
  "label_of l = (if label_isText l then LText (bytes_at (label_text l) (label_textLen l))
                 else LInt (sint (label_val l)))"

lemma DecodeLabel_int: 
  "wc_CBOR_DecodeInt b c 0 = (WOLFCOSE_SUCCESS, c', v) \<Longrightarrow>
   wc_CBOR_DecodeLabel b c l = (WOLFCOSE_SUCCESS, c',
     \<lparr> label_val = v, label_text = None, label_textLen = 0, label_isText = False \<rparr>)"
  by (auto simp: wc_CBOR_DecodeInt_def wc_CBOR_DecodeLabel_def wolfCose_CBOR_DecodeInt_ex_def
      wolfCose_CBOR_DecodeLabel_ex_def Let_def split: prod.splits if_splits)

lemma DecodeLabel_text: 
  "wc_CBOR_DecodeTstr b c (None, 0) = (WOLFCOSE_SUCCESS, c', s, n) \<Longrightarrow>
   wc_CBOR_DecodeLabel b c l = (WOLFCOSE_SUCCESS, c',
     \<lparr> label_val = 0, label_text = s, label_textLen = n, label_isText = True \<rparr>)"
  by (auto simp: wc_CBOR_DecodeTstr_def wolfCose_CBOR_DecodeTstr_ex_def wolfCose_CBOR_DecodeBytes_ex_def wc_CBOR_DecodeLabel_def 
      wolfCose_CBOR_DecodeLabel_ex_def Let_def split: prod.splits if_splits)

lemma DecodeLabel_cases:
  assumes "wc_CBOR_DecodeLabel b c l = (WOLFCOSE_SUCCESS, c', l')"
  shows "(\<not> label_isText l' \<and> wc_CBOR_DecodeInt b c 0 = (WOLFCOSE_SUCCESS, c', label_val l')) \<or>
     (label_isText l' \<and> wc_CBOR_DecodeTstr b c (None, 0) = (WOLFCOSE_SUCCESS, c', label_text l', label_textLen l'))"
  using assms by (auto simp: wc_CBOR_DecodeTstr_def wolfCose_CBOR_DecodeTstr_ex_def wolfCose_CBOR_DecodeBytes_ex_def wc_CBOR_DecodeLabel_def 
    wc_CBOR_DecodeInt_def wolfCose_CBOR_DecodeInt_ex_def
      wolfCose_CBOR_DecodeLabel_ex_def Let_def split: prod.splits if_splits)

lemma DecodeLabel_reads_only:
  assumes "dec_ctx c" "wc_CBOR_DecodeLabel b c l = (WOLFCOSE_SUCCESS, c', l')"
  shows "inp c = label_bytes (label_of l') @ inp c' \<and> c' = advance c (length (label_bytes (label_of l'))) \<and>
    (label_isText l' \<longrightarrow> readable (label_text l') (label_textLen l') \<and> wolfCose_CBOR_IsUtf8 (label_text l') (label_textLen l'))"
  using DecodeLabel_cases [OF assms(2)]
proof (elim disjE conjE)
  assume "\<not> label_isText l'" "wc_CBOR_DecodeInt b c 0 = (WOLFCOSE_SUCCESS, c', label_val l')"
  then show ?thesis using int_c.reads_only [OF assms(1)] by (simp add: label_of_def)
next
  assume "label_isText l'" "wc_CBOR_DecodeTstr b c (None, 0) = (WOLFCOSE_SUCCESS, c', label_text l', label_textLen l')"
  then have "wolfCose_CBOR_DecodeBytes_ex b c 3 (None, 0) 0 =
      (WOLFCOSE_SUCCESS, c', label_text l', label_textLen l')"
    by (simp add: wc_CBOR_DecodeTstr_def wolfCose_CBOR_DecodeTstr_ex_def)
  note h = DecodeBytes_reads_only [OF assms(1) disjI2 [OF refl] this]
  have l: "label_bytes (label_of l') =
      cbor_head (unat (3 :: u8)) (label_textLen l') @ bytes_at (label_text l') (label_textLen l')"
    using h \<open>label_isText l'\<close> by (simp add: label_of_def)
  show ?thesis unfolding l using h by (simp del: inp_advance)
qed

lemma DecodeLabel_reads_int:
  assumes "dec_ctx c" "inp c = cbor_int (sint v) @ rest"
  shows "wc_CBOR_DecodeLabel b c l = (WOLFCOSE_SUCCESS, advance c (length (cbor_int (sint v))),
     \<lparr> label_val = v, label_text = None, label_textLen = 0, label_isText = False \<rparr>)"
  by (rule DecodeLabel_int [OF int_c.reads [OF assms]])

section \<open>The properties\<close>

definition dec_example :: "u8 list \<Rightarrow> cbor_ctx" where
  "dec_example bs = \<lparr> ctx_buf = None, ctx_cbuf = Some bs, ctx_bufSz = length bs, ctx_idx = 0,
     ctx_fault = False \<rparr>"

lemma dec_example_ok: "length bs < 2 ^ 63 \<Longrightarrow> dec_ctx (dec_example bs)" "inp (dec_example bs) = bs"
  by (simp_all add: dec_ctx_def dec_example_def inp_def)

text \<open>C17: the head decoder succeeds exactly when the input starts with a valid RFC 8949 head
(a shortest one in strict mode; its string content present, and UTF-8 when it is text), and then
returns its major type, argument and content and stands right behind the item.\<close>

theorem DecodeHead_iff:
  assumes "dec_ctx c" "DECODE_FLAGS_VALID b flags"
  shows "wolfCose_CBOR_DecodeHead_ex b c item flags = (WOLFCOSE_SUCCESS, c', item') \<longleftrightarrow>
    (\<exists>mt ai v rest. inp c = head_bytes mt ai v @ rest \<and> head_valid (tolerant b flags) mt ai v \<and>
       string_valid mt v rest \<and> c' = advance c (1 + arg_width ai + string_len mt v) \<and>
       item' = head_item c mt ai v)" (is "?l \<longleftrightarrow> ?r")
proof
  assume ?l
  then show ?r by (rule DecodeHead_inv [OF assms(1)]) blast
next
  assume ?r
  then show ?l using DecodeHead_accepts [OF assms] by blast
qed

lemma DecodeHead_iff_witness:
  "wolfCose_CBOR_DecodeHead_ex full_build (dec_example [0x19, 0x03, 0xE8, 0x00]) local_item 0 =
     (WOLFCOSE_SUCCESS, advance (dec_example [0x19, 0x03, 0xE8, 0x00]) 3,
      head_item (dec_example [0x19, 0x03, 0xE8, 0x00]) 0 25 1000)"
proof -
  have "inp (dec_example [0x19, 0x03, 0xE8, 0x00]) = head_bytes 0 25 1000 @ [0]"
    by (simp add: dec_example_ok head_bytes_def arg_width_def)
  moreover have "head_valid False 0 25 1000"
    by (simp add: head_valid_def head_ok_def head_preferred_def arg_width_def)
  ultimately show ?thesis
    by (intro DecodeHead_iff [THEN iffD2] dec_example_ok exI conjI)
      (simp_all add: arg_width_def)
qed

text \<open>C20: whatever the input and the mode, the head decoder only moves the cursor forward within
its buffer, reads no byte outside it, and a success consumes at least one byte.\<close>

theorem DecodeHead_safe:
  assumes "dec_ctx c" "wolfCose_CBOR_DecodeHead_ex b c item flags = (ret, c', item')"
  shows "dec_ctx c' \<and> ctx_cbuf c' = ctx_cbuf c \<and> ctx_bufSz c' = ctx_bufSz c \<and>
    ctx_idx c \<le> ctx_idx c' \<and> (ret = WOLFCOSE_SUCCESS \<longrightarrow> ctx_idx c < ctx_idx c')"
  using head_r.keeps [OF assms] head_r.shrinks [OF assms(1)] assms(2) by blast

lemma DecodeHead_safe_witness:
  "\<exists>ret c' item'. wolfCose_CBOR_DecodeHead_ex full_build (dec_example [0x5F]) local_item 0 =
     (ret, c', item') \<and> dec_ctx c' \<and> ctx_idx c' \<le> 1"
proof -
  obtain ret c' item' where r: "wolfCose_CBOR_DecodeHead_ex full_build (dec_example [0x5F]) local_item 0 =
     (ret, c', item')" by (metis prod_cases3)
  have "dec_ctx c' \<and> ctx_bufSz c' = 1"
    using DecodeHead_safe [OF dec_example_ok(1) r] by (simp add: dec_example_def)
  then show ?thesis using r by (auto simp: dec_ctx_def)
qed

text \<open>C31: the signed-integer decoder accepts exactly the preferred encodings of the integers
from -2^63 to 2^63 - 1, and returns that integer.\<close>

theorem DecodeInt_iff:
  assumes "dec_ctx c"
  shows "wc_CBOR_DecodeInt b c out = (WOLFCOSE_SUCCESS, c', v) \<longleftrightarrow>
    (\<exists>rest. inp c = cbor_int (sint v) @ rest) \<and> c' = advance c (length (cbor_int (sint v)))"
  by (rule int_c.success_iff [OF assms])

lemma DecodeInt_iff_witness:
  "wc_CBOR_DecodeInt full_build (dec_example [0x38, 0x22]) 0 =
     (WOLFCOSE_SUCCESS, advance (dec_example [0x38, 0x22]) 2, - 35)"
proof -
  have "cbor_int (sint (- 35 :: i64)) = [0x38, 0x22]"
    by (simp add: cbor_int_def cbor_head_def sint_cases64)
  then show ?thesis
    using DecodeInt_iff [of "dec_example [0x38, 0x22]" full_build 0 _ "- 35"]
    by (simp add: dec_example_ok)
qed

text \<open>C29: a signed integer survives encoding and decoding, and the decoder stops where the
encoder stopped.\<close>

theorem Int_round_trip:
  assumes "enc_ctx c" "length (the (ctx_buf c)) < 2 ^ 63"
    "wc_CBOR_EncodeInt c v = (WOLFCOSE_SUCCESS, c')"
  shows "\<exists>c''. wc_CBOR_DecodeInt b (reread c c') out = (WOLFCOSE_SUCCESS, c'', v) \<and>
    ctx_idx c'' = ctx_idx c'"
  by (rule int_rt.round_trip [OF assms])

lemma Int_round_trip_witness:
  "\<exists>c' c''. wc_CBOR_EncodeInt enc_example (- 500) = (WOLFCOSE_SUCCESS, c') \<and>
     wc_CBOR_DecodeInt full_build (reread enc_example c') 0 = (WOLFCOSE_SUCCESS, c'', - 500)"
proof -
  have "length (cbor_int (sint (- 500 :: i64))) = 3"
    by (simp add: cbor_int_def cbor_head_def sint_cases64)
  then have "wc_CBOR_EncodeInt enc_example (- 500) =
      (WOLFCOSE_SUCCESS, append_out enc_example (cbor_int (sint (- 500 :: i64))))"
    by (intro int.fits enc_example_ok) (simp add: enc_example_def)
  with Int_round_trip [OF enc_example_ok _ this] show ?thesis by (auto simp: enc_example_def)
qed

text \<open>A byte string that was encoded is decoded to a pointer to exactly its bytes.\<close>

lemma Bstr_round_trip:
  assumes "enc_ctx c" "length (the (ctx_buf c)) < 2 ^ 63" "readable data len"
    "wc_CBOR_EncodeBstr c data len = (WOLFCOSE_SUCCESS, c')"
  shows "\<exists>c'' p. wc_CBOR_DecodeBstr b (reread c c') out = (WOLFCOSE_SUCCESS, c'', p, len) \<and>
    bytes_at p len = bytes_at data len \<and> ctx_idx c'' = ctx_idx c'"
proof -
  let ?s = "bytes_at data len"
  let ?bs = "cbor_head 2 len @ ?s"
  have s: "length ?s = len" using assms(3) by simp
  have w: "cbor_writer (\<lambda>c. wc_CBOR_EncodeBstr c data len) ?bs" by (rule writer_bstr [OF assms(3)])
  have le: "ctx_idx c + length ?bs \<le> ctx_bufSz c"
    using cbor_writer.success_iff [OF w assms(1)] assms(4) by simp
  then have c': "c' = append_out c ?bs" using cbor_writer.fits [OF w assms(1)] assms(4) by simp
  obtain p where p: "ctx_buf c = Some p" "ctx_bufSz c \<le> length p" "\<not> ctx_fault c"
    using assms(1) by (elim enc_ctxE)
  let ?r = "reread c c'"
  have d: "dec_ctx ?r" and i: "inp ?r = ?bs"
    unfolding c' using reread_append [OF assms(1,2) le] by simp_all
  have "wc_CBOR_DecodeBstr b ?r out = (WOLFCOSE_SUCCESS, advance ?r (length (cbor_head 2 len) + len),
      Some (drop (ctx_idx ?r + length (cbor_head 2 len)) (the (ctx_cbuf ?r))), len)"
    using DecodeBytes_reads [OF d, of 2 ?s "[]" b out] i s
    by (simp add: wc_CBOR_DecodeBstr_def wolfCose_CBOR_DecodeBstr_ex_def)
  moreover have "take len (drop (ctx_idx ?r + length (cbor_head 2 len)) (the (ctx_cbuf ?r))) = ?s"
    using p le s by (simp add: reread_def c' append_out_def splice_def)
  moreover have "ctx_idx ?r + (length (cbor_head 2 len) + len) = ctx_idx c'"
    using s by (simp add: reread_def c')
  ultimately show ?thesis by (intro exI conjI) (assumption, simp_all)
qed

lemma Bstr_round_trip_witness:
  "\<exists>c' c'' p. wc_CBOR_EncodeBstr enc_example (Some [1, 2, 3]) 3 = (WOLFCOSE_SUCCESS, c') \<and>
     wc_CBOR_DecodeBstr full_build (reread enc_example c') (None, 0) = (WOLFCOSE_SUCCESS, c'', p, 3) \<and>
     bytes_at p 3 = [1, 2, 3]"
proof -
  have r: "readable (Some [1, 2, 3]) 3" by simp
  have "wc_CBOR_EncodeBstr enc_example (Some [1, 2, 3]) 3 =
      (WOLFCOSE_SUCCESS, append_out enc_example (cbor_head 2 3 @ bytes_at (Some [1, 2, 3]) 3))"
    by (intro cbor_writer.fits [OF writer_bstr [OF r]] enc_example_ok) (simp add: enc_example_def cbor_head_def)
  moreover have "length (the (ctx_buf enc_example)) < 2 ^ 63" by (simp add: enc_example_def)
  ultimately show ?thesis
    using Bstr_round_trip [OF enc_example_ok _ r, of _ full_build "(None, 0)"] by fastforce
qed

lemma LabelIsText_eq:
  assumes "label_isText l \<longrightarrow> readable (label_text l) (label_textLen l)" "readable text n"
  shows "wc_CBOR_LabelIsText (Some l) text n \<longleftrightarrow> label_of l = LText (bytes_at text n)"
proof (cases "label_isText l \<and> label_textLen l = n \<and> n \<noteq> 0")
  case True
  then obtain t u where "label_text l = Some t" "text = Some u" "n \<le> length t" "n \<le> length u"
    using assms by (cases "label_text l"; cases "text") auto
  then show ?thesis using True by (simp add: wc_CBOR_LabelIsText_def label_of_def diff_bytes_0)
next
  case False
  have "bytes_at p 0 = []" for p by (cases p) simp_all
  moreover have "length (bytes_at text n) = n" using assms(2) by simp
  moreover have "label_isText l \<Longrightarrow> length (bytes_at (label_text l) (label_textLen l)) = label_textLen l"
    using assms(1) by simp
  ultimately show ?thesis using False
    by (cases "label_textLen l = n") (auto simp: wc_CBOR_LabelIsText_def label_of_def)
qed

text \<open>C33: the label comparison, which accumulates differences instead of stopping at the first
one, is true exactly for a text label with the same bytes.\<close>

theorem LabelIsText_iff:
  assumes "label_isText l \<longrightarrow> readable (label_text l) (label_textLen l)" "readable text n"
  shows "wc_CBOR_LabelIsText (Some l) text n \<longleftrightarrow> label_of l = LText (bytes_at text n)"
  by (rule LabelIsText_eq [OF assms])

lemma LabelIsText_iff_witness:
  "wc_CBOR_LabelIsText (Some \<lparr> label_val = 0, label_text = Some [0x68, 0x69, 0x21], label_textLen = 2,
      label_isText = True \<rparr>) (Some [0x68, 0x69]) 2"
  by (subst LabelIsText_iff) (simp_all add: label_of_def)

end
