(* ===== verification/Cbor_Skip.thy ===== *)
theory Cbor_Skip
  imports Cbor_Decode
begin

text \<open>
  \<open>wc_CBOR_Skip\<close> (\<open>src/wolfcose_cbor.c\<close>): the iterative traversal with a bounded stack that
  steps over one complete item. It is proved to succeed exactly when the input starts with a
  well-formed item (a tree of heads, strings and children) whose nesting is within
  \<open>WOLFCOSE_CBOR_MAX_DEPTH\<close>, and to stop right behind it.
\<close>

section \<open>The traversal\<close>

text \<open>
  The C array \<open>stack[0..depth-1]\<close> is the list with \<open>stack[depth-1]\<close> first, so \<open>depth\<close> is its
  length. \<open>unwind\<close> is the inner loop \<open>while ((remaining == 0) && (depth > 0))\<close>.
\<close>

fun unwind :: "size \<Rightarrow> size list \<Rightarrow> size \<times> size list" where
  "unwind remaining [] = (remaining, [])"
| "unwind remaining (s # stack) = (if remaining = 0 then unwind s stack else (remaining, s # stack))"

text \<open>The branches on the item just decoded, \<open>remaining\<close> being already decremented.\<close>

definition skip_item ::
  "build \<Rightarrow> cbor_ctx \<Rightarrow> cbor_item \<Rightarrow> size \<Rightarrow> size list \<Rightarrow> rc \<times> size \<times> size list" where
  "skip_item b ctx item remaining stack =
     (if item_majorType item = WOLFCOSE_CBOR_ARRAY then
        if item_val item > 0 then
          if length stack \<ge> cbor_max_depth b then (WOLFCOSE_E_CBOR_DEPTH, remaining, stack)
          else if unat (item_val item) > ctx_bufSz ctx
            then (WOLFCOSE_E_CBOR_MALFORMED, remaining, stack)
          else (WOLFCOSE_SUCCESS, unat (item_val item), remaining # stack)
        else (WOLFCOSE_SUCCESS, remaining, stack)
      else if item_majorType item = WOLFCOSE_CBOR_MAP then
        if item_val item > 0 then
          if length stack \<ge> cbor_max_depth b then (WOLFCOSE_E_CBOR_DEPTH, remaining, stack)
          else if unat (item_val item) > ctx_bufSz ctx
            then (WOLFCOSE_E_CBOR_MALFORMED, remaining, stack)
          else if unat (item_val item) > SIZE_MAX div 2
            then (WOLFCOSE_E_CBOR_MALFORMED, remaining, stack)
          else (WOLFCOSE_SUCCESS, unat (item_val item * 2), remaining # stack)
        else (WOLFCOSE_SUCCESS, remaining, stack)
      else if item_majorType item = WOLFCOSE_CBOR_TAG then
        (WOLFCOSE_SUCCESS, sz_add remaining 1, stack)
      else (WOLFCOSE_SUCCESS, remaining, stack))"

lemma head_arg_forward:
  "ctx_idx c \<le> ctx_idx (fst (snd (head_arg c item ai))) \<and>
   ctx_bufSz (fst (snd (head_arg c item ai))) = ctx_bufSz c"
  by (simp add: head_arg_def read_arg_def get_check_def)

lemma head_checks_forward: "snd (head_checks b flags ai s) = s"
  by (cases s) (simp add: head_checks_def)

lemma head_string_forward:
  "ctx_idx (fst s) \<le> ctx_idx (fst (snd (head_string s))) \<and>
   ctx_bufSz (fst (snd (head_string s))) = ctx_bufSz (fst s)"
  by (cases s) (simp add: head_string_def get_check_def Let_def)

lemma DecodeHead_forward:
  assumes "wolfCose_CBOR_DecodeHead_ex b c item flags = (WOLFCOSE_SUCCESS, c', item')"
  shows "ctx_idx c < ctx_bufSz c \<and> ctx_idx c < ctx_idx c' \<and> ctx_bufSz c' = ctx_bufSz c"
proof -
  let ?c1 = "(get_check c 1)\<lparr>ctx_idx := ctx_idx c + 1\<rparr>"
  obtain it ai where r: "on_success (on_success (head_arg ?c1 it ai) (head_checks b flags ai)) head_string =
      (WOLFCOSE_SUCCESS, c', item')" and lt: "ctx_idx c < ctx_bufSz c"
    using assms unfolding wolfCose_CBOR_DecodeHead_ex_def Let_def by (auto split: if_splits)
  obtain r1 c2 it2 where a: "head_arg ?c1 it ai = (r1, c2, it2)" by (metis prod_cases3)
  then have r1: "r1 = WOLFCOSE_SUCCESS" using r by (auto simp: on_success_def split: if_splits)
  then have "head_string (c2, it2) = (WOLFCOSE_SUCCESS, c', item')"
    using r a head_checks_forward [of b flags ai "(c2, it2)"] by (auto simp: on_success_def split: if_splits)
  then show ?thesis
    using head_string_forward [of "(c2, it2)"] head_arg_forward [of ?c1 it ai] a lt
    by (simp add: get_check_def)
qed

function skip_loop :: "build \<Rightarrow> u32 \<Rightarrow> cbor_ctx \<Rightarrow> size \<Rightarrow> size list \<Rightarrow> rc \<times> cbor_ctx" where
  "skip_loop b decodeFlags ctx remaining stack =
     (if remaining > 0 then
        (case wolfCose_CBOR_DecodeHead_ex b ctx local_item decodeFlags of (ret, ctx', item) \<Rightarrow>
           if ret \<noteq> WOLFCOSE_SUCCESS then (ret, ctx')
           else (case skip_item b ctx' item (remaining - 1) stack of (ret, remaining', stack') \<Rightarrow>
             if ret \<noteq> WOLFCOSE_SUCCESS then (ret, ctx')
             else (case unwind remaining' stack' of (r, st) \<Rightarrow> skip_loop b decodeFlags ctx' r st)))
      else (WOLFCOSE_SUCCESS, ctx))"
  by pat_completeness auto
termination
  by (relation "measure (\<lambda>(b, flags, ctx, r, st). ctx_bufSz ctx - ctx_idx ctx)")
    (auto dest!: DecodeHead_forward [OF sym] intro: diff_less_mono2)

declare skip_loop.simps [simp del]

lemma skip_loop_0 [simp]: "skip_loop b flags c 0 st = (WOLFCOSE_SUCCESS, c)"
  by (subst skip_loop.simps) simp

definition wolfCose_CBOR_Skip_ex :: "build \<Rightarrow> cbor_ctx \<Rightarrow> u32 \<Rightarrow> rc \<times> cbor_ctx" where
  "wolfCose_CBOR_Skip_ex b ctx decodeFlags = skip_loop b decodeFlags ctx 1 []"

definition wc_CBOR_Skip :: "build \<Rightarrow> cbor_ctx \<Rightarrow> rc \<times> cbor_ctx" where
  "wc_CBOR_Skip b ctx = wolfCose_CBOR_Skip_ex b ctx 0"

definition wc_CBOR_SkipItem :: "build \<Rightarrow> cbor_ctx \<Rightarrow> cptr \<times> size \<Rightarrow> rc \<times> cbor_ctx \<times> cptr \<times> size" where
  "wc_CBOR_SkipItem b ctx out =
     (if ctx_cbuf ctx = None then (WOLFCOSE_E_INVALID_ARG, ctx, out)
      else
        let start = ctx_idx ctx
        in (case wolfCose_CBOR_Skip_ex b ctx 0 of (ret, ctx') \<Rightarrow>
              if ret = WOLFCOSE_SUCCESS
              then (ret, ctx', map_option (drop start) (ctx_cbuf ctx'), sz_sub (ctx_idx ctx') start)
              else (ret, ctx', out)))"

section \<open>Well-formed items\<close>

text \<open>
  An item as a tree; every node carries the additional information its head was written with.
  \<open>tree_wf tol\<close>: every head is valid (a shortest one when \<open>tol\<close> is false), the strings are as
  long as their heads say, text is UTF-8, a map has as many keys as values. \<open>nested_within d\<close>:
  at most \<open>d\<close> non-empty arrays and maps are open at any point.
\<close>

datatype cbor_tree =
    Scalar nat nat nat               \<comment> \<open>major type 0, 1 or 7, additional information, argument\<close>
  | Str nat nat "u8 list"            \<comment> \<open>major type 2 or 3, additional information, content\<close>
  | Arr nat "cbor_tree list"
  | Mp nat "cbor_tree list"          \<comment> \<open>keys and values in turn\<close>
  | Tg nat nat cbor_tree

fun tree_bytes :: "cbor_tree \<Rightarrow> u8 list" where
  "tree_bytes (Scalar mt ai v) = head_bytes mt ai v"
| "tree_bytes (Str mt ai s) = head_bytes mt ai (length s) @ s"
| "tree_bytes (Arr ai ts) = head_bytes 4 ai (length ts) @ concat (map tree_bytes ts)"
| "tree_bytes (Mp ai ts) = head_bytes 5 ai (length ts div 2) @ concat (map tree_bytes ts)"
| "tree_bytes (Tg ai v t) = head_bytes 6 ai v @ tree_bytes t"

fun tree_wf :: "bool \<Rightarrow> cbor_tree \<Rightarrow> bool" where
  "tree_wf tol (Scalar mt ai v) \<longleftrightarrow> mt \<in> {0, 1, 7} \<and> head_valid tol mt ai v"
| "tree_wf tol (Str mt ai s) \<longleftrightarrow> mt \<in> {2, 3} \<and> head_valid tol mt ai (length s) \<and>
     (mt = 3 \<longrightarrow> wolfCose_CBOR_IsUtf8 (Some s) (length s))"
| "tree_wf tol (Arr ai ts) \<longleftrightarrow> head_valid tol 4 ai (length ts) \<and> (\<forall>t\<in>set ts. tree_wf tol t)"
| "tree_wf tol (Mp ai ts) \<longleftrightarrow> even (length ts) \<and> head_valid tol 5 ai (length ts div 2) \<and>
     (\<forall>t\<in>set ts. tree_wf tol t)"
| "tree_wf tol (Tg ai v t) \<longleftrightarrow> head_valid tol 6 ai v \<and> tree_wf tol t"

fun nested_within :: "nat \<Rightarrow> cbor_tree \<Rightarrow> bool" where
  "nested_within d (Scalar mt ai v) \<longleftrightarrow> True"
| "nested_within d (Str mt ai s) \<longleftrightarrow> True"
| "nested_within d (Arr ai ts) \<longleftrightarrow> ts = [] \<or> d > 0 \<and> (\<forall>t\<in>set ts. nested_within (d - 1) t)"
| "nested_within d (Mp ai ts) \<longleftrightarrow> ts = [] \<or> d > 0 \<and> (\<forall>t\<in>set ts. nested_within (d - 1) t)"
| "nested_within d (Tg ai v t) \<longleftrightarrow> nested_within d t"

abbreviation forest_bytes :: "cbor_tree list \<Rightarrow> u8 list" where
  "forest_bytes ts \<equiv> concat (map tree_bytes ts)"

lemma tree_bytes_pos: "0 < length (tree_bytes t)"
  by (cases t) simp_all

lemma forest_bytes_length: "length ts \<le> length (forest_bytes ts)"
proof (induction ts)
  case (Cons t ts)
  then show ?case using tree_bytes_pos [of t] by (simp del: length_greater_0_conv)
qed simp

section \<open>A well-formed item is skipped\<close>

definition continue :: "build \<Rightarrow> u32 \<Rightarrow> cbor_ctx \<Rightarrow> size \<times> size list \<Rightarrow> rc \<times> cbor_ctx" where
  "continue b flags c cfg = skip_loop b flags c (fst cfg) (snd cfg)"

lemma continue_pair: "continue b flags c (r, st) = skip_loop b flags c r st"
  by (simp add: continue_def)

lemma skip_head:
  assumes "dec_ctx c" "DECODE_FLAGS_VALID b flags" "inp c = head_bytes mt ai v @ rest"
    "head_valid (tolerant b flags) mt ai v" "string_valid mt v rest"
  shows "skip_loop b flags c (Suc k) st =
    (case skip_item b (advance c (1 + arg_width ai + string_len mt v)) (head_item c mt ai v) k st of
       (ret, r, s) \<Rightarrow> if ret \<noteq> WOLFCOSE_SUCCESS then (ret, advance c (1 + arg_width ai + string_len mt v))
         else continue b flags (advance c (1 + arg_width ai + string_len mt v)) (unwind r s))"
  by (subst skip_loop.simps) (simp add: DecodeHead_accepts [OF assms] continue_def split_def)

lemma unwind_pos [simp]: "0 < k \<Longrightarrow> unwind k st = (k, st)"
  by (cases st) simp_all


lemma skip_item_simple:
  assumes "mt < 8" "mt \<notin> {4, 5, 6}"
  shows "skip_item b c (head_item c0 mt ai v) k st = (WOLFCOSE_SUCCESS, k, st)"
  using assms by (simp add: skip_item_def word_unat_eq_iff unat_of_nat_u8)

lemma skip_item_tag:
  "Suc k < 2 ^ 64 \<Longrightarrow> skip_item b c (head_item c0 6 ai v) k st = (WOLFCOSE_SUCCESS, Suc k, st)"
  by (simp add: skip_item_def)

lemma skip_item_array:
  assumes "v < 2 ^ 64" "v \<le> ctx_bufSz c" "v = 0 \<or> length st < cbor_max_depth b"
  shows "skip_item b c (head_item c0 4 ai v) k st =
    (WOLFCOSE_SUCCESS, if v = 0 then (k, st) else (v, k # st))"
  using assms by (auto simp add: skip_item_def word_less_nat_alt unat_of_nat)

lemma skip_item_map:
  assumes "v < 2 ^ 63" "v \<le> ctx_bufSz c" "v = 0 \<or> length st < cbor_max_depth b"
  shows "skip_item b c (head_item c0 5 ai v) k st =
    (WOLFCOSE_SUCCESS, if v = 0 then (k, st) else (2 * v, k # st))"
proof -
  have "unat (of_nat v * 2 :: u64) = 2 * v"
    using assms(1) by (simp add: unat_word_ariths unat_of_nat)
  then show ?thesis using assms by (auto simp add: skip_item_def word_less_nat_alt unat_of_nat SIZE_MAX_def)
qed

text \<open>The children of a container, one after the other, when each is skipped.\<close>

lemma skip_forest:
  assumes "\<And>t c k rest. \<lbrakk>t \<in> set ts; dec_ctx c; inp c = tree_bytes t @ rest; Suc k < 2 ^ 64\<rbrakk> \<Longrightarrow>
      skip_loop b flags c (Suc k) st = continue b flags (advance c (length (tree_bytes t))) (unwind k st)"
    and "dec_ctx c" "inp c = forest_bytes ts @ rest" "ts \<noteq> []" "length ts + k < 2 ^ 64"
  shows "skip_loop b flags c (length ts + k) st =
    continue b flags (advance c (length (forest_bytes ts))) (unwind k st)"
  using assms
proof (induction ts arbitrary: c)
  case (Cons t ts)
  let ?c = "advance c (length (tree_bytes t))"
  have step: "skip_loop b flags c (length (t # ts) + k) st = continue b flags ?c (unwind (length ts + k) st)"
    using Cons.prems(1) [of t c "forest_bytes ts @ rest" "length ts + k"] Cons.prems(2,3,5) by simp
  show ?case
  proof (cases "ts = []")
    case True
    then show ?thesis using step by simp
  next
    case False
    have "dec_ctx ?c" using Cons.prems(2,3) by (intro dec_ctx_advance) simp_all
    moreover have "inp ?c = forest_bytes ts @ rest" using Cons.prems(3) by simp
    ultimately have "skip_loop b flags ?c (length ts + k) st =
        continue b flags (advance ?c (length (forest_bytes ts))) (unwind k st)"
      using Cons.prems(1,5) False by (intro Cons.IH) simp_all
    then show ?thesis using step False by (simp add: continue_pair)
  qed
qed simp

lemma skip_container:
  assumes c: "dec_ctx c" "DECODE_FLAGS_VALID b flags" "inp c = head_bytes mt ai v @ forest_bytes ts @ rest"
    and hv: "head_valid (tolerant b flags) mt ai v"
    and mt: "mt = 4 \<and> length ts = v \<or> mt = 5 \<and> length ts = 2 * v"
    and depth: "ts = [] \<or> length st < cbor_max_depth b"
    and IH: "\<And>t c k' rest. \<lbrakk>t \<in> set ts; dec_ctx c; inp c = tree_bytes t @ rest; Suc k' < 2 ^ 64\<rbrakk> \<Longrightarrow>
      skip_loop b flags c (Suc k') (k # st) =
        continue b flags (advance c (length (tree_bytes t))) (unwind k' (k # st))"
  shows "skip_loop b flags c (Suc k) st =
    continue b flags (advance c (length (head_bytes mt ai v @ forest_bytes ts))) (unwind k st)"
proof -
  let ?c = "advance c (1 + arg_width ai)"
  have d: "dec_ctx ?c" using c(1,3) by (intro dec_ctx_advance) simp_all
  have sv: "string_valid mt v (forest_bytes ts @ rest)" "string_len mt v = 0" using mt by auto
  have n: "length ts \<le> length (inp c)" using forest_bytes_length [of ts] by (simp add: c(3))
  then have n': "length ts \<le> ctx_bufSz c" using c(1) by simp
  have "ctx_bufSz c < 2 ^ 63" using c(1) by (auto elim!: dec_ctxE)
  then have v: "v \<le> ctx_bufSz ?c" "v < 2 ^ 63" "length ts < 2 ^ 64" using mt n' by auto
  have empty: "ts = [] \<longleftrightarrow> v = 0" using mt by (auto simp flip: length_0_conv)
  have item: "skip_item b ?c (head_item c mt ai v) k st =
      (WOLFCOSE_SUCCESS, if ts = [] then (k, st) else (length ts, k # st))"
    using mt depth v empty skip_item_array [of v ?c st b c ai k] skip_item_map [of v ?c st b c ai k] by auto
  have start: "skip_loop b flags c (Suc k) st =
      continue b flags ?c (if ts = [] then unwind k st else (length ts, k # st))"
    using skip_head [OF c(1,2,3) hv sv(1), of k st] sv(2) item by simp
  show ?thesis
  proof (cases "ts = []")
    case False
    have "inp ?c = forest_bytes ts @ rest" by (simp add: c(3))
    then have "skip_loop b flags ?c (length ts + 0) (k # st) =
        continue b flags (advance ?c (length (forest_bytes ts))) (unwind 0 (k # st))"
      using IH d False v(3) by (intro skip_forest) simp_all
    then show ?thesis using start False by (simp add: continue_pair)
  qed (use start in simp)
qed

lemma skip_tree:
  assumes "dec_ctx c" "DECODE_FLAGS_VALID b flags" "inp c = tree_bytes t @ rest" "tree_wf (tolerant b flags) t"
    "nested_within (cbor_max_depth b - length st) t" "Suc k < 2 ^ 64"
  shows "skip_loop b flags c (Suc k) st =
    continue b flags (advance c (length (tree_bytes t))) (unwind k st)"
  using assms
proof (induction t arbitrary: c k st rest)
  case (Scalar mt ai v)
  then have "mt < 8" "mt \<notin> {4, 5, 6}" "string_valid mt v rest" "string_len mt v = 0" by auto
  then show ?case
    using skip_head [OF Scalar(1,2), of mt ai v rest k st] Scalar by (simp add: skip_item_simple)
next
  case (Str mt ai s)
  have "mt < 8" "mt \<notin> {4, 5, 6}" "string_len mt (length s) = length s"
    using Str by (auto simp: string_len_def)
  moreover have "string_valid mt (length s) (s @ rest)"
    using Str IsUtf8_prefix [of "length s" "s @ rest"] by (auto simp: string_valid_def string_len_def)
  ultimately show ?case
    using skip_head [OF Str(1,2), of mt ai "length s" "s @ rest" k st] Str by (simp add: skip_item_simple)
next
  case (Arr ai ts)
  show ?case
    unfolding tree_bytes.simps
    by (rule skip_container [OF Arr.prems(1,2)])
      (use Arr in \<open>auto intro!: Arr.IH simp: Suc_diff_Suc\<close>)
next
  case (Mp ai ts)
  show ?case
    unfolding tree_bytes.simps
    by (rule skip_container [OF Mp.prems(1,2)])
      (use Mp in \<open>auto intro!: Mp.IH simp: Suc_diff_Suc\<close>)
next
  case (Tg ai v t)
  let ?c = "advance c (1 + arg_width ai)"
  have d: "dec_ctx ?c" using Tg.prems(1,3) by (intro dec_ctx_advance) simp_all
  have i: "inp ?c = tree_bytes t @ rest" using Tg.prems(3) by simp
  have "skip_loop b flags c (Suc k) st = continue b flags ?c (Suc k, st)"
    using skip_head [OF Tg.prems(1,2), of 6 ai v "tree_bytes t @ rest" k st] Tg.prems
    by (simp add: skip_item_tag)
  also have "\<dots> = continue b flags (advance ?c (length (tree_bytes t))) (unwind k st)"
    using Tg.IH [OF d Tg.prems(2) i] Tg.prems by (simp add: continue_pair)
  finally show ?case by simp
qed


section \<open>What is skipped is a well-formed item\<close>

text \<open>
  \<open>levels tol d counts bs\<close>: \<open>bs\<close> is made of \<open>hd counts\<close> items of nesting at most \<open>d\<close>, then the
  items of the next outer level, which may nest one deeper, and so on.
\<close>

fun levels :: "bool \<Rightarrow> nat \<Rightarrow> nat list \<Rightarrow> u8 list \<Rightarrow> bool" where
  "levels tol d [] bs \<longleftrightarrow> bs = []"
| "levels tol d (n # ns) bs \<longleftrightarrow> (\<exists>ts bs'. length ts = n \<and> bs = forest_bytes ts @ bs' \<and>
     (\<forall>t\<in>set ts. tree_wf tol t \<and> nested_within d t) \<and> levels tol (Suc d) ns bs')"

lemma levels_0: "levels tol d (0 # ns) bs \<longleftrightarrow> levels tol (Suc d) ns bs"
  by simp

lemma levels_Suc:
  "levels tol d (n # ns) bs \<Longrightarrow> tree_wf tol t \<Longrightarrow> nested_within d t \<Longrightarrow>
   levels tol d (Suc n # ns) (tree_bytes t @ bs)"
  by (auto intro: exI [of _ "t # _"])

lemma levels_unwind:
  assumes "unwind r st = (r', st')" "length st \<le> m" "levels tol (m - length st') (r' # st') bs"
  shows "levels tol (m - length st) (r # st) bs"
  using assms
proof (induction r st rule: unwind.induct)
  case (2 r s st)
  show ?case
  proof (cases "r = 0")
    case True
    then have "levels tol (m - length st) (s # st) bs" using 2 by simp
    moreover have "Suc (m - length (s # st)) = m - length st" using 2(3) by simp
    ultimately show ?thesis using True by (simp only: levels_0)
  next
    case False
    then show ?thesis using 2 by simp
  qed
qed simp

lemma unwind_length: "unwind r st = (r', st') \<Longrightarrow> length st' \<le> length st"
  by (induction r st rule: unwind.induct) (auto split: if_splits)

lemma levels_Cons_tree:
  assumes "levels tol d (Suc n # ns) bs" "\<And>t. tree_wf tol t \<Longrightarrow> nested_within d t \<Longrightarrow>
      tree_wf tol (f t) \<and> nested_within d (f t) \<and> tree_bytes (f t) = h @ tree_bytes t"
  shows "levels tol d (Suc n # ns) (h @ bs)"
proof -
  obtain t ts bs' where t: "length ts = n" "bs = forest_bytes (t # ts) @ bs'"
    "\<forall>u\<in>set (t # ts). tree_wf tol u \<and> nested_within d u" "levels tol (Suc d) ns bs'"
    using assms(1) by (auto simp: length_Suc_conv)
  then have "tree_wf tol (f t) \<and> nested_within d (f t) \<and> tree_bytes (f t) = h @ tree_bytes t"
    using assms(2) by simp
  with t show ?thesis by (simp, intro exI [of _ "f t # ts"] exI [of _ bs']) simp
qed

lemma levels_container:
  assumes "levels tol d (n # k # ns) bs" "\<And>ts. length ts = n \<Longrightarrow> \<forall>t\<in>set ts. tree_wf tol t \<and> nested_within d t \<Longrightarrow>
     tree_wf tol (f ts) \<and> nested_within (Suc d) (f ts) \<and> tree_bytes (f ts) = h @ forest_bytes ts"
  shows "levels tol (Suc d) (Suc k # ns) (h @ bs)"
proof -
  obtain ts bs' where t: "length ts = n" "bs = forest_bytes ts @ bs'"
    "\<forall>u\<in>set ts. tree_wf tol u \<and> nested_within d u" "levels tol (Suc d) (k # ns) bs'"
    using assms(1) unfolding levels.simps(2) [of tol d] by blast
  with assms(2) have f: "tree_wf tol (f ts)" "nested_within (Suc d) (f ts)" "tree_bytes (f ts) = h @ forest_bytes ts"
    by blast+
  from levels_Suc [OF t(4) f(1,2)] show ?thesis by (simp add: t(2) f(3))
qed

lemma head_valid_mt: "head_valid tol mt ai v \<Longrightarrow> mt < 8"
  by (simp add: head_valid_def head_ok_def)

text \<open>One round of the loop: what the head and the items still to come make up.\<close>

lemma skip_item_levels:
  assumes hv: "head_valid tol mt ai v" and sv: "string_valid mt v rest" and v: "v < 2 ^ 64"
    and item: "skip_item b c1 (head_item c mt ai v) k st = (WOLFCOSE_SUCCESS, r, s)"
    and st: "length st \<le> cbor_max_depth b" "Suc k < 2 ^ 64" "ctx_bufSz c1 < 2 ^ 63"
    and lv: "levels tol (cbor_max_depth b - length s) (r # s) bs"
  shows "levels tol (cbor_max_depth b - length st) (Suc k # st)
      (head_bytes mt ai v @ take (string_len mt v) rest @ bs)"
proof -
  let ?m = "cbor_max_depth b"
  define D where "D = ?m - length s"
  have lv': "levels tol D (r # s) bs" using lv by (simp only: D_def)
  have mt: "mt < 8" using hv by (rule head_valid_mt)
  have uv: "unat (of_nat v :: u64) = v" using v by (simp add: unat_of_nat)
  consider "mt \<in> {0, 1, 7}" | "mt \<in> {2, 3}" | "mt = 4" | "mt = 5" | "mt = 6" using mt by fastforce
  then show ?thesis
  proof cases
    case 1
    then have "r = k" "s = st" using item skip_item_simple [OF mt] by auto
    then show ?thesis using levels_Suc [OF lv [unfolded \<open>r = k\<close> \<open>s = st\<close>], of "Scalar mt ai v"] 1 hv by auto
  next
    case 2
    then have "r = k" "s = st" using item skip_item_simple [OF mt] by auto
    moreover have "tree_wf tol (Str mt ai (take v rest))" "string_len mt v = v" "length (take v rest) = v"
      using 2 hv sv IsUtf8_prefix [of v rest] by (auto simp: string_valid_def string_len_def min_def)
    ultimately show ?thesis using levels_Suc [OF lv, of "Str mt ai (take v rest)"] by simp
  next
    case 3
    show ?thesis
    proof (cases "v = 0")
      case True
      then have "r = k" "s = st" using item 3 by (auto simp: skip_item_def)
      then show ?thesis using levels_Suc [OF lv [unfolded \<open>r = k\<close> \<open>s = st\<close>], of "Arr ai []"] 3 hv True by simp
    next
      case False
      then have r: "r = v" "s = k # st" "length st < ?m"
        using item 3 uv by (auto simp: skip_item_def word_less_nat_alt split: if_splits)
      then have d: "?m - length st = Suc D" by (simp add: D_def)
      have "levels tol (Suc D) (Suc k # st) (head_bytes 4 ai v @ bs)"
        using lv' [unfolded r(1,2)]
        by (rule levels_container [where f = "Arr ai"]) (use 3 hv in simp)
      then show ?thesis unfolding d using 3 by (simp del: levels.simps)
    qed
  next
    case 4
    show ?thesis
    proof (cases "v = 0")
      case True
      then have "r = k" "s = st" using item 4 by (auto simp: skip_item_def)
      then show ?thesis using levels_Suc [OF lv [unfolded \<open>r = k\<close> \<open>s = st\<close>], of "Mp ai []"] 4 hv True by simp
    next
      case False
      then have r: "r = unat (of_nat v * 2 :: u64)" "s = k # st" "length st < ?m" "v \<le> ctx_bufSz c1"
        using item 4 uv by (auto simp: skip_item_def word_less_nat_alt split: if_splits)
      then have r2: "r = 2 * v" using st(3) by (simp add: unat_word_ariths unat_of_nat)
      have d: "?m - length st = Suc D" using r by (simp add: D_def)
      have "levels tol (Suc D) (Suc k # st) (head_bytes 5 ai v @ bs)"
        using lv' [unfolded r2 r(2)]
        by (rule levels_container [where f = "Mp ai"]) (use 4 hv in simp)
      then show ?thesis unfolding d using 4 by (simp del: levels.simps)
    qed
  next
    case 5
    then have "r = Suc k" "s = st" using item skip_item_tag [OF st(2)] by auto
    then show ?thesis
      using levels_Cons_tree [OF lv [unfolded \<open>r = Suc k\<close> \<open>s = st\<close>], of "Tg ai v" "head_bytes 6 ai v"] 5 hv
      by simp
  qed
qed


lemma skip_item_stack:
  assumes "skip_item b c item k st = (WOLFCOSE_SUCCESS, r, s)" "length st \<le> cbor_max_depth b"
    "k < 2 ^ 64" "ctx_bufSz c < 2 ^ 63" "\<forall>n\<in>set st. n < 2 ^ 64" 
  shows "length s \<le> cbor_max_depth b \<and> r < 2 ^ 64 \<and> (\<forall>n\<in>set s. n < 2 ^ 64)"
  using assms unat_less_u64 [of "item_val item"] unat_less_u64 [of "item_val item * 2"]
  by (auto simp: skip_item_def sz_add_def split: if_splits)

lemma unwind_stack:
  assumes "unwind r st = (r', st')" "r < 2 ^ 64" "\<forall>n\<in>set st. n < 2 ^ 64"
  shows "r' < 2 ^ 64 \<and> (\<forall>n\<in>set st'. n < 2 ^ 64)"
  using assms by (induction r st rule: unwind.induct) (auto split: if_splits)

lemma skip_loop_levels:
  assumes "skip_loop b flags c r st = (WOLFCOSE_SUCCESS, c')" "dec_ctx c" "length st \<le> cbor_max_depth b"
    "r < 2 ^ 64" "\<forall>n\<in>set st. n < 2 ^ 64" "r = 0 \<longrightarrow> st = []"
  shows "\<exists>bs. inp c = bs @ inp c' \<and> c' = advance c (length bs) \<and>
    levels (tolerant b flags) (cbor_max_depth b - length st) (r # st) bs"
  using assms
proof (induction b flags c r st rule: skip_loop.induct)
  case (1 b flags c r st)
  let ?m = "cbor_max_depth b"
  show ?case
  proof (cases r)
    case 0
    then show ?thesis using 1(2,7) by simp
  next
    case (Suc k)
    note run = 1(2) [unfolded skip_loop.simps [of b flags c]]
    obtain c1 item where h: "wolfCose_CBOR_DecodeHead_ex b c local_item flags = (WOLFCOSE_SUCCESS, c1, item)"
      using run Suc by (auto split: prod.splits if_splits)
    obtain r1 s1 where i: "skip_item b c1 item k st = (WOLFCOSE_SUCCESS, r1, s1)"
      using run Suc h by (auto split: prod.splits if_splits)
    obtain r2 s2 where u: "unwind r1 s1 = (r2, s2)" by fastforce
    have rec: "skip_loop b flags c1 r2 s2 = (WOLFCOSE_SUCCESS, c')"
      using run Suc h i u by simp
    obtain mt ai v rest where H: "inp c = head_bytes mt ai v @ rest" "head_valid (tolerant b flags) mt ai v"
      "string_valid mt v rest" "v < 2 ^ 64" "c1 = advance c (1 + arg_width ai + string_len mt v)"
      "item = head_item c mt ai v"
      by (rule DecodeHead_inv [OF 1(3) h])
    have sl: "string_len mt v \<le> length rest" using H(3) by (simp add: string_valid_def)
    have d1: "dec_ctx c1" unfolding H(5) using 1(3) H(1) sl by (intro dec_ctx_advance) simp_all
    then have sz: "ctx_bufSz c1 < 2 ^ 63" by (auto elim!: dec_ctxE)
    have i1: "inp c1 = drop (string_len mt v) rest" by (simp add: H(1,5))
    have st1: "length s1 \<le> ?m" "r1 < 2 ^ 64" "\<forall>n\<in>set s1. n < 2 ^ 64"
      using skip_item_stack [OF i 1(4)] 1(5,6) sz Suc by auto
    have st2: "length s2 \<le> ?m" "r2 < 2 ^ 64" "\<forall>n\<in>set s2. n < 2 ^ 64"
      using unwind_stack [OF u st1(2,3)] unwind_length [OF u] st1(1) by auto
    have e: "r2 = 0 \<longrightarrow> s2 = []" using u by (induction r1 s1 rule: unwind.induct) (auto split: if_splits)
    have pos: "0 < r" and ok: "\<not> WOLFCOSE_SUCCESS \<noteq> WOLFCOSE_SUCCESS" using Suc by simp_all
    have i': "(WOLFCOSE_SUCCESS, r1, s1) = skip_item b c1 item (r - 1) st" using i Suc by simp
    obtain bs where bs: "inp c1 = bs @ inp c'" "c' = advance c1 (length bs)"
      "levels (tolerant b flags) (?m - length s2) (r2 # s2) bs"
      using "1.IH" [OF pos h [symmetric] refl ok i' refl ok u [symmetric] rec d1 st2 e] by blast
    have lv: "levels (tolerant b flags) (?m - length s1) (r1 # s1) bs"
      by (rule levels_unwind [OF u st1(1) bs(3)])
    have "levels (tolerant b flags) (?m - length st) (Suc k # st)
        (head_bytes mt ai v @ take (string_len mt v) rest @ bs)"
      using skip_item_levels [OF H(2,3,4) i [unfolded H(6)] 1(4) _ sz lv] 1(5) Suc by simp
    moreover have "inp c = (head_bytes mt ai v @ take (string_len mt v) rest @ bs) @ inp c'"
      using H(1) bs(1) i1 by (simp del: inp_advance) (metis append_take_drop_id)
    moreover have "c' = advance c (length (head_bytes mt ai v @ take (string_len mt v) rest @ bs))"
      unfolding bs(2) H(5) using sl by simp
    ultimately show ?thesis using Suc by blast
  qed
qed

section \<open>The traversal as a reader\<close>

lemma skip_loop_moves:
  assumes "dec_ctx c"
  shows "\<exists>n \<le> length (inp c). snd (skip_loop b flags c r st) = advance c n"
  using assms
proof (induction b flags c r st rule: skip_loop.induct)
  case (1 b flags c r st)
  obtain ret c1 item where h: "wolfCose_CBOR_DecodeHead_ex b c local_item flags = (ret, c1, item)"
    by (metis prod_cases3)
  obtain ret' r1 s1 where i: "skip_item b c1 item (r - 1) st = (ret', r1, s1)" by (metis prod_cases3)
  obtain r2 s2 where u: "unwind r1 s1 = (r2, s2)" by fastforce
  obtain n where n: "n \<le> length (inp c)" "c1 = advance c n"
    using head_r.only_moves [OF 1(2), of b local_item flags] h by auto
  show ?case
  proof (cases "r > 0 \<and> ret = WOLFCOSE_SUCCESS \<and> ret' = WOLFCOSE_SUCCESS")
    case True
    have "dec_ctx c1" unfolding n(2) using 1(2) n(1) by simp
    then obtain m where "m \<le> length (inp c1)" "snd (skip_loop b flags c1 r2 s2) = advance c1 m"
      using "1.IH" [OF _ h [symmetric] refl _ i [symmetric] refl _ u [symmetric]] True by blast
    moreover have "skip_loop b flags c r st = skip_loop b flags c1 r2 s2"
      using True h i u by (subst skip_loop.simps) simp
    ultimately show ?thesis using n 1(2) by (intro exI [of _ "n + m"]) simp
  next
    case False
    then have "snd (skip_loop b flags c r st) = (if r > 0 then c1 else c)"
      using h i by (subst skip_loop.simps) auto
    then show ?thesis using n by (auto intro: exI [of _ 0])
  qed
qed

interpretation skip_r: cbor_reader "\<lambda>c. case wolfCose_CBOR_Skip_ex b c flags of (ret, c') \<Rightarrow> (ret, c', ())"
  for b flags
proof
  fix c assume c: "dec_ctx c"
  show "\<exists>n \<le> length (inp c). fst (snd (case wolfCose_CBOR_Skip_ex b c flags of (ret, c') \<Rightarrow> (ret, c', ()))) =
      advance c n"
    using skip_loop_moves [OF c, of b flags 1 "[]"] by (simp add: wolfCose_CBOR_Skip_ex_def split_def)
  assume ok: "fst (case wolfCose_CBOR_Skip_ex b c flags of (ret, c') \<Rightarrow> (ret, c', ())) = WOLFCOSE_SUCCESS"
  then obtain c' where s: "skip_loop b flags c 1 [] = (WOLFCOSE_SUCCESS, c')"
    by (auto simp: wolfCose_CBOR_Skip_ex_def split: prod.splits)
  from skip_loop_levels [OF s c] obtain bs where bs: "c' = advance c (length bs)"
      "levels (tolerant b flags) (cbor_max_depth b) [1] bs"
    by (simp del: levels.simps inp_advance) blast
  then have "0 < length bs" using tree_bytes_pos by (auto simp: length_Suc_conv)
  then show "ctx_idx c < ctx_idx (fst (snd (case wolfCose_CBOR_Skip_ex b c flags of (ret, c') \<Rightarrow> (ret, c', ()))))"
    using s bs(1) by (simp add: wolfCose_CBOR_Skip_ex_def)
qed

lemma Skip_trees:
  assumes "dec_ctx c" "DECODE_FLAGS_VALID b flags"
  shows "wolfCose_CBOR_Skip_ex b c flags = (WOLFCOSE_SUCCESS, c') \<longleftrightarrow>
    (\<exists>t rest. inp c = tree_bytes t @ rest \<and> tree_wf (tolerant b flags) t \<and>
       nested_within (cbor_max_depth b) t \<and> c' = advance c (length (tree_bytes t)))" (is "?l \<longleftrightarrow> ?r")
proof
  assume ?l
  then have "skip_loop b flags c 1 [] = (WOLFCOSE_SUCCESS, c')" by (simp add: wolfCose_CBOR_Skip_ex_def)
  from skip_loop_levels [OF this assms(1)] obtain bs where bs: "inp c = bs @ inp c'"
      "c' = advance c (length bs)" "levels (tolerant b flags) (cbor_max_depth b) [1] bs"
    by (simp del: levels.simps inp_advance) blast
  obtain t where "bs = tree_bytes t" "tree_wf (tolerant b flags) t" "nested_within (cbor_max_depth b) t"
    using bs(3) by (auto simp: length_Suc_conv)
  with bs(1,2) show ?r by blast
next
  assume ?r
  then obtain t rest where t: "inp c = tree_bytes t @ rest" "tree_wf (tolerant b flags) t"
      "nested_within (cbor_max_depth b) t" "c' = advance c (length (tree_bytes t))" by blast
  then show ?l
    using skip_tree [OF assms t(1,2), of "[]" 0]
    by (simp add: wolfCose_CBOR_Skip_ex_def continue_pair)
qed

section \<open>The properties\<close>

text \<open>C23: skipping succeeds exactly when the input starts with a well-formed item, nested within
the depth limit, and then stops right behind that item.\<close>

theorem Skip_iff:
  assumes "dec_ctx c" "DECODE_FLAGS_VALID b flags"
  shows "wolfCose_CBOR_Skip_ex b c flags = (WOLFCOSE_SUCCESS, c') \<longleftrightarrow>
    (\<exists>t rest. inp c = tree_bytes t @ rest \<and> tree_wf (tolerant b flags) t \<and>
       nested_within (cbor_max_depth b) t \<and> c' = advance c (length (tree_bytes t)))"
  by (rule Skip_trees [OF assms])

lemma Skip_iff_witness:
  "wolfCose_CBOR_Skip_ex full_build (dec_example [0x82, 0x01, 0xA1, 0x02, 0x41, 0xFF, 0x00]) 0 =
     (WOLFCOSE_SUCCESS, advance (dec_example [0x82, 0x01, 0xA1, 0x02, 0x41, 0xFF, 0x00]) 6)"
proof -
  let ?t = "Arr 2 [Scalar 0 1 1, Mp 1 [Scalar 0 2 2, Str 2 1 [0xFF]]]"
  have "tree_bytes ?t = [0x82, 0x01, 0xA1, 0x02, 0x41, 0xFF]"
    by (simp add: head_bytes_def arg_width_def)
  moreover have "tree_wf (tolerant full_build 0) ?t" "nested_within (cbor_max_depth full_build) ?t"
    by (simp_all add: head_valid_def head_ok_def head_preferred_def full_build_def)
  ultimately show ?thesis
    by (intro Skip_iff [THEN iffD2] dec_example_ok exI [of _ ?t] exI [of _ "[0x00]"] conjI)
      (simp_all add: dec_example_ok arg_width_def)
qed

text \<open>C27: whatever the input and the mode, skipping only moves the cursor forward within its
buffer (in particular it ends) and reads no byte outside it, also when it fails half-way.\<close>

theorem Skip_safe:
  assumes "dec_ctx c" "wolfCose_CBOR_Skip_ex b c flags = (ret, c')"
  shows "dec_ctx c' \<and> ctx_cbuf c' = ctx_cbuf c \<and> ctx_bufSz c' = ctx_bufSz c \<and> ctx_idx c \<le> ctx_idx c'"
  using skip_r.keeps [OF assms(1), of b flags ret c' "()"] assms(2) by simp

lemma Skip_safe_witness:
  "\<exists>ret c'. wolfCose_CBOR_Skip_ex full_build (dec_example [0x82, 0x81]) 0 = (ret, c') \<and> dec_ctx c'"
proof -
  obtain ret c' where r: "wolfCose_CBOR_Skip_ex full_build (dec_example [0x82, 0x81]) 0 = (ret, c')"
    by fastforce
  then show ?thesis using Skip_safe [OF dec_example_ok(1) r] by simp
qed

text \<open>C24: \<open>wc_CBOR_SkipItem\<close> hands out exactly the bytes of the well-formed item it skipped.\<close>

lemma SkipItem_bytes:
  assumes "dec_ctx c" "wc_CBOR_SkipItem b c out = (WOLFCOSE_SUCCESS, c', p, n)"
  shows "\<exists>t. tree_wf False t \<and> nested_within (cbor_max_depth b) t \<and> readable p n \<and>
    bytes_at p n = tree_bytes t \<and> inp c = tree_bytes t @ inp c'"
proof -
  obtain m where m: "ctx_cbuf c = Some m" "ctx_bufSz c \<le> length m" "length m < 2 ^ 63" "ctx_idx c \<le> ctx_bufSz c"
    using assms(1) by (rule dec_ctxE)
  have s: "wolfCose_CBOR_Skip_ex b c 0 = (WOLFCOSE_SUCCESS, c')"
    and p: "p = map_option (drop (ctx_idx c)) (ctx_cbuf c')" "n = sz_sub (ctx_idx c') (ctx_idx c)"
    using assms(2) m(1) by (auto simp: wc_CBOR_SkipItem_def Let_def split: prod.splits if_splits)
  obtain t rest where t: "inp c = tree_bytes t @ rest" "tree_wf False t"
      "nested_within (cbor_max_depth b) t" "c' = advance c (length (tree_bytes t))"
    using Skip_trees [THEN iffD1, OF assms(1) flags_valid_0 s] by (simp only: tolerant_0) blast
  have le: "length (tree_bytes t) \<le> ctx_bufSz c - ctx_idx c"
    using t(1) length_inp [OF assms(1)] by (metis le_add1 length_append)
  have "take (length (tree_bytes t)) (drop (ctx_idx c) m) = take (length (tree_bytes t)) (inp c)"
    using le m(1) by (simp add: inp_def drop_take)
  then have "bytes_at p n = tree_bytes t" using p t(1,4) m(1) by simp
  moreover have "length (tree_bytes t) \<le> length m - ctx_idx c" "length (tree_bytes t) < 2 ^ 63"
    using le m(2,3) by linarith+
  then have "readable p n" using p t(4) m(1) by simp
  moreover have "inp c' = rest" using t(1,4) by simp
  ultimately show ?thesis using t by blast
qed

lemma SkipItem_bytes_witness:
  "\<exists>c'. wc_CBOR_SkipItem full_build (dec_example [0x41, 0xFF, 0x00]) (None, 0) =
     (WOLFCOSE_SUCCESS, c', Some [0x41, 0xFF, 0x00], 2) \<and>
   (\<exists>t. tree_wf False t \<and> tree_bytes t = [0x41, 0xFF])"
proof -
  let ?c = "dec_example [0x41, 0xFF, 0x00]"
  have r: "wc_CBOR_SkipItem full_build ?c (None, 0) =
      (WOLFCOSE_SUCCESS, advance ?c 2, Some [0x41, 0xFF, 0x00], 2)"
    by code_simp
  show ?thesis using SkipItem_bytes [OF dec_example_ok(1) r] r by auto
qed

end
