(* ===== verification/Cose_HdrState.thy ===== *)
theory Cose_HdrState
  imports Cbor_Skip
begin

text \<open>
  The label-tracking state of the header decoders (\<open>WOLFCOSE_HDR_STATE\<close>, first part of
  \<open>src/wolfcose_hdr.c\<close>): a bit set for the common labels, an array for other integers and an
  array of pointers to encoded text labels. It refines a set of labels.
\<close>

section \<open>The state\<close>

text \<open>The arrays are lists whose length is the count; the text labels are the memory their
pointers lead to.\<close>

record hdr_state =
  labelBits :: u32
  extraIntegerLabels :: "i64 list"
  extraTextLabels :: "u8 list list"

definition wolfCose_InInt32Range :: "i64 \<Rightarrow> bool" where
  "wolfCose_InInt32Range val \<longleftrightarrow> sint val \<ge> INT32_MIN \<and> sint val \<le> INT32_MAX"

definition wolfCose_LabelBit :: "i64 \<Rightarrow> u32" where
  "wolfCose_LabelBit label =
     (if sint label \<ge> 1 \<and> sint label \<le> 16 then push_bit (nat (sint label) - 1) 1
      else if sint label \<le> - 1 \<and> sint label \<ge> - 16 then push_bit (nat (- sint label) + 15) 1
      else 0)"

definition wolfCose_HdrStateInit :: "hdr_state \<Rightarrow> hdr_state" where
  "wolfCose_HdrStateInit st = st\<lparr>labelBits := 0, extraIntegerLabels := [], extraTextLabels := []\<rparr>"

definition wolfCose_HdrStateContains :: "hdr_state \<Rightarrow> i64 \<Rightarrow> bool" where
  "wolfCose_HdrStateContains st label =
     (let bit = wolfCose_LabelBit label
      in if bit \<noteq> 0 \<and> labelBits st AND bit \<noteq> 0 then True
         else list_ex (\<lambda>l. l = label) (extraIntegerLabels st))"

definition wolfCose_HdrStateAdd :: "build \<Rightarrow> hdr_state \<Rightarrow> i64 \<Rightarrow> rc \<times> hdr_state" where
  "wolfCose_HdrStateAdd b st label =
     (let bit = wolfCose_LabelBit label
      in if bit \<noteq> 0 then (WOLFCOSE_SUCCESS, st\<lparr>labelBits := labelBits st OR bit\<rparr>)
         else if length (extraIntegerLabels st) \<ge> max_map_items b
           then (WOLFCOSE_E_CBOR_MALFORMED, st)
         else (WOLFCOSE_SUCCESS, st\<lparr>extraIntegerLabels := extraIntegerLabels st @ [label]\<rparr>))"

definition wolfCose_HdrStateCheckAndAdd :: "build \<Rightarrow> hdr_state \<Rightarrow> i64 \<Rightarrow> rc \<times> hdr_state" where
  "wolfCose_HdrStateCheckAndAdd b st label =
     (if wolfCose_HdrStateContains st label then (WOLFCOSE_E_CBOR_MALFORMED, st)
      else wolfCose_HdrStateAdd b st label)"

text \<open>Comparing a stored text label, still in its CBOR encoding, with a decoded one.\<close>

definition wolfCose_TextLabelEquals :: "u8 list \<Rightarrow> cbor_label \<Rightarrow> bool" where
  "wolfCose_TextLabelEquals encoded label =
     (let ai = encoded ! 0 AND 0x1F;
          (valid, textLen, headLen) =
            (if ai < 24 then (True, ucast ai, 1)
             else if ai \<le> 27 then
               (let headLen = (if ai = 24 then 2 else if ai = 25 then 3 else if ai = 26 then 5 else 9)
                in (True, foldl (\<lambda>t i. push_bit 8 t OR ucast (encoded ! i)) 0 [1..<headLen], headLen))
             else (False, 0 :: u64, 0 :: size))
      in valid \<and> \<not> unat textLen > sz_sub SIZE_MAX headLen \<and>
         unat textLen = label_textLen label \<and>
         wc_CBOR_LabelIsText (Some label) (Some (drop headLen encoded)) (label_textLen label))"

definition wolfCose_HdrStateContainsLabel :: "hdr_state \<Rightarrow> cbor_label \<Rightarrow> bool" where
  "wolfCose_HdrStateContainsLabel st label =
     (if \<not> label_isText label then wolfCose_HdrStateContains st (label_val label)
      else list_ex (\<lambda>e. wolfCose_TextLabelEquals e label) (extraTextLabels st))"

definition wolfCose_HdrStateAddLabel :: "build \<Rightarrow> hdr_state \<Rightarrow> cbor_label \<Rightarrow> cptr \<Rightarrow> rc \<times> hdr_state"
where
  "wolfCose_HdrStateAddLabel b st label encodedLabel =
     (if \<not> label_isText label then wolfCose_HdrStateAdd b st (label_val label)
      else (case encodedLabel of None \<Rightarrow> (WOLFCOSE_E_INVALID_ARG, st)
            | Some e \<Rightarrow>
                if length (extraTextLabels st) \<ge> max_map_items b
                then (WOLFCOSE_E_CBOR_MALFORMED, st)
                else (WOLFCOSE_SUCCESS, st\<lparr>extraTextLabels := extraTextLabels st @ [e]\<rparr>)))"

definition wolfCose_HdrStateCheckAndAddLabel ::
  "build \<Rightarrow> hdr_state \<Rightarrow> cbor_label \<Rightarrow> cptr \<Rightarrow> rc \<times> hdr_state" where
  "wolfCose_HdrStateCheckAndAddLabel b st label encodedLabel =
     (if \<not> label_isText label then wolfCose_HdrStateCheckAndAdd b st (label_val label)
      else if wolfCose_HdrStateContainsLabel st label then (WOLFCOSE_E_CBOR_MALFORMED, st)
      else wolfCose_HdrStateAddLabel b st label encodedLabel)"

section \<open>The set of labels it stands for\<close>

definition small_label :: "int \<Rightarrow> bool" where
  "small_label n \<longleftrightarrow> - 16 \<le> n \<and> n \<le> 16 \<and> n \<noteq> 0"

definition label_pos :: "int \<Rightarrow> nat" where
  "label_pos n = (if 0 < n then nat n - 1 else nat (- n) + 15)"

text \<open>The text of an encoded text label.\<close>

definition stored_text :: "u8 list \<Rightarrow> u8 list" where
  "stored_text e =
     (let ai = unat (e ! 0) mod 32
      in take (arg_value ai (drop 1 e)) (drop (1 + arg_width ai) e))"

definition hdr_labels :: "hdr_state \<Rightarrow> label set" where
  "hdr_labels st =
     LInt ` ({n. small_label n \<and> bit (labelBits st) (label_pos n)} \<union> sint ` set (extraIntegerLabels st))
     \<union> LText ` stored_text ` set (extraTextLabels st)"

text \<open>A pointer to an encoded text label, as the decoders store it.\<close>

definition text_encoded :: "u8 list \<Rightarrow> u8 list \<Rightarrow> bool" where
  "text_encoded e s \<longleftrightarrow> length s < 2 ^ 63 \<and>
     (\<exists>ai rest. e = head_bytes 3 ai (length s) @ s @ rest \<and> head_ok 3 ai (length s))"

definition hdr_inv :: "build \<Rightarrow> hdr_state \<Rightarrow> bool" where
  "hdr_inv b st \<longleftrightarrow>
     length (extraIntegerLabels st) \<le> max_map_items b \<and>
     length (extraTextLabels st) \<le> max_map_items b \<and>
     (\<forall>l\<in>set (extraIntegerLabels st). \<not> small_label (sint l)) \<and>
     (\<forall>e\<in>set (extraTextLabels st). \<exists>s. text_encoded e s)"

lemma small_label_pos: "small_label n \<Longrightarrow> label_pos n < 32"
  by (auto simp: small_label_def label_pos_def)

lemma label_pos_inj: "small_label m \<Longrightarrow> small_label n \<Longrightarrow> label_pos m = label_pos n \<longleftrightarrow> m = n"
  by (auto simp: small_label_def label_pos_def split: if_splits)

lemma LabelBit_eq: "wolfCose_LabelBit l = (if small_label (sint l) then push_bit (label_pos (sint l)) 1 else 0)"
  by (auto simp: wolfCose_LabelBit_def small_label_def label_pos_def)

lemma bit_push_bit_1: "n < 32 \<Longrightarrow> bit (push_bit n 1 :: u32) m \<longleftrightarrow> m = n"
  by (auto simp: bit_simps)

lemma push_bit_1_nonzero: "n < 32 \<Longrightarrow> push_bit n 1 \<noteq> (0 :: u32)"
  using bit_push_bit_1 [of n n] by (metis bit_0_eq bot_apply bot_bool_def)

lemma and_push_bit_1: "x AND push_bit n 1 \<noteq> 0 \<longleftrightarrow> bit x n" for x :: u32
  by (simp add: and_exp_eq_0_iff_not_bit push_bit_eq_mult)

lemma sint_inj: "sint x = sint y \<longleftrightarrow> x = y" for x y :: i64
proof
  assume "sint x = sint y"
  then have "(of_int (sint x) :: i64) = of_int (sint y)" by (rule arg_cong)
  then show "x = y" by simp
qed simp

lemma Contains_iff:
  assumes "hdr_inv b st"
  shows "wolfCose_HdrStateContains st l \<longleftrightarrow> LInt (sint l) \<in> hdr_labels st"
proof (cases "small_label (sint l)")
  case True
  then have "sint l \<notin> sint ` set (extraIntegerLabels st)" using assms by (auto simp: hdr_inv_def)
  then show ?thesis
    using True assms push_bit_1_nonzero [OF small_label_pos [OF True]]
    by (auto simp: wolfCose_HdrStateContains_def LabelBit_eq hdr_labels_def and_exp_eq_0_iff_not_bit list_ex_iff)
next
  case False
  then show ?thesis
    by (auto simp: wolfCose_HdrStateContains_def LabelBit_eq hdr_labels_def list_ex_iff sint_inj)
qed

lemma Add_spec:
  assumes inv: "hdr_inv b st" and add: "wolfCose_HdrStateAdd b st l = (ret, st')"
  shows "hdr_inv b st' \<and>
    (if small_label (sint l) \<or> length (extraIntegerLabels st) < max_map_items b
     then ret = WOLFCOSE_SUCCESS \<and> hdr_labels st' = insert (LInt (sint l)) (hdr_labels st)
     else ret = WOLFCOSE_E_CBOR_MALFORMED \<and> st' = st)"
proof (cases "small_label (sint l)")
  case True
  note p = small_label_pos [OF True]
  have r: "ret = WOLFCOSE_SUCCESS" "st' = st\<lparr>labelBits := labelBits st OR push_bit (label_pos (sint l)) 1\<rparr>"
    using add True push_bit_1_nonzero [OF p] by (auto simp: wolfCose_HdrStateAdd_def LabelBit_eq)
  have "{n. small_label n \<and> bit (labelBits st') (label_pos n)} =
      insert (sint l) {n. small_label n \<and> bit (labelBits st) (label_pos n)}"
    using True label_pos_inj [of _ "sint l"] bit_push_bit_1 [OF p] by (auto simp: r bit_or_iff)
  then show ?thesis using inv True r by (simp add: hdr_labels_def hdr_inv_def)
next
  case False
  then show ?thesis using inv add
    by (auto simp: wolfCose_HdrStateAdd_def LabelBit_eq hdr_labels_def hdr_inv_def split: if_splits)
qed

lemma head_first_ai:
  assumes "mt < 8" "ai < 32"
  shows "unat ((head_bytes mt ai v @ r) ! 0) mod 32 = ai"
  using assms by (simp add: head_bytes_def head_byte_of_nat [OF assms] del: of_nat_add of_nat_mult)

lemma text_stored:
  assumes "text_encoded e s"
  shows "stored_text e = s"
proof -
  obtain ai rest where e: "e = head_bytes 3 ai (length s) @ s @ rest" and ok: "head_ok 3 ai (length s)"
    using assms by (auto simp: text_encoded_def)
  have ai: "ai < 32" using ok by (auto simp: head_ok_def)
  have "unat (e ! 0) mod 32 = ai"
    unfolding e by (rule head_first_ai) (use ai in simp_all)
  moreover have "drop 1 e = be_bytes (arg_width ai) (length s) @ s @ rest" by (simp add: e head_bytes_def)
  moreover have "drop (1 + arg_width ai) e = s @ rest" by (simp add: e head_bytes_def)
  ultimately show ?thesis using arg_value_head [OF ok, of "s @ rest"] by (simp add: stored_text_def)
qed

lemma be_fold:
  assumes "n \<le> 8" "n < length e"
  shows "unat (foldl (\<lambda>t i. push_bit 8 t OR ucast (e ! i)) (0 :: u64) [1..<Suc n]) = be_val (take n (drop 1 e))"
  using assms
proof (induction n)
  case (Suc n)
  let ?f = "foldl (\<lambda>t i. push_bit 8 t OR ucast (e ! i)) (0 :: u64) [1..<Suc n]"
  have IH: "unat ?f = be_val (take n (drop 1 e))" using Suc by simp
  have "be_val (take n (drop 1 e)) < 256 ^ length (take n (drop 1 e))" by (rule be_val_less)
  also have "\<dots> \<le> 256 ^ 7" using Suc.prems by (intro power_increasing) simp_all
  finally have lt: "unat ?f < 256 ^ 7" using IH by simp
  let ?b = "ucast (e ! Suc n) :: u64"
  have b: "unat ?b = unat (e ! Suc n)" "unat ?b < 256"
    using unsigned_less [of "e ! Suc n", where 'a = nat] by (simp_all add: unat_ucast_le)
  have "push_bit 8 ?f OR ?b = push_bit 8 ?f + ?b"
  proof (rule disjunctive_add [symmetric])
    fix i show "\<not> bit (push_bit 8 ?f) i \<or> \<not> bit ?b i"
      by (auto simp: bit_simps dest: bit_imp_le_length)
  qed
  also have "unat \<dots> = 256 * unat ?f + unat ?b"
    using lt b(2) by (simp add: push_bit_eq_mult unat_word_ariths)
  finally have "unat (push_bit 8 ?f OR ?b) = 256 * unat ?f + unat ?b" .
  moreover have "take (Suc n) (drop 1 e) = take n (drop 1 e) @ [e ! Suc n]"
    using Suc.prems by (simp add: take_Suc_conv_app_nth)
  ultimately show ?case using IH b(1) by simp
qed simp

lemma TextLabelEquals_iff:
  assumes e: "text_encoded e s" and l: "label_isText l" "readable (label_text l) (label_textLen l)"
  shows "wolfCose_TextLabelEquals e l \<longleftrightarrow> label_of l = LText s"
proof -
  obtain ai rest where e: "e = head_bytes 3 ai (length s) @ s @ rest" "head_ok 3 ai (length s)"
    "length s < 2 ^ 63" using assms(1) by (auto simp: text_encoded_def)
  have ai: "ai \<le> 27" using e(2) by (auto simp: head_ok_def)
  have a: "unat (e ! 0 AND 0x1F) = ai"
    unfolding ib_ai e(1) by (rule head_first_ai) (use ai in simp_all)
  have d1: "drop 1 e = be_bytes (arg_width ai) (length s) @ s @ rest" by (simp add: e head_bytes_def)
  have len: "length e = 1 + arg_width ai + length s + length rest" by (simp add: e)
  have val: "be_val (take (arg_width ai) (drop 1 e)) = length s" if "24 \<le> ai"
    unfolding d1 using e(2) that by (auto simp: head_ok_def be_val_be_bytes simp del: be_bytes_numeral)
  have fold: "unat (foldl (\<lambda>t i. push_bit 8 t OR ucast (e ! i)) (0 :: u64) [1..<h]) = length s"
    if "24 \<le> ai" "h = 1 + arg_width ai" for h
    using be_fold [of "arg_width ai" e] val that len by (simp add: arg_width_def del: upt_Suc split: if_splits)
  have ds: "drop (1 + arg_width ai) e = s @ rest" by (simp add: e head_bytes_def)
  have main: "wolfCose_TextLabelEquals e l \<longleftrightarrow> length s = label_textLen l \<and>
      wc_CBOR_LabelIsText (Some l) (Some (drop (1 + arg_width ai) e)) (label_textLen l)"
  proof (cases "ai < 24")
    case True
    then have "length s = ai" "arg_width ai = 0" using e(2) by (auto simp: head_ok_def arg_width_def)
    moreover have "unat (ucast (e ! 0 AND 0x1F) :: u64) = ai" using a ai by (subst unat_ucast_le) auto
    ultimately show ?thesis using True a
      by (simp add: wolfCose_TextLabelEquals_def Let_def word_less_nat_alt SIZE_MAX_def sz_sub_def)
  next
    case False
    then consider "ai = 24" | "ai = 25" | "ai = 26" | "ai = 27" using ai by linarith
    then show ?thesis
      using a fold [of 2] fold [of 3] fold [of 5] fold [of 9] e(3) unfolding wolfCose_TextLabelEquals_def Let_def
      by (cases, simp_all add: word_less_nat_alt word_le_nat_alt word_unat_eq_iff SIZE_MAX_def
          sz_sub_def arg_width_def del: upt_rec_numeral) (simp_all add: numeral_2_eq_2 numeral_3_eq_3)
  qed
  have r: "readable (Some (drop (1 + arg_width ai) e)) (label_textLen l) \<longleftrightarrow> label_textLen l \<le> length (s @ rest)"
    using l(2) ds by (simp add: readable_def)
  show ?thesis
  proof (cases "length s = label_textLen l")
    case True
    then have "readable (Some (drop (1 + arg_width ai) e)) (label_textLen l)" using r by simp
    then show ?thesis
      using main True ds LabelIsText_eq [of l "Some (drop (1 + arg_width ai) e)" "label_textLen l"] l by simp
  next
    case False
    have "length (bytes_at (label_text l) (label_textLen l)) = label_textLen l" using l(2) by simp
    then show ?thesis using main False l by (auto simp: label_of_def)
  qed
qed


text \<open>A decoded label, and the pointer that goes with it when it is stored.\<close>

definition label_ok :: "cbor_label \<Rightarrow> bool" where
  "label_ok l \<longleftrightarrow> (label_isText l \<longrightarrow> readable (label_text l) (label_textLen l))"

definition label_at :: "cptr \<Rightarrow> cbor_label \<Rightarrow> bool" where
  "label_at e l \<longleftrightarrow> (label_isText l \<longrightarrow>
     (\<exists>m. e = Some m \<and> text_encoded m (bytes_at (label_text l) (label_textLen l))))"

lemma ContainsLabel_iff:
  assumes "hdr_inv b st" "label_ok l"
  shows "wolfCose_HdrStateContainsLabel st l \<longleftrightarrow> label_of l \<in> hdr_labels st"
proof (cases "label_isText l")
  case False
  then show ?thesis using Contains_iff [OF assms(1)] by (simp add: wolfCose_HdrStateContainsLabel_def label_of_def)
next
  case True
  have "wolfCose_TextLabelEquals e l \<longleftrightarrow> label_of l = LText (stored_text e)"
    if "e \<in> set (extraTextLabels st)" for e
    using assms that True TextLabelEquals_iff [of e _ l] text_stored [of e]
    by (auto simp: hdr_inv_def label_ok_def)
  then show ?thesis using True
    by (auto simp: wolfCose_HdrStateContainsLabel_def list_ex_iff hdr_labels_def label_of_def)
qed

text \<open>Whether a label not seen yet can be recorded.\<close>

definition label_room :: "build \<Rightarrow> hdr_state \<Rightarrow> cbor_label \<Rightarrow> bool" where
  "label_room b st l \<longleftrightarrow>
     (if label_isText l then length (extraTextLabels st) < max_map_items b
      else small_label (sint (label_val l)) \<or> length (extraIntegerLabels st) < max_map_items b)"

lemma AddLabel_spec:
  assumes "hdr_inv b st" "label_at e l" "wolfCose_HdrStateAddLabel b st l e = (ret, st')"
  shows "hdr_inv b st' \<and>
    (if label_room b st l
     then ret = WOLFCOSE_SUCCESS \<and> hdr_labels st' = insert (label_of l) (hdr_labels st)
     else ret = WOLFCOSE_E_CBOR_MALFORMED \<and> st' = st)"
proof (cases "label_isText l")
  case False
  then show ?thesis using assms Add_spec [OF assms(1)]
    by (auto simp: wolfCose_HdrStateAddLabel_def label_room_def label_of_def)
next
  case True
  then obtain m where m: "e = Some m" "text_encoded m (bytes_at (label_text l) (label_textLen l))"
    using assms(2) by (auto simp: label_at_def)
  then have "stored_text m = bytes_at (label_text l) (label_textLen l)" by (intro text_stored)
  then show ?thesis using True m assms(1,3)
    by (auto simp: wolfCose_HdrStateAddLabel_def label_room_def label_of_def hdr_labels_def hdr_inv_def
        split: if_splits)
qed

lemma CheckAndAddLabel_spec:
  assumes "hdr_inv b st" "label_ok l" "label_at e l"
    "wolfCose_HdrStateCheckAndAddLabel b st l e = (ret, st')"
  shows "hdr_inv b st' \<and>
    (if label_of l \<notin> hdr_labels st \<and> label_room b st l
     then ret = WOLFCOSE_SUCCESS \<and> hdr_labels st' = insert (label_of l) (hdr_labels st)
     else ret = WOLFCOSE_E_CBOR_MALFORMED \<and> st' = st)"
proof (cases "wolfCose_HdrStateContainsLabel st l")
  case True
  then have "ret = WOLFCOSE_E_CBOR_MALFORMED \<and> st' = st"
    using assms(4) by (auto simp: wolfCose_HdrStateCheckAndAddLabel_def wolfCose_HdrStateCheckAndAdd_def
        wolfCose_HdrStateContainsLabel_def split: if_splits)
  then show ?thesis using True assms(1) ContainsLabel_iff [OF assms(1,2)] by simp
next
  case False
  then have "wolfCose_HdrStateAddLabel b st l e = (ret, st')"
    using assms(4) by (auto simp: wolfCose_HdrStateCheckAndAddLabel_def wolfCose_HdrStateCheckAndAdd_def
        wolfCose_HdrStateContainsLabel_def wolfCose_HdrStateAddLabel_def split: if_splits)
  then show ?thesis
    using False AddLabel_spec [OF assms(1,3)] ContainsLabel_iff [OF assms(1,2)] by auto
qed


section \<open>The properties\<close>

text \<open>C24: the check-and-add operation of the header decoders refines insertion into a set of
labels: a label already seen, integer or text, is refused as malformed with the state unchanged;
a new one is added when there is room for it and refused otherwise.\<close>

theorem CheckAndAddLabel_refines:
  assumes "hdr_inv b st" "label_ok l" "label_at e l"
    "wolfCose_HdrStateCheckAndAddLabel b st l e = (ret, st')"
  shows "hdr_inv b st' \<and>
    (if label_of l \<notin> hdr_labels st \<and> label_room b st l
     then ret = WOLFCOSE_SUCCESS \<and> hdr_labels st' = insert (label_of l) (hdr_labels st)
     else ret = WOLFCOSE_E_CBOR_MALFORMED \<and> st' = st)"
  by (rule CheckAndAddLabel_spec [OF assms])

definition hdr_empty :: hdr_state where
  "hdr_empty = \<lparr> labelBits = 0, extraIntegerLabels = [], extraTextLabels = [] \<rparr>"

lemma hdr_inv_empty [simp]: "hdr_inv b hdr_empty" "hdr_labels hdr_empty = {}"
  by (auto simp: hdr_inv_def hdr_empty_def hdr_labels_def)

lemma hdr_inv_init [simp]:
  "hdr_inv b (wolfCose_HdrStateInit st)" "hdr_labels (wolfCose_HdrStateInit st) = {}"
  by (auto simp: hdr_inv_def wolfCose_HdrStateInit_def hdr_labels_def)

lemma CheckAndAddLabel_refines_witness:
  "\<exists>st'. wolfCose_HdrStateCheckAndAddLabel full_build hdr_empty
      \<lparr> label_val = 0, label_text = Some [0x61], label_textLen = 1, label_isText = True \<rparr>
      (Some [0x61, 0x61]) = (WOLFCOSE_SUCCESS, st') \<and> hdr_labels st' = {LText [0x61]}"
proof -
  let ?l = "\<lparr> label_val = 0, label_text = Some [0x61], label_textLen = 1, label_isText = True \<rparr>"
  obtain ret st' where r: "wolfCose_HdrStateCheckAndAddLabel full_build hdr_empty ?l
      (Some [0x61, 0x61]) = (ret, st')" by fastforce
  have l: "label_ok ?l" "label_of ?l = LText [0x61]" "label_room full_build hdr_empty ?l"
    by (simp_all add: label_ok_def label_of_def label_room_def hdr_empty_def full_build_def)
  have "text_encoded [0x61, 0x61] [0x61]"
    unfolding text_encoded_def
    by (intro conjI exI [of _ 1] exI [of _ "[]"]) (simp_all add: head_bytes_def arg_width_def head_ok_def)
  then have "label_at (Some [0x61, 0x61]) ?l" by (simp add: label_at_def)
  from CheckAndAddLabel_refines [OF hdr_inv_empty(1) l(1) this r] show ?thesis using l r by auto
qed

end
