(* ===== verification/Cose_Hdr.thy ===== *)
theory Cose_Hdr
  imports Cose_HdrState
begin

text \<open>
  Protected and unprotected COSE headers (\<open>src/wolfcose_hdr.c\<close> from
  \<open>wolfCose_EncodeProtectedHdr\<close> on): the encoder of the protected bucket, the decoders of both
  buckets, and the structural decoders of signature and recipient entries that are not selected.
\<close>

section \<open>Data\<close>

record cose_hdr =
  hdr_alg :: i32
  hdr_kid :: cptr
  hdr_kidLen :: size
  hdr_iv :: cptr
  hdr_ivLen :: size
  hdr_partialIv :: cptr
  hdr_partialIvLen :: size
  hdr_contentType :: i32
  hdr_flags :: u8

definition WOLFCOSE_HDR_ALG :: i64 where [simp]: "WOLFCOSE_HDR_ALG = 1"
definition WOLFCOSE_HDR_CRIT :: i64 where [simp]: "WOLFCOSE_HDR_CRIT = 2"
definition WOLFCOSE_HDR_CONTENT_TYPE :: i64 where [simp]: "WOLFCOSE_HDR_CONTENT_TYPE = 3"
definition WOLFCOSE_HDR_KID :: i64 where [simp]: "WOLFCOSE_HDR_KID = 4"
definition WOLFCOSE_HDR_IV :: i64 where [simp]: "WOLFCOSE_HDR_IV = 5"
definition WOLFCOSE_HDR_PARTIAL_IV :: i64 where [simp]: "WOLFCOSE_HDR_PARTIAL_IV = 6"
definition WOLFCOSE_HDR_COUNTERSIGNATURE_LEGACY :: i64 where
  [simp]: "WOLFCOSE_HDR_COUNTERSIGNATURE_LEGACY = 7"
definition WOLFCOSE_HDR_COUNTERSIGNATURE0_LEGACY :: i64 where
  [simp]: "WOLFCOSE_HDR_COUNTERSIGNATURE0_LEGACY = 9"
definition WOLFCOSE_HDR_COUNTERSIGNATURE_V2 :: i64 where
  [simp]: "WOLFCOSE_HDR_COUNTERSIGNATURE_V2 = 11"
definition WOLFCOSE_HDR_COUNTERSIGNATURE0_V2 :: i64 where
  [simp]: "WOLFCOSE_HDR_COUNTERSIGNATURE0_V2 = 12"
definition WOLFCOSE_HDR_HPKE_EK :: i64 where [simp]: "WOLFCOSE_HDR_HPKE_EK = - 4"
definition WOLFCOSE_HDR_X5CHAIN :: i64 where [simp]: "WOLFCOSE_HDR_X5CHAIN = 33"

definition WOLFCOSE_HDR_FLAG_DETACHED :: u8 where "WOLFCOSE_HDR_FLAG_DETACHED = 0x01"
definition WOLFCOSE_HDR_FLAG_CONTENT_TYPE_UNPROTECTED :: u8 where
  "WOLFCOSE_HDR_FLAG_CONTENT_TYPE_UNPROTECTED = 0x02"
definition WOLFCOSE_HDR_FLAG_X5CHAIN :: u8 where "WOLFCOSE_HDR_FLAG_X5CHAIN = 0x04"

definition WOLFCOSE_ALG_UNSET :: i32 where "WOLFCOSE_ALG_UNSET = 0"
definition WOLFCOSE_ALG_DIRECT :: i32 where "WOLFCOSE_ALG_DIRECT = - 6"
definition WOLFCOSE_ALG_HPKE_0_KE :: i32 where "WOLFCOSE_ALG_HPKE_0_KE = 46"

definition local_label :: cbor_label where
  "local_label = \<lparr> label_val = 0, label_text = None, label_textLen = 0, label_isText = False \<rparr>"

section \<open>The protected bucket, encoding\<close>

text \<open>The local cursor is returned with the code and \<open>*outLen\<close>; its buffer is \<open>buf\<close> as written.\<close>

definition wolfCose_EncodeProtectedHdr ::
  "i32 \<Rightarrow> cptr \<Rightarrow> size \<Rightarrow> size \<Rightarrow> rc \<times> cbor_ctx \<times> size" where
  "wolfCose_EncodeProtectedHdr alg buf bufSz outLen =
     (let ctx = \<lparr> ctx_buf = buf, ctx_cbuf = None, ctx_bufSz = bufSz, ctx_idx = 0, ctx_fault = False \<rparr>
      in if buf = None then (WOLFCOSE_E_INVALID_ARG, ctx, outLen)
         else
           (case on_success (on_success (wc_CBOR_EncodeMapStart ctx 1)
                   (\<lambda>ctx. wc_CBOR_EncodeUint ctx WOLFCOSE_HDR_ALG))
                   (\<lambda>ctx. wc_CBOR_EncodeInt ctx (scast alg)) of (ret, ctx) \<Rightarrow>
              (ret, ctx, if ret = WOLFCOSE_SUCCESS then ctx_idx ctx else outLen)))"

section \<open>Values of header parameters\<close>

text \<open>
  The branches both decoders have on a recognised label. A text value of \<open>alg\<close> or of the
  content type is skipped.
\<close>

definition next_is_tstr :: "cbor_ctx \<Rightarrow> bool" where
  "next_is_tstr ctx \<longleftrightarrow> ctx_idx ctx < ctx_bufSz ctx \<and> wc_CBOR_PeekType ctx = WOLFCOSE_CBOR_TSTR"

definition read_alg :: "build \<Rightarrow> u32 \<Rightarrow> cbor_ctx \<Rightarrow> i32 \<Rightarrow> rc \<times> cbor_ctx \<times> i32" where
  "read_alg b flags ctx alg =
     (if next_is_tstr ctx then (case wolfCose_CBOR_Skip_ex b ctx flags of (ret, ctx) \<Rightarrow> (ret, ctx, alg))
      else (case wolfCose_CBOR_DecodeInt_ex b ctx 0 flags of (ret, ctx, intVal) \<Rightarrow>
        if ret \<noteq> WOLFCOSE_SUCCESS then (ret, ctx, alg)
        else if \<not> wolfCose_InInt32Range intVal then (WOLFCOSE_E_COSE_BAD_ALG, ctx, alg)
        else (WOLFCOSE_SUCCESS, ctx, ucast intVal)))"

text \<open>The last component: the value was an integer and has been assigned.\<close>

definition read_content_type ::
  "build \<Rightarrow> u32 \<Rightarrow> cbor_ctx \<Rightarrow> i32 \<Rightarrow> rc \<times> cbor_ctx \<times> i32 \<times> bool" where
  "read_content_type b flags ctx contentType =
     (if next_is_tstr ctx
      then (case wolfCose_CBOR_Skip_ex b ctx flags of (ret, ctx) \<Rightarrow> (ret, ctx, contentType, False))
      else (case wolfCose_CBOR_DecodeUint_ex b ctx 0 flags of (ret, ctx, val) \<Rightarrow>
        if ret \<noteq> WOLFCOSE_SUCCESS then (ret, ctx, contentType, False)
        else if val > of_int INT32_MAX then (WOLFCOSE_E_COSE_BAD_HDR, ctx, contentType, False)
        else (WOLFCOSE_SUCCESS, ctx, ucast val, True)))"

section \<open>The protected bucket, decoding\<close>

text \<open>The variables that live across the rounds of the decoder's loop.\<close>

record prot =
  pr_ctx :: cbor_ctx
  pr_hdr :: cose_hdr
  pr_state :: hdr_state
  pr_crit :: u32         \<comment> \<open>critLabels\<close>
  pr_ctu :: bool         \<comment> \<open>contentTypeUnderstood\<close>

text \<open>One element of the \<open>crit\<close> array, on the cursor and \<open>critLabels\<close>.\<close>

definition crit_elem :: "build \<Rightarrow> u32 \<Rightarrow> cbor_ctx \<times> u32 \<Rightarrow> rc \<times> cbor_ctx \<times> u32" where
  "crit_elem b flags s =
     (case s of (ctx, crit) \<Rightarrow>
       if ctx_idx ctx \<ge> ctx_bufSz ctx \<or> wc_CBOR_PeekType ctx = WOLFCOSE_CBOR_TSTR
       then (WOLFCOSE_E_COSE_BAD_HDR, s)
       else (case wolfCose_CBOR_DecodeInt_ex b ctx 0 flags of (ret, ctx, critLabel) \<Rightarrow>
         if ret \<noteq> WOLFCOSE_SUCCESS then (ret, ctx, crit)
         else if sint critLabel < 1 \<or> sint critLabel > 6 then (WOLFCOSE_E_COSE_BAD_HDR, ctx, crit)
         else let critBit = wolfCose_LabelBit critLabel
              in if critBit = 0 then (WOLFCOSE_E_COSE_BAD_HDR, ctx, crit)
                 else (WOLFCOSE_SUCCESS, ctx, crit OR critBit)))"

definition read_crit :: "build \<Rightarrow> u32 \<Rightarrow> cbor_ctx \<Rightarrow> u32 \<Rightarrow> rc \<times> cbor_ctx \<times> u32" where
  "read_crit b flags ctx crit =
     (case wolfCose_CBOR_DecodeArrayStart_ex b ctx 0 flags of (ret, ctx, critCount) \<Rightarrow>
        if ret \<noteq> WOLFCOSE_SUCCESS then (ret, ctx, crit)
        else if critCount = 0 \<or> critCount > max_map_items b then (WOLFCOSE_E_COSE_BAD_HDR, ctx, crit)
        else repeat_ok critCount (crit_elem b flags) (ctx, crit))"

text \<open>The dispatch on the label of an entry.\<close>

definition protected_value :: "build \<Rightarrow> u32 \<Rightarrow> cbor_label \<Rightarrow> prot \<Rightarrow> rc \<times> prot" where
  "protected_value b flags label s =
     (let ctx = pr_ctx s; hdr = pr_hdr s; is = wc_CBOR_LabelIsInt (Some label)
      in if is WOLFCOSE_HDR_ALG then
           (case read_alg b flags ctx (hdr_alg hdr) of (ret, ctx, alg) \<Rightarrow>
              (ret, s\<lparr>pr_ctx := ctx, pr_hdr := hdr\<lparr>hdr_alg := alg\<rparr>\<rparr>))
         else if is WOLFCOSE_HDR_CRIT then
           (case read_crit b flags ctx (pr_crit s) of (ret, ctx, crit) \<Rightarrow>
              (ret, s\<lparr>pr_ctx := ctx, pr_crit := crit\<rparr>))
         else if is WOLFCOSE_HDR_CONTENT_TYPE then
           (case read_content_type b flags ctx (hdr_contentType hdr) of (ret, ctx, ct, understood) \<Rightarrow>
              (ret, s\<lparr>pr_ctx := ctx, pr_hdr := hdr\<lparr>hdr_contentType := ct\<rparr>,
                      pr_ctu := (pr_ctu s \<or> understood)\<rparr>))
         else if is WOLFCOSE_HDR_KID then
           (case wolfCose_CBOR_DecodeBstr_ex b ctx (hdr_kid hdr, hdr_kidLen hdr) flags of (ret, ctx, p, n) \<Rightarrow>
              (ret, s\<lparr>pr_ctx := ctx, pr_hdr := hdr\<lparr>hdr_kid := p, hdr_kidLen := n\<rparr>\<rparr>))
         else if is WOLFCOSE_HDR_IV then
           (case wolfCose_CBOR_DecodeBstr_ex b ctx (hdr_iv hdr, hdr_ivLen hdr) flags of (ret, ctx, p, n) \<Rightarrow>
              (ret, s\<lparr>pr_ctx := ctx, pr_hdr := hdr\<lparr>hdr_iv := p, hdr_ivLen := n\<rparr>\<rparr>))
         else if is WOLFCOSE_HDR_PARTIAL_IV then
           (case wolfCose_CBOR_DecodeBstr_ex b ctx (hdr_partialIv hdr, hdr_partialIvLen hdr) flags of
              (ret, ctx, p, n) \<Rightarrow>
              (ret, s\<lparr>pr_ctx := ctx, pr_hdr := hdr\<lparr>hdr_partialIv := p, hdr_partialIvLen := n\<rparr>\<rparr>))
         else if eat_psa_verify b \<and> is WOLFCOSE_HDR_X5CHAIN then
           (case wolfCose_CBOR_Skip_ex b ctx flags of (ret, ctx) \<Rightarrow>
              (ret, s\<lparr>pr_ctx := ctx,
                      pr_hdr := hdr\<lparr>hdr_flags := hdr_flags hdr OR WOLFCOSE_HDR_FLAG_X5CHAIN\<rparr>\<rparr>))
         else
           (case wolfCose_CBOR_Skip_ex b ctx flags of (ret, ctx) \<Rightarrow> (ret, s\<lparr>pr_ctx := ctx\<rparr>)))"

definition encoded_label :: "cbor_ctx \<Rightarrow> cptr" where
  "encoded_label ctx =
     (if ctx_cbuf ctx \<noteq> None \<and> ctx_idx ctx < ctx_bufSz ctx then Some (cbuf_at ctx) else None)"

text \<open>One round: the label, its bookkeeping, the value.\<close>

definition protected_entry :: "build \<Rightarrow> u32 \<Rightarrow> prot \<Rightarrow> rc \<times> prot" where
  "protected_entry b flags s =
     (let encodedLabel = encoded_label (pr_ctx s)
      in case wolfCose_CBOR_DecodeLabel_ex b (pr_ctx s) local_label flags of (ret, ctx, label) \<Rightarrow>
           if ret \<noteq> WOLFCOSE_SUCCESS then (ret, s\<lparr>pr_ctx := ctx\<rparr>)
           else (case wolfCose_HdrStateCheckAndAddLabel b (pr_state s) label encodedLabel of (ret, st) \<Rightarrow>
             if ret \<noteq> WOLFCOSE_SUCCESS then (ret, s\<lparr>pr_ctx := ctx, pr_state := st\<rparr>)
             else protected_value b flags label (s\<lparr>pr_ctx := ctx, pr_state := st\<rparr>)))"

text \<open>The checks after the loop, in the code's order.\<close>

definition protected_checks :: "prot \<Rightarrow> rc" where
  "protected_checks s =
     (let st = pr_state s; hdr = pr_hdr s; crit = pr_crit s
      in if crit AND NOT (labelBits st) \<noteq> 0 then WOLFCOSE_E_COSE_BAD_HDR
         else if crit AND wolfCose_LabelBit WOLFCOSE_HDR_CONTENT_TYPE \<noteq> 0 \<and> \<not> pr_ctu s
           then WOLFCOSE_E_COSE_BAD_HDR
         else if wolfCose_HdrStateContains st WOLFCOSE_HDR_COUNTERSIGNATURE_V2 \<or>
                 wolfCose_HdrStateContains st WOLFCOSE_HDR_COUNTERSIGNATURE0_V2 \<or>
                 wolfCose_HdrStateContains st WOLFCOSE_HDR_COUNTERSIGNATURE_LEGACY \<or>
                 wolfCose_HdrStateContains st WOLFCOSE_HDR_COUNTERSIGNATURE0_LEGACY
           then WOLFCOSE_E_COSE_BAD_HDR
         else if hdr_iv hdr \<noteq> None \<and> hdr_partialIv hdr \<noteq> None then WOLFCOSE_E_COSE_BAD_HDR
         else if ctx_idx (pr_ctx s) \<noteq> ctx_bufSz (pr_ctx s) then WOLFCOSE_E_CBOR_MALFORMED
         else WOLFCOSE_SUCCESS)"

text \<open>The non-empty case, with all its local variables in the result.\<close>

definition protected_run :: "build \<Rightarrow> u32 \<Rightarrow> cptr \<Rightarrow> size \<Rightarrow> cose_hdr \<Rightarrow> hdr_state \<Rightarrow> rc \<times> prot" where
  "protected_run b flags data dataLen hdr st =
     (let ctx0 = \<lparr> ctx_buf = None, ctx_cbuf = None, ctx_bufSz = 0, ctx_idx = 0, ctx_fault = False \<rparr>;
          s0 = \<lparr> pr_ctx = ctx0, pr_hdr = hdr, pr_state = st, pr_crit = 0, pr_ctu = False \<rparr>
      in case wc_CBOR_DecoderInit ctx0 data dataLen of (ret, ctx) \<Rightarrow>
           if ret \<noteq> WOLFCOSE_SUCCESS then (ret, s0\<lparr>pr_ctx := ctx\<rparr>)
           else (case wolfCose_CBOR_DecodeMapStart_ex b ctx 0 flags of (ret, ctx, mapCount) \<Rightarrow>
             if ret \<noteq> WOLFCOSE_SUCCESS then (ret, s0\<lparr>pr_ctx := ctx\<rparr>)
             else if mapCount > max_map_items b
               then (WOLFCOSE_E_CBOR_MALFORMED, s0\<lparr>pr_ctx := ctx\<rparr>)
             else (case repeat_ok mapCount (protected_entry b flags) (s0\<lparr>pr_ctx := ctx\<rparr>) of (ret, s) \<Rightarrow>
               (if ret \<noteq> WOLFCOSE_SUCCESS then ret else protected_checks s, s))))"

definition wolfCose_DecodeProtectedHdr_ex ::
  "build \<Rightarrow> cptr \<Rightarrow> size \<Rightarrow> cose_hdr \<Rightarrow> hdr_state \<Rightarrow> u32 \<Rightarrow> rc \<times> cose_hdr \<times> hdr_state" where
  "wolfCose_DecodeProtectedHdr_ex b data dataLen hdr hdrState decodeFlags =
     (if \<not> DECODE_FLAGS_VALID b decodeFlags then (WOLFCOSE_E_INVALID_ARG, hdr, hdrState)
      else if data = None \<and> dataLen \<noteq> 0 then (WOLFCOSE_E_INVALID_ARG, hdr, hdrState)
      else if dataLen = 0 then (WOLFCOSE_SUCCESS, hdr, wolfCose_HdrStateInit hdrState)
      else
        (case protected_run b decodeFlags data dataLen hdr (wolfCose_HdrStateInit hdrState) of
           (ret, s) \<Rightarrow> (ret, pr_hdr s, pr_state s)))"

definition wolfCose_DecodeProtectedHdr ::
  "build \<Rightarrow> cptr \<Rightarrow> size \<Rightarrow> cose_hdr \<Rightarrow> hdr_state \<Rightarrow> rc \<times> cose_hdr \<times> hdr_state" where
  "wolfCose_DecodeProtectedHdr b data dataLen hdr hdrState =
     wolfCose_DecodeProtectedHdr_ex b data dataLen hdr hdrState 0"

section \<open>The unprotected bucket\<close>

record hpke_hdr =
  hpke_ek :: cptr
  hpke_ekLen :: size
  hpke_hasEk :: bool

record unprot =
  un_ctx :: cbor_ctx
  un_hdr :: cose_hdr
  un_state :: hdr_state         \<comment> \<open>unprotState\<close>
  un_hpke :: "hpke_hdr option"  \<comment> \<open>NULL when the caller passes none\<close>

definition unprotected_value :: "build \<Rightarrow> u32 \<Rightarrow> cbor_label \<Rightarrow> unprot \<Rightarrow> rc \<times> unprot" where
  "unprotected_value b flags label s =
     (let ctx = un_ctx s; hdr = un_hdr s; is = wc_CBOR_LabelIsInt (Some label)
      in if is WOLFCOSE_HDR_KID then
           (case wolfCose_CBOR_DecodeBstr_ex b ctx (hdr_kid hdr, hdr_kidLen hdr) flags of (ret, ctx, p, n) \<Rightarrow>
              (ret, s\<lparr>un_ctx := ctx, un_hdr := hdr\<lparr>hdr_kid := p, hdr_kidLen := n\<rparr>\<rparr>))
         else if is WOLFCOSE_HDR_IV then
           (case wolfCose_CBOR_DecodeBstr_ex b ctx (hdr_iv hdr, hdr_ivLen hdr) flags of (ret, ctx, p, n) \<Rightarrow>
              (ret, s\<lparr>un_ctx := ctx, un_hdr := hdr\<lparr>hdr_iv := p, hdr_ivLen := n\<rparr>\<rparr>))
         else if is WOLFCOSE_HDR_PARTIAL_IV then
           (case wolfCose_CBOR_DecodeBstr_ex b ctx (hdr_partialIv hdr, hdr_partialIvLen hdr) flags of
              (ret, ctx, p, n) \<Rightarrow>
              (ret, s\<lparr>un_ctx := ctx, un_hdr := hdr\<lparr>hdr_partialIv := p, hdr_partialIvLen := n\<rparr>\<rparr>))
         else if have_hpke_0 b \<and> is WOLFCOSE_HDR_HPKE_EK then
           (case un_hpke s of
              None \<Rightarrow> (case wc_CBOR_Skip b ctx of (ret, ctx) \<Rightarrow> (ret, s\<lparr>un_ctx := ctx\<rparr>))
            | Some h \<Rightarrow>
                (case wc_CBOR_DecodeBstr b ctx (None, 0) of (ret, ctx, p, n) \<Rightarrow>
                   (ret, if ret = WOLFCOSE_SUCCESS
                         then s\<lparr>un_ctx := ctx,
                                un_hpke := Some (h\<lparr>hpke_ek := p, hpke_ekLen := n, hpke_hasEk := True\<rparr>)\<rparr>
                         else s\<lparr>un_ctx := ctx\<rparr>)))
         else if is WOLFCOSE_HDR_ALG then
           (case read_alg b flags ctx (hdr_alg hdr) of (ret, ctx, alg) \<Rightarrow>
              (ret, s\<lparr>un_ctx := ctx, un_hdr := hdr\<lparr>hdr_alg := alg\<rparr>\<rparr>))
         else if is WOLFCOSE_HDR_CONTENT_TYPE then
           (case read_content_type b flags ctx (hdr_contentType hdr) of (ret, ctx, ct, understood) \<Rightarrow>
              (ret, s\<lparr>un_ctx := ctx,
                      un_hdr := hdr\<lparr>hdr_contentType := ct,
                        hdr_flags := hdr_flags hdr OR WOLFCOSE_HDR_FLAG_CONTENT_TYPE_UNPROTECTED\<rparr>\<rparr>))
         else if eat_psa_verify b \<and> is WOLFCOSE_HDR_X5CHAIN then
           (case wolfCose_CBOR_Skip_ex b ctx flags of (ret, ctx) \<Rightarrow>
              (ret, s\<lparr>un_ctx := ctx,
                      un_hdr := hdr\<lparr>hdr_flags := hdr_flags hdr OR WOLFCOSE_HDR_FLAG_X5CHAIN\<rparr>\<rparr>))
         else
           (case wolfCose_CBOR_Skip_ex b ctx flags of (ret, ctx) \<Rightarrow> (ret, s\<lparr>un_ctx := ctx\<rparr>)))"

text \<open>The bookkeeping of a label, against its own bucket and the protected one (\<open>hdrState\<close>).\<close>

definition unprotected_label ::
  "build \<Rightarrow> hdr_state \<Rightarrow> hdr_state \<Rightarrow> cbor_label \<Rightarrow> cptr \<Rightarrow> rc \<times> hdr_state" where
  "unprotected_label b hdrState unprotState label encodedLabel =
     (if wc_CBOR_LabelIsInt (Some label) WOLFCOSE_HDR_CRIT then (WOLFCOSE_E_COSE_BAD_HDR, unprotState)
      else if wolfCose_HdrStateContainsLabel unprotState label \<or>
              wolfCose_HdrStateContainsLabel hdrState label
        then (WOLFCOSE_E_CBOR_MALFORMED, unprotState)
      else wolfCose_HdrStateAddLabel b unprotState label encodedLabel)"

definition unprotected_entry :: "build \<Rightarrow> u32 \<Rightarrow> hdr_state \<Rightarrow> unprot \<Rightarrow> rc \<times> unprot" where
  "unprotected_entry b flags hdrState s =
     (let encodedLabel = encoded_label (un_ctx s)
      in case wolfCose_CBOR_DecodeLabel_ex b (un_ctx s) local_label flags of (ret, ctx, label) \<Rightarrow>
           if ret \<noteq> WOLFCOSE_SUCCESS then (ret, s\<lparr>un_ctx := ctx\<rparr>)
           else (case unprotected_label b hdrState (un_state s) label encodedLabel of (ret, st) \<Rightarrow>
             if ret \<noteq> WOLFCOSE_SUCCESS then (ret, s\<lparr>un_ctx := ctx, un_state := st\<rparr>)
             else unprotected_value b flags label (s\<lparr>un_ctx := ctx, un_state := st\<rparr>)))"

definition wolfCose_DecodeUnprotectedHdrInternal ::
  "build \<Rightarrow> cbor_ctx \<Rightarrow> cose_hdr \<Rightarrow> hdr_state \<Rightarrow> u32 \<Rightarrow> hpke_hdr option \<Rightarrow>
   rc \<times> cbor_ctx \<times> cose_hdr \<times> hdr_state \<times> hpke_hdr option" where
  "wolfCose_DecodeUnprotectedHdrInternal b ctx hdr hdrState decodeFlags hpke =
     (if \<not> DECODE_FLAGS_VALID b decodeFlags then (WOLFCOSE_E_INVALID_ARG, ctx, hdr, hdrState, hpke)
      else (case wolfCose_CBOR_DecodeMapStart_ex b ctx 0 decodeFlags of (ret, ctx, mapCount) \<Rightarrow>
        if ret \<noteq> WOLFCOSE_SUCCESS then (ret, ctx, hdr, hdrState, hpke)
        else if mapCount > max_map_items b
          then (WOLFCOSE_E_CBOR_MALFORMED, ctx, hdr, hdrState, hpke)
        else (case repeat_ok mapCount (unprotected_entry b decodeFlags hdrState)
                     \<lparr> un_ctx = ctx, un_hdr = hdr, un_state = wolfCose_HdrStateInit hdr_empty,
                       un_hpke = hpke \<rparr> of (ret, s) \<Rightarrow>
          if ret \<noteq> WOLFCOSE_SUCCESS then (ret, un_ctx s, un_hdr s, hdrState, un_hpke s)
          else if hdr_iv (un_hdr s) \<noteq> None \<and> hdr_partialIv (un_hdr s) \<noteq> None
            then (WOLFCOSE_E_COSE_BAD_HDR, un_ctx s, un_hdr s, hdrState, un_hpke s)
          else (WOLFCOSE_SUCCESS, un_ctx s, un_hdr s,
                hdrState\<lparr>labelBits := labelBits hdrState OR labelBits (un_state s)\<rparr>, un_hpke s))))"

definition wolfCose_DecodeUnprotectedHdr_ex ::
  "build \<Rightarrow> cbor_ctx \<Rightarrow> cose_hdr \<Rightarrow> hdr_state \<Rightarrow> u32 \<Rightarrow> rc \<times> cbor_ctx \<times> cose_hdr \<times> hdr_state" where
  "wolfCose_DecodeUnprotectedHdr_ex b ctx hdr hdrState decodeFlags =
     (case wolfCose_DecodeUnprotectedHdrInternal b ctx hdr hdrState decodeFlags None of
        (ret, ctx, hdr, hdrState, hpke) \<Rightarrow> (ret, ctx, hdr, hdrState))"

definition wolfCose_DecodeUnprotectedHdrEx ::
  "build \<Rightarrow> cbor_ctx \<Rightarrow> cose_hdr \<Rightarrow> hdr_state \<Rightarrow> hpke_hdr option \<Rightarrow>
   rc \<times> cbor_ctx \<times> cose_hdr \<times> hdr_state \<times> hpke_hdr option" where
  "wolfCose_DecodeUnprotectedHdrEx b ctx hdr hdrState hpke =
     wolfCose_DecodeUnprotectedHdrInternal b ctx hdr hdrState 0 hpke"

definition wolfCose_DecodeUnprotectedHdr ::
  "build \<Rightarrow> cbor_ctx \<Rightarrow> cose_hdr \<Rightarrow> hdr_state \<Rightarrow> rc \<times> cbor_ctx \<times> cose_hdr \<times> hdr_state" where
  "wolfCose_DecodeUnprotectedHdr b ctx hdr hdrState =
     wolfCose_DecodeUnprotectedHdr_ex b ctx hdr hdrState 0"

section \<open>Every header decoder only moves the cursor\<close>

definition moves :: "cbor_ctx \<Rightarrow> cbor_ctx \<Rightarrow> bool" where
  "moves c c' \<longleftrightarrow> (\<exists>n \<le> length (inp c). c' = advance c n)"

lemma moves_refl [simp]: "moves c c"
  by (auto simp: moves_def intro: exI [of _ 0])

lemma moves_trans: "dec_ctx c \<Longrightarrow> moves c d \<Longrightarrow> moves d e \<Longrightarrow> moves c e"
  unfolding moves_def by (auto simp del: length_inp) (metis add_le_imp_le_diff advance_advance inp_advance length_drop le_diff_conv2 add.commute)

lemma moves_dec_ctx: "dec_ctx c \<Longrightarrow> moves c d \<Longrightarrow> dec_ctx d"
  by (auto simp: moves_def)

lemma moves_reader: "cbor_reader f \<Longrightarrow> dec_ctx c \<Longrightarrow> f c = (ret, c', x) \<Longrightarrow> moves c c'"
  using cbor_reader.only_moves [of f c] by (auto simp: moves_def)

lemma moves_Skip: "dec_ctx c \<Longrightarrow> wolfCose_CBOR_Skip_ex b c flags = (ret, c') \<Longrightarrow> moves c c'"
  using skip_loop_moves [of c b flags 1 "[]"] by (auto simp: moves_def wolfCose_CBOR_Skip_ex_def)

lemmas moves_decoders =
  moves_reader [OF int_r.cbor_reader_axioms] moves_reader [OF uint_r.cbor_reader_axioms]
  moves_reader [OF label_r.cbor_reader_axioms] moves_reader [OF head_r.cbor_reader_axioms]
  moves_reader [OF bytes_r.cbor_reader_axioms] moves_reader [OF container_r.cbor_reader_axioms]
  moves_Skip

lemma moves_Bstr: "dec_ctx c \<Longrightarrow> wolfCose_CBOR_DecodeBstr_ex b c out flags = (ret, c', p, n) \<Longrightarrow> moves c c'"
  unfolding wolfCose_CBOR_DecodeBstr_ex_def by (rule moves_reader [OF bytes_r.cbor_reader_axioms])

lemma moves_Map: "dec_ctx c \<Longrightarrow> wolfCose_CBOR_DecodeMapStart_ex b c out flags = (ret, c', n) \<Longrightarrow> moves c c'"
  unfolding wolfCose_CBOR_DecodeMapStart_ex_def by (rule moves_reader [OF container_r.cbor_reader_axioms])

lemma moves_Array: "dec_ctx c \<Longrightarrow> wolfCose_CBOR_DecodeArrayStart_ex b c out flags = (ret, c', n) \<Longrightarrow> moves c c'"
  unfolding wolfCose_CBOR_DecodeArrayStart_ex_def by (rule moves_reader [OF container_r.cbor_reader_axioms])

lemma moves_alg: "dec_ctx c \<Longrightarrow> read_alg b flags c a = (ret, c', a') \<Longrightarrow> moves c c'"
  by (auto simp: read_alg_def dest: moves_decoders split: if_splits prod.splits)

lemma moves_content_type: "dec_ctx c \<Longrightarrow> read_content_type b flags c a = (ret, c', a', u) \<Longrightarrow> moves c c'"
  by (auto simp: read_content_type_def dest: moves_decoders split: if_splits prod.splits)

lemma moves_crit_elem: "dec_ctx c \<Longrightarrow> crit_elem b flags (c, crit) = (ret, c', crit') \<Longrightarrow> moves c c'"
  by (auto simp: crit_elem_def Let_def dest: moves_decoders split: if_splits prod.splits)

lemma moves_crit:
  assumes "dec_ctx c" "read_crit b flags c crit = (ret, c', crit')"
  shows "moves c c'"
proof -
  obtain r c1 n where a: "wolfCose_CBOR_DecodeArrayStart_ex b c 0 flags = (r, c1, n)" by (metis prod_cases3)
  have m: "moves c c1" using moves_Array [OF assms(1) a] .
  have "(\<lambda>s. dec_ctx (fst s) \<and> moves c (fst s)) (snd (repeat_ok n (crit_elem b flags) (c1, crit)))"
  proof (rule repeat_ok_invariant)
    fix s :: "cbor_ctx \<times> u32" assume s: "dec_ctx (fst s) \<and> moves c (fst s)"
    obtain r d crit' where e: "crit_elem b flags s = (r, d, crit')" by (metis prod_cases3)
    then have "moves (fst s) d" using moves_crit_elem [of "fst s" b flags "snd s"] s by simp
    then show "dec_ctx (fst (snd (crit_elem b flags s))) \<and> moves c (fst (snd (crit_elem b flags s)))"
      using e s moves_trans [OF assms(1)] moves_dec_ctx by auto
  qed (use m moves_dec_ctx [OF assms(1) m] in simp)
  then show ?thesis using assms(2) a m by (auto simp: read_crit_def split: if_splits)
qed

lemmas moves_values = moves_alg moves_content_type moves_crit moves_Bstr moves_Skip

lemma protected_value_moves:
  assumes "dec_ctx (pr_ctx s)" "protected_value b flags label s = (ret, s')"
  shows "moves (pr_ctx s) (pr_ctx s')"
  using assms unfolding protected_value_def Let_def
  by (auto dest: moves_values split: if_splits prod.splits)

lemma protected_entry_moves:
  assumes "dec_ctx (pr_ctx s)" "protected_entry b flags s = (ret, s')"
  shows "moves (pr_ctx s) (pr_ctx s')"
proof -
  obtain r c1 l where l: "wolfCose_CBOR_DecodeLabel_ex b (pr_ctx s) local_label flags = (r, c1, l)"
    by (metis prod_cases3)
  have m: "moves (pr_ctx s) c1" by (rule moves_decoders(3) [OF assms(1) l])
  obtain r2 st where st: "wolfCose_HdrStateCheckAndAddLabel b (pr_state s) l (encoded_label (pr_ctx s)) = (r2, st)"
    by fastforce
  show ?thesis
  proof (cases "r = WOLFCOSE_SUCCESS \<and> r2 = WOLFCOSE_SUCCESS")
    case True
    then have v: "protected_value b flags l (s\<lparr>pr_ctx := c1, pr_state := st\<rparr>) = (ret, s')"
      using assms(2) l st by (simp add: protected_entry_def)
    from protected_value_moves [OF _ v] moves_dec_ctx [OF assms(1) m] have "moves c1 (pr_ctx s')" by simp
    then show ?thesis by (rule moves_trans [OF assms(1) m])
  next
    case False
    then show ?thesis using assms(2) l st m by (auto simp: protected_entry_def split: if_splits)
  qed
qed

lemma entries_move:
  assumes "dec_ctx (g s)" "\<And>s. dec_ctx (g s) \<Longrightarrow> moves (g s) (g (snd (f s)))"
  shows "moves (g s) (g (snd (repeat_ok n f s)))"
proof -
  have "(\<lambda>x. dec_ctx (g x) \<and> moves (g s) (g x)) (snd (repeat_ok n f s))"
  proof (rule repeat_ok_invariant)
    fix x assume x: "dec_ctx (g x) \<and> moves (g s) (g x)"
    then have "moves (g x) (g (snd (f x)))" using assms(2) by simp
    then show "dec_ctx (g (snd (f x))) \<and> moves (g s) (g (snd (f x)))"
      using x moves_dec_ctx moves_trans [OF assms(1)] by blast
  qed (simp add: assms(1))
  then show ?thesis by simp
qed

lemma protected_run_safe:
  assumes p: "data = Some p" "len \<le> length p" "length p < 2 ^ 63"
    and run: "protected_run b flags data len hdr st = (ret, s)"
  shows "dec_ctx (pr_ctx s) \<and> ctx_cbuf (pr_ctx s) = data \<and> ctx_bufSz (pr_ctx s) = len"
proof -
  let ?c = "\<lparr> ctx_buf = None, ctx_cbuf = data, ctx_bufSz = len, ctx_idx = 0, ctx_fault = False \<rparr>"
  have d: "dec_ctx ?c" using p by (simp add: dec_ctx_def)
  obtain r c1 n where m: "wolfCose_CBOR_DecodeMapStart_ex b ?c 0 flags = (r, c1, n)" by (metis prod_cases3)
  have m1: "moves ?c c1" by (rule moves_Map [OF d m])
  let ?s = "\<lparr> pr_ctx = c1, pr_hdr = hdr, pr_state = st, pr_crit = 0, pr_ctu = False \<rparr>"
  have "moves c1 (pr_ctx (snd (repeat_ok n (protected_entry b flags) ?s)))"
    using entries_move [of pr_ctx ?s "protected_entry b flags" n] moves_dec_ctx [OF d m1]
      protected_entry_moves [of _ b flags] by (metis prod.collapse select_convs(1) prot.select_convs(1))
  then have "moves ?c (pr_ctx s)"
    using run m m1 moves_trans [OF d m1] p(1)
    by (auto simp: protected_run_def wc_CBOR_DecoderInit_def Let_def split: if_splits prod.splits)
  with moves_dec_ctx [OF d this] show ?thesis by (auto simp: moves_def)
qed

lemma unprotected_value_moves:
  assumes "dec_ctx (un_ctx s)" "unprotected_value b flags label s = (ret, s')"
  shows "moves (un_ctx s) (un_ctx s')"
  using assms unfolding unprotected_value_def Let_def wc_CBOR_Skip_def wc_CBOR_DecodeBstr_def
  by (auto dest: moves_values split: if_splits prod.splits option.splits)

lemma unprotected_entry_moves:
  assumes "dec_ctx (un_ctx s)" "unprotected_entry b flags hst s = (ret, s')"
  shows "moves (un_ctx s) (un_ctx s')"
proof -
  obtain r c1 l where l: "wolfCose_CBOR_DecodeLabel_ex b (un_ctx s) local_label flags = (r, c1, l)"
    by (metis prod_cases3)
  have m: "moves (un_ctx s) c1" by (rule moves_decoders(3) [OF assms(1) l])
  obtain r2 st where st: "unprotected_label b hst (un_state s) l (encoded_label (un_ctx s)) = (r2, st)"
    by fastforce
  show ?thesis
  proof (cases "r = WOLFCOSE_SUCCESS \<and> r2 = WOLFCOSE_SUCCESS")
    case True
    then have v: "unprotected_value b flags l (s\<lparr>un_ctx := c1, un_state := st\<rparr>) = (ret, s')"
      using assms(2) l st by (simp add: unprotected_entry_def)
    from unprotected_value_moves [OF _ v] moves_dec_ctx [OF assms(1) m] have "moves c1 (un_ctx s')" by simp
    then show ?thesis by (rule moves_trans [OF assms(1) m])
  next
    case False
    then show ?thesis using assms(2) l st m by (auto simp: unprotected_entry_def split: if_splits)
  qed
qed

lemma unprotected_moves:
  assumes d: "dec_ctx c"
    and run: "wolfCose_DecodeUnprotectedHdrInternal b c hdr st flags hpke = (ret, c', r)"
  shows "moves c c'"
proof -
  obtain r1 c1 n where m: "wolfCose_CBOR_DecodeMapStart_ex b c 0 flags = (r1, c1, n)" by (metis prod_cases3)
  have m1: "moves c c1" by (rule moves_Map [OF d m])
  let ?s = "\<lparr> un_ctx = c1, un_hdr = hdr, un_state = wolfCose_HdrStateInit hdr_empty, un_hpke = hpke \<rparr>"
  obtain r2 s where rep: "repeat_ok n (unprotected_entry b flags st) ?s = (r2, s)" by fastforce
  have "moves c1 (un_ctx s)"
    using entries_move [of un_ctx ?s "unprotected_entry b flags st" n] moves_dec_ctx [OF d m1]
      unprotected_entry_moves [of _ b flags st] rep
    by (metis prod.collapse snd_conv unprot.select_convs(1))
  then have "moves c (un_ctx s)" by (rule moves_trans [OF d m1])
  then show ?thesis
    using run m m1 rep by (auto simp: wolfCose_DecodeUnprotectedHdrInternal_def split: if_splits)
qed

section \<open>What a decoded value was\<close>

definition takes :: "cbor_ctx \<Rightarrow> cbor_tree \<Rightarrow> cbor_ctx \<Rightarrow> bool" where
  "takes c t c' \<longleftrightarrow> tree_wf False t \<and> inp c = tree_bytes t @ inp c' \<and>
     c' = advance c (length (tree_bytes t))"

definition int_tree :: "int \<Rightarrow> cbor_tree" where
  "int_tree n = (if 0 \<le> n then Scalar 0 (short_ai (nat n)) (nat n)
                 else Scalar 1 (short_ai (nat (- 1 - n))) (nat (- 1 - n)))"

lemma int_tree_bytes: "tree_bytes (int_tree n) = cbor_int n"
  by (simp add: int_tree_def cbor_int_def cbor_head_bytes)

lemma int_tree_wf: "- (2 ^ 64) \<le> n \<Longrightarrow> n < 2 ^ 64 \<Longrightarrow> tree_wf False (int_tree n)"
  by (auto simp: int_tree_def intro!: head_valid_short)

lemma takes_dec_ctx: "dec_ctx c \<Longrightarrow> takes c t c' \<Longrightarrow> dec_ctx c'"
proof -
  assume d: "dec_ctx c" and t: "takes c t c'"
  then have "length (inp c) = length (tree_bytes t) + length (inp c')"
    unfolding takes_def by (metis length_append)
  then have "length (tree_bytes t) \<le> length (inp c)" by linarith
  then show "dec_ctx c'" using d t dec_ctx_advance unfolding takes_def by blast
qed

lemma takes_Int:
  assumes "dec_ctx c" "wolfCose_CBOR_DecodeInt_ex b c out 0 = (WOLFCOSE_SUCCESS, c', v)"
  shows "takes c (int_tree (sint v)) c'"
proof -
  have "tree_wf False (int_tree (sint v))"
  proof (rule int_tree_wf)
    show "- (2 ^ 64) \<le> sint v" using sint_bounds(2) [of v] by simp
    show "sint v < 2 ^ 64" using sint_bounds(1) [of v] by simp
  qed
  moreover have "wc_CBOR_DecodeInt b c out = (WOLFCOSE_SUCCESS, c', v)"
    using assms(2) by (simp add: wc_CBOR_DecodeInt_def)
  ultimately show ?thesis
    unfolding takes_def int_tree_bytes using int_c.reads_only [OF assms(1)] by blast
qed

lemma takes_Uint:
  assumes "dec_ctx c" "wolfCose_CBOR_DecodeUint_ex b c out 0 = (WOLFCOSE_SUCCESS, c', v)"
  shows "takes c (int_tree (int (unat v))) c'"
proof -
  have "tree_wf False (int_tree (int (unat v)))"
  proof (rule int_tree_wf)
    show "- (2 ^ 64) \<le> int (unat v)" by (rule order_trans [of _ 0]) simp_all
    show "int (unat v) < 2 ^ 64" using uint_lt64(1) [of v] by simp
  qed
  moreover have "wc_CBOR_DecodeUint b c out = (WOLFCOSE_SUCCESS, c', v)"
    using assms(2) by (simp add: wc_CBOR_DecodeUint_def)
  ultimately show ?thesis
    unfolding takes_def int_tree_bytes cbor_int_of_nat using uint_c.reads_only [OF assms(1)] by blast
qed

lemma takes_Bstr:
  assumes "dec_ctx c" "wolfCose_CBOR_DecodeBstr_ex b c out 0 = (WOLFCOSE_SUCCESS, c', p, n)"
  shows "takes c (Str 2 (short_ai n) (bytes_at p n)) c' \<and> readable p n \<and> p \<noteq> None"
proof -
  have e: "wolfCose_CBOR_DecodeBytes_ex b c 2 out 0 = (WOLFCOSE_SUCCESS, c', p, n)"
    using assms(2) by (simp add: wolfCose_CBOR_DecodeBstr_ex_def)
  note h = DecodeBytes_reads_only [OF assms(1) disjI1 [OF refl] e]
  have "p \<noteq> None"
  proof -
    obtain item where i: "wolfCose_CBOR_DecodeHead_ex b c local_item 0 = (WOLFCOSE_SUCCESS, c', item)"
      "item_majorType item = 2" "p = item_data item"
      using e by (auto simp: wolfCose_CBOR_DecodeBytes_ex_def split: prod.splits if_splits)
    then have mt: "item_majorType item = of_nat 2" "(2 :: nat) < 7" by simp_all
    have "item = head_item c 2 (short_ai (unat (item_val item))) (unat (item_val item))"
      using strict_inv_mt [OF assms(1) i(1) mt refl] by blast
    from arg_cong [OF this, of item_data] show ?thesis using i(3) by (simp add: head_item_def)
  qed
  moreover have "tree_bytes (Str 2 (short_ai n) (bytes_at p n)) = cbor_head 2 n @ bytes_at p n"
    using h by (simp add: cbor_head_bytes)
  moreover have "tree_wf False (Str 2 (short_ai n) (bytes_at p n))"
    using h by (auto intro!: head_valid_short simp: readable_def)
  moreover have "length (cbor_head 2 n @ bytes_at p n) = length (cbor_head 2 n) + n" using h by simp
  ultimately show ?thesis using h unfolding takes_def by (simp del: inp_advance)
qed

lemma takes_Skip:
  assumes "dec_ctx c" "wolfCose_CBOR_Skip_ex b c 0 = (WOLFCOSE_SUCCESS, c')"
  shows "\<exists>t. takes c t c'"
proof -
  obtain t rest where t: "inp c = tree_bytes t @ rest" "tree_wf False t" "c' = advance c (length (tree_bytes t))"
    using Skip_trees [THEN iffD1, OF assms(1) flags_valid_0 assms(2)] by (simp only: tolerant_0) blast
  then have "inp c' = rest" by simp
  with t show ?thesis unfolding takes_def by blast
qed

lemma peek_head:
  assumes "dec_ctx c" "inp c = x # r"
  shows "wc_CBOR_PeekType c = of_nat (unat x div 32)" "ctx_idx c < ctx_bufSz c"
proof -
  have lt: "ctx_idx c < ctx_bufSz c" using length_inp [OF assms(1)] assms(2) by simp
  then show "ctx_idx c < ctx_bufSz c" .
  have "cbuf_at c ! 0 = x" using cbuf_at_0 [OF assms(1)] assms(2) by simp
  moreover have "unat x div 32 < 256" using unsigned_less [of x, where 'a = nat] by simp
  ultimately show "wc_CBOR_PeekType c = of_nat (unat x div 32)"
    using lt assms(1) ib_major [of x]
    by (intro u8_eqI) (auto elim!: dec_ctxE simp: wc_CBOR_PeekType_def unat_of_nat_u8)
qed

definition tree_head :: "cbor_tree \<Rightarrow> nat \<times> nat \<times> nat" where
  "tree_head t = (case t of Scalar mt ai v \<Rightarrow> (mt, ai, v) | Str mt ai s \<Rightarrow> (mt, ai, length s)
     | Arr ai ts \<Rightarrow> (4, ai, length ts) | Mp ai ts \<Rightarrow> (5, ai, length ts div 2) | Tg ai v t \<Rightarrow> (6, ai, v))"

lemma tree_first:
  assumes "tree_wf False t" "tree_head t = (mt, ai, v)"
  shows "\<exists>r. tree_bytes t = head_bytes mt ai v @ r" "head_valid False mt ai v"
    "mt = 3 \<longleftrightarrow> (\<exists>ai s. t = Str 3 ai s)"
  using assms by (cases t; auto simp: tree_head_def)+

lemma skip_text:
  assumes "dec_ctx c" "next_is_tstr c" "takes c t c'"
  shows "\<exists>ai s. t = Str 3 ai s"
proof -
  have t: "tree_wf False t" "inp c = tree_bytes t @ inp c'"
    using assms(3) unfolding takes_def by blast+
  obtain mt ai v where th: "tree_head t = (mt, ai, v)" by (metis prod_cases3)
  obtain r where "tree_bytes t = head_bytes mt ai v @ r" using tree_first(1) [OF t(1) th] by blast
  note h = this tree_first(2,3) [OF t(1) th]
  have mt: "mt < 8" "ai < 32" using h(2) by (auto simp: head_valid_def head_ok_def)
  have "inp c = of_nat (32 * mt + ai) # be_bytes (arg_width ai) v @ r @ inp c'"
    by (subst t(2)) (simp add: h(1) head_bytes_def)
  from peek_head(1) [OF assms(1) this] have "wc_CBOR_PeekType c = of_nat mt"
    using head_byte_of_nat [OF mt] mt(2) by (simp del: of_nat_add of_nat_mult)
  then have "(of_nat mt :: u8) = 3" using assms(2) by (simp add: next_is_tstr_def)
  then have "unat (of_nat mt :: u8) = 3" by simp
  then show ?thesis using mt h(3) by (simp add: unat_of_nat_u8)
qed

lemma sint_ucast32:
  assumes "wolfCose_InInt32Range v"
  shows "sint (ucast v :: i32) = sint v"
proof -
  have "sint (ucast v :: i32) = signed_take_bit 31 (uint v)"
    by (simp add: sint_uint unsigned_ucast_eq signed_take_bit_take_bit)
  also have "\<dots> = signed_take_bit 31 (signed_take_bit 63 (uint v))" by simp
  also have "signed_take_bit 63 (uint v) = sint v" by (simp add: sint_uint)
  also have "signed_take_bit 31 (sint v) = sint v"
    using assms by (intro signed_take_bit_int_eq_self)
      (simp_all add: wolfCose_InInt32Range_def INT32_MIN_def INT32_MAX_def)
  finally show ?thesis .
qed

text \<open>The algorithm value: an integer in range, which is assigned, or a text, which is not.\<close>

lemma takes_alg:
  assumes "dec_ctx c" "read_alg b 0 c a = (WOLFCOSE_SUCCESS, c', a')"
  shows "\<exists>t. takes c t c' \<and> (t = int_tree (sint a') \<or> (\<exists>ai s. t = Str 3 ai s) \<and> a' = a)"
proof (cases "next_is_tstr c")
  case True
  then have "wolfCose_CBOR_Skip_ex b c 0 = (WOLFCOSE_SUCCESS, c')" "a' = a"
    using assms(2) by (auto simp: read_alg_def split: prod.splits)
  then show ?thesis using takes_Skip [OF assms(1)] skip_text [OF assms(1) True] by blast
next
  case False
  then obtain v where "wolfCose_CBOR_DecodeInt_ex b c 0 0 = (WOLFCOSE_SUCCESS, c', v)"
    "wolfCose_InInt32Range v" "a' = ucast v"
    using assms(2) by (auto simp: read_alg_def split: prod.splits if_splits)
  then show ?thesis using takes_Int [OF assms(1)] sint_ucast32 by fastforce
qed

lemma takes_content_type:
  assumes "dec_ctx c" "read_content_type b 0 c a = (WOLFCOSE_SUCCESS, c', a', u)"
  shows "\<exists>t. takes c t c' \<and>
    (u \<and> t = int_tree (sint a') \<and> 0 \<le> sint a' \<or> (\<exists>ai s. t = Str 3 ai s) \<and> a' = a \<and> \<not> u)"
proof (cases "next_is_tstr c")
  case True
  then have "wolfCose_CBOR_Skip_ex b c 0 = (WOLFCOSE_SUCCESS, c')" "a' = a" "\<not> u"
    using assms(2) by (auto simp: read_content_type_def split: prod.splits)
  then show ?thesis using takes_Skip [OF assms(1)] skip_text [OF assms(1) True] by blast
next
  case False
  then obtain v where v: "wolfCose_CBOR_DecodeUint_ex b c 0 0 = (WOLFCOSE_SUCCESS, c', v)"
    "\<not> of_int INT32_MAX < v" "a' = ucast v" u
    using assms(2) by (auto simp: read_content_type_def split: prod.splits if_splits)
  have "unat v \<le> 2 ^ 31 - 1" using v(2) by (simp add: not_less word_le_nat_alt INT32_MAX_def)
  then have "unat v < 2 ^ 31" by simp
  then have s: "sint v = int (unat v)" "unat v < 2 ^ 31" by (intro sint_small, simp_all)
  then have "int (unat v) < int (2 ^ 31)" by (simp only: of_nat_less_iff)
  then have "uint v < 2 ^ 31" by simp
  then have "wolfCose_InInt32Range v"
    using s(1)
    by (simp add: wolfCose_InInt32Range_def INT32_MIN_def INT32_MAX_def) (use uint_lt64(2) [of v] in linarith)
  then show ?thesis using takes_Uint [OF assms(1) v(1)] v(3,4) s sint_ucast32 by auto
qed


lemma takes_crit_elem:
  assumes "dec_ctx c" "crit_elem b 0 (c, crit) = (WOLFCOSE_SUCCESS, c', crit')"
  shows "\<exists>n. takes c (int_tree n) c' \<and> 1 \<le> n \<and> n \<le> 6 \<and> crit' = crit OR push_bit (label_pos n) 1"
proof -
  obtain v where v: "wolfCose_CBOR_DecodeInt_ex b c 0 0 = (WOLFCOSE_SUCCESS, c', v)"
    "1 \<le> sint v" "sint v \<le> 6" "crit' = crit OR wolfCose_LabelBit v"
    using assms(2) by (auto simp: crit_elem_def Let_def split: prod.splits if_splits)
  then have "wolfCose_LabelBit v = push_bit (label_pos (sint v)) 1"
    unfolding LabelBit_eq by (simp add: small_label_def)
  then show ?thesis using takes_Int [OF assms(1) v(1)] v(2-4) by auto
qed

definition crit_tree :: "int list \<Rightarrow> cbor_tree" where
  "crit_tree ns = Arr (short_ai (length ns)) (map int_tree ns)"

lemma crit_elems:
  assumes "dec_ctx c" "repeat_ok n (crit_elem b 0) (c, crit) = (WOLFCOSE_SUCCESS, c', crit')"
  shows "\<exists>ns. length ns = n \<and> (\<forall>k\<in>set ns. 1 \<le> k \<and> k \<le> 6) \<and>
    inp c = forest_bytes (map int_tree ns) @ inp c' \<and>
    c' = advance c (length (forest_bytes (map int_tree ns))) \<and>
    (\<forall>i<32. bit crit' i \<longleftrightarrow> bit crit i \<or> (\<exists>k\<in>set ns. i = label_pos k))"
proof -
  define P where "P = (\<lambda>ns (d, cr :: u32). (\<forall>k\<in>set ns. 1 \<le> k \<and> k \<le> 6) \<and> dec_ctx d \<and>
    inp c = forest_bytes (map int_tree ns) @ inp d \<and>
    d = advance c (length (forest_bytes (map int_tree ns))) \<and>
    (\<forall>i<32. bit cr i \<longleftrightarrow> bit crit i \<or> (\<exists>k\<in>set ns. i = label_pos k)))"
  have "\<exists>ns. length ns = n \<and> P ([] @ ns) (c', crit')"
  proof (rule repeat_ok_collect [where P = P, OF _ _ assms(2)])
    show "P [] (c, crit)" using assms(1) by (simp add: P_def)
  next
    fix ns :: "int list" and s s' :: "cbor_ctx \<times> u32"
    obtain d cr d' cr' where s: "s = (d, cr)" "s' = (d', cr')" by fastforce
    assume "P ns s" and step: "crit_elem b 0 s = (WOLFCOSE_SUCCESS, s')"
    then have P: "\<forall>k\<in>set ns. 1 \<le> k \<and> k \<le> 6" "dec_ctx d"
      "inp c = forest_bytes (map int_tree ns) @ inp d" "d = advance c (length (forest_bytes (map int_tree ns)))"
      "\<forall>i<32. bit cr i \<longleftrightarrow> bit crit i \<or> (\<exists>k\<in>set ns. i = label_pos k)"
      unfolding P_def s prod.case by blast+
    obtain k where k: "takes d (int_tree k) d'" "1 \<le> k" "k \<le> 6" "cr' = cr OR push_bit (label_pos k) 1"
      using takes_crit_elem [OF P(2)] step unfolding s by blast
    have t: "inp d = tree_bytes (int_tree k) @ inp d'" "d' = advance d (length (tree_bytes (int_tree k)))"
      using k(1) unfolding takes_def by blast+
    have "small_label k" using k(2,3) by (simp add: small_label_def)
    then have bits: "\<forall>i<32. bit cr' i \<longleftrightarrow> bit cr i \<or> i = label_pos k"
      unfolding k(4) bit_or_iff by (simp only: bit_push_bit_1 [OF small_label_pos]) simp
    have "inp c = forest_bytes (map int_tree (ns @ [k])) @ inp d'"
      by (subst P(3), subst t(1)) simp
    moreover have "d' = advance c (length (forest_bytes (map int_tree (ns @ [k]))))"
      by (subst t(2), subst P(4)) simp
    moreover have "dec_ctx d'" by (rule takes_dec_ctx [OF P(2) k(1)])
    ultimately have "P (ns @ [k]) s'"
      unfolding P_def s prod.case using P(1,5) k(2,3) bits
      by (intro conjI) (simp_all del: inp_advance, blast)
    then show "\<exists>e. P (ns @ [e]) s'" by blast
  qed
  then show ?thesis unfolding P_def prod.case by auto
qed

lemma takes_crit:
  assumes "dec_ctx c" "read_crit b 0 c crit = (WOLFCOSE_SUCCESS, c', crit')"
  shows "\<exists>ns. takes c (crit_tree ns) c' \<and> ns \<noteq> [] \<and> (\<forall>k\<in>set ns. 1 \<le> k \<and> k \<le> 6) \<and>
    (\<forall>i<32. bit crit' i \<longleftrightarrow> bit crit i \<or> (\<exists>k\<in>set ns. i = label_pos k))"
proof -
  obtain c1 n where a: "wolfCose_CBOR_DecodeArrayStart_ex b c 0 0 = (WOLFCOSE_SUCCESS, c1, n)" "n \<noteq> 0"
    "repeat_ok n (crit_elem b 0) (c1, crit) = (WOLFCOSE_SUCCESS, c', crit')"
    using assms(2) by (auto simp: read_crit_def split: prod.splits if_splits)
  have e: "wolfCose_CBOR_DecodeContainerStart_ex b c 4 0 0 = (WOLFCOSE_SUCCESS, c1, n)"
    using a(1) by (simp add: wolfCose_CBOR_DecodeArrayStart_ex_def)
  note h = DecodeContainer_reads_only [OF assms(1) disjI1 [OF refl] e]
  have h4: "inp c = cbor_head 4 n @ inp c1" "c1 = advance c (length (cbor_head 4 n))"
    using h by (simp_all del: inp_advance)
  have "dec_ctx c1" by (rule moves_dec_ctx [OF assms(1) moves_Array [OF assms(1) a(1)]])
  from crit_elems [OF this a(3)] obtain ns where ns: "length ns = n" "\<forall>k\<in>set ns. 1 \<le> k \<and> k \<le> 6"
    "inp c1 = forest_bytes (map int_tree ns) @ inp c'" "c' = advance c1 (length (forest_bytes (map int_tree ns)))"
    "\<forall>i<32. bit crit' i \<longleftrightarrow> bit crit i \<or> (\<exists>k\<in>set ns. i = label_pos k)" by blast
  have "n \<le> length (inp c1)" using forest_bytes_length [of "map int_tree ns"] ns(1,3) by (metis le_trans length_append length_map le_add1)
  also have "\<dots> < 2 ^ 64" using \<open>dec_ctx c1\<close> by (auto elim!: dec_ctxE)
  finally have n: "n < 2 ^ 64" .
  have tb: "tree_bytes (crit_tree ns) = cbor_head 4 n @ forest_bytes (map int_tree ns)"
    by (simp add: crit_tree_def cbor_head_bytes ns(1))
  have "tree_wf False (crit_tree ns)"
    using n ns(1,2) by (auto simp: crit_tree_def intro!: head_valid_short int_tree_wf)
  moreover have "inp c = tree_bytes (crit_tree ns) @ inp c'"
    unfolding tb by (subst h4(1), subst ns(3)) simp
  moreover have "c' = advance c (length (tree_bytes (crit_tree ns)))"
    unfolding tb by (subst ns(4), subst h4(2)) simp
  ultimately show ?thesis unfolding takes_def using ns a(2) by auto
qed

end
