(* ===== verification/Cose_HdrSpec.thy ===== *)
theory Cose_HdrSpec
  imports Cose_Hdr
begin

text \<open>
  What the header decoders of \<open>Cose_Hdr\<close> promise: an accepted bucket is a CBOR map whose labels
  are pairwise different (and, for the unprotected bucket, different from the protected ones), whose
  critical labels are present and understood, and whose fields are what the header structure holds.
\<close>


section \<open>What an accepted bucket was\<close>

type_synonym entry = "label \<times> cbor_tree"

definition entry_bytes :: "entry \<Rightarrow> u8 list" where
  "entry_bytes e = label_bytes (fst e) @ tree_bytes (snd e)"

definition int_field :: "cbor_tree \<Rightarrow> i32 \<Rightarrow> i32 \<Rightarrow> bool" where
  "int_field t old new \<longleftrightarrow> t = int_tree (sint new) \<or> (\<exists>ai s. t = Str 3 ai s) \<and> new = old"

definition bstr_field :: "cbor_tree \<Rightarrow> cptr \<Rightarrow> size \<Rightarrow> bool" where
  "bstr_field t p n \<longleftrightarrow> p \<noteq> None \<and> readable p n \<and> t = Str 2 (short_ai n) (bytes_at p n)"

definition hdr_entry :: "label \<Rightarrow> cbor_tree \<Rightarrow> cose_hdr \<Rightarrow> cose_hdr \<Rightarrow> bool" where
  "hdr_entry l t h h' \<longleftrightarrow>
     (if l = LInt 1 then int_field t (hdr_alg h) (hdr_alg h') else hdr_alg h' = hdr_alg h) \<and>
     (if l = LInt 3 then int_field t (hdr_contentType h) (hdr_contentType h')
      else hdr_contentType h' = hdr_contentType h) \<and>
     (if l = LInt 4 then bstr_field t (hdr_kid h') (hdr_kidLen h')
      else hdr_kid h' = hdr_kid h \<and> hdr_kidLen h' = hdr_kidLen h) \<and>
     (if l = LInt 5 then bstr_field t (hdr_iv h') (hdr_ivLen h')
      else hdr_iv h' = hdr_iv h \<and> hdr_ivLen h' = hdr_ivLen h) \<and>
     (if l = LInt 6 then bstr_field t (hdr_partialIv h') (hdr_partialIvLen h')
      else hdr_partialIv h' = hdr_partialIv h \<and> hdr_partialIvLen h' = hdr_partialIvLen h)"

definition crit_entry :: "label \<Rightarrow> cbor_tree \<Rightarrow> u32 \<Rightarrow> u32 \<Rightarrow> bool" where
  "crit_entry l t cr cr' \<longleftrightarrow>
     (if l = LInt 2 then \<exists>ns. t = crit_tree ns \<and> ns \<noteq> [] \<and> (\<forall>k\<in>set ns. 1 \<le> k \<and> k \<le> 6) \<and>
        (\<forall>i<32. bit cr' i \<longleftrightarrow> bit cr i \<or> (\<exists>k\<in>set ns. i = label_pos k))
      else cr' = cr)"

lemma LabelIsInt_iff: "wc_CBOR_LabelIsInt (Some l) v \<longleftrightarrow> label_of l = LInt (sint v)"
  by (simp add: wc_CBOR_LabelIsInt_def label_of_def sint_inj)

lemma protected_value_spec:
  assumes d: "dec_ctx (pr_ctx s)" and ok: "protected_value b 0 label s = (WOLFCOSE_SUCCESS, s')"
  shows "\<exists>t. takes (pr_ctx s) t (pr_ctx s') \<and> pr_state s' = pr_state s \<and>
    hdr_entry (label_of label) t (pr_hdr s) (pr_hdr s') \<and>
    crit_entry (label_of label) t (pr_crit s) (pr_crit s') \<and>
    (pr_ctu s' \<longrightarrow> pr_ctu s \<or> label_of label = LInt 3 \<and> (\<exists>n. t = int_tree n))"
proof -
  note D = protected_value_def [of b 0 label s, unfolded ok, symmetric]
  note F = hdr_entry_def crit_entry_def LabelIsInt_iff Let_def
  consider "label_of label = LInt 1" | "label_of label = LInt 2" | "label_of label = LInt 3"
    | "label_of label = LInt 4" | "label_of label = LInt 5" | "label_of label = LInt 6"
    | "label_of label \<notin> {LInt 1, LInt 2, LInt 3, LInt 4, LInt 5, LInt 6}" by blast
  then show ?thesis
  proof cases
    case 1
    then obtain c' a where r: "read_alg b 0 (pr_ctx s) (hdr_alg (pr_hdr s)) = (WOLFCOSE_SUCCESS, c', a)"
      "s' = s\<lparr>pr_ctx := c', pr_hdr := (pr_hdr s)\<lparr>hdr_alg := a\<rparr>\<rparr>"
      using D by (auto simp: F split: prod.splits)
    show ?thesis using takes_alg [OF d r(1)] 1 by (auto simp: r(2) F int_field_def)
  next
    case 2
    then obtain c' cr where r: "read_crit b 0 (pr_ctx s) (pr_crit s) = (WOLFCOSE_SUCCESS, c', cr)"
      "s' = s\<lparr>pr_ctx := c', pr_crit := cr\<rparr>"
      using D by (auto simp: F split: prod.splits)
    show ?thesis using takes_crit [OF d r(1)] 2 by (auto simp: r(2) F)
  next
    case 3
    then obtain c' a u where r: "read_content_type b 0 (pr_ctx s) (hdr_contentType (pr_hdr s)) = (WOLFCOSE_SUCCESS, c', a, u)"
      "s' = s\<lparr>pr_ctx := c', pr_hdr := (pr_hdr s)\<lparr>hdr_contentType := a\<rparr>, pr_ctu := (pr_ctu s \<or> u)\<rparr>"
      using D by (auto simp: F split: prod.splits)
    show ?thesis using takes_content_type [OF d r(1)] 3 by (auto simp: r(2) F int_field_def)
  next
    case 4
    then obtain c' p n where r: "wolfCose_CBOR_DecodeBstr_ex b (pr_ctx s) (hdr_kid (pr_hdr s), hdr_kidLen (pr_hdr s)) 0
        = (WOLFCOSE_SUCCESS, c', p, n)"
      "s' = s\<lparr>pr_ctx := c', pr_hdr := (pr_hdr s)\<lparr>hdr_kid := p, hdr_kidLen := n\<rparr>\<rparr>"
      using D by (auto simp: F split: prod.splits)
    show ?thesis using takes_Bstr [OF d r(1)] 4 by (auto simp: r(2) F bstr_field_def)
  next
    case 5
    then obtain c' p n where r: "wolfCose_CBOR_DecodeBstr_ex b (pr_ctx s) (hdr_iv (pr_hdr s), hdr_ivLen (pr_hdr s)) 0
        = (WOLFCOSE_SUCCESS, c', p, n)"
      "s' = s\<lparr>pr_ctx := c', pr_hdr := (pr_hdr s)\<lparr>hdr_iv := p, hdr_ivLen := n\<rparr>\<rparr>"
      using D by (auto simp: F split: prod.splits)
    show ?thesis using takes_Bstr [OF d r(1)] 5 by (auto simp: r(2) F bstr_field_def)
  next
    case 6
    then obtain c' p n where r: "wolfCose_CBOR_DecodeBstr_ex b (pr_ctx s) (hdr_partialIv (pr_hdr s), hdr_partialIvLen (pr_hdr s)) 0
        = (WOLFCOSE_SUCCESS, c', p, n)"
      "s' = s\<lparr>pr_ctx := c', pr_hdr := (pr_hdr s)\<lparr>hdr_partialIv := p, hdr_partialIvLen := n\<rparr>\<rparr>"
      using D by (auto simp: F split: prod.splits)
    show ?thesis using takes_Bstr [OF d r(1)] 6 by (auto simp: r(2) F bstr_field_def)
  next
    case 7
    then obtain c' where r: "wolfCose_CBOR_Skip_ex b (pr_ctx s) 0 = (WOLFCOSE_SUCCESS, c')"
      "s' = s\<lparr>pr_ctx := c'\<rparr> \<or> (\<exists>fl. s' = s\<lparr>pr_ctx := c', pr_hdr := (pr_hdr s)\<lparr>hdr_flags := fl\<rparr>\<rparr>)"
      using D by (auto simp: F split: prod.splits if_splits)
    show ?thesis using takes_Skip [OF d r(1)] 7 r(2) by (auto simp: F)
  qed
qed

lemma label_at_encoded:
  assumes d: "dec_ctx c" and l: "wc_CBOR_DecodeLabel b c l0 = (WOLFCOSE_SUCCESS, c', l)"
  shows "label_ok l \<and> label_at (encoded_label c) l"
proof -
  note h = DecodeLabel_reads_only [OF d l]
  have ok: "label_ok l" using h by (simp add: label_ok_def)
  have "label_at (encoded_label c) l"
    unfolding label_at_def
  proof
    assume t: "label_isText l"
    let ?s = "bytes_at (label_text l) (label_textLen l)"
    have r: "readable (label_text l) (label_textLen l)" using h t by simp
    have len: "length ?s = label_textLen l" using r by simp
    have inp: "inp c = cbor_head 3 (length ?s) @ ?s @ inp c'"
      using h t by (simp add: label_of_def del: inp_advance)
    obtain p where p: "ctx_cbuf c = Some p" "ctx_bufSz c \<le> length p" "length p < 2 ^ 63" "ctx_idx c \<le> ctx_bufSz c"
      using d by (rule dec_ctxE)
    have "ctx_idx c < ctx_bufSz c"
      using length_inp [OF d] unfolding inp by (simp add: length_cbor_head split: if_splits)
    then have e: "encoded_label c = Some (drop (ctx_idx c) p)"
      using p(1) by (simp add: encoded_label_def cbuf_at_def)
    have "drop (ctx_idx c) p = inp c @ drop (ctx_bufSz c) p"
      using p(2,4) by (simp add: p(1) inp_def) (metis append_take_drop_id drop_append length_take min.absorb2 diff_is_0_eq drop_0)
    then have m: "drop (ctx_idx c) p = head_bytes 3 (short_ai (length ?s)) (length ?s) @ ?s @ (inp c' @ drop (ctx_bufSz c) p)"
      using inp by (simp add: cbor_head_bytes)
    have "length ?s \<le> length (inp c)" unfolding inp by simp
    also have "\<dots> < 2 ^ 63" using length_inp [OF d] p(2-4) by simp
    finally have lt: "length ?s < 2 ^ 63" .
    then have "head_ok 3 (short_ai (length ?s)) (length ?s)"
      using head_valid_short [of 3 "length ?s" False] by (simp add: head_valid_def)
    then have "text_encoded (drop (ctx_idx c) p) ?s" unfolding text_encoded_def using lt m by blast
    then show "\<exists>m. encoded_label c = Some m \<and> text_encoded m ?s" using e by blast
  qed
  with ok show ?thesis by simp
qed

text \<open>One round of the loop consumes one entry with a new label.\<close>

lemma protected_entry_spec:
  assumes d: "dec_ctx (pr_ctx s)" and inv: "hdr_inv b (pr_state s)"
    and ok: "protected_entry b 0 s = (WOLFCOSE_SUCCESS, s')"
  shows "\<exists>l t. inp (pr_ctx s) = entry_bytes (l, t) @ inp (pr_ctx s') \<and>
    pr_ctx s' = advance (pr_ctx s) (length (entry_bytes (l, t))) \<and> dec_ctx (pr_ctx s') \<and>
    tree_wf False t \<and> l \<notin> hdr_labels (pr_state s) \<and>
    hdr_inv b (pr_state s') \<and> hdr_labels (pr_state s') = insert l (hdr_labels (pr_state s)) \<and>
    hdr_entry l t (pr_hdr s) (pr_hdr s') \<and> crit_entry l t (pr_crit s) (pr_crit s') \<and>
    (pr_ctu s' \<longrightarrow> pr_ctu s \<or> l = LInt 3 \<and> (\<exists>n. t = int_tree n))"
proof -
  obtain c1 label st where l: "wolfCose_CBOR_DecodeLabel_ex b (pr_ctx s) local_label 0 = (WOLFCOSE_SUCCESS, c1, label)"
    and st: "wolfCose_HdrStateCheckAndAddLabel b (pr_state s) label (encoded_label (pr_ctx s)) = (WOLFCOSE_SUCCESS, st)"
    and v: "protected_value b 0 label (s\<lparr>pr_ctx := c1, pr_state := st\<rparr>) = (WOLFCOSE_SUCCESS, s')"
    using ok by (auto simp: protected_entry_def split: prod.splits if_splits)
  have l': "wc_CBOR_DecodeLabel b (pr_ctx s) local_label = (WOLFCOSE_SUCCESS, c1, label)"
    using l by (simp add: wc_CBOR_DecodeLabel_def)
  note h = DecodeLabel_reads_only [OF d l']
  have la: "label_ok label" "label_at (encoded_label (pr_ctx s)) label" using label_at_encoded [OF d l'] by blast+
  have new: "label_of label \<notin> hdr_labels (pr_state s)" "hdr_inv b st"
      "hdr_labels st = insert (label_of label) (hdr_labels (pr_state s))"
    using CheckAndAddLabel_spec [OF inv la st] by (auto split: if_splits)
  have d1: "dec_ctx c1" by (rule moves_dec_ctx [OF d moves_decoders(3) [OF d l]])
  obtain t where t: "takes c1 t (pr_ctx s')" "pr_state s' = st"
    "hdr_entry (label_of label) t (pr_hdr s) (pr_hdr s')" "crit_entry (label_of label) t (pr_crit s) (pr_crit s')"
    "pr_ctu s' \<longrightarrow> pr_ctu s \<or> label_of label = LInt 3 \<and> (\<exists>n. t = int_tree n)"
    using protected_value_spec [OF _ v] d1 by auto
  have i: "inp (pr_ctx s) = label_bytes (label_of label) @ inp c1" "inp c1 = tree_bytes t @ inp (pr_ctx s')"
    and c: "c1 = advance (pr_ctx s) (length (label_bytes (label_of label)))"
      "pr_ctx s' = advance c1 (length (tree_bytes t))" and wf: "tree_wf False t"
    using h t(1) unfolding takes_def by blast+
  have "inp (pr_ctx s) = entry_bytes (label_of label, t) @ inp (pr_ctx s')"
    by (subst i(1), subst i(2)) (simp add: entry_bytes_def)
  moreover have "pr_ctx s' = advance (pr_ctx s) (length (entry_bytes (label_of label, t)))"
    by (subst c(2), subst c(1)) (simp add: entry_bytes_def)
  moreover have "dec_ctx (pr_ctx s')" by (rule takes_dec_ctx [OF d1 t(1)])
  ultimately show ?thesis using wf new t(2-5) by (intro exI conjI) (assumption | simp del: inp_advance)+
qed


text \<open>The fields of the header after a list of entries.\<close>

definition hdr_fields :: "entry list \<Rightarrow> cose_hdr \<Rightarrow> cose_hdr \<Rightarrow> bool" where
  "hdr_fields es h h' \<longleftrightarrow>
     (\<forall>t. (LInt 1, t) \<in> set es \<longrightarrow> int_field t (hdr_alg h) (hdr_alg h')) \<and>
     (LInt 1 \<notin> fst ` set es \<longrightarrow> hdr_alg h' = hdr_alg h) \<and>
     (\<forall>t. (LInt 3, t) \<in> set es \<longrightarrow> int_field t (hdr_contentType h) (hdr_contentType h')) \<and>
     (LInt 3 \<notin> fst ` set es \<longrightarrow> hdr_contentType h' = hdr_contentType h) \<and>
     (\<forall>t. (LInt 4, t) \<in> set es \<longrightarrow> bstr_field t (hdr_kid h') (hdr_kidLen h')) \<and>
     (LInt 4 \<notin> fst ` set es \<longrightarrow> hdr_kid h' = hdr_kid h \<and> hdr_kidLen h' = hdr_kidLen h) \<and>
     (\<forall>t. (LInt 5, t) \<in> set es \<longrightarrow> bstr_field t (hdr_iv h') (hdr_ivLen h')) \<and>
     (LInt 5 \<notin> fst ` set es \<longrightarrow> hdr_iv h' = hdr_iv h \<and> hdr_ivLen h' = hdr_ivLen h) \<and>
     (\<forall>t. (LInt 6, t) \<in> set es \<longrightarrow> bstr_field t (hdr_partialIv h') (hdr_partialIvLen h')) \<and>
     (LInt 6 \<notin> fst ` set es \<longrightarrow> hdr_partialIv h' = hdr_partialIv h \<and> hdr_partialIvLen h' = hdr_partialIvLen h)"

lemma hdr_fields_Nil [simp]: "hdr_fields [] h h"
  by (simp add: hdr_fields_def)

lemma hdr_fields_snoc:
  assumes f: "hdr_fields es h0 h" and e: "hdr_entry l t h h'" and new: "l \<notin> fst ` set es"
  shows "hdr_fields (es @ [(l, t)]) h0 h'"
proof -
  have n: "(l, u) \<notin> set es" for u using new by force
  note F = f [unfolded hdr_fields_def] e [unfolded hdr_entry_def]
  consider "l = LInt 1" | "l = LInt 3" | "l = LInt 4" | "l = LInt 5" | "l = LInt 6"
    | "l \<notin> {LInt 1, LInt 3, LInt 4, LInt 5, LInt 6}" by blast
  then show ?thesis
  proof cases
    case 6
    then have ne: "l \<noteq> LInt 1" "l \<noteq> LInt 3" "l \<noteq> LInt 4" "l \<noteq> LInt 5" "l \<noteq> LInt 6" by blast+
    show ?thesis using F ne by (simp add: hdr_fields_def ne [symmetric])
  qed (use F new n in \<open>simp_all add: hdr_fields_def\<close>)
qed

definition crit_fields :: "entry list \<Rightarrow> u32 \<Rightarrow> bool" where
  "crit_fields es cr \<longleftrightarrow> (\<forall>t. (LInt 2, t) \<in> set es \<longrightarrow> crit_entry (LInt 2) t 0 cr) \<and>
     (LInt 2 \<notin> fst ` set es \<longrightarrow> cr = 0)"

lemma crit_fields_snoc:
  assumes f: "crit_fields es cr" and e: "crit_entry l t cr cr'" and new: "l \<notin> fst ` set es"
  shows "crit_fields (es @ [(l, t)]) cr'"
proof -
  have n: "(l, u) \<notin> set es" for u using new by force
  show ?thesis using f e new n
    by (cases "l = LInt 2") (simp_all add: crit_fields_def crit_entry_def)
qed

abbreviation entries_bytes :: "entry list \<Rightarrow> u8 list" where
  "entries_bytes es \<equiv> concat (map entry_bytes es)"

text \<open>The loop of the protected decoder.\<close>

lemma protected_loop:
  assumes d: "dec_ctx c" and s: "pr_ctx s = c" "pr_state s = st0" "hdr_inv b st0" "hdr_labels st0 = {}"
      "pr_crit s = 0" "\<not> pr_ctu s"
    and run: "repeat_ok n (protected_entry b 0) s = (WOLFCOSE_SUCCESS, s')"
  shows "\<exists>es. length es = n \<and> inp c = entries_bytes es @ inp (pr_ctx s') \<and>
    pr_ctx s' = advance c (length (entries_bytes es)) \<and>
    (\<forall>e\<in>set es. tree_wf False (snd e)) \<and> distinct (map fst es) \<and>
    hdr_inv b (pr_state s') \<and> hdr_labels (pr_state s') = fst ` set es \<and>
    hdr_fields es (pr_hdr s) (pr_hdr s') \<and> crit_fields es (pr_crit s') \<and>
    (pr_ctu s' \<longrightarrow> (\<exists>n. (LInt 3, int_tree n) \<in> set es))"
proof -
  define P where "P = (\<lambda>es (x :: prot). dec_ctx (pr_ctx x) \<and> inp c = entries_bytes es @ inp (pr_ctx x) \<and>
    pr_ctx x = advance c (length (entries_bytes es)) \<and>
    (\<forall>e\<in>set es. tree_wf False (snd e)) \<and> distinct (map fst es) \<and>
    hdr_inv b (pr_state x) \<and> hdr_labels (pr_state x) = fst ` set es \<and>
    hdr_fields es (pr_hdr s) (pr_hdr x) \<and> crit_fields es (pr_crit x) \<and>
    (pr_ctu x \<longrightarrow> (\<exists>n. (LInt 3, int_tree n) \<in> set es)))"
  have "\<exists>es. length es = n \<and> P ([] @ es) s'"
  proof (rule repeat_ok_collect [where P = P, OF _ _ run])
    show "P [] s" using d s by (simp add: P_def crit_fields_def)
  next
    fix es x x'
    assume "P es x" and step: "protected_entry b 0 x = (WOLFCOSE_SUCCESS, x')"
    then have P: "dec_ctx (pr_ctx x)" "inp c = entries_bytes es @ inp (pr_ctx x)"
      "pr_ctx x = advance c (length (entries_bytes es))" "\<forall>e\<in>set es. tree_wf False (snd e)"
      "distinct (map fst es)" "hdr_inv b (pr_state x)" "hdr_labels (pr_state x) = fst ` set es"
      "hdr_fields es (pr_hdr s) (pr_hdr x)" "crit_fields es (pr_crit x)"
      "pr_ctu x \<longrightarrow> (\<exists>n. (LInt 3, int_tree n) \<in> set es)"
      unfolding P_def by blast+
    obtain l t where e: "inp (pr_ctx x) = entry_bytes (l, t) @ inp (pr_ctx x')"
      "pr_ctx x' = advance (pr_ctx x) (length (entry_bytes (l, t)))" "dec_ctx (pr_ctx x')"
      "tree_wf False t" "l \<notin> hdr_labels (pr_state x)" "hdr_inv b (pr_state x')"
      "hdr_labels (pr_state x') = insert l (hdr_labels (pr_state x))"
      "hdr_entry l t (pr_hdr x) (pr_hdr x')" "crit_entry l t (pr_crit x) (pr_crit x')"
      "pr_ctu x' \<longrightarrow> pr_ctu x \<or> l = LInt 3 \<and> (\<exists>n. t = int_tree n)"
      using protected_entry_spec [OF P(1,6) step] by blast
    have new: "l \<notin> fst ` set es" using e(5) P(7) by simp
    have "inp c = entries_bytes (es @ [(l, t)]) @ inp (pr_ctx x')"
      by (subst P(2), subst e(1)) simp
    moreover have "pr_ctx x' = advance c (length (entries_bytes (es @ [(l, t)])))"
      by (subst e(2), subst P(3)) simp
    moreover have "distinct (map fst (es @ [(l, t)]))" using P(5) new by simp
    moreover have "hdr_labels (pr_state x') = fst ` set (es @ [(l, t)])" using e(7) P(7) by simp
    moreover have "pr_ctu x' \<longrightarrow> (\<exists>n. (LInt 3, int_tree n) \<in> set (es @ [(l, t)]))"
      using e(10) P(10) by auto
    moreover have "\<forall>e\<in>set (es @ [(l, t)]). tree_wf False (snd e)" using P(4) e(4) by simp
    ultimately have "P (es @ [(l, t)]) x'"
      unfolding P_def using e(3,6) hdr_fields_snoc [OF P(8) e(8) new] crit_fields_snoc [OF P(9) e(9) new]
      by blast
    then show "\<exists>e. P (es @ [e]) x'" by blast
  qed
  then show ?thesis unfolding P_def append_Nil by blast
qed

text \<open>The critical labels are among the labels of the bucket.\<close>

definition crit_honoured :: "entry list \<Rightarrow> bool" where
  "crit_honoured es \<longleftrightarrow> (\<forall>t. (LInt 2, t) \<in> set es \<longrightarrow>
     (\<exists>ns. t = crit_tree ns \<and> ns \<noteq> [] \<and> (\<forall>k\<in>set ns. 1 \<le> k \<and> k \<le> 6 \<and> LInt k \<in> fst ` set es) \<and>
        (3 \<in> set ns \<longrightarrow> (\<exists>n. (LInt 3, int_tree n) \<in> set es))))"

lemma protected_checks_crit:
  assumes ok: "protected_checks s = WOLFCOSE_SUCCESS" and inv: "hdr_inv b (pr_state s)"
    and labels: "hdr_labels (pr_state s) = fst ` set es" and crit: "crit_fields es (pr_crit s)"
    and ctu: "pr_ctu s \<longrightarrow> (\<exists>n. (LInt 3, int_tree n) \<in> set es)"
  shows "crit_honoured es"
  unfolding crit_honoured_def
proof (intro allI impI)
  fix t assume "(LInt 2, t) \<in> set es"
  then have "crit_entry (LInt 2) t 0 (pr_crit s)" using crit unfolding crit_fields_def by blast
  then obtain ns where ns: "t = crit_tree ns" "ns \<noteq> []" "\<forall>k\<in>set ns. 1 \<le> k \<and> k \<le> 6"
      "\<forall>i<32. bit (pr_crit s) i \<longleftrightarrow> (\<exists>k\<in>set ns. i = label_pos k)"
    by (auto simp: crit_entry_def)
  have c0: "pr_crit s AND NOT (labelBits (pr_state s)) = 0"
    and c3: "pr_crit s AND wolfCose_LabelBit 3 \<noteq> 0 \<longrightarrow> pr_ctu s"
    using ok by (auto simp: protected_checks_def Let_def split: if_splits)
  have small: "small_label k" "label_pos k < 32" if "k \<in> set ns" for k
    using ns(3) that small_label_pos [of k] by (auto simp: small_label_def)
  have "LInt k \<in> fst ` set es" if k: "k \<in> set ns" for k
  proof -
    have "bit (pr_crit s) (label_pos k)" using ns(4) small(2) [OF k] k by blast
    moreover have "\<not> bit (pr_crit s AND NOT (labelBits (pr_state s))) (label_pos k)" using c0 by simp
    ultimately have "bit (labelBits (pr_state s)) (label_pos k)"
      using small(2) [OF k] by (simp add: bit_and_iff bit_not_iff)
    then have "LInt k \<in> hdr_labels (pr_state s)" using small(1) [OF k] by (auto simp: hdr_labels_def)
    then show ?thesis using labels by simp
  qed
  moreover have "\<exists>n. (LInt 3, int_tree n) \<in> set es" if "3 \<in> set ns"
  proof -
    have "bit (pr_crit s) (label_pos 3)" using ns(4) small(2) [OF that] that by blast
    then have "pr_crit s AND wolfCose_LabelBit 3 \<noteq> 0"
      unfolding LabelBit_eq using small(1) [OF that] and_push_bit_1 [of "pr_crit s" "label_pos 3"] by simp
    then show ?thesis using c3 ctu by blast
  qed
  ultimately show "\<exists>ns. t = crit_tree ns \<and> ns \<noteq> [] \<and> (\<forall>k\<in>set ns. 1 \<le> k \<and> k \<le> 6 \<and> LInt k \<in> fst ` set es) \<and>
        (3 \<in> set ns \<longrightarrow> (\<exists>n. (LInt 3, int_tree n) \<in> set es))"
    using ns by blast
qed

lemma protected_checks_labels:
  assumes ok: "protected_checks s = WOLFCOSE_SUCCESS" and inv: "hdr_inv b (pr_state s)"
  shows "hdr_labels (pr_state s) \<inter> {LInt 7, LInt 9, LInt 11, LInt 12} = {} \<and>
    \<not> (hdr_iv (pr_hdr s) \<noteq> None \<and> hdr_partialIv (pr_hdr s) \<noteq> None) \<and>
    ctx_idx (pr_ctx s) = ctx_bufSz (pr_ctx s)"
  using ok Contains_iff [OF inv, of 7] Contains_iff [OF inv, of 9] Contains_iff [OF inv, of 11]
    Contains_iff [OF inv, of 12]
  by (auto simp: protected_checks_def Let_def split: if_splits)

text \<open>A protected bucket as the decoder accepts it.\<close>

definition protected_map :: "build \<Rightarrow> u8 list \<Rightarrow> entry list \<Rightarrow> bool" where
  "protected_map b bs es \<longleftrightarrow> bs = cbor_head 5 (length es) @ entries_bytes es \<and>
     length es \<le> max_map_items b \<and> distinct (map fst es) \<and>
     (\<forall>e\<in>set es. tree_wf False (snd e)) \<and>
     fst ` set es \<inter> {LInt 7, LInt 9, LInt 11, LInt 12} = {} \<and> crit_honoured es"

lemma protected_run_spec:
  assumes p: "data = Some p" "len \<le> length p" "length p < 2 ^ 63" and st: "hdr_inv b st" "hdr_labels st = {}"
    and run: "protected_run b 0 data len hdr st = (WOLFCOSE_SUCCESS, s)"
  shows "\<exists>es. protected_map b (take len p) es \<and> hdr_inv b (pr_state s) \<and>
    hdr_labels (pr_state s) = fst ` set es \<and> hdr_fields es hdr (pr_hdr s) \<and>
    \<not> (hdr_iv (pr_hdr s) \<noteq> None \<and> hdr_partialIv (pr_hdr s) \<noteq> None)"
proof -
  let ?c = "\<lparr> ctx_buf = None, ctx_cbuf = data, ctx_bufSz = len, ctx_idx = 0, ctx_fault = False \<rparr>"
  have d: "dec_ctx ?c" and i0: "inp ?c = take len p" using p by (simp_all add: dec_ctx_def inp_def)
  obtain c1 n where m: "wolfCose_CBOR_DecodeMapStart_ex b ?c 0 0 = (WOLFCOSE_SUCCESS, c1, n)"
    "n \<le> max_map_items b" and r: "repeat_ok n (protected_entry b 0)
       \<lparr> pr_ctx = c1, pr_hdr = hdr, pr_state = st, pr_crit = 0, pr_ctu = False \<rparr> = (WOLFCOSE_SUCCESS, s)"
    and chk: "protected_checks s = WOLFCOSE_SUCCESS"
    using run p(1) by (auto simp: protected_run_def wc_CBOR_DecoderInit_def Let_def split: prod.splits if_splits)
  have e: "wolfCose_CBOR_DecodeContainerStart_ex b ?c 5 0 0 = (WOLFCOSE_SUCCESS, c1, n)"
    using m(1) by (simp add: wolfCose_CBOR_DecodeMapStart_ex_def)
  have u5: "unat (5 :: u8) = 5" by simp
  have h: "inp ?c = cbor_head 5 n @ inp c1"
    using DecodeContainer_reads_only [OF d disjI2 [OF refl] e] unfolding u5 by blast
  have d1: "dec_ctx c1" by (rule moves_dec_ctx [OF d moves_Map [OF d m(1)]])
  obtain es where es: "length es = n" "inp c1 = entries_bytes es @ inp (pr_ctx s)"
    "pr_ctx s = advance c1 (length (entries_bytes es))" "\<forall>e\<in>set es. tree_wf False (snd e)"
    "distinct (map fst es)" "hdr_inv b (pr_state s)" "hdr_labels (pr_state s) = fst ` set es"
    "hdr_fields es hdr (pr_hdr s)" "crit_fields es (pr_crit s)"
    "pr_ctu s \<longrightarrow> (\<exists>n. (LInt 3, int_tree n) \<in> set es)"
    using protected_loop [OF d1 _ _ st _ _ r] unfolding prot.simps by blast
  have fin: "hdr_labels (pr_state s) \<inter> {LInt 7, LInt 9, LInt 11, LInt 12} = {}"
      "\<not> (hdr_iv (pr_hdr s) \<noteq> None \<and> hdr_partialIv (pr_hdr s) \<noteq> None)"
      "ctx_idx (pr_ctx s) = ctx_bufSz (pr_ctx s)"
    using protected_checks_labels [OF chk es(6)] by blast+
  have "inp (pr_ctx s) = []" using fin(3) by (simp add: inp_def)
  then have "take len p = cbor_head 5 (length es) @ entries_bytes es"
    by (subst i0 [symmetric], subst h, subst es(2)) (simp add: es(1))
  moreover have "crit_honoured es" by (rule protected_checks_crit [OF chk es(6,7,9,10)])
  ultimately show ?thesis
    unfolding protected_map_def using es m(2) fin by (intro exI [of _ es]) simp
qed

section \<open>The unprotected bucket\<close>

lemma unprotected_value_spec:
  assumes d: "dec_ctx (un_ctx s)" and ok: "unprotected_value b 0 label s = (WOLFCOSE_SUCCESS, s')"
  shows "\<exists>t. takes (un_ctx s) t (un_ctx s') \<and> un_state s' = un_state s \<and>
    hdr_entry (label_of label) t (un_hdr s) (un_hdr s')"
proof -
  note D = unprotected_value_def [of b 0 label s, unfolded ok, symmetric]
  note F = hdr_entry_def LabelIsInt_iff Let_def wc_CBOR_Skip_def wc_CBOR_DecodeBstr_def
  consider "label_of label = LInt 1" | "label_of label = LInt 3"
    | "label_of label = LInt 4" | "label_of label = LInt 5" | "label_of label = LInt 6"
    | "label_of label = LInt (- 4)"
    | "label_of label \<notin> {LInt 1, LInt 3, LInt 4, LInt 5, LInt 6, LInt (- 4)}" by blast
  then show ?thesis
  proof cases
    case 1
    then obtain c' a where r: "read_alg b 0 (un_ctx s) (hdr_alg (un_hdr s)) = (WOLFCOSE_SUCCESS, c', a)"
      "s' = s\<lparr>un_ctx := c', un_hdr := (un_hdr s)\<lparr>hdr_alg := a\<rparr>\<rparr>"
      using D by (auto simp: F split: prod.splits)
    show ?thesis using takes_alg [OF d r(1)] 1 by (auto simp: r(2) F int_field_def)
  next
    case 2
    then obtain c' a u where r: "read_content_type b 0 (un_ctx s) (hdr_contentType (un_hdr s)) = (WOLFCOSE_SUCCESS, c', a, u)"
      "\<exists>fl. s' = s\<lparr>un_ctx := c', un_hdr := (un_hdr s)\<lparr>hdr_contentType := a, hdr_flags := fl\<rparr>\<rparr>"
      using D by (auto simp: F split: prod.splits)
    show ?thesis using takes_content_type [OF d r(1)] 2 r(2) by (auto simp: F int_field_def)
  next
    case 3
    then obtain c' p n where r: "wolfCose_CBOR_DecodeBstr_ex b (un_ctx s) (hdr_kid (un_hdr s), hdr_kidLen (un_hdr s)) 0
        = (WOLFCOSE_SUCCESS, c', p, n)"
      "s' = s\<lparr>un_ctx := c', un_hdr := (un_hdr s)\<lparr>hdr_kid := p, hdr_kidLen := n\<rparr>\<rparr>"
      using D by (auto simp: F split: prod.splits)
    show ?thesis using takes_Bstr [OF d r(1)] 3 by (auto simp: r(2) F bstr_field_def)
  next
    case 4
    then obtain c' p n where r: "wolfCose_CBOR_DecodeBstr_ex b (un_ctx s) (hdr_iv (un_hdr s), hdr_ivLen (un_hdr s)) 0
        = (WOLFCOSE_SUCCESS, c', p, n)"
      "s' = s\<lparr>un_ctx := c', un_hdr := (un_hdr s)\<lparr>hdr_iv := p, hdr_ivLen := n\<rparr>\<rparr>"
      using D by (auto simp: F split: prod.splits)
    show ?thesis using takes_Bstr [OF d r(1)] 4 by (auto simp: r(2) F bstr_field_def)
  next
    case 5
    then obtain c' p n where r: "wolfCose_CBOR_DecodeBstr_ex b (un_ctx s) (hdr_partialIv (un_hdr s), hdr_partialIvLen (un_hdr s)) 0
        = (WOLFCOSE_SUCCESS, c', p, n)"
      "s' = s\<lparr>un_ctx := c', un_hdr := (un_hdr s)\<lparr>hdr_partialIv := p, hdr_partialIvLen := n\<rparr>\<rparr>"
      using D by (auto simp: F split: prod.splits)
    show ?thesis using takes_Bstr [OF d r(1)] 5 by (auto simp: r(2) F bstr_field_def)
  next
    case 6
    then have r: "(\<exists>c'. wolfCose_CBOR_Skip_ex b (un_ctx s) 0 = (WOLFCOSE_SUCCESS, c') \<and> s' = s\<lparr>un_ctx := c'\<rparr>) \<or>
       (\<exists>c' p n h. wolfCose_CBOR_DecodeBstr_ex b (un_ctx s) (None, 0) 0 = (WOLFCOSE_SUCCESS, c', p, n) \<and>
          s' = s\<lparr>un_ctx := c', un_hpke := h\<rparr>)"
      using D by (auto simp: F split: prod.splits if_splits option.splits)
    then show ?thesis using takes_Skip [OF d] takes_Bstr [OF d] 6 by (fastforce simp: F)
  next
    case 7
    then obtain c' where r: "wolfCose_CBOR_Skip_ex b (un_ctx s) 0 = (WOLFCOSE_SUCCESS, c')"
      "s' = s\<lparr>un_ctx := c'\<rparr> \<or> (\<exists>fl. s' = s\<lparr>un_ctx := c', un_hdr := (un_hdr s)\<lparr>hdr_flags := fl\<rparr>\<rparr>)"
      using D by (auto simp: F split: prod.splits if_splits)
    show ?thesis using takes_Skip [OF d r(1)] 7 r(2) by (auto simp: F)
  qed
qed

lemma unprotected_label_spec:
  assumes inv: "hdr_inv b hst" "hdr_inv b st" and l: "label_ok l" "label_at e l"
    and ok: "unprotected_label b hst st l e = (WOLFCOSE_SUCCESS, st')"
  shows "label_of l \<noteq> LInt 2 \<and> label_of l \<notin> hdr_labels st \<and> label_of l \<notin> hdr_labels hst \<and>
    hdr_inv b st' \<and> hdr_labels st' = insert (label_of l) (hdr_labels st)"
proof -
  have a: "wolfCose_HdrStateAddLabel b st l e = (WOLFCOSE_SUCCESS, st')" "label_of l \<noteq> LInt 2"
    "\<not> wolfCose_HdrStateContainsLabel st l" "\<not> wolfCose_HdrStateContainsLabel hst l"
    using ok by (auto simp: unprotected_label_def LabelIsInt_iff split: if_splits)
  then show ?thesis
    using AddLabel_spec [OF inv(2) l(2) a(1)] ContainsLabel_iff [OF inv(1) l(1)] ContainsLabel_iff [OF inv(2) l(1)]
    by (auto split: if_splits)
qed

lemma unprotected_entry_spec:
  assumes d: "dec_ctx (un_ctx s)" and inv: "hdr_inv b hst" "hdr_inv b (un_state s)"
    and ok: "unprotected_entry b 0 hst s = (WOLFCOSE_SUCCESS, s')"
  shows "\<exists>l t. inp (un_ctx s) = entry_bytes (l, t) @ inp (un_ctx s') \<and>
    un_ctx s' = advance (un_ctx s) (length (entry_bytes (l, t))) \<and> dec_ctx (un_ctx s') \<and>
    tree_wf False t \<and> l \<noteq> LInt 2 \<and> l \<notin> hdr_labels (un_state s) \<and> l \<notin> hdr_labels hst \<and>
    hdr_inv b (un_state s') \<and> hdr_labels (un_state s') = insert l (hdr_labels (un_state s)) \<and>
    hdr_entry l t (un_hdr s) (un_hdr s')"
proof -
  obtain c1 label st where l: "wolfCose_CBOR_DecodeLabel_ex b (un_ctx s) local_label 0 = (WOLFCOSE_SUCCESS, c1, label)"
    and st: "unprotected_label b hst (un_state s) label (encoded_label (un_ctx s)) = (WOLFCOSE_SUCCESS, st)"
    and v: "unprotected_value b 0 label (s\<lparr>un_ctx := c1, un_state := st\<rparr>) = (WOLFCOSE_SUCCESS, s')"
    using ok by (auto simp: unprotected_entry_def split: prod.splits if_splits)
  have l': "wc_CBOR_DecodeLabel b (un_ctx s) local_label = (WOLFCOSE_SUCCESS, c1, label)"
    using l by (simp add: wc_CBOR_DecodeLabel_def)
  note h = DecodeLabel_reads_only [OF d l']
  have la: "label_ok label" "label_at (encoded_label (un_ctx s)) label" using label_at_encoded [OF d l'] by blast+
  note new = unprotected_label_spec [OF inv la st]
  have d1: "dec_ctx c1" by (rule moves_dec_ctx [OF d moves_decoders(3) [OF d l]])
  obtain t where t: "takes c1 t (un_ctx s')" "un_state s' = st"
    "hdr_entry (label_of label) t (un_hdr s) (un_hdr s')"
    using unprotected_value_spec [OF _ v] d1 by auto
  have i: "inp (un_ctx s) = label_bytes (label_of label) @ inp c1" "inp c1 = tree_bytes t @ inp (un_ctx s')"
    and c: "c1 = advance (un_ctx s) (length (label_bytes (label_of label)))"
      "un_ctx s' = advance c1 (length (tree_bytes t))" and wf: "tree_wf False t"
    using h t(1) unfolding takes_def by blast+
  have "inp (un_ctx s) = entry_bytes (label_of label, t) @ inp (un_ctx s')"
    by (subst i(1), subst i(2)) (simp add: entry_bytes_def)
  moreover have "un_ctx s' = advance (un_ctx s) (length (entry_bytes (label_of label, t)))"
    by (subst c(2), subst c(1)) (simp add: entry_bytes_def)
  moreover have "dec_ctx (un_ctx s')" by (rule takes_dec_ctx [OF d1 t(1)])
  ultimately show ?thesis using wf new t(2-3) by (intro exI conjI) (assumption | simp del: inp_advance)+
qed

lemma unprotected_loop:
  assumes d: "dec_ctx c" and s: "un_ctx s = c" "hdr_inv b (un_state s)" "hdr_labels (un_state s) = {}"
    and hst: "hdr_inv b hst"
    and run: "repeat_ok n (unprotected_entry b 0 hst) s = (WOLFCOSE_SUCCESS, s')"
  shows "\<exists>es. length es = n \<and> inp c = entries_bytes es @ inp (un_ctx s') \<and>
    un_ctx s' = advance c (length (entries_bytes es)) \<and>
    (\<forall>e\<in>set es. tree_wf False (snd e)) \<and> distinct (map fst es) \<and>
    hdr_labels (un_state s') = fst ` set es \<and> LInt 2 \<notin> fst ` set es \<and>
    fst ` set es \<inter> hdr_labels hst = {} \<and> hdr_fields es (un_hdr s) (un_hdr s')"
proof -
  define P where "P = (\<lambda>es (x :: unprot). dec_ctx (un_ctx x) \<and> inp c = entries_bytes es @ inp (un_ctx x) \<and>
    un_ctx x = advance c (length (entries_bytes es)) \<and>
    (\<forall>e\<in>set es. tree_wf False (snd e)) \<and> distinct (map fst es) \<and>
    hdr_inv b (un_state x) \<and> hdr_labels (un_state x) = fst ` set es \<and> LInt 2 \<notin> fst ` set es \<and>
    fst ` set es \<inter> hdr_labels hst = {} \<and> hdr_fields es (un_hdr s) (un_hdr x))"
  have "\<exists>es. length es = n \<and> P ([] @ es) s'"
  proof (rule repeat_ok_collect [where P = P, OF _ _ run])
    show "P [] s" using d s by (simp add: P_def)
  next
    fix es x x'
    assume "P es x" and step: "unprotected_entry b 0 hst x = (WOLFCOSE_SUCCESS, x')"
    then have P: "dec_ctx (un_ctx x)" "inp c = entries_bytes es @ inp (un_ctx x)"
      "un_ctx x = advance c (length (entries_bytes es))" "\<forall>e\<in>set es. tree_wf False (snd e)"
      "distinct (map fst es)" "hdr_inv b (un_state x)" "hdr_labels (un_state x) = fst ` set es"
      "LInt 2 \<notin> fst ` set es" "fst ` set es \<inter> hdr_labels hst = {}" "hdr_fields es (un_hdr s) (un_hdr x)"
      unfolding P_def by blast+
    obtain l t where e: "inp (un_ctx x) = entry_bytes (l, t) @ inp (un_ctx x')"
      "un_ctx x' = advance (un_ctx x) (length (entry_bytes (l, t)))" "dec_ctx (un_ctx x')"
      "tree_wf False t" "l \<noteq> LInt 2" "l \<notin> hdr_labels (un_state x)" "l \<notin> hdr_labels hst" "hdr_inv b (un_state x')"
      "hdr_labels (un_state x') = insert l (hdr_labels (un_state x))" "hdr_entry l t (un_hdr x) (un_hdr x')"
      using unprotected_entry_spec [OF P(1) hst P(6) step] by blast
    have new: "l \<notin> fst ` set es" using e(6) P(7) by simp
    have "inp c = entries_bytes (es @ [(l, t)]) @ inp (un_ctx x')"
      by (subst P(2), subst e(1)) simp
    moreover have "un_ctx x' = advance c (length (entries_bytes (es @ [(l, t)])))"
      by (subst e(2), subst P(3)) simp
    moreover have "distinct (map fst (es @ [(l, t)]))" using P(5) new by simp
    moreover have "hdr_labels (un_state x') = fst ` set (es @ [(l, t)])" using e(9) P(7) by simp
    moreover have "LInt 2 \<notin> fst ` set (es @ [(l, t)])" "fst ` set (es @ [(l, t)]) \<inter> hdr_labels hst = {}"
      using e(5,7) P(8,9) by auto
    moreover have "\<forall>e\<in>set (es @ [(l, t)]). tree_wf False (snd e)" using P(4) e(4) by simp
    ultimately have "P (es @ [(l, t)]) x'"
      unfolding P_def using e(3,8) hdr_fields_snoc [OF P(10) e(10) new] by blast
    then show "\<exists>e. P (es @ [e]) x'" by blast
  qed
  then show ?thesis unfolding P_def append_Nil by blast
qed

text \<open>An unprotected bucket as the decoder accepts it beside the labels of the protected one.\<close>

definition unprotected_map :: "build \<Rightarrow> label set \<Rightarrow> entry list \<Rightarrow> bool" where
  "unprotected_map b ls es \<longleftrightarrow> length es \<le> max_map_items b \<and> distinct (map fst es) \<and>
     (\<forall>e\<in>set es. tree_wf False (snd e)) \<and> fst ` set es \<inter> ls = {} \<and> LInt 2 \<notin> fst ` set es"

lemma unprotected_spec:
  assumes d: "dec_ctx c" and hst: "hdr_inv b hst"
    and run: "wolfCose_DecodeUnprotectedHdrInternal b c hdr hst 0 hpke = (WOLFCOSE_SUCCESS, c', hdr', hst', hpke')"
  shows "\<exists>es. inp c = cbor_head 5 (length es) @ entries_bytes es @ inp c' \<and>
    c' = advance c (length (cbor_head 5 (length es) @ entries_bytes es)) \<and>
    unprotected_map b (hdr_labels hst) es \<and> hdr_fields es hdr hdr' \<and>
    \<not> (hdr_iv hdr' \<noteq> None \<and> hdr_partialIv hdr' \<noteq> None)"
proof -
  let ?st = "wolfCose_HdrStateInit hdr_empty"
  let ?s = "\<lambda>c1. \<lparr> un_ctx = c1, un_hdr = hdr, un_state = ?st, un_hpke = hpke \<rparr>"
  obtain r1 c1 n where m1: "wolfCose_CBOR_DecodeMapStart_ex b c 0 0 = (r1, c1, n)" by (metis prod_cases3)
  obtain r2 s where r2: "repeat_ok n (unprotected_entry b 0 hst) (?s c1) = (r2, s)" by fastforce
  note R = run [unfolded wolfCose_DecodeUnprotectedHdrInternal_def m1 prod.case r2]
  have m: "wolfCose_CBOR_DecodeMapStart_ex b c 0 0 = (WOLFCOSE_SUCCESS, c1, n)" "n \<le> max_map_items b"
    and r: "repeat_ok n (unprotected_entry b 0 hst) (?s c1) = (WOLFCOSE_SUCCESS, s)"
    and fin: "\<not> (hdr_iv (un_hdr s) \<noteq> None \<and> hdr_partialIv (un_hdr s) \<noteq> None)" "c' = un_ctx s" "hdr' = un_hdr s"
    using R m1 r2 by (simp_all split: if_splits)
  have e: "wolfCose_CBOR_DecodeContainerStart_ex b c 5 0 0 = (WOLFCOSE_SUCCESS, c1, n)"
    using m(1) by (simp add: wolfCose_CBOR_DecodeMapStart_ex_def)
  have u5: "unat (5 :: u8) = 5" by simp
  have h: "inp c = cbor_head 5 n @ inp c1" "c1 = advance c (length (cbor_head 5 n))"
    using DecodeContainer_reads_only [OF d disjI2 [OF refl] e] unfolding u5 by blast+
  have d1: "dec_ctx c1" by (rule moves_dec_ctx [OF d moves_Map [OF d m(1)]])
  obtain es where es: "length es = n" "inp c1 = entries_bytes es @ inp (un_ctx s)"
    "un_ctx s = advance c1 (length (entries_bytes es))" "\<forall>e\<in>set es. tree_wf False (snd e)"
    "distinct (map fst es)" "LInt 2 \<notin> fst ` set es"
    "fst ` set es \<inter> hdr_labels hst = {}" "hdr_fields es hdr (un_hdr s)"
    using unprotected_loop [OF d1 _ _ _ hst r, unfolded unprot.simps, OF refl hdr_inv_init] by blast
  have "inp c = cbor_head 5 (length es) @ entries_bytes es @ inp c'"
    by (subst h(1), subst es(2)) (simp add: es(1) fin)
  moreover have "c' = advance c (length (cbor_head 5 (length es) @ entries_bytes es))"
    unfolding fin(2) by (subst es(3), subst h(2)) (simp add: es(1))
  ultimately show ?thesis unfolding unprotected_map_def using es(1,4-8) m(2) fin(1,3) by blast
qed

section \<open>The protected bucket the encoder writes\<close>

text \<open>The map \<open>{1: alg}\<close>.\<close>

definition alg_hdr :: "i32 \<Rightarrow> u8 list" where
  "alg_hdr alg = cbor_head 5 1 @ cbor_int 1 @ cbor_int (sint alg)"

lemma sint_scast32: "sint (scast alg :: i64) = sint alg" for alg :: i32
proof -
  have "- (2 ^ 31) \<le> sint alg" "sint alg < 2 ^ 31"
    using sint_lt [of alg] sint_ge [of alg] by simp_all
  then have "- (2 ^ 63) \<le> sint alg" "sint alg < 2 ^ 63" by simp_all
  then show ?thesis by (simp add: signed_scast_eq signed_take_bit_int_eq_self)
qed

lemma writer_alg_hdr:
  "cbor_writer (\<lambda>ctx. on_success (on_success (wc_CBOR_EncodeMapStart ctx 1)
      (\<lambda>ctx. wc_CBOR_EncodeUint ctx WOLFCOSE_HDR_ALG)) (\<lambda>ctx. wc_CBOR_EncodeInt ctx (scast alg))) (alg_hdr alg)"
proof -
  have "cbor_head 5 1 @ cbor_int 1 @ cbor_int (sint alg) =
      (cbor_head 5 1 @ cbor_head 0 1) @ cbor_int (sint (scast alg :: i64))"
    by (simp add: sint_scast32) (simp add: cbor_int_def)
  then show ?thesis
    unfolding alg_hdr_def
    using writer_seq [OF writer_seq [OF map.cbor_writer_axioms [of 1] uint.cbor_writer_axioms [of 1]]
        int.cbor_writer_axioms [of "scast alg"]] by simp
qed

lemma EncodeProtectedHdr_spec:
  assumes "sz \<le> length m"
  shows "\<exists>c. \<not> ctx_fault c \<and> wolfCose_EncodeProtectedHdr alg (Some m) sz out =
    (if length (alg_hdr alg) \<le> sz then (WOLFCOSE_SUCCESS, c, length (alg_hdr alg))
     else (WOLFCOSE_E_BUFFER_TOO_SMALL, c, out)) \<and>
    (length (alg_hdr alg) \<le> sz \<longrightarrow> ctx_buf c = Some (splice 0 (alg_hdr alg) m))"
proof -
  define c0 where "c0 = \<lparr> ctx_buf = Some m, ctx_cbuf = None, ctx_bufSz = sz, ctx_idx = 0, ctx_fault = False \<rparr>"
  define f where "f = (\<lambda>ctx. on_success (on_success (wc_CBOR_EncodeMapStart ctx 1)
      (\<lambda>ctx. wc_CBOR_EncodeUint ctx WOLFCOSE_HDR_ALG)) (\<lambda>ctx. wc_CBOR_EncodeInt ctx (scast alg)))"
  have w: "cbor_writer f (alg_hdr alg)" unfolding f_def by (rule writer_alg_hdr)
  have e: "enc_ctx c0" using assms by (simp add: enc_ctx_def c0_def)
  obtain ret c where r: "f c0 = (ret, c)" by fastforce
  have eq: "wolfCose_EncodeProtectedHdr alg (Some m) sz out =
      (ret, c, if ret = WOLFCOSE_SUCCESS then ctx_idx c else out)"
    using r unfolding f_def c0_def by (simp add: wolfCose_EncodeProtectedHdr_def)
  show ?thesis
  proof (cases "length (alg_hdr alg) \<le> sz")
    case True
    then have "ret = WOLFCOSE_SUCCESS" "c = append_out c0 (alg_hdr alg)"
      using cbor_writer.fits [OF w e] r by (simp_all add: c0_def)
    then show ?thesis using True eq by (auto simp: append_out_def c0_def)
  next
    case False
    then have "ret = WOLFCOSE_E_BUFFER_TOO_SMALL" "\<not> ctx_fault c"
      using cbor_writer.nofit [OF w e] r by (simp_all add: c0_def out_frame_def enc_ctx_def)
    then show ?thesis using False eq by auto
  qed
qed

text \<open>Reading it back.\<close>

lemma label_one: "wc_CBOR_LabelIsInt (Some \<lparr> label_val = 1, label_text = None, label_textLen = 0, label_isText = False \<rparr>) k
    \<longleftrightarrow> k = 1"
  by (auto simp: wc_CBOR_LabelIsInt_def)

lemma peek_cbor_int:
  assumes "dec_ctx c" "inp c = cbor_int n @ rest"
  shows "\<not> next_is_tstr c"
proof -
  obtain mt v where mt: "mt < 2" "cbor_int n = cbor_head mt v"
    by (cases "0 \<le> n") (use that [of 0 "nat n"] that [of 1 "nat (- 1 - n)"] in \<open>simp_all add: cbor_int_def\<close>)
  have ai: "short_ai v < 32" by (auto simp: short_ai_def)
  have "inp c = of_nat (32 * mt + short_ai v) # be_bytes (arg_width (short_ai v)) v @ rest"
    by (simp add: assms(2) mt(2) cbor_head_bytes head_bytes_def)
  from peek_head(1) [OF assms(1) this] have "wc_CBOR_PeekType c = of_nat mt"
    using head_byte_of_nat [of mt] mt(1) ai by (simp del: of_nat_add of_nat_mult)
  then have "unat (wc_CBOR_PeekType c) < 2" using mt(1) by (simp add: unat_of_nat_u8)
  then have "wc_CBOR_PeekType c \<noteq> 3" by auto
  then show ?thesis by (simp add: next_is_tstr_def)
qed

lemma read_alg_int:
  assumes "dec_ctx c" "inp c = cbor_int (sint alg) @ rest"
  shows "read_alg b 0 c old = (WOLFCOSE_SUCCESS, advance c (length (cbor_int (sint alg))), alg)"
proof -
  have b: "- (2 ^ 31) \<le> sint alg" "sint alg < 2 ^ 31" using sint_lt [of alg] sint_ge [of alg] by simp_all
  have v: "wc_CBOR_DecodeInt b c 0 = (WOLFCOSE_SUCCESS, advance c (length (cbor_int (sint alg))), scast alg)"
    using int_c.reads [of c "scast alg" rest] assms by (simp add: sint_scast32)
  have "\<not> next_is_tstr c" by (rule peek_cbor_int [OF assms])
  moreover have "wolfCose_InInt32Range (scast alg)"
    using b by (simp add: wolfCose_InInt32Range_def sint_scast32 INT32_MIN_def INT32_MAX_def)
  moreover have "ucast (scast alg :: i64) = alg" by (rule bit_word_eqI) (simp add: bit_simps)
  ultimately show ?thesis using v by (simp add: read_alg_def wc_CBOR_DecodeInt_def)
qed

lemma protected_entry_alg:
  assumes d: "dec_ctx (pr_ctx s)" and i: "inp (pr_ctx s) = cbor_int 1 @ cbor_int (sint alg) @ rest"
    and st: "hdr_inv b (pr_state s)" "hdr_labels (pr_state s) = {}"
  shows "\<exists>s'. protected_entry b 0 s = (WOLFCOSE_SUCCESS, s') \<and>
    pr_ctx s' = advance (pr_ctx s) (length (cbor_int 1 @ cbor_int (sint alg))) \<and>
    pr_hdr s' = (pr_hdr s)\<lparr>hdr_alg := alg\<rparr> \<and> hdr_inv b (pr_state s') \<and>
    hdr_labels (pr_state s') = {LInt 1} \<and> pr_crit s' = pr_crit s"
proof -
  let ?l = "\<lparr> label_val = 1, label_text = None, label_textLen = 0, label_isText = False \<rparr>"
  let ?c1 = "advance (pr_ctx s) (length (cbor_int 1))"
  have l: "wolfCose_CBOR_DecodeLabel_ex b (pr_ctx s) local_label 0 = (WOLFCOSE_SUCCESS, ?c1, ?l)"
    using DecodeLabel_reads_int [OF d, of 1 _ b local_label] i by (simp add: wc_CBOR_DecodeLabel_def)
  obtain ret st' where a: "wolfCose_HdrStateCheckAndAddLabel b (pr_state s) ?l (encoded_label (pr_ctx s)) = (ret, st')"
    by fastforce
  have "label_ok ?l" "label_at (encoded_label (pr_ctx s)) ?l" "label_of ?l = LInt 1" "label_room b (pr_state s) ?l"
    by (simp_all add: label_ok_def label_at_def label_of_def label_room_def small_label_def)
  then have st': "ret = WOLFCOSE_SUCCESS" "hdr_inv b st'" "hdr_labels st' = {LInt 1}"
    using CheckAndAddLabel_spec [OF st(1) _ _ a] st(2) by auto
  have i1: "inp ?c1 = cbor_int (sint alg) @ rest" unfolding inp_advance i by simp
  have "length (cbor_int 1) \<le> length (inp (pr_ctx s))" unfolding i by simp
  then have d1: "dec_ctx ?c1" using d dec_ctx_advance by blast
  note r = read_alg_int [OF d1 i1, of b]
  have "protected_value b 0 ?l (s\<lparr>pr_ctx := ?c1, pr_state := st'\<rparr>) =
      (WOLFCOSE_SUCCESS, s\<lparr>pr_ctx := advance ?c1 (length (cbor_int (sint alg))), pr_state := st',
         pr_hdr := (pr_hdr s)\<lparr>hdr_alg := alg\<rparr>\<rparr>)"
    unfolding protected_value_def Let_def label_one by (simp add: r)
  then show ?thesis using l a st' by (simp add: protected_entry_def)
qed

lemma DecodeProtectedHdr_alg_hdr:
  assumes m: "take n m = alg_hdr alg" "n = length (alg_hdr alg)" "length m < 2 ^ 63" and b: "1 \<le> max_map_items b"
    and iv: "hdr_iv hdr = None \<or> hdr_partialIv hdr = None"
  shows "\<exists>st'. wolfCose_DecodeProtectedHdr b (Some m) n hdr st = (WOLFCOSE_SUCCESS, hdr\<lparr>hdr_alg := alg\<rparr>, st') \<and>
    hdr_inv b st' \<and> hdr_labels st' = {LInt 1}"
proof -
  define c where "c = \<lparr> ctx_buf = None, ctx_cbuf = Some m, ctx_bufSz = n, ctx_idx = 0, ctx_fault = False \<rparr>"
  let ?body = "cbor_int 1 @ cbor_int (sint alg)"
  have n: "n \<le> length m" using m(1,2) by (metis length_take min.cobounded1 min.commute)
  have d: "dec_ctx c" and i: "inp c = cbor_head (unat (5 :: u8)) 1 @ ?body"
    using m n by (simp_all add: dec_ctx_def inp_def c_def) (simp add: alg_hdr_def)
  have ge: "2 \<le> length ?body" by (simp add: cbor_int_def length_cbor_head)
  let ?c1 = "advance c (length (cbor_head 5 1))"
  have mp: "wolfCose_CBOR_DecodeMapStart_ex b c 0 0 = (WOLFCOSE_SUCCESS, ?c1, 1)"
    using DecodeContainer_reads [OF d i _ flags_valid_0, of b 0] ge by (simp add: wolfCose_CBOR_DecodeMapStart_ex_def)
  have d1: "dec_ctx ?c1" by (rule moves_dec_ctx [OF d moves_Map [OF d mp]])
  have i1: "inp ?c1 = cbor_int 1 @ cbor_int (sint alg) @ []" unfolding inp_advance i by simp
  let ?s = "\<lparr> pr_ctx = ?c1, pr_hdr = hdr, pr_state = wolfCose_HdrStateInit st, pr_crit = 0, pr_ctu = False \<rparr>"
  obtain s' where s': "protected_entry b 0 ?s = (WOLFCOSE_SUCCESS, s')"
    "pr_ctx s' = advance ?c1 (length ?body)" "pr_hdr s' = hdr\<lparr>hdr_alg := alg\<rparr>"
    "hdr_inv b (pr_state s')" "hdr_labels (pr_state s') = {LInt 1}" "pr_crit s' = 0"
    using protected_entry_alg [of ?s alg "[]" b] d1 i1 by auto
  have "repeat_ok 1 (protected_entry b 0) ?s = (WOLFCOSE_SUCCESS, s')" using s'(1) by simp
  moreover have "protected_checks s' = WOLFCOSE_SUCCESS"
  proof -
    have "length (inp c) = n" using length_inp [OF d] by (simp add: c_def)
    then have "ctx_idx (pr_ctx s') = n" unfolding i s'(2) by (simp add: c_def)
    then show ?thesis
      using Contains_iff [OF s'(4), of 7] Contains_iff [OF s'(4), of 9] Contains_iff [OF s'(4), of 11]
        Contains_iff [OF s'(4), of 12] s'(3,5,6) iv s'(2)
      by (auto simp: protected_checks_def Let_def c_def)
  qed
  ultimately have "protected_run b 0 (Some m) n hdr (wolfCose_HdrStateInit st) = (WOLFCOSE_SUCCESS, s')"
    using mp b by (simp add: protected_run_def wc_CBOR_DecoderInit_def Let_def c_def)
  moreover have "n \<noteq> 0" using m(2) by (simp add: alg_hdr_def length_cbor_head)
  ultimately show ?thesis
    using s' by (simp add: wolfCose_DecodeProtectedHdr_def wolfCose_DecodeProtectedHdr_ex_def)
qed

section \<open>The properties\<close>

text \<open>C21: a protected header that is accepted is empty or is, over its whole length, a CBOR map of
well-formed entries with pairwise different labels, without countersignature labels, whose
\<open>crit\<close> list names only labels of the map that the decoder understands. The header structure
then holds the values of that map and is otherwise unchanged, not both IV and Partial IV are set,
and the label state holds exactly the labels of the map.\<close>

theorem DecodeProtectedHdr_sound:
  assumes "data = Some p" "len \<le> length p" "length p < 2 ^ 63"
    and "wolfCose_DecodeProtectedHdr b data len hdr st = (WOLFCOSE_SUCCESS, hdr', st')"
  shows "hdr_inv b st' \<and>
    (if len = 0 then hdr' = hdr \<and> hdr_labels st' = {}
     else \<exists>es. protected_map b (take len p) es \<and> hdr_labels st' = fst ` set es \<and>
       hdr_fields es hdr hdr' \<and> \<not> (hdr_iv hdr' \<noteq> None \<and> hdr_partialIv hdr' \<noteq> None))"
proof (cases "len = 0")
  case True
  then show ?thesis using assms(4)
    by (auto simp: wolfCose_DecodeProtectedHdr_def wolfCose_DecodeProtectedHdr_ex_def)
next
  case False
  then obtain s where "protected_run b 0 data len hdr (wolfCose_HdrStateInit st) = (WOLFCOSE_SUCCESS, s)"
    "hdr' = pr_hdr s" "st' = pr_state s"
    using assms(1,4) by (auto simp: wolfCose_DecodeProtectedHdr_def wolfCose_DecodeProtectedHdr_ex_def
        split: prod.splits)
  then show ?thesis using protected_run_spec [OF assms(1-3)] hdr_inv_init False by metis
qed

definition hdr_blank :: cose_hdr where
  "hdr_blank = \<lparr> hdr_alg = 0, hdr_kid = None, hdr_kidLen = 0, hdr_iv = None, hdr_ivLen = 0,
     hdr_partialIv = None, hdr_partialIvLen = 0, hdr_contentType = 0, hdr_flags = 0 \<rparr>"

lemma alg_hdr_7: "alg_hdr (- 7) = [0xA1, 0x01, 0x26]"
  by (simp add: alg_hdr_def cbor_int_def cbor_head_def)

lemma blank_iv: "hdr_iv hdr_blank = None \<or> hdr_partialIv hdr_blank = None"
  by (simp add: hdr_blank_def)

lemma full_build_items: "1 \<le> max_map_items full_build"
  by (simp add: full_build_def)

lemma DecodeProtectedHdr_sound_witness:
  "\<exists>st' es. wolfCose_DecodeProtectedHdr full_build (Some [0xA1, 0x01, 0x26]) 3 hdr_blank hdr_empty
      = (WOLFCOSE_SUCCESS, hdr_blank\<lparr>hdr_alg := - 7\<rparr>, st') \<and>
    protected_map full_build [0xA1, 0x01, 0x26] es \<and> hdr_labels st' = fst ` set es"
proof -
  obtain st' where "wolfCose_DecodeProtectedHdr full_build (Some [0xA1, 0x01, 0x26]) 3 hdr_blank hdr_empty
      = (WOLFCOSE_SUCCESS, hdr_blank\<lparr>hdr_alg := - 7\<rparr>, st')"
    using DecodeProtectedHdr_alg_hdr [of 3 "[0xA1, 0x01, 0x26]" "- 7" full_build hdr_blank hdr_empty]
      blank_iv full_build_items by (auto simp: alg_hdr_7)
  from this DecodeProtectedHdr_sound [OF refl _ _ this] show ?thesis by auto
qed

text \<open>C22: an unprotected header that is accepted is a CBOR map of well-formed entries at the cursor,
which is left behind it. Its labels are pairwise different, none of them is in the protected header,
and \<open>crit\<close> is not among them. The header structure holds the values of the map and is otherwise as
the protected header left it, and not both IV and Partial IV are set over the two buckets.\<close>

theorem DecodeUnprotectedHdr_sound:
  assumes "dec_ctx c" "hdr_inv b st"
    and "wolfCose_DecodeUnprotectedHdr b c hdr st = (WOLFCOSE_SUCCESS, c', hdr', st')"
  shows "\<exists>es. inp c = cbor_head 5 (length es) @ entries_bytes es @ inp c' \<and>
    c' = advance c (length (cbor_head 5 (length es) @ entries_bytes es)) \<and>
    unprotected_map b (hdr_labels st) es \<and> hdr_fields es hdr hdr' \<and>
    \<not> (hdr_iv hdr' \<noteq> None \<and> hdr_partialIv hdr' \<noteq> None)"
proof -
  obtain hpke where "wolfCose_DecodeUnprotectedHdrInternal b c hdr st 0 None = (WOLFCOSE_SUCCESS, c', hdr', st', hpke)"
    using assms(3) by (auto simp: wolfCose_DecodeUnprotectedHdr_def wolfCose_DecodeUnprotectedHdr_ex_def
        split: prod.splits)
  from unprotected_spec [OF assms(1,2) this] show ?thesis .
qed

lemma DecodeUnprotectedHdr_sound_witness:
  "\<exists>c' hdr' st' es. wolfCose_DecodeUnprotectedHdr full_build (dec_example [0xA0, 0x05]) hdr_blank hdr_empty
      = (WOLFCOSE_SUCCESS, c', hdr', st') \<and>
    inp (dec_example [0xA0, 0x05]) = cbor_head 5 (length es) @ entries_bytes es @ inp c' \<and>
    unprotected_map full_build {} es"
proof -
  let ?c = "dec_example [0xA0, 0x05]"
  have d: "dec_ctx ?c" "inp ?c = cbor_head (unat (5 :: u8)) 0 @ [0x05]"
    by (simp_all add: dec_example_def dec_ctx_def inp_def cbor_head_def)
  have "wolfCose_CBOR_DecodeMapStart_ex full_build ?c 0 0 =
      (WOLFCOSE_SUCCESS, advance ?c (length (cbor_head (unat (5 :: u8)) 0)), 0)"
    using DecodeContainer_reads [OF d _ flags_valid_0, of full_build 0]
    by (simp add: wolfCose_CBOR_DecodeMapStart_ex_def)
  then have "\<exists>c' hdr' st'. wolfCose_DecodeUnprotectedHdr full_build ?c hdr_blank hdr_empty = (WOLFCOSE_SUCCESS, c', hdr', st')"
    by (simp add: wolfCose_DecodeUnprotectedHdr_def wolfCose_DecodeUnprotectedHdr_ex_def hdr_blank_def
        wolfCose_DecodeUnprotectedHdrInternal_def)
  then obtain c' hdr' st' where r: "wolfCose_DecodeUnprotectedHdr full_build ?c hdr_blank hdr_empty
      = (WOLFCOSE_SUCCESS, c', hdr', st')" by blast
  from r DecodeUnprotectedHdr_sound [OF d(1) hdr_inv_empty(1) r] show ?thesis by auto
qed

text \<open>C25: what the encoder of the protected header writes, the decoder reads: for every algorithm the
encoder reports the exact length of \<open>{1: alg}\<close> or a too small buffer, and decoding what it wrote sets
the algorithm, changes nothing else of the header and records exactly the label 1.\<close>

theorem ProtectedHdr_round_trip:
  assumes "sz \<le> length m" "length m < 2 ^ 63" "1 \<le> max_map_items b"
    and "hdr_iv hdr = None \<or> hdr_partialIv hdr = None"
  shows "\<exists>c st'. \<not> ctx_fault c \<and>
    (if length (alg_hdr alg) \<le> sz
     then wolfCose_EncodeProtectedHdr alg (Some m) sz out = (WOLFCOSE_SUCCESS, c, length (alg_hdr alg)) \<and>
       wolfCose_DecodeProtectedHdr b (ctx_buf c) (length (alg_hdr alg)) hdr st =
         (WOLFCOSE_SUCCESS, hdr\<lparr>hdr_alg := alg\<rparr>, st') \<and> hdr_labels st' = {LInt 1}
     else wolfCose_EncodeProtectedHdr alg (Some m) sz out = (WOLFCOSE_E_BUFFER_TOO_SMALL, c, out))"
proof -
  obtain c where c: "\<not> ctx_fault c" "wolfCose_EncodeProtectedHdr alg (Some m) sz out =
    (if length (alg_hdr alg) \<le> sz then (WOLFCOSE_SUCCESS, c, length (alg_hdr alg))
     else (WOLFCOSE_E_BUFFER_TOO_SMALL, c, out))"
    "length (alg_hdr alg) \<le> sz \<longrightarrow> ctx_buf c = Some (splice 0 (alg_hdr alg) m)"
    using EncodeProtectedHdr_spec [OF assms(1)] by blast
  show ?thesis
  proof (cases "length (alg_hdr alg) \<le> sz")
    case True
    then have "take (length (alg_hdr alg)) (splice 0 (alg_hdr alg) m) = alg_hdr alg"
      "length (splice 0 (alg_hdr alg) m) < 2 ^ 63"
      using assms(1,2) by (simp_all add: splice_def)
    from DecodeProtectedHdr_alg_hdr [OF this(1) refl this(2) assms(3,4), of st] show ?thesis
      using True c by auto
  next
    case False
    then show ?thesis using c by auto
  qed
qed

lemma ProtectedHdr_round_trip_witness:
  "\<exists>c st'. wolfCose_EncodeProtectedHdr (- 7) (Some [0, 0, 0, 0]) 4 0 = (WOLFCOSE_SUCCESS, c, 3) \<and>
     wolfCose_DecodeProtectedHdr full_build (ctx_buf c) 3 hdr_blank hdr_empty =
       (WOLFCOSE_SUCCESS, hdr_blank\<lparr>hdr_alg := - 7\<rparr>, st')"
  using ProtectedHdr_round_trip [of 4 "[0, 0, 0, 0]" full_build hdr_blank "- 7" 0 hdr_empty, OF _ _ full_build_items blank_iv]
  by (auto simp: alg_hdr_7 numeral_3_eq_3)

text \<open>C26: whatever the bytes and the decoding mode, the header decoders never read outside the input:
the protected one stays within the \<open>len\<close> bytes it is given, and the unprotected one leaves its cursor
at a position between where it found it and the end of the buffer.\<close>

theorem DecodeHdrs_safe:
  assumes "data = Some p" "len \<le> length p" "length p < 2 ^ 63" "dec_ctx c"
  shows "(case protected_run b flags data len hdr st of (ret, s) \<Rightarrow>
       \<not> ctx_fault (pr_ctx s) \<and> ctx_idx (pr_ctx s) \<le> len) \<and>
     (case wolfCose_DecodeUnprotectedHdrInternal b c hdr st flags hpke of (ret, c', r) \<Rightarrow>
       \<not> ctx_fault c' \<and> ctx_idx c \<le> ctx_idx c' \<and> ctx_idx c' \<le> ctx_bufSz c)"
proof -
  obtain r1 s where r1: "protected_run b flags data len hdr st = (r1, s)" by fastforce
  obtain r2 c' x where r2: "wolfCose_DecodeUnprotectedHdrInternal b c hdr st flags hpke = (r2, c', x)"
    by (metis prod_cases3)
  have m: "moves c c'" by (rule unprotected_moves [OF assms(4) r2])
  show ?thesis
    using protected_run_safe [OF assms(1-3) r1] moves_dec_ctx [OF assms(4) m] m unfolding r1 r2
    by (auto simp: dec_ctx_def moves_def)
qed

lemma DecodeHdrs_safe_witness:
  "case protected_run full_build 0 (Some [0xBF]) 1 hdr_blank hdr_empty of (ret, s) \<Rightarrow>
       \<not> ctx_fault (pr_ctx s) \<and> ctx_idx (pr_ctx s) \<le> 1"
  using DecodeHdrs_safe [of "Some [0xBF]" "[0xBF]" 1 "dec_example []" full_build 0 hdr_blank hdr_empty None]
  by (simp add: dec_example_def dec_ctx_def)

end
