(* ===== verification/Cose_Alg.thy ===== *)
theory Cose_Alg
  imports Cose_Hdr
begin

text \<open>
  Algorithm dispatch (\<open>src/wolfcose_alg.c\<close>): the tables from algorithm identifiers to hash types,
  curves, key, nonce, tag and signature sizes, under the build's algorithm gates, and the checks of
  attached ECC and RSA keys. The wolfCrypt queries on an attached key are parameters.
\<close>

section \<open>Identifiers\<close>

definition WOLFCOSE_ALG_ESP256 :: i32 where [simp]: "WOLFCOSE_ALG_ESP256 = - 9"
definition WOLFCOSE_ALG_ESP384 :: i32 where [simp]: "WOLFCOSE_ALG_ESP384 = - 51"
definition WOLFCOSE_ALG_ESP512 :: i32 where [simp]: "WOLFCOSE_ALG_ESP512 = - 52"
definition WOLFCOSE_ALG_ED25519 :: i32 where [simp]: "WOLFCOSE_ALG_ED25519 = - 19"
definition WOLFCOSE_ALG_ED448 :: i32 where [simp]: "WOLFCOSE_ALG_ED448 = - 53"
definition WOLFCOSE_ALG_ES256 :: i32 where [simp]: "WOLFCOSE_ALG_ES256 = - 7"
definition WOLFCOSE_ALG_ES384 :: i32 where [simp]: "WOLFCOSE_ALG_ES384 = - 35"
definition WOLFCOSE_ALG_ES512 :: i32 where [simp]: "WOLFCOSE_ALG_ES512 = - 36"
definition WOLFCOSE_ALG_EDDSA :: i32 where [simp]: "WOLFCOSE_ALG_EDDSA = - 8"
definition WOLFCOSE_ALG_PS256 :: i32 where [simp]: "WOLFCOSE_ALG_PS256 = - 37"
definition WOLFCOSE_ALG_PS384 :: i32 where [simp]: "WOLFCOSE_ALG_PS384 = - 38"
definition WOLFCOSE_ALG_PS512 :: i32 where [simp]: "WOLFCOSE_ALG_PS512 = - 39"
definition WOLFCOSE_ALG_ML_DSA_44 :: i32 where [simp]: "WOLFCOSE_ALG_ML_DSA_44 = - 48"
definition WOLFCOSE_ALG_ML_DSA_65 :: i32 where [simp]: "WOLFCOSE_ALG_ML_DSA_65 = - 49"
definition WOLFCOSE_ALG_ML_DSA_87 :: i32 where [simp]: "WOLFCOSE_ALG_ML_DSA_87 = - 50"
definition WOLFCOSE_ALG_HSS_LMS :: i32 where [simp]: "WOLFCOSE_ALG_HSS_LMS = - 46"
definition WOLFCOSE_ALG_A128GCM :: i32 where [simp]: "WOLFCOSE_ALG_A128GCM = 1"
definition WOLFCOSE_ALG_A192GCM :: i32 where [simp]: "WOLFCOSE_ALG_A192GCM = 2"
definition WOLFCOSE_ALG_A256GCM :: i32 where [simp]: "WOLFCOSE_ALG_A256GCM = 3"
definition WOLFCOSE_ALG_HMAC_256_256 :: i32 where [simp]: "WOLFCOSE_ALG_HMAC_256_256 = 5"
definition WOLFCOSE_ALG_HMAC_384_384 :: i32 where [simp]: "WOLFCOSE_ALG_HMAC_384_384 = 6"
definition WOLFCOSE_ALG_HMAC_512_512 :: i32 where [simp]: "WOLFCOSE_ALG_HMAC_512_512 = 7"
definition WOLFCOSE_ALG_CHACHA20_POLY1305 :: i32 where [simp]: "WOLFCOSE_ALG_CHACHA20_POLY1305 = 24"
definition WOLFCOSE_ALG_AES_CCM_16_64_128 :: i32 where [simp]: "WOLFCOSE_ALG_AES_CCM_16_64_128 = 10"
definition WOLFCOSE_ALG_AES_CCM_16_64_256 :: i32 where [simp]: "WOLFCOSE_ALG_AES_CCM_16_64_256 = 11"
definition WOLFCOSE_ALG_AES_CCM_64_64_128 :: i32 where [simp]: "WOLFCOSE_ALG_AES_CCM_64_64_128 = 12"
definition WOLFCOSE_ALG_AES_CCM_64_64_256 :: i32 where [simp]: "WOLFCOSE_ALG_AES_CCM_64_64_256 = 13"
definition WOLFCOSE_ALG_AES_CCM_16_128_128 :: i32 where [simp]: "WOLFCOSE_ALG_AES_CCM_16_128_128 = 30"
definition WOLFCOSE_ALG_AES_CCM_16_128_256 :: i32 where [simp]: "WOLFCOSE_ALG_AES_CCM_16_128_256 = 31"
definition WOLFCOSE_ALG_AES_CCM_64_128_128 :: i32 where [simp]: "WOLFCOSE_ALG_AES_CCM_64_128_128 = 32"
definition WOLFCOSE_ALG_AES_CCM_64_128_256 :: i32 where [simp]: "WOLFCOSE_ALG_AES_CCM_64_128_256 = 33"
definition WOLFCOSE_ALG_AES_MAC_128_64 :: i32 where [simp]: "WOLFCOSE_ALG_AES_MAC_128_64 = 14"
definition WOLFCOSE_ALG_AES_MAC_256_64 :: i32 where [simp]: "WOLFCOSE_ALG_AES_MAC_256_64 = 15"
definition WOLFCOSE_ALG_AES_MAC_128_128 :: i32 where [simp]: "WOLFCOSE_ALG_AES_MAC_128_128 = 25"
definition WOLFCOSE_ALG_AES_MAC_256_128 :: i32 where [simp]: "WOLFCOSE_ALG_AES_MAC_256_128 = 26"

definition WOLFCOSE_KTY_OKP :: i32 where [simp]: "WOLFCOSE_KTY_OKP = 1"
definition WOLFCOSE_KTY_EC2 :: i32 where [simp]: "WOLFCOSE_KTY_EC2 = 2"
definition WOLFCOSE_KTY_RSA :: i32 where [simp]: "WOLFCOSE_KTY_RSA = 3"
definition WOLFCOSE_KTY_SYMMETRIC :: i32 where [simp]: "WOLFCOSE_KTY_SYMMETRIC = 4"
definition WOLFCOSE_KTY_HSS_LMS :: i32 where [simp]: "WOLFCOSE_KTY_HSS_LMS = 5"
definition WOLFCOSE_KTY_AKP :: i32 where [simp]: "WOLFCOSE_KTY_AKP = 7"

definition WOLFCOSE_ATT_NONE :: u8 where [simp]: "WOLFCOSE_ATT_NONE = 0"
definition WOLFCOSE_ATT_ECC :: u8 where [simp]: "WOLFCOSE_ATT_ECC = 1"
definition WOLFCOSE_ATT_ED25519 :: u8 where [simp]: "WOLFCOSE_ATT_ED25519 = 2"
definition WOLFCOSE_ATT_ED448 :: u8 where [simp]: "WOLFCOSE_ATT_ED448 = 3"
definition WOLFCOSE_ATT_RSA :: u8 where [simp]: "WOLFCOSE_ATT_RSA = 4"
definition WOLFCOSE_ATT_MLDSA :: u8 where [simp]: "WOLFCOSE_ATT_MLDSA = 5"
definition WOLFCOSE_ATT_SYMMETRIC :: u8 where [simp]: "WOLFCOSE_ATT_SYMMETRIC = 6"
definition WOLFCOSE_ATT_LMS :: u8 where [simp]: "WOLFCOSE_ATT_LMS = 7"

definition WOLFCOSE_CRV_P256 :: i32 where [simp]: "WOLFCOSE_CRV_P256 = 1"
definition WOLFCOSE_CRV_P384 :: i32 where [simp]: "WOLFCOSE_CRV_P384 = 2"
definition WOLFCOSE_CRV_P521 :: i32 where [simp]: "WOLFCOSE_CRV_P521 = 3"
definition WOLFCOSE_CRV_ED25519 :: i32 where [simp]: "WOLFCOSE_CRV_ED25519 = 6"
definition WOLFCOSE_CRV_ED448 :: i32 where [simp]: "WOLFCOSE_CRV_ED448 = 7"

definition WOLFCOSE_AES_GCM_TAG_SZ :: size where [simp]: "WOLFCOSE_AES_GCM_TAG_SZ = 16"
definition WOLFCOSE_AES_GCM_NONCE_SZ :: size where [simp]: "WOLFCOSE_AES_GCM_NONCE_SZ = 12"
definition WOLFCOSE_CHACHA_KEY_SZ :: size where [simp]: "WOLFCOSE_CHACHA_KEY_SZ = 32"
definition WOLFCOSE_CHACHA_NONCE_SZ :: size where [simp]: "WOLFCOSE_CHACHA_NONCE_SZ = 12"
definition WOLFCOSE_CHACHA_TAG_SZ :: size where [simp]: "WOLFCOSE_CHACHA_TAG_SZ = 16"
definition WOLFCOSE_RSA_PSS_MIN_SZ :: size where [simp]: "WOLFCOSE_RSA_PSS_MIN_SZ = 256"

text \<open>The values of wolfCrypt's enumerations that the code names.\<close>

datatype wc_HashType = WC_HASH_TYPE_NONE | WC_HASH_TYPE_SHA256 | WC_HASH_TYPE_SHA384 | WC_HASH_TYPE_SHA512

datatype wc_mgf = WC_MGF1SHA256 | WC_MGF1SHA384 | WC_MGF1SHA512

datatype ecc_curve = ECC_CURVE_INVALID | ECC_SECP256R1 | ECC_SECP384R1 | ECC_SECP521R1 | ECC_OTHER nat

text \<open>
  The shape of every table function: NULL output pointer, no entry (\<open>default:\<close>), entry stored.
\<close>

definition lookup_out :: "'a option \<Rightarrow> 'a option \<Rightarrow> rc \<times> 'a option" where
  "lookup_out out entry =
     (case out of None \<Rightarrow> (WOLFCOSE_E_INVALID_ARG, None)
      | Some _ \<Rightarrow> (case entry of None \<Rightarrow> (WOLFCOSE_E_COSE_BAD_ALG, out)
                   | Some x \<Rightarrow> (WOLFCOSE_SUCCESS, Some x)))"

lemma lookup_out_Some [simp]:
  "lookup_out (Some o') e = (case e of None \<Rightarrow> (WOLFCOSE_E_COSE_BAD_ALG, Some o')
     | Some x \<Rightarrow> (WOLFCOSE_SUCCESS, Some x))"
  by (simp add: lookup_out_def)

section \<open>Signatures\<close>

definition alg_is_es :: "build \<Rightarrow> (build \<Rightarrow> bool) \<Rightarrow> i32 \<Rightarrow> i32 \<Rightarrow> i32 \<Rightarrow> bool" where
  "alg_is_es b have deprecated specified alg \<longleftrightarrow>
     have b \<and> (have_deprecated_algs b \<and> alg = deprecated \<or> alg = specified)"

definition wolfCose_AlgToHashType :: "build \<Rightarrow> i32 \<Rightarrow> wc_HashType option \<Rightarrow> rc \<times> wc_HashType option" where
  "wolfCose_AlgToHashType b alg hashType = lookup_out hashType
     (if alg_is_es b have_es256 WOLFCOSE_ALG_ES256 WOLFCOSE_ALG_ESP256 alg then Some WC_HASH_TYPE_SHA256
      else if alg_is_es b have_es384 WOLFCOSE_ALG_ES384 WOLFCOSE_ALG_ESP384 alg then Some WC_HASH_TYPE_SHA384
      else if alg_is_es b have_es512 WOLFCOSE_ALG_ES512 WOLFCOSE_ALG_ESP512 alg then Some WC_HASH_TYPE_SHA512
      else if (have_eddsa b \<or> have_ed448 b) \<and>
        (have_deprecated_algs b \<and> alg = WOLFCOSE_ALG_EDDSA \<or> have_eddsa b \<and> alg = WOLFCOSE_ALG_ED25519 \<or>
         have_ed448 b \<and> alg = WOLFCOSE_ALG_ED448) then Some WC_HASH_TYPE_SHA512
      else if have_ps256 b \<and> alg = WOLFCOSE_ALG_PS256 then Some WC_HASH_TYPE_SHA256
      else if have_ps384 b \<and> alg = WOLFCOSE_ALG_PS384 then Some WC_HASH_TYPE_SHA384
      else if have_ps512 b \<and> alg = WOLFCOSE_ALG_PS512 then Some WC_HASH_TYPE_SHA512
      else None)"

definition wolfCose_SigSize :: "build \<Rightarrow> i32 \<Rightarrow> size option \<Rightarrow> rc \<times> size option" where
  "wolfCose_SigSize b alg sigSz = lookup_out sigSz
     (if alg_is_es b have_es256 WOLFCOSE_ALG_ES256 WOLFCOSE_ALG_ESP256 alg then Some 64
      else if alg_is_es b have_es384 WOLFCOSE_ALG_ES384 WOLFCOSE_ALG_ESP384 alg then Some 96
      else if alg_is_es b have_es512 WOLFCOSE_ALG_ES512 WOLFCOSE_ALG_ESP512 alg then Some 132
      else if (have_eddsa b \<or> have_ed448 b) \<and> have_deprecated_algs b \<and> alg = WOLFCOSE_ALG_EDDSA
        then Some (if have_ed448 b then 114 else 64)
      else if have_eddsa b \<and> alg = WOLFCOSE_ALG_ED25519 then Some 64
      else if have_ed448 b \<and> alg = WOLFCOSE_ALG_ED448 then Some 114
      else if have_mldsa b \<and> alg = WOLFCOSE_ALG_ML_DSA_44 then Some 2420
      else if have_mldsa b \<and> alg = WOLFCOSE_ALG_ML_DSA_65 then Some 3309
      else if have_mldsa b \<and> alg = WOLFCOSE_ALG_ML_DSA_87 then Some 4627
      else None)"

definition wolfCose_AlgToCrv :: "build \<Rightarrow> i32 \<Rightarrow> i32 option \<Rightarrow> rc \<times> i32 option" where
  "wolfCose_AlgToCrv b alg crv = lookup_out crv
     (if alg_is_es b have_es256 WOLFCOSE_ALG_ES256 WOLFCOSE_ALG_ESP256 alg then Some WOLFCOSE_CRV_P256
      else if alg_is_es b have_es384 WOLFCOSE_ALG_ES384 WOLFCOSE_ALG_ESP384 alg then Some WOLFCOSE_CRV_P384
      else if alg_is_es b have_es512 WOLFCOSE_ALG_ES512 WOLFCOSE_ALG_ESP512 alg then Some WOLFCOSE_CRV_P521
      else if (have_eddsa b \<or> have_ed448 b) \<and> have_deprecated_algs b \<and> alg = WOLFCOSE_ALG_EDDSA then Some 0
      else if have_eddsa b \<and> alg = WOLFCOSE_ALG_ED25519 then Some WOLFCOSE_CRV_ED25519
      else if have_ed448 b \<and> alg = WOLFCOSE_ALG_ED448 then Some WOLFCOSE_CRV_ED448
      else None)"

definition wolfCose_AlgIsEcdsa :: "build \<Rightarrow> i32 \<Rightarrow> bool" where
  "wolfCose_AlgIsEcdsa b alg \<longleftrightarrow> have_ecdsa b \<and>
     (case wolfCose_AlgToCrv b alg (Some 0) of (ret, crv) \<Rightarrow> ret = WOLFCOSE_SUCCESS \<and>
        (the crv = WOLFCOSE_CRV_P256 \<or> the crv = WOLFCOSE_CRV_P384 \<or> the crv = WOLFCOSE_CRV_P521))"

definition wolfCose_AlgIsEddsa :: "build \<Rightarrow> i32 \<Rightarrow> bool" where
  "wolfCose_AlgIsEddsa b alg \<longleftrightarrow> (have_eddsa b \<or> have_ed448 b) \<and>
     (case wolfCose_AlgToCrv b alg (Some 0) of (ret, crv) \<Rightarrow> ret = WOLFCOSE_SUCCESS \<and>
        (the crv = WOLFCOSE_CRV_ED25519 \<or> the crv = WOLFCOSE_CRV_ED448 \<or> the crv = 0))"

definition wolfCose_AlgCheckCrv :: "build \<Rightarrow> i32 \<Rightarrow> i32 \<Rightarrow> rc" where
  "wolfCose_AlgCheckCrv b alg crv =
     (case wolfCose_AlgToCrv b alg (Some 0) of (ret, expectedCrv) \<Rightarrow>
        if ret = WOLFCOSE_SUCCESS \<and> the expectedCrv \<noteq> 0 \<and> crv \<noteq> the expectedCrv
        then WOLFCOSE_E_COSE_BAD_ALG else ret)"

definition wolfCose_CrvKeySize :: "i32 \<Rightarrow> size option \<Rightarrow> rc \<times> size option" where
  "wolfCose_CrvKeySize crv keySz = lookup_out keySz
     (if crv = WOLFCOSE_CRV_P256 then Some 32
      else if crv = WOLFCOSE_CRV_P384 then Some 48
      else if crv = WOLFCOSE_CRV_P521 then Some 66
      else if crv = WOLFCOSE_CRV_ED25519 then Some 32
      else if crv = WOLFCOSE_CRV_ED448 then Some 57
      else None)"

definition wolfCose_CrvToWcCurve :: "i32 \<Rightarrow> ecc_curve option \<Rightarrow> rc \<times> ecc_curve option" where
  "wolfCose_CrvToWcCurve crv wcCrv = lookup_out wcCrv
     (if crv = WOLFCOSE_CRV_P256 then Some ECC_SECP256R1
      else if crv = WOLFCOSE_CRV_P384 then Some ECC_SECP384R1
      else if crv = WOLFCOSE_CRV_P521 then Some ECC_SECP521R1
      else None)"

text \<open>
  An attached ECC key is seen through wolfCrypt: \<open>wc_ecc_size\<close>, whether \<open>dp\<close> is set, the field
  \<open>idx\<close>, and the two curve lookups. The handle stands for the key object itself.
\<close>

record ecc_view =
  ecc_handle :: nat
  ecc_size :: int
  ecc_has_dp :: bool
  ecc_idx :: int
  ecc_curve_of_idx :: ecc_curve
  ecc_curve_of_dp :: ecc_curve

definition wolfCose_EccKeyCheckCurve :: "i32 \<Rightarrow> ecc_view option \<Rightarrow> rc" where
  "wolfCose_EccKeyCheckCurve crv eccKey =
     (case eccKey of None \<Rightarrow> WOLFCOSE_E_INVALID_ARG | Some k \<Rightarrow>
        (case wolfCose_CrvToWcCurve crv (Some ECC_CURVE_INVALID) of (ret, expectedCrv) \<Rightarrow>
           if ret \<noteq> WOLFCOSE_SUCCESS then ret
           else (case wolfCose_CrvKeySize crv (Some 0) of (ret, expectedSz) \<Rightarrow>
             if ret \<noteq> WOLFCOSE_SUCCESS then ret
             else let actualSz = ecc_size k
                  in if actualSz \<noteq> 0 \<and> (actualSz < 0 \<or> nat actualSz \<noteq> the expectedSz)
                     then WOLFCOSE_E_COSE_BAD_ALG
                     else if actualSz \<noteq> 0 \<and> ecc_has_dp k then
                       let byIdx = (if ecc_idx k \<ge> 0 then ecc_curve_of_idx k else ECC_CURVE_INVALID);
                           actualCrv = (if byIdx = ECC_CURVE_INVALID then ecc_curve_of_dp k else byIdx)
                       in if actualCrv = ECC_CURVE_INVALID \<or> actualCrv \<noteq> the expectedCrv
                          then WOLFCOSE_E_COSE_BAD_ALG else WOLFCOSE_SUCCESS
                     else WOLFCOSE_SUCCESS)))"

section \<open>AEAD\<close>

definition is_gcm :: "i32 \<Rightarrow> bool" where
  "is_gcm alg \<longleftrightarrow> alg \<in> {WOLFCOSE_ALG_A128GCM, WOLFCOSE_ALG_A192GCM, WOLFCOSE_ALG_A256GCM}"

definition wolfCose_AeadKeyLen :: "build \<Rightarrow> i32 \<Rightarrow> size option \<Rightarrow> rc \<times> size option" where
  "wolfCose_AeadKeyLen b alg keyLen = lookup_out keyLen
     (if have_aesgcm b \<and> alg = WOLFCOSE_ALG_A128GCM then Some 16
      else if have_aesgcm b \<and> alg = WOLFCOSE_ALG_A192GCM then Some 24
      else if have_aesgcm b \<and> alg = WOLFCOSE_ALG_A256GCM then Some 32
      else if have_chacha20 b \<and> alg = WOLFCOSE_ALG_CHACHA20_POLY1305 then Some WOLFCOSE_CHACHA_KEY_SZ
      else if have_aesccm b \<and> (alg = WOLFCOSE_ALG_AES_CCM_16_64_128 \<or> alg = WOLFCOSE_ALG_AES_CCM_64_64_128 \<or>
        alg = WOLFCOSE_ALG_AES_CCM_16_128_128 \<or> alg = WOLFCOSE_ALG_AES_CCM_64_128_128) then Some 16
      else if have_aesccm b \<and> (alg = WOLFCOSE_ALG_AES_CCM_16_64_256 \<or> alg = WOLFCOSE_ALG_AES_CCM_64_64_256 \<or>
        alg = WOLFCOSE_ALG_AES_CCM_16_128_256 \<or> alg = WOLFCOSE_ALG_AES_CCM_64_128_256) then Some 32
      else None)"

definition wolfCose_AeadNonceLen :: "build \<Rightarrow> i32 \<Rightarrow> size option \<Rightarrow> rc \<times> size option" where
  "wolfCose_AeadNonceLen b alg nonceLen = lookup_out nonceLen
     (if have_aesgcm b \<and> is_gcm alg then Some WOLFCOSE_AES_GCM_NONCE_SZ
      else if have_chacha20 b \<and> alg = WOLFCOSE_ALG_CHACHA20_POLY1305 then Some WOLFCOSE_CHACHA_NONCE_SZ
      else if have_aesccm b \<and> (alg = WOLFCOSE_ALG_AES_CCM_16_64_128 \<or> alg = WOLFCOSE_ALG_AES_CCM_16_64_256 \<or>
        alg = WOLFCOSE_ALG_AES_CCM_16_128_128 \<or> alg = WOLFCOSE_ALG_AES_CCM_16_128_256) then Some 13
      else if have_aesccm b \<and> (alg = WOLFCOSE_ALG_AES_CCM_64_64_128 \<or> alg = WOLFCOSE_ALG_AES_CCM_64_64_256 \<or>
        alg = WOLFCOSE_ALG_AES_CCM_64_128_128 \<or> alg = WOLFCOSE_ALG_AES_CCM_64_128_256) then Some 7
      else None)"

definition wolfCose_AeadTagLen :: "build \<Rightarrow> i32 \<Rightarrow> size option \<Rightarrow> rc \<times> size option" where
  "wolfCose_AeadTagLen b alg tagLen = lookup_out tagLen
     (if have_aesgcm b \<and> is_gcm alg then Some WOLFCOSE_AES_GCM_TAG_SZ
      else if have_chacha20 b \<and> alg = WOLFCOSE_ALG_CHACHA20_POLY1305 then Some WOLFCOSE_CHACHA_TAG_SZ
      else if have_aesccm b \<and> (alg = WOLFCOSE_ALG_AES_CCM_16_64_128 \<or> alg = WOLFCOSE_ALG_AES_CCM_16_64_256 \<or>
        alg = WOLFCOSE_ALG_AES_CCM_64_64_128 \<or> alg = WOLFCOSE_ALG_AES_CCM_64_64_256) then Some 8
      else if have_aesccm b \<and> (alg = WOLFCOSE_ALG_AES_CCM_16_128_128 \<or> alg = WOLFCOSE_ALG_AES_CCM_16_128_256 \<or>
        alg = WOLFCOSE_ALG_AES_CCM_64_128_128 \<or> alg = WOLFCOSE_ALG_AES_CCM_64_128_256) then Some 16
      else None)"

definition wolfCose_AeadCheckPayloadLen :: "i32 \<Rightarrow> size \<Rightarrow> rc" where
  "wolfCose_AeadCheckPayloadLen alg payloadLen =
     (if (alg = WOLFCOSE_ALG_AES_CCM_16_64_128 \<or> alg = WOLFCOSE_ALG_AES_CCM_16_64_256 \<or>
          alg = WOLFCOSE_ALG_AES_CCM_16_128_128 \<or> alg = WOLFCOSE_ALG_AES_CCM_16_128_256) \<and>
         payloadLen > 0xFFFF
      then WOLFCOSE_E_INVALID_ARG else WOLFCOSE_SUCCESS)"

section \<open>HMAC\<close>

definition wolfCose_HmacType :: "build \<Rightarrow> i32 \<Rightarrow> wc_HashType option \<Rightarrow> rc \<times> wc_HashType option" where
  "wolfCose_HmacType b alg hmacType = lookup_out hmacType
     (if have_hmac256 b \<and> alg = WOLFCOSE_ALG_HMAC_256_256 then Some WC_HASH_TYPE_SHA256
      else if have_hmac384 b \<and> alg = WOLFCOSE_ALG_HMAC_384_384 then Some WC_HASH_TYPE_SHA384
      else if have_hmac512 b \<and> alg = WOLFCOSE_ALG_HMAC_512_512 then Some WC_HASH_TYPE_SHA512
      else None)"

definition wolfCose_HmacCheckKeyLen :: "build \<Rightarrow> i32 \<Rightarrow> size \<Rightarrow> rc" where
  "wolfCose_HmacCheckKeyLen b alg keyLen =
     (let ret =
        (if allow_short_hmac_key b then WOLFCOSE_SUCCESS
         else case (if have_hmac256 b \<and> alg = WOLFCOSE_ALG_HMAC_256_256 then Some 32
                    else if have_hmac384 b \<and> alg = WOLFCOSE_ALG_HMAC_384_384 then Some 48
                    else if have_hmac512 b \<and> alg = WOLFCOSE_ALG_HMAC_512_512 then Some 64
                    else None) of
                None \<Rightarrow> WOLFCOSE_E_COSE_BAD_ALG
              | Some minLen \<Rightarrow> if keyLen < minLen then WOLFCOSE_E_COSE_KEY_TYPE else WOLFCOSE_SUCCESS)
      in if ret = WOLFCOSE_SUCCESS \<and> keyLen > 0xFFFFFFFF then WOLFCOSE_E_COSE_KEY_TYPE else ret)"

definition wolfCose_LenFitsWord32 :: "size \<Rightarrow> bool" where
  "wolfCose_LenFitsWord32 n \<longleftrightarrow> \<not> n > 0xFFFFFFFF"

definition wolfCose_HashToMgf :: "build \<Rightarrow> wc_HashType \<Rightarrow> wc_mgf option \<Rightarrow> rc \<times> wc_mgf option" where
  "wolfCose_HashToMgf b hashType mgf = lookup_out mgf
     (if hashType = WC_HASH_TYPE_SHA256 then Some WC_MGF1SHA256
      else if have_ps384 b \<and> hashType = WC_HASH_TYPE_SHA384 then Some WC_MGF1SHA384
      else if have_ps512 b \<and> hashType = WC_HASH_TYPE_SHA512 then Some WC_MGF1SHA512
      else None)"

section \<open>Keys\<close>

text \<open>
  An attached RSA key is seen through wolfCrypt: \<open>wc_RsaEncryptSize\<close>, whether it is bound to a
  device, and what exporting the modulus into a buffer of 256 bytes gives (\<open>None\<close>: the call fails).
\<close>

record rsa_view =
  rsa_handle :: nat
  rsa_size :: int
  rsa_opaque :: bool
  rsa_modulus :: "(u8 list \<times> u32) option"

text \<open>An attached ML-DSA key with its security level, and an attached LMS key with its state.\<close>

record mldsa_view =
  mldsa_handle :: nat
  mldsa_level :: u8

datatype wc_lms_state = WC_LMS_STATE_OK | WC_LMS_STATE_NOSIGS | WC_LMS_STATE_BAD | WC_LMS_STATE_VERIFYONLY | WC_LMS_STATE_OTHER

record lms_view =
  lms_handle :: nat
  lms_state :: wc_lms_state

text \<open>
  A signing callback with its context: on the algorithm, the bytes to be signed and the buffer it is
  offered, it returns a code, the buffer as it left it, and \<open>*sigLen\<close>.
\<close>

type_synonym sign_cb = "i32 \<Rightarrow> u8 list \<Rightarrow> u8 list \<Rightarrow> int \<times> u8 list \<times> size"

text \<open>
  \<open>WOLFCOSE_KEY\<close>, as far as the modelled code reads it. The members of the union \<open>key\<close> are fields
  of their own: the code reads one only under the key type or attachment tag that goes with it.
\<close>

record cose_key =
  key_kty :: i32
  key_alg :: i32
  key_crv :: i32
  key_kid :: cptr
  key_kidLen :: size
  key_ecc :: "ecc_view option"
  key_ed25519 :: "nat option"
  key_ed448 :: "nat option"
  key_rsa :: "rsa_view option"
  key_mldsa :: "mldsa_view option"
  key_lms :: "lms_view option"
  key_symm :: cptr
  key_symmLen :: size
  key_hasPrivate :: bool
  key_attachedType :: u8
  key_signCb :: "sign_cb option"
  key_mldsaSeed :: cptr
  key_mldsaSeedLen :: size

definition modulus_seen :: "rsa_view \<Rightarrow> bool" where
  "modulus_seen k = (case rsa_modulus k of None \<Rightarrow> False
     | Some (modulus, n) \<Rightarrow> unat n > WOLFCOSE_RSA_PSS_MIN_SZ \<or>
         list_ex (\<lambda>i. modulus ! i \<noteq> 0) [0..<unat n])"

definition wolfCose_RsaPssCheckKey :: "cose_key option \<Rightarrow> size option \<Rightarrow> rc \<times> size option" where
  "wolfCose_RsaPssCheckKey key modulusLen =
     (case key of None \<Rightarrow> (WOLFCOSE_E_INVALID_ARG, modulusLen) | Some key \<Rightarrow>
        if key_kty key \<noteq> WOLFCOSE_KTY_RSA \<or> key_attachedType key \<noteq> WOLFCOSE_ATT_RSA
        then (WOLFCOSE_E_COSE_KEY_TYPE, modulusLen)
        else (case key_rsa key of None \<Rightarrow> (WOLFCOSE_E_COSE_KEY_TYPE, modulusLen) | Some k \<Rightarrow>
          let modulusSz = rsa_size k;
              ret = (if modulusSz < int WOLFCOSE_RSA_PSS_MIN_SZ then WOLFCOSE_E_COSE_KEY_TYPE
                else if modulusSz = int WOLFCOSE_RSA_PSS_MIN_SZ then
                  (if modulus_seen k
                   then (case the (rsa_modulus k) of (modulus, n) \<Rightarrow>
                     if unat n \<noteq> WOLFCOSE_RSA_PSS_MIN_SZ \<or> modulus ! 0 AND 0x80 = 0
                     then WOLFCOSE_E_COSE_KEY_TYPE else WOLFCOSE_SUCCESS)
                   else if \<not> rsa_opaque k then WOLFCOSE_E_COSE_KEY_TYPE
                   else WOLFCOSE_SUCCESS)
                else WOLFCOSE_SUCCESS)
          in (ret, if ret = WOLFCOSE_SUCCESS then map_option (\<lambda>_. nat modulusSz) modulusLen else modulusLen)))"

section \<open>Properties of the tables\<close>

lemma mult_2_numeral: "2 * (numeral n :: nat) = numeral (num.Bit0 n)"
  by simp

text \<open>The signature tables agree with each other: an algorithm with a fixed curve has signatures of
twice the curve's key size, the ECDSA and EdDSA families are disjoint and together are the algorithms
with a curve entry, and without the deprecated gate the polymorphic identifiers have no entry in any
signature table.\<close>

lemma signature_tables:
  "(\<forall>crv. wolfCose_AlgToCrv b alg (Some 0) = (WOLFCOSE_SUCCESS, Some crv) \<and> crv \<noteq> 0 \<longrightarrow>
      (\<exists>n. wolfCose_CrvKeySize crv (Some 0) = (WOLFCOSE_SUCCESS, Some n) \<and>
         wolfCose_SigSize b alg (Some 0) = (WOLFCOSE_SUCCESS, Some (2 * n)))) \<and>
   \<not> (wolfCose_AlgIsEcdsa b alg \<and> wolfCose_AlgIsEddsa b alg) \<and>
   (wolfCose_AlgIsEcdsa b alg \<or> wolfCose_AlgIsEddsa b alg \<longleftrightarrow>
      fst (wolfCose_AlgToCrv b alg (Some 0)) = WOLFCOSE_SUCCESS) \<and>
   (\<not> have_deprecated_algs b \<and>
      alg \<in> {WOLFCOSE_ALG_ES256, WOLFCOSE_ALG_ES384, WOLFCOSE_ALG_ES512, WOLFCOSE_ALG_EDDSA} \<longrightarrow>
      fst (wolfCose_AlgToCrv b alg (Some 0)) = WOLFCOSE_E_COSE_BAD_ALG \<and>
      fst (wolfCose_SigSize b alg (Some 0)) = WOLFCOSE_E_COSE_BAD_ALG \<and>
      fst (wolfCose_AlgToHashType b alg (Some WC_HASH_TYPE_NONE)) = WOLFCOSE_E_COSE_BAD_ALG)"
  (is "?sizes \<and> ?disj \<and> ?fam \<and> ?depr")
proof (intro conjI)
  show ?sizes
    by (auto simp: wolfCose_AlgToCrv_def wolfCose_SigSize_def wolfCose_CrvKeySize_def alg_is_es_def)
  show ?disj
    by (auto simp: wolfCose_AlgIsEcdsa_def wolfCose_AlgIsEddsa_def)
  show ?fam
    by (auto simp: wolfCose_AlgIsEcdsa_def wolfCose_AlgIsEddsa_def wolfCose_AlgToCrv_def alg_is_es_def
        have_ecdsa_def)
  show ?depr
    by (auto simp: wolfCose_AlgToCrv_def wolfCose_SigSize_def wolfCose_AlgToHashType_def alg_is_es_def)
qed

lemma signature_tables_witness:
  "\<exists>n. wolfCose_CrvKeySize WOLFCOSE_CRV_ED448 (Some 0) = (WOLFCOSE_SUCCESS, Some n) \<and>
     wolfCose_SigSize full_build WOLFCOSE_ALG_ED448 (Some 0) = (WOLFCOSE_SUCCESS, Some (2 * n))"
proof -
  have "wolfCose_AlgToCrv full_build WOLFCOSE_ALG_ED448 (Some 0) = (WOLFCOSE_SUCCESS, Some WOLFCOSE_CRV_ED448)"
    by (simp add: wolfCose_AlgToCrv_def alg_is_es_def full_build_def)
  then show ?thesis using signature_tables [of full_build WOLFCOSE_ALG_ED448] by auto
qed

text \<open>The AEAD tables have entries for the same algorithms, every tag is 8 or 16 bytes, and the
payload check refuses exactly the payloads an AES-CCM counter of \<open>15 - nonce\<close> bytes cannot count
(for the eight-byte counter every 64-bit length is accepted).\<close>

theorem aead_tables:
  "(fst (wolfCose_AeadKeyLen b alg (Some 0)) = WOLFCOSE_SUCCESS \<longleftrightarrow>
      fst (wolfCose_AeadNonceLen b alg (Some 0)) = WOLFCOSE_SUCCESS) \<and>
   (fst (wolfCose_AeadNonceLen b alg (Some 0)) = WOLFCOSE_SUCCESS \<longleftrightarrow>
      fst (wolfCose_AeadTagLen b alg (Some 0)) = WOLFCOSE_SUCCESS) \<and>
   (\<forall>t. wolfCose_AeadTagLen b alg (Some 0) = (WOLFCOSE_SUCCESS, Some t) \<longrightarrow> t = 8 \<or> t = 16) \<and>
   (\<forall>n len. wolfCose_AeadNonceLen b alg (Some 0) = (WOLFCOSE_SUCCESS, Some n) \<and> n \<noteq> 12 \<and> len < 2 ^ 64 \<longrightarrow>
      (wolfCose_AeadCheckPayloadLen alg len = WOLFCOSE_SUCCESS \<longleftrightarrow> len < 256 ^ (15 - n)))"
  (is "?a \<and> ?b \<and> ?c \<and> ?d")
proof (intro conjI)
  show ?a by (auto simp: wolfCose_AeadKeyLen_def wolfCose_AeadNonceLen_def is_gcm_def)
  show ?b by (auto simp: wolfCose_AeadTagLen_def wolfCose_AeadNonceLen_def is_gcm_def)
  show ?c by (simp add: wolfCose_AeadTagLen_def)
  show ?d
  proof (intro allI impI)
    fix n len :: nat
    assume h: "wolfCose_AeadNonceLen b alg (Some 0) = (WOLFCOSE_SUCCESS, Some n) \<and> n \<noteq> 12 \<and> len < 2 ^ 64"
    define ccm16 where "ccm16 \<longleftrightarrow> alg = WOLFCOSE_ALG_AES_CCM_16_64_128 \<or> alg = WOLFCOSE_ALG_AES_CCM_16_64_256 \<or>
        alg = WOLFCOSE_ALG_AES_CCM_16_128_128 \<or> alg = WOLFCOSE_ALG_AES_CCM_16_128_256"
    have "ccm16 \<and> n = 13 \<or> \<not> ccm16 \<and> n = 7"
      using h by (auto simp: wolfCose_AeadNonceLen_def ccm16_def split: if_splits)
    then show "wolfCose_AeadCheckPayloadLen alg len = WOLFCOSE_SUCCESS \<longleftrightarrow> len < 256 ^ (15 - n)"
      using h by (auto simp: wolfCose_AeadCheckPayloadLen_def ccm16_def)
  qed
qed

lemma aead_tables_witness:
  "wolfCose_AeadCheckPayloadLen WOLFCOSE_ALG_AES_CCM_16_64_128 65536 \<noteq> WOLFCOSE_SUCCESS"
proof -
  have "wolfCose_AeadNonceLen full_build WOLFCOSE_ALG_AES_CCM_16_64_128 (Some 0) = (WOLFCOSE_SUCCESS, Some 13)"
    by (simp add: wolfCose_AeadNonceLen_def is_gcm_def full_build_def)
  then show ?thesis using aead_tables [of full_build WOLFCOSE_ALG_AES_CCM_16_64_128] by auto
qed

section \<open>RSA-PSS keys\<close>

definition rsa_hidden :: "rsa_view \<Rightarrow> bool" where
  "rsa_hidden v \<longleftrightarrow> (case rsa_modulus v of None \<Rightarrow> True
     | Some (m, l) \<Rightarrow> unat l \<le> WOLFCOSE_RSA_PSS_MIN_SZ \<and> unat l \<le> length m \<and> (\<forall>x \<in> set (take (unat l) m). x = 0))"

text \<open>
  What wolfCrypt reports of a key whose modulus is \<open>n\<close>: its length in bytes, and either the modulus in full or
  nothing of it. The second is how a key looks whose modulus lives in hardware: an export that fails or is all zero.
\<close>

definition rsa_reports :: "rsa_view \<Rightarrow> nat \<Rightarrow> bool" where
  "rsa_reports v n \<longleftrightarrow> (\<exists>k. 0 < k \<and> 256 ^ (k - 1) \<le> n \<and> n < 256 ^ k \<and> rsa_size v = int k \<and>
     (k = WOLFCOSE_RSA_PSS_MIN_SZ \<longrightarrow> rsa_modulus v = Some (be_bytes k n, of_nat k) \<or> rsa_hidden v))"

lemma be_bytes_first: "be_bytes (Suc m) n ! 0 = of_nat (n div 256 ^ m)"
proof (induction m arbitrary: n)
  case (Suc m)
  have "be_bytes (Suc (Suc m)) n ! 0 = be_bytes (Suc m) (n div 256) ! 0"
    by (subst be_bytes.simps(2)) (simp add: nth_append del: be_bytes.simps)
  then show ?case using Suc [of "n div 256"] by (simp only: div_mult2_eq power_Suc)
qed simp

lemma be_val_zeros: "\<forall>x\<in>set bs. x = 0 \<Longrightarrow> be_val bs = 0"
proof (induction bs rule: rev_induct)
  case (snoc x bs) then show ?case by (simp add: be_val_def)
qed (simp add: be_val_def)

lemma high_bit: "x < 256 \<Longrightarrow> (of_nat x :: u8) AND 0x80 \<noteq> 0 \<longleftrightarrow> 128 \<le> x"
proof -
  assume x: "x < 256"
  have "(of_nat x :: u8) AND 0x80 \<noteq> 0 \<longleftrightarrow> bit (of_nat x :: u8) 7"
    using and_exp_eq_0_iff_not_bit [of "of_nat x :: u8" 7] by simp
  also have "\<dots> \<longleftrightarrow> bit (unat (of_nat x :: u8)) 7" by (simp add: bit_unsigned_iff)
  also have "\<dots> \<longleftrightarrow> odd (x div 2 ^ 7)" using x by (simp add: unat_of_nat_u8 bit_iff_odd)
  also have "\<dots> \<longleftrightarrow> 128 \<le> x"
  proof -
    have "x div 128 < 2" using x by (simp add: less_mult_imp_div_less)
    then show ?thesis by (cases "x div 128 = 0") (auto simp: div_eq_0_iff)
  qed
  finally show ?thesis .
qed

lemma modulus_seen_shown:
  assumes "rsa_modulus v = Some (be_bytes k n, of_nat k)" "0 < n" "n < 256 ^ k" "k = WOLFCOSE_RSA_PSS_MIN_SZ"
  shows "modulus_seen v"
proof -
  have k: "unat (of_nat k :: u32) = k" using assms(4) by (simp add: unat_of_nat)
  have "\<exists>i<k. be_bytes k n ! i \<noteq> 0"
  proof (rule ccontr)
    assume "\<not> (\<exists>i<k. be_bytes k n ! i \<noteq> 0)"
    then have "\<forall>x\<in>set (be_bytes k n). x = 0" by (auto simp: in_set_conv_nth)
    then have "be_val (be_bytes k n) = 0" by (rule be_val_zeros)
    then show False using assms(2,3) by (simp add: be_val_be_bytes)
  qed
  then show ?thesis unfolding modulus_seen_def assms(1) by (auto simp: k list_ex_iff)
qed

lemma modulus_hidden: "rsa_hidden v \<Longrightarrow> \<not> modulus_seen v"
proof (cases "rsa_modulus v")
  case (Some p)
  moreover assume h: "rsa_hidden v"
  ultimately obtain m l where m: "rsa_modulus v = Some (m, l)" "unat l \<le> WOLFCOSE_RSA_PSS_MIN_SZ" "unat l \<le> length m"
    "\<forall>x\<in>set (take (unat l) m). x = 0" by (cases p) (auto simp: rsa_hidden_def)
  have "m ! i = 0" if "i < unat l" for i
  proof -
    have "take (unat l) m ! i \<in> set (take (unat l) m)" using m(3) that by (intro nth_mem) simp
    then show ?thesis using m(4) that by simp
  qed
  then show ?thesis using m(1,2) by (simp add: modulus_seen_def list_ex_iff)
qed (simp add: modulus_seen_def)

lemma rsa_size_check:
  assumes "key_kty key = WOLFCOSE_KTY_RSA" "key_attachedType key = WOLFCOSE_ATT_RSA"
    and "key_rsa key = Some v" "rsa_reports v n"
  shows "wolfCose_RsaPssCheckKey (Some key) (Some out) =
    (if (if rsa_size v = 256 \<and> rsa_hidden v then rsa_opaque v else 2 ^ 2047 \<le> n) then (WOLFCOSE_SUCCESS, Some (nat (rsa_size v)))
     else (WOLFCOSE_E_COSE_KEY_TYPE, Some out))"
proof -
  obtain k where k: "0 < k" "256 ^ (k - 1) \<le> n" "n < 256 ^ k" "rsa_size v = int k"
    "k = WOLFCOSE_RSA_PSS_MIN_SZ \<longrightarrow> rsa_modulus v = Some (be_bytes k n, of_nat k) \<or> rsa_hidden v"
    using assms(4) unfolding rsa_reports_def by blast
  have pow: "(256 :: nat) ^ j = 2 ^ (8 * j)" for j by (simp add: power_mult)
  note run = wolfCose_RsaPssCheckKey_def assms(1-3) Let_def k(4)
  define P where "P = (2 :: nat) ^ 2047"
  consider "k < 256" | "k = 256" "rsa_hidden v" | "k = 256" "\<not> rsa_hidden v" | "256 < k" by linarith
  then have "wolfCose_RsaPssCheckKey (Some key) (Some out) =
    (if (if rsa_size v = 256 \<and> rsa_hidden v then rsa_opaque v else P \<le> n) then (WOLFCOSE_SUCCESS, Some (nat (rsa_size v)))
     else (WOLFCOSE_E_COSE_KEY_TYPE, Some out))"
  proof cases
    case 1
    then have "8 * k \<le> 2047" by linarith
    then have "256 ^ k \<le> P" unfolding pow P_def by (rule power_increasing) (rule one_le_numeral)
    then have "\<not> P \<le> n" using k(3) by linarith
    then show ?thesis using 1 by (simp add: run)
  next
    case 4
    then have "2047 \<le> 8 * (k - 1)" by linarith
    then have "P \<le> 256 ^ (k - 1)" unfolding pow P_def by (rule power_increasing) (rule one_le_numeral)
    then have "P \<le> n" using k(2) by linarith
    then show ?thesis using 4 by (simp add: run)
  next
    case 2
    then show ?thesis using modulus_hidden [OF 2(2)] by (simp add: run)
  next
    case 3
    have n0: "0 < n" using k(2) by (metis gr0I le_zero_eq power_not_zero zero_neq_numeral)
    have m: "rsa_modulus v = Some (be_bytes k n, of_nat k)" using k(5) 3 unfolding WOLFCOSE_RSA_PSS_MIN_SZ_def by blast
    have seen: "modulus_seen v" by (rule modulus_seen_shown [OF m n0 k(3)]) (simp add: 3)
    have u: "unat (of_nat k :: u32) = 256" using 3(1) by (simp add: unat_of_nat)
    let ?d = "n div 256 ^ (k - 1)"
    have "n < 256 * 256 ^ (k - 1)" using k(1,3) by (cases k) simp_all
    then have d: "?d < 256" by (simp add: less_mult_imp_div_less)
    have "be_bytes k n ! 0 = of_nat ?d" using be_bytes_first [of "k - 1" n] k(1) by simp
    then have "be_bytes k n ! 0 AND 0x80 \<noteq> 0 \<longleftrightarrow> 128 \<le> ?d" using high_bit [OF d] by simp
    also have "\<dots> \<longleftrightarrow> 128 * 256 ^ (k - 1) \<le> n"
      by (subst mult.commute) (simp add: less_eq_div_iff_mult_less_eq mult.commute)
    also have "128 * 256 ^ (k - 1) = P"
    proof -
      have "(128 :: nat) * 256 ^ (k - 1) = 2 ^ 7 * 2 ^ (8 * (k - 1))" unfolding pow by simp
      also have "\<dots> = 2 ^ (7 + 8 * (k - 1))" by (simp only: power_add)
      also have "7 + 8 * (k - 1) = 2047" using 3(1) by simp
      finally show ?thesis unfolding P_def .
    qed
    finally have top: "be_bytes k n ! 0 AND 0x80 = 0 \<longleftrightarrow> \<not> P \<le> n" by blast
    have "wolfCose_RsaPssCheckKey (Some key) (Some out) =
      (if be_bytes k n ! 0 AND 0x80 = 0 then (WOLFCOSE_E_COSE_KEY_TYPE, Some out)
       else (WOLFCOSE_SUCCESS, Some k))"
      using 3(1) by (simp add: run seen m u del: be_bytes_numeral be_bytes.simps)
    then show ?thesis unfolding top k(4) using 3(2) by simp
  qed
  then show ?thesis unfolding P_def .
qed

text \<open>C38: which keys are accepted for RSA-PSS. A key of another type, or with another attachment or none, is refused. An
attached RSA key is accepted exactly when its modulus has at least 2048 bits (RFC 8230), although wolfCrypt
reports only a size in bytes: at 256 bytes the top bit is looked at. When the modulus of a key of 256 bytes is
not available, exactly the keys whose modulus is in hardware are accepted. On acceptance the length of the
modulus is reported, on a refusal nothing.\<close>

theorem RsaPssCheckKey_iff:
  assumes "\<forall>v. key_rsa key = Some v \<longrightarrow> rsa_reports v n"
  shows "wolfCose_RsaPssCheckKey (Some key) (Some out) =
    (if key_kty key = WOLFCOSE_KTY_RSA \<and> key_attachedType key = WOLFCOSE_ATT_RSA \<and>
        (\<exists>v. key_rsa key = Some v \<and> (if rsa_size v = 256 \<and> rsa_hidden v then rsa_opaque v else 2 ^ 2047 \<le> n))
     then (WOLFCOSE_SUCCESS, Some (nat (rsa_size (the (key_rsa key)))))
     else (WOLFCOSE_E_COSE_KEY_TYPE, Some out))"
proof (cases "key_kty key = WOLFCOSE_KTY_RSA \<and> key_attachedType key = WOLFCOSE_ATT_RSA \<and> key_rsa key \<noteq> None")
  case True
  then obtain v where v: "key_rsa key = Some v" by blast
  show ?thesis
    using rsa_size_check [OF _ _ v, of n out] assms v True by (simp only: option.sel simp_thms option.inject ex_simps if_True)
next
  case False
  then show ?thesis by (auto simp: wolfCose_RsaPssCheckKey_def)
qed

definition rsa_example :: "rsa_view \<Rightarrow> cose_key" where
  "rsa_example v = \<lparr> key_kty = 3, key_alg = 0, key_crv = 0, key_kid = None, key_kidLen = 0, key_ecc = None, key_ed25519 = None, key_ed448 = None,
     key_rsa = Some v, key_mldsa = None, key_lms = None,
     key_symm = None, key_symmLen = 0, key_hasPrivate = False, key_attachedType = 4, key_signCb = None,
     key_mldsaSeed = None, key_mldsaSeedLen = 0 \<rparr>"

abbreviation rsa_256 :: "nat \<Rightarrow> bool \<Rightarrow> rsa_view" where
  "rsa_256 n opaque \<equiv> \<lparr> rsa_handle = 0, rsa_size = 256, rsa_opaque = opaque,
     rsa_modulus = (if opaque then None else Some (be_bytes 256 n, 256)) \<rparr>"

lemma rsa_256_reports:
  assumes "256 ^ 255 \<le> n" "n < 256 ^ 256"
  shows "rsa_reports (rsa_256 n opaque) n" "rsa_hidden (rsa_256 n opaque) \<longleftrightarrow> opaque"
proof -
  define B where "B = be_bytes 256 n"
  have "0 < (256 :: nat) \<and> 256 ^ (256 - 1) \<le> n \<and> n < 256 ^ 256 \<and> rsa_size (rsa_256 n opaque) = int 256 \<and>
      (256 = WOLFCOSE_RSA_PSS_MIN_SZ \<longrightarrow> rsa_modulus (rsa_256 n opaque) = Some (be_bytes 256 n, of_nat 256) \<or> rsa_hidden (rsa_256 n opaque))"
  proof (intro conjI impI)
    have "(256 :: nat) - 1 = 255" by simp
    then show "256 ^ (256 - 1) \<le> n" using assms(1) by (simp only:)
    show "n < 256 ^ 256" by (rule assms(2))
    show "rsa_modulus (rsa_256 n opaque) = Some (be_bytes 256 n, of_nat 256) \<or> rsa_hidden (rsa_256 n opaque)"
      unfolding B_def [symmetric] by (cases opaque) (simp_all add: rsa_hidden_def)
  qed simp_all
  then show "rsa_reports (rsa_256 n opaque) n" unfolding rsa_reports_def by (intro exI [of _ 256])
  have "n \<noteq> 0"
  proof
    assume "n = 0"
    then have "(256 :: nat) ^ 255 \<le> 0" using assms(1) by simp
    moreover have "(0 :: nat) < 256 ^ 255" by (rule zero_less_power) simp
    ultimately show False by linarith
  qed
  then have n0: "0 < n" by simp
  have B: "rsa_modulus (rsa_256 n False) = Some (be_bytes 256 n, of_nat 256)" unfolding B_def [symmetric] by simp
  have "modulus_seen (rsa_256 n False)" by (rule modulus_seen_shown [OF B n0 assms(2)]) simp
  then have "\<not> rsa_hidden (rsa_256 n False)" using modulus_hidden by blast
  moreover have "rsa_hidden (rsa_256 n True)" by (simp add: rsa_hidden_def)
  ultimately show "rsa_hidden (rsa_256 n opaque) \<longleftrightarrow> opaque" by (cases opaque) (simp_all only: simp_thms)
qed

text \<open>Moduli of 256 bytes: with 2048 bits, with 2047 bits, and one of 2047 bits in hardware.\<close>

lemma RsaPssCheckKey_iff_witness:
  "wolfCose_RsaPssCheckKey (Some (rsa_example (rsa_256 (2 ^ 2047) False))) (Some 0) = (WOLFCOSE_SUCCESS, Some 256) \<and>
   wolfCose_RsaPssCheckKey (Some (rsa_example (rsa_256 (2 ^ 2046) False))) (Some 0) = (WOLFCOSE_E_COSE_KEY_TYPE, Some 0) \<and>
   wolfCose_RsaPssCheckKey (Some (rsa_example (rsa_256 (2 ^ 2046) True))) (Some 0) = (WOLFCOSE_SUCCESS, Some 256)"
proof -
  have pow: "(256 :: nat) ^ j = 2 ^ (8 * j)" for j by (simp add: power_mult)
  have b: "256 ^ 255 \<le> (2 :: nat) ^ m" if "2040 \<le> m" for m
    unfolding pow by (rule power_increasing) (use that in simp_all)
  have b': "(2 :: nat) ^ m < 256 ^ 256" if "m < 2048" for m
    unfolding pow by (rule power_strict_increasing) (use that in simp_all)
  define P Q where "P = (2 :: nat) ^ 2047" and "Q = (2 :: nat) ^ 2046"
  have p: "256 ^ 255 \<le> P" "P < 256 ^ 256" unfolding P_def by (rule b, simp, rule b', simp)
  have q: "256 ^ 255 \<le> Q" "Q < 256 ^ 256" unfolding Q_def by (rule b, simp, rule b', simp)
  have l: "\<not> P \<le> Q" unfolding P_def Q_def not_le by (rule power_strict_increasing) simp_all
  have e: "key_kty (rsa_example v) = WOLFCOSE_KTY_RSA" "key_attachedType (rsa_example v) = WOLFCOSE_ATT_RSA" "key_rsa (rsa_example v) = Some v" for v
    by (simp_all add: rsa_example_def)
  have run: "wolfCose_RsaPssCheckKey (Some (rsa_example (rsa_256 n opaque))) (Some 0) =
      (if (if opaque then True else P \<le> n) then (WOLFCOSE_SUCCESS, Some 256) else (WOLFCOSE_E_COSE_KEY_TYPE, Some 0))"
    if "256 ^ 255 \<le> n" "n < 256 ^ 256" for n opaque
  proof -
    have "\<forall>v. key_rsa (rsa_example (rsa_256 n opaque)) = Some v \<longrightarrow> rsa_reports v n"
      using rsa_256_reports(1) [OF that] unfolding e(3) by blast
    note r = RsaPssCheckKey_iff [OF this, of 0, unfolded e P_def [symmetric]]
    have s: "rsa_size (rsa_256 n opaque) = 256" by simp
    have x: "(\<exists>v. Some (rsa_256 n opaque) = Some v \<and> X v) = X (rsa_256 n opaque)" for X by blast
    have i: "nat 256 = 256" by simp
    have o: "rsa_opaque (rsa_256 n opaque) = opaque" by simp
    show ?thesis unfolding r option.sel x s i o rsa_256_reports(2) [OF that] by (cases opaque) (simp_all only: simp_thms if_True if_False)
  qed
  have "wolfCose_RsaPssCheckKey (Some (rsa_example (rsa_256 P False))) (Some 0) = (WOLFCOSE_SUCCESS, Some 256) \<and>
      wolfCose_RsaPssCheckKey (Some (rsa_example (rsa_256 Q False))) (Some 0) = (WOLFCOSE_E_COSE_KEY_TYPE, Some 0) \<and>
      wolfCose_RsaPssCheckKey (Some (rsa_example (rsa_256 Q True))) (Some 0) = (WOLFCOSE_SUCCESS, Some 256)"
    unfolding run [OF p] run [OF q] using l by (simp only: if_True if_False order_refl simp_thms)
  then show ?thesis unfolding P_def Q_def .
qed

end
