(* ===== verification/Cose_Struct.thy ===== *)
theory Cose_Struct
  imports Cose_HdrSpec Cose_Alg
begin

text \<open>
  The byte strings that are signed, MACed or authenticated: the builders of
  \<open>src/wolfcose_struct.c\<close>, the context strings and the small helpers of \<open>src/wolfcose_util.c\<close>.
  The structures are shown to be injective in their components, so that one context's structure
  never stands for another's.
\<close>

section \<open>Context strings and helpers\<close>

definition WOLFCOSE_CTX_SIGNATURE1 :: "u8 list" where
  "WOLFCOSE_CTX_SIGNATURE1 = [0x53, 0x69, 0x67, 0x6E, 0x61, 0x74, 0x75, 0x72, 0x65, 0x31]"
definition WOLFCOSE_CTX_SIGNATURE :: "u8 list" where
  "WOLFCOSE_CTX_SIGNATURE = [0x53, 0x69, 0x67, 0x6E, 0x61, 0x74, 0x75, 0x72, 0x65]"
definition WOLFCOSE_CTX_MAC0 :: "u8 list" where
  "WOLFCOSE_CTX_MAC0 = [0x4D, 0x41, 0x43, 0x30]"
definition WOLFCOSE_CTX_MAC :: "u8 list" where
  "WOLFCOSE_CTX_MAC = [0x4D, 0x41, 0x43]"
definition WOLFCOSE_CTX_ENCRYPT0 :: "u8 list" where
  "WOLFCOSE_CTX_ENCRYPT0 = [0x45, 0x6E, 0x63, 0x72, 0x79, 0x70, 0x74, 0x30]"
definition WOLFCOSE_CTX_ENCRYPT :: "u8 list" where
  "WOLFCOSE_CTX_ENCRYPT = [0x45, 0x6E, 0x63, 0x72, 0x79, 0x70, 0x74]"

lemmas cose_contexts = WOLFCOSE_CTX_SIGNATURE1_def WOLFCOSE_CTX_SIGNATURE_def WOLFCOSE_CTX_MAC0_def
  WOLFCOSE_CTX_MAC_def WOLFCOSE_CTX_ENCRYPT0_def WOLFCOSE_CTX_ENCRYPT_def

text \<open>\<open>hdr_zero\<close> is the structure after \<open>XMEMSET(hdr, 0, sizeof(*hdr))\<close>.\<close>

definition hdr_zero :: cose_hdr where
  "hdr_zero = \<lparr> hdr_alg = 0, hdr_kid = None, hdr_kidLen = 0, hdr_iv = None, hdr_ivLen = 0,
     hdr_partialIv = None, hdr_partialIvLen = 0, hdr_contentType = 0, hdr_flags = 0 \<rparr>"

definition wolfCose_HdrClearOnFail :: "rc \<Rightarrow> cose_hdr option \<Rightarrow> cose_hdr option" where
  "wolfCose_HdrClearOnFail ret hdr =
     (if ret \<noteq> WOLFCOSE_SUCCESS \<and> hdr \<noteq> None then Some hdr_zero else hdr)"

text \<open>The loop accumulates the differences and has no exit before \<open>length\<close>.\<close>

definition wolfCose_ConstantCompare :: "u8 list \<Rightarrow> u8 list \<Rightarrow> u32 \<Rightarrow> i32" where
  "wolfCose_ConstantCompare a b len =
     foldl (\<lambda>result i. result OR (ucast (a ! i) XOR ucast (b ! i))) (0 :: u32) [0..<unat len]"

lemma fold_or_eq_0:
  "foldl (\<lambda>r i. r OR f i) (r0 :: 'a::len word) xs = 0 \<longleftrightarrow> r0 = 0 \<and> (\<forall>i\<in>set xs. f i = 0)"
  by (induction xs arbitrary: r0) (auto simp: or_eq_0)

lemma ConstantCompare_iff:
  assumes "unat n \<le> length a" "unat n \<le> length b"
  shows "wolfCose_ConstantCompare a b n = 0 \<longleftrightarrow> take (unat n) a = take (unat n) b"
  using assms
  by (auto simp: wolfCose_ConstantCompare_def fold_or_eq_0 xor_eq_0 ucast_u32_inj list_eq_iff_nth_eq)

section \<open>The builders\<close>

definition wolfCose_BuildToBeSignedMaced ::
  "cptr \<Rightarrow> size \<Rightarrow> cptr \<Rightarrow> size \<Rightarrow> cptr \<Rightarrow> size \<Rightarrow> cptr \<Rightarrow> size \<Rightarrow> cptr \<Rightarrow> size \<Rightarrow>
   cptr \<Rightarrow> size \<Rightarrow> size \<Rightarrow> rc \<times> cbor_ctx \<times> size" where
  "wolfCose_BuildToBeSignedMaced context contextLen bodyProtected bodyProtectedLen
       signProtected signProtectedLen extAad extAadLen payload payloadLen scratch scratchSz structLen =
     (let ctx = \<lparr> ctx_buf = scratch, ctx_cbuf = None, ctx_bufSz = scratchSz, ctx_idx = 0, ctx_fault = False \<rparr>
      in if context = None \<or> scratch = None then (WOLFCOSE_E_INVALID_ARG, ctx, structLen)
         else
           let arrayLen = (if signProtected \<noteq> None then 5 else 4);
               r = wc_CBOR_EncodeArrayStart ctx arrayLen;
               r = on_success r (\<lambda>ctx. wc_CBOR_EncodeTstr ctx context contextLen);
               r = on_success r (\<lambda>ctx. wc_CBOR_EncodeBstr ctx bodyProtected bodyProtectedLen);
               r = on_success r (\<lambda>ctx. if signProtected \<noteq> None
                     then wc_CBOR_EncodeBstr ctx signProtected signProtectedLen else (WOLFCOSE_SUCCESS, ctx));
               r = on_success r (\<lambda>ctx. wc_CBOR_EncodeBstr ctx extAad extAadLen);
               r = on_success r (\<lambda>ctx. wc_CBOR_EncodeBstr ctx payload payloadLen)
           in (fst r, snd r, if fst r = WOLFCOSE_SUCCESS then ctx_idx (snd r) else structLen))"

definition wolfCose_BuildEncStructure ::
  "cptr \<Rightarrow> size \<Rightarrow> cptr \<Rightarrow> size \<Rightarrow> cptr \<Rightarrow> size \<Rightarrow> cptr \<Rightarrow> size \<Rightarrow> size \<Rightarrow> rc \<times> cbor_ctx \<times> size" where
  "wolfCose_BuildEncStructure context contextLen bodyProtected bodyProtectedLen extAad extAadLen
       scratch scratchSz structLen =
     (let ctx = \<lparr> ctx_buf = scratch, ctx_cbuf = None, ctx_bufSz = scratchSz, ctx_idx = 0, ctx_fault = False \<rparr>
      in if context = None \<or> scratch = None then (WOLFCOSE_E_INVALID_ARG, ctx, structLen)
         else
           let r = wc_CBOR_EncodeArrayStart ctx 3;
               r = on_success r (\<lambda>ctx. wc_CBOR_EncodeTstr ctx context contextLen);
               r = on_success r (\<lambda>ctx. wc_CBOR_EncodeBstr ctx bodyProtected bodyProtectedLen);
               r = on_success r (\<lambda>ctx. wc_CBOR_EncodeBstr ctx extAad extAadLen)
           in (fst r, snd r, if fst r = WOLFCOSE_SUCCESS then ctx_idx (snd r) else structLen))"

section \<open>The structures of RFC 9052\<close>

definition str_bytes :: "nat \<Rightarrow> u8 list \<Rightarrow> u8 list" where
  "str_bytes mt s = cbor_head mt (length s) @ s"

text \<open>\<open>Sig_structure\<close> and \<open>MAC_structure\<close>; \<open>sign\<close> is present for COSE_Sign only.\<close>

definition tbs_bytes :: "u8 list \<Rightarrow> u8 list \<Rightarrow> u8 list option \<Rightarrow> u8 list \<Rightarrow> u8 list \<Rightarrow> u8 list" where
  "tbs_bytes context body sign ext payload =
     cbor_head 4 (if sign = None then 4 else 5) @ str_bytes 3 context @ str_bytes 2 body @
     (case sign of None \<Rightarrow> [] | Some s \<Rightarrow> str_bytes 2 s) @ str_bytes 2 ext @ str_bytes 2 payload"

definition enc_bytes :: "u8 list \<Rightarrow> u8 list \<Rightarrow> u8 list \<Rightarrow> u8 list" where
  "enc_bytes context body ext = cbor_head 4 3 @ str_bytes 3 context @ str_bytes 2 body @ str_bytes 2 ext"

lemma writer_str:
  "readable p n \<Longrightarrow> cbor_writer (\<lambda>c. wc_CBOR_EncodeBstr c p n) (str_bytes 2 (bytes_at p n))"
  "readable p n \<Longrightarrow> wolfCose_CBOR_IsUtf8 p n \<Longrightarrow>
     cbor_writer (\<lambda>c. wc_CBOR_EncodeTstr c p n) (str_bytes 3 (bytes_at p n))"
  using writer_bstr [of p n] writer_tstr [of p n] by (simp_all add: str_bytes_def)

text \<open>What a local cursor over a fresh buffer holds after a sequence of encoders.\<close>

definition fresh :: "u8 list \<Rightarrow> size \<Rightarrow> cbor_ctx" where
  "fresh m sz = \<lparr> ctx_buf = Some m, ctx_cbuf = None, ctx_bufSz = sz, ctx_idx = 0, ctx_fault = False \<rparr>"

lemma writer_fresh:
  assumes w: "cbor_writer f bs" and sz: "sz \<le> length m" and r: "f (fresh m sz) = (ret, c)"
  shows "\<not> ctx_fault c \<and>
    (if length bs \<le> sz then ret = WOLFCOSE_SUCCESS \<and> ctx_idx c = length bs \<and> ctx_buf c = Some (splice 0 bs m)
     else ret = WOLFCOSE_E_BUFFER_TOO_SMALL \<and> (\<exists>m'. ctx_buf c = Some m' \<and> length m' = length m \<and>
       drop sz m' = drop sz m))"
proof -
  have e: "enc_ctx (fresh m sz)" using sz by (simp add: enc_ctx_def fresh_def)
  show ?thesis
  proof (cases "length bs \<le> sz")
    case True
    then have "ret = WOLFCOSE_SUCCESS" "c = append_out (fresh m sz) bs"
      using cbor_writer.fits [OF w e] r by (simp_all add: fresh_def)
    then show ?thesis using True by (auto simp: append_out_def fresh_def)
  next
    case False
    then have "ret = WOLFCOSE_E_BUFFER_TOO_SMALL" "out_frame (fresh m sz) c"
      using cbor_writer.nofit [OF w e] r by (simp_all add: fresh_def)
    then show ?thesis using False by (auto simp: out_frame_def enc_ctx_def fresh_def)
  qed
qed

text \<open>The chains of encoder calls, as functions of the cursor.\<close>

definition tbs_writer ::
  "cptr \<Rightarrow> size \<Rightarrow> cptr \<Rightarrow> size \<Rightarrow> cptr \<Rightarrow> size \<Rightarrow> cptr \<Rightarrow> size \<Rightarrow> cptr \<Rightarrow> size \<Rightarrow> cbor_ctx \<Rightarrow> rc \<times> cbor_ctx" where
  "tbs_writer cx cxn bp bpn sp spn ea ean pl pln c =
     on_success (on_success (on_success (on_success (on_success
       (wc_CBOR_EncodeArrayStart c (if sp \<noteq> None then 5 else 4))
       (\<lambda>c. wc_CBOR_EncodeTstr c cx cxn)) (\<lambda>c. wc_CBOR_EncodeBstr c bp bpn))
       (\<lambda>c. if sp \<noteq> None then wc_CBOR_EncodeBstr c sp spn else (WOLFCOSE_SUCCESS, c)))
       (\<lambda>c. wc_CBOR_EncodeBstr c ea ean)) (\<lambda>c. wc_CBOR_EncodeBstr c pl pln)"

definition ptr_bytes :: "cptr \<Rightarrow> size \<Rightarrow> u8 list option" where
  "ptr_bytes p n = map_option (take n) p"

lemma tbs_writer_writes:
  assumes "readable cx cxn" "wolfCose_CBOR_IsUtf8 cx cxn" "readable bp bpn" "sp \<noteq> None \<longrightarrow> readable sp spn"
    "readable ea ean" "readable pl pln"
  shows "cbor_writer (tbs_writer cx cxn bp bpn sp spn ea ean pl pln)
    (tbs_bytes (bytes_at cx cxn) (bytes_at bp bpn) (ptr_bytes sp spn) (bytes_at ea ean) (bytes_at pl pln))"
proof -
  have s: "cbor_writer (\<lambda>c. if sp \<noteq> None then wc_CBOR_EncodeBstr c sp spn else (WOLFCOSE_SUCCESS, c))
      (case ptr_bytes sp spn of None \<Rightarrow> [] | Some s \<Rightarrow> str_bytes 2 s)"
    using assms(4) writer_str(1) [of sp spn] writer_nothing
    by (cases sp) (simp_all add: ptr_bytes_def bytes_at_def)
  have "cbor_writer (tbs_writer cx cxn bp bpn sp spn ea ean pl pln)
     (((((cbor_head 4 ((if sp \<noteq> None then 5 else 4) mod 2 ^ 64) @ str_bytes 3 (bytes_at cx cxn)) @
        str_bytes 2 (bytes_at bp bpn)) @ (case ptr_bytes sp spn of None \<Rightarrow> [] | Some s \<Rightarrow> str_bytes 2 s)) @
        str_bytes 2 (bytes_at ea ean)) @ str_bytes 2 (bytes_at pl pln))"
    unfolding tbs_writer_def [abs_def]
    by (intro writer_seq array.cbor_writer_axioms writer_str s assms)
  then show ?thesis by (simp add: tbs_bytes_def ptr_bytes_def if_distrib cong: if_cong) (cases sp; simp)
qed

lemma BuildToBeSignedMaced_writer:
  "wolfCose_BuildToBeSignedMaced (Some cx) cxn bp bpn sp spn ea ean pl pln (Some m) sz out =
     (case tbs_writer (Some cx) cxn bp bpn sp spn ea ean pl pln (fresh m sz) of (ret, c) \<Rightarrow>
        (ret, c, if ret = WOLFCOSE_SUCCESS then ctx_idx c else out))"
  by (simp add: wolfCose_BuildToBeSignedMaced_def tbs_writer_def fresh_def Let_def split: prod.split)

definition enc_writer ::
  "cptr \<Rightarrow> size \<Rightarrow> cptr \<Rightarrow> size \<Rightarrow> cptr \<Rightarrow> size \<Rightarrow> cbor_ctx \<Rightarrow> rc \<times> cbor_ctx" where
  "enc_writer cx cxn bp bpn ea ean c =
     on_success (on_success (on_success (wc_CBOR_EncodeArrayStart c 3)
       (\<lambda>c. wc_CBOR_EncodeTstr c cx cxn)) (\<lambda>c. wc_CBOR_EncodeBstr c bp bpn))
       (\<lambda>c. wc_CBOR_EncodeBstr c ea ean)"

lemma enc_writer_writes:
  assumes "readable cx cxn" "wolfCose_CBOR_IsUtf8 cx cxn" "readable bp bpn" "readable ea ean"
  shows "cbor_writer (enc_writer cx cxn bp bpn ea ean)
    (enc_bytes (bytes_at cx cxn) (bytes_at bp bpn) (bytes_at ea ean))"
proof -
  have "cbor_writer (enc_writer cx cxn bp bpn ea ean)
     (((cbor_head 4 (3 mod 2 ^ 64) @ str_bytes 3 (bytes_at cx cxn)) @ str_bytes 2 (bytes_at bp bpn)) @
        str_bytes 2 (bytes_at ea ean))"
    unfolding enc_writer_def [abs_def]
    by (intro writer_seq array.cbor_writer_axioms writer_str assms)
  then show ?thesis by (simp add: enc_bytes_def)
qed

lemma BuildEncStructure_writer:
  "wolfCose_BuildEncStructure (Some cx) cxn bp bpn ea ean (Some m) sz out =
     (case enc_writer (Some cx) cxn bp bpn ea ean (fresh m sz) of (ret, c) \<Rightarrow>
        (ret, c, if ret = WOLFCOSE_SUCCESS then ctx_idx c else out))"
  by (simp add: wolfCose_BuildEncStructure_def enc_writer_def fresh_def Let_def split: prod.split)

section \<open>The structures determine their components\<close>

lemma head_injective:
  assumes "cbor_head mt v @ r = cbor_head mt v' @ r'" "mt < 7" "v < 2 ^ 64" "v' < 2 ^ 64"
  shows "v = v' \<and> r = r'"
proof -
  have ok: "head_ok mt (short_ai v) v" "head_ok mt (short_ai v') v'"
    using head_valid_short [OF assms(2,3), of True] head_valid_short [OF assms(2,4), of True]
    by (simp_all add: head_valid_def)
  have mt: "mt < 8" "short_ai v < 32" "short_ai v' < 32" using assms(2) by (simp_all add: short_ai_def)
  note e = assms(1) [unfolded cbor_head_bytes]
  have "unat ((head_bytes mt (short_ai v) v @ r) ! 0) mod 32 = unat ((head_bytes mt (short_ai v') v' @ r') ! 0) mod 32"
    unfolding e ..
  then have ai: "short_ai v = short_ai v'" unfolding head_first_ai [OF mt(1,2)] head_first_ai [OF mt(1,3)] .
  have t: "be_bytes (arg_width (short_ai v)) v @ r = be_bytes (arg_width (short_ai v)) v' @ r'"
    using e unfolding ai [symmetric] head_bytes_def append_Cons by (rule list.inject [THEN iffD1, THEN conjunct2])
  then have "r = r'" by (rule append_eq_append_conv [THEN iffD1, THEN conjunct2, rotated]) simp
  moreover have "v = v'"
  proof -
    have "v = arg_value (short_ai v) (be_bytes (arg_width (short_ai v)) v @ r)"
      by (rule arg_value_head [OF ok(1), symmetric])
    also have "\<dots> = arg_value (short_ai v) (be_bytes (arg_width (short_ai v)) v' @ r')" by (rule arg_cong [OF t])
    also have "\<dots> = v'" by (rule arg_value_head [OF ok(2) [folded ai]])
    finally show ?thesis .
  qed
  ultimately show ?thesis by blast
qed

lemma str_injective:
  assumes "str_bytes mt s @ r = str_bytes mt s' @ r'" "mt < 7" "length s < 2 ^ 64" "length s' < 2 ^ 64"
  shows "s = s' \<and> r = r'"
proof -
  have "length s = length s' \<and> s @ r = s' @ r'"
    using head_injective [of mt "length s" "s @ r" "length s'" "s' @ r'"] assms by (simp add: str_bytes_def)
  then show ?thesis using append_eq_append_conv by blast
qed

lemma tbs_injective:
  assumes e: "tbs_bytes cx bp sp ea pl = tbs_bytes cx' bp' sp' ea' pl'"
    and l: "length (tbs_bytes cx bp sp ea pl) < 2 ^ 64"
  shows "cx = cx' \<and> bp = bp' \<and> sp = sp' \<and> ea = ea' \<and> pl = pl'"
proof -
  have len: "length cx < 2 ^ 64" "length bp < 2 ^ 64" "sp = Some s \<longrightarrow> length s < 2 ^ 64"
    "length ea < 2 ^ 64" "length pl < 2 ^ 64" for s
    using l by (auto simp: tbs_bytes_def str_bytes_def)
  have len': "length cx' < 2 ^ 64" "length bp' < 2 ^ 64" "sp' = Some s \<longrightarrow> length s < 2 ^ 64"
    "length ea' < 2 ^ 64" "length pl' < 2 ^ 64" for s
    using l unfolding e by (auto simp: tbs_bytes_def str_bytes_def)
  have n: "(if sp = None then 4 else 5 :: nat) = (if sp' = None then 4 else 5)"
    and r1: "str_bytes 3 cx @ str_bytes 2 bp @ (case sp of None \<Rightarrow> [] | Some s \<Rightarrow> str_bytes 2 s) @
        str_bytes 2 ea @ str_bytes 2 pl = str_bytes 3 cx' @ str_bytes 2 bp' @
        (case sp' of None \<Rightarrow> [] | Some s \<Rightarrow> str_bytes 2 s) @ str_bytes 2 ea' @ str_bytes 2 pl'"
    using head_injective [OF e [unfolded tbs_bytes_def]] by simp_all
  have cx: "cx = cx'" and r2: "str_bytes 2 bp @ (case sp of None \<Rightarrow> [] | Some s \<Rightarrow> str_bytes 2 s) @
        str_bytes 2 ea @ str_bytes 2 pl = str_bytes 2 bp' @
        (case sp' of None \<Rightarrow> [] | Some s \<Rightarrow> str_bytes 2 s) @ str_bytes 2 ea' @ str_bytes 2 pl'"
    using str_injective [OF r1] len(1) len'(1) by simp_all
  have bp: "bp = bp'" and r3: "(case sp of None \<Rightarrow> [] | Some s \<Rightarrow> str_bytes 2 s) @
        str_bytes 2 ea @ str_bytes 2 pl =
        (case sp' of None \<Rightarrow> [] | Some s \<Rightarrow> str_bytes 2 s) @ str_bytes 2 ea' @ str_bytes 2 pl'"
    using str_injective [OF r2] len(2) len'(2) by simp_all
  have sp: "sp = sp' \<and> str_bytes 2 ea @ str_bytes 2 pl = str_bytes 2 ea' @ str_bytes 2 pl'"
  proof (cases sp)
    case None
    then show ?thesis using n r3 by (cases sp') simp_all
  next
    case (Some s)
    then obtain s' where s': "sp' = Some s'" using n by (cases sp') auto
    show ?thesis using str_injective [of 2 s _ s'] r3 Some s' len(3) len'(3) by simp
  qed
  have "ea = ea'" and r4: "str_bytes 2 pl @ [] = str_bytes 2 pl' @ []"
    using str_injective [OF conjunct2 [OF sp]] len(4) len'(4) by simp_all
  moreover have "pl = pl'" using str_injective [OF r4] len(5) len'(5) by simp
  ultimately show ?thesis using cx bp sp by simp
qed

lemma enc_injective:
  assumes e: "enc_bytes cx bp ea = enc_bytes cx' bp' ea'" and l: "length (enc_bytes cx bp ea) < 2 ^ 64"
  shows "cx = cx' \<and> bp = bp' \<and> ea = ea'"
proof -
  have len: "length cx < 2 ^ 64" "length bp < 2 ^ 64" "length ea < 2 ^ 64"
    using l by (simp_all add: enc_bytes_def str_bytes_def)
  have len': "length cx' < 2 ^ 64" "length bp' < 2 ^ 64" "length ea' < 2 ^ 64"
    using l unfolding e by (simp_all add: enc_bytes_def str_bytes_def)
  have r1: "str_bytes 3 cx @ str_bytes 2 bp @ str_bytes 2 ea = str_bytes 3 cx' @ str_bytes 2 bp' @ str_bytes 2 ea'"
    using e by (simp add: enc_bytes_def)
  have cx: "cx = cx'" and r2: "str_bytes 2 bp @ str_bytes 2 ea = str_bytes 2 bp' @ str_bytes 2 ea'"
    using str_injective [OF r1] len(1) len'(1) by simp_all
  have bp: "bp = bp'" and r3: "str_bytes 2 ea @ [] = str_bytes 2 ea' @ []"
    using str_injective [OF r2] len(2) len'(2) by simp_all
  then show ?thesis using cx str_injective [OF r3] len(3) len'(3) by simp
qed

lemma tbs_not_enc: "tbs_bytes cx bp sp ea pl \<noteq> enc_bytes cx' bp' ea'"
proof
  assume "tbs_bytes cx bp sp ea pl = enc_bytes cx' bp' ea'"
  from head_injective [OF this [unfolded tbs_bytes_def enc_bytes_def]]
  have "(if sp = None then 4 else 5 :: nat) = 3" by simp
  then show False by (simp split: if_splits)
qed

section \<open>The context strings are text\<close>

lemma utf8_ascii:
  assumes "\<forall>x\<in>set p. x \<le> 0x7F" "n \<le> length p"
  shows "utf8_loop p n i"
proof (induction "n - i" arbitrary: i)
  case 0
  then show ?case by (subst utf8_loop.simps) simp
next
  case (Suc k)
  then have "utf8_step p n i = Some (i + 1)" using assms by (simp add: utf8_step_def Let_def)
  moreover have "utf8_loop p n (i + 1)" using Suc by simp
  ultimately show ?case by (subst utf8_loop.simps) simp
qed

definition context_ok :: "u8 list \<Rightarrow> bool" where
  "context_ok cx \<longleftrightarrow> (\<forall>x\<in>set cx. x \<le> 0x7F) \<and> length cx < 24"

lemma contexts_ok [simp]:
  "context_ok WOLFCOSE_CTX_SIGNATURE1" "context_ok WOLFCOSE_CTX_SIGNATURE" "context_ok WOLFCOSE_CTX_MAC0"
  "context_ok WOLFCOSE_CTX_MAC" "context_ok WOLFCOSE_CTX_ENCRYPT0" "context_ok WOLFCOSE_CTX_ENCRYPT"
  by (simp_all add: context_ok_def cose_contexts)

lemma context_text:
  assumes "context_ok cx"
  shows "readable (Some cx) (length cx)" "wolfCose_CBOR_IsUtf8 (Some cx) (length cx)"
    "bytes_at (Some cx) (length cx) = cx"
  using assms utf8_ascii [of cx "length cx" 0]
  by (simp_all add: context_ok_def readable_def bytes_at_def wolfCose_CBOR_IsUtf8_def)

text \<open>Building with one of the library's contexts.\<close>

lemma BuildToBeSignedMaced_spec:
  assumes cx: "context_ok cx" and r: "readable bp bpn" "sp \<noteq> None \<longrightarrow> readable sp spn" "readable ea ean" "readable pl pln"
    and sz: "sz \<le> length m"
    and run: "wolfCose_BuildToBeSignedMaced (Some cx) (length cx) bp bpn sp spn ea ean pl pln (Some m) sz out = (ret, c, n)"
  shows "\<not> ctx_fault c \<and>
    (let bs = tbs_bytes cx (bytes_at bp bpn) (ptr_bytes sp spn) (bytes_at ea ean) (bytes_at pl pln)
     in if length bs \<le> sz then ret = WOLFCOSE_SUCCESS \<and> n = length bs \<and> ctx_buf c = Some (splice 0 bs m)
        else ret = WOLFCOSE_E_BUFFER_TOO_SMALL \<and> n = out \<and>
          (\<exists>m'. ctx_buf c = Some m' \<and> length m' = length m \<and> drop sz m' = drop sz m))"
proof -
  let ?f = "tbs_writer (Some cx) (length cx) bp bpn sp spn ea ean pl pln"
  obtain ret' c' where f: "?f (fresh m sz) = (ret', c')" by fastforce
  have w: "cbor_writer ?f (tbs_bytes cx (bytes_at bp bpn) (ptr_bytes sp spn) (bytes_at ea ean) (bytes_at pl pln))"
    using tbs_writer_writes [OF context_text(1,2) [OF cx] r] context_text(3) [OF cx] by simp
  show ?thesis
    using writer_fresh [OF w sz f] run unfolding BuildToBeSignedMaced_writer f
    by (auto simp: Let_def split: if_splits)
qed

lemma BuildEncStructure_spec:
  assumes cx: "context_ok cx" and r: "readable bp bpn" "readable ea ean" and sz: "sz \<le> length m"
    and run: "wolfCose_BuildEncStructure (Some cx) (length cx) bp bpn ea ean (Some m) sz out = (ret, c, n)"
  shows "\<not> ctx_fault c \<and>
    (let bs = enc_bytes cx (bytes_at bp bpn) (bytes_at ea ean)
     in if length bs \<le> sz then ret = WOLFCOSE_SUCCESS \<and> n = length bs \<and> ctx_buf c = Some (splice 0 bs m)
        else ret = WOLFCOSE_E_BUFFER_TOO_SMALL \<and> n = out \<and>
          (\<exists>m'. ctx_buf c = Some m' \<and> length m' = length m \<and> drop sz m' = drop sz m))"
proof -
  let ?f = "enc_writer (Some cx) (length cx) bp bpn ea ean"
  obtain ret' c' where f: "?f (fresh m sz) = (ret', c')" by fastforce
  have w: "cbor_writer ?f (enc_bytes cx (bytes_at bp bpn) (bytes_at ea ean))"
    using enc_writer_writes [OF context_text(1,2) [OF cx] r] context_text(3) [OF cx] by simp
  show ?thesis
    using writer_fresh [OF w sz f] run unfolding BuildEncStructure_writer f
    by (auto simp: Let_def split: if_splits)
qed

section \<open>The properties\<close>

text \<open>C34: for every context string of the library the Sig/MAC builder writes exactly the RFC 9052
structure of its arguments at the start of the scratch buffer and reports its length, or reports a too
small buffer; it never writes beyond the scratch size it is given.\<close>

theorem BuildToBeSignedMaced_exact:
  assumes "cx \<in> {WOLFCOSE_CTX_SIGNATURE1, WOLFCOSE_CTX_SIGNATURE, WOLFCOSE_CTX_MAC0, WOLFCOSE_CTX_MAC}"
    and "readable bp bpn" "sp \<noteq> None \<longrightarrow> readable sp spn" "readable ea ean" "readable pl pln" "sz \<le> length m"
    and "wolfCose_BuildToBeSignedMaced (Some cx) (length cx) bp bpn sp spn ea ean pl pln (Some m) sz out = (ret, c, n)"
  shows "\<not> ctx_fault c \<and>
    (let bs = tbs_bytes cx (bytes_at bp bpn) (ptr_bytes sp spn) (bytes_at ea ean) (bytes_at pl pln)
     in if length bs \<le> sz then ret = WOLFCOSE_SUCCESS \<and> n = length bs \<and> ctx_buf c = Some (splice 0 bs m)
        else ret = WOLFCOSE_E_BUFFER_TOO_SMALL \<and> n = out \<and>
          (\<exists>m'. ctx_buf c = Some m' \<and> length m' = length m \<and> drop sz m' = drop sz m))"
proof -
  have "context_ok cx" using assms(1) by auto
  from BuildToBeSignedMaced_spec [OF this assms(2-7)] show ?thesis .
qed

lemma tbs_example: "tbs_bytes WOLFCOSE_CTX_MAC0 [] None [] [1] = [0x84, 0x64, 0x4D, 0x41, 0x43, 0x30, 0x40, 0x40, 0x41, 1]"
  by (simp add: tbs_bytes_def str_bytes_def cose_contexts cbor_head_def)

lemma BuildToBeSignedMaced_exact_witness:
  "\<exists>c. wolfCose_BuildToBeSignedMaced (Some WOLFCOSE_CTX_MAC0) 4 None 0 None 0 None 0 (Some [1]) 1
      (Some (replicate 12 0)) 11 0 = (WOLFCOSE_SUCCESS, c, 10) \<and>
    ctx_buf c = Some [0x84, 0x64, 0x4D, 0x41, 0x43, 0x30, 0x40, 0x40, 0x41, 1, 0, 0]"
proof -
  obtain ret c n where r: "wolfCose_BuildToBeSignedMaced (Some WOLFCOSE_CTX_MAC0) (length WOLFCOSE_CTX_MAC0)
      None 0 None 0 None 0 (Some [1]) 1 (Some (replicate 12 0)) 11 0 = (ret, c, n)" by (metis prod_cases3)
  have "splice 0 [0x84, 0x64, 0x4D, 0x41, 0x43, 0x30, 0x40, 0x40, 0x41, 1] (replicate 12 0)
      = [0x84, 0x64, 0x4D, 0x41, 0x43, 0x30, 0x40, 0x40, 0x41, 1, 0, 0 :: u8]"
    by (simp add: splice_def numeral_eq_Suc)
  moreover have "length WOLFCOSE_CTX_MAC0 = 4" by (simp add: cose_contexts)
  ultimately show ?thesis
    using BuildToBeSignedMaced_exact [OF _ _ _ _ _ _ r] r
    by (simp add: readable_def bytes_at_def ptr_bytes_def tbs_example)
qed

text \<open>C35: the AEAD builder writes exactly the RFC 9052 Enc_structure of its arguments at the start of the
scratch buffer and reports its length, or reports a too small buffer; it never writes beyond the
scratch size it is given.\<close>

theorem BuildEncStructure_exact:
  assumes "cx \<in> {WOLFCOSE_CTX_ENCRYPT0, WOLFCOSE_CTX_ENCRYPT}"
    and "readable bp bpn" "readable ea ean" "sz \<le> length m"
    and "wolfCose_BuildEncStructure (Some cx) (length cx) bp bpn ea ean (Some m) sz out = (ret, c, n)"
  shows "\<not> ctx_fault c \<and>
    (let bs = enc_bytes cx (bytes_at bp bpn) (bytes_at ea ean)
     in if length bs \<le> sz then ret = WOLFCOSE_SUCCESS \<and> n = length bs \<and> ctx_buf c = Some (splice 0 bs m)
        else ret = WOLFCOSE_E_BUFFER_TOO_SMALL \<and> n = out \<and>
          (\<exists>m'. ctx_buf c = Some m' \<and> length m' = length m \<and> drop sz m' = drop sz m))"
proof -
  have "context_ok cx" using assms(1) by auto
  from BuildEncStructure_spec [OF this assms(2-5)] show ?thesis .
qed

lemma BuildEncStructure_exact_witness:
  "\<exists>c. wolfCose_BuildEncStructure (Some WOLFCOSE_CTX_ENCRYPT0) 8 None 0 None 0
      (Some (replicate 12 0)) 11 0 = (WOLFCOSE_E_BUFFER_TOO_SMALL, c, 0)"
proof -
  obtain ret c n where r: "wolfCose_BuildEncStructure (Some WOLFCOSE_CTX_ENCRYPT0) (length WOLFCOSE_CTX_ENCRYPT0)
      None 0 None 0 (Some (replicate 12 0)) 11 0 = (ret, c, n)" by (metis prod_cases3)
  moreover have "length WOLFCOSE_CTX_ENCRYPT0 = 8" by (simp add: cose_contexts)
  ultimately show ?thesis
    using BuildEncStructure_exact [OF _ _ _ _ r]
    by (simp add: readable_def bytes_at_def enc_bytes_def str_bytes_def cbor_head_def)
qed

text \<open>
  The bytes that a successful build leaves at the start of the scratch buffer, for arguments with the given bytes:
  of a structure to be signed or MACed, and of one that an AEAD authenticates.
\<close>

definition tbs_built :: "u8 list \<Rightarrow> u8 list \<Rightarrow> u8 list option \<Rightarrow> u8 list \<Rightarrow> u8 list \<Rightarrow> u8 list \<Rightarrow> bool" where
  "tbs_built cx body sign ext pl bs \<longleftrightarrow>
     cx \<in> {WOLFCOSE_CTX_SIGNATURE1, WOLFCOSE_CTX_SIGNATURE, WOLFCOSE_CTX_MAC0, WOLFCOSE_CTX_MAC} \<and>
     (\<exists>bp bpn sp spn ea ean p pn m sz c n.
        readable bp bpn \<and> (sp \<noteq> None \<longrightarrow> readable sp spn) \<and> readable ea ean \<and> readable p pn \<and> sz \<le> length m \<and> sz < 2 ^ 64 \<and>
        body = bytes_at bp bpn \<and> sign = ptr_bytes sp spn \<and> ext = bytes_at ea ean \<and> pl = bytes_at p pn \<and>
        wolfCose_BuildToBeSignedMaced (Some cx) (length cx) bp bpn sp spn ea ean p pn (Some m) sz 0 = (WOLFCOSE_SUCCESS, c, n) \<and>
        bs = take n (the (ctx_buf c)))"

definition enc_built :: "u8 list \<Rightarrow> u8 list \<Rightarrow> u8 list \<Rightarrow> u8 list \<Rightarrow> bool" where
  "enc_built cx body ext bs \<longleftrightarrow> cx \<in> {WOLFCOSE_CTX_ENCRYPT0, WOLFCOSE_CTX_ENCRYPT} \<and>
     (\<exists>bp bpn ea ean m sz c n.
        readable bp bpn \<and> readable ea ean \<and> sz \<le> length m \<and> sz < 2 ^ 64 \<and> body = bytes_at bp bpn \<and> ext = bytes_at ea ean \<and>
        wolfCose_BuildEncStructure (Some cx) (length cx) bp bpn ea ean (Some m) sz 0 = (WOLFCOSE_SUCCESS, c, n) \<and>
        bs = take n (the (ctx_buf c)))"

lemma tbs_built_bytes:
  assumes "tbs_built cx body sign ext pl bs"
  shows "bs = tbs_bytes cx body sign ext pl" "length bs < 2 ^ 64"
proof -
  obtain bp bpn sp spn ea ean p pn m sz c n where
    r: "readable bp bpn" "sp \<noteq> None \<longrightarrow> readable sp spn" "readable ea ean" "readable p pn" "sz \<le> length m" and z: "sz < 2 ^ 64" and
    x: "body = bytes_at bp bpn" "sign = ptr_bytes sp spn" "ext = bytes_at ea ean" "pl = bytes_at p pn" and
    c: "wolfCose_BuildToBeSignedMaced (Some cx) (length cx) bp bpn sp spn ea ean p pn (Some m) sz 0 = (WOLFCOSE_SUCCESS, c, n)" and
    b: "bs = take n (the (ctx_buf c))"
    using assms unfolding tbs_built_def by (elim conjE exE) blast
  have "context_ok cx" using assms by (auto simp: tbs_built_def)
  from BuildToBeSignedMaced_spec [OF this r c] show "bs = tbs_bytes cx body sign ext pl" "length bs < 2 ^ 64"
    using r(5) z unfolding b x by (auto simp: Let_def splice_def split: if_splits)
qed

lemma enc_built_bytes:
  assumes "enc_built cx body ext bs"
  shows "bs = enc_bytes cx body ext" "length bs < 2 ^ 64"
proof -
  obtain bp bpn ea ean m sz c n where
    r: "readable bp bpn" "readable ea ean" "sz \<le> length m" and z: "sz < 2 ^ 64" and x: "body = bytes_at bp bpn" "ext = bytes_at ea ean" and
    c: "wolfCose_BuildEncStructure (Some cx) (length cx) bp bpn ea ean (Some m) sz 0 = (WOLFCOSE_SUCCESS, c, n)" and
    b: "bs = take n (the (ctx_buf c))"
    using assms unfolding enc_built_def by (elim conjE exE) blast
  have "context_ok cx" using assms by (auto simp: enc_built_def)
  from BuildEncStructure_spec [OF this r c] show "bs = enc_bytes cx body ext" "length bs < 2 ^ 64"
    using r(3) z unfolding b x by (auto simp: Let_def splice_def split: if_splits)
qed

text \<open>C36: what is signed, MACed or authenticated determines its parts. If two successful builds of the Sig/MAC
builder leave the same bytes, they had the same context (so a Sign1 structure is never a Sign, MAC0 or MAC
one), the same headers, external data and payload; if two builds of the AEAD builder do, the same context
(Encrypt0 or Encrypt), header and external data; and no build of one leaves the bytes of one of the other.\<close>

theorem structures_separate:
  assumes "tbs_built cx body sign ext pl bs" "tbs_built cx' body' sign' ext' pl' bs'"
    and "enc_built cy ebody eext as" "enc_built cy' ebody' eext' as'"
  shows "(bs = bs' \<longrightarrow> cx = cx' \<and> body = body' \<and> sign = sign' \<and> ext = ext' \<and> pl = pl') \<and>
    (as = as' \<longrightarrow> cy = cy' \<and> ebody = ebody' \<and> eext = eext') \<and> bs \<noteq> as"
proof (intro conjI impI)
  note t = tbs_built_bytes [OF assms(1)] tbs_built_bytes [OF assms(2)]
  note a = enc_built_bytes [OF assms(3)] enc_built_bytes [OF assms(4)]
  show "bs \<noteq> as" unfolding t(1) a(1) by (rule tbs_not_enc)
  {
    assume "bs = bs'"
    then have "cx = cx' \<and> body = body' \<and> sign = sign' \<and> ext = ext' \<and> pl = pl'"
      using tbs_injective [of cx body sign ext pl cx' body' sign' ext' pl'] t by metis
    then show "cx = cx'" "body = body'" "sign = sign'" "ext = ext'" "pl = pl'" by blast+
  next
    assume "as = as'"
    then have "cy = cy' \<and> ebody = ebody' \<and> eext = eext'"
      using enc_injective [of cy ebody eext cy' ebody' eext'] a by metis
    then show "cy = cy'" "ebody = ebody'" "eext = eext'" by blast+
  }
qed

text \<open>Four builds over a twelve-byte buffer, two of each builder.\<close>

lemma structures_built:
  "tbs_built WOLFCOSE_CTX_MAC0 [] None [] [1] [0x84, 0x64, 0x4D, 0x41, 0x43, 0x30, 0x40, 0x40, 0x41, 1]"
  "tbs_built WOLFCOSE_CTX_MAC [] None [] [1] [0x84, 0x63, 0x4D, 0x41, 0x43, 0x40, 0x40, 0x41, 1]"
  "enc_built WOLFCOSE_CTX_ENCRYPT0 [] [] [0x83, 0x68, 0x45, 0x6E, 0x63, 0x72, 0x79, 0x70, 0x74, 0x30, 0x40, 0x40]"
  "enc_built WOLFCOSE_CTX_ENCRYPT [] [] [0x83, 0x67, 0x45, 0x6E, 0x63, 0x72, 0x79, 0x70, 0x74, 0x40, 0x40]"
proof -
  have r: "readable None 0" "readable (Some [1]) 1" "(12 :: nat) \<le> length (replicate 12 (0 :: u8))" by (simp_all add: readable_def)
  have t: "tbs_built cx [] None [] [1] (tbs_bytes cx [] None [] [1])"
    if cx: "cx \<in> {WOLFCOSE_CTX_MAC0, WOLFCOSE_CTX_MAC}" "length (tbs_bytes cx [] None [] [1]) \<le> 12" for cx
  proof -
    have ok: "context_ok cx" using cx(1) by auto
    obtain ret c n where b: "wolfCose_BuildToBeSignedMaced (Some cx) (length cx) None 0 None 0 None 0 (Some [1]) 1
        (Some (replicate 12 0)) 12 0 = (ret, c, n)" by (metis prod_cases3)
    have s: "ret = WOLFCOSE_SUCCESS" "take n (the (ctx_buf c)) = tbs_bytes cx [] None [] [1]"
      using BuildToBeSignedMaced_spec [OF ok r(1) _ r(1,2,3) b] cx(2)
      by (auto simp: bytes_at_def ptr_bytes_def Let_def splice_def)
    show ?thesis unfolding tbs_built_def
      by (rule conjI, use cx(1) in blast, rule exI [of _ None], rule exI [of _ 0], rule exI [of _ None], rule exI [of _ 0],
          rule exI [of _ None], rule exI [of _ 0], rule exI [of _ "Some [1]"], rule exI [of _ 1], rule exI [of _ "replicate 12 0"],
          rule exI [of _ 12], rule exI [of _ c], rule exI [of _ n])
        (use b s r in \<open>simp add: bytes_at_def ptr_bytes_def\<close>)
  qed
  have e: "enc_built cx [] [] (enc_bytes cx [] [])"
    if cx: "cx \<in> {WOLFCOSE_CTX_ENCRYPT0, WOLFCOSE_CTX_ENCRYPT}" "length (enc_bytes cx [] []) \<le> 12" for cx
  proof -
    have ok: "context_ok cx" using cx(1) by auto
    obtain ret c n where b: "wolfCose_BuildEncStructure (Some cx) (length cx) None 0 None 0 (Some (replicate 12 0)) 12 0 = (ret, c, n)"
      by (metis prod_cases3)
    have s: "ret = WOLFCOSE_SUCCESS" "take n (the (ctx_buf c)) = enc_bytes cx [] []"
      using BuildEncStructure_spec [OF ok r(1,1,3) b] cx(2) by (auto simp: bytes_at_def Let_def splice_def)
    show ?thesis unfolding enc_built_def
      by (rule conjI, use cx(1) in blast, rule exI [of _ None], rule exI [of _ 0], rule exI [of _ None], rule exI [of _ 0],
          rule exI [of _ "replicate 12 0"], rule exI [of _ 12], rule exI [of _ c], rule exI [of _ n])
        (use b s r in \<open>simp add: bytes_at_def\<close>)
  qed
  note bytes = tbs_bytes_def enc_bytes_def str_bytes_def cose_contexts cbor_head_def
  show "tbs_built WOLFCOSE_CTX_MAC0 [] None [] [1] [0x84, 0x64, 0x4D, 0x41, 0x43, 0x30, 0x40, 0x40, 0x41, 1]"
    using t [of WOLFCOSE_CTX_MAC0] by (simp add: bytes)
  show "tbs_built WOLFCOSE_CTX_MAC [] None [] [1] [0x84, 0x63, 0x4D, 0x41, 0x43, 0x40, 0x40, 0x41, 1]"
    using t [of WOLFCOSE_CTX_MAC] by (simp add: bytes)
  show "enc_built WOLFCOSE_CTX_ENCRYPT0 [] [] [0x83, 0x68, 0x45, 0x6E, 0x63, 0x72, 0x79, 0x70, 0x74, 0x30, 0x40, 0x40]"
    using e [of WOLFCOSE_CTX_ENCRYPT0] by (simp add: bytes)
  show "enc_built WOLFCOSE_CTX_ENCRYPT [] [] [0x83, 0x67, 0x45, 0x6E, 0x63, 0x72, 0x79, 0x70, 0x74, 0x40, 0x40]"
    using e [of WOLFCOSE_CTX_ENCRYPT] by (simp add: bytes)
qed

lemma structures_separate_witness:
  "\<not> tbs_built WOLFCOSE_CTX_MAC [] None [] [1] [0x84, 0x64, 0x4D, 0x41, 0x43, 0x30, 0x40, 0x40, 0x41, 1] \<and>
   \<not> enc_built WOLFCOSE_CTX_ENCRYPT [] [] [0x83, 0x68, 0x45, 0x6E, 0x63, 0x72, 0x79, 0x70, 0x74, 0x30, 0x40, 0x40] \<and>
   \<not> enc_built WOLFCOSE_CTX_ENCRYPT0 [] [] [0x84, 0x64, 0x4D, 0x41, 0x43, 0x30, 0x40, 0x40, 0x41, 1]"
proof (intro conjI notI)
  note b = structures_built
  have "WOLFCOSE_CTX_MAC0 \<noteq> WOLFCOSE_CTX_MAC" "WOLFCOSE_CTX_ENCRYPT0 \<noteq> WOLFCOSE_CTX_ENCRYPT" by (simp_all add: cose_contexts)
  note ne = this
  show False if "tbs_built WOLFCOSE_CTX_MAC [] None [] [1] [0x84, 0x64, 0x4D, 0x41, 0x43, 0x30, 0x40, 0x40, 0x41, 1]"
    using structures_separate [OF b(1) that b(3,4)] ne by blast
  show False if "enc_built WOLFCOSE_CTX_ENCRYPT [] [] [0x83, 0x68, 0x45, 0x6E, 0x63, 0x72, 0x79, 0x70, 0x74, 0x30, 0x40, 0x40]"
    using structures_separate [OF b(1,2,3) that] ne by blast
  show False if "enc_built WOLFCOSE_CTX_ENCRYPT0 [] [] [0x84, 0x64, 0x4D, 0x41, 0x43, 0x30, 0x40, 0x40, 0x41, 1]"
    using structures_separate [OF b(1,2) that b(4)] by blast
qed

end
