(* ===== verification/Cose_Mac.thy ===== *)
theory Cose_Mac
  imports Cose_Struct
begin

text \<open>
  The MAC algorithms of COSE_Mac0 and COSE_Mac (\<open>src/wolfcose_mac0.c\<close>, first half): the tag-size and
  key-size tables, AES-CBC-MAC over wolfCrypt's one-block AES calls, and the HMAC call sequence.
  wolfCrypt is a parameter, a record of its entry points; \<open>None\<close> is a non-zero return code.
\<close>

section \<open>wolfCrypt's entry points\<close>

text \<open>
  \<open>'h\<close> is an \<open>Hmac\<close> object and \<open>'a\<close> an \<open>Aes\<close> object. The calls are functions of their arguments and
  the object; a call that fails returns \<open>None\<close>. \<open>max_digest\<close> is \<open>WC_MAX_DIGEST_SIZE\<close>.
\<close>

record ('h, 'a) wolfcrypt =
  max_digest :: size
  hmac_init :: "'h option"
  hmac_setkey :: "'h \<Rightarrow> wc_HashType \<Rightarrow> cptr \<Rightarrow> u32 \<Rightarrow> 'h option"
  hmac_update :: "'h \<Rightarrow> u8 list \<Rightarrow> 'h option"
  hmac_final :: "'h \<Rightarrow> u8 list option"
  aes_init :: "'a option"
  aes_setkey :: "'a \<Rightarrow> cptr \<Rightarrow> u32 \<Rightarrow> u8 list \<Rightarrow> 'a option"
  aes_cbc :: "'a \<Rightarrow> u8 list \<Rightarrow> ('a \<times> u8 list) option"

section \<open>Tables\<close>

definition wolfCose_MacTagSize :: "build \<Rightarrow> i32 \<Rightarrow> size option \<Rightarrow> rc \<times> size option" where
  "wolfCose_MacTagSize b alg tagSz = lookup_out tagSz
     (if have_hmac256 b \<and> alg = WOLFCOSE_ALG_HMAC_256_256 then Some 32
      else if have_hmac384 b \<and> alg = WOLFCOSE_ALG_HMAC_384_384 then Some 48
      else if have_hmac512 b \<and> alg = WOLFCOSE_ALG_HMAC_512_512 then Some 64
      else if have_aesmac b \<and> (alg = WOLFCOSE_ALG_AES_MAC_128_64 \<or> alg = WOLFCOSE_ALG_AES_MAC_256_64) then Some 8
      else if have_aesmac b \<and> (alg = WOLFCOSE_ALG_AES_MAC_128_128 \<or> alg = WOLFCOSE_ALG_AES_MAC_256_128) then Some 16
      else None)"

definition wolfCose_AesCbcMacKeySize :: "i32 \<Rightarrow> size option \<Rightarrow> rc \<times> size option" where
  "wolfCose_AesCbcMacKeySize alg keySz = lookup_out keySz
     (if alg = WOLFCOSE_ALG_AES_MAC_128_64 \<or> alg = WOLFCOSE_ALG_AES_MAC_128_128 then Some 16
      else if alg = WOLFCOSE_ALG_AES_MAC_256_64 \<or> alg = WOLFCOSE_ALG_AES_MAC_256_128 then Some 32
      else None)"

definition wolfCose_IsHmacAlg :: "build \<Rightarrow> i32 \<Rightarrow> bool" where
  "wolfCose_IsHmacAlg b alg \<longleftrightarrow>
     have_hmac256 b \<and> alg = WOLFCOSE_ALG_HMAC_256_256 \<or> have_hmac384 b \<and> alg = WOLFCOSE_ALG_HMAC_384_384 \<or>
     have_hmac512 b \<and> alg = WOLFCOSE_ALG_HMAC_512_512"

definition wolfCose_IsAesCbcMacAlg :: "i32 \<Rightarrow> bool" where
  "wolfCose_IsAesCbcMacAlg alg \<longleftrightarrow>
     alg = WOLFCOSE_ALG_AES_MAC_128_64 \<or> alg = WOLFCOSE_ALG_AES_MAC_256_64 \<or>
     alg = WOLFCOSE_ALG_AES_MAC_128_128 \<or> alg = WOLFCOSE_ALG_AES_MAC_256_128"

section \<open>AES-CBC-MAC\<close>

definition AES_BLOCK_SIZE :: size where [simp]: "AES_BLOCK_SIZE = 16"

text \<open>The state of the computation: the AES object, \<open>iv\<close> and \<open>outBlock\<close>.\<close>

definition cbc_block ::
  "('h, 'a) wolfcrypt \<Rightarrow> cptr \<Rightarrow> size \<Rightarrow> u8 list \<Rightarrow> 'a \<times> u8 list \<times> u8 list \<Rightarrow> rc \<times> 'a \<times> u8 list \<times> u8 list" where
  "cbc_block W key keyLen block s =
     (case s of (aes, iv, outBlock) \<Rightarrow>
       (case aes_setkey W aes key (of_nat keyLen) iv of None \<Rightarrow> (WOLFCOSE_E_CRYPTO, s)
        | Some aes \<Rightarrow> (case aes_cbc W aes block of None \<Rightarrow> (WOLFCOSE_E_CRYPTO, aes, iv, outBlock)
                      | Some (aes, outBlock) \<Rightarrow> (WOLFCOSE_SUCCESS, aes, iv, outBlock))))"

text \<open>One round of the loop over full blocks; the first component is \<open>i\<close>.\<close>

definition cbc_round ::
  "('h, 'a) wolfcrypt \<Rightarrow> cptr \<Rightarrow> size \<Rightarrow> u8 list \<Rightarrow> size \<times> 'a \<times> u8 list \<times> u8 list \<Rightarrow>
   rc \<times> size \<times> 'a \<times> u8 list \<times> u8 list" where
  "cbc_round W key keyLen data s =
     (case s of (i, aes, iv, outBlock) \<Rightarrow>
       (case cbc_block W key keyLen (take AES_BLOCK_SIZE (drop (i * AES_BLOCK_SIZE) data)) (aes, iv, outBlock) of
          (ret, aes, iv, outBlock) \<Rightarrow>
            if ret = WOLFCOSE_SUCCESS then (WOLFCOSE_SUCCESS, i + 1, aes, outBlock, outBlock)
            else (ret, i, aes, iv, outBlock)))"

definition wolfCose_AesCbcMac ::
  "('h, 'a) wolfcrypt \<Rightarrow> cptr \<Rightarrow> size \<Rightarrow> cptr \<Rightarrow> size \<Rightarrow> cptr \<Rightarrow> size \<Rightarrow> rc \<times> cptr" where
  "wolfCose_AesCbcMac W key keyLen data dataLen tag tagLen =
     (if key = None \<or> tag = None \<or> tagLen > AES_BLOCK_SIZE \<or> (data = None \<and> dataLen > 0)
      then (WOLFCOSE_E_INVALID_ARG, tag)
      else (case aes_init W of None \<Rightarrow> (WOLFCOSE_E_CRYPTO, tag) | Some aes \<Rightarrow>
        let iv = replicate AES_BLOCK_SIZE 0; outBlock = replicate AES_BLOCK_SIZE 0;
            numBlocks = dataLen div AES_BLOCK_SIZE; lastBlockLen = dataLen mod AES_BLOCK_SIZE;
            bytes = bytes_at data dataLen
        in case repeat_ok numBlocks (cbc_round W key keyLen bytes) (0, aes, iv, outBlock) of (ret, i, s) \<Rightarrow>
             (case (if ret = WOLFCOSE_SUCCESS \<and> lastBlockLen > 0
                    then let part = take lastBlockLen (drop (numBlocks * AES_BLOCK_SIZE) bytes);
                             inBlock = part @ replicate (AES_BLOCK_SIZE - lastBlockLen) 0
                         in cbc_block W key keyLen inBlock s
                    else (ret, s)) of (ret, aes, iv, outBlock) \<Rightarrow>
                (ret, if ret = WOLFCOSE_SUCCESS then map_option (splice 0 (take tagLen outBlock)) tag else tag))))"

section \<open>The tag of a MAC structure\<close>

text \<open>
  The HMAC calls: \<open>tagBuf\<close> receives the digest. Then the choice of the MAC by the algorithm; the
  structure is the first \<open>macStructLen\<close> bytes of \<open>scratch\<close>.
\<close>

definition hmac_tag ::
  "build \<Rightarrow> ('h, 'a) wolfcrypt \<Rightarrow> i32 \<Rightarrow> cose_key \<Rightarrow> cptr \<Rightarrow> size \<Rightarrow> cptr \<Rightarrow> rc \<times> cptr" where
  "hmac_tag b W alg key scratch macStructLen tagBuf =
     (case wolfCose_HmacType b alg (Some WC_HASH_TYPE_NONE) of (ret, hmacType) \<Rightarrow>
        if ret \<noteq> WOLFCOSE_SUCCESS then (ret, tagBuf)
        else (case hmac_init W of None \<Rightarrow> (WOLFCOSE_E_CRYPTO, tagBuf) | Some hmac \<Rightarrow>
          let ret = wolfCose_HmacCheckKeyLen b alg (key_symmLen key)
          in if ret \<noteq> WOLFCOSE_SUCCESS then (ret, tagBuf)
             else (case hmac_setkey W hmac (the hmacType) (key_symm key) (of_nat (key_symmLen key)) of
                 None \<Rightarrow> (WOLFCOSE_E_CRYPTO, tagBuf)
               | Some hmac \<Rightarrow> (case hmac_update W hmac (bytes_at scratch (unat (of_nat macStructLen :: u32))) of
                     None \<Rightarrow> (WOLFCOSE_E_CRYPTO, tagBuf)
                   | Some hmac \<Rightarrow> (case hmac_final W hmac of None \<Rightarrow> (WOLFCOSE_E_CRYPTO, tagBuf)
                       | Some d \<Rightarrow> (WOLFCOSE_SUCCESS, map_option (splice 0 d) tagBuf))))))"

definition aes_mac_tag ::
  "('h, 'a) wolfcrypt \<Rightarrow> i32 \<Rightarrow> cose_key \<Rightarrow> cptr \<Rightarrow> size \<Rightarrow> size \<Rightarrow> cptr \<Rightarrow> rc \<times> cptr" where
  "aes_mac_tag W alg key scratch macStructLen tagSz tagBuf =
     (case wolfCose_AesCbcMacKeySize alg (Some 0) of (ret, expectedKeyLen) \<Rightarrow>
        if ret \<noteq> WOLFCOSE_SUCCESS then (ret, tagBuf)
        else if key_symmLen key \<noteq> the expectedKeyLen then (WOLFCOSE_E_COSE_KEY_TYPE, tagBuf)
        else wolfCose_AesCbcMac W (key_symm key) (key_symmLen key) scratch macStructLen tagBuf tagSz)"

definition mac_tag ::
  "build \<Rightarrow> ('h, 'a) wolfcrypt \<Rightarrow> i32 \<Rightarrow> cose_key \<Rightarrow> cptr \<Rightarrow> size \<Rightarrow> size \<Rightarrow> cptr \<Rightarrow> rc \<times> cptr" where
  "mac_tag b W alg key scratch macStructLen tagSz tagBuf =
     (if wolfCose_IsHmacAlg b alg then hmac_tag b W alg key scratch macStructLen tagBuf
      else if have_aesmac b \<and> wolfCose_IsAesCbcMacAlg alg
        then aes_mac_tag W alg key scratch macStructLen tagSz tagBuf
      else (WOLFCOSE_E_COSE_BAD_ALG, tagBuf))"

section \<open>AES-CBC-MAC is CBC-MAC\<close>

text \<open>The reference: encrypt-and-chain over blocks, from zero, the last one padded with zeros.\<close>

definition xor_bytes :: "u8 list \<Rightarrow> u8 list \<Rightarrow> u8 list" where
  "xor_bytes xs ys = map2 (XOR) xs ys"

function blocks_of :: "u8 list \<Rightarrow> u8 list list" where
  "blocks_of bs = (if bs = [] then []
     else if length bs < 16 then [bs @ replicate (16 - length bs) 0]
     else take 16 bs # blocks_of (drop 16 bs))"
  by auto
termination by (relation "measure length") auto

declare blocks_of.simps [simp del]

definition cbc_mac :: "(u8 list \<Rightarrow> u8 list) \<Rightarrow> u8 list \<Rightarrow> u8 list" where
  "cbc_mac E data = fold (\<lambda>blk iv. E (xor_bytes iv blk)) (blocks_of data) (replicate 16 0)"

text \<open>
  Documented behaviour of wolfCrypt's AES in CBC mode: a key is accepted exactly when it has 16, 24 or 32 bytes,
  setting it also sets the IV, and encrypting one block is the block cipher \<open>E\<close> under the bytes of that key on
  block XOR IV. Whether the context can be initialised is left open.
\<close>

definition aes_key_len :: "u32 \<Rightarrow> bool" where
  "aes_key_len n \<longleftrightarrow> n \<in> {16, 24, 32}"

definition aes_honest :: "('h, 'a) wolfcrypt \<Rightarrow> (u8 list \<Rightarrow> u8 list \<Rightarrow> u8 list) \<Rightarrow> bool" where
  "aes_honest W E \<longleftrightarrow>
     (\<forall>a p n iv. \<not> aes_key_len n \<longrightarrow> aes_setkey W a (Some p) n iv = None) \<and>
     (\<forall>a p n iv blk. aes_key_len n \<and> unat n \<le> length p \<and> length blk = 16 \<and> length iv = 16 \<longrightarrow>
        length (E (take (unat n) p) blk) = 16 \<and>
        (\<exists>a' a''. aes_setkey W a (Some p) n iv = Some a' \<and> aes_cbc W a' blk = Some (a'', E (take (unat n) p) (xor_bytes iv blk))))"

abbreviation cbc_fold :: "(u8 list \<Rightarrow> u8 list) \<Rightarrow> u8 list list \<Rightarrow> u8 list \<Rightarrow> u8 list" where
  "cbc_fold E \<equiv> fold (\<lambda>blk iv. E (xor_bytes iv blk))"

lemma length_xor_bytes [simp]: "length (xor_bytes xs ys) = min (length xs) (length ys)"
  by (simp add: xor_bytes_def)

lemma blocks_of_full:
  "16 * n \<le> length bs \<Longrightarrow>
   blocks_of bs = map (\<lambda>j. take 16 (drop (j * 16) bs)) [0..<n] @ blocks_of (drop (n * 16) bs)"
proof (induction n arbitrary: bs)
  case (Suc n)
  have "blocks_of bs = take 16 bs # blocks_of (drop 16 bs)"
    using Suc.prems by (subst blocks_of.simps) auto
  also have "blocks_of (drop 16 bs) = map (\<lambda>j. take 16 (drop (j * 16) (drop 16 bs))) [0..<n] @
      blocks_of (drop (n * 16) (drop 16 bs))"
    using Suc.prems by (intro Suc.IH) simp
  finally show ?case
    by (simp add: map_upt_Suc add.commute del: upt_Suc)
qed simp

lemma cbc_block_ok:
  assumes "aes_honest W E" "length blk = 16" "length iv = 16"
    and k: "aes_key_len (of_nat n)" "unat (of_nat n :: u32) \<le> length p" "K = take (unat (of_nat n :: u32)) p"
  shows "\<exists>a'. cbc_block W (Some p) n blk (a, iv, out) = (WOLFCOSE_SUCCESS, a', iv, E K (xor_bytes iv blk))"
    "length (E K (xor_bytes iv blk)) = 16"
proof -
  obtain a' a'' where a: "aes_setkey W a (Some p) (of_nat n) iv = Some a'" "aes_cbc W a' blk = Some (a'', E K (xor_bytes iv blk))"
    using assms unfolding aes_honest_def by blast
  then show "\<exists>a'. cbc_block W (Some p) n blk (a, iv, out) = (WOLFCOSE_SUCCESS, a', iv, E K (xor_bytes iv blk))"
    by (simp add: cbc_block_def)
  have "length (xor_bytes iv blk) = 16" using assms(2,3) by simp
  then show "length (E K (xor_bytes iv blk)) = 16"
    using assms(1,3) k unfolding aes_honest_def by blast
qed

lemma cbc_block_refused:
  assumes "aes_honest W E" "\<not> aes_key_len (of_nat n)"
  shows "cbc_block W (Some p) n blk s = (WOLFCOSE_E_CRYPTO, s)"
  using assms by (auto simp: cbc_block_def aes_honest_def split: prod.split)

lemma cbc_rounds:
  assumes "aes_honest W E" "(i + n) * 16 \<le> length data" "length iv = 16"
    and k: "aes_key_len (of_nat k)" "unat (of_nat k :: u32) \<le> length p" "K = take (unat (of_nat k :: u32)) p"
  shows "\<exists>a'. repeat_ok n (cbc_round W (Some p) k data) (i, a, iv, iv) =
    (let iv' = cbc_fold (E K) (map (\<lambda>j. take 16 (drop (j * 16) data)) [i..<i + n]) iv
     in (WOLFCOSE_SUCCESS, i + n, a', iv', iv')) \<and>
    length (cbc_fold (E K) (map (\<lambda>j. take 16 (drop (j * 16) data)) [i..<i + n]) iv) = 16"
  using assms(2,3)
proof (induction n arbitrary: i a iv)
  case (Suc n)
  let ?blk = "take 16 (drop (i * 16) data)"
  have l: "length ?blk = 16" using Suc.prems by simp
  note c = cbc_block_ok [OF assms(1) l Suc.prems(2) k]
  obtain a1 where a1: "cbc_block W (Some p) k ?blk (a, iv, iv) = (WOLFCOSE_SUCCESS, a1, iv, E K (xor_bytes iv ?blk))"
    using c(1) by blast
  have r: "cbc_round W (Some p) k data (i, a, iv, iv) =
      (let o' = E K (xor_bytes iv ?blk) in (WOLFCOSE_SUCCESS, Suc i, a1, o', o'))"
    using a1 by (simp add: cbc_round_def Let_def)
  have "(Suc i + n) * 16 \<le> length data" using Suc.prems by simp
  from Suc.IH [OF this c(2), of a1] show ?case
    using r by (simp add: Let_def upt_conv_Cons del: upt_Suc)
qed simp

text \<open>C37: the block-by-block AES-CBC-MAC computes CBC-MAC under the bytes of the key, with a zero IV and zero
padding of the last partial block (no padding block when the data is a multiple of 16), truncated to the tag
length, and leaves the rest of the tag buffer alone. A missing key, tag or datum and a tag longer than a block
are refused; without an AES context, and for data with a key length that AES does not have, the call fails and
leaves the tag alone.\<close>

theorem AesCbcMac_is_cbc_mac:
  assumes "aes_honest W E" "readable data n" "readable key keyLen"
  shows "wolfCose_AesCbcMac W key keyLen data n tag tagLen =
    (if key = None \<or> tag = None \<or> 16 < tagLen \<or> (data = None \<and> 0 < n)
     then (WOLFCOSE_E_INVALID_ARG, tag)
     else if aes_init W = None \<or> 0 < n \<and> \<not> aes_key_len (of_nat keyLen) then (WOLFCOSE_E_CRYPTO, tag)
     else (WOLFCOSE_SUCCESS,
       map_option (splice 0 (take tagLen (cbc_mac (E (bytes_at key (unat (of_nat keyLen :: u32)))) (bytes_at data n)))) tag))"
proof (cases "key = None \<or> tag = None \<or> 16 < tagLen \<or> (data = None \<and> 0 < n) \<or> aes_init W = None")
  case True
  then show ?thesis by (auto simp: wolfCose_AesCbcMac_def)
next
  case False
  let ?bs = "bytes_at data n"
  let ?z = "replicate 16 (0 :: u8)"
  have len: "length ?bs = n" using assms(2) by simp
  obtain a where a: "aes_init W = Some a" using False by blast
  obtain p where p: "key = Some p" using False by (cases key) auto
  define K where "K = take (unat (of_nat keyLen :: u32)) p"
  have "unat (of_nat keyLen :: u32) \<le> keyLen" by (simp add: unat_of_nat)
  then have kl: "unat (of_nat keyLen :: u32) \<le> length p" using assms(3) p by (simp add: readable_def)
  have K: "bytes_at key (unat (of_nat keyLen :: u32)) = K" unfolding p K_def bytes_at_def by simp
  consider "n = 0" | "0 < n" "\<not> aes_key_len (of_nat keyLen)" | "0 < n" "aes_key_len (of_nat keyLen)" by blast
  then show ?thesis
  proof cases
    case 1
    have "bytes_at data 0 = []" by (simp add: bytes_at_def split: option.split)
    then have "cbc_mac (E K) (bytes_at data 0) = ?z" by (subst cbc_mac_def) (simp add: blocks_of.simps)
    then show ?thesis using False 1 a K by (auto simp: wolfCose_AesCbcMac_def Let_def)
  next
    case 2
    note r = cbc_block_refused [OF assms(1) 2(2)]
    have "repeat_ok (n div 16) (cbc_round W key keyLen ?bs) (0, a, ?z, ?z) =
        (if n div 16 = 0 then WOLFCOSE_SUCCESS else WOLFCOSE_E_CRYPTO, 0, a, ?z, ?z)"
      by (cases "n div 16") (simp_all add: cbc_round_def r p)
    then show ?thesis using False 2 a r p by (auto simp: wolfCose_AesCbcMac_def Let_def)
  next
    case 3
    define iv where "iv = cbc_fold (E K) (map (\<lambda>j. take 16 (drop (j * 16) ?bs)) [0..<n div 16]) ?z"
    have "(0 + n div 16) * 16 \<le> length ?bs" unfolding len by simp
    from cbc_rounds [OF assms(1) this _ 3(2) kl K_def, of ?z a] obtain a' where
      r: "repeat_ok (n div 16) (cbc_round W key keyLen ?bs) (0, a, ?z, ?z) = (WOLFCOSE_SUCCESS, n div 16, a', iv, iv)"
      and iv: "length iv = 16"
      by (auto simp: iv_def Let_def p)
    have mac: "cbc_mac (E K) ?bs = cbc_fold (E K) (blocks_of (drop (n div 16 * 16) ?bs)) iv"
      using blocks_of_full [of "n div 16" ?bs] by (simp add: cbc_mac_def iv_def len)
    show ?thesis
    proof (cases "n mod 16 = 0")
      case True
      then have "drop (n div 16 * 16) ?bs = []" using len by (simp add: minus_mod_eq_div_mult [symmetric])
      then have "cbc_mac (E K) ?bs = iv" unfolding mac by (subst blocks_of.simps) simp
      then show ?thesis using False True 3 a r K by (auto simp: wolfCose_AesCbcMac_def Let_def)
    next
      case part: False
      let ?rest = "drop (n div 16 * 16) ?bs"
      let ?blk = "?rest @ replicate (16 - n mod 16) 0"
      have rest: "length ?rest = n mod 16" using len by (simp add: minus_div_mult_eq_mod)
      have blk: "length ?blk = 16" using rest by simp
      have "blocks_of ?rest = [?blk]" using part rest by (subst blocks_of.simps) auto
      then have "cbc_mac (E K) ?bs = E K (xor_bytes iv ?blk)" unfolding mac by simp
      moreover obtain a'' where "cbc_block W key keyLen ?blk (a', iv, iv) = (WOLFCOSE_SUCCESS, a'', iv, E K (xor_bytes iv ?blk))"
        using cbc_block_ok(1) [OF assms(1) blk iv 3(2) kl K_def] p by blast
      moreover have "take (n mod 16) ?rest = ?rest" using rest by simp
      ultimately show ?thesis using False part 3 a r K by (auto simp: wolfCose_AesCbcMac_def Let_def)
    qed
  qed
qed

text \<open>A block cipher that returns its input, over which the MAC can be evaluated.\<close>

definition toy_crypt :: "(u8 list, u8 list) wolfcrypt" where
  "toy_crypt = \<lparr> max_digest = 64, hmac_init = Some [], hmac_setkey = (\<lambda>h t k n. Some h),
     hmac_update = (\<lambda>h d. Some (h @ d)), hmac_final = (\<lambda>h. Some (take 32 (h @ replicate 32 0))),
     aes_init = Some [], aes_setkey = (\<lambda>a k n iv. if aes_key_len n then Some iv else None),
     aes_cbc = (\<lambda>a blk. Some (a, take 16 (xor_bytes a blk @ replicate 16 0))) \<rparr>"

lemma toy_honest: "aes_honest toy_crypt (\<lambda>key blk. blk)"
  by (simp add: aes_honest_def toy_crypt_def)

lemma AesCbcMac_is_cbc_mac_witness:
  "wolfCose_AesCbcMac toy_crypt (Some (replicate 16 9)) 16 (Some [1, 2]) 2 (Some [7, 7, 7]) 2 = (WOLFCOSE_SUCCESS, Some [1, 2, 7]) \<and>
   wolfCose_AesCbcMac toy_crypt (Some [9]) 1 (Some [1, 2]) 2 (Some [7, 7, 7]) 2 = (WOLFCOSE_E_CRYPTO, Some [7, 7, 7])"
proof -
  have m: "cbc_mac (\<lambda>blk. blk) [1, 2] = [1, 2] @ replicate 14 0"
    by (simp add: cbc_mac_def blocks_of.simps xor_bytes_def numeral_eq_Suc)
  have i: "aes_init toy_crypt \<noteq> None" by (simp add: toy_crypt_def)
  show ?thesis
    using AesCbcMac_is_cbc_mac [OF toy_honest, of "Some [1, 2]" 2 "Some (replicate 16 9)" 16 "Some [7, 7, 7]" 2]
      AesCbcMac_is_cbc_mac [OF toy_honest, of "Some [1, 2]" 2 "Some [9]" 1 "Some [7, 7, 7]" 2] m i
    by (simp add: readable_def bytes_at_def splice_def aes_key_len_def)
qed

text \<open>The MAC tables agree: exactly the algorithms of the two MAC families have a tag size, every HMAC
algorithm has a hash type, its key must be at least as long as its tag (the digest), and every
AES-CBC-MAC algorithm has a key size of 16 or 32 and a tag of at most one block.\<close>

theorem mac_tables:
  "(fst (wolfCose_MacTagSize b alg (Some 0)) = WOLFCOSE_SUCCESS \<longleftrightarrow>
      wolfCose_IsHmacAlg b alg \<or> have_aesmac b \<and> wolfCose_IsAesCbcMacAlg alg) \<and>
   (fst (wolfCose_HmacType b alg (Some WC_HASH_TYPE_NONE)) = WOLFCOSE_SUCCESS \<longleftrightarrow> wolfCose_IsHmacAlg b alg) \<and>
   (\<forall>n len. wolfCose_MacTagSize b alg (Some 0) = (WOLFCOSE_SUCCESS, Some n) \<and> wolfCose_IsHmacAlg b alg \<and>
      \<not> allow_short_hmac_key b \<longrightarrow>
      (wolfCose_HmacCheckKeyLen b alg len = WOLFCOSE_SUCCESS \<longleftrightarrow> n \<le> len \<and> len < 2 ^ 32)) \<and>
   (\<forall>n. wolfCose_MacTagSize b alg (Some 0) = (WOLFCOSE_SUCCESS, Some n) \<and> wolfCose_IsAesCbcMacAlg alg \<longrightarrow>
      n \<le> 16 \<and> (\<exists>k \<in> {16, 32}. wolfCose_AesCbcMacKeySize alg (Some 0) = (WOLFCOSE_SUCCESS, Some k)))"
  (is "?a \<and> ?b \<and> ?c \<and> ?d")
proof (intro conjI)
  show ?a by (auto simp: wolfCose_MacTagSize_def wolfCose_IsHmacAlg_def wolfCose_IsAesCbcMacAlg_def)
  show ?b by (auto simp: wolfCose_HmacType_def wolfCose_IsHmacAlg_def)
  show ?c by (auto simp: wolfCose_MacTagSize_def wolfCose_HmacCheckKeyLen_def wolfCose_IsHmacAlg_def)
  show ?d by (auto simp: wolfCose_MacTagSize_def wolfCose_AesCbcMacKeySize_def wolfCose_IsAesCbcMacAlg_def)
qed

lemma mac_tables_witness:
  "wolfCose_HmacCheckKeyLen full_build WOLFCOSE_ALG_HMAC_256_256 31 \<noteq> WOLFCOSE_SUCCESS \<and>
   wolfCose_HmacCheckKeyLen full_build WOLFCOSE_ALG_HMAC_256_256 32 = WOLFCOSE_SUCCESS"
proof -
  have "wolfCose_MacTagSize full_build WOLFCOSE_ALG_HMAC_256_256 (Some 0) = (WOLFCOSE_SUCCESS, Some 32)"
    "wolfCose_IsHmacAlg full_build WOLFCOSE_ALG_HMAC_256_256" "\<not> allow_short_hmac_key full_build"
    by (simp_all add: wolfCose_MacTagSize_def wolfCose_IsHmacAlg_def full_build_def)
  then show ?thesis using mac_tables [of full_build WOLFCOSE_ALG_HMAC_256_256] by auto
qed

end
