(* ===== verification/Cose_Msg.thy ===== *)
theory Cose_Msg
  imports Cose_Struct
begin

text \<open>
  What the message functions (\<open>src/wolfcose_mac0.c\<close>, \<open>src/wolfcose_encrypt0.c\<close>) have in common: the
  zeroing of buffers, stages that run while the return code is \<open>WOLFCOSE_SUCCESS\<close>, and the stages that
  read a message up to its payload. A function's local variables are the record its stages pass on.
\<close>

section \<open>Zeroing\<close>

definition wolfCose_ForceZero :: "cptr \<Rightarrow> size \<Rightarrow> cptr" where
  "wolfCose_ForceZero mem len =
     (if mem \<noteq> None \<and> len > 0 then map_option (splice 0 (replicate len 0)) mem else mem)"

text \<open>A store of \<open>bs\<close> at \<open>&m[off]\<close>; the flag is set when it leaves the memory.\<close>

definition store_bytes :: "size \<Rightarrow> u8 list \<Rightarrow> cptr \<Rightarrow> cptr \<times> bool" where
  "store_bytes off bs m =
     (if off + length bs \<le> mem_len m then (map_option (splice off bs) m, False) else (m, True))"

section \<open>Reading a message\<close>

record cose_msg =
  msg_ctx :: cbor_ctx
  msg_hdr :: cose_hdr
  msg_state :: hdr_state          \<comment> \<open>hdrState\<close>
  msg_algProtected :: bool
  msg_protected :: cptr           \<comment> \<open>protectedData\<close>
  msg_protectedLen :: size
  msg_payload :: cptr             \<comment> \<open>payloadData\<close>
  msg_payloadLen :: size          \<comment> \<open>payloadDataLen\<close>
  msg_verify :: cptr              \<comment> \<open>verifyPayload\<close>
  msg_verifyLen :: size           \<comment> \<open>verifyPayloadLen\<close>
  msg_tag :: cptr                 \<comment> \<open>macTag\<close>
  msg_tagLen :: size              \<comment> \<open>macTagLen\<close>

definition msg_start :: "cbor_ctx \<Rightarrow> cose_msg" where
  "msg_start ctx = \<lparr> msg_ctx = ctx, msg_hdr = hdr_zero, msg_state = hdr_empty, msg_algProtected = False,
     msg_protected = None, msg_protectedLen = 0, msg_payload = None, msg_payloadLen = 0,
     msg_verify = None, msg_verifyLen = 0, msg_tag = None, msg_tagLen = 0 \<rparr>"

definition msg_read_tag :: "build \<Rightarrow> u32 \<Rightarrow> u64 \<Rightarrow> cose_msg \<Rightarrow> rc \<times> cose_msg" where
  "msg_read_tag b flags tagNo s =
     (let ctx = msg_ctx s
      in if ctx_idx ctx < ctx_bufSz ctx \<and> wc_CBOR_PeekType ctx = WOLFCOSE_CBOR_TAG
         then (case wolfCose_CBOR_DecodeTag_ex b ctx 0 flags of (ret, ctx, tag) \<Rightarrow>
           (if ret = WOLFCOSE_SUCCESS \<and> tag \<noteq> tagNo then WOLFCOSE_E_COSE_BAD_TAG else ret, s\<lparr>msg_ctx := ctx\<rparr>))
         else (WOLFCOSE_SUCCESS, s))"

definition msg_read_array :: "build \<Rightarrow> u32 \<Rightarrow> size \<Rightarrow> cose_msg \<Rightarrow> rc \<times> cose_msg" where
  "msg_read_array b flags n s =
     (case wolfCose_CBOR_DecodeArrayStart_ex b (msg_ctx s) 0 flags of (ret, ctx, arrayCount) \<Rightarrow>
        (if ret = WOLFCOSE_SUCCESS \<and> arrayCount \<noteq> n then WOLFCOSE_E_CBOR_MALFORMED else ret, s\<lparr>msg_ctx := ctx\<rparr>))"

definition msg_read_protected :: "build \<Rightarrow> u32 \<Rightarrow> cose_msg \<Rightarrow> rc \<times> cose_msg" where
  "msg_read_protected b flags s =
     (case wolfCose_CBOR_DecodeBstr_ex b (msg_ctx s) (msg_protected s, msg_protectedLen s) flags of
        (ret, ctx, p, n) \<Rightarrow> (ret, s\<lparr>msg_ctx := ctx, msg_protected := p, msg_protectedLen := n\<rparr>))"

definition msg_parse_protected :: "build \<Rightarrow> u32 \<Rightarrow> cose_msg \<Rightarrow> rc \<times> cose_msg" where
  "msg_parse_protected b flags s =
     (case wolfCose_DecodeProtectedHdr_ex b (msg_protected s) (msg_protectedLen s) (msg_hdr s) (msg_state s) flags of
        (ret, hdr, st) \<Rightarrow> (ret, s\<lparr>msg_hdr := hdr, msg_state := st,
           msg_algProtected := (if ret = WOLFCOSE_SUCCESS then wolfCose_HdrStateContains st WOLFCOSE_HDR_ALG
                                else msg_algProtected s)\<rparr>))"

definition msg_parse_unprotected :: "build \<Rightarrow> u32 \<Rightarrow> cose_msg \<Rightarrow> rc \<times> cose_msg" where
  "msg_parse_unprotected b flags s =
     (case wolfCose_DecodeUnprotectedHdr_ex b (msg_ctx s) (msg_hdr s) (msg_state s) flags of
        (ret, ctx, hdr, st) \<Rightarrow> (ret, s\<lparr>msg_ctx := ctx, msg_hdr := hdr, msg_state := st\<rparr>))"

text \<open>Tag, array and both header buckets, as every message begins.\<close>

definition msg_headers :: "build \<Rightarrow> u32 \<Rightarrow> u64 \<Rightarrow> size \<Rightarrow> cose_msg \<Rightarrow> rc \<times> cose_msg" where
  "msg_headers b flags tagNo n s =
     (let r = msg_read_tag b flags tagNo s;
          r = on_success r (msg_read_array b flags n);
          r = on_success r (msg_read_protected b flags);
          r = on_success r (msg_parse_protected b flags)
      in on_success r (msg_parse_unprotected b flags))"

definition next_is_null :: "cbor_ctx \<Rightarrow> bool" where
  "next_is_null ctx \<longleftrightarrow> ctx_idx ctx < ctx_bufSz ctx \<and> cbuf_at ctx ! 0 = WOLFCOSE_CBOR_NULL"

definition msg_read_payload :: "build \<Rightarrow> u32 \<Rightarrow> cptr \<Rightarrow> size \<Rightarrow> cose_msg \<Rightarrow> rc \<times> cose_msg" where
  "msg_read_payload b flags detachedPayload detachedLen s =
     (let ctx = msg_ctx s; hdr = msg_hdr s
      in if next_is_null ctx then
           let s = s\<lparr>msg_ctx := ctx\<lparr>ctx_idx := ctx_idx ctx + 1\<rparr>, msg_payload := None, msg_payloadLen := 0,
                     msg_hdr := hdr\<lparr>hdr_flags := hdr_flags hdr OR WOLFCOSE_HDR_FLAG_DETACHED\<rparr>\<rparr>
           in if detachedPayload = None then (WOLFCOSE_E_DETACHED_PAYLOAD, s)
              else (WOLFCOSE_SUCCESS, s\<lparr>msg_verify := detachedPayload, msg_verifyLen := detachedLen\<rparr>)
         else (case wolfCose_CBOR_DecodeBstr_ex b ctx (msg_payload s, msg_payloadLen s) flags of (ret, ctx, p, n) \<Rightarrow>
           (ret, if ret = WOLFCOSE_SUCCESS
                 then s\<lparr>msg_ctx := ctx, msg_payload := p, msg_payloadLen := n, msg_verify := p, msg_verifyLen := n\<rparr>
                 else s\<lparr>msg_ctx := ctx, msg_payload := p, msg_payloadLen := n\<rparr>)))"

definition msg_read_mac :: "build \<Rightarrow> u32 \<Rightarrow> cose_msg \<Rightarrow> rc \<times> cose_msg" where
  "msg_read_mac b flags s =
     (case wolfCose_CBOR_DecodeBstr_ex b (msg_ctx s) (msg_tag s, msg_tagLen s) flags of
        (ret, ctx, p, n) \<Rightarrow> (ret, s\<lparr>msg_ctx := ctx, msg_tag := p, msg_tagLen := n\<rparr>))"

definition msg_at_end :: "cose_msg \<Rightarrow> rc \<times> cose_msg" where
  "msg_at_end s =
     (if ctx_idx (msg_ctx s) \<noteq> ctx_bufSz (msg_ctx s) then WOLFCOSE_E_CBOR_MALFORMED else WOLFCOSE_SUCCESS, s)"

section \<open>Stages in sequence\<close>

text \<open>
  A stage is entered in a state with \<open>P\<close> and \<open>E\<close> and leaves one with \<open>E\<close>, and with \<open>Q\<close> when it
  succeeds; \<open>E\<close> is what the clean-up after any outcome relies on.
\<close>

definition staged :: "('s \<Rightarrow> bool) \<Rightarrow> ('s \<Rightarrow> bool) \<Rightarrow> rc \<times> 's \<Rightarrow> bool" where
  "staged E P r \<longleftrightarrow> E (snd r) \<and> (fst r = WOLFCOSE_SUCCESS \<longrightarrow> P (snd r))"

lemma staged_next:
  assumes "staged E P r" "\<And>w. E w \<Longrightarrow> P w \<Longrightarrow> staged E Q (f w)"
  shows "staged E Q (on_success r f)"
  using assms by (auto simp: staged_def on_success_def)

lemma staged_live:
  assumes "staged E P r" "L \<longrightarrow> fst r = WOLFCOSE_SUCCESS"
    and "\<And>w. E w \<Longrightarrow> P w \<Longrightarrow> L \<longrightarrow> fst (f w) = WOLFCOSE_SUCCESS"
  shows "L \<longrightarrow> fst (on_success r f) = WOLFCOSE_SUCCESS"
  using assms by (auto simp: staged_def on_success_def)

text \<open>
  A stage that succeeds exactly when \<open>C\<close>, then leaves the state \<open>w\<close>, and otherwise one with \<open>E\<close>.
\<close>

definition settles :: "('s \<Rightarrow> bool) \<Rightarrow> bool \<Rightarrow> 's \<Rightarrow> rc \<times> 's \<Rightarrow> bool" where
  "settles E C w r \<longleftrightarrow> (if fst r = WOLFCOSE_SUCCESS then C \<and> snd r = w else \<not> C \<and> E (snd r))"

lemma settlesI:
  "(C \<Longrightarrow> r = (WOLFCOSE_SUCCESS, w)) \<Longrightarrow> (\<not> C \<Longrightarrow> fst r \<noteq> WOLFCOSE_SUCCESS \<and> E (snd r)) \<Longrightarrow> settles E C w r"
  by (cases C) (auto simp: settles_def)

lemma settles_next:
  assumes "settles E C w r" "C \<Longrightarrow> settles E D w' (f w)"
  shows "settles E (C \<and> D) w' (on_success r f)"
  using assms by (auto simp: settles_def on_success_def split: if_splits)

lemma ForceZero_Some [simp]:
  "wolfCose_ForceZero (Some m) n = Some (splice 0 (replicate n 0) m)"
  by (simp add: wolfCose_ForceZero_def splice_def)

lemma ForceZero_shape:
  assumes "drop n m' = drop n m"
  shows "wolfCose_ForceZero (Some m') n = Some (splice 0 (replicate n 0) m)"
  by (simp only: ForceZero_Some splice_def length_replicate add_0 take_0 append_Nil assms)

lemma drop_splice_0: "length bs \<le> n \<Longrightarrow> drop n (splice 0 bs m) = drop n m"
  by (simp add: splice_def)

text \<open>A buffer of the caller after writes within its first \<open>sz\<close> bytes.\<close>

definition within :: "u8 list \<Rightarrow> size \<Rightarrow> cptr \<Rightarrow> bool" where
  "within m sz p \<longleftrightarrow> (\<exists>m'. p = Some m' \<and> length m' = length m \<and> drop sz m' = drop sz m)"

lemma within_self [simp]: "within m sz (Some m)"
  by (simp add: within_def)

lemma within_splice: "length bs \<le> sz \<Longrightarrow> sz \<le> length m \<Longrightarrow> within m sz (Some (splice 0 bs m))"
  by (simp add: within_def drop_splice_0)

lemma within_zero: "within m sz p \<Longrightarrow> wolfCose_ForceZero p sz = Some (splice 0 (replicate sz 0) m)"
  unfolding within_def using ForceZero_shape by blast

lemma within_cases: "within m sz p \<Longrightarrow> \<exists>m'. p = Some m' \<and> length m' = length m \<and> drop sz m' = drop sz m"
  by (simp add: within_def)

lemma within_store:
  assumes "within m sz p" "off + length bs \<le> sz" "sz \<le> length m"
  shows "\<exists>p'. store_bytes off bs p = (p', False) \<and> within m sz p'"
  using assms by (auto simp: within_def store_bytes_def splice_def)

lemma within_frame:
  assumes "out_frame (fresh m sz) c"
  shows "within m sz (ctx_buf c)"
  using assms by (auto simp: out_frame_def fresh_def within_def enc_ctx_def)

lemma fresh_ctx: "sz \<le> length m \<Longrightarrow> enc_ctx (fresh m sz)"
  by (simp add: enc_ctx_def fresh_def)

lemma append_out_within:
  assumes "osz \<le> length mo" "length bs \<le> osz"
  shows "within mo osz (ctx_buf (append_out (fresh mo osz) bs))"
  using assms within_splice by (simp add: append_out_def fresh_def)

lemma HdrClearOnFail_simps [simp]:
  "wolfCose_HdrClearOnFail WOLFCOSE_SUCCESS hdr = hdr"
  "ret \<noteq> WOLFCOSE_SUCCESS \<Longrightarrow> wolfCose_HdrClearOnFail ret hdr = map_option (\<lambda>_. hdr_zero) hdr"
  by (cases hdr; simp add: wolfCose_HdrClearOnFail_def)+

lemma length_alg_hdr: "length (alg_hdr alg) \<le> 11"
  by (simp add: alg_hdr_def cbor_int_def length_cbor_head)

lemma splice_prefix:
  assumes "length bs \<le> length m"
  shows "bytes_at (Some (splice 0 bs m)) (length bs) = bs"
  using assms by (simp add: bytes_at_def splice_def)

lemma readable_splice:
  assumes "length bs \<le> length m" "length bs < 2 ^ 64"
  shows "readable (Some (splice 0 bs m)) (length bs)"
  using assms by (simp add: readable_def)

section \<open>The stages only move the cursor\<close>

definition stage_moves :: "(cose_msg \<Rightarrow> rc \<times> cose_msg) \<Rightarrow> bool" where
  "stage_moves f \<longleftrightarrow> (\<forall>s. dec_ctx (msg_ctx s) \<longrightarrow> moves (msg_ctx s) (msg_ctx (snd (f s))))"

lemma stage_movesI:
  "(\<And>s ret s'. dec_ctx (msg_ctx s) \<Longrightarrow> f s = (ret, s') \<Longrightarrow> moves (msg_ctx s) (msg_ctx s')) \<Longrightarrow> stage_moves f"
  unfolding stage_moves_def by (metis prod.collapse)

lemma stage_moves_seq:
  assumes "stage_moves f" "stage_moves g"
  shows "stage_moves (\<lambda>s. on_success (f s) g)"
proof (rule stage_movesI)
  fix s ret s' assume d: "dec_ctx (msg_ctx s)" and r: "on_success (f s) g = (ret, s')"
  have m: "moves (msg_ctx s) (msg_ctx (snd (f s)))" using assms(1) d by (simp add: stage_moves_def)
  have "moves (msg_ctx (snd (f s))) (msg_ctx (snd (g (snd (f s)))))"
    using assms(2) moves_dec_ctx [OF d m] by (simp add: stage_moves_def)
  then show "moves (msg_ctx s) (msg_ctx s')"
    using r m moves_trans [OF d m] by (auto simp: on_success_def split: if_splits)
qed

lemma moves_Tag: "dec_ctx c \<Longrightarrow> wolfCose_CBOR_DecodeTag_ex b c out flags = (ret, c', t) \<Longrightarrow> moves c c'"
  by (rule moves_reader [OF tag_r.cbor_reader_axioms])

lemma moves_unprotected:
  "dec_ctx c \<Longrightarrow> wolfCose_DecodeUnprotectedHdr_ex b c hdr st flags = (ret, c', hdr', st') \<Longrightarrow> moves c c'"
  by (auto simp: wolfCose_DecodeUnprotectedHdr_ex_def split: prod.splits dest: unprotected_moves)

lemma next_is_null_iff:
  assumes "dec_ctx c"
  shows "next_is_null c \<longleftrightarrow> (\<exists>r. inp c = 0xF6 # r)"
proof (cases "ctx_idx c < ctx_bufSz c")
  case True
  then have "inp c \<noteq> []" using length_inp [OF assms] by auto
  then show ?thesis using True cbuf_at_0 [OF assms] by (cases "inp c") (auto simp: next_is_null_def WOLFCOSE_CBOR_NULL_def)
next
  case False
  then show ?thesis using length_inp [OF assms] by (auto simp: next_is_null_def)
qed

lemma moves_null:
  assumes "dec_ctx c" "next_is_null c"
  shows "moves c (advance c (Suc 0))"
proof -
  have "Suc 0 \<le> length (inp c)" using assms next_is_null_iff by (auto simp del: length_inp)
  then show ?thesis unfolding moves_def by blast
qed

lemma advance_1: "c\<lparr>ctx_idx := ctx_idx c + 1\<rparr> = advance c (Suc 0)" "c\<lparr>ctx_idx := Suc (ctx_idx c)\<rparr> = advance c (Suc 0)"
  by (simp_all add: advance_def)

lemma msg_stages_move:
  "stage_moves (msg_read_tag b flags tagNo)" "stage_moves (msg_read_array b flags n)"
  "stage_moves (msg_read_protected b flags)" "stage_moves (msg_parse_protected b flags)"
  "stage_moves (msg_parse_unprotected b flags)" "stage_moves (msg_read_payload b flags dp dn)"
  "stage_moves (msg_read_mac b flags)" "stage_moves msg_at_end"
proof -
  show "stage_moves (msg_read_tag b flags tagNo)"
    by (rule stage_movesI) (auto simp: msg_read_tag_def Let_def split: if_splits prod.splits dest: moves_Tag)
  show "stage_moves (msg_read_array b flags n)"
    by (rule stage_movesI) (auto simp: msg_read_array_def split: prod.splits dest: moves_Array)
  show "stage_moves (msg_read_protected b flags)" "stage_moves (msg_read_mac b flags)"
    by (rule stage_movesI; auto simp: msg_read_protected_def msg_read_mac_def split: prod.splits dest: moves_Bstr)+
  show "stage_moves (msg_parse_protected b flags)" "stage_moves msg_at_end"
    by (rule stage_movesI; auto simp: msg_parse_protected_def msg_at_end_def split: prod.splits if_splits)+
  show "stage_moves (msg_parse_unprotected b flags)"
    by (rule stage_movesI) (auto simp: msg_parse_unprotected_def split: prod.splits dest: moves_unprotected)
  show "stage_moves (msg_read_payload b flags dp dn)"
    by (rule stage_movesI) (auto simp: msg_read_payload_def Let_def advance_1 split: prod.splits if_splits
        dest: moves_Bstr intro: moves_null)
qed

lemma msg_headers_moves: "stage_moves (msg_headers b flags tagNo n)"
  unfolding msg_headers_def [abs_def] Let_def by (intro stage_moves_seq msg_stages_move)

section \<open>What was read\<close>

definition cose_headers :: "build \<Rightarrow> u8 list \<Rightarrow> entry list \<Rightarrow> entry list \<Rightarrow> cose_hdr \<Rightarrow> bool" where
  "cose_headers b prot pes ues hdr \<longleftrightarrow>
     (if prot = [] then pes = [] else protected_map b prot pes) \<and>
     unprotected_map b (fst ` set pes) ues \<and> hdr_fields (pes @ ues) hdr_zero hdr \<and>
     \<not> (hdr_iv hdr \<noteq> None \<and> hdr_partialIv hdr \<noteq> None)"

text \<open>The leading part of a message: \<open>tagNo\<close> is optional, the array has \<open>n\<close> elements.\<close>

definition msg_prefix :: "nat \<Rightarrow> nat \<Rightarrow> u8 list \<Rightarrow> entry list \<Rightarrow> u8 list \<Rightarrow> bool" where
  "msg_prefix tagNo n prot ues bs \<longleftrightarrow> (\<exists>tg \<in> {[], cbor_head 6 tagNo}.
     bs = tg @ cbor_head 4 n @ str_bytes 2 prot @ cbor_head 5 (length ues) @ entries_bytes ues)"

text \<open>The payload, null when it is detached.\<close>

definition payload_bytes :: "u8 list option \<Rightarrow> u8 list" where
  "payload_bytes p = (case p of None \<Rightarrow> [0xF6] | Some p \<Rightarrow> str_bytes 2 p)"

lemma hdr_fields_append:
  assumes "hdr_fields es h0 h1" "hdr_fields fs h1 h2" "fst ` set es \<inter> fst ` set fs = {}"
  shows "hdr_fields (es @ fs) h0 h2"
proof -
  have n: "\<And>l t. (l, t) \<in> set es \<Longrightarrow> l \<notin> fst ` set fs" "\<And>l t. (l, t) \<in> set fs \<Longrightarrow> l \<notin> fst ` set es"
    using assms(3) by force+
  show ?thesis
    using assms(1,2) n unfolding hdr_fields_def by (auto simp: image_Un)
qed


lemma Bstr_pointer:
  assumes "dec_ctx c" "wolfCose_CBOR_DecodeBstr_ex b c out 0 = (WOLFCOSE_SUCCESS, c', p, n)"
  shows "\<exists>m. p = Some m \<and> n \<le> length m \<and> length m < 2 ^ 63"
proof -
  have e: "wolfCose_CBOR_DecodeBytes_ex b c 2 out 0 = (WOLFCOSE_SUCCESS, c', p, n)"
    using assms(2) by (simp add: wolfCose_CBOR_DecodeBstr_ex_def)
  then obtain item where i: "wolfCose_CBOR_DecodeHead_ex b c local_item 0 = (WOLFCOSE_SUCCESS, c', item)"
      "item_majorType item = 2" "p = item_data item"
    by (auto simp: wolfCose_CBOR_DecodeBytes_ex_def split: prod.splits if_splits)
  then have mt: "item_majorType item = of_nat 2" "(2 :: nat) < 7" by simp_all
  have "item = head_item c 2 (short_ai (unat (item_val item))) (unat (item_val item))"
    using strict_inv_mt [OF assms(1) i(1) mt refl] by blast
  from arg_cong [OF this, of item_data] obtain j where p: "p = Some (drop j (the (ctx_cbuf c)))"
    using i(3) assms(1) by (auto simp: head_item_def elim!: dec_ctxE)
  have "readable p n" using takes_Bstr [OF assms] by blast
  then show ?thesis using p assms(1) by (auto simp: readable_def elim!: dec_ctxE)
qed

lemma on_success_eq_success:
  "on_success r f = (WOLFCOSE_SUCCESS, y) \<longleftrightarrow> (\<exists>x. r = (WOLFCOSE_SUCCESS, x) \<and> f x = (WOLFCOSE_SUCCESS, y))"
  by (cases r) (auto simp: on_success_def)

text \<open>Each stage, in strict mode.\<close>

lemma msg_tag_sound:
  assumes "dec_ctx (msg_ctx s)" "msg_read_tag b 0 tagNo s = (WOLFCOSE_SUCCESS, s')"
  shows "\<exists>c. s' = s\<lparr>msg_ctx := c\<rparr> \<and> (\<exists>tg \<in> {[], cbor_head 6 (unat tagNo)}. inp (msg_ctx s) = tg @ inp c)"
proof (cases "ctx_idx (msg_ctx s) < ctx_bufSz (msg_ctx s) \<and> wc_CBOR_PeekType (msg_ctx s) = WOLFCOSE_CBOR_TAG")
  case True
  obtain ret c tag where t: "wolfCose_CBOR_DecodeTag_ex b (msg_ctx s) 0 0 = (ret, c, tag)" by (metis prod_cases3)
  then have ok: "ret = WOLFCOSE_SUCCESS" "tag = tagNo" "s' = s\<lparr>msg_ctx := c\<rparr>"
    using assms(2) True by (simp_all add: msg_read_tag_def split: if_splits)
  have "wc_CBOR_DecodeTag b (msg_ctx s) 0 = (WOLFCOSE_SUCCESS, c, tagNo)"
    using t ok by (simp add: wc_CBOR_DecodeTag_def)
  then show ?thesis using tag_c.reads_only [OF assms(1)] ok(3) by blast
next
  case False
  then have "s' = s\<lparr>msg_ctx := msg_ctx s\<rparr>" using assms(2) unfolding msg_read_tag_def Let_def if_not_P [OF False] by simp
  then show ?thesis by fastforce
qed

lemma msg_array_sound:
  assumes "dec_ctx (msg_ctx s)" "msg_read_array b 0 n s = (WOLFCOSE_SUCCESS, s')"
  shows "\<exists>c. s' = s\<lparr>msg_ctx := c\<rparr> \<and> inp (msg_ctx s) = cbor_head 4 n @ inp c"
proof -
  obtain ret c k where t: "wolfCose_CBOR_DecodeArrayStart_ex b (msg_ctx s) 0 0 = (ret, c, k)" by (metis prod_cases3)
  then have ok: "ret = WOLFCOSE_SUCCESS" "k = n" "s' = s\<lparr>msg_ctx := c\<rparr>"
    using assms(2) by (simp_all add: msg_read_array_def split: if_splits)
  have e: "wolfCose_CBOR_DecodeContainerStart_ex b (msg_ctx s) 4 0 0 = (WOLFCOSE_SUCCESS, c, n)"
    using t ok by (simp add: wolfCose_CBOR_DecodeArrayStart_ex_def)
  have u4: "unat (4 :: u8) = 4" by simp
  show ?thesis using DecodeContainer_reads_only [OF assms(1) disjI1 [OF refl] e] ok(3) unfolding u4 by blast
qed

lemma takes_str:
  assumes "dec_ctx c" "wolfCose_CBOR_DecodeBstr_ex b c out 0 = (WOLFCOSE_SUCCESS, c', p, n)"
  shows "inp c = str_bytes 2 (bytes_at p n) @ inp c'" "readable p n" "p \<noteq> None"
proof -
  note h = takes_Bstr [OF assms]
  then have "length (bytes_at p n) = n" by simp
  then show "inp c = str_bytes 2 (bytes_at p n) @ inp c'"
    using h unfolding takes_def str_bytes_def by (simp add: cbor_head_bytes del: inp_advance)
  show "readable p n" "p \<noteq> None" using h by auto
qed

lemma msg_protected_sound:
  assumes "dec_ctx (msg_ctx s)" "msg_read_protected b 0 s = (WOLFCOSE_SUCCESS, s')"
  shows "\<exists>c m n. s' = s\<lparr>msg_ctx := c, msg_protected := Some m, msg_protectedLen := n\<rparr> \<and> n \<le> length m \<and>
    length m < 2 ^ 63 \<and> inp (msg_ctx s) = str_bytes 2 (take n m) @ inp c"
proof -
  obtain ret c p n where t: "wolfCose_CBOR_DecodeBstr_ex b (msg_ctx s) (msg_protected s, msg_protectedLen s) 0
      = (ret, c, p, n)" by (metis prod_cases4)
  then have ok: "ret = WOLFCOSE_SUCCESS" "s' = s\<lparr>msg_ctx := c, msg_protected := p, msg_protectedLen := n\<rparr>"
    using assms(2) by (simp_all add: msg_read_protected_def)
  note t = t [unfolded ok(1)]
  show ?thesis using takes_str(1) [OF assms(1) t] Bstr_pointer [OF assms(1) t] ok(2) by fastforce
qed

lemma msg_parse_protected_sound:
  assumes p: "msg_protected s = Some m" "msg_protectedLen s \<le> length m" "length m < 2 ^ 63"
    and run: "msg_parse_protected b 0 s = (WOLFCOSE_SUCCESS, s')"
  shows "\<exists>es hdr st. s' = s\<lparr>msg_hdr := hdr, msg_state := st, msg_algProtected := (LInt 1 \<in> fst ` set es)\<rparr> \<and>
    (if take (msg_protectedLen s) m = [] then es = [] else protected_map b (take (msg_protectedLen s) m) es) \<and>
    hdr_fields es (msg_hdr s) hdr \<and> hdr_inv b st \<and> hdr_labels st = fst ` set es"
proof -
  let ?n = "msg_protectedLen s"
  obtain ret hdr st where t: "wolfCose_DecodeProtectedHdr_ex b (Some m) ?n (msg_hdr s) (msg_state s) 0 = (ret, hdr, st)"
    by (metis prod_cases3)
  then have ok: "ret = WOLFCOSE_SUCCESS"
    "s' = s\<lparr>msg_hdr := hdr, msg_state := st, msg_algProtected := wolfCose_HdrStateContains st WOLFCOSE_HDR_ALG\<rparr>"
    using run p(1) by (auto simp: msg_parse_protected_def)
  have 1: "hdr_inv b st \<Longrightarrow> hdr_labels st = fst ` set es \<Longrightarrow>
      wolfCose_HdrStateContains st WOLFCOSE_HDR_ALG \<longleftrightarrow> LInt 1 \<in> fst ` set es" for es
    using Contains_iff [of b st WOLFCOSE_HDR_ALG] by (simp add: WOLFCOSE_HDR_ALG_def)
  show ?thesis
  proof (cases "?n = 0")
    case True
    then have "hdr = msg_hdr s" "st = wolfCose_HdrStateInit (msg_state s)"
      using t by (auto simp: wolfCose_DecodeProtectedHdr_ex_def)
    moreover have "s\<lparr>msg_hdr := msg_hdr s\<rparr> = s" by simp
    ultimately show ?thesis using True ok(2) hdr_inv_init 1 [of "[]"]
      by (intro exI [of _ "[]"] exI [of _ "msg_hdr s"] exI [of _ st]) (cases s; auto)
  next
    case False
    then obtain r where r: "protected_run b 0 (Some m) ?n (msg_hdr s) (wolfCose_HdrStateInit (msg_state s)) = (WOLFCOSE_SUCCESS, r)"
      "hdr = pr_hdr r" "st = pr_state r"
      using t ok(1) by (auto simp: wolfCose_DecodeProtectedHdr_ex_def split: prod.splits)
    have ne: "take ?n m \<noteq> []" using False p(2) by auto
    obtain es where es: "protected_map b (take ?n m) es" "hdr_inv b st" "hdr_labels st = fst ` set es"
      "hdr_fields es (msg_hdr s) hdr"
      using protected_run_spec [OF refl p(2,3) _ _ r(1)] hdr_inv_init r(2,3) by metis
    then show ?thesis unfolding if_not_P [OF ne] unfolding ok(2) 1 [OF es(2,3)] by blast
  qed
qed

lemma msg_parse_unprotected_sound:
  assumes "dec_ctx (msg_ctx s)" "hdr_inv b (msg_state s)"
    and run: "msg_parse_unprotected b 0 s = (WOLFCOSE_SUCCESS, s')"
  shows "\<exists>c es hdr st. s' = s\<lparr>msg_ctx := c, msg_hdr := hdr, msg_state := st\<rparr> \<and>
    inp (msg_ctx s) = cbor_head 5 (length es) @ entries_bytes es @ inp c \<and>
    unprotected_map b (hdr_labels (msg_state s)) es \<and> hdr_fields es (msg_hdr s) hdr \<and>
    \<not> (hdr_iv hdr \<noteq> None \<and> hdr_partialIv hdr \<noteq> None)"
proof -
  obtain c hdr st hp where t: "wolfCose_DecodeUnprotectedHdrInternal b (msg_ctx s) (msg_hdr s) (msg_state s) 0 None
      = (WOLFCOSE_SUCCESS, c, hdr, st, hp)" "s' = s\<lparr>msg_ctx := c, msg_hdr := hdr, msg_state := st\<rparr>"
    using run by (auto simp: msg_parse_unprotected_def wolfCose_DecodeUnprotectedHdr_ex_def split: prod.splits)
  show ?thesis using unprotected_spec [OF assms(1,2) t(1)] t(2) by blast
qed

lemma msg_headers_sound:
  assumes d: "dec_ctx (msg_ctx s)" and h0: "msg_hdr s = hdr_zero"
    and run: "msg_headers b 0 tagNo n s = (WOLFCOSE_SUCCESS, s')"
  shows "\<exists>c m k pes ues hdr st pre.
    s' = s\<lparr>msg_ctx := c, msg_protected := Some m, msg_protectedLen := k, msg_hdr := hdr, msg_state := st,
       msg_algProtected := (LInt 1 \<in> fst ` set pes)\<rparr> \<and>
    dec_ctx c \<and> k \<le> length m \<and> length m < 2 ^ 63 \<and> inp (msg_ctx s) = pre @ inp c \<and>
    msg_prefix (unat tagNo) n (take k m) ues pre \<and> cose_headers b (take k m) pes ues hdr"
proof -
  obtain s1 s2 s3 s4 where r: "msg_read_tag b 0 tagNo s = (WOLFCOSE_SUCCESS, s1)"
    "msg_read_array b 0 n s1 = (WOLFCOSE_SUCCESS, s2)" "msg_read_protected b 0 s2 = (WOLFCOSE_SUCCESS, s3)"
    "msg_parse_protected b 0 s3 = (WOLFCOSE_SUCCESS, s4)" "msg_parse_unprotected b 0 s4 = (WOLFCOSE_SUCCESS, s')"
    using run by (auto simp: msg_headers_def Let_def on_success_eq_success)
  have step: "dec_ctx (msg_ctx x) \<Longrightarrow> f x = (WOLFCOSE_SUCCESS, y) \<Longrightarrow> stage_moves f \<Longrightarrow> dec_ctx (msg_ctx y)" for f x y
    unfolding stage_moves_def using moves_dec_ctx by (metis snd_conv)
  have d1: "dec_ctx (msg_ctx s1)" by (rule step [OF d r(1) msg_stages_move(1)])
  have d2: "dec_ctx (msg_ctx s2)" by (rule step [OF d1 r(2) msg_stages_move(2)])
  have d3: "dec_ctx (msg_ctx s3)" by (rule step [OF d2 r(3) msg_stages_move(3)])
  have d4: "dec_ctx (msg_ctx s4)" by (rule step [OF d3 r(4) msg_stages_move(4)])
  have d5: "dec_ctx (msg_ctx s')" by (rule step [OF d4 r(5) msg_stages_move(5)])
  obtain c1 tg where 1: "s1 = s\<lparr>msg_ctx := c1\<rparr>" "tg \<in> {[], cbor_head 6 (unat tagNo)}" "inp (msg_ctx s) = tg @ inp c1"
    using msg_tag_sound [OF d r(1)] by blast
  obtain c2 where 2: "s2 = s1\<lparr>msg_ctx := c2\<rparr>" "inp (msg_ctx s1) = cbor_head 4 n @ inp c2"
    using msg_array_sound [OF d1 r(2)] by blast
  obtain c3 m k where 3: "s3 = s2\<lparr>msg_ctx := c3, msg_protected := Some m, msg_protectedLen := k\<rparr>" "k \<le> length m"
    "length m < 2 ^ 63" "inp (msg_ctx s2) = str_bytes 2 (take k m) @ inp c3"
    using msg_protected_sound [OF d2 r(3)] by blast
  have p3: "msg_protected s3 = Some m" "msg_protectedLen s3 = k" "msg_hdr s3 = hdr_zero" "msg_ctx s3 = c3"
    using 1(1) 2(1) 3(1) h0 by simp_all
  obtain pes h1 st1 where 4: "s4 = s3\<lparr>msg_hdr := h1, msg_state := st1, msg_algProtected := (LInt 1 \<in> fst ` set pes)\<rparr>"
    "if take k m = [] then pes = [] else protected_map b (take k m) pes" "hdr_fields pes hdr_zero h1" "hdr_inv b st1"
    "hdr_labels st1 = fst ` set pes"
    using msg_parse_protected_sound [OF p3(1) _ 3(3) r(4)] unfolding p3 using 3(2) by blast
  have p4: "msg_state s4 = st1" "msg_hdr s4 = h1" "msg_ctx s4 = c3" using 4(1) p3 by simp_all
  obtain c5 ues h2 st2 where 5: "s' = s4\<lparr>msg_ctx := c5, msg_hdr := h2, msg_state := st2\<rparr>"
    "inp c3 = cbor_head 5 (length ues) @ entries_bytes ues @ inp c5" "unprotected_map b (fst ` set pes) ues"
    "hdr_fields ues h1 h2" "\<not> (hdr_iv h2 \<noteq> None \<and> hdr_partialIv h2 \<noteq> None)"
    using msg_parse_unprotected_sound [OF d4 _ r(5)] unfolding p4 4(5) using 4(4) by blast
  have "hdr_fields (pes @ ues) hdr_zero h2"
    using hdr_fields_append [OF 4(3) 5(4)] 5(3) unfolding unprotected_map_def by blast
  then have H: "cose_headers b (take k m) pes ues h2" using 4(2) 5(3,5) unfolding cose_headers_def by blast
  let ?pre = "tg @ cbor_head 4 n @ str_bytes 2 (take k m) @ cbor_head 5 (length ues) @ entries_bytes ues"
  have I: "inp (msg_ctx s) = ?pre @ inp c5"
    using 1(3) 2(2) 3(4) 5(2) unfolding 1(1) 2(1) by simp
  have "msg_prefix (unat tagNo) n (take k m) ues ?pre" using 1(2) unfolding msg_prefix_def by blast
  moreover have "s' = s\<lparr>msg_ctx := c5, msg_protected := Some m, msg_protectedLen := k, msg_hdr := h2, msg_state := st2,
       msg_algProtected := (LInt 1 \<in> fst ` set pes)\<rparr>"
    unfolding 5(1) 4(1) 3(1) 2(1) 1(1) by simp
  moreover have "dec_ctx c5" using d5 unfolding 5(1) by simp
  ultimately show ?thesis using I H 3(2,3) by blast
qed

lemma msg_payload_sound:
  assumes d: "dec_ctx (msg_ctx s)" and dp: "readable dp dn"
    and run: "msg_read_payload b 0 dp dn s = (WOLFCOSE_SUCCESS, s')"
  shows "\<exists>c p n. inp (msg_ctx s) = payload_bytes (if p = None then None else Some (bytes_at p n)) @ inp c \<and>
    dec_ctx c \<and> readable p n \<and> (p = None \<longrightarrow> dp \<noteq> None \<and> n = 0) \<and>
    s' = s\<lparr>msg_ctx := c, msg_payload := p, msg_payloadLen := n, msg_verify := (if p = None then dp else p),
      msg_verifyLen := (if p = None then dn else n), msg_hdr := (msg_hdr s)\<lparr>hdr_flags :=
        (if p = None then hdr_flags (msg_hdr s) OR WOLFCOSE_HDR_FLAG_DETACHED else hdr_flags (msg_hdr s))\<rparr>\<rparr>"
proof -
  have m: "moves (msg_ctx s) (msg_ctx s')"
    using msg_stages_move(6) [of b 0 dp dn] d run unfolding stage_moves_def by (metis snd_conv)
  have d': "dec_ctx (msg_ctx s')" by (rule moves_dec_ctx [OF d m])
  show ?thesis
  proof (cases "next_is_null (msg_ctx s)")
    case True
    note r = run [unfolded msg_read_payload_def Let_def if_P [OF True]]
    have dn: "dp \<noteq> None" using r by (simp split: if_splits)
    have s': "s' = s\<lparr>msg_ctx := advance (msg_ctx s) (Suc 0), msg_payload := None, msg_payloadLen := 0,
        msg_hdr := (msg_hdr s)\<lparr>hdr_flags := hdr_flags (msg_hdr s) OR WOLFCOSE_HDR_FLAG_DETACHED\<rparr>, msg_verify := dp,
        msg_verifyLen := dn\<rparr>"
      using r dn unfolding advance_1 by simp
    obtain x where "inp (msg_ctx s) = 0xF6 # x" using True next_is_null_iff [OF d] by blast
    then have "inp (msg_ctx s) = payload_bytes None @ inp (advance (msg_ctx s) (Suc 0))" by (simp add: payload_bytes_def)
    moreover have "dec_ctx (advance (msg_ctx s) (Suc 0))" using d' unfolding s' by simp
    ultimately show ?thesis using dn s'
      by (intro exI [of _ "advance (msg_ctx s) (Suc 0)"] exI [of _ None] exI [of _ 0]) (simp del: inp_advance)
  next
    case False
    obtain ret c p n where t: "wolfCose_CBOR_DecodeBstr_ex b (msg_ctx s) (msg_payload s, msg_payloadLen s) 0 = (ret, c, p, n)"
      by (metis prod_cases4)
    have r: "ret = WOLFCOSE_SUCCESS" "s' = s\<lparr>msg_ctx := c, msg_payload := p, msg_payloadLen := n, msg_verify := p, msg_verifyLen := n\<rparr>"
      using run [unfolded msg_read_payload_def Let_def if_not_P [OF False] t prod.case] by (auto split: if_splits)
    note h = takes_str [OF d t [unfolded r(1)]]
    have "inp (msg_ctx s) = payload_bytes (Some (bytes_at p n)) @ inp c" using h(1) by (simp add: payload_bytes_def del: inp_advance)
    moreover obtain x where p: "p = Some x" using h(3) by blast
    ultimately show ?thesis using h(2) d' unfolding r(2) p
      by (intro exI [of _ c] exI [of _ "Some x"] exI [of _ n]) (cases s; simp del: inp_advance)
  qed
qed

lemma msg_mac_sound:
  assumes d: "dec_ctx (msg_ctx s)" and run: "msg_read_mac b 0 s = (WOLFCOSE_SUCCESS, s')"
  shows "\<exists>c t n. s' = s\<lparr>msg_ctx := c, msg_tag := Some t, msg_tagLen := n\<rparr> \<and> n \<le> length t \<and> n < 2 ^ 64 \<and>
    inp (msg_ctx s) = str_bytes 2 (take n t) @ inp c"
proof -
  obtain ret c p n where t: "wolfCose_CBOR_DecodeBstr_ex b (msg_ctx s) (msg_tag s, msg_tagLen s) 0 = (ret, c, p, n)"
    by (metis prod_cases4)
  then have r: "ret = WOLFCOSE_SUCCESS" "s' = s\<lparr>msg_ctx := c, msg_tag := p, msg_tagLen := n\<rparr>"
    using run by (simp_all add: msg_read_mac_def)
  note h = takes_str [OF d t [unfolded r(1)]]
  then obtain m where "p = Some m" by blast
  then show ?thesis using h r(2) by auto
qed

text \<open>Setting a flag leaves what the headers say.\<close>

lemma hdr_fields_flags [simp]: "hdr_fields es h (h'\<lparr>hdr_flags := f\<rparr>) \<longleftrightarrow> hdr_fields es h h'"
  by (simp add: hdr_fields_def)

lemma cose_headers_flags [simp]: "cose_headers b prot pes ues (h\<lparr>hdr_flags := f\<rparr>) \<longleftrightarrow> cose_headers b prot pes ues h"
  by (simp add: cose_headers_def)

section \<open>Reading back what was written\<close>

lemma reads_Bstr:
  assumes "dec_ctx c" "inp c = str_bytes 2 x @ rest"
  shows "\<exists>p. wolfCose_CBOR_DecodeBstr_ex b c out 0 = (WOLFCOSE_SUCCESS, advance c (length (str_bytes 2 x)), Some p, length x) \<and>
    take (length x) p = x \<and> length x \<le> length p \<and> length p < 2 ^ 63"
proof -
  have u2: "unat (2 :: u8) = 2" by simp
  have i: "inp c = cbor_head (unat (2 :: u8)) (length x) @ x @ rest" using assms(2) by (simp add: str_bytes_def)
  let ?p = "drop (ctx_idx c + length (cbor_head 2 (length x))) (the (ctx_cbuf c))"
  have r: "wolfCose_CBOR_DecodeBstr_ex b c out 0 = (WOLFCOSE_SUCCESS, advance c (length (str_bytes 2 x)), Some ?p, length x)"
    using DecodeBytes_reads [OF assms(1) i, of b out] by (simp add: wolfCose_CBOR_DecodeBstr_ex_def str_bytes_def)
  note h = takes_str [OF assms(1) r] and q = Bstr_pointer [OF assms(1) r]
  have "length (take (length x) ?p) = length x" using q by auto
  then have "take (length x) ?p = x"
    using h(1) assms(2) unfolding str_bytes_def bytes_at_simps by simp
  then show ?thesis using r q by auto
qed

lemma unprotected_label_new:
  assumes inv: "hdr_inv b hst" "hdr_inv b st" and l: "label_ok l" "label_at e l" "label_room b st l"
    and new: "label_of l \<noteq> LInt 2" "label_of l \<notin> hdr_labels st" "label_of l \<notin> hdr_labels hst"
  shows "\<exists>st'. unprotected_label b hst st l e = (WOLFCOSE_SUCCESS, st') \<and> hdr_inv b st'"
proof -
  obtain ret st' where a: "wolfCose_HdrStateAddLabel b st l e = (ret, st')" by fastforce
  have c: "\<not> wolfCose_HdrStateContainsLabel st l" "\<not> wolfCose_HdrStateContainsLabel hst l"
    using ContainsLabel_iff [OF inv(1) l(1)] ContainsLabel_iff [OF inv(2) l(1)] new by blast+
  have "sint (WOLFCOSE_HDR_CRIT :: i64) = 2" by (simp add: WOLFCOSE_HDR_CRIT_def)
  then have "\<not> wc_CBOR_LabelIsInt (Some l) WOLFCOSE_HDR_CRIT" using new(1) by (simp add: LabelIsInt_iff)
  then show ?thesis using AddLabel_spec [OF inv(2) l(2) a] l(3) new(2) a c unfolding unprotected_label_def by auto
qed

text \<open>A key identifier (4) or an IV (5) as the only entry.\<close>

lemma unprotected_entry_bstr:
  fixes v :: i64
  assumes d: "dec_ctx (un_ctx s)" and v: "v = 4 \<or> v = 5"
    and i: "inp (un_ctx s) = cbor_int (sint v) @ str_bytes 2 x @ rest"
    and inv: "hdr_inv b hst" "hdr_inv b (un_state s)" "hdr_labels (un_state s) = {}" "LInt (sint v) \<notin> hdr_labels hst"
  shows "\<exists>s' p. unprotected_entry b 0 hst s = (WOLFCOSE_SUCCESS, s') \<and>
    un_ctx s' = advance (un_ctx s) (length (cbor_int (sint v) @ str_bytes 2 x)) \<and> take (length x) p = x \<and>
    length x \<le> length p \<and> length p < 2 ^ 63 \<and>
    un_hdr s' = (if v = 4 then (un_hdr s)\<lparr>hdr_kid := Some p, hdr_kidLen := length x\<rparr>
                 else (un_hdr s)\<lparr>hdr_iv := Some p, hdr_ivLen := length x\<rparr>)"
proof -
  let ?l = "\<lparr> label_val = v, label_text = None, label_textLen = 0, label_isText = False \<rparr>"
  let ?c1 = "advance (un_ctx s) (length (cbor_int (sint v)))"
  have l: "wolfCose_CBOR_DecodeLabel_ex b (un_ctx s) local_label 0 = (WOLFCOSE_SUCCESS, ?c1, ?l)"
    using DecodeLabel_reads_int [OF d i, of b local_label] by (simp add: wc_CBOR_DecodeLabel_def)
  have lo: "label_ok ?l" "label_at (encoded_label (un_ctx s)) ?l" "label_of ?l = LInt (sint v)" "label_room b (un_state s) ?l"
    using v by (auto simp: label_ok_def label_at_def label_of_def label_room_def small_label_def)
  have ne: "LInt (sint v) \<noteq> LInt 2" using v by auto
  obtain st' where st: "unprotected_label b hst (un_state s) ?l (encoded_label (un_ctx s)) = (WOLFCOSE_SUCCESS, st')"
    using unprotected_label_new [OF inv(1,2) lo(1,2,4)] ne inv(3,4) unfolding lo(3) by auto
  have i1: "inp ?c1 = str_bytes 2 x @ rest" unfolding inp_advance i by simp
  have "length (cbor_int (sint v)) \<le> length (inp (un_ctx s))" unfolding i by simp
  then have d1: "dec_ctx ?c1" using d dec_ctx_advance by blast
  let ?s = "s\<lparr>un_ctx := ?c1, un_state := st'\<rparr>"
  have e: "unprotected_entry b 0 hst s = unprotected_value b 0 ?l ?s" using l st by (simp add: unprotected_entry_def)
  have is4: "wc_CBOR_LabelIsInt (Some ?l) w \<longleftrightarrow> v = w" for w by (auto simp: wc_CBOR_LabelIsInt_def)
  show ?thesis
  proof (cases "v = 4")
    case True
    obtain p where p: "wolfCose_CBOR_DecodeBstr_ex b ?c1 (hdr_kid (un_hdr s), hdr_kidLen (un_hdr s)) 0 =
        (WOLFCOSE_SUCCESS, advance ?c1 (length (str_bytes 2 x)), Some p, length x)" "take (length x) p = x" "length x \<le> length p"
        "length p < 2 ^ 63" using reads_Bstr [OF d1 i1] by blast
    have "unprotected_value b 0 ?l ?s = (WOLFCOSE_SUCCESS, ?s\<lparr>un_ctx := advance ?c1 (length (str_bytes 2 x)),
        un_hdr := (un_hdr s)\<lparr>hdr_kid := Some p, hdr_kidLen := length x\<rparr>\<rparr>)"
      unfolding unprotected_value_def Let_def is4 using True p(1) by (simp add: WOLFCOSE_HDR_KID_def)
    then show ?thesis using p True unfolding e by (intro exI conjI) auto
  next
    case False
    then have v5: "v = 5" using v by blast
    obtain p where p: "wolfCose_CBOR_DecodeBstr_ex b ?c1 (hdr_iv (un_hdr s), hdr_ivLen (un_hdr s)) 0 =
        (WOLFCOSE_SUCCESS, advance ?c1 (length (str_bytes 2 x)), Some p, length x)" "take (length x) p = x" "length x \<le> length p"
        "length p < 2 ^ 63" using reads_Bstr [OF d1 i1] by blast
    have "unprotected_value b 0 ?l ?s = (WOLFCOSE_SUCCESS, ?s\<lparr>un_ctx := advance ?c1 (length (str_bytes 2 x)),
        un_hdr := (un_hdr s)\<lparr>hdr_iv := Some p, hdr_ivLen := length x\<rparr>\<rparr>)"
      unfolding unprotected_value_def Let_def is4 using v5 p(1) by (simp add: WOLFCOSE_HDR_KID_def WOLFCOSE_HDR_IV_def)
    then show ?thesis using p v5 unfolding e by (intro exI conjI) auto
  qed
qed

definition one_entry :: "(i64 \<times> u8 list) option \<Rightarrow> u8 list" where
  "one_entry e = (case e of None \<Rightarrow> cbor_head 5 0 | Some (v, x) \<Rightarrow> cbor_head 5 1 @ cbor_int (sint v) @ str_bytes 2 x)"

definition one_field :: "(i64 \<times> u8 list) option \<Rightarrow> cose_hdr \<Rightarrow> cose_hdr \<Rightarrow> bool" where
  "one_field e h h' \<longleftrightarrow> (case e of None \<Rightarrow> h' = h
     | Some (v, x) \<Rightarrow> \<exists>p. take (length x) p = x \<and> length x \<le> length p \<and> length p < 2 ^ 63 \<and>
         h' = (if v = 4 then h\<lparr>hdr_kid := Some p, hdr_kidLen := length x\<rparr> else h\<lparr>hdr_iv := Some p, hdr_ivLen := length x\<rparr>))"

lemma DecodeUnprotectedHdr_reads:
  assumes d: "dec_ctx c" and i: "inp c = one_entry e @ rest" and inv: "hdr_inv b hst" "hdr_labels hst = {LInt 1}"
    and b: "1 \<le> max_map_items b" and e: "\<forall>v x. e = Some (v, x) \<longrightarrow> v = 4 \<or> v = 5"
    and h: "hdr_iv hdr = None" "hdr_partialIv hdr = None"
  shows "\<exists>hdr' hst'. wolfCose_DecodeUnprotectedHdr_ex b c hdr hst 0 =
    (WOLFCOSE_SUCCESS, advance c (length (one_entry e)), hdr', hst') \<and> one_field e hdr hdr'"
proof -
  let ?s = "\<lambda>c1. \<lparr> un_ctx = c1, un_hdr = hdr, un_state = wolfCose_HdrStateInit hdr_empty, un_hpke = None \<rparr>"
  have u5: "unat (5 :: u8) = 5" by simp
  show ?thesis
  proof (cases e)
    case None
    have i0: "inp c = cbor_head (unat (5 :: u8)) 0 @ rest" using i None by (simp add: one_entry_def)
    have m: "wolfCose_CBOR_DecodeMapStart_ex b c 0 0 = (WOLFCOSE_SUCCESS, advance c (length (cbor_head 5 0)), 0)"
      using DecodeContainer_reads [OF d i0 _ flags_valid_0, of b 0] by (simp add: wolfCose_CBOR_DecodeMapStart_ex_def)
    have "wolfCose_DecodeUnprotectedHdr_ex b c hdr hst 0 = (WOLFCOSE_SUCCESS, advance c (length (cbor_head 5 0)), hdr,
        hst\<lparr>labelBits := labelBits hst OR labelBits (wolfCose_HdrStateInit hdr_empty)\<rparr>)"
      unfolding wolfCose_DecodeUnprotectedHdr_ex_def wolfCose_DecodeUnprotectedHdrInternal_def m prod.case
      using h by simp
    then show ?thesis using None by (simp add: one_entry_def one_field_def)
  next
    case (Some vx)
    obtain v x where vx: "e = Some (v, x)" using Some by (cases vx) simp
    let ?body = "cbor_int (sint v) @ str_bytes 2 x"
    have i0: "inp c = cbor_head (unat (5 :: u8)) 1 @ (?body @ rest)" using i vx by (simp add: one_entry_def)
    have ge: "2 * 1 \<le> length (?body @ rest)"
    proof -
      have "1 \<le> length (cbor_int (sint v))" "1 \<le> length (str_bytes 2 x)"
        by (simp_all add: cbor_int_def str_bytes_def length_cbor_head)
      then show ?thesis by simp
    qed
    let ?c1 = "advance c (length (cbor_head 5 1))"
    have m: "wolfCose_CBOR_DecodeMapStart_ex b c 0 0 = (WOLFCOSE_SUCCESS, ?c1, 1)"
      using DecodeContainer_reads [OF d i0 _ flags_valid_0, of b 0] ge by (simp add: wolfCose_CBOR_DecodeMapStart_ex_def)
    have d1: "dec_ctx ?c1" by (rule moves_dec_ctx [OF d moves_Map [OF d m]])
    have i1: "inp ?c1 = cbor_int (sint v) @ str_bytes 2 x @ rest" unfolding inp_advance i0 by simp
    have nl: "LInt (sint v) \<notin> hdr_labels hst" using e [rule_format, OF vx] unfolding inv(2) by (elim disjE) simp_all
    obtain s' p where s': "unprotected_entry b 0 hst (?s ?c1) = (WOLFCOSE_SUCCESS, s')"
      "un_ctx s' = advance ?c1 (length ?body)" "take (length x) p = x" "length x \<le> length p" "length p < 2 ^ 63"
      "un_hdr s' = (if v = 4 then hdr\<lparr>hdr_kid := Some p, hdr_kidLen := length x\<rparr>
                 else hdr\<lparr>hdr_iv := Some p, hdr_ivLen := length x\<rparr>)"
      using unprotected_entry_bstr [of "?s ?c1" v x rest b hst, unfolded unprot.simps, OF d1 e [rule_format, OF vx] i1 inv(1) hdr_inv_init nl]
      by (elim exE conjE) (rule that; assumption)
    have rep: "repeat_ok 1 (unprotected_entry b 0 hst) (?s ?c1) = (WOLFCOSE_SUCCESS, s')" using s'(1) by simp
    have iv: "\<not> (hdr_iv (un_hdr s') \<noteq> None \<and> hdr_partialIv (un_hdr s') \<noteq> None)" using s'(6) h by simp
    have "wolfCose_DecodeUnprotectedHdr_ex b c hdr hst 0 = (WOLFCOSE_SUCCESS, un_ctx s', un_hdr s',
        hst\<lparr>labelBits := labelBits hst OR labelBits (un_state s')\<rparr>)"
      unfolding wolfCose_DecodeUnprotectedHdr_ex_def wolfCose_DecodeUnprotectedHdrInternal_def m prod.case rep
      using b iv by (simp only: fst_conv snd_conv flags_valid_0 not_not simp_thms if_True if_False) simp
    then show ?thesis unfolding vx s'(2) one_entry_def one_field_def using s'(3-6) by (simp add: ac_simps) blast
  qed
qed

lemma peek_cbor_head:
  assumes "dec_ctx c" "inp c = cbor_head mt v @ rest" "mt < 8"
  shows "wc_CBOR_PeekType c = of_nat mt" "ctx_idx c < ctx_bufSz c"
proof -
  have ai: "short_ai v < 32" by (auto simp: short_ai_def)
  have i: "inp c = of_nat (32 * mt + short_ai v) # be_bytes (arg_width (short_ai v)) v @ rest"
    by (simp add: assms(2) cbor_head_bytes head_bytes_def)
  show "ctx_idx c < ctx_bufSz c" by (rule peek_head(2) [OF assms(1) i])
  show "wc_CBOR_PeekType c = of_nat mt"
    using peek_head(1) [OF assms(1) i] head_byte_of_nat [of mt] assms(3) ai by (simp del: of_nat_add of_nat_mult)
qed

lemma msg_tag_reads:
  assumes d: "dec_ctx (msg_ctx s)" and tg: "tg \<in> {[], cbor_head 6 (unat tagNo)}"
    and i: "inp (msg_ctx s) = tg @ cbor_head 4 n @ rest"
  shows "msg_read_tag b 0 tagNo s = (WOLFCOSE_SUCCESS, s\<lparr>msg_ctx := advance (msg_ctx s) (length tg)\<rparr>)"
proof (cases "tg = []")
  case True
  then have "inp (msg_ctx s) = cbor_head 4 n @ rest" using i by simp
  from peek_cbor_head(1) [OF d this] have pk: "\<not> (ctx_idx (msg_ctx s) < ctx_bufSz (msg_ctx s) \<and>
      wc_CBOR_PeekType (msg_ctx s) = WOLFCOSE_CBOR_TAG)" by simp
  show ?thesis unfolding msg_read_tag_def Let_def if_not_P [OF pk] using True by simp
next
  case False
  then have t: "tg = cbor_head 6 (unat tagNo)" using tg by blast
  note i' = i [unfolded t]
  have r: "wolfCose_CBOR_DecodeTag_ex b (msg_ctx s) 0 0 = (WOLFCOSE_SUCCESS, advance (msg_ctx s) (length tg), tagNo)"
    using tag_c.reads [OF d i', of b 0] t by (simp add: wc_CBOR_DecodeTag_def)
  have pk: "ctx_idx (msg_ctx s) < ctx_bufSz (msg_ctx s) \<and> wc_CBOR_PeekType (msg_ctx s) = WOLFCOSE_CBOR_TAG"
    using peek_cbor_head [OF d i'] by simp
  show ?thesis unfolding msg_read_tag_def Let_def if_P [OF pk] r by simp
qed

lemma msg_headers_reads:
  assumes d: "dec_ctx (msg_ctx s)" and h0: "msg_hdr s = hdr_zero" and b: "1 \<le> max_map_items b"
    and tg: "tg \<in> {[], cbor_head 6 (unat tagNo)}"
    and i: "inp (msg_ctx s) = tg @ cbor_head 4 n @ str_bytes 2 (alg_hdr alg) @ one_entry e @ rest"
    and n: "n \<le> 4" and e: "\<forall>v x. e = Some (v, x) \<longrightarrow> v = 4 \<or> v = 5"
  shows "\<exists>m hdr st. msg_headers b 0 tagNo n s = (WOLFCOSE_SUCCESS, s\<lparr>
      msg_ctx := advance (msg_ctx s) (length (tg @ cbor_head 4 n @ str_bytes 2 (alg_hdr alg) @ one_entry e)),
      msg_protected := Some m, msg_protectedLen := length (alg_hdr alg), msg_hdr := hdr, msg_state := st, msg_algProtected := True\<rparr>) \<and>
    take (length (alg_hdr alg)) m = alg_hdr alg \<and> one_field e (hdr_zero\<lparr>hdr_alg := alg\<rparr>) hdr"
proof -
  let ?c = "msg_ctx s"
  let ?T = tg and ?A = "cbor_head 4 n" and ?P = "str_bytes 2 (alg_hdr alg)"
  let ?c1 = "advance ?c (length ?T)" let ?c2 = "advance ?c1 (length ?A)" let ?c3 = "advance ?c2 (length ?P)"
  let ?c4 = "advance ?c3 (length (one_entry e))"
  have step: "dec_ctx c \<Longrightarrow> inp c = x @ r \<Longrightarrow> dec_ctx (advance c (length x)) \<and> inp (advance c (length x)) = r" for c x r
    by (simp add: dec_ctx_advance del: length_inp)
  have 1: "dec_ctx ?c1" "inp ?c1 = ?A @ ?P @ one_entry e @ rest" using step [OF d i] by blast+
  have 2: "dec_ctx ?c2" "inp ?c2 = ?P @ one_entry e @ rest" using step [OF 1] by blast+
  have 3: "dec_ctx ?c3" "inp ?c3 = one_entry e @ rest" using step [OF 2] by blast+
  have s1: "msg_read_tag b 0 tagNo s = (WOLFCOSE_SUCCESS, s\<lparr>msg_ctx := ?c1\<rparr>)"
    by (rule msg_tag_reads [OF d tg i])
  have u4: "inp ?c1 = cbor_head (unat (4 :: u8)) n @ (?P @ one_entry e @ rest)" using 1(2) by simp
  have len: "n \<le> length (?P @ one_entry e @ rest)"
  proof -
    have "3 \<le> length (alg_hdr alg)" by (simp add: alg_hdr_def cbor_int_def length_cbor_head)
    moreover have "1 \<le> length (cbor_head 2 (length (alg_hdr alg)))" by (simp add: length_cbor_head)
    ultimately have "4 \<le> length ?P" unfolding str_bytes_def by simp
    then show ?thesis using n by simp
  qed
  have s2: "msg_read_array b 0 n (s\<lparr>msg_ctx := ?c1\<rparr>) = (WOLFCOSE_SUCCESS, s\<lparr>msg_ctx := ?c2\<rparr>)"
    using DecodeContainer_reads [OF 1(1) u4 _ flags_valid_0, of b 0] len
    by (simp add: msg_read_array_def wolfCose_CBOR_DecodeArrayStart_ex_def)
  obtain m where m: "wolfCose_CBOR_DecodeBstr_ex b ?c2 (msg_protected s, msg_protectedLen s) 0 =
      (WOLFCOSE_SUCCESS, ?c3, Some m, length (alg_hdr alg))" "take (length (alg_hdr alg)) m = alg_hdr alg" "length m < 2 ^ 63"
    using reads_Bstr [OF 2] by blast
  let ?s3 = "s\<lparr>msg_ctx := ?c3, msg_protected := Some m, msg_protectedLen := length (alg_hdr alg)\<rparr>"
  have s3: "msg_read_protected b 0 (s\<lparr>msg_ctx := ?c2\<rparr>) = (WOLFCOSE_SUCCESS, ?s3)" using m(1) by (simp add: msg_read_protected_def)
  obtain st where st: "wolfCose_DecodeProtectedHdr_ex b (Some m) (length (alg_hdr alg)) hdr_zero (msg_state s) 0 =
      (WOLFCOSE_SUCCESS, hdr_zero\<lparr>hdr_alg := alg\<rparr>, st)" "hdr_inv b st" "hdr_labels st = {LInt 1}"
    using DecodeProtectedHdr_alg_hdr [OF m(2) refl m(3) b, of hdr_zero "msg_state s"]
    by (auto simp: wolfCose_DecodeProtectedHdr_def hdr_zero_def)
  have "wolfCose_HdrStateContains st WOLFCOSE_HDR_ALG" using Contains_iff [OF st(2)] st(3) by (simp add: WOLFCOSE_HDR_ALG_def)
  then have s4: "msg_parse_protected b 0 ?s3 = (WOLFCOSE_SUCCESS, ?s3\<lparr>msg_hdr := hdr_zero\<lparr>hdr_alg := alg\<rparr>, msg_state := st,
      msg_algProtected := True\<rparr>)" using st(1) h0 by (simp add: msg_parse_protected_def)
  have "\<exists>hdr' hst'. wolfCose_DecodeUnprotectedHdr_ex b ?c3 (hdr_zero\<lparr>hdr_alg := alg\<rparr>) st 0 =
      (WOLFCOSE_SUCCESS, ?c4, hdr', hst') \<and> one_field e (hdr_zero\<lparr>hdr_alg := alg\<rparr>) hdr'"
    by (rule DecodeUnprotectedHdr_reads [OF 3 st(2,3) b e]) (simp_all add: hdr_zero_def)
  then obtain hdr' hst' where u: "wolfCose_DecodeUnprotectedHdr_ex b ?c3 (hdr_zero\<lparr>hdr_alg := alg\<rparr>) st 0 =
      (WOLFCOSE_SUCCESS, ?c4, hdr', hst')" "one_field e (hdr_zero\<lparr>hdr_alg := alg\<rparr>) hdr'"
    by blast
  have "msg_headers b 0 tagNo n s = (WOLFCOSE_SUCCESS, ?s3\<lparr>msg_hdr := hdr', msg_state := hst', msg_algProtected := True, msg_ctx := ?c4\<rparr>)"
    unfolding msg_headers_def Let_def s1 on_success_def fst_conv snd_conv if_P [OF refl] s2 s3 s4
    using u(1) by (simp add: msg_parse_unprotected_def)
  then show ?thesis using m(2) u(2) by (intro exI [of _ m] exI [of _ hdr'] exI [of _ hst']) (simp add: ac_simps)
qed

lemma str_not_null:
  assumes "dec_ctx c" "inp c = str_bytes 2 x @ rest"
  shows "\<not> next_is_null c"
proof -
  have h: "str_bytes 2 x = of_nat (64 + short_ai (length x)) # be_bytes (arg_width (short_ai (length x))) (length x) @ x"
    by (simp add: str_bytes_def cbor_head_bytes head_bytes_def)
  have "unat (of_nat (64 + short_ai (length x)) :: u8) = 64 + short_ai (length x)"
    using head_byte_of_nat [of 2 "short_ai (length x)"] by (simp add: short_ai_def)
  then have "of_nat (64 + short_ai (length x)) \<noteq> (0xF6 :: u8)"
    by (auto simp: short_ai_def dest!: arg_cong [of _ "0xF6 :: u8" unat])
  then show ?thesis using assms(2) unfolding next_is_null_iff [OF assms(1)] h by auto
qed

end
