(* ===== verification/Cose_Msg4.thy ===== *)
theory Cose_Msg4
  imports Cose_Msg
begin

text \<open>
  Messages of four fields, COSE_Mac0 and COSE_Sign1: an optional tag and the array of the protected
  header, the unprotected header, the payload and a byte string, the MAC or the signature. The two
  verification functions parse them with the same code up to the tag number
  (\<open>wolfCose_Mac0_Verify_ex\<close>, \<open>wolfCose_Sign1_Verify_ex\<close>).
\<close>

section \<open>The parser\<close>

definition msg_parse :: "build \<Rightarrow> u32 \<Rightarrow> u64 \<Rightarrow> cptr \<Rightarrow> size \<Rightarrow> cptr \<Rightarrow> size \<Rightarrow> rc \<times> cose_msg" where
  "msg_parse b flags tagNo input inSz detachedPayload detachedLen =
     (let ctx0 = \<lparr> ctx_buf = None, ctx_cbuf = None, ctx_bufSz = 0, ctx_idx = 0, ctx_fault = False \<rparr>;
          r = (case wc_CBOR_DecoderInit ctx0 input inSz of (ret, ctx) \<Rightarrow> (ret, msg_start ctx));
          r = on_success r (msg_headers b flags tagNo 4);
          r = on_success r (msg_read_payload b flags detachedPayload detachedLen);
          r = on_success r (msg_read_mac b flags)
      in on_success r msg_at_end)"

section \<open>The bytes\<close>

definition kid_map :: "u8 list option \<Rightarrow> u8 list" where
  "kid_map kid = (case kid of None \<Rightarrow> cbor_head 5 0 | Some k \<Rightarrow> cbor_head 5 1 @ cbor_head 0 4 @ str_bytes 2 k)"

definition kid_of :: "cptr \<Rightarrow> size \<Rightarrow> u8 list option" where
  "kid_of kid kidLen = (if kid \<noteq> None \<and> kidLen > 0 then Some (bytes_at kid kidLen) else None)"

definition msg4_bytes :: "u8 list \<Rightarrow> u8 list option \<Rightarrow> u8 list option \<Rightarrow> u8 list \<Rightarrow> u8 list" where
  "msg4_bytes prot kid payload auth = cbor_head 4 4 @ str_bytes 2 prot @ kid_map kid @
     payload_bytes payload @ str_bytes 2 auth"

section \<open>A parsed message\<close>

lemma msg_parse_safe:
  assumes "inSz \<le> length m" "length m < 2 ^ 63" "msg_parse b flags tagNo (Some m) inSz dp dn = (ret, s)"
  shows "dec_ctx (msg_ctx s)"
proof -
  let ?c = "\<lparr> ctx_buf = None, ctx_cbuf = Some m, ctx_bufSz = inSz, ctx_idx = 0, ctx_fault = False \<rparr>"
  have d: "dec_ctx (msg_ctx (msg_start ?c))" using assms(1,2) by (simp add: dec_ctx_def msg_start_def)
  define f where "f = (\<lambda>s. on_success (on_success (on_success (msg_headers b flags tagNo 4 s)
      (msg_read_payload b flags dp dn)) (msg_read_mac b flags)) msg_at_end)"
  have "stage_moves f" unfolding f_def by (intro stage_moves_seq msg_headers_moves msg_stages_move)
  moreover have "msg_parse b flags tagNo (Some m) inSz dp dn = f (msg_start ?c)"
    by (simp add: msg_parse_def Let_def wc_CBOR_DecoderInit_def f_def)
  ultimately have "moves (msg_ctx (msg_start ?c)) (msg_ctx s)"
    using d assms(3) unfolding stage_moves_def by (metis snd_conv)
  then show ?thesis by (rule moves_dec_ctx [OF d])
qed

lemma msg_parse_sound:
  assumes i: "inSz \<le> length m" "length m < 2 ^ 63" and dp: "readable dp dn"
    and run: "msg_parse b 0 tagNo (Some m) inSz dp dn = (WOLFCOSE_SUCCESS, s)"
  shows "\<exists>mp pes ues pre t. msg_protected s = Some mp \<and> msg_protectedLen s \<le> length mp \<and> length mp < 2 ^ 63 \<and>
    msg_tag s = Some t \<and> msg_tagLen s \<le> length t \<and>
    msg_prefix (unat tagNo) 4 (take (msg_protectedLen s) mp) ues pre \<and>
    take inSz m = pre @ payload_bytes (if msg_payload s = None then None else Some (bytes_at (msg_payload s) (msg_payloadLen s))) @
      str_bytes 2 (take (msg_tagLen s) t) \<and>
    cose_headers b (take (msg_protectedLen s) mp) pes ues (msg_hdr s) \<and>
    (msg_algProtected s \<longleftrightarrow> LInt 1 \<in> fst ` set pes) \<and>
    readable (msg_payload s) (msg_payloadLen s) \<and> (msg_payload s = None \<longrightarrow> dp \<noteq> None \<and> msg_payloadLen s = 0) \<and>
    msg_verify s = (if msg_payload s = None then dp else msg_payload s) \<and>
    msg_verifyLen s = (if msg_payload s = None then dn else msg_payloadLen s)"
proof -
  let ?c = "\<lparr> ctx_buf = None, ctx_cbuf = Some m, ctx_bufSz = inSz, ctx_idx = 0, ctx_fault = False \<rparr>"
  let ?s0 = "msg_start ?c"
  have d: "dec_ctx (msg_ctx ?s0)" and i0: "inp (msg_ctx ?s0) = take inSz m" and h0: "msg_hdr ?s0 = hdr_zero"
    using i by (simp_all add: dec_ctx_def msg_start_def inp_def)
  obtain s1 s2 s3 where r: "msg_headers b 0 tagNo 4 ?s0 = (WOLFCOSE_SUCCESS, s1)"
    "msg_read_payload b 0 dp dn s1 = (WOLFCOSE_SUCCESS, s2)" "msg_read_mac b 0 s2 = (WOLFCOSE_SUCCESS, s3)"
    "msg_at_end s3 = (WOLFCOSE_SUCCESS, s)"
    using run by (auto simp: msg_parse_def Let_def wc_CBOR_DecoderInit_def on_success_eq_success)
  obtain c mp k pes ues hdr st pre where 1: "s1 = ?s0\<lparr>msg_ctx := c, msg_protected := Some mp, msg_protectedLen := k, msg_hdr := hdr,
       msg_state := st, msg_algProtected := (LInt 1 \<in> fst ` set pes)\<rparr>" "dec_ctx c" "k \<le> length mp" "length mp < 2 ^ 63"
    "inp (msg_ctx ?s0) = pre @ inp c" "msg_prefix (unat tagNo) 4 (take k mp) ues pre"
    "cose_headers b (take k mp) pes ues hdr"
    using msg_headers_sound [OF d h0 r(1)] by blast
  have c1: "msg_ctx s1 = c" unfolding 1(1) by simp
  have d1: "dec_ctx (msg_ctx s1)" using 1(2) c1 by simp
  obtain c2 p n where 2: "inp c = payload_bytes (if p = None then None else Some (bytes_at p n)) @ inp c2"
    "dec_ctx c2" "readable p n" "p = None \<longrightarrow> dp \<noteq> None \<and> n = 0"
    "\<exists>f. s2 = s1\<lparr>msg_ctx := c2, msg_payload := p, msg_payloadLen := n, msg_verify := (if p = None then dp else p),
      msg_verifyLen := (if p = None then dn else n), msg_hdr := (msg_hdr s1)\<lparr>hdr_flags := f\<rparr>\<rparr>"
    using msg_payload_sound [OF d1 dp r(2)] unfolding c1 by blast
  then obtain f where s2: "s2 = s1\<lparr>msg_ctx := c2, msg_payload := p, msg_payloadLen := n, msg_verify := (if p = None then dp else p),
      msg_verifyLen := (if p = None then dn else n), msg_hdr := (msg_hdr s1)\<lparr>hdr_flags := f\<rparr>\<rparr>" by blast
  have c2: "msg_ctx s2 = c2" unfolding s2 by simp
  obtain c3 t tn where 3: "s3 = s2\<lparr>msg_ctx := c3, msg_tag := Some t, msg_tagLen := tn\<rparr>" "tn \<le> length t"
    "inp c2 = str_bytes 2 (take tn t) @ inp c3"
    using msg_mac_sound [OF _ r(3)] 2(2) unfolding c2 by blast
  have e: "s = s3" "ctx_idx (msg_ctx s3) = ctx_bufSz (msg_ctx s3)" using r(4) by (simp_all add: msg_at_end_def split: if_splits)
  then have "inp c3 = []" using 3(1) by (simp add: inp_def)
  then have I: "take inSz m = pre @ payload_bytes (if p = None then None else Some (bytes_at p n)) @ str_bytes 2 (take tn t)"
    using 1(5) i0 2(1) 3(3) by simp
  have f: "msg_protected s = Some mp" "msg_protectedLen s = k" "msg_tag s = Some t" "msg_tagLen s = tn" "msg_payload s = p"
    "msg_payloadLen s = n" "msg_hdr s = hdr\<lparr>hdr_flags := f\<rparr>" "msg_algProtected s = (LInt 1 \<in> fst ` set pes)"
    "msg_verify s = (if p = None then dp else p)" "msg_verifyLen s = (if p = None then dn else n)"
    unfolding e(1) 3(1) s2 1(1) by simp_all
  show ?thesis
    unfolding f cose_headers_flags using 1(3,4,6,7) 2(3,4) 3(2) I by blast
qed

section \<open>A message that was written is parsed\<close>

lemma kid_map_entry: "kid_map kid = one_entry (map_option (\<lambda>k. (4, k)) kid)"
  by (cases kid) (simp_all add: kid_map_def one_entry_def cbor_int_def)

lemma msg_payload_reads:
  assumes d: "dec_ctx (msg_ctx s)" and i: "inp (msg_ctx s) = payload_bytes po @ rest" and dp: "po = None \<longrightarrow> dp \<noteq> None"
  shows "\<exists>p. msg_read_payload b 0 dp dn s = (WOLFCOSE_SUCCESS, s\<lparr>msg_ctx := advance (msg_ctx s) (length (payload_bytes po)),
      msg_payload := p, msg_payloadLen := (case po of None \<Rightarrow> 0 | Some x \<Rightarrow> length x),
      msg_verify := (if po = None then dp else p), msg_verifyLen := (case po of None \<Rightarrow> dn | Some x \<Rightarrow> length x),
      msg_hdr := (msg_hdr s)\<lparr>hdr_flags := (if po = None then hdr_flags (msg_hdr s) OR WOLFCOSE_HDR_FLAG_DETACHED
         else hdr_flags (msg_hdr s))\<rparr>\<rparr>) \<and>
    (case po of None \<Rightarrow> p = None | Some x \<Rightarrow> p \<noteq> None \<and> bytes_at p (length x) = x \<and> readable p (length x))"
proof (cases po)
  case None
  have n: "next_is_null (msg_ctx s)" using i None by (simp add: next_is_null_iff [OF d] payload_bytes_def)
  obtain y where y: "dp = Some y" using dp None by blast
  show ?thesis
    unfolding msg_read_payload_def Let_def if_P [OF n] None advance_1 y
    by (intro exI [of _ None]) (simp add: payload_bytes_def)
next
  case (Some x)
  have i': "inp (msg_ctx s) = str_bytes 2 x @ rest" using i Some by (simp add: payload_bytes_def)
  obtain p where p: "wolfCose_CBOR_DecodeBstr_ex b (msg_ctx s) (msg_payload s, msg_payloadLen s) 0 =
      (WOLFCOSE_SUCCESS, advance (msg_ctx s) (length (str_bytes 2 x)), Some p, length x)" "take (length x) p = x"
      "length x \<le> length p" "length p < 2 ^ 63"
    using reads_Bstr [OF d i'] by blast
  have n: "\<not> next_is_null (msg_ctx s)" by (rule str_not_null [OF d i'])
  show ?thesis
    unfolding msg_read_payload_def Let_def if_not_P [OF n] Some p(1) prod.case
    using p by (intro exI [of _ "Some p"]) (cases s; simp add: payload_bytes_def)
qed

lemma msg_parse_reads:
  assumes i: "take inSz m = tg @ msg4_bytes (alg_hdr alg) kid po tag" "tg \<in> {[], cbor_head 6 (unat tagNo)}" "inSz \<le> length m" "length m < 2 ^ 63"
    and b: "1 \<le> max_map_items b" and dp: "po = None \<longrightarrow> dp \<noteq> None"
  shows "\<exists>s h f. msg_parse b 0 tagNo (Some m) inSz dp dn = (WOLFCOSE_SUCCESS, s) \<and>
    bytes_at (msg_protected s) (msg_protectedLen s) = alg_hdr alg \<and> msg_algProtected s \<and>
    one_field (map_option (\<lambda>k. (4, k)) kid) (hdr_zero\<lparr>hdr_alg := alg\<rparr>) h \<and> msg_hdr s = h\<lparr>hdr_flags := f\<rparr> \<and>
    msg_tagLen s = length tag \<and> bytes_at (msg_tag s) (msg_tagLen s) = tag \<and>
    (case po of None \<Rightarrow> msg_payload s = None \<and> msg_payloadLen s = 0 \<and> msg_verify s = dp \<and> msg_verifyLen s = dn
     | Some x \<Rightarrow> msg_payload s \<noteq> None \<and> msg_payloadLen s = length x \<and> bytes_at (msg_payload s) (length x) = x \<and>
         msg_verify s = msg_payload s \<and> msg_verifyLen s = length x)"
proof -
  let ?c = "\<lparr> ctx_buf = None, ctx_cbuf = Some m, ctx_bufSz = inSz, ctx_idx = 0, ctx_fault = False \<rparr>"
  let ?s0 = "msg_start ?c" and ?e = "map_option (\<lambda>k. (4, k)) kid"
  have d: "dec_ctx (msg_ctx ?s0)" and h0: "msg_hdr ?s0 = hdr_zero"
    using i(3,4) by (simp_all add: dec_ctx_def msg_start_def)
  have i0: "inp (msg_ctx ?s0) = tg @ cbor_head 4 4 @ str_bytes 2 (alg_hdr alg) @ one_entry ?e @
      (payload_bytes po @ str_bytes 2 tag @ [])"
    using i(1) by (simp add: msg_start_def inp_def msg4_bytes_def kid_map_entry)
  have e: "\<forall>v x. ?e = Some (v, x) \<longrightarrow> v = 4 \<or> v = 5" by auto
  let ?pre = "tg @ cbor_head 4 4 @ str_bytes 2 (alg_hdr alg) @ one_entry ?e"
  obtain mp h st where 1: "msg_headers b 0 tagNo 4 ?s0 = (WOLFCOSE_SUCCESS, ?s0\<lparr>
      msg_ctx := advance (msg_ctx ?s0) (length ?pre), msg_protected := Some mp, msg_protectedLen := length (alg_hdr alg),
      msg_hdr := h, msg_state := st, msg_algProtected := True\<rparr>)"
    "take (length (alg_hdr alg)) mp = alg_hdr alg" "one_field ?e (hdr_zero\<lparr>hdr_alg := alg\<rparr>) h"
    using msg_headers_reads [OF d h0 b i(2) i0 _ e] by blast
  let ?c1 = "advance (msg_ctx ?s0) (length ?pre)"
  have step: "dec_ctx c \<Longrightarrow> inp c = x @ r \<Longrightarrow> dec_ctx (advance c (length x)) \<and> inp (advance c (length x)) = r" for c x r
    by (simp add: dec_ctx_advance del: length_inp)
  have i0': "inp (msg_ctx ?s0) = ?pre @ payload_bytes po @ str_bytes 2 tag @ []" using i0 by simp
  have 2: "dec_ctx ?c1" "inp ?c1 = payload_bytes po @ str_bytes 2 tag @ []" using step [OF d i0'] by blast+
  let ?c2 = "advance ?c1 (length (payload_bytes po))"
  have 3: "dec_ctx ?c2" "inp ?c2 = str_bytes 2 tag @ []" using step [OF 2] by blast+
  let ?c3 = "advance ?c2 (length (str_bytes 2 tag))"
  have 4: "dec_ctx ?c3" "inp ?c3 = []" using step [OF 3] by blast+
  define s1 where "s1 = ?s0\<lparr>msg_ctx := ?c1, msg_protected := Some mp, msg_protectedLen := length (alg_hdr alg),
      msg_hdr := h, msg_state := st, msg_algProtected := True\<rparr>"
  have c1: "msg_ctx s1 = ?c1" by (simp add: s1_def)
  obtain p f where p: "msg_read_payload b 0 dp dn s1 = (WOLFCOSE_SUCCESS, s1\<lparr>msg_ctx := ?c2,
      msg_payload := p, msg_payloadLen := (case po of None \<Rightarrow> 0 | Some x \<Rightarrow> length x),
      msg_verify := (if po = None then dp else p), msg_verifyLen := (case po of None \<Rightarrow> dn | Some x \<Rightarrow> length x),
      msg_hdr := (msg_hdr s1)\<lparr>hdr_flags := f\<rparr>\<rparr>)"
    "case po of None \<Rightarrow> p = None | Some x \<Rightarrow> p \<noteq> None \<and> bytes_at p (length x) = x \<and> readable p (length x)"
    using msg_payload_reads [of s1 po "str_bytes 2 tag @ []" dp b dn, unfolded c1, OF 2 dp] by blast
  define s2 where "s2 = s1\<lparr>msg_ctx := ?c2,
      msg_payload := p, msg_payloadLen := (case po of None \<Rightarrow> 0 | Some x \<Rightarrow> length x),
      msg_verify := (if po = None then dp else p), msg_verifyLen := (case po of None \<Rightarrow> dn | Some x \<Rightarrow> length x),
      msg_hdr := (msg_hdr s1)\<lparr>hdr_flags := f\<rparr>\<rparr>"
  have c2: "msg_ctx s2 = ?c2" by (simp add: s2_def)
  obtain t where t: "wolfCose_CBOR_DecodeBstr_ex b ?c2 (msg_tag s2, msg_tagLen s2) 0 = (WOLFCOSE_SUCCESS, ?c3, Some t, length tag)"
    "take (length tag) t = tag"
    using reads_Bstr [OF 3] by blast
  define s3 where "s3 = s2\<lparr>msg_ctx := ?c3, msg_tag := Some t, msg_tagLen := length tag\<rparr>"
  have r3: "msg_read_mac b 0 s2 = (WOLFCOSE_SUCCESS, s3)" using t(1) by (simp add: msg_read_mac_def c2 s3_def)
  have "ctx_idx ?c3 = ctx_bufSz ?c3" using 4 length_inp [OF 4(1)] unfolding 4(2) by (auto elim!: dec_ctxE)
  then have r4: "msg_at_end s3 = (WOLFCOSE_SUCCESS, s3)" by (simp add: msg_at_end_def s3_def)
  have r1: "msg_headers b 0 tagNo 4 ?s0 = (WOLFCOSE_SUCCESS, s1)" unfolding s1_def by (rule 1(1))
  have r2: "msg_read_payload b 0 dp dn s1 = (WOLFCOSE_SUCCESS, s2)" unfolding s2_def by (rule p(1))
  have init: "wc_CBOR_DecoderInit \<lparr> ctx_buf = None, ctx_cbuf = None, ctx_bufSz = 0, ctx_idx = 0, ctx_fault = False \<rparr> (Some m) inSz =
      (WOLFCOSE_SUCCESS, ?c)" by (simp add: wc_CBOR_DecoderInit_def)
  have run: "msg_parse b 0 tagNo (Some m) inSz dp dn = (WOLFCOSE_SUCCESS, s3)"
    unfolding msg_parse_def Let_def init prod.case on_success_def fst_conv snd_conv if_P [OF refl] r1 r2 r3 r4 ..
  show ?thesis
    by (rule exI [of _ s3], rule exI [of _ h], rule exI [of _ f])
      (use run 1(2,3) p(2) t(2) in \<open>cases po; simp add: s3_def s2_def s1_def\<close>)
qed

end
