(* ===== verification/Cose_Mac0.thy ===== *)
theory Cose_Mac0
  imports Cose_Mac Cose_Msg4
begin

text \<open>
  COSE_Mac0 (\<open>src/wolfcose_mac0.c\<close>, second half): creating and verifying a message. A function's
  local variables are the record its stages pass on; a stage runs when the return code is still
  \<open>WOLFCOSE_SUCCESS\<close>, as in the code. Buffers passed by the caller are distinct objects.
\<close>

section \<open>Common pieces\<close>

definition WOLFCOSE_TAG_MAC0 :: u64 where [simp]: "WOLFCOSE_TAG_MAC0 = 17"

definition wolfCose_BuildMacStructure ::
  "cptr \<Rightarrow> size \<Rightarrow> cptr \<Rightarrow> size \<Rightarrow> cptr \<Rightarrow> size \<Rightarrow> cptr \<Rightarrow> size \<Rightarrow> size \<Rightarrow> rc \<times> cbor_ctx \<times> size" where
  "wolfCose_BuildMacStructure protectedHdr protectedLen extAad extAadLen payload payloadLen scratch scratchSz
       structLen =
     wolfCose_BuildToBeSignedMaced (Some WOLFCOSE_CTX_MAC0) (length WOLFCOSE_CTX_MAC0) protectedHdr protectedLen
       None 0 extAad extAadLen payload payloadLen scratch scratchSz structLen"

section \<open>Creating a message\<close>

record mac0_work =
  mw_protected :: cptr      \<comment> \<open>protectedBuf\<close>
  mw_protectedLen :: size
  mw_scratch :: cptr
  mw_structLen :: size      \<comment> \<open>macStructLen\<close>
  mw_tag :: cptr            \<comment> \<open>tagBuf\<close>
  mw_tagSz :: size
  mw_out :: cbor_ctx        \<comment> \<open>outCtx\<close>
  mw_fault :: bool          \<comment> \<open>ghost: an access outside a buffer happened\<close>

definition mac0_create_checks ::
  "cose_key option \<Rightarrow> i32 \<Rightarrow> cptr \<Rightarrow> size \<Rightarrow> cptr \<Rightarrow> size \<Rightarrow> cptr \<Rightarrow> size \<Rightarrow> size \<Rightarrow> cptr \<Rightarrow> size \<Rightarrow> cptr \<Rightarrow> size \<Rightarrow>
   size option \<Rightarrow> rc" where
  "mac0_create_checks key alg kid kidLen payload payloadLen detachedPayload detachedLen extAadLen
       scratch scratchSz out outSz outLen =
     (if key = None \<or> scratch = None \<or> out = None \<or> outLen = None then WOLFCOSE_E_INVALID_ARG
      else if \<not> wolfCose_LenFitsWord32 payloadLen \<or> \<not> wolfCose_LenFitsWord32 detachedLen \<or>
              \<not> wolfCose_LenFitsWord32 extAadLen \<or> \<not> wolfCose_LenFitsWord32 scratchSz \<or>
              \<not> wolfCose_LenFitsWord32 outSz then WOLFCOSE_E_INVALID_ARG
      else if payload \<noteq> None \<and> detachedPayload \<noteq> None then WOLFCOSE_E_INVALID_ARG
      else if payload = None \<and> detachedPayload = None then WOLFCOSE_E_INVALID_ARG
      else if kid \<noteq> None \<and> kidLen = 0 \<or> kid = None \<and> kidLen \<noteq> 0 then WOLFCOSE_E_INVALID_ARG
      else if key_kty (the key) \<noteq> WOLFCOSE_KTY_SYMMETRIC then WOLFCOSE_E_COSE_KEY_TYPE
      else if key_alg (the key) \<noteq> WOLFCOSE_ALG_UNSET \<and> key_alg (the key) \<noteq> alg then WOLFCOSE_E_COSE_BAD_ALG
      else WOLFCOSE_SUCCESS)"

definition mac0_size :: "build \<Rightarrow> i32 \<Rightarrow> mac0_work \<Rightarrow> rc \<times> mac0_work" where
  "mac0_size b alg w =
     (case wolfCose_MacTagSize b alg (Some (mw_tagSz w)) of (ret, tagSz) \<Rightarrow> (ret, w\<lparr>mw_tagSz := the tagSz\<rparr>))"

definition mac0_protected :: "build \<Rightarrow> i32 \<Rightarrow> mac0_work \<Rightarrow> rc \<times> mac0_work" where
  "mac0_protected b alg w =
     (case wolfCose_EncodeProtectedHdr alg (mw_protected w) (protected_hdr_max b) (mw_protectedLen w) of
        (ret, c, n) \<Rightarrow> (ret, w\<lparr>mw_protected := ctx_buf c, mw_protectedLen := n,
                              mw_fault := (mw_fault w \<or> ctx_fault c)\<rparr>))"

definition mac0_struct :: "cptr \<Rightarrow> size \<Rightarrow> cptr \<Rightarrow> size \<Rightarrow> size \<Rightarrow> mac0_work \<Rightarrow> rc \<times> mac0_work" where
  "mac0_struct extAad extAadLen macPayload macPayloadLen scratchSz w =
     (case wolfCose_BuildMacStructure (mw_protected w) (mw_protectedLen w) extAad extAadLen
             macPayload macPayloadLen (mw_scratch w) scratchSz (mw_structLen w) of
        (ret, c, n) \<Rightarrow> (ret, w\<lparr>mw_scratch := ctx_buf c, mw_structLen := n,
                              mw_fault := (mw_fault w \<or> ctx_fault c)\<rparr>))"

definition mac0_mac ::
  "build \<Rightarrow> ('h, 'a) wolfcrypt \<Rightarrow> i32 \<Rightarrow> cose_key \<Rightarrow> mac0_work \<Rightarrow> rc \<times> mac0_work" where
  "mac0_mac b W alg key w =
     (case mac_tag b W alg key (mw_scratch w) (mw_structLen w) (mw_tagSz w) (mw_tag w) of
        (ret, tag) \<Rightarrow> (ret, w\<lparr>mw_tag := tag\<rparr>))"

text \<open>The output: tag 17, the array of four, and its elements.\<close>

definition mac0_encode ::
  "cptr \<Rightarrow> size \<Rightarrow> cptr \<Rightarrow> size \<Rightarrow> bool \<Rightarrow> cptr \<Rightarrow> size \<Rightarrow> cptr \<Rightarrow> size \<Rightarrow> cbor_ctx \<Rightarrow> rc \<times> cbor_ctx" where
  "mac0_encode protectedBuf protectedLen kid kidLen isDetached payload payloadLen tagBuf tagSz ctx =
     (let r = wc_CBOR_EncodeTag ctx WOLFCOSE_TAG_MAC0;
          r = on_success r (\<lambda>ctx. wc_CBOR_EncodeArrayStart ctx 4);
          r = on_success r (\<lambda>ctx. wc_CBOR_EncodeBstr ctx protectedBuf protectedLen);
          r = on_success r (\<lambda>ctx. wc_CBOR_EncodeMapStart ctx (if kid \<noteq> None \<and> kidLen > 0 then 1 else 0));
          r = on_success r (\<lambda>ctx. if kid \<noteq> None \<and> kidLen > 0
                then on_success (wc_CBOR_EncodeUint ctx WOLFCOSE_HDR_KID) (\<lambda>ctx. wc_CBOR_EncodeBstr ctx kid kidLen)
                else (WOLFCOSE_SUCCESS, ctx));
          r = on_success r (\<lambda>ctx. if isDetached then wc_CBOR_EncodeNull ctx
                else wc_CBOR_EncodeBstr ctx payload payloadLen)
      in on_success r (\<lambda>ctx. wc_CBOR_EncodeBstr ctx tagBuf tagSz))"

definition mac0_output ::
  "cptr \<Rightarrow> size \<Rightarrow> bool \<Rightarrow> cptr \<Rightarrow> size \<Rightarrow> cptr \<Rightarrow> size \<Rightarrow> mac0_work \<Rightarrow> rc \<times> mac0_work" where
  "mac0_output kid kidLen isDetached payload payloadLen out outSz w =
     (let ctx = \<lparr> ctx_buf = out, ctx_cbuf = None, ctx_bufSz = outSz, ctx_idx = 0, ctx_fault = False \<rparr>
      in case mac0_encode (mw_protected w) (mw_protectedLen w) kid kidLen isDetached payload payloadLen
                (mw_tag w) (mw_tagSz w) ctx of
           (ret, c) \<Rightarrow> (ret, w\<lparr>mw_out := c, mw_fault := (mw_fault w \<or> ctx_fault c)\<rparr>))"

text \<open>The result: return code, scratch, out, \<open>*outLen\<close>, and the ghost flag.\<close>

definition wc_CoseMac0_Create ::
  "build \<Rightarrow> ('h, 'a) wolfcrypt \<Rightarrow> cose_key option \<Rightarrow> i32 \<Rightarrow> cptr \<Rightarrow> size \<Rightarrow> cptr \<Rightarrow> size \<Rightarrow> cptr \<Rightarrow> size \<Rightarrow> cptr \<Rightarrow> size \<Rightarrow>
   cptr \<Rightarrow> size \<Rightarrow> cptr \<Rightarrow> size \<Rightarrow> size option \<Rightarrow> rc \<times> cptr \<times> cptr \<times> size option \<times> bool" where
  "wc_CoseMac0_Create b W key alg kid kidLen payload payloadLen detachedPayload detachedLen extAad extAadLen
       scratch scratchSz out outSz outLen =
     (let isDetached = (detachedPayload \<noteq> None);
          macPayload = (if isDetached then detachedPayload else payload);
          macPayloadLen = (if isDetached then detachedLen else payloadLen);
          w = \<lparr> mw_protected = Some (replicate (protected_hdr_max b) 0), mw_protectedLen = 0, mw_scratch = scratch,
                mw_structLen = 0, mw_tag = Some (replicate (max_digest W) 0), mw_tagSz = 0,
                mw_out = \<lparr> ctx_buf = out, ctx_cbuf = None, ctx_bufSz = outSz, ctx_idx = 0, ctx_fault = False \<rparr>,
                mw_fault = False \<rparr>;
          r = (mac0_create_checks key alg kid kidLen payload payloadLen detachedPayload detachedLen extAadLen
                 scratch scratchSz out outSz outLen, w);
          r = on_success r (mac0_size b alg);
          r = on_success r (mac0_protected b alg);
          r = on_success r (mac0_struct extAad extAadLen macPayload macPayloadLen scratchSz);
          r = on_success r (\<lambda>w. mac0_mac b W alg (the key) w);
          r = on_success r (mac0_output kid kidLen isDetached payload payloadLen out outSz);
          ret = fst r; w = snd r
      in (ret, wolfCose_ForceZero (mw_scratch w) scratchSz,
          if ret = WOLFCOSE_SUCCESS then ctx_buf (mw_out w) else wolfCose_ForceZero (ctx_buf (mw_out w)) outSz,
          if ret = WOLFCOSE_SUCCESS then Some (ctx_idx (mw_out w)) else outLen,
          mw_fault w))"

section \<open>Verifying a message\<close>

definition mac0_parse :: "build \<Rightarrow> u32 \<Rightarrow> cptr \<Rightarrow> size \<Rightarrow> cptr \<Rightarrow> size \<Rightarrow> rc \<times> cose_msg" where
  "mac0_parse b flags = msg_parse b flags WOLFCOSE_TAG_MAC0"

text \<open>The algorithm checks, up to the length of the tag; the expected length is returned.\<close>

definition mac0_alg_checks :: "build \<Rightarrow> cose_key \<Rightarrow> cose_msg \<Rightarrow> rc \<times> size" where
  "mac0_alg_checks b key s =
     (let alg = hdr_alg (msg_hdr s)
      in if key_alg key \<noteq> WOLFCOSE_ALG_UNSET \<and> key_alg key \<noteq> alg then (WOLFCOSE_E_COSE_BAD_ALG, 0)
         else if key_alg key = WOLFCOSE_ALG_UNSET \<and> \<not> msg_algProtected s then (WOLFCOSE_E_COSE_BAD_ALG, 0)
         else (case wolfCose_MacTagSize b alg (Some 0) of (ret, expectedTagSz) \<Rightarrow>
           if ret = WOLFCOSE_SUCCESS \<and> msg_tagLen s \<noteq> the expectedTagSz then (WOLFCOSE_E_MAC_FAIL, the expectedTagSz)
           else (ret, the expectedTagSz)))"

text \<open>Rebuilding the structure, computing the tag and comparing; the result has the scratch buffer.\<close>

definition mac0_check_tag ::
  "build \<Rightarrow> ('h, 'a) wolfcrypt \<Rightarrow> cose_key \<Rightarrow> cptr \<Rightarrow> size \<Rightarrow> cptr \<Rightarrow> size \<Rightarrow> size \<Rightarrow> cose_msg \<Rightarrow> rc \<times> cptr \<times> bool" where
  "mac0_check_tag b W key extAad extAadLen scratch scratchSz expectedTagSz s =
     (case wolfCose_BuildMacStructure (msg_protected s) (msg_protectedLen s) extAad extAadLen
             (msg_verify s) (msg_verifyLen s) scratch scratchSz 0 of (ret, c, macStructLen) \<Rightarrow>
        if ret \<noteq> WOLFCOSE_SUCCESS then (ret, ctx_buf c, ctx_fault c)
        else (case mac_tag b W (hdr_alg (msg_hdr s)) key (ctx_buf c) macStructLen expectedTagSz
                     (Some (replicate (max_digest W) 0)) of (ret, computedTag) \<Rightarrow>
          if ret \<noteq> WOLFCOSE_SUCCESS then (ret, ctx_buf c, ctx_fault c)
          else (if wolfCose_ConstantCompare (the computedTag) (the (msg_tag s)) (of_nat expectedTagSz) \<noteq> 0
                then WOLFCOSE_E_MAC_FAIL else WOLFCOSE_SUCCESS, ctx_buf c, ctx_fault c)))"

definition mac0_verify_checks ::
  "build \<Rightarrow> cose_key option \<Rightarrow> cptr \<Rightarrow> size \<Rightarrow> size \<Rightarrow> size \<Rightarrow> cptr \<Rightarrow> size \<Rightarrow> cose_hdr option \<Rightarrow> cptr option \<Rightarrow>
   size option \<Rightarrow> u32 \<Rightarrow> rc" where
  "mac0_verify_checks b key input inSz detachedLen extAadLen scratch scratchSz hdr payload payloadLen flags =
     (if key = None \<or> input = None \<or> scratch = None \<or> hdr = None \<or> payload = None \<or> payloadLen = None
      then WOLFCOSE_E_INVALID_ARG
      else if \<not> DECODE_FLAGS_VALID b flags then WOLFCOSE_E_INVALID_ARG
      else if \<not> wolfCose_LenFitsWord32 inSz \<or> \<not> wolfCose_LenFitsWord32 detachedLen \<or>
              \<not> wolfCose_LenFitsWord32 extAadLen \<or> \<not> wolfCose_LenFitsWord32 scratchSz
        then WOLFCOSE_E_INVALID_ARG
      else if key_kty (the key) \<noteq> WOLFCOSE_KTY_SYMMETRIC then WOLFCOSE_E_COSE_KEY_TYPE
      else WOLFCOSE_SUCCESS)"

text \<open>The result: return code, \<open>*hdr\<close>, \<open>*payload\<close>, \<open>*payloadLen\<close>, scratch, and the ghost flag.\<close>

definition wolfCose_Mac0_Verify_ex ::
  "build \<Rightarrow> ('h, 'a) wolfcrypt \<Rightarrow> cose_key option \<Rightarrow> cptr \<Rightarrow> size \<Rightarrow> cptr \<Rightarrow> size \<Rightarrow> cptr \<Rightarrow> size \<Rightarrow> cptr \<Rightarrow> size \<Rightarrow>
   cose_hdr option \<Rightarrow> cptr option \<Rightarrow> size option \<Rightarrow> u32 \<Rightarrow>
   rc \<times> cose_hdr option \<times> cptr option \<times> size option \<times> cptr \<times> bool" where
  "wolfCose_Mac0_Verify_ex b W key input inSz detachedPayload detachedLen extAad extAadLen scratch scratchSz
       hdr payload payloadLen flags =
     (let ret0 = mac0_verify_checks b key input inSz detachedLen extAadLen scratch scratchSz hdr payload payloadLen flags;
          (ret, hdr, data, dataLen, scratch, fault) =
            (if ret0 \<noteq> WOLFCOSE_SUCCESS then (ret0, hdr, None, 0, scratch, False)
             else (case mac0_parse b flags input inSz detachedPayload detachedLen of (ret, s) \<Rightarrow>
               if ret \<noteq> WOLFCOSE_SUCCESS
               then (ret, Some (msg_hdr s), msg_payload s, msg_payloadLen s, scratch, ctx_fault (msg_ctx s))
               else (case mac0_alg_checks b (the key) s of (ret, expectedTagSz) \<Rightarrow>
                 if ret \<noteq> WOLFCOSE_SUCCESS
                 then (ret, Some (msg_hdr s), msg_payload s, msg_payloadLen s, scratch, ctx_fault (msg_ctx s))
                 else (case mac0_check_tag b W (the key) extAad extAadLen scratch scratchSz expectedTagSz s of
                   (ret, scratch, fault) \<Rightarrow>
                     (ret, Some (msg_hdr s), msg_payload s, msg_payloadLen s, scratch,
                      ctx_fault (msg_ctx s) \<or> fault)))))
      in (ret, wolfCose_HdrClearOnFail ret hdr,
          if ret = WOLFCOSE_SUCCESS then Some data
          else if payload \<noteq> None \<and> payloadLen \<noteq> None then Some None else payload,
          if ret = WOLFCOSE_SUCCESS then Some dataLen
          else if payload \<noteq> None \<and> payloadLen \<noteq> None then Some 0 else payloadLen,
          wolfCose_ForceZero scratch scratchSz, fault))"

definition wc_CoseMac0_Verify ::
  "build \<Rightarrow> ('h, 'a) wolfcrypt \<Rightarrow> cose_key option \<Rightarrow> cptr \<Rightarrow> size \<Rightarrow> cptr \<Rightarrow> size \<Rightarrow> cptr \<Rightarrow> size \<Rightarrow> cptr \<Rightarrow> size \<Rightarrow>
   cose_hdr option \<Rightarrow> cptr option \<Rightarrow> size option \<Rightarrow>
   rc \<times> cose_hdr option \<times> cptr option \<times> size option \<times> cptr \<times> bool" where
  "wc_CoseMac0_Verify b W key input inSz detachedPayload detachedLen extAad extAadLen scratch scratchSz
       hdr payload payloadLen =
     wolfCose_Mac0_Verify_ex b W key input inSz detachedPayload detachedLen extAad extAadLen scratch scratchSz
       hdr payload payloadLen 0"

end
