(* ===== verification/Cose_Mac0Spec.thy ===== *)
theory Cose_Mac0Spec
  imports Cose_Mac0
begin

text \<open>
  What creating a COSE_Mac0 message promises: when it succeeds, the exact bytes it writes, and clean
  buffers after every outcome.
\<close>

section \<open>The MAC as a function of the bytes\<close>

text \<open>
  Documented behaviour of wolfCrypt: \<open>WC_MAX_DIGEST_SIZE\<close> holds every digest (64 bytes with SHA-512),
  a digest is no longer than that, and an AES block has 16 bytes.
\<close>

definition crypt_ok :: "('h, 'a) wolfcrypt \<Rightarrow> bool" where
  "crypt_ok W \<longleftrightarrow> 64 \<le> max_digest W \<and> max_digest W < 2 ^ 32 \<and>
     (\<forall>h d. hmac_final W h = Some d \<longrightarrow> length d \<le> max_digest W) \<and>
     (\<forall>a blk a' o'. aes_cbc W a blk = Some (a', o') \<longrightarrow> length o' = 16)"

text \<open>The tag over given bytes, of the length the algorithm has.\<close>

definition mac_of ::
  "build \<Rightarrow> ('h, 'a) wolfcrypt \<Rightarrow> i32 \<Rightarrow> cose_key \<Rightarrow> u8 list \<Rightarrow> u8 list \<Rightarrow> bool" where
  "mac_of b W alg key bs tag \<longleftrightarrow> (\<exists>n t. wolfCose_MacTagSize b alg (Some 0) = (WOLFCOSE_SUCCESS, Some n) \<and>
     mac_tag b W alg key (Some bs) (length bs) n (Some (replicate (max_digest W) 0)) = (WOLFCOSE_SUCCESS, Some t) \<and>
     tag = take n t)"

lemma mac_of_unique: "mac_of b W alg key bs t \<Longrightarrow> mac_of b W alg key bs t' \<Longrightarrow> t = t'"
  by (auto simp: mac_of_def)

lemma MacTagSize_out:
  "wolfCose_MacTagSize b alg (Some x) = (case wolfCose_MacTagSize b alg (Some 0) of (ret, n) \<Rightarrow>
     (ret, if ret = WOLFCOSE_SUCCESS then n else Some x))"
  by (simp add: wolfCose_MacTagSize_def)

lemma MacTagSize_le: "wolfCose_MacTagSize b alg (Some 0) = (WOLFCOSE_SUCCESS, Some n) \<Longrightarrow> n \<le> 64 \<and> 0 < n"
  by (auto simp: wolfCose_MacTagSize_def split: if_splits)

lemma mac_tag_prefix:
  assumes "take n m = bs" "length bs = n" "n < 2 ^ 32"
  shows "mac_tag b W alg key (Some m) n sz t = mac_tag b W alg key (Some bs) (length bs) sz t"
proof -
  have n: "unat (of_nat n :: u32) = n" using assms(3) by (simp add: unat_of_nat)
  have "bytes_at (Some m) n = bytes_at (Some bs) n" using assms(1,2) by (simp add: bytes_at_def)
  moreover have "(Some m = None) = (Some bs = None)" by simp
  ultimately show ?thesis
    unfolding mac_tag_def hmac_tag_def aes_mac_tag_def wolfCose_AesCbcMac_def assms(2) n
    by (simp only:)
qed

lemma cbc_block_len:
  assumes "crypt_ok W" "cbc_block W key n blk (a, iv, out) = (ret, a', iv', out')" "length out = 16"
  shows "length out' = 16"
  using assms unfolding crypt_ok_def by (auto simp: cbc_block_def split: option.splits prod.splits)

lemma cbc_rounds_len:
  assumes "crypt_ok W" "repeat_ok n (cbc_round W key k data) (i, a, iv, out) = (ret, i', a', iv', out')" "length out = 16"
  shows "length out' = 16"
proof -
  have "(\<lambda>(i, a, iv, out). length out = 16) (snd (repeat_ok n (cbc_round W key k data) (i, a, iv, out)))"
  proof (rule repeat_ok_invariant)
    fix s :: "size \<times> 'b \<times> u8 list \<times> u8 list"
    obtain i a iv out where s: "s = (i, a, iv, out)" by (metis prod_cases4)
    assume "(\<lambda>(i, a, iv, out). length out = 16) s"
    then show "(\<lambda>(i, a, iv, out). length out = 16) (snd (cbc_round W key k data s))"
      unfolding s using cbc_block_len [OF assms(1)]
      by (auto simp: cbc_round_def split: prod.splits)
  qed (simp add: assms(3))
  then show ?thesis using assms(2) by simp
qed

lemma AesCbcMac_len:
  assumes W: "crypt_ok W" and t: "tagLen \<le> length t"
    and r: "wolfCose_AesCbcMac W key k data n (Some t) tagLen = (ret, tag')"
  shows "\<exists>t'. tag' = Some t' \<and> length t' = length t"
proof (cases "key = None \<or> tagLen > AES_BLOCK_SIZE \<or> data = None \<and> 0 < n \<or> aes_init W = None")
  case True
  then show ?thesis using r by (auto simp: wolfCose_AesCbcMac_def split: option.splits if_splits)
next
  case False
  then obtain a where a: "aes_init W = Some a" by blast
  let ?bs = "bytes_at data n" and ?z = "replicate 16 (0 :: u8)"
  obtain r1 i a1 iv1 o1 where s: "repeat_ok (n div 16) (cbc_round W key k ?bs) (0, a, ?z, ?z) = (r1, i, a1, iv1, o1)"
    by (metis prod_cases5)
  have o1: "length o1 = 16" by (rule cbc_rounds_len [OF W s]) simp
  let ?blk = "take (n mod 16) (drop (n div 16 * 16) ?bs) @ replicate (16 - n mod 16) 0"
  obtain r2 a2 iv2 o2 where s2: "(if r1 = WOLFCOSE_SUCCESS \<and> n mod 16 > 0 then cbc_block W key k ?blk (a1, iv1, o1)
      else (r1, a1, iv1, o1)) = (r2, a2, iv2, o2)" by (metis prod_cases4)
  have f: "\<not> (key = None \<or> Some t = None \<or> tagLen > AES_BLOCK_SIZE \<or> (data = None \<and> n > 0))" using False by blast
  have o2: "length o2 = 16" using s2 o1 cbc_block_len [OF W _ o1] by (auto split: if_splits)
  have "tag' = (if r2 = WOLFCOSE_SUCCESS then Some (splice 0 (take tagLen o2) t) else Some t)"
    using r unfolding wolfCose_AesCbcMac_def AES_BLOCK_SIZE_def if_not_P [OF f [unfolded AES_BLOCK_SIZE_def]] a option.case Let_def s prod.case s2
    by (auto split: if_splits)
  then show ?thesis using o2 t by auto
qed

lemma mac_tag_len:
  assumes W: "crypt_ok W" and sz: "wolfCose_MacTagSize b alg (Some 0) = (WOLFCOSE_SUCCESS, Some sz)"
    and t: "length t = max_digest W" and r: "mac_tag b W alg key scr n sz (Some t) = (ret, tag')"
  shows "\<exists>t'. tag' = Some t' \<and> length t' = max_digest W"
proof (cases "wolfCose_IsHmacAlg b alg")
  case True
  then have "hmac_tag b W alg key scr n (Some t) = (ret, tag')" using r by (simp add: mac_tag_def)
  then show ?thesis using W t unfolding crypt_ok_def
    by (auto simp: hmac_tag_def Let_def split: prod.splits option.splits if_splits)
next
  case False
  have "sz \<le> length t" using MacTagSize_le [OF sz] W t by (simp add: crypt_ok_def)
  from AesCbcMac_len [OF W this] show ?thesis
    using r False t by (auto simp: mac_tag_def aes_mac_tag_def split: prod.splits if_splits)
qed

section \<open>The bytes of a COSE_Mac0\<close>

definition mac0_bytes :: "u8 list \<Rightarrow> u8 list option \<Rightarrow> u8 list option \<Rightarrow> u8 list \<Rightarrow> u8 list" where
  "mac0_bytes prot kid payload tag = cbor_head 6 17 @ msg4_bytes prot kid payload tag"

lemma mac0_encode_writes:
  assumes "readable p n" "kid \<noteq> None \<and> kidLen > 0 \<longrightarrow> readable kid kidLen" "\<not> detached \<longrightarrow> readable pl pln" "readable t tn"
  shows "cbor_writer (mac0_encode p n kid kidLen detached pl pln t tn)
    (mac0_bytes (bytes_at p n) (if kid \<noteq> None \<and> kidLen > 0 then Some (bytes_at kid kidLen) else None)
       (if detached then None else Some (bytes_at pl pln)) (bytes_at t tn))"
proof -
  let ?k = "kid \<noteq> None \<and> kidLen > 0"
  let ?d = "if detached then [0xF6] else str_bytes 2 (bytes_at pl pln)"
  have k: "cbor_writer (\<lambda>ctx. if ?k then on_success (wc_CBOR_EncodeUint ctx WOLFCOSE_HDR_KID)
        (\<lambda>ctx. wc_CBOR_EncodeBstr ctx kid kidLen) else (WOLFCOSE_SUCCESS, ctx))
      (if ?k then cbor_head 0 (unat WOLFCOSE_HDR_KID) @ str_bytes 2 (bytes_at kid kidLen) else [])"
    using writer_seq [OF uint.cbor_writer_axioms [of WOLFCOSE_HDR_KID] writer_str(1)] assms(2) writer_nothing by auto
  have d: "cbor_writer (\<lambda>ctx. if detached then wc_CBOR_EncodeNull ctx else wc_CBOR_EncodeBstr ctx pl pln) ?d"
    using null_val.cbor_writer_axioms writer_str(1) [of pl pln] assms(3) by simp
  have "cbor_writer (mac0_encode p n kid kidLen detached pl pln t tn)
     ((((((cbor_head 6 (unat WOLFCOSE_TAG_MAC0) @ cbor_head 4 (4 mod 2 ^ 64)) @ str_bytes 2 (bytes_at p n)) @
        cbor_head 5 ((if ?k then 1 else 0) mod 2 ^ 64)) @
        (if ?k then cbor_head 0 (unat WOLFCOSE_HDR_KID) @ str_bytes 2 (bytes_at kid kidLen) else [])) @ ?d) @
        str_bytes 2 (bytes_at t tn))"
    unfolding mac0_encode_def [abs_def] Let_def
    by (intro writer_seq array.cbor_writer_axioms map.cbor_writer_axioms tag.cbor_writer_axioms writer_str(1) k d assms(1,4))
  then show ?thesis
    by (cases kid; cases "kidLen = 0"; cases detached; simp add: mac0_bytes_def msg4_bytes_def kid_map_def payload_bytes_def)
qed

section \<open>Creation\<close>

text \<open>The buffers of the caller, and the invariant of the stages on them.\<close>

definition mac0_inv :: "u8 list \<Rightarrow> size \<Rightarrow> u8 list \<Rightarrow> size \<Rightarrow> mac0_work \<Rightarrow> bool" where
  "mac0_inv ms msz mo osz w \<longleftrightarrow> \<not> mw_fault w \<and> within ms msz (mw_scratch w) \<and> within mo osz (ctx_buf (mw_out w))"

lemma mac0_size_stage:
  assumes "mac0_inv ms msz mo osz w"
  shows "staged (mac0_inv ms msz mo osz) (\<lambda>w'. \<exists>n. wolfCose_MacTagSize b alg (Some 0) = (WOLFCOSE_SUCCESS, Some n) \<and>
     w' = w\<lparr>mw_tagSz := n\<rparr>) (mac0_size b alg w)"
proof -
  obtain ret n where m: "wolfCose_MacTagSize b alg (Some 0) = (ret, n)" by fastforce
  have "n \<noteq> None" using m by (auto simp: wolfCose_MacTagSize_def split: if_splits)
  then show ?thesis
    using assms MacTagSize_out [of b alg "mw_tagSz w"] m
    by (auto simp: mac0_size_def staged_def mac0_inv_def)
qed

lemma mac0_protected_stage:
  assumes "mac0_inv ms msz mo osz w" "mw_protected w = Some p" "length p = protected_hdr_max b"
  shows "staged (mac0_inv ms msz mo osz) (\<lambda>w'. length (alg_hdr alg) \<le> protected_hdr_max b \<and>
     w' = w\<lparr>mw_protected := Some (splice 0 (alg_hdr alg) p), mw_protectedLen := length (alg_hdr alg)\<rparr>)
     (mac0_protected b alg w)"
  using EncodeProtectedHdr_spec [of "protected_hdr_max b" p alg "mw_protectedLen w"] assms
  by (auto simp: mac0_protected_def staged_def mac0_inv_def split: if_splits)

lemma mac0_struct_stage:
  assumes i: "mac0_inv ms msz mo osz w" and w: "mw_scratch w = Some ms" "msz \<le> length ms"
    and r: "readable (mw_protected w) (mw_protectedLen w)" "readable ea ean" "readable pl pln"
  shows "staged (mac0_inv ms msz mo osz) (\<lambda>w'.
     let bs = tbs_bytes WOLFCOSE_CTX_MAC0 (bytes_at (mw_protected w) (mw_protectedLen w)) None
                (bytes_at ea ean) (bytes_at pl pln)
     in length bs \<le> msz \<and> w' = w\<lparr>mw_scratch := Some (splice 0 bs ms), mw_structLen := length bs\<rparr>)
     (mac0_struct ea ean pl pln msz w)"
proof -
  obtain ret c n where b: "wolfCose_BuildMacStructure (mw_protected w) (mw_protectedLen w) ea ean pl pln
      (Some ms) msz (mw_structLen w) = (ret, c, n)" by (metis prod_cases3)
  show ?thesis
    using BuildToBeSignedMaced_spec [OF contexts_ok(3) r(1) _ r(2,3) w(2) b [unfolded wolfCose_BuildMacStructure_def]]
      i w b within_splice [OF _ w(2)]
    by (auto simp: mac0_struct_def staged_def mac0_inv_def ptr_bytes_def Let_def within_def split: if_splits)
qed

lemma mac0_mac_stage:
  assumes i: "mac0_inv ms msz mo osz w" and W: "crypt_ok W"
    and w: "mw_scratch w = Some m" "take (mw_structLen w) m = bs" "length bs = mw_structLen w" "mw_structLen w < 2 ^ 32"
      "wolfCose_MacTagSize b alg (Some 0) = (WOLFCOSE_SUCCESS, Some (mw_tagSz w))"
      "mw_tag w = Some (replicate (max_digest W) 0)"
  shows "staged (mac0_inv ms msz mo osz) (\<lambda>w'. \<exists>t. length t = max_digest W \<and>
     mac_of b W alg key bs (take (mw_tagSz w) t) \<and> w' = w\<lparr>mw_tag := Some t\<rparr>) (mac0_mac b W alg key w)"
proof -
  obtain ret tag where t: "mac_tag b W alg key (Some bs) (length bs) (mw_tagSz w) (Some (replicate (max_digest W) 0))
      = (ret, tag)" by fastforce
  obtain t' where t': "tag = Some t'" "length t' = max_digest W"
    using mac_tag_len [OF W w(5) _ t] by auto
  have e: "mac_tag b W alg key (mw_scratch w) (mw_structLen w) (mw_tagSz w) (mw_tag w) = (ret, tag)"
    using mac_tag_prefix [OF w(2,3,4), of b W alg key] t w(1,6) by simp
  then have m: "mac0_mac b W alg key w = (ret, w\<lparr>mw_tag := Some t'\<rparr>)" using t'(1) by (simp add: mac0_mac_def)
  have "ret = WOLFCOSE_SUCCESS \<Longrightarrow> mac_of b W alg key bs (take (mw_tagSz w) t')"
    using t t'(1) w(5) unfolding mac_of_def by blast
  then show ?thesis using i t'(2) unfolding m staged_def by (auto simp: mac0_inv_def)
qed

lemma mac0_output_stage:
  assumes i: "mac0_inv ms msz mo osz w" and o: "osz \<le> length mo"
    and r: "readable (mw_protected w) (mw_protectedLen w)" "readable kid kidLen" "\<not> detached \<longrightarrow> readable pl pln"
      "readable (mw_tag w) (mw_tagSz w)"
  shows "staged (mac0_inv ms msz mo osz) (\<lambda>w'.
     let bs = mac0_bytes (bytes_at (mw_protected w) (mw_protectedLen w)) (kid_of kid kidLen)
                (if detached then None else Some (bytes_at pl pln)) (bytes_at (mw_tag w) (mw_tagSz w))
     in length bs \<le> osz \<and> ctx_buf (mw_out w') = Some (splice 0 bs mo) \<and> ctx_idx (mw_out w') = length bs \<and>
        mw_scratch w' = mw_scratch w)
     (mac0_output kid kidLen detached pl pln (Some mo) osz w)"
proof -
  let ?f = "mac0_encode (mw_protected w) (mw_protectedLen w) kid kidLen detached pl pln (mw_tag w) (mw_tagSz w)"
  obtain ret c where f: "?f (fresh mo osz) = (ret, c)" by fastforce
  have k: "kid \<noteq> None \<and> kidLen > 0 \<longrightarrow> readable kid kidLen" using r(2) by blast
  note h = writer_fresh [OF mac0_encode_writes [OF r(1) k r(3,4)] o f]
  have m: "mac0_output kid kidLen detached pl pln (Some mo) osz w =
      (ret, w\<lparr>mw_out := c, mw_fault := (mw_fault w \<or> ctx_fault c)\<rparr>)"
    using f by (simp add: mac0_output_def fresh_def)
  show ?thesis
    unfolding m staged_def using h i within_splice [OF _ o]
    by (auto simp: mac0_inv_def kid_of_def Let_def within_def split: if_splits)
qed

text \<open>When the stages succeed.\<close>

lemma mac0_size_ok:
  "wolfCose_MacTagSize b alg (Some 0) = (WOLFCOSE_SUCCESS, Some n) \<Longrightarrow> fst (mac0_size b alg w) = WOLFCOSE_SUCCESS"
  using MacTagSize_out [of b alg "mw_tagSz w"] by (simp add: mac0_size_def)

lemma mac0_protected_ok:
  assumes "mw_protected w = Some p" "length p = protected_hdr_max b" "length (alg_hdr alg) \<le> protected_hdr_max b"
  shows "fst (mac0_protected b alg w) = WOLFCOSE_SUCCESS"
  using EncodeProtectedHdr_spec [of "protected_hdr_max b" p alg "mw_protectedLen w"] assms
  by (auto simp: mac0_protected_def)

lemma mac0_struct_ok:
  assumes w: "mw_scratch w = Some ms" "msz \<le> length ms"
    and r: "readable (mw_protected w) (mw_protectedLen w)" "readable ea ean" "readable pl pln"
    and l: "length (tbs_bytes WOLFCOSE_CTX_MAC0 (bytes_at (mw_protected w) (mw_protectedLen w)) None
                (bytes_at ea ean) (bytes_at pl pln)) \<le> msz"
  shows "fst (mac0_struct ea ean pl pln msz w) = WOLFCOSE_SUCCESS"
proof -
  obtain ret c n where b: "wolfCose_BuildMacStructure (mw_protected w) (mw_protectedLen w) ea ean pl pln
      (Some ms) msz (mw_structLen w) = (ret, c, n)" by (metis prod_cases3)
  show ?thesis
    using BuildToBeSignedMaced_spec [OF contexts_ok(3) r(1) _ r(2,3) w(2) b [unfolded wolfCose_BuildMacStructure_def]]
      w(1) b l by (simp add: mac0_struct_def ptr_bytes_def Let_def)
qed

lemma mac0_mac_ok:
  assumes w: "mw_scratch w = Some m" "take (mw_structLen w) m = bs" "length bs = mw_structLen w" "mw_structLen w < 2 ^ 32"
      "wolfCose_MacTagSize b alg (Some 0) = (WOLFCOSE_SUCCESS, Some (mw_tagSz w))"
      "mw_tag w = Some (replicate (max_digest W) 0)" and "mac_of b W alg key bs tag"
  shows "fst (mac0_mac b W alg key w) = WOLFCOSE_SUCCESS"
  using mac_tag_prefix [OF w(2,3,4), of b W alg key] assms(5-7) w(1)
  by (auto simp: mac0_mac_def mac_of_def)

lemma mac0_output_ok:
  assumes o: "osz \<le> length mo"
    and r: "readable (mw_protected w) (mw_protectedLen w)" "readable kid kidLen" "\<not> detached \<longrightarrow> readable pl pln"
      "readable (mw_tag w) (mw_tagSz w)"
    and l: "length (mac0_bytes (bytes_at (mw_protected w) (mw_protectedLen w)) (kid_of kid kidLen)
                (if detached then None else Some (bytes_at pl pln)) (bytes_at (mw_tag w) (mw_tagSz w))) \<le> osz"
  shows "fst (mac0_output kid kidLen detached pl pln (Some mo) osz w) = WOLFCOSE_SUCCESS"
proof -
  let ?f = "mac0_encode (mw_protected w) (mw_protectedLen w) kid kidLen detached pl pln (mw_tag w) (mw_tagSz w)"
  obtain ret c where f: "?f (fresh mo osz) = (ret, c)" by fastforce
  have k: "kid \<noteq> None \<and> kidLen > 0 \<longrightarrow> readable kid kidLen" using r(2) by blast
  have "ret = WOLFCOSE_SUCCESS"
    using writer_fresh [OF mac0_encode_writes [OF r(1) k r(3,4)] o f] l unfolding kid_of_def by argo
  then show ?thesis using f by (simp add: mac0_output_def fresh_def)
qed

text \<open>The state in which the clean-up of a creation starts, for every outcome.\<close>

lemma mac0_create_run:
  fixes b :: build and W :: "('h, 'a) wolfcrypt"
  assumes W: "crypt_ok W" and s: "scratchSz \<le> length ms" and o: "outSz \<le> length mo"
    and r: "readable kid kidLen" "readable payload payloadLen" "readable detached detachedLen" "readable ea ean"
    and chk: "mac0_create_checks key alg kid kidLen payload payloadLen detached detachedLen ean
       (Some ms) scratchSz (Some mo) outSz outLen = WOLFCOSE_SUCCESS"
    and w0: "w0 = \<lparr> mw_protected = Some (replicate (protected_hdr_max b) 0), mw_protectedLen = 0, mw_scratch = Some ms,
                mw_structLen = 0, mw_tag = Some (replicate (max_digest W) 0), mw_tagSz = 0,
                mw_out = \<lparr> ctx_buf = Some mo, ctx_cbuf = None, ctx_bufSz = outSz, ctx_idx = 0, ctx_fault = False \<rparr>,
                mw_fault = False \<rparr>"
    and pl: "pl = (if detached \<noteq> None then bytes_at detached detachedLen else bytes_at payload payloadLen)"
    and R: "R = on_success (on_success (on_success (on_success (mac0_size b alg w0) (mac0_protected b alg))
        (mac0_struct ea ean (if detached \<noteq> None then detached else payload)
           (if detached \<noteq> None then detachedLen else payloadLen) scratchSz))
        (\<lambda>w. mac0_mac b W alg (the key) w))
        (mac0_output kid kidLen (detached \<noteq> None) payload payloadLen (Some mo) outSz)"
  shows "staged (mac0_inv ms scratchSz mo outSz) (\<lambda>w. \<exists>k tag. key = Some k \<and>
      length (alg_hdr alg) \<le> protected_hdr_max b \<and>
      length (tbs_bytes WOLFCOSE_CTX_MAC0 (alg_hdr alg) None (bytes_at ea ean) pl) \<le> scratchSz \<and>
      mac_of b W alg k (tbs_bytes WOLFCOSE_CTX_MAC0 (alg_hdr alg) None (bytes_at ea ean) pl) tag \<and>
      (let bs = mac0_bytes (alg_hdr alg) (kid_of kid kidLen) (if detached \<noteq> None then None else Some pl) tag
       in length bs \<le> outSz \<and> ctx_buf (mw_out w) = Some (splice 0 bs mo) \<and> ctx_idx (mw_out w) = length bs)) R"
    and "\<And>k tag. \<lbrakk>key = Some k; protected_hdr_max b \<ge> length (alg_hdr alg);
      mac_of b W alg k (tbs_bytes WOLFCOSE_CTX_MAC0 (alg_hdr alg) None (bytes_at ea ean) pl) tag;
      length (tbs_bytes WOLFCOSE_CTX_MAC0 (alg_hdr alg) None (bytes_at ea ean) pl) \<le> scratchSz;
      length (mac0_bytes (alg_hdr alg) (kid_of kid kidLen) (if detached \<noteq> None then None else Some pl) tag) \<le> outSz\<rbrakk> \<Longrightarrow>
      fst R = WOLFCOSE_SUCCESS"
proof -
  let ?E = "mac0_inv ms scratchSz mo outSz"
  let ?p = "splice 0 (alg_hdr alg) (replicate (protected_hdr_max b) 0)"
  let ?bs = "tbs_bytes WOLFCOSE_CTX_MAC0 (alg_hdr alg) None (bytes_at ea ean) pl"
  let ?w2 = "\<lambda>n. w0\<lparr>mw_tagSz := n, mw_protected := Some ?p, mw_protectedLen := length (alg_hdr alg)\<rparr>"
  obtain k where k: "key = Some k" and fits: "scratchSz < 2 ^ 32"
    using chk by (auto simp: mac0_create_checks_def wolfCose_LenFitsWord32_def split: if_splits)
  define P1 where "P1 = (\<lambda>w. \<exists>n. wolfCose_MacTagSize b alg (Some 0) = (WOLFCOSE_SUCCESS, Some n) \<and> w = w0\<lparr>mw_tagSz := n\<rparr>)"
  define P2 where "P2 = (\<lambda>w. \<exists>n. wolfCose_MacTagSize b alg (Some 0) = (WOLFCOSE_SUCCESS, Some n) \<and>
     length (alg_hdr alg) \<le> protected_hdr_max b \<and> w = ?w2 n)"
  define P3 where "P3 = (\<lambda>w. \<exists>n. wolfCose_MacTagSize b alg (Some 0) = (WOLFCOSE_SUCCESS, Some n) \<and>
     length (alg_hdr alg) \<le> protected_hdr_max b \<and> length ?bs \<le> scratchSz \<and>
     w = (?w2 n)\<lparr>mw_scratch := Some (splice 0 ?bs ms), mw_structLen := length ?bs\<rparr>)"
  define P4 where "P4 = (\<lambda>w. \<exists>n t. wolfCose_MacTagSize b alg (Some 0) = (WOLFCOSE_SUCCESS, Some n) \<and>
     length (alg_hdr alg) \<le> protected_hdr_max b \<and> length ?bs \<le> scratchSz \<and> length t = max_digest W \<and> mac_of b W alg k ?bs (take n t) \<and>
     w = (?w2 n)\<lparr>mw_scratch := Some (splice 0 ?bs ms), mw_structLen := length ?bs, mw_tag := Some t\<rparr>)"
  define L where "L \<longleftrightarrow> (\<exists>tag. length (alg_hdr alg) \<le> protected_hdr_max b \<and> mac_of b W alg k ?bs tag \<and> length ?bs \<le> scratchSz \<and>
     length (mac0_bytes (alg_hdr alg) (kid_of kid kidLen) (if detached \<noteq> None then None else Some pl) tag) \<le> outSz)"
  have i0: "?E w0" by (simp add: mac0_inv_def w0)
  have prot: "bytes_at (Some ?p) (length (alg_hdr alg)) = alg_hdr alg" "readable (Some ?p) (length (alg_hdr alg))"
    if "length (alg_hdr alg) \<le> protected_hdr_max b"
    using that length_alg_hdr [of alg] splice_prefix [of "alg_hdr alg" "replicate (protected_hdr_max b) 0"]
      readable_splice [of "alg_hdr alg" "replicate (protected_hdr_max b) 0"] by simp_all
  have 1: "staged ?E P1 (mac0_size b alg w0)" "L \<longrightarrow> fst (mac0_size b alg w0) = WOLFCOSE_SUCCESS"
    using mac0_size_stage [OF i0] mac0_size_ok unfolding P1_def L_def mac_of_def by blast+
  have 2: "staged ?E P2 (mac0_protected b alg w)" "L \<longrightarrow> fst (mac0_protected b alg w) = WOLFCOSE_SUCCESS" if w: "?E w" "P1 w" for w
  proof -
    obtain n where n: "wolfCose_MacTagSize b alg (Some 0) = (WOLFCOSE_SUCCESS, Some n)" "w = w0\<lparr>mw_tagSz := n\<rparr>"
      using w(2) by (auto simp: P1_def)
    from mac0_protected_stage [OF w(1), of "replicate (protected_hdr_max b) 0" b alg]
    show "staged ?E P2 (mac0_protected b alg w)" using n by (auto simp: staged_def P2_def w0)
    show "L \<longrightarrow> fst (mac0_protected b alg w) = WOLFCOSE_SUCCESS"
      using mac0_protected_ok [of w "replicate (protected_hdr_max b) 0" b alg] n by (simp add: L_def w0)
  qed
  let ?mp = "if detached \<noteq> None then detached else payload" and ?mpl = "if detached \<noteq> None then detachedLen else payloadLen"
  have 3: "staged ?E P3 (mac0_struct ea ean ?mp ?mpl scratchSz w)"
    "L \<longrightarrow> fst (mac0_struct ea ean ?mp ?mpl scratchSz w) = WOLFCOSE_SUCCESS" if w: "?E w" "P2 w" for w
  proof -
    obtain n where n: "wolfCose_MacTagSize b alg (Some 0) = (WOLFCOSE_SUCCESS, Some n)" "w = ?w2 n"
      "length (alg_hdr alg) \<le> protected_hdr_max b"
      using w(2) by (auto simp: P2_def)
    have rp: "readable ?mp ?mpl" using r(2,3) by simp
    note st = mac0_struct_stage [OF w(1) _ s _ r(4) rp]
    have pb: "bytes_at (if detached \<noteq> None then detached else payload)
        (if detached \<noteq> None then detachedLen else payloadLen) = pl" by (simp add: pl)
    have wf: "mw_scratch w = Some ms" "mw_protected w = Some ?p" "mw_protectedLen w = length (alg_hdr alg)"
      by (simp_all add: n(2) w0)
    show "staged ?E P3 (mac0_struct ea ean ?mp ?mpl scratchSz w)"
      using st [OF wf(1)] prot [OF n(3)] n unfolding staged_def P3_def wf(2,3) pb Let_def by auto
    show "L \<longrightarrow> fst (mac0_struct ea ean ?mp ?mpl scratchSz w) = WOLFCOSE_SUCCESS"
      using mac0_struct_ok [OF wf(1) s _ r(4) rp] prot [OF n(3)] unfolding L_def wf(2,3) pb by auto
  qed
  have 4: "staged ?E P4 (mac0_mac b W alg (the key) w)"
    "L \<longrightarrow> fst (mac0_mac b W alg (the key) w) = WOLFCOSE_SUCCESS" if w: "?E w" "P3 w" for w
  proof -
    obtain n where n: "wolfCose_MacTagSize b alg (Some 0) = (WOLFCOSE_SUCCESS, Some n)"
      "length (alg_hdr alg) \<le> protected_hdr_max b" "length ?bs \<le> scratchSz"
      "w = (?w2 n)\<lparr>mw_scratch := Some (splice 0 ?bs ms), mw_structLen := length ?bs\<rparr>"
      using w(2) by (auto simp: P3_def)
    have wf: "mw_scratch w = Some (splice 0 ?bs ms)" "mw_structLen w = length ?bs" "mw_tagSz w = n"
      "mw_tag w = Some (replicate (max_digest W) 0)" by (simp_all add: n(4) w0)
    have m: "take (mw_structLen w) (splice 0 ?bs ms) = ?bs" unfolding wf(2) by (simp add: splice_def)
    have ln: "length ?bs = mw_structLen w" "mw_structLen w < 2 ^ 32"
      "wolfCose_MacTagSize b alg (Some 0) = (WOLFCOSE_SUCCESS, Some (mw_tagSz w))"
      using n(1,3) fits by (simp_all add: wf)
    from mac0_mac_stage [OF w(1) W wf(1) m ln wf(4), of k]
    show "staged ?E P4 (mac0_mac b W alg (the key) w)"
      unfolding staged_def P4_def k option.sel wf(3) using n by auto
    show "L \<longrightarrow> fst (mac0_mac b W alg (the key) w) = WOLFCOSE_SUCCESS"
      unfolding k option.sel L_def using mac0_mac_ok [OF wf(1) m ln wf(4), of k] by blast
  qed
  have 5: "staged ?E (\<lambda>w. \<exists>k tag. key = Some k \<and> length (alg_hdr alg) \<le> protected_hdr_max b \<and> length ?bs \<le> scratchSz \<and>
      mac_of b W alg k ?bs tag \<and>
      (let bs = mac0_bytes (alg_hdr alg) (kid_of kid kidLen) (if detached \<noteq> None then None else Some pl) tag
       in length bs \<le> outSz \<and> ctx_buf (mw_out w) = Some (splice 0 bs mo) \<and> ctx_idx (mw_out w) = length bs))
      (mac0_output kid kidLen (detached \<noteq> None) payload payloadLen (Some mo) outSz w)" (is "staged ?E ?Q5 _")
    "L \<longrightarrow> fst (mac0_output kid kidLen (detached \<noteq> None) payload payloadLen (Some mo) outSz w) = WOLFCOSE_SUCCESS"
    if w: "?E w" "P4 w" for w
  proof -
    obtain n t where n: "wolfCose_MacTagSize b alg (Some 0) = (WOLFCOSE_SUCCESS, Some n)"
      "length (alg_hdr alg) \<le> protected_hdr_max b" "length t = max_digest W" "mac_of b W alg k ?bs (take n t)"
      "length ?bs \<le> scratchSz"
      "w = (?w2 n)\<lparr>mw_scratch := Some (splice 0 ?bs ms), mw_structLen := length ?bs, mw_tag := Some t\<rparr>"
      using w(2) by (auto simp: P4_def)
    have wf: "mw_protected w = Some ?p" "mw_protectedLen w = length (alg_hdr alg)" "mw_tagSz w = n" "mw_tag w = Some t"
      by (simp_all add: n(6))
    have "n \<le> length t" using MacTagSize_le [OF n(1)] W n(3) by (simp add: crypt_ok_def)
    then have rt: "readable (Some t) n" using W n(3) by (simp add: readable_def crypt_ok_def)
    have bt: "bytes_at (Some t) n = take n t" by (simp add: bytes_at_def)
    have rp: "\<not> detached \<noteq> None \<longrightarrow> readable payload payloadLen" using r(2) by simp
    have pb: "(if detached \<noteq> None then None else Some (bytes_at payload payloadLen)) =
        (if detached \<noteq> None then None else Some pl)" by (simp add: pl)
    from mac0_output_stage [OF w(1) o _ r(1) rp, unfolded wf, OF prot(2) [OF n(2)] rt]
    show "staged ?E ?Q5 (mac0_output kid kidLen (detached \<noteq> None) payload payloadLen (Some mo) outSz w)"
      unfolding prot(1) [OF n(2)] bt pb using k n(2,4,5) unfolding staged_def Let_def by blast
    show "L \<longrightarrow> fst (mac0_output kid kidLen (detached \<noteq> None) payload payloadLen (Some mo) outSz w) = WOLFCOSE_SUCCESS"
    proof
      assume L
      then have "length (mac0_bytes (alg_hdr alg) (kid_of kid kidLen) (if detached \<noteq> None then None else Some pl) (take n t)) \<le> outSz"
        unfolding L_def using mac_of_unique [OF n(4)] by blast
      then show "fst (mac0_output kid kidLen (detached \<noteq> None) payload payloadLen (Some mo) outSz w) = WOLFCOSE_SUCCESS"
        using mac0_output_ok [OF o _ r(1) rp, of w, unfolded wf, OF prot(2) [OF n(2)] rt]
        unfolding prot(1) [OF n(2)] bt pb by blast
    qed
  qed
  let ?r2 = "on_success (mac0_size b alg w0) (mac0_protected b alg)"
  let ?r3 = "on_success ?r2 (mac0_struct ea ean ?mp ?mpl scratchSz)"
  let ?r4 = "on_success ?r3 (\<lambda>w. mac0_mac b W alg (the key) w)"
  have s2: "staged ?E P2 ?r2" by (rule staged_next [OF 1(1) 2(1)])
  have s3: "staged ?E P3 ?r3" by (rule staged_next [OF s2 3(1)])
  have s4: "staged ?E P4 ?r4" by (rule staged_next [OF s3 4(1)])
  show "staged ?E ?Q5 R" unfolding R by (rule staged_next [OF s4 5(1)])
  have "L \<longrightarrow> fst ?r2 = WOLFCOSE_SUCCESS" by (rule staged_live [OF 1 2(2)])
  from staged_live [OF s2 this 3(2)] have "L \<longrightarrow> fst ?r3 = WOLFCOSE_SUCCESS" .
  from staged_live [OF s3 this 4(2)] have "L \<longrightarrow> fst ?r4 = WOLFCOSE_SUCCESS" .
  from staged_live [OF s4 this 5(2)] have live: "L \<longrightarrow> fst R = WOLFCOSE_SUCCESS" unfolding R .
  fix k' tag
  assume "key = Some k'" "protected_hdr_max b \<ge> length (alg_hdr alg)" "mac_of b W alg k' ?bs tag" "length ?bs \<le> scratchSz"
    "length (mac0_bytes (alg_hdr alg) (kid_of kid kidLen) (if detached \<noteq> None then None else Some pl) tag) \<le> outSz"
  then have L using k unfolding L_def by auto
  then show "fst R = WOLFCOSE_SUCCESS" using live by blast
qed

text \<open>A creation is the run after the checks, followed by the clean-up.\<close>

lemma Mac0_Create_parts:
  assumes w0: "w0 = \<lparr> mw_protected = Some (replicate (protected_hdr_max b) 0), mw_protectedLen = 0,
     mw_scratch = Some ms, mw_structLen = 0, mw_tag = Some (replicate (max_digest W) 0), mw_tagSz = 0,
     mw_out = \<lparr> ctx_buf = Some mo, ctx_cbuf = None, ctx_bufSz = outSz, ctx_idx = 0, ctx_fault = False \<rparr>,
     mw_fault = False \<rparr>"
    and chk: "chk = mac0_create_checks key alg kid kidLen payload payloadLen detached detachedLen ean
       (Some ms) scratchSz (Some mo) outSz outLen"
    and run: "run = on_success (on_success (on_success (on_success (mac0_size b alg w0) (mac0_protected b alg))
        (mac0_struct ea ean (if detached \<noteq> None then detached else payload)
           (if detached \<noteq> None then detachedLen else payloadLen) scratchSz))
        (\<lambda>w. mac0_mac b W alg (the key) w))
        (mac0_output kid kidLen (detached \<noteq> None) payload payloadLen (Some mo) outSz)"
    and r: "r = (if chk = WOLFCOSE_SUCCESS then run else (chk, w0))"
  shows "wc_CoseMac0_Create b W key alg kid kidLen payload payloadLen detached detachedLen ea ean
       (Some ms) scratchSz (Some mo) outSz outLen =
     (fst r, wolfCose_ForceZero (mw_scratch (snd r)) scratchSz,
      if fst r = WOLFCOSE_SUCCESS then ctx_buf (mw_out (snd r)) else wolfCose_ForceZero (ctx_buf (mw_out (snd r))) outSz,
      if fst r = WOLFCOSE_SUCCESS then Some (ctx_idx (mw_out (snd r))) else outLen, mw_fault (snd r))"
proof -
  have chain: "on_success (on_success (on_success (on_success (on_success (chk, w0) (mac0_size b alg)) (mac0_protected b alg))
        (mac0_struct ea ean (if detached \<noteq> None then detached else payload)
           (if detached \<noteq> None then detachedLen else payloadLen) scratchSz))
        (\<lambda>w. mac0_mac b W alg (the key) w))
        (mac0_output kid kidLen (detached \<noteq> None) payload payloadLen (Some mo) outSz) = r"
    unfolding r run by (cases "chk = WOLFCOSE_SUCCESS") simp_all
  show ?thesis unfolding wc_CoseMac0_Create_def w0 [symmetric] chk [symmetric] Let_def chain ..
qed

lemma Mac0_Create_outcome:
  assumes "crypt_ok W" "scratchSz \<le> length ms" "outSz \<le> length mo"
    and "readable kid kidLen" "readable payload payloadLen" "readable detached detachedLen" "readable ea ean"
    and c: "wc_CoseMac0_Create b W key alg kid kidLen payload payloadLen detached detachedLen ea ean
       (Some ms) scratchSz (Some mo) outSz outLen = (ret, scratch', out', outLen', fault)"
    and pl: "pl = (if detached \<noteq> None then bytes_at detached detachedLen else bytes_at payload payloadLen)"
    and tbs: "tbs = tbs_bytes WOLFCOSE_CTX_MAC0 (alg_hdr alg) None (bytes_at ea ean) pl"
    and bs: "\<And>tag. bs tag = mac0_bytes (alg_hdr alg) (kid_of kid kidLen) (if detached \<noteq> None then None else Some pl) tag"
  shows "\<not> fault \<and> scratch' = Some (splice 0 (replicate scratchSz 0) ms)"
    and "ret = WOLFCOSE_SUCCESS \<Longrightarrow> \<exists>k tag. key = Some k \<and> length (alg_hdr alg) \<le> protected_hdr_max b \<and>
       length tbs \<le> scratchSz \<and> mac_of b W alg k tbs tag \<and> length (bs tag) \<le> outSz \<and>
       out' = Some (splice 0 (bs tag) mo) \<and> outLen' = Some (length (bs tag))"
    and "ret \<noteq> WOLFCOSE_SUCCESS \<Longrightarrow> out' = Some (splice 0 (replicate outSz 0) mo) \<and> outLen' = outLen"
    and "ret = WOLFCOSE_SUCCESS \<Longrightarrow> mac0_create_checks key alg kid kidLen payload payloadLen detached detachedLen ean
       (Some ms) scratchSz (Some mo) outSz outLen = WOLFCOSE_SUCCESS"
    and "\<And>k tag. \<lbrakk>mac0_create_checks key alg kid kidLen payload payloadLen detached detachedLen ean
       (Some ms) scratchSz (Some mo) outSz outLen = WOLFCOSE_SUCCESS; key = Some k;
       length (alg_hdr alg) \<le> protected_hdr_max b; length tbs \<le> scratchSz; mac_of b W alg k tbs tag;
       length (bs tag) \<le> outSz\<rbrakk> \<Longrightarrow> ret = WOLFCOSE_SUCCESS"
proof -
  define w0 where "w0 = \<lparr> mw_protected = Some (replicate (protected_hdr_max b) 0), mw_protectedLen = 0,
     mw_scratch = Some ms, mw_structLen = 0, mw_tag = Some (replicate (max_digest W) 0), mw_tagSz = 0,
     mw_out = \<lparr> ctx_buf = Some mo, ctx_cbuf = None, ctx_bufSz = outSz, ctx_idx = 0, ctx_fault = False \<rparr>,
     mw_fault = False \<rparr>"
  define chk where "chk = mac0_create_checks key alg kid kidLen payload payloadLen detached detachedLen ean
       (Some ms) scratchSz (Some mo) outSz outLen"
  define run where "run = on_success (on_success (on_success (on_success (mac0_size b alg w0) (mac0_protected b alg))
        (mac0_struct ea ean (if detached \<noteq> None then detached else payload)
           (if detached \<noteq> None then detachedLen else payloadLen) scratchSz))
        (\<lambda>w. mac0_mac b W alg (the key) w))
        (mac0_output kid kidLen (detached \<noteq> None) payload payloadLen (Some mo) outSz)"
  define r where "r = (if chk = WOLFCOSE_SUCCESS then run else (chk, w0))"
  note parts = c [symmetric, unfolded Mac0_Create_parts [OF w0_def chk_def run_def r_def]]
  have fields: "ret = fst r" "scratch' = wolfCose_ForceZero (mw_scratch (snd r)) scratchSz"
      "out' = (if ret = WOLFCOSE_SUCCESS then ctx_buf (mw_out (snd r)) else wolfCose_ForceZero (ctx_buf (mw_out (snd r))) outSz)"
      "outLen' = (if ret = WOLFCOSE_SUCCESS then Some (ctx_idx (mw_out (snd r))) else outLen)" "fault = mw_fault (snd r)"
    using parts by simp_all
  have inv0: "mac0_inv ms scratchSz mo outSz w0" by (simp add: mac0_inv_def w0_def)
  have st: "staged (mac0_inv ms scratchSz mo outSz) (\<lambda>w. \<exists>k tag. key = Some k \<and> length (alg_hdr alg) \<le> protected_hdr_max b \<and>
      length tbs \<le> scratchSz \<and> mac_of b W alg k tbs tag \<and>
      (let bs = bs tag in length bs \<le> outSz \<and> ctx_buf (mw_out w) = Some (splice 0 bs mo) \<and> ctx_idx (mw_out w) = length bs)) r"
  proof (cases "chk = WOLFCOSE_SUCCESS")
    case True
    from mac0_create_run(1) [OF assms(1-7) True [unfolded chk_def] w0_def pl run_def] show ?thesis
      unfolding r_def tbs bs using True by simp
  next
    case False
    then show ?thesis using inv0 by (simp add: r_def staged_def)
  qed
  show "\<not> fault \<and> scratch' = Some (splice 0 (replicate scratchSz 0) ms)"
    using st fields within_zero unfolding staged_def mac0_inv_def by auto
  show "\<exists>k tag. key = Some k \<and> length (alg_hdr alg) \<le> protected_hdr_max b \<and>
       length tbs \<le> scratchSz \<and> mac_of b W alg k tbs tag \<and> length (bs tag) \<le> outSz \<and>
       out' = Some (splice 0 (bs tag) mo) \<and> outLen' = Some (length (bs tag))" if "ret = WOLFCOSE_SUCCESS"
    using st fields that unfolding staged_def Let_def by auto
  show "out' = Some (splice 0 (replicate outSz 0) mo) \<and> outLen' = outLen" if "ret \<noteq> WOLFCOSE_SUCCESS"
    using st fields that within_zero unfolding staged_def mac0_inv_def by auto
  show "chk = WOLFCOSE_SUCCESS" if "ret = WOLFCOSE_SUCCESS" for k tag
    using fields(1) that by (auto simp: r_def split: if_splits)
  fix k tag
  assume a: "chk = WOLFCOSE_SUCCESS" "key = Some k" "length (alg_hdr alg) \<le> protected_hdr_max b" "length tbs \<le> scratchSz"
    "mac_of b W alg k tbs tag" "length (bs tag) \<le> outSz"
  from mac0_create_run(2) [OF assms(1-7) a(1) [unfolded chk_def] w0_def pl run_def a(2,3) a(5,4,6) [unfolded tbs bs]]
  show "ret = WOLFCOSE_SUCCESS" unfolding fields(1) r_def using a(1) by simp
qed

text \<open>C15: creating a COSE_Mac0 never accesses a buffer out of bounds and leaves the scratch buffer zeroed.
When it succeeds the output starts with exactly tag 17 and the array of the protected header
\<open>{1: alg}\<close>, the unprotected map with the key identifier when one is given, the payload or null when it
is detached, and the MAC of the RFC 9052 MAC_structure under the key; its length is reported. When it
fails the whole output buffer is zeroed and no length is reported.\<close>

theorem Mac0_Create_exact:
  assumes "crypt_ok W" "scratchSz \<le> length ms" "outSz \<le> length mo"
    and "readable kid kidLen" "readable payload payloadLen" "readable detached detachedLen" "readable ea ean"
    and "wc_CoseMac0_Create b W key alg kid kidLen payload payloadLen detached detachedLen ea ean
       (Some ms) scratchSz (Some mo) outSz outLen = (ret, scratch', out', outLen', fault)"
  shows "\<not> fault \<and> scratch' = Some (splice 0 (replicate scratchSz 0) ms) \<and>
    (if ret = WOLFCOSE_SUCCESS then
       \<exists>k tag. let pl = (if detached \<noteq> None then bytes_at detached detachedLen else bytes_at payload payloadLen);
           bs = mac0_bytes (alg_hdr alg) (kid_of kid kidLen) (if detached \<noteq> None then None else Some pl) tag
         in key = Some k \<and>
            mac_of b W alg k (tbs_bytes WOLFCOSE_CTX_MAC0 (alg_hdr alg) None (bytes_at ea ean) pl) tag \<and>
            length bs \<le> outSz \<and> out' = Some (splice 0 bs mo) \<and> outLen' = Some (length bs)
     else out' = Some (splice 0 (replicate outSz 0) mo) \<and> outLen' = outLen)"
proof (cases "ret = WOLFCOSE_SUCCESS")
  case True
  show ?thesis
    unfolding if_P [OF True] Let_def using Mac0_Create_outcome(1,2) [OF assms refl refl refl] True by blast
next
  case False
  show ?thesis
    unfolding if_not_P [OF False] using Mac0_Create_outcome(1,3) [OF assms refl refl refl] False by blast
qed

text \<open>
  The arguments that creation accepts: a key, room for the length, lengths of 32 bits, exactly one payload, a key
  identifier exactly when it has a length, and a symmetric key that is not bound to another algorithm.
\<close>

definition mac0_admits ::
  "cose_key option \<Rightarrow> i32 \<Rightarrow> cptr \<Rightarrow> size \<Rightarrow> cptr \<Rightarrow> size \<Rightarrow> cptr \<Rightarrow> size \<Rightarrow> size \<Rightarrow> size \<Rightarrow> size \<Rightarrow> size option \<Rightarrow> bool" where
  "mac0_admits key alg kid kidLen payload payloadLen detached detachedLen ean scratchSz outSz outLen \<longleftrightarrow>
     outLen \<noteq> None \<and> max payloadLen (max detachedLen (max ean (max scratchSz outSz))) < 2 ^ 32 \<and>
     (payload = None) \<noteq> (detached = None) \<and> (kid = None) = (kidLen = 0) \<and>
     (\<exists>k. key = Some k \<and> key_kty k = WOLFCOSE_KTY_SYMMETRIC \<and> (key_alg k = WOLFCOSE_ALG_UNSET \<or> key_alg k = alg))"

lemma mac0_admits_iff:
  "mac0_create_checks key alg kid kidLen payload payloadLen detached detachedLen ean (Some ms) scratchSz (Some mo) outSz outLen
     = WOLFCOSE_SUCCESS \<longleftrightarrow> mac0_admits key alg kid kidLen payload payloadLen detached detachedLen ean scratchSz outSz outLen"
  by (cases key) (auto simp: mac0_create_checks_def mac0_admits_def wolfCose_LenFitsWord32_def)

text \<open>C16: creating a COSE_Mac0 succeeds exactly when there is one payload, attached or detached, a key identifier
exactly when it has a length, a symmetric key that is not bound to another algorithm, lengths of 32 bits, the
algorithm is one of the build whose MAC can be computed under the key, and the protected header, the
structure and the message fit their buffers: no other failure and no failure to finish.\<close>

theorem Mac0_Create_succeeds:
  assumes "crypt_ok W" "scratchSz \<le> length ms" "outSz \<le> length mo"
    and "readable kid kidLen" "readable payload payloadLen" "readable detached detachedLen" "readable ea ean"
    and "wc_CoseMac0_Create b W key alg kid kidLen payload payloadLen detached detachedLen ea ean
       (Some ms) scratchSz (Some mo) outSz outLen = (ret, scratch', out', outLen', fault)"
  shows "ret = WOLFCOSE_SUCCESS \<longleftrightarrow>
    mac0_admits key alg kid kidLen payload payloadLen detached detachedLen ean scratchSz outSz outLen \<and>
    (\<exists>tag. let pl = (if detached \<noteq> None then bytes_at detached detachedLen else bytes_at payload payloadLen);
          tbs = tbs_bytes WOLFCOSE_CTX_MAC0 (alg_hdr alg) None (bytes_at ea ean) pl;
          bs = mac0_bytes (alg_hdr alg) (kid_of kid kidLen) (if detached \<noteq> None then None else Some pl) tag
        in length (alg_hdr alg) \<le> protected_hdr_max b \<and> length tbs \<le> scratchSz \<and>
           mac_of b W alg (the key) tbs tag \<and> length bs \<le> outSz)"
  (is "?l \<longleftrightarrow> ?r")
proof
  assume ?l
  then show ?r
    using Mac0_Create_outcome(2,4) [OF assms refl refl refl] unfolding Let_def mac0_admits_iff by fastforce
next
  assume r: ?r
  then obtain k where k: "key = Some k" by (auto simp: mac0_admits_def)
  show ?l
    using r [unfolded Let_def k option.sel] Mac0_Create_outcome(5) [OF assms refl refl refl, unfolded k mac0_admits_iff, OF _ refl]
    by (elim conjE exE)
qed

section \<open>An example\<close>

definition toy_key :: cose_key where
  "toy_key = \<lparr> key_kty = 4, key_alg = 0, key_crv = 0, key_kid = None, key_kidLen = 0, key_ecc = None, key_ed25519 = None, key_ed448 = None,
     key_rsa = None, key_mldsa = None, key_lms = None,
     key_symm = Some (replicate 32 1), key_symmLen = 32, key_hasPrivate = False, key_attachedType = 6, key_signCb = None,
     key_mldsaSeed = None, key_mldsaSeedLen = 0 \<rparr>"

definition toy_tbs :: "u8 list" where
  "toy_tbs = [0x84, 0x64, 0x4D, 0x41, 0x43, 0x30, 0x43, 0xA1, 0x01, 0x05, 0x40, 0x41, 0x01]"

lemma toy_ok: "crypt_ok toy_crypt"
  by (auto simp: crypt_ok_def toy_crypt_def)

lemma toy_alg_hdr: "alg_hdr 5 = [0xA1, 0x01, 0x05]"
  by code_simp

lemma toy_tbs_bytes: "tbs_bytes WOLFCOSE_CTX_MAC0 (alg_hdr 5) None [] [1] = toy_tbs"
  by code_simp

lemma toy_mac: "mac_of full_build toy_crypt 5 toy_key toy_tbs (toy_tbs @ replicate 19 0)"
  unfolding mac_of_def
proof (intro exI conjI)
  show "wolfCose_MacTagSize full_build 5 (Some 0) = (WOLFCOSE_SUCCESS, Some 32)" by code_simp
  show "mac_tag full_build toy_crypt 5 toy_key (Some toy_tbs) (length toy_tbs) 32
      (Some (replicate (max_digest toy_crypt) 0)) = (WOLFCOSE_SUCCESS, Some (toy_tbs @ replicate 51 0))"
    by (simp add: mac_tag_def wolfCose_IsHmacAlg_def hmac_tag_def wolfCose_HmacType_def wolfCose_HmacCheckKeyLen_def
        full_build_def toy_crypt_def toy_key_def toy_tbs_def bytes_at_def splice_def Let_def flip: replicate_add)
  show "toy_tbs @ replicate 19 0 = take 32 (toy_tbs @ replicate 51 0)" by code_simp
qed

abbreviation toy_create :: "rc \<times> cptr \<times> cptr \<times> size option \<times> bool" where
  "toy_create \<equiv> wc_CoseMac0_Create full_build toy_crypt (Some toy_key) 5 None 0 (Some [1]) 1 None 0 None 0
     (Some (replicate 20 7)) 20 (Some (replicate 50 7)) 50 (Some 0)"

lemma toy_checks: "mac0_admits (Some toy_key) 5 None 0 (Some [1]) 1 None 0 0 20 50 (Some 0)"
  by (simp add: mac0_admits_def toy_key_def WOLFCOSE_ALG_UNSET_def)

lemma toy_readable: "readable None 0" "readable (Some [1]) 1"
  by (simp_all add: readable_def)

lemma Mac0_Create_succeeds_witness: "fst toy_create = WOLFCOSE_SUCCESS"
proof -
  obtain ret scratch out outLen fault where c: "toy_create = (ret, scratch, out, outLen, fault)"
    by (metis prod_cases5)
  have f: "length (alg_hdr 5) \<le> protected_hdr_max full_build" "length toy_tbs \<le> 20"
    "length (mac0_bytes (alg_hdr 5) (kid_of None 0) (Some [1]) (toy_tbs @ replicate 19 0)) \<le> 50"
    by code_simp+
  have "ret = WOLFCOSE_SUCCESS"
    using Mac0_Create_succeeds [OF toy_ok _ _ toy_readable(1,2,1,1) c] toy_checks f toy_mac
    by (auto simp: toy_tbs_bytes bytes_at_def)
  then show ?thesis unfolding c by simp
qed

lemma Mac0_Create_exact_witness:
  "\<exists>ret scratch out outLen. toy_create = (ret, scratch, out, outLen, False) \<and> scratch = Some (replicate 20 0)"
proof -
  obtain ret scratch out outLen fault where c: "toy_create = (ret, scratch, out, outLen, fault)"
    by (metis prod_cases5)
  show ?thesis
    using Mac0_Create_exact [OF toy_ok _ _ toy_readable(1,2,1,1) c] c by (simp add: splice_def)
qed

end
