(* ===== verification/Cose_Mac0Verify.thy ===== *)
theory Cose_Mac0Verify
  imports Cose_Mac0Spec
begin

text \<open>
  What verifying a COSE_Mac0 message promises: a verified message carries the MAC of the RFC 9052
  structure over the payload that is handed out, and what a creation wrote is accepted.
\<close>

section \<open>Verification\<close>

lemma mac0_check_tag_iff:
  assumes W: "crypt_ok W" and sc: "scratchSz \<le> length ms" "scratchSz < 2 ^ 32"
    and rd: "readable (msg_protected s) (msg_protectedLen s)" "readable ea ean" "readable (msg_verify s) (msg_verifyLen s)"
    and sz: "wolfCose_MacTagSize b (hdr_alg (msg_hdr s)) (Some 0) = (WOLFCOSE_SUCCESS, Some sz)"
    and t: "msg_tag s = Some t" "sz \<le> length t"
    and tbs: "tbs = tbs_bytes WOLFCOSE_CTX_MAC0 (bytes_at (msg_protected s) (msg_protectedLen s)) None (bytes_at ea ean)
        (bytes_at (msg_verify s) (msg_verifyLen s))"
    and run: "mac0_check_tag b W key ea ean (Some ms) scratchSz sz s = (ret, scr, fault)"
  shows "\<not> fault \<and> within ms scratchSz scr \<and>
    (ret = WOLFCOSE_SUCCESS \<longleftrightarrow> length tbs \<le> scratchSz \<and> mac_of b W (hdr_alg (msg_hdr s)) key tbs (take sz t))"
proof -
  let ?alg = "hdr_alg (msg_hdr s)" and ?z = "replicate (max_digest W) 0"
  obtain r1 c n where bld: "wolfCose_BuildMacStructure (msg_protected s) (msg_protectedLen s) ea ean
      (msg_verify s) (msg_verifyLen s) (Some ms) scratchSz 0 = (r1, c, n)" by (metis prod_cases3)
  have B: "\<not> ctx_fault c" "if length tbs \<le> scratchSz then r1 = WOLFCOSE_SUCCESS \<and> n = length tbs \<and> ctx_buf c = Some (splice 0 tbs ms)
      else r1 \<noteq> WOLFCOSE_SUCCESS" "within ms scratchSz (ctx_buf c)"
    using BuildToBeSignedMaced_spec [OF contexts_ok(3) rd(1) _ rd(2,3) sc(1) bld [unfolded wolfCose_BuildMacStructure_def]]
      within_splice [OF _ sc(1)] by (auto simp: tbs ptr_bytes_def Let_def within_def split: if_splits)
  show ?thesis
  proof (cases "length tbs \<le> scratchSz")
    case False
    then show ?thesis using run B unfolding mac0_check_tag_def bld prod.case by auto
  next
    case True
    then have b: "r1 = WOLFCOSE_SUCCESS" "n = length tbs" "ctx_buf c = Some (splice 0 tbs ms)" using B(2) by simp_all
    have "take (length tbs) (splice 0 tbs ms) = tbs" by (simp add: splice_def)
    moreover have "length tbs < 2 ^ 32" using True sc(2) by simp
    ultimately have e: "mac_tag b W ?alg key (ctx_buf c) n sz (Some ?z) = mac_tag b W ?alg key (Some tbs) (length tbs) sz (Some ?z)"
      unfolding b(2,3) using mac_tag_prefix by blast
    obtain r2 tag where m: "mac_tag b W ?alg key (Some tbs) (length tbs) sz (Some ?z) = (r2, tag)" by fastforce
    obtain t' where t': "tag = Some t'" "length t' = max_digest W" using mac_tag_len [OF W sz _ m] by auto
    have szb: "sz \<le> 64" "unat (of_nat sz :: u32) = sz" using MacTagSize_le [OF sz] by (simp_all add: unat_of_nat)
    then have le: "sz \<le> length t'" using W t'(2) by (simp add: crypt_ok_def)
    have cmp: "wolfCose_ConstantCompare t' t (of_nat sz) = 0 \<longleftrightarrow> take sz t' = take sz t"
      using ConstantCompare_iff [of "of_nat sz" t' t] szb le t(2) by simp
    have mo: "mac_of b W ?alg key tbs (take sz t) \<longleftrightarrow> r2 = WOLFCOSE_SUCCESS \<and> take sz t' = take sz t"
      using sz m t'(1) unfolding mac_of_def by auto
    have "ret = (if r2 \<noteq> WOLFCOSE_SUCCESS then r2 else if wolfCose_ConstantCompare t' t (of_nat sz) \<noteq> 0 then WOLFCOSE_E_MAC_FAIL
        else WOLFCOSE_SUCCESS)" "scr = ctx_buf c" "fault = ctx_fault c"
      using run unfolding mac0_check_tag_def bld prod.case e m t'(1) t(1) option.sel using b(1) by (auto split: if_splits)
    then show ?thesis using B(1,3) True mo cmp by auto
  qed
qed

lemma mac0_alg_checks_iff:
  "mac0_alg_checks b key s = (WOLFCOSE_SUCCESS, sz) \<longleftrightarrow>
     (if key_alg key = WOLFCOSE_ALG_UNSET then msg_algProtected s else key_alg key = hdr_alg (msg_hdr s)) \<and>
     wolfCose_MacTagSize b (hdr_alg (msg_hdr s)) (Some 0) = (WOLFCOSE_SUCCESS, Some sz) \<and> msg_tagLen s = sz"
proof -
  obtain ret n where m: "wolfCose_MacTagSize b (hdr_alg (msg_hdr s)) (Some 0) = (ret, Some n)"
    by (cases "wolfCose_MacTagSize b (hdr_alg (msg_hdr s)) (Some 0)") (auto simp: wolfCose_MacTagSize_def split: if_splits)
  show ?thesis unfolding mac0_alg_checks_def Let_def m by auto
qed

lemma tag_mac0: "unat WOLFCOSE_TAG_MAC0 = 17"
  by simp

lemmas mac0_parse_safe = msg_parse_safe [where tagNo = WOLFCOSE_TAG_MAC0, folded mac0_parse_def]

lemmas mac0_parse_sound = msg_parse_sound [where tagNo = WOLFCOSE_TAG_MAC0, folded mac0_parse_def, unfolded tag_mac0]

lemmas mac0_parse_reads = msg_parse_reads [where tagNo = WOLFCOSE_TAG_MAC0, folded mac0_parse_def, unfolded tag_mac0]

text \<open>The bytes the tag of a parsed message is computed over.\<close>

definition msg_tbs :: "cptr \<Rightarrow> size \<Rightarrow> cose_msg \<Rightarrow> u8 list" where
  "msg_tbs ea ean s = tbs_bytes WOLFCOSE_CTX_MAC0 (bytes_at (msg_protected s) (msg_protectedLen s)) None (bytes_at ea ean)
     (bytes_at (msg_verify s) (msg_verifyLen s))"

text \<open>When the tag of a parsed message is accepted.\<close>

definition mac0_accepts ::
  "build \<Rightarrow> ('h, 'a) wolfcrypt \<Rightarrow> cose_key \<Rightarrow> cptr \<Rightarrow> size \<Rightarrow> size \<Rightarrow> cose_msg \<Rightarrow> bool" where
  "mac0_accepts b W k ea ean scratchSz s \<longleftrightarrow>
     (if key_alg k = WOLFCOSE_ALG_UNSET then msg_algProtected s else key_alg k = hdr_alg (msg_hdr s)) \<and>
     wolfCose_MacTagSize b (hdr_alg (msg_hdr s)) (Some 0) = (WOLFCOSE_SUCCESS, Some (msg_tagLen s)) \<and>
     length (msg_tbs ea ean s) \<le> scratchSz \<and>
     mac_of b W (hdr_alg (msg_hdr s)) k (msg_tbs ea ean s) (bytes_at (msg_tag s) (msg_tagLen s))"

lemma Mac0_Verify_outcome:
  assumes W: "crypt_ok W" and i: "inSz \<le> length m" "length m < 2 ^ 63" and dp: "readable dp dn" and ea: "readable ea ean"
    and sc: "scratchSz \<le> length ms"
    and run: "wc_CoseMac0_Verify b W key (Some m) inSz dp dn ea ean (Some ms) scratchSz hdr payload plen =
      (ret, hdr', payload', plen', scratch', fault)"
    and chk: "chk = mac0_verify_checks b key (Some m) inSz dn ean (Some ms) scratchSz hdr payload plen 0"
  shows "\<not> fault \<and> scratch' = Some (splice 0 (replicate scratchSz 0) ms)"
    and "ret \<noteq> WOLFCOSE_SUCCESS \<Longrightarrow> hdr' = map_option (\<lambda>_. hdr_zero) hdr \<and>
      payload' = (if payload \<noteq> None \<and> plen \<noteq> None then Some None else payload) \<and>
      plen' = (if payload \<noteq> None \<and> plen \<noteq> None then Some 0 else plen)"
    and "ret = WOLFCOSE_SUCCESS \<Longrightarrow> \<exists>k s. key = Some k \<and> chk = WOLFCOSE_SUCCESS \<and>
      mac0_parse b 0 (Some m) inSz dp dn = (WOLFCOSE_SUCCESS, s) \<and> mac0_accepts b W k ea ean scratchSz s \<and>
      hdr' = Some (msg_hdr s) \<and> payload' = Some (msg_payload s) \<and> plen' = Some (msg_payloadLen s)"
    and "\<lbrakk>key = Some k; chk = WOLFCOSE_SUCCESS; mac0_parse b 0 (Some m) inSz dp dn = (WOLFCOSE_SUCCESS, s);
      mac0_accepts b W k ea ean scratchSz s\<rbrakk> \<Longrightarrow> ret = WOLFCOSE_SUCCESS"
proof -
  obtain rp s where p: "mac0_parse b 0 (Some m) inSz dp dn = (rp, s)" by fastforce
  obtain ra sz where a: "mac0_alg_checks b (the key) s = (ra, sz)" by fastforce
  obtain rt scr ft where t: "mac0_check_tag b W (the key) ea ean (Some ms) scratchSz sz s = (rt, scr, ft)" by (metis prod_cases3)
  have nf: "\<not> ctx_fault (msg_ctx s)" using mac0_parse_safe [OF i p] by (auto elim!: dec_ctxE)
  have keyed: "chk = WOLFCOSE_SUCCESS \<Longrightarrow> key = Some (the key) \<and> scratchSz < 2 ^ 32"
    unfolding chk mac0_verify_checks_def wolfCose_LenFitsWord32_def by (auto split: if_splits)
  have T: "\<not> ft \<and> within ms scratchSz scr \<and> (rt = WOLFCOSE_SUCCESS \<longleftrightarrow> length (msg_tbs ea ean s) \<le> scratchSz \<and>
      mac_of b W (hdr_alg (msg_hdr s)) (the key) (msg_tbs ea ean s) (bytes_at (msg_tag s) (msg_tagLen s)))"
    if ok: "chk = WOLFCOSE_SUCCESS" "rp = WOLFCOSE_SUCCESS" "ra = WOLFCOSE_SUCCESS"
  proof -
    obtain mp t' where S: "msg_protected s = Some mp" "msg_protectedLen s \<le> length mp" "length mp < 2 ^ 63"
      "msg_tag s = Some t'" "msg_tagLen s \<le> length t'" "readable (msg_payload s) (msg_payloadLen s)"
      "msg_verify s = (if msg_payload s = None then dp else msg_payload s)"
      "msg_verifyLen s = (if msg_payload s = None then dn else msg_payloadLen s)"
      using mac0_parse_sound [OF i dp p [unfolded ok(2)]] by blast
    have A: "wolfCose_MacTagSize b (hdr_alg (msg_hdr s)) (Some 0) = (WOLFCOSE_SUCCESS, Some sz)" "msg_tagLen s = sz"
      using mac0_alg_checks_iff a ok(3) by blast+
    have rd: "readable (msg_protected s) (msg_protectedLen s)" "readable (msg_verify s) (msg_verifyLen s)"
      using S(1-3,6) dp unfolding S(7,8) by simp_all
    have le: "sz \<le> length t'" using S(5) A(2) by simp
    have "bytes_at (msg_tag s) (msg_tagLen s) = take sz t'" using S(4) A(2) by simp
    then show ?thesis
      using mac0_check_tag_iff [OF W sc _ rd(1) ea rd(2) A(1) S(4) le msg_tbs_def t] keyed [OF ok(1)] by simp
  qed
  note R = run [unfolded wc_CoseMac0_Verify_def wolfCose_Mac0_Verify_ex_def chk [symmetric] Let_def p prod.case a t]
  consider "chk \<noteq> WOLFCOSE_SUCCESS" | "chk = WOLFCOSE_SUCCESS" "rp \<noteq> WOLFCOSE_SUCCESS"
    | "chk = WOLFCOSE_SUCCESS" "rp = WOLFCOSE_SUCCESS" "ra \<noteq> WOLFCOSE_SUCCESS"
    | "chk = WOLFCOSE_SUCCESS" "rp = WOLFCOSE_SUCCESS" "ra = WOLFCOSE_SUCCESS" by blast
  note cases = this
  have hp: "chk = WOLFCOSE_SUCCESS \<Longrightarrow> hdr \<noteq> None"
    unfolding chk mac0_verify_checks_def by (auto split: if_splits)
  have acc: "mac0_accepts b W (the key) ea ean scratchSz s \<longleftrightarrow> ra = WOLFCOSE_SUCCESS \<and> rt = WOLFCOSE_SUCCESS"
    if "chk = WOLFCOSE_SUCCESS" "rp = WOLFCOSE_SUCCESS"
  proof
    assume ac: "mac0_accepts b W (the key) ea ean scratchSz s"
    then have "ra = WOLFCOSE_SUCCESS"
      using mac0_alg_checks_iff [of b "the key" s "msg_tagLen s"] a unfolding mac0_accepts_def by auto
    then show "ra = WOLFCOSE_SUCCESS \<and> rt = WOLFCOSE_SUCCESS" using T [OF that] ac unfolding mac0_accepts_def by blast
  next
    assume r: "ra = WOLFCOSE_SUCCESS \<and> rt = WOLFCOSE_SUCCESS"
    have "mac0_alg_checks b (the key) s = (WOLFCOSE_SUCCESS, sz)" using a r by simp
    then show "mac0_accepts b W (the key) ea ean scratchSz s"
      using T [OF that] r unfolding mac0_accepts_def mac0_alg_checks_iff by blast
  qed
  have fields: "ret = (if chk \<noteq> WOLFCOSE_SUCCESS then chk else if rp \<noteq> WOLFCOSE_SUCCESS then rp
       else if ra \<noteq> WOLFCOSE_SUCCESS then ra else rt)"
    "scratch' = wolfCose_ForceZero (if ret \<noteq> WOLFCOSE_SUCCESS \<and> (chk \<noteq> WOLFCOSE_SUCCESS \<or> rp \<noteq> WOLFCOSE_SUCCESS \<or> ra \<noteq> WOLFCOSE_SUCCESS)
       then Some ms else scr) scratchSz"
    "\<not> fault \<or> fault \<and> ft \<and> chk = WOLFCOSE_SUCCESS \<and> rp = WOLFCOSE_SUCCESS \<and> ra = WOLFCOSE_SUCCESS"
    using R nf by (cases rule: cases; auto split: if_splits)+
  show "\<not> fault \<and> scratch' = Some (splice 0 (replicate scratchSz 0) ms)"
    using fields T within_zero within_self [of ms scratchSz] by (cases rule: cases; auto split: if_splits)
  show "hdr' = map_option (\<lambda>_. hdr_zero) hdr \<and>
      payload' = (if payload \<noteq> None \<and> plen \<noteq> None then Some None else payload) \<and>
      plen' = (if payload \<noteq> None \<and> plen \<noteq> None then Some 0 else plen)" if "ret \<noteq> WOLFCOSE_SUCCESS"
    using R that hp by (cases rule: cases; auto split: if_splits)
  show "\<exists>k s. key = Some k \<and> chk = WOLFCOSE_SUCCESS \<and>
      mac0_parse b 0 (Some m) inSz dp dn = (WOLFCOSE_SUCCESS, s) \<and> mac0_accepts b W k ea ean scratchSz s \<and>
      hdr' = Some (msg_hdr s) \<and> payload' = Some (msg_payload s) \<and> plen' = Some (msg_payloadLen s)" if r: "ret = WOLFCOSE_SUCCESS"
  proof -
    have ok: "chk = WOLFCOSE_SUCCESS" "rp = WOLFCOSE_SUCCESS" "ra = WOLFCOSE_SUCCESS" "rt = WOLFCOSE_SUCCESS"
      using fields(1) r by (auto split: if_splits)
    have "hdr' = Some (msg_hdr s)" "payload' = Some (msg_payload s)" "plen' = Some (msg_payloadLen s)"
      using R ok by simp_all
    then show ?thesis using ok p keyed acc by blast
  qed
  show "ret = WOLFCOSE_SUCCESS" if "key = Some k" "chk = WOLFCOSE_SUCCESS"
    "mac0_parse b 0 (Some m) inSz dp dn = (WOLFCOSE_SUCCESS, s')" "mac0_accepts b W k ea ean scratchSz s'" for k s'
    using that p acc fields(1) by auto
qed

text \<open>C1: a COSE_Mac0 that is verified was, over the whole input, the optional tag 17 and the array of a
protected header, an unprotected header, a payload (null only when a detached one was given) and a tag;
the two headers are well-formed maps with disjoint labels, no critical label ignored, and the header
structure holds their values; the algorithm is the one of the key, or, when the key has none, comes from
the protected header; and the tag is the MAC under the key of the RFC 9052 MAC_structure over the
protected header, the external data and the payload that is returned. No access leaves a buffer, the
scratch buffer is zeroed, and after every failure header and payload are cleared.\<close>

theorem Mac0_Verify_sound:
  assumes "crypt_ok W" "inSz \<le> length m" "length m < 2 ^ 63" "readable dp dn" "readable ea ean" "scratchSz \<le> length ms"
    and "wc_CoseMac0_Verify b W key (Some m) inSz dp dn ea ean (Some ms) scratchSz hdr payload plen =
      (ret, hdr', payload', plen', scratch', fault)"
  shows "\<not> fault \<and> scratch' = Some (splice 0 (replicate scratchSz 0) ms) \<and>
    (if ret = WOLFCOSE_SUCCESS then
       \<exists>k h p n prot pes ues pre tag. let po = (if p = None then None else Some (bytes_at p n)) in
         key = Some k \<and> key_kty k = WOLFCOSE_KTY_SYMMETRIC \<and> hdr' = Some h \<and> payload' = Some p \<and> plen' = Some n \<and>
         take inSz m = pre @ payload_bytes po @ str_bytes 2 tag \<and>
         msg_prefix 17 4 prot ues pre \<and> cose_headers b prot pes ues h \<and> (po = None \<longrightarrow> dp \<noteq> None) \<and>
         (if key_alg k = WOLFCOSE_ALG_UNSET then LInt 1 \<in> fst ` set pes else key_alg k = hdr_alg h) \<and>
         mac_of b W (hdr_alg h) k (tbs_bytes WOLFCOSE_CTX_MAC0 prot None (bytes_at ea ean)
           (case po of None \<Rightarrow> bytes_at dp dn | Some pl \<Rightarrow> pl)) tag
     else hdr' = map_option (\<lambda>_. hdr_zero) hdr \<and>
       payload' = (if payload \<noteq> None \<and> plen \<noteq> None then Some None else payload) \<and>
       plen' = (if payload \<noteq> None \<and> plen \<noteq> None then Some 0 else plen))"
proof (cases "ret = WOLFCOSE_SUCCESS")
  case False
  then show ?thesis using Mac0_Verify_outcome(1,2) [OF assms refl] by simp
next
  case True
  obtain k s where k: "key = Some k"
    "mac0_verify_checks b key (Some m) inSz dn ean (Some ms) scratchSz hdr payload plen 0 = WOLFCOSE_SUCCESS"
    "mac0_parse b 0 (Some m) inSz dp dn = (WOLFCOSE_SUCCESS, s)" "mac0_accepts b W k ea ean scratchSz s"
    "hdr' = Some (msg_hdr s)" "payload' = Some (msg_payload s)" "plen' = Some (msg_payloadLen s)"
    using Mac0_Verify_outcome(3) [OF assms refl True] by blast
  let ?po = "if msg_payload s = None then None else Some (bytes_at (msg_payload s) (msg_payloadLen s))"
  obtain mp pes ues pre t where S: "msg_protected s = Some mp" "msg_protectedLen s \<le> length mp"
    "msg_tag s = Some t" "msg_tagLen s \<le> length t"
    "msg_prefix 17 4 (take (msg_protectedLen s) mp) ues pre"
    "take inSz m = pre @ payload_bytes ?po @ str_bytes 2 (take (msg_tagLen s) t)"
    "cose_headers b (take (msg_protectedLen s) mp) pes ues (msg_hdr s)" "msg_algProtected s \<longleftrightarrow> LInt 1 \<in> fst ` set pes"
    "msg_payload s = None \<longrightarrow> dp \<noteq> None \<and> msg_payloadLen s = 0"
    "msg_verify s = (if msg_payload s = None then dp else msg_payload s)"
    "msg_verifyLen s = (if msg_payload s = None then dn else msg_payloadLen s)"
    using mac0_parse_sound [OF assms(2-4) k(3)] by (elim exE conjE) (rule that; assumption)
  have v: "bytes_at (msg_verify s) (msg_verifyLen s) = (case ?po of None \<Rightarrow> bytes_at dp dn | Some pl \<Rightarrow> pl)"
    unfolding S(10,11) by simp
  have kty: "key_kty k = WOLFCOSE_KTY_SYMMETRIC"
    using k(1,2) by (auto simp: mac0_verify_checks_def split: if_splits)
  have mac: "mac_of b W (hdr_alg (msg_hdr s)) k (tbs_bytes WOLFCOSE_CTX_MAC0 (take (msg_protectedLen s) mp) None (bytes_at ea ean)
      (case ?po of None \<Rightarrow> bytes_at dp dn | Some pl \<Rightarrow> pl)) (take (msg_tagLen s) t)"
    using k(4) unfolding mac0_accepts_def msg_tbs_def S(1,3) v bytes_at_simps by blast
  have alg: "if key_alg k = WOLFCOSE_ALG_UNSET then LInt 1 \<in> fst ` set pes else key_alg k = hdr_alg (msg_hdr s)"
    using k(4) unfolding mac0_accepts_def S(8) by blast
  have po: "?po = None \<longrightarrow> dp \<noteq> None" using S(9) by simp
  note out = Mac0_Verify_outcome(1) [OF assms refl]
  show ?thesis
    unfolding if_P [OF True] Let_def
    by (rule conjI [OF conjunct1 [OF out] conjI [OF conjunct2 [OF out]]],
        rule exI [of _ k], rule exI [of _ "msg_hdr s"], rule exI [of _ "msg_payload s"], rule exI [of _ "msg_payloadLen s"],
        rule exI [of _ "take (msg_protectedLen s) mp"], rule exI [of _ pes], rule exI [of _ ues], rule exI [of _ pre],
        rule exI [of _ "take (msg_tagLen s) t"])
      (intro conjI k kty S po alg mac)
qed

section \<open>Verification accepts what creation wrote\<close>

lemma Mac0_verifies_created:
  assumes W: "crypt_ok W" and bufs: "scratchSz \<le> length ms" "outSz \<le> length mo" "length mo < 2 ^ 63"
    and rd: "readable kid kidLen" "readable payload payloadLen" "readable detached detachedLen" "readable ea ean"
    and b: "1 \<le> max_map_items b"
    and create: "wc_CoseMac0_Create b W key alg kid kidLen payload payloadLen detached detachedLen ea ean
       (Some ms) scratchSz (Some mo) outSz outLen = (WOLFCOSE_SUCCESS, scr, Some m, Some n, fault)"
    and sc: "scratchSz \<le> scratchSz'" "scratchSz' \<le> length ms'" "scratchSz' < 2 ^ 32"
  shows "\<exists>h p pn scr'. wc_CoseMac0_Verify b W key (Some m) n detached detachedLen ea ean (Some ms') scratchSz'
       (Some hdr) (Some q) (Some qn) = (WOLFCOSE_SUCCESS, Some h, Some p, Some pn, scr', False) \<and>
    hdr_alg h = alg \<and> bytes_at (hdr_kid h) (hdr_kidLen h) = bytes_at kid kidLen \<and>
    (if detached = None then bytes_at p pn = bytes_at payload payloadLen else p = None)"
proof -
  define pl where "pl = (if detached \<noteq> None then bytes_at detached detachedLen else bytes_at payload payloadLen)"
  define tbs where "tbs = tbs_bytes WOLFCOSE_CTX_MAC0 (alg_hdr alg) None (bytes_at ea ean) pl"
  define po where "po = (if detached \<noteq> None then None else Some pl)"
  define bs where "bs = mac0_bytes (alg_hdr alg) (kid_of kid kidLen) po"
  have bs: "bs tag = mac0_bytes (alg_hdr alg) (kid_of kid kidLen) (if detached \<noteq> None then None else Some pl) tag" for tag
    by (simp add: bs_def po_def)
  note C = Mac0_Create_outcome [OF W bufs(1,2) rd create pl_def tbs_def bs]
  obtain k tag where k: "key = Some k" "length tbs \<le> scratchSz" "mac_of b W alg k tbs tag" "length (bs tag) \<le> outSz"
    "m = splice 0 (bs tag) mo" "n = length (bs tag)"
    using C(2) by auto
  have chk: "outSz < 2 ^ 32" "detachedLen < 2 ^ 32" "ean < 2 ^ 32" "key_kty k = WOLFCOSE_KTY_SYMMETRIC"
    "key_alg k = WOLFCOSE_ALG_UNSET \<or> key_alg k = alg" "kid = None \<longrightarrow> kidLen = 0" "kid \<noteq> None \<longrightarrow> kidLen \<noteq> 0"
    using C(4) k(1) unfolding mac0_create_checks_def wolfCose_LenFitsWord32_def by (auto split: if_splits)
  have m: "n \<le> length m" "length m < 2 ^ 63" "take n m = bs tag"
    using k(4-6) bufs(2,3) by (simp_all add: splice_def)
  have dp: "po = None \<longrightarrow> detached \<noteq> None" by (simp add: po_def)
  obtain s h f where s: "mac0_parse b 0 (Some m) n detached detachedLen = (WOLFCOSE_SUCCESS, s)"
    "bytes_at (msg_protected s) (msg_protectedLen s) = alg_hdr alg" "msg_algProtected s"
    "one_field (map_option (\<lambda>k. (4, k)) (kid_of kid kidLen)) (hdr_zero\<lparr>hdr_alg := alg\<rparr>) h" "msg_hdr s = h\<lparr>hdr_flags := f\<rparr>"
    "msg_tagLen s = length tag" "bytes_at (msg_tag s) (msg_tagLen s) = tag"
    "case po of None \<Rightarrow> msg_payload s = None \<and> msg_payloadLen s = 0 \<and> msg_verify s = detached \<and> msg_verifyLen s = detachedLen
     | Some x \<Rightarrow> msg_payload s \<noteq> None \<and> msg_payloadLen s = length x \<and> bytes_at (msg_payload s) (length x) = x \<and>
         msg_verify s = msg_payload s \<and> msg_verifyLen s = length x"
    using mac0_parse_reads [OF m(3) [unfolded bs_def mac0_bytes_def] insertI2 [OF singletonI] m(1,2) b dp] by blast
  have alg: "hdr_alg (msg_hdr s) = alg"
    using s(4) unfolding s(5) by (cases "kid_of kid kidLen") (auto simp: one_field_def)
  have kid: "bytes_at (hdr_kid (msg_hdr s)) (hdr_kidLen (msg_hdr s)) = bytes_at kid kidLen"
    using s(4) chk(6,7) unfolding s(5) by (cases kid) (auto simp: one_field_def kid_of_def hdr_zero_def)
  have pay: "bytes_at (msg_verify s) (msg_verifyLen s) = pl"
    "if detached = None then bytes_at (msg_payload s) (msg_payloadLen s) = bytes_at payload payloadLen else msg_payload s = None"
    using s(8) by (auto simp: po_def pl_def split: option.splits if_splits)
  have tb: "msg_tbs ea ean s = tbs" unfolding msg_tbs_def s(2) pay(1) tbs_def ..
  obtain sz where sz: "wolfCose_MacTagSize b alg (Some 0) = (WOLFCOSE_SUCCESS, Some sz)" "sz = length tag"
  proof -
    obtain sz t where z: "wolfCose_MacTagSize b alg (Some 0) = (WOLFCOSE_SUCCESS, Some sz)" "tag = take sz t"
      "mac_tag b W alg k (Some tbs) (length tbs) sz (Some (replicate (max_digest W) 0)) = (WOLFCOSE_SUCCESS, Some t)"
      using k(3) unfolding mac_of_def by blast
    have "length t = max_digest W" using mac_tag_len [OF W z(1) _ z(3)] by simp
    then have "length tag = sz" using z(2) MacTagSize_le [OF z(1)] W by (simp add: crypt_ok_def)
    then show thesis using that z(1) by simp
  qed
  have acc: "mac0_accepts b W k ea ean scratchSz' s"
    unfolding mac0_accepts_def tb alg s(7) using sz s(3,6) chk(5) k(2,3) sc(1) by auto
  have v: "mac0_verify_checks b key (Some m) n detachedLen ean (Some ms') scratchSz' (Some hdr) (Some q) (Some qn) 0 = WOLFCOSE_SUCCESS"
    using k(1,4,6) chk(1-4) sc(3) by (simp add: mac0_verify_checks_def wolfCose_LenFitsWord32_def)
  obtain ret hdr' payload' plen' scr' fault' where run: "wc_CoseMac0_Verify b W key (Some m) n detached detachedLen ea ean
      (Some ms') scratchSz' (Some hdr) (Some q) (Some qn) = (ret, hdr', payload', plen', scr', fault')"
    by (metis prod_cases6)
  note V = Mac0_Verify_outcome [OF W m(1,2) rd(3,4) sc(2) run refl]
  have ok: "ret = WOLFCOSE_SUCCESS" using V(4) k(1) v s(1) acc by blast
  then obtain s' where "mac0_parse b 0 (Some m) n detached detachedLen = (WOLFCOSE_SUCCESS, s')"
    "hdr' = Some (msg_hdr s')" "payload' = Some (msg_payload s')" "plen' = Some (msg_payloadLen s')"
    using V(3) by blast
  then show ?thesis using run ok V(1) s(1) alg kid pay(2) by auto
qed

lemma toy_verified:
  "\<exists>out n h p pn scr. toy_create = (WOLFCOSE_SUCCESS, Some (replicate 20 0), Some out, Some n, False) \<and>
    n \<le> length out \<and> length out < 2 ^ 63 \<and>
    wc_CoseMac0_Verify full_build toy_crypt (Some toy_key) (Some out) n None 0 None 0 (Some (replicate 20 7)) 20
       (Some hdr_zero) (Some None) (Some 0) = (WOLFCOSE_SUCCESS, Some h, Some p, Some pn, scr, False) \<and>
    hdr_alg h = 5 \<and> bytes_at p pn = [1]"
proof -
  obtain ret scr out n fault where c: "toy_create = (ret, scr, out, n, fault)"
    by (metis prod_cases5)
  have f: "length (alg_hdr 5) \<le> protected_hdr_max full_build" "length toy_tbs \<le> 20"
    "length (mac0_bytes (alg_hdr 5) (kid_of None 0) (Some [1]) (toy_tbs @ replicate 19 0)) \<le> 50"
    by code_simp+
  note C = Mac0_Create_outcome [OF toy_ok _ _ toy_readable(1,2,1,1) c refl refl refl]
  have ok: "ret = WOLFCOSE_SUCCESS"
    using C(5) [of toy_key "toy_tbs @ replicate 19 0"] toy_checks [folded mac0_admits_iff [of _ _ _ _ _ _ _ _ _ "replicate 20 7" _ "replicate 50 7"]] f toy_mac
    by (simp add: toy_tbs_bytes bytes_at_def)
  obtain o' n' where o: "out = Some o'" "n = Some n'" "scr = Some (replicate 20 0)" "\<not> fault" "n' \<le> length o'" "length o' = 50"
    using C(1,2) ok by (auto simp: splice_def)
  note c = c [unfolded ok o(1,2)]
  show ?thesis
    using Mac0_verifies_created [OF toy_ok _ _ _ toy_readable(1,2,1,1) full_build_items c, of 20 "replicate 20 7" hdr_zero None 0]
      c o(3-6) by (auto simp: bytes_at_def)
qed

text \<open>C2: verification accepts what creation wrote. With the same key, external data and detached payload,
the message of a successful creation verifies, in any scratch buffer at least as large, and yields the
algorithm, the key identifier and the payload it was created with.\<close>

theorem Mac0_round_trip:
  assumes W: "crypt_ok W" and bufs: "scratchSz \<le> length ms" "outSz \<le> length mo" "length mo < 2 ^ 63"
    and rd: "readable kid kidLen" "readable payload payloadLen" "readable detached detachedLen" "readable ea ean"
    and b: "1 \<le> max_map_items b"
    and create: "wc_CoseMac0_Create b W key alg kid kidLen payload payloadLen detached detachedLen ea ean
       (Some ms) scratchSz (Some mo) outSz outLen = (WOLFCOSE_SUCCESS, scr, Some m, Some n, fault)"
    and sc: "scratchSz \<le> scratchSz'" "scratchSz' \<le> length ms'" "scratchSz' < 2 ^ 32"
  shows "\<exists>h p pn scr'. wc_CoseMac0_Verify b W key (Some m) n detached detachedLen ea ean (Some ms') scratchSz'
       (Some hdr) (Some q) (Some qn) = (WOLFCOSE_SUCCESS, Some h, Some p, Some pn, scr', False) \<and>
    hdr_alg h = alg \<and> bytes_at (hdr_kid h) (hdr_kidLen h) = bytes_at kid kidLen \<and>
    (if detached = None then bytes_at p pn = bytes_at payload payloadLen else p = None)"
  by (rule Mac0_verifies_created [OF assms])

lemma Mac0_round_trip_witness:
  "\<exists>out n h p pn scr. toy_create = (WOLFCOSE_SUCCESS, Some (replicate 20 0), Some out, Some n, False) \<and>
    wc_CoseMac0_Verify full_build toy_crypt (Some toy_key) (Some out) n None 0 None 0 (Some (replicate 20 7)) 20
       (Some hdr_zero) (Some None) (Some 0) = (WOLFCOSE_SUCCESS, Some h, Some p, Some pn, scr, False) \<and>
    hdr_alg h = 5 \<and> bytes_at p pn = [1]"
proof -
  obtain out n where c: "toy_create = (WOLFCOSE_SUCCESS, Some (replicate 20 0), Some out, Some n, False)"
    using toy_verified by blast
  show ?thesis
    using Mac0_round_trip [OF toy_ok _ _ _ toy_readable(1,2,1,1) full_build_items c, of 20 "replicate 20 7" hdr_zero None 0]
      c by (auto simp: bytes_at_def)
qed

lemma Mac0_Verify_sound_witness:
  "\<exists>out n h p pn scr prot pes tag. wc_CoseMac0_Verify full_build toy_crypt (Some toy_key) (Some out) n None 0 None 0
     (Some (replicate 20 7)) 20 (Some hdr_zero) (Some None) (Some 0) = (WOLFCOSE_SUCCESS, Some h, Some p, Some pn, scr, False) \<and>
    LInt 1 \<in> fst ` set pes \<and> protected_map full_build prot pes \<and>
    mac_of full_build toy_crypt (hdr_alg h) toy_key (tbs_bytes WOLFCOSE_CTX_MAC0 prot None [] (bytes_at p pn)) tag"
proof -
  obtain out n h p pn scr where v: "wc_CoseMac0_Verify full_build toy_crypt (Some toy_key) (Some out) n None 0 None 0
     (Some (replicate 20 7)) 20 (Some hdr_zero) (Some None) (Some 0) = (WOLFCOSE_SUCCESS, Some h, Some p, Some pn, scr, False)"
    "n \<le> length out" "length out < 2 ^ 63" using toy_verified by blast
  have k: "key_alg toy_key = WOLFCOSE_ALG_UNSET" by (simp add: toy_key_def WOLFCOSE_ALG_UNSET_def)
  obtain prot pes ues pre tag t where s: "cose_headers full_build prot pes ues h" "(LInt 1, t) \<in> set pes" "p \<noteq> None"
    "mac_of full_build toy_crypt (hdr_alg h) toy_key (tbs_bytes WOLFCOSE_CTX_MAC0 prot None [] (bytes_at p pn)) tag"
    using Mac0_Verify_sound [OF toy_ok v(2,3) toy_readable(1,1) _ v(1)] k
    by (auto simp: Let_def bytes_at_def split: if_splits)
  then have "protected_map full_build prot pes" by (auto simp: cose_headers_def split: if_splits)
  moreover have "LInt 1 \<in> fst ` set pes" using s(2) by force
  ultimately show ?thesis using v(1) s(4) by blast
qed

end
