(* ===== verification/Cose_Aead.thy ===== *)
theory Cose_Aead
  imports Cose_Msg
begin

text \<open>
  The AEAD calls of COSE_Encrypt0 and COSE_Encrypt (\<open>src/wolfcose_encrypt0.c\<close>): the choice between
  AES-GCM, AES-CCM and ChaCha20-Poly1305 by the algorithm, the preparation of the \<open>Aes\<close> object and the
  encryption or decryption call. wolfCrypt is a parameter, a record of its entry points.
\<close>

section \<open>wolfCrypt's entry points\<close>

text \<open>
  \<open>'a\<close> is an \<open>Aes\<close> object; \<open>None\<close> is a non-zero return code. An encryption call gets the plaintext, the
  nonce, the length of the tag and the additional data; it returns whether it succeeded, and the bytes it
  wrote behind the ciphertext and the tag pointer. A decryption call gets the ciphertext, the nonce, the tag
  and the additional data and returns the bytes it wrote behind the plaintext pointer. A failing call may
  have written something too. The ChaCha20-Poly1305 calls read 32 bytes of key and 12 of nonce.
\<close>

record 'a wolfaead =
  aead_aes_init :: "'a option"
  gcm_setkey :: "'a \<Rightarrow> cptr \<Rightarrow> u32 \<Rightarrow> 'a option"
  gcm_encrypt :: "'a \<Rightarrow> u8 list \<Rightarrow> u8 list \<Rightarrow> u32 \<Rightarrow> u8 list \<Rightarrow> bool \<times> u8 list \<times> u8 list"
  gcm_decrypt :: "'a \<Rightarrow> u8 list \<Rightarrow> u8 list \<Rightarrow> u8 list \<Rightarrow> u8 list \<Rightarrow> bool \<times> u8 list"
  ccm_setkey :: "'a \<Rightarrow> cptr \<Rightarrow> u32 \<Rightarrow> 'a option"
  ccm_encrypt :: "'a \<Rightarrow> u8 list \<Rightarrow> u8 list \<Rightarrow> u32 \<Rightarrow> u8 list \<Rightarrow> bool \<times> u8 list \<times> u8 list"
  ccm_decrypt :: "'a \<Rightarrow> u8 list \<Rightarrow> u8 list \<Rightarrow> u8 list \<Rightarrow> u8 list \<Rightarrow> bool \<times> u8 list"
  chacha_encrypt :: "cptr \<Rightarrow> u8 list \<Rightarrow> u8 list \<Rightarrow> u8 list \<Rightarrow> bool \<times> u8 list \<times> u8 list"
  chacha_decrypt :: "cptr \<Rightarrow> u8 list \<Rightarrow> u8 list \<Rightarrow> u8 list \<Rightarrow> u8 list \<Rightarrow> bool \<times> u8 list"

section \<open>The calls\<close>

text \<open>The cast \<open>(word32)n\<close> of a length.\<close>

definition w32 :: "size \<Rightarrow> size" where
  "w32 n = unat (of_nat n :: u32)"

lemma w32_id [simp]: "n < 2 ^ 32 \<Longrightarrow> w32 n = n"
  by (simp add: w32_def unat_of_nat)

datatype aead = Aead_GCM | Aead_CCM | Aead_CHACHA

definition is_ccm :: "i32 \<Rightarrow> bool" where
  "is_ccm alg \<longleftrightarrow> alg = WOLFCOSE_ALG_AES_CCM_16_64_128 \<or> alg = WOLFCOSE_ALG_AES_CCM_16_64_256 \<or>
     alg = WOLFCOSE_ALG_AES_CCM_64_64_128 \<or> alg = WOLFCOSE_ALG_AES_CCM_64_64_256 \<or>
     alg = WOLFCOSE_ALG_AES_CCM_16_128_128 \<or> alg = WOLFCOSE_ALG_AES_CCM_16_128_256 \<or>
     alg = WOLFCOSE_ALG_AES_CCM_64_128_128 \<or> alg = WOLFCOSE_ALG_AES_CCM_64_128_256"

definition aead_family :: "build \<Rightarrow> i32 \<Rightarrow> aead option" where
  "aead_family b alg =
     (if have_aesgcm b \<and> is_gcm alg then Some Aead_GCM
      else if have_aesccm b \<and> is_ccm alg then Some Aead_CCM
      else if have_chacha20 b \<and> alg = WOLFCOSE_ALG_CHACHA20_POLY1305 then Some Aead_CHACHA
      else None)"

text \<open>The \<open>Aes\<close> object with its key; ChaCha20-Poly1305 has none.\<close>

definition aead_start :: "'a wolfaead \<Rightarrow> aead \<Rightarrow> cptr \<Rightarrow> size \<Rightarrow> rc \<times> 'a option" where
  "aead_start A fam key keyLen =
     (if fam = Aead_CHACHA then (WOLFCOSE_SUCCESS, None)
      else (case aead_aes_init A of None \<Rightarrow> (WOLFCOSE_E_CRYPTO, None)
      | Some aes \<Rightarrow> (case (if fam = Aead_GCM then gcm_setkey A aes key (of_nat keyLen)
                          else ccm_setkey A aes key (of_nat keyLen)) of
          None \<Rightarrow> (WOLFCOSE_E_CRYPTO, Some aes)
        | Some aes \<Rightarrow> (WOLFCOSE_SUCCESS, Some aes))))"

text \<open>The bytes a call reads behind the nonce pointer.\<close>

definition aead_nonce :: "aead \<Rightarrow> cptr \<Rightarrow> size \<Rightarrow> u8 list" where
  "aead_nonce fam iv ivLen =
     (if fam = Aead_CHACHA then bytes_at iv WOLFCOSE_CHACHA_NONCE_SZ else bytes_at iv (w32 ivLen))"

definition aead_seal ::
  "'a wolfaead \<Rightarrow> aead \<Rightarrow> 'a option \<Rightarrow> cptr \<Rightarrow> u8 list \<Rightarrow> u8 list \<Rightarrow> size \<Rightarrow> u8 list \<Rightarrow>
   bool \<times> u8 list \<times> u8 list" where
  "aead_seal A fam aes key iv payload tagLen aad =
     (case fam of
        Aead_GCM \<Rightarrow> gcm_encrypt A (the aes) payload iv (of_nat tagLen) aad
      | Aead_CCM \<Rightarrow> ccm_encrypt A (the aes) payload iv (of_nat tagLen) aad
      | Aead_CHACHA \<Rightarrow> chacha_encrypt A (ptr_bytes key WOLFCOSE_CHACHA_KEY_SZ) iv aad payload)"

definition aead_open ::
  "'a wolfaead \<Rightarrow> aead \<Rightarrow> 'a option \<Rightarrow> cptr \<Rightarrow> u8 list \<Rightarrow> u8 list \<Rightarrow> u8 list \<Rightarrow> u8 list \<Rightarrow> bool \<times> u8 list" where
  "aead_open A fam aes key iv ct tag aad =
     (case fam of
        Aead_GCM \<Rightarrow> gcm_decrypt A (the aes) ct iv tag aad
      | Aead_CCM \<Rightarrow> ccm_decrypt A (the aes) ct iv tag aad
      | Aead_CHACHA \<Rightarrow> chacha_decrypt A (ptr_bytes key WOLFCOSE_CHACHA_KEY_SZ) iv aad ct tag)"

section \<open>What is relied on\<close>

text \<open>
  Documented behaviour of wolfCrypt: an encryption writes no more than the plaintext's length of ciphertext
  and a tag of the length asked for (16 for ChaCha20-Poly1305), a decryption no more than the ciphertext's
  length of plaintext, and exactly that when they succeed. \<open>aead_inverts\<close>: what was encrypted decrypts.
\<close>

definition aead_ok :: "'a wolfaead \<Rightarrow> bool" where
  "aead_ok A \<longleftrightarrow>
     (\<forall>fam aes key iv pl n aad ok ct tag. aead_seal A fam aes key iv pl n aad = (ok, ct, tag) \<longrightarrow>
        (fam = Aead_CHACHA \<longrightarrow> n = 16) \<longrightarrow> n \<le> 16 \<longrightarrow>
        length ct \<le> length pl \<and> length tag \<le> n \<and> (ok \<longrightarrow> length ct = length pl \<and> length tag = n)) \<and>
     (\<forall>fam aes key iv ct tag aad ok pl. aead_open A fam aes key iv ct tag aad = (ok, pl) \<longrightarrow>
        length pl \<le> length ct \<and> (ok \<longrightarrow> length pl = length ct))"

definition aead_inverts :: "'a wolfaead \<Rightarrow> bool" where
  "aead_inverts A \<longleftrightarrow> (\<forall>fam aes key iv pl n aad ct tag.
     aead_seal A fam aes key iv pl n aad = (True, ct, tag) \<longrightarrow> aead_open A fam aes key iv ct tag aad = (True, pl))"

lemma aead_sealD:
  assumes "aead_ok A" "aead_seal A fam aes key iv pl n aad = (ok, ct, tag)" "fam = Aead_CHACHA \<longrightarrow> n = 16" "n \<le> 16"
  shows "length ct \<le> length pl" "length tag \<le> n" "ok \<Longrightarrow> length ct = length pl" "ok \<Longrightarrow> length tag = n"
  using assms unfolding aead_ok_def by blast+

lemma aead_openD:
  assumes "aead_ok A" "aead_open A fam aes key iv ct tag aad = (ok, pl)"
  shows "length pl \<le> length ct" "ok \<Longrightarrow> length pl = length ct"
  using assms unfolding aead_ok_def by blast+

section \<open>Encryption and decryption as functions of the bytes\<close>

text \<open>
  The ciphertext with its tag, and the plaintext, that an algorithm and a key give; \<open>None\<close> when the
  algorithm is not of the build or a call fails.
\<close>

definition aead_tag_len :: "build \<Rightarrow> i32 \<Rightarrow> size" where
  "aead_tag_len b alg = the (snd (wolfCose_AeadTagLen b alg (Some 0)))"

definition aead_encrypts ::
  "build \<Rightarrow> 'a wolfaead \<Rightarrow> i32 \<Rightarrow> cose_key \<Rightarrow> u8 list \<Rightarrow> u8 list \<Rightarrow> u8 list \<Rightarrow> u8 list option" where
  "aead_encrypts b A alg k iv aad payload =
     (case aead_family b alg of None \<Rightarrow> None | Some fam \<Rightarrow>
       (case aead_start A fam (key_symm k) (key_symmLen k) of (ret, aes) \<Rightarrow>
         if ret \<noteq> WOLFCOSE_SUCCESS then None
         else (case aead_seal A fam aes (key_symm k) iv payload (aead_tag_len b alg) aad of
           (ok, ct, tag) \<Rightarrow> if ok then Some (ct @ tag) else None)))"

definition aead_decrypts ::
  "build \<Rightarrow> 'a wolfaead \<Rightarrow> i32 \<Rightarrow> cose_key \<Rightarrow> u8 list \<Rightarrow> u8 list \<Rightarrow> u8 list \<Rightarrow> u8 list option" where
  "aead_decrypts b A alg k iv aad ct =
     (case aead_family b alg of None \<Rightarrow> None | Some fam \<Rightarrow>
       (case aead_start A fam (key_symm k) (key_symmLen k) of (ret, aes) \<Rightarrow>
         if ret \<noteq> WOLFCOSE_SUCCESS then None
         else let n = length ct - aead_tag_len b alg
              in (case aead_open A fam aes (key_symm k) iv (take n ct) (drop n ct) aad of
                (ok, pl) \<Rightarrow> if ok then Some pl else None)))"

lemma TagLen_16: "aead_family b alg = Some fam \<Longrightarrow>
    wolfCose_AeadTagLen b alg (Some x) = (WOLFCOSE_SUCCESS, Some (aead_tag_len b alg)) \<and>
    aead_tag_len b alg \<le> 16 \<and> 0 < aead_tag_len b alg \<and> (fam = Aead_CHACHA \<longrightarrow> aead_tag_len b alg = 16)"
  by (auto simp: aead_family_def aead_tag_len_def wolfCose_AeadTagLen_def is_gcm_def is_ccm_def split: if_splits)

lemma length_aead_encrypts:
  assumes "aead_ok A" "aead_encrypts b A alg k iv aad pl = Some ct"
  shows "length ct = length pl + aead_tag_len b alg"
proof -
  obtain fam aes c t where f: "aead_family b alg = Some fam"
    "aead_seal A fam aes (key_symm k) iv pl (aead_tag_len b alg) aad = (True, c, t)" "ct = c @ t"
    using assms(2) by (auto simp: aead_encrypts_def split: option.splits prod.splits if_splits)
  show ?thesis using aead_sealD [OF assms(1) f(2)] TagLen_16 [OF f(1)] f(3) by auto
qed

lemma aead_decrypts_encrypted:
  assumes "aead_ok A" "aead_inverts A" "aead_encrypts b A alg k iv aad pl = Some ct"
  shows "aead_decrypts b A alg k iv aad ct = Some pl"
proof -
  obtain fam aes c t where f: "aead_family b alg = Some fam"
    "aead_start A fam (key_symm k) (key_symmLen k) = (WOLFCOSE_SUCCESS, aes)"
    "aead_seal A fam aes (key_symm k) iv pl (aead_tag_len b alg) aad = (True, c, t)" "ct = c @ t"
    using assms(3) by (auto simp: aead_encrypts_def split: option.splits prod.splits if_splits)
  have "length ct - aead_tag_len b alg = length c"
    using aead_sealD [OF assms(1) f(3)] TagLen_16 [OF f(1)] f(4) by auto
  then show ?thesis
    using assms(2) f unfolding aead_inverts_def by (auto simp: aead_decrypts_def Let_def)
qed

section \<open>An instance\<close>

text \<open>The plaintext as it is, tagged with the additional data and the nonce.\<close>

definition toy_mark :: "u8 list \<Rightarrow> u8 list \<Rightarrow> nat \<Rightarrow> u8 list" where
  "toy_mark iv aad n = take n (rev aad @ iv @ replicate n 0)"

definition toy_unmark :: "u8 list \<Rightarrow> u8 list \<Rightarrow> u8 list \<Rightarrow> u8 list \<Rightarrow> bool \<times> u8 list" where
  "toy_unmark ct iv tag aad = (if tag = toy_mark iv aad (length tag) then (True, ct) else (False, []))"

definition toy_aead :: "unit wolfaead" where
  "toy_aead = \<lparr> aead_aes_init = Some (),
     gcm_setkey = (\<lambda>a _ _. Some a),
     gcm_encrypt = (\<lambda>_ pl iv n aad. (True, pl, toy_mark iv aad (unat n))),
     gcm_decrypt = (\<lambda>_ ct iv tag aad. toy_unmark ct iv tag aad),
     ccm_setkey = (\<lambda>a _ _. Some a),
     ccm_encrypt = (\<lambda>_ pl iv n aad. (True, pl, toy_mark iv aad (unat n))),
     ccm_decrypt = (\<lambda>_ ct iv tag aad. toy_unmark ct iv tag aad),
     chacha_encrypt = (\<lambda>_ iv aad pl. (True, pl, toy_mark iv aad 16)),
     chacha_decrypt = (\<lambda>_ iv aad ct tag. toy_unmark ct iv tag aad) \<rparr>"

lemma length_toy_mark [simp]: "length (toy_mark iv aad n) = n"
  by (simp add: toy_mark_def)

lemma toy_aead_ok: "aead_ok toy_aead" "aead_inverts toy_aead"
  by (auto simp: aead_ok_def aead_inverts_def toy_aead_def aead_seal_def aead_open_def toy_unmark_def unat_of_nat
      split: aead.splits if_splits)

end
