(* ===== verification/Cose_Encrypt0.thy ===== *)
theory Cose_Encrypt0
  imports Cose_Aead
begin

text \<open>
  COSE_Encrypt0 (\<open>src/wolfcose_encrypt0.c\<close>): encrypting and decrypting a message. A function's local
  variables are the record its stages pass on; a stage runs when the return code is still
  \<open>WOLFCOSE_SUCCESS\<close>, as in the code. Buffers passed by the caller are distinct objects.
\<close>

section \<open>Common pieces\<close>

definition WOLFCOSE_TAG_ENCRYPT0 :: u64 where [simp]: "WOLFCOSE_TAG_ENCRYPT0 = 16"

definition wolfCose_BuildEncStructure0 ::
  "cptr \<Rightarrow> size \<Rightarrow> cptr \<Rightarrow> size \<Rightarrow> cptr \<Rightarrow> size \<Rightarrow> size \<Rightarrow> rc \<times> cbor_ctx \<times> size" where
  "wolfCose_BuildEncStructure0 protectedHdr protectedLen extAad extAadLen scratch scratchSz structLen =
     wolfCose_BuildEncStructure (Some WOLFCOSE_CTX_ENCRYPT0) (length WOLFCOSE_CTX_ENCRYPT0) protectedHdr protectedLen
       extAad extAadLen scratch scratchSz structLen"

section \<open>Encrypting a message\<close>

record enc0_work =
  ew_protected :: cptr      \<comment> \<open>protectedBuf\<close>
  ew_protectedLen :: size
  ew_scratch :: cptr
  ew_structLen :: size      \<comment> \<open>encStructLen\<close>
  ew_keyLen :: size         \<comment> \<open>aeadKeyLen\<close>
  ew_tagLen :: size         \<comment> \<open>aeadTagLen\<close>
  ew_out :: cbor_ctx        \<comment> \<open>outCtx\<close>
  ew_detached :: cptr       \<comment> \<open>the memory at detachedPayload\<close>
  ew_detachedLen :: "size option"  \<comment> \<open>the value at detachedLen\<close>
  ew_fault :: bool          \<comment> \<open>ghost: an access outside a buffer happened\<close>

definition enc0_encrypt_checks ::
  "cose_key option \<Rightarrow> i32 \<Rightarrow> cptr \<Rightarrow> cptr \<Rightarrow> size \<Rightarrow> size \<Rightarrow> size \<Rightarrow> cptr \<Rightarrow> size \<Rightarrow> cptr \<Rightarrow> size \<Rightarrow> size option \<Rightarrow> rc" where
  "enc0_encrypt_checks key alg iv payload payloadLen detachedSz extAadLen scratch scratchSz out outSz outLen =
     (if key = None \<or> iv = None \<or> payload = None \<or> scratch = None \<or> out = None \<or> outLen = None
      then WOLFCOSE_E_INVALID_ARG
      else if \<not> wolfCose_LenFitsWord32 payloadLen \<or> \<not> wolfCose_LenFitsWord32 extAadLen \<or>
              \<not> wolfCose_LenFitsWord32 detachedSz \<or> \<not> wolfCose_LenFitsWord32 outSz \<or>
              \<not> wolfCose_LenFitsWord32 scratchSz then WOLFCOSE_E_INVALID_ARG
      else if key_kty (the key) \<noteq> WOLFCOSE_KTY_SYMMETRIC then WOLFCOSE_E_COSE_KEY_TYPE
      else if key_alg (the key) \<noteq> WOLFCOSE_ALG_UNSET \<and> key_alg (the key) \<noteq> alg then WOLFCOSE_E_COSE_BAD_ALG
      else WOLFCOSE_SUCCESS)"

text \<open>The lengths the algorithm asks for, in the order of the code.\<close>

definition enc0_key_len :: "build \<Rightarrow> i32 \<Rightarrow> cose_key \<Rightarrow> enc0_work \<Rightarrow> rc \<times> enc0_work" where
  "enc0_key_len b alg key w =
     (case wolfCose_AeadKeyLen b alg (Some (ew_keyLen w)) of (ret, n) \<Rightarrow>
        (if ret = WOLFCOSE_SUCCESS \<and> key_symmLen key \<noteq> the n then WOLFCOSE_E_COSE_KEY_TYPE else ret,
         w\<lparr>ew_keyLen := the n\<rparr>))"

definition enc0_tag_len :: "build \<Rightarrow> i32 \<Rightarrow> enc0_work \<Rightarrow> rc \<times> enc0_work" where
  "enc0_tag_len b alg w =
     (case wolfCose_AeadTagLen b alg (Some (ew_tagLen w)) of (ret, n) \<Rightarrow> (ret, w\<lparr>ew_tagLen := the n\<rparr>))"

definition enc0_payload_len :: "build \<Rightarrow> i32 \<Rightarrow> size \<Rightarrow> bool \<Rightarrow> size \<Rightarrow> enc0_work \<Rightarrow> rc \<times> enc0_work" where
  "enc0_payload_len b alg payloadLen isDetached detachedSz w =
     (let ret = (if have_aesccm b then wolfCose_AeadCheckPayloadLen alg payloadLen else WOLFCOSE_SUCCESS)
      in (if ret = WOLFCOSE_SUCCESS \<and> isDetached \<and>
             (ew_detachedLen w = None \<or> detachedSz < sz_add payloadLen (ew_tagLen w))
          then WOLFCOSE_E_BUFFER_TOO_SMALL else ret, w))"

definition enc0_nonce_len :: "build \<Rightarrow> i32 \<Rightarrow> size \<Rightarrow> enc0_work \<Rightarrow> rc \<times> enc0_work" where
  "enc0_nonce_len b alg ivLen w =
     (case wolfCose_AeadNonceLen b alg (Some 0) of (ret, n) \<Rightarrow>
        (if ret = WOLFCOSE_SUCCESS \<and> ivLen \<noteq> the n then WOLFCOSE_E_INVALID_ARG else ret, w))"

definition enc0_protected :: "build \<Rightarrow> i32 \<Rightarrow> enc0_work \<Rightarrow> rc \<times> enc0_work" where
  "enc0_protected b alg w =
     (case wolfCose_EncodeProtectedHdr alg (ew_protected w) (protected_hdr_max b) (ew_protectedLen w) of
        (ret, c, n) \<Rightarrow> (ret, w\<lparr>ew_protected := ctx_buf c, ew_protectedLen := n,
                              ew_fault := (ew_fault w \<or> ctx_fault c)\<rparr>))"

definition enc0_struct :: "cptr \<Rightarrow> size \<Rightarrow> size \<Rightarrow> enc0_work \<Rightarrow> rc \<times> enc0_work" where
  "enc0_struct extAad extAadLen scratchSz w =
     (case wolfCose_BuildEncStructure0 (ew_protected w) (ew_protectedLen w) extAad extAadLen
             (ew_scratch w) scratchSz (ew_structLen w) of
        (ret, c, n) \<Rightarrow> (ret, w\<lparr>ew_scratch := ctx_buf c, ew_structLen := n,
                              ew_fault := (ew_fault w \<or> ctx_fault c)\<rparr>))"

text \<open>The output up to the ciphertext: tag 16, the array of three, and both headers.\<close>

definition enc0_encode :: "cptr \<Rightarrow> size \<Rightarrow> cptr \<Rightarrow> size \<Rightarrow> cbor_ctx \<Rightarrow> rc \<times> cbor_ctx" where
  "enc0_encode protectedBuf protectedLen iv ivLen ctx =
     (let r = wc_CBOR_EncodeTag ctx WOLFCOSE_TAG_ENCRYPT0;
          r = on_success r (\<lambda>ctx. wc_CBOR_EncodeArrayStart ctx 3);
          r = on_success r (\<lambda>ctx. wc_CBOR_EncodeBstr ctx protectedBuf protectedLen);
          r = on_success r (\<lambda>ctx. wc_CBOR_EncodeMapStart ctx 1);
          r = on_success r (\<lambda>ctx. wc_CBOR_EncodeUint ctx WOLFCOSE_HDR_IV)
      in on_success r (\<lambda>ctx. wc_CBOR_EncodeBstr ctx iv ivLen))"

definition enc0_headers :: "cptr \<Rightarrow> size \<Rightarrow> cptr \<Rightarrow> size \<Rightarrow> enc0_work \<Rightarrow> rc \<times> enc0_work" where
  "enc0_headers iv ivLen out outSz w =
     (let ctx = \<lparr> ctx_buf = out, ctx_cbuf = None, ctx_bufSz = outSz, ctx_idx = 0, ctx_fault = False \<rparr>
      in case enc0_encode (ew_protected w) (ew_protectedLen w) iv ivLen ctx of
           (ret, c) \<Rightarrow> (ret, w\<lparr>ew_out := c, ew_fault := (ew_fault w \<or> ctx_fault c)\<rparr>))"

text \<open>
  What the encryption call reads and writes: the ciphertext goes to \<open>&m[off]\<close> and the tag to
  \<open>&m[off + payloadLen]\<close>.
\<close>

definition store_sealed :: "size \<Rightarrow> size \<Rightarrow> u8 list \<Rightarrow> u8 list \<Rightarrow> cptr \<Rightarrow> cptr \<times> bool" where
  "store_sealed off payloadLen ct tag m =
     (case store_bytes off ct m of (m, f) \<Rightarrow> (case store_bytes (off + payloadLen) tag m of (m, g) \<Rightarrow> (m, f \<or> g)))"

definition enc0_call ::
  "'a wolfaead \<Rightarrow> aead \<Rightarrow> 'a option \<Rightarrow> cose_key \<Rightarrow> cptr \<Rightarrow> size \<Rightarrow> cptr \<Rightarrow> size \<Rightarrow> enc0_work \<Rightarrow> bool \<times> u8 list \<times> u8 list" where
  "enc0_call A fam aes key iv ivLen payload payloadLen w =
     aead_seal A fam aes (key_symm key) (aead_nonce fam iv ivLen) (bytes_at payload (w32 payloadLen)) (ew_tagLen w)
       (bytes_at (ew_scratch w) (w32 (ew_structLen w)))"

text \<open>
  Detached: the ciphertext goes to \<open>detachedPayload\<close>, a null into the message, and the length is published
  when that was encoded. Attached: the head of the byte string, then the ciphertext behind it.
\<close>

definition enc0_seal_detached ::
  "'a wolfaead \<Rightarrow> aead \<Rightarrow> 'a option \<Rightarrow> cose_key \<Rightarrow> cptr \<Rightarrow> size \<Rightarrow> cptr \<Rightarrow> size \<Rightarrow> size \<Rightarrow> enc0_work \<Rightarrow>
   rc \<times> enc0_work" where
  "enc0_seal_detached A fam aes key iv ivLen payload payloadLen ctLen w =
     (case enc0_call A fam aes key iv ivLen payload payloadLen w of (ok, ct, tag) \<Rightarrow>
        (case store_sealed 0 payloadLen ct tag (ew_detached w) of (m, fault) \<Rightarrow>
          let w = w\<lparr>ew_detached := m, ew_fault := (ew_fault w \<or> fault)\<rparr>
          in if \<not> ok then (WOLFCOSE_E_CRYPTO, w)
             else (case wc_CBOR_EncodeNull (ew_out w) of (ret, c) \<Rightarrow>
               (ret, w\<lparr>ew_out := c, ew_fault := (ew_fault w \<or> ctx_fault c),
                       ew_detachedLen := (if ret = WOLFCOSE_SUCCESS then map_option (\<lambda>_. ctLen) (ew_detachedLen w)
                                          else ew_detachedLen w)\<rparr>))))"

definition enc0_seal_attached ::
  "'a wolfaead \<Rightarrow> aead \<Rightarrow> 'a option \<Rightarrow> cose_key \<Rightarrow> cptr \<Rightarrow> size \<Rightarrow> cptr \<Rightarrow> size \<Rightarrow> size \<Rightarrow> enc0_work \<Rightarrow>
   rc \<times> enc0_work" where
  "enc0_seal_attached A fam aes key iv ivLen payload payloadLen ctLen w =
     (case wolfCose_CBOR_EncodeHead (ew_out w) WOLFCOSE_CBOR_BSTR (of_nat ctLen) of (ret, c) \<Rightarrow>
        let w = w\<lparr>ew_out := c, ew_fault := (ew_fault w \<or> ctx_fault c)\<rparr>
        in if ret \<noteq> WOLFCOSE_SUCCESS then (ret, w)
           else if sz_add (ctx_idx c) ctLen > ctx_bufSz c then (WOLFCOSE_E_BUFFER_TOO_SMALL, w)
           else (case enc0_call A fam aes key iv ivLen payload payloadLen w of (ok, ct, tag) \<Rightarrow>
             (case store_sealed (ctx_idx c) payloadLen ct tag (ctx_buf c) of (m, fault) \<Rightarrow>
               (if ok then WOLFCOSE_SUCCESS else WOLFCOSE_E_CRYPTO,
                w\<lparr>ew_out := c\<lparr>ctx_buf := m, ctx_idx := (if ok then ctx_idx c + ctLen else ctx_idx c)\<rparr>,
                  ew_fault := (ew_fault w \<or> fault)\<rparr>))))"

definition enc0_seal ::
  "build \<Rightarrow> 'a wolfaead \<Rightarrow> i32 \<Rightarrow> cose_key \<Rightarrow> cptr \<Rightarrow> size \<Rightarrow> cptr \<Rightarrow> size \<Rightarrow> bool \<Rightarrow> enc0_work \<Rightarrow> rc \<times> enc0_work" where
  "enc0_seal b A alg key iv ivLen payload payloadLen isDetached w =
     (if payloadLen > SIZE_MAX - ew_tagLen w then (WOLFCOSE_E_BUFFER_TOO_SMALL, w)
      else let ctLen = payloadLen + ew_tagLen w
        in case aead_family b alg of None \<Rightarrow> (WOLFCOSE_E_COSE_BAD_ALG, w)
           | Some fam \<Rightarrow> (case aead_start A fam (key_symm key) (ew_keyLen w) of (ret, aes) \<Rightarrow>
               if ret \<noteq> WOLFCOSE_SUCCESS then (ret, w)
               else if isDetached then enc0_seal_detached A fam aes key iv ivLen payload payloadLen ctLen w
               else enc0_seal_attached A fam aes key iv ivLen payload payloadLen ctLen w))"

text \<open>
  The result: return code, scratch, out, \<open>*outLen\<close>, detachedPayload, \<open>*detachedLen\<close>, and the ghost flag.
\<close>

definition wc_CoseEncrypt0_Encrypt ::
  "build \<Rightarrow> 'a wolfaead \<Rightarrow> cose_key option \<Rightarrow> i32 \<Rightarrow> cptr \<Rightarrow> size \<Rightarrow> cptr \<Rightarrow> size \<Rightarrow> cptr \<Rightarrow> size \<Rightarrow> size option \<Rightarrow>
   cptr \<Rightarrow> size \<Rightarrow> cptr \<Rightarrow> size \<Rightarrow> cptr \<Rightarrow> size \<Rightarrow> size option \<Rightarrow>
   rc \<times> cptr \<times> cptr \<times> size option \<times> cptr \<times> size option \<times> bool" where
  "wc_CoseEncrypt0_Encrypt b A key alg iv ivLen payload payloadLen detachedPayload detachedSz detachedLen
       extAad extAadLen scratch scratchSz out outSz outLen =
     (let isDetached = (detachedPayload \<noteq> None);
          w = \<lparr> ew_protected = Some (replicate (protected_hdr_max b) 0), ew_protectedLen = 0, ew_scratch = scratch,
                ew_structLen = 0, ew_keyLen = 0, ew_tagLen = 0,
                ew_out = \<lparr> ctx_buf = out, ctx_cbuf = None, ctx_bufSz = outSz, ctx_idx = 0, ctx_fault = False \<rparr>,
                ew_detached = detachedPayload, ew_detachedLen = detachedLen, ew_fault = False \<rparr>;
          r = (enc0_encrypt_checks key alg iv payload payloadLen detachedSz extAadLen scratch scratchSz out outSz outLen, w);
          r = on_success r (\<lambda>w. enc0_key_len b alg (the key) w);
          r = on_success r (enc0_tag_len b alg);
          r = on_success r (enc0_payload_len b alg payloadLen isDetached detachedSz);
          r = on_success r (enc0_nonce_len b alg ivLen);
          r = on_success r (enc0_protected b alg);
          r = on_success r (enc0_struct extAad extAadLen scratchSz);
          r = on_success r (enc0_headers iv ivLen out outSz);
          r = on_success r (\<lambda>w. enc0_seal b A alg (the key) iv ivLen payload payloadLen isDetached w);
          ret = fst r; w = snd r
      in (ret, wolfCose_ForceZero (ew_scratch w) scratchSz,
          if ret = WOLFCOSE_SUCCESS then ctx_buf (ew_out w) else wolfCose_ForceZero (ctx_buf (ew_out w)) outSz,
          if ret = WOLFCOSE_SUCCESS then Some (ctx_idx (ew_out w)) else outLen,
          if ret \<noteq> WOLFCOSE_SUCCESS \<and> isDetached then wolfCose_ForceZero (ew_detached w) detachedSz else ew_detached w,
          ew_detachedLen w, ew_fault w))"

section \<open>Decrypting a message\<close>

definition enc0_decrypt_checks ::
  "cose_key option \<Rightarrow> cptr \<Rightarrow> size \<Rightarrow> size \<Rightarrow> size \<Rightarrow> cptr \<Rightarrow> size \<Rightarrow> cose_hdr option \<Rightarrow> cptr \<Rightarrow> size \<Rightarrow> size option \<Rightarrow> rc" where
  "enc0_decrypt_checks key input inSz detachedCtLen extAadLen scratch scratchSz hdr plaintext plaintextSz plaintextLen =
     (if key = None \<or> input = None \<or> scratch = None \<or> hdr = None \<or> plaintext = None \<or> plaintextLen = None
      then WOLFCOSE_E_INVALID_ARG
      else if \<not> wolfCose_LenFitsWord32 inSz \<or> \<not> wolfCose_LenFitsWord32 detachedCtLen \<or>
              \<not> wolfCose_LenFitsWord32 extAadLen \<or> \<not> wolfCose_LenFitsWord32 plaintextSz \<or>
              \<not> wolfCose_LenFitsWord32 scratchSz then WOLFCOSE_E_INVALID_ARG
      else if key_kty (the key) \<noteq> WOLFCOSE_KTY_SYMMETRIC then WOLFCOSE_E_COSE_KEY_TYPE
      else WOLFCOSE_SUCCESS)"

text \<open>The third element; \<open>msg_payload\<close> is \<open>ciphertext\<close>.\<close>

definition enc0_read_ct :: "build \<Rightarrow> cptr \<Rightarrow> size \<Rightarrow> cose_msg \<Rightarrow> rc \<times> cose_msg" where
  "enc0_read_ct b detachedCt detachedCtLen s =
     (let ctx = msg_ctx s; hdr = msg_hdr s
      in if next_is_null ctx then
           let s = s\<lparr>msg_ctx := ctx\<lparr>ctx_idx := ctx_idx ctx + 1\<rparr>,
                     msg_hdr := hdr\<lparr>hdr_flags := hdr_flags hdr OR WOLFCOSE_HDR_FLAG_DETACHED\<rparr>\<rparr>
           in if detachedCt = None \<or> detachedCtLen = 0 then (WOLFCOSE_E_DETACHED_PAYLOAD, s)
              else (WOLFCOSE_SUCCESS, s\<lparr>msg_payload := detachedCt, msg_payloadLen := detachedCtLen\<rparr>)
         else (case wolfCose_CBOR_DecodeBstr_ex b ctx (msg_payload s, msg_payloadLen s) 0 of (ret, ctx, p, n) \<Rightarrow>
           (ret, s\<lparr>msg_ctx := ctx, msg_payload := p, msg_payloadLen := n\<rparr>)))"

definition enc0_parse :: "build \<Rightarrow> cptr \<Rightarrow> size \<Rightarrow> cptr \<Rightarrow> size \<Rightarrow> rc \<times> cose_msg" where
  "enc0_parse b input inSz detachedCt detachedCtLen =
     (let ctx = \<lparr> ctx_buf = None, ctx_cbuf = input, ctx_bufSz = inSz, ctx_idx = 0, ctx_fault = False \<rparr>;
          r = msg_headers b 0 WOLFCOSE_TAG_ENCRYPT0 3 (msg_start ctx);
          r = on_success r (enc0_read_ct b detachedCt detachedCtLen)
      in on_success r msg_at_end)"

text \<open>The checks of the parsed message against the key; the key and tag lengths are returned.\<close>

definition enc0_decrypt_params :: "build \<Rightarrow> cose_key \<Rightarrow> size \<Rightarrow> cose_msg \<Rightarrow> rc \<times> size \<times> size" where
  "enc0_decrypt_params b key plaintextSz s =
     (let alg = hdr_alg (msg_hdr s); hdr = msg_hdr s
      in if key_alg key \<noteq> WOLFCOSE_ALG_UNSET \<and> key_alg key \<noteq> alg then (WOLFCOSE_E_COSE_BAD_ALG, 0, 0)
         else if key_alg key = WOLFCOSE_ALG_UNSET \<and> \<not> msg_algProtected s then (WOLFCOSE_E_COSE_BAD_ALG, 0, 0)
         else (case wolfCose_AeadKeyLen b alg (Some 0) of (ret, keyLen) \<Rightarrow>
           if ret \<noteq> WOLFCOSE_SUCCESS then (ret, the keyLen, 0)
           else (case wolfCose_AeadTagLen b alg (Some 0) of (ret, tagLen) \<Rightarrow>
             (if ret \<noteq> WOLFCOSE_SUCCESS then ret
              else if msg_payloadLen s < the tagLen then WOLFCOSE_E_CBOR_MALFORMED
              else if key_symmLen key \<noteq> the keyLen then WOLFCOSE_E_COSE_KEY_TYPE
              else let payloadSz = sz_sub (msg_payloadLen s) (the tagLen)
                in if have_aesccm b \<and> wolfCose_AeadCheckPayloadLen alg payloadSz \<noteq> WOLFCOSE_SUCCESS
                   then WOLFCOSE_E_CBOR_MALFORMED
                   else if payloadSz > plaintextSz then WOLFCOSE_E_BUFFER_TOO_SMALL
                   else if hdr_iv hdr = None \<or> hdr_ivLen hdr = 0 then WOLFCOSE_E_COSE_BAD_HDR
                   else (case wolfCose_AeadNonceLen b alg (Some 0) of (ret, n) \<Rightarrow>
                     if ret = WOLFCOSE_SUCCESS \<and> hdr_ivLen hdr \<noteq> the n then WOLFCOSE_E_COSE_BAD_HDR else ret),
              the keyLen, the tagLen))))"

text \<open>Rebuilding the structure and decrypting; the result has scratch and plaintext.\<close>

definition enc0_open ::
  "build \<Rightarrow> 'a wolfaead \<Rightarrow> cose_key \<Rightarrow> cptr \<Rightarrow> size \<Rightarrow> cptr \<Rightarrow> size \<Rightarrow> cptr \<Rightarrow> size \<Rightarrow> size \<Rightarrow> cose_msg \<Rightarrow>
   rc \<times> cptr \<times> cptr \<times> bool" where
  "enc0_open b A key extAad extAadLen scratch scratchSz plaintext keyLen tagLen s =
     (let hdr = msg_hdr s; payloadSz = sz_sub (msg_payloadLen s) tagLen
      in case wolfCose_BuildEncStructure0 (msg_protected s) (msg_protectedLen s) extAad extAadLen scratch scratchSz 0 of
        (ret, c, encStructLen) \<Rightarrow>
          if ret \<noteq> WOLFCOSE_SUCCESS then (ret, ctx_buf c, plaintext, ctx_fault c)
          else (case aead_family b (hdr_alg hdr) of None \<Rightarrow> (WOLFCOSE_E_COSE_BAD_ALG, ctx_buf c, plaintext, ctx_fault c)
          | Some fam \<Rightarrow> (case aead_start A fam (key_symm key) keyLen of (ret, aes) \<Rightarrow>
              if ret \<noteq> WOLFCOSE_SUCCESS then (ret, ctx_buf c, plaintext, ctx_fault c)
              else (case aead_open A fam aes (key_symm key) (aead_nonce fam (hdr_iv hdr) (hdr_ivLen hdr))
                      (bytes_at (msg_payload s) (w32 payloadSz))
                      (bytes_at (map_option (drop payloadSz) (msg_payload s)) tagLen)
                      (bytes_at (ctx_buf c) (w32 encStructLen)) of (ok, pl) \<Rightarrow>
                (case store_bytes 0 pl plaintext of (m, fault) \<Rightarrow>
                  (if ok then WOLFCOSE_SUCCESS else WOLFCOSE_E_COSE_DECRYPT_FAIL, ctx_buf c, m,
                   ctx_fault c \<or> fault \<or> mem_len (msg_payload s) < payloadSz + tagLen \<or>
                   mem_len (hdr_iv hdr) < hdr_ivLen hdr))))))"

text \<open>The result: return code, \<open>*hdr\<close>, scratch, plaintext, \<open>*plaintextLen\<close>, and the ghost flag.\<close>

definition wc_CoseEncrypt0_Decrypt ::
  "build \<Rightarrow> 'a wolfaead \<Rightarrow> cose_key option \<Rightarrow> cptr \<Rightarrow> size \<Rightarrow> cptr \<Rightarrow> size \<Rightarrow> cptr \<Rightarrow> size \<Rightarrow> cptr \<Rightarrow> size \<Rightarrow>
   cose_hdr option \<Rightarrow> cptr \<Rightarrow> size \<Rightarrow> size option \<Rightarrow>
   rc \<times> cose_hdr option \<times> cptr \<times> cptr \<times> size option \<times> bool" where
  "wc_CoseEncrypt0_Decrypt b A key input inSz detachedCt detachedCtLen extAad extAadLen scratch scratchSz
       hdr plaintext plaintextSz plaintextLen =
     (let ret0 = enc0_decrypt_checks key input inSz detachedCtLen extAadLen scratch scratchSz hdr
                   plaintext plaintextSz plaintextLen;
          (ret, hdr, scratch, plaintext, payloadSz, fault) =
            (if ret0 \<noteq> WOLFCOSE_SUCCESS then (ret0, hdr, scratch, plaintext, 0, False)
             else (case enc0_parse b input inSz detachedCt detachedCtLen of (ret, s) \<Rightarrow>
               if ret \<noteq> WOLFCOSE_SUCCESS
               then (ret, Some (msg_hdr s), scratch, plaintext, 0, ctx_fault (msg_ctx s))
               else (case enc0_decrypt_params b (the key) plaintextSz s of (ret, keyLen, tagLen) \<Rightarrow>
                 if ret \<noteq> WOLFCOSE_SUCCESS
                 then (ret, Some (msg_hdr s), scratch, plaintext, 0, ctx_fault (msg_ctx s))
                 else (case enc0_open b A (the key) extAad extAadLen scratch scratchSz plaintext keyLen tagLen s of
                   (ret, scratch, plaintext, fault) \<Rightarrow>
                     (ret, Some (msg_hdr s), scratch, plaintext, sz_sub (msg_payloadLen s) tagLen,
                      ctx_fault (msg_ctx s) \<or> fault)))))
      in (ret, wolfCose_HdrClearOnFail ret hdr, wolfCose_ForceZero scratch scratchSz,
          if ret \<noteq> WOLFCOSE_SUCCESS \<and> plaintext \<noteq> None then wolfCose_ForceZero plaintext plaintextSz else plaintext,
          if ret = WOLFCOSE_SUCCESS then Some payloadSz else if plaintextLen \<noteq> None then Some 0 else None, fault))"

end
