(* ===== verification/Cose_Encrypt0Spec.thy ===== *)
theory Cose_Encrypt0Spec
  imports Cose_Encrypt0
begin

text \<open>
  What encrypting a COSE_Encrypt0 message promises: when it succeeds and what bytes it then writes, in the
  message and in the caller's buffer for a detached ciphertext, and clean buffers after every failure.
\<close>

section \<open>The bytes of a COSE_Encrypt0\<close>

definition enc0_prefix :: "u8 list \<Rightarrow> u8 list \<Rightarrow> u8 list" where
  "enc0_prefix prot iv = cbor_head 6 16 @ cbor_head 4 3 @ str_bytes 2 prot @ cbor_head 5 1 @ cbor_head 0 5 @ str_bytes 2 iv"

definition enc0_bytes :: "u8 list \<Rightarrow> u8 list \<Rightarrow> u8 list option \<Rightarrow> u8 list" where
  "enc0_bytes prot iv ct = enc0_prefix prot iv @ payload_bytes ct"

lemma enc0_encode_writes:
  assumes "readable p n" "readable iv ivn"
  shows "cbor_writer (enc0_encode p n iv ivn) (enc0_prefix (bytes_at p n) (bytes_at iv ivn))"
proof -
  have "cbor_writer (enc0_encode p n iv ivn)
     (((((cbor_head 6 (unat WOLFCOSE_TAG_ENCRYPT0) @ cbor_head 4 (3 mod 2 ^ 64)) @ str_bytes 2 (bytes_at p n)) @
        cbor_head 5 (1 mod 2 ^ 64)) @ cbor_head 0 (unat WOLFCOSE_HDR_IV)) @ str_bytes 2 (bytes_at iv ivn))"
    unfolding enc0_encode_def [abs_def] Let_def
    by (intro writer_seq array.cbor_writer_axioms map.cbor_writer_axioms tag.cbor_writer_axioms
        uint.cbor_writer_axioms writer_str(1) assms)
  then show ?thesis by (simp add: enc0_prefix_def WOLFCOSE_HDR_IV_def)
qed

section \<open>The stages of an encryption\<close>

text \<open>What the clean-up after a failure relies on.\<close>

definition det_within :: "cptr \<Rightarrow> size \<Rightarrow> cptr \<Rightarrow> bool" where
  "det_within md dsz p = (case md of None \<Rightarrow> p = None | Some d \<Rightarrow> within d dsz p)"

definition enc0_inv :: "u8 list \<Rightarrow> size \<Rightarrow> u8 list \<Rightarrow> size \<Rightarrow> cptr \<Rightarrow> size \<Rightarrow> size option \<Rightarrow> enc0_work \<Rightarrow> bool" where
  "enc0_inv ms ssz mo osz md dsz dl w \<longleftrightarrow> \<not> ew_fault w \<and> within ms ssz (ew_scratch w) \<and>
     within mo osz (ctx_buf (ew_out w)) \<and> ew_detachedLen w = dl \<and>
     det_within md dsz (ew_detached w)"

text \<open>The entry of a table, whatever the output variable held.\<close>

lemma aead_entries:
  "\<exists>e. \<forall>x. wolfCose_AeadKeyLen b alg (Some x) = lookup_out (Some x) e"
  "\<exists>e. \<forall>x. wolfCose_AeadTagLen b alg (Some x) = lookup_out (Some x) e"
  "\<exists>e. \<forall>x. wolfCose_AeadNonceLen b alg (Some x) = lookup_out (Some x) e"
  unfolding wolfCose_AeadKeyLen_def wolfCose_AeadTagLen_def wolfCose_AeadNonceLen_def by blast+

lemma enc0_key_len_stage:
  assumes "enc0_inv ms ssz mo osz md dsz dl w"
  shows "settles (enc0_inv ms ssz mo osz md dsz dl)
    (wolfCose_AeadKeyLen b alg (Some 0) = (WOLFCOSE_SUCCESS, Some (key_symmLen k)))
    (w\<lparr>ew_keyLen := key_symmLen k\<rparr>) (enc0_key_len b alg k w)"
proof -
  obtain e where e: "wolfCose_AeadKeyLen b alg (Some x) = lookup_out (Some x) e" for x
    using aead_entries(1) by blast
  show ?thesis using assms by (cases e) (auto simp: e settles_def enc0_key_len_def enc0_inv_def)
qed

lemma enc0_tag_len_stage:
  assumes "enc0_inv ms ssz mo osz md dsz dl w"
  shows "settles (enc0_inv ms ssz mo osz md dsz dl) (fst (wolfCose_AeadTagLen b alg (Some 0)) = WOLFCOSE_SUCCESS)
    (w\<lparr>ew_tagLen := aead_tag_len b alg\<rparr>) (enc0_tag_len b alg w)"
proof -
  obtain e where e: "wolfCose_AeadTagLen b alg (Some x) = lookup_out (Some x) e" for x
    using aead_entries(2) by blast
  show ?thesis using assms by (cases e) (auto simp: e settles_def enc0_tag_len_def aead_tag_len_def enc0_inv_def)
qed

lemma enc0_payload_len_stage:
  assumes "enc0_inv ms ssz mo osz md dsz dl w"
  shows "settles (enc0_inv ms ssz mo osz md dsz dl)
    ((have_aesccm b \<longrightarrow> wolfCose_AeadCheckPayloadLen alg pln = WOLFCOSE_SUCCESS) \<and>
     (det \<longrightarrow> dl \<noteq> None \<and> sz_add pln (ew_tagLen w) \<le> dsz)) w (enc0_payload_len b alg pln det dsz w)"
proof -
  have "ew_detachedLen w = dl" using assms by (simp add: enc0_inv_def)
  then show ?thesis using assms by (auto simp: settles_def enc0_payload_len_def Let_def)
qed

lemma enc0_nonce_len_stage:
  assumes "enc0_inv ms ssz mo osz md dsz dl w"
  shows "settles (enc0_inv ms ssz mo osz md dsz dl)
    (wolfCose_AeadNonceLen b alg (Some 0) = (WOLFCOSE_SUCCESS, Some ivn)) w (enc0_nonce_len b alg ivn w)"
proof -
  obtain e where e: "wolfCose_AeadNonceLen b alg (Some x) = lookup_out (Some x) e" for x
    using aead_entries(3) by blast
  show ?thesis using assms by (cases e) (auto simp: e settles_def enc0_nonce_len_def)
qed

lemma enc0_protected_stage:
  assumes "enc0_inv ms ssz mo osz md dsz dl w" "ew_protected w = Some p" "length p = protected_hdr_max b"
  shows "settles (enc0_inv ms ssz mo osz md dsz dl) (length (alg_hdr alg) \<le> protected_hdr_max b)
    (w\<lparr>ew_protected := Some (splice 0 (alg_hdr alg) p), ew_protectedLen := length (alg_hdr alg)\<rparr>)
    (enc0_protected b alg w)"
  using EncodeProtectedHdr_spec [of "protected_hdr_max b" p alg "ew_protectedLen w"] assms
  by (auto simp: enc0_protected_def settles_def enc0_inv_def split: if_splits)

lemma enc0_struct_stage:
  assumes i: "enc0_inv ms ssz mo osz md dsz dl w" and w: "ew_scratch w = Some ms" "ssz \<le> length ms"
    and r: "readable (ew_protected w) (ew_protectedLen w)" "readable ea ean"
    and aad: "aad = enc_bytes WOLFCOSE_CTX_ENCRYPT0 (bytes_at (ew_protected w) (ew_protectedLen w)) (bytes_at ea ean)"
  shows "settles (enc0_inv ms ssz mo osz md dsz dl) (length aad \<le> ssz)
    (w\<lparr>ew_scratch := Some (splice 0 aad ms), ew_structLen := length aad\<rparr>) (enc0_struct ea ean ssz w)"
proof -
  obtain ret c n where b: "wolfCose_BuildEncStructure0 (ew_protected w) (ew_protectedLen w) ea ean
      (Some ms) ssz (ew_structLen w) = (ret, c, n)" by (metis prod_cases3)
  show ?thesis
    using BuildEncStructure_spec [OF contexts_ok(5) r w(2) b [unfolded wolfCose_BuildEncStructure0_def]] i w b
    by (auto simp: enc0_struct_def settles_def enc0_inv_def Let_def within_def aad split: if_splits)
qed

lemma enc0_headers_stage:
  assumes i: "enc0_inv ms ssz mo osz md dsz dl w" and o: "osz \<le> length mo"
    and r: "readable (ew_protected w) (ew_protectedLen w)" "readable iv ivn"
    and pre: "pre = enc0_prefix (bytes_at (ew_protected w) (ew_protectedLen w)) (bytes_at iv ivn)"
  shows "settles (enc0_inv ms ssz mo osz md dsz dl) (length pre \<le> osz)
    (w\<lparr>ew_out := append_out (fresh mo osz) pre\<rparr>) (enc0_headers iv ivn (Some mo) osz w)"
proof -
  let ?f = "enc0_encode (ew_protected w) (ew_protectedLen w) iv ivn"
  note wr = enc0_encode_writes [OF r, folded pre]
  note e = fresh_ctx [OF o]
  have fr: "\<lparr> ctx_buf = Some mo, ctx_cbuf = None, ctx_bufSz = osz, ctx_idx = 0, ctx_fault = False \<rparr> = fresh mo osz"
    by (simp add: fresh_def)
  have nf: "out_frame (fresh mo osz) c \<Longrightarrow> \<not> ctx_fault c" for c by (simp add: out_frame_def enc_ctx_def)
  show ?thesis
  proof (rule settlesI)
    assume "length pre \<le> osz"
    then have "?f (fresh mo osz) = (WOLFCOSE_SUCCESS, append_out (fresh mo osz) pre)"
      using cbor_writer.fits [OF wr e] by (simp add: fresh_def)
    then show "enc0_headers iv ivn (Some mo) osz w = (WOLFCOSE_SUCCESS, w\<lparr>ew_out := append_out (fresh mo osz) pre\<rparr>)"
      using i by (simp add: enc0_headers_def fr enc0_inv_def Let_def) (simp add: fresh_def)
  next
    assume "\<not> length pre \<le> osz"
    then have "fst (?f (fresh mo osz)) = WOLFCOSE_E_BUFFER_TOO_SMALL \<and> out_frame (fresh mo osz) (snd (?f (fresh mo osz)))"
      using cbor_writer.nofit [OF wr e] by (simp add: fresh_def)
    then show "fst (enc0_headers iv ivn (Some mo) osz w) \<noteq> WOLFCOSE_SUCCESS \<and>
        enc0_inv ms ssz mo osz md dsz dl (snd (enc0_headers iv ivn (Some mo) osz w))"
      using i within_frame nf by (auto simp: enc0_headers_def fr enc0_inv_def Let_def split: prod.splits)
  qed
qed

lemma store_sealed_within:
  assumes "within m sz p" "sz \<le> length m" "length ct \<le> n" "length tag \<le> t" "off + n + t \<le> sz"
  shows "\<exists>p'. store_sealed off n ct tag p = (p', False) \<and> within m sz p'"
proof -
  obtain p1 where 1: "store_bytes off ct p = (p1, False)" "within m sz p1"
    using within_store [OF assms(1) _ assms(2), of off ct] assms(3-5) by auto
  obtain p2 where "store_bytes (off + n) tag p1 = (p2, False)" "within m sz p2"
    using within_store [OF 1(2) _ assms(2), of "off + n" tag] assms(3-5) by auto
  with 1 show ?thesis by (simp add: store_sealed_def)
qed

lemma store_sealed_exact:
  assumes "off + length ct + length tag \<le> length m"
  shows "store_sealed off (length ct) ct tag (Some m) = (Some (splice off (ct @ tag) m), False)"
  using assms by (simp add: store_sealed_def store_bytes_def splice_splice)

text \<open>The state in which the encryption call is reached.\<close>

definition enc0_ready ::
  "build \<Rightarrow> i32 \<Rightarrow> cose_key \<Rightarrow> u8 list \<Rightarrow> u8 list \<Rightarrow> u8 list \<Rightarrow> size \<Rightarrow> cptr \<Rightarrow> enc0_work \<Rightarrow> bool" where
  "enc0_ready b alg k aad pre mo osz md w \<longleftrightarrow>
     ew_keyLen w = key_symmLen k \<and> ew_tagLen w = aead_tag_len b alg \<and>
     bytes_at (ew_scratch w) (w32 (ew_structLen w)) = aad \<and>
     ew_out w = append_out (fresh mo osz) pre \<and> length pre \<le> osz \<and> ew_detached w = md"

lemma enc0_call_bytes:
  assumes "enc0_ready b alg k aad pre mo osz md w" "pln < 2 ^ 32"
    and "wolfCose_AeadNonceLen b alg (Some 0) = (WOLFCOSE_SUCCESS, Some ivn)" "aead_family b alg = Some fam"
  shows "enc0_call A fam aes k iv ivn pl pln w =
    aead_seal A fam aes (key_symm k) (bytes_at iv ivn) (bytes_at pl pln) (aead_tag_len b alg) aad"
proof -
  have "ivn \<le> 13 \<and> (fam = Aead_CHACHA \<longrightarrow> ivn = 12)"
    using assms(3,4) by (auto simp: wolfCose_AeadNonceLen_def aead_family_def is_gcm_def is_ccm_def split: if_splits)
  then have "aead_nonce fam iv ivn = bytes_at iv ivn" by (auto simp: aead_nonce_def)
  then show ?thesis using assms(1,2) by (simp add: enc0_call_def enc0_ready_def)
qed

lemma enc0_attached_stage:
  assumes A: "aead_ok A" and i: "enc0_inv ms ssz mo osz md dsz dl w" and o: "osz \<le> length mo" "osz < 2 ^ 32"
    and rdy: "enc0_ready b alg k aad pre mo osz md w" and pl: "readable pl pln" "pln < 2 ^ 32"
    and non: "wolfCose_AeadNonceLen b alg (Some 0) = (WOLFCOSE_SUCCESS, Some ivn)"
    and fam: "aead_family b alg = Some fam" "aead_start A fam (key_symm k) (key_symmLen k) = (WOLFCOSE_SUCCESS, aes)"
    and ct: "ct = aead_encrypts b A alg k (bytes_at iv ivn) aad (bytes_at pl pln)"
    and ctLen: "ctLen = pln + ew_tagLen w"
  shows "settles (enc0_inv ms ssz mo osz md dsz dl) (ct \<noteq> None \<and> length (pre @ str_bytes 2 (the ct)) \<le> osz)
    (w\<lparr>ew_out := append_out (fresh mo osz) (pre @ str_bytes 2 (the ct))\<rparr>)
    (enc0_seal_attached A fam aes k iv ivn pl pln ctLen w)"
proof -
  let ?c = "append_out (fresh mo osz) pre" and ?t = "aead_tag_len b alg"
  have w: "ew_out w = ?c" "length pre \<le> osz" "ew_tagLen w = ?t" using rdy by (simp_all add: enc0_ready_def)
  note T = TagLen_16 [OF fam(1), of 0]
  have lt: "ctLen < 2 ^ 64" using T pl(2) by (simp add: ctLen w(3))
  have e: "enc_ctx ?c" using fresh_ctx [OF o(1)] w(2) by (intro enc_ctx_append) (simp_all add: fresh_def)
  have ix: "ctx_idx ?c = length pre" "ctx_bufSz ?c = osz" "\<not> ctx_fault ?c" by (simp_all add: fresh_def)
  obtain ok x tag where call: "enc0_call A fam aes k iv ivn pl pln w' = (ok, x, tag)"
    if "w' = w\<lparr>ew_out := c, ew_fault := f\<rparr>" for w' c f
  proof -
    obtain ok x tag where "enc0_call A fam aes k iv ivn pl pln w = (ok, x, tag)" by (metis prod_cases3)
    then show thesis by (intro that) (simp add: enc0_call_def)
  qed
  have "enc0_call A fam aes k iv ivn pl pln w = (ok, x, tag)" using call [of _ "ew_fault w" "ew_out w"] by simp
  note seal = this [unfolded enc0_call_bytes [OF rdy pl(2) non fam(1)]]
  have "length (bytes_at pl pln) = pln" using pl(1) by simp
  then have len: "length x \<le> pln" "length tag \<le> ?t" "ok \<Longrightarrow> length x = pln" "ok \<Longrightarrow> length tag = ?t"
    using aead_sealD [OF A seal] T by simp_all
  have ct': "ct = (if ok then Some (x @ tag) else None)" using seal fam by (simp add: ct aead_encrypts_def)
  have long: "length (str_bytes 2 (x @ tag)) = length (cbor_head 2 ctLen) + ctLen" if ok
    using len that by (simp add: str_bytes_def ctLen w(3))
  let ?h = "cbor_head 2 ctLen" and ?f = "\<lambda>c. wolfCose_CBOR_EncodeHead c WOLFCOSE_CBOR_BSTR (of_nat ctLen)"
  have wr: "cbor_writer ?f ?h" using writer_head [of WOLFCOSE_CBOR_BSTR "of_nat ctLen"] lt by (simp add: unat_of_nat)
  let ?r = "enc0_seal_attached A fam aes k iv ivn pl pln ctLen w"
  show ?thesis
  proof (cases "length pre + length ?h \<le> osz")
    case False
    then obtain c2 where c2: "?f ?c = (WOLFCOSE_E_BUFFER_TOO_SMALL, c2)" "out_frame ?c c2"
      using cbor_writer.nofit [OF wr e] unfolding ix by (cases "?f ?c") simp
    have "out_frame (fresh mo osz) ?c"
      using fresh_ctx [OF o(1)] w(2) by (intro out_frame_append) (simp_all add: fresh_def)
    then have "within mo osz (ctx_buf c2)" by (rule within_frame [OF out_frame_trans [OF _ c2(2)]])
    moreover have "\<not> ctx_fault c2" using c2(2) by (simp add: out_frame_def enc_ctx_def)
    ultimately have "fst ?r \<noteq> WOLFCOSE_SUCCESS" "enc0_inv ms ssz mo osz md dsz dl (snd ?r)"
      using i unfolding enc0_seal_attached_def w(1) c2(1) by (simp_all add: enc0_inv_def)
    then show ?thesis using False long by (intro settlesI) (auto simp: ct' split: if_splits)
  next
    case True
    let ?c1 = "append_out ?c ?h"
    have f: "?f ?c = (WOLFCOSE_SUCCESS, ?c1)" using cbor_writer.fits [OF wr e] ix True by simp
    have c1: "?c1 = append_out (fresh mo osz) (pre @ ?h)"
      using fresh_ctx [OF o(1)] True by (intro append_append_out) (simp_all add: fresh_def)
    have ix1: "ctx_idx ?c1 = length (pre @ ?h)" "ctx_bufSz ?c1 = osz" "\<not> ctx_fault ?c1" by (simp_all add: fresh_def)
    have wi: "within mo osz (ctx_buf ?c1)" unfolding c1 using append_out_within [OF o(1)] True by simp
    have add: "sz_add (ctx_idx ?c1) ctLen = length (pre @ ?h) + ctLen"
      unfolding ix1 using True T pl(2) o(2) by (intro sz_add_id) (simp add: ctLen w(3))
    note r = enc0_seal_attached_def [of A fam aes k iv ivn pl pln ctLen w, unfolded w(1) f prod.case Let_def add ix1(2)]
    show ?thesis
    proof (cases "length (pre @ ?h) + ctLen \<le> osz")
      case False
      then have "fst ?r \<noteq> WOLFCOSE_SUCCESS \<and> enc0_inv ms ssz mo osz md dsz dl (snd ?r)"
        using i wi ix1(3) unfolding r by (simp add: enc0_inv_def)
      then show ?thesis using False long by (intro settlesI) (auto simp: ct' split: if_splits)
    next
      case fits: True
      obtain m where m: "store_sealed (ctx_idx ?c1) pln x tag (ctx_buf ?c1) = (m, False)" "within mo osz m"
        using store_sealed_within [OF wi o(1) len(1,2), of "ctx_idx ?c1"] fits ix1(1)
        unfolding ctLen w(3) by (auto simp del: append_out_simps)
      have nf: "ew_fault w = False" using i by (simp add: enc0_inv_def)
      have run: "?r = (if ok then WOLFCOSE_SUCCESS else WOLFCOSE_E_CRYPTO, w\<lparr>ew_out := ?c1\<lparr>ctx_buf := m,
          ctx_idx := (if ok then ctx_idx ?c1 + ctLen else ctx_idx ?c1)\<rparr>, ew_fault := False\<rparr>)"
        unfolding r call [OF refl] prod.case m(1) using fits ix1(3) nf by (simp add: fresh_def)
      show ?thesis
      proof (cases ok)
        case False
        then show ?thesis using run i m(2) by (intro settlesI) (auto simp: ct' enc0_inv_def)
      next
        case True
        have bl: "(pre @ ?h) @ x @ tag = pre @ str_bytes 2 (x @ tag)"
          using len True by (simp add: str_bytes_def ctLen w(3))
        have lx: "length (x @ tag) = ctLen" using len True by (simp add: ctLen w(3))
        have "m = Some (splice (length (pre @ ?h)) (x @ tag) (splice 0 (pre @ ?h) mo))"
          using m(1) store_sealed_exact [of "length (pre @ ?h)" x tag "splice 0 (pre @ ?h) mo"] fits o(1) len(3) [OF True] lx
          unfolding ix1 c1 by (simp add: append_out_def fresh_def)
        then have "?c1\<lparr>ctx_buf := m, ctx_idx := ctx_idx ?c1 + ctLen\<rparr> = append_out ?c1 (x @ tag)"
          unfolding c1 by (simp add: append_out_def fresh_def lx [symmetric])
        also have "\<dots> = append_out (fresh mo osz) (pre @ str_bytes 2 (x @ tag))"
          unfolding c1 bl [symmetric] using fresh_ctx [OF o(1)] fits lx
          by (intro append_append_out) (simp_all add: fresh_def)
        finally have "?r = (WOLFCOSE_SUCCESS, w\<lparr>ew_out := append_out (fresh mo osz) (pre @ str_bytes 2 (x @ tag))\<rparr>)"
          using run True nf by simp
        moreover have "length (pre @ str_bytes 2 (x @ tag)) \<le> osz" using fits long [OF True] by simp
        ultimately show ?thesis using True by (intro settlesI) (simp_all add: ct')
      qed
    qed
  qed
qed

lemma enc0_detached_stage:
  assumes A: "aead_ok A" and i: "enc0_inv ms ssz mo osz (Some d) dsz (Some dn) w" and o: "osz \<le> length mo"
    and rdy: "enc0_ready b alg k aad pre mo osz (Some d) w" and pl: "readable pl pln" "pln < 2 ^ 32"
    and det: "pln + ew_tagLen w \<le> dsz" "dsz \<le> length d"
    and non: "wolfCose_AeadNonceLen b alg (Some 0) = (WOLFCOSE_SUCCESS, Some ivn)"
    and fam: "aead_family b alg = Some fam" "aead_start A fam (key_symm k) (key_symmLen k) = (WOLFCOSE_SUCCESS, aes)"
    and ct: "ct = aead_encrypts b A alg k (bytes_at iv ivn) aad (bytes_at pl pln)"
    and ctLen: "ctLen = pln + ew_tagLen w"
  shows "settles (enc0_inv ms ssz mo osz (Some d) dsz (Some dn)) (ct \<noteq> None \<and> length (pre @ [0xF6]) \<le> osz)
    (w\<lparr>ew_out := append_out (fresh mo osz) (pre @ [0xF6]), ew_detached := Some (splice 0 (the ct) d),
       ew_detachedLen := Some (length (the ct))\<rparr>)
    (enc0_seal_detached A fam aes k iv ivn pl pln ctLen w)"
proof -
  let ?c = "append_out (fresh mo osz) pre" and ?t = "aead_tag_len b alg"
  have w: "ew_out w = ?c" "length pre \<le> osz" "ew_tagLen w = ?t" "ew_detached w = Some d"
    using rdy by (simp_all add: enc0_ready_def)
  have nf: "ew_fault w = False" "ew_detachedLen w = Some dn" using i by (simp_all add: enc0_inv_def)
  note T = TagLen_16 [OF fam(1), of 0]
  have e: "enc_ctx ?c" using fresh_ctx [OF o(1)] w(2) by (intro enc_ctx_append) (simp_all add: fresh_def)
  have ix: "ctx_idx ?c = length pre" "ctx_bufSz ?c = osz" "\<not> ctx_fault ?c" by (simp_all add: fresh_def)
  obtain ok x tag where call: "enc0_call A fam aes k iv ivn pl pln w = (ok, x, tag)" by (metis prod_cases3)
  note seal = call [unfolded enc0_call_bytes [OF rdy pl(2) non fam(1)]]
  have "length (bytes_at pl pln) = pln" using pl(1) by simp
  then have len: "length x \<le> pln" "length tag \<le> ?t" "ok \<Longrightarrow> length x = pln" "ok \<Longrightarrow> length tag = ?t"
    using aead_sealD [OF A seal] T by simp_all
  have ct': "ct = (if ok then Some (x @ tag) else None)" using seal fam by (simp add: ct aead_encrypts_def)
  obtain m where m: "store_sealed 0 pln x tag (Some d) = (m, False)" "within d dsz m"
    using store_sealed_within [OF within_self det(2) len(1,2), of 0] det(1) w(3) by auto
  let ?r = "enc0_seal_detached A fam aes k iv ivn pl pln ctLen w"
  note r = enc0_seal_detached_def [of A fam aes k iv ivn pl pln ctLen w, unfolded call prod.case w(4) m(1) Let_def]
  show ?thesis
  proof (cases ok)
    case False
    then show ?thesis using i m(2) nf unfolding r by (intro settlesI) (simp_all add: ct' enc0_inv_def det_within_def)
  next
    case True
    have mx: "m = Some (splice 0 (x @ tag) d)"
      using m(1) store_sealed_exact [of 0 x tag d] len True det w(3) by simp
    have lx: "length (x @ tag) = ctLen" using len True by (simp add: ctLen w(3))
    note wr = null_val.cbor_writer_axioms
    show ?thesis
    proof (cases "length pre + 1 \<le> osz")
      case fits: True
      have "wc_CBOR_EncodeNull ?c = (WOLFCOSE_SUCCESS, append_out ?c [0xF6])"
        using cbor_writer.fits [OF wr e] fits unfolding ix by simp
      moreover have "append_out ?c [0xF6] = append_out (fresh mo osz) (pre @ [0xF6])"
        using fresh_ctx [OF o(1)] fits by (intro append_append_out) (simp_all add: fresh_def)
      moreover have "\<not> ctx_fault (append_out (fresh mo osz) (pre @ [0xF6]))" by (simp add: fresh_def)
      ultimately show ?thesis using True nf fits lx unfolding r
        by (intro settlesI) (simp_all add: w(1) ct' mx)
    next
      case nofit: False
      then obtain c2 where c2: "wc_CBOR_EncodeNull ?c = (WOLFCOSE_E_BUFFER_TOO_SMALL, c2)" "out_frame ?c c2"
        using cbor_writer.nofit [OF wr e] unfolding ix by (cases "wc_CBOR_EncodeNull ?c") simp
      have "out_frame (fresh mo osz) ?c"
        using fresh_ctx [OF o(1)] w(2) by (intro out_frame_append) (simp_all add: fresh_def)
      then have "within mo osz (ctx_buf c2)" by (rule within_frame [OF out_frame_trans [OF _ c2(2)]])
      moreover have "\<not> ctx_fault c2" using c2(2) by (simp add: out_frame_def enc_ctx_def)
      ultimately show ?thesis using i m(2) nf nofit True unfolding r
        by (intro settlesI) (simp_all add: w(1) c2(1) enc0_inv_def det_within_def)
    qed
  qed
qed

text \<open>The state an encryption ends in, from the one it encrypts in.\<close>

definition enc0_sealed_work :: "u8 list \<Rightarrow> size \<Rightarrow> u8 list \<Rightarrow> u8 list \<Rightarrow> enc0_work \<Rightarrow> enc0_work" where
  "enc0_sealed_work mo osz pre ct w =
     (case ew_detached w of
        None \<Rightarrow> w\<lparr>ew_out := append_out (fresh mo osz) (pre @ payload_bytes (Some ct))\<rparr>
      | Some d \<Rightarrow> w\<lparr>ew_out := append_out (fresh mo osz) (pre @ payload_bytes None), ew_detached := Some (splice 0 ct d),
                   ew_detachedLen := Some (length ct)\<rparr>)"

lemma enc0_seal_stage:
  assumes A: "aead_ok A" and i: "enc0_inv ms ssz mo osz md dsz dl w" and o: "osz \<le> length mo" "osz < 2 ^ 32"
    and rdy: "enc0_ready b alg k aad pre mo osz md w" and pl: "readable pl pln" "pln < 2 ^ 32"
    and det: "md \<noteq> None \<Longrightarrow> dl \<noteq> None \<and> pln + ew_tagLen w \<le> dsz \<and> dsz \<le> mem_len md"
    and non: "wolfCose_AeadNonceLen b alg (Some 0) = (WOLFCOSE_SUCCESS, Some ivn)"
    and tag: "fst (wolfCose_AeadTagLen b alg (Some 0)) = WOLFCOSE_SUCCESS"
    and ct: "ct = aead_encrypts b A alg k (bytes_at iv ivn) aad (bytes_at pl pln)"
  shows "settles (enc0_inv ms ssz mo osz md dsz dl)
    (ct \<noteq> None \<and> length (pre @ payload_bytes (if md = None then ct else None)) \<le> osz)
    (enc0_sealed_work mo osz pre (the ct) w) (enc0_seal b A alg k iv ivn pl pln (md \<noteq> None) w)"
proof -
  have dw: "ew_detached w = md" "ew_keyLen w = key_symmLen k" using rdy by (simp_all add: enc0_ready_def)
  have "ew_tagLen w \<le> 16"
    using rdy tag by (auto simp: enc0_ready_def aead_tag_len_def wolfCose_AeadTagLen_def split: if_splits)
  then have len: "\<not> payloadLen' > SIZE_MAX - ew_tagLen w" if "payloadLen' = pln" for payloadLen'
    using pl(2) that by (simp add: SIZE_MAX_def)
  note r = enc0_seal_def [of b A alg k iv ivn pl pln "md \<noteq> None" w, unfolded if_not_P [OF len [OF refl]] Let_def dw(2)]
  show ?thesis
  proof (cases "aead_family b alg")
    case None
    then show ?thesis using i unfolding r by (intro settlesI) (simp_all add: ct aead_encrypts_def)
  next
    case (Some fam)
    obtain ret aes where st: "aead_start A fam (key_symm k) (key_symmLen k) = (ret, aes)" by fastforce
    show ?thesis
    proof (cases "ret = WOLFCOSE_SUCCESS")
      case False
      then show ?thesis using i Some st unfolding r by (intro settlesI) (simp_all add: ct aead_encrypts_def)
    next
      case True
      note st = st [unfolded True]
      have run: "enc0_seal b A alg k iv ivn pl pln (md \<noteq> None) w =
          (if md \<noteq> None then enc0_seal_detached A fam aes k iv ivn pl pln (pln + ew_tagLen w) w
           else enc0_seal_attached A fam aes k iv ivn pl pln (pln + ew_tagLen w) w)"
        unfolding r Some option.case st prod.case by simp
      show ?thesis
      proof (cases md)
        case None
        show ?thesis
          using enc0_attached_stage [OF A i o rdy pl non Some st ct refl] None
          unfolding run enc0_sealed_work_def dw(1) by (cases ct) (auto simp: payload_bytes_def settles_def)
      next
        case (Some d)
        obtain dn where "dl = Some dn" "pln + ew_tagLen w \<le> dsz" "dsz \<le> length d" using det Some by auto
        then show ?thesis
          using enc0_detached_stage [OF A _ o(1) _ pl _ _ non \<open>aead_family b alg = Some fam\<close> st ct refl] i rdy Some
          unfolding run enc0_sealed_work_def dw(1) by (auto simp: payload_bytes_def settles_def)
      qed
    qed
  qed
qed

section \<open>Encryption\<close>

text \<open>What an algorithm and a key admit, for a nonce and a payload of given lengths.\<close>

definition enc0_admits :: "build \<Rightarrow> cose_key \<Rightarrow> i32 \<Rightarrow> size \<Rightarrow> size \<Rightarrow> bool" where
  "enc0_admits b k alg ivLen payloadLen \<longleftrightarrow>
     key_kty k = WOLFCOSE_KTY_SYMMETRIC \<and> (key_alg k = WOLFCOSE_ALG_UNSET \<or> key_alg k = alg) \<and>
     wolfCose_AeadKeyLen b alg (Some 0) = (WOLFCOSE_SUCCESS, Some (key_symmLen k)) \<and>
     fst (wolfCose_AeadTagLen b alg (Some 0)) = WOLFCOSE_SUCCESS \<and>
     wolfCose_AeadNonceLen b alg (Some 0) = (WOLFCOSE_SUCCESS, Some ivLen) \<and>
     (have_aesccm b \<longrightarrow> wolfCose_AeadCheckPayloadLen alg payloadLen = WOLFCOSE_SUCCESS)"

text \<open>The additional data and the message of an encryption.\<close>

definition enc0_aad :: "i32 \<Rightarrow> u8 list \<Rightarrow> u8 list" where
  "enc0_aad alg ext = enc_bytes WOLFCOSE_CTX_ENCRYPT0 (alg_hdr alg) ext"

definition enc0_msg :: "i32 \<Rightarrow> u8 list \<Rightarrow> u8 list option \<Rightarrow> u8 list" where
  "enc0_msg alg iv ct = enc0_bytes (alg_hdr alg) iv ct"

text \<open>
  An encryption is accepted with the ciphertext \<open>ct\<close>: arguments present and of 32-bit length, the key and the
  lengths admitted, the call answers \<open>ct\<close>, and everything fits its buffer.
\<close>

definition enc0_accepted ::
  "build \<Rightarrow> 'a wolfaead \<Rightarrow> cose_key option \<Rightarrow> i32 \<Rightarrow> cptr \<Rightarrow> size \<Rightarrow> cptr \<Rightarrow> size \<Rightarrow> cptr \<Rightarrow> size \<Rightarrow> size option \<Rightarrow>
   cptr \<Rightarrow> size \<Rightarrow> size \<Rightarrow> size \<Rightarrow> size option \<Rightarrow> u8 list \<Rightarrow> bool" where
  "enc0_accepted b A key alg iv ivLen payload payloadLen detached detachedSz detachedLen extAad extAadLen
       scratchSz outSz outLen ct \<longleftrightarrow>
     (\<exists>k. key = Some k \<and> iv \<noteq> None \<and> payload \<noteq> None \<and> outLen \<noteq> None \<and>
        max payloadLen (max extAadLen (max detachedSz (max outSz scratchSz))) < 2 ^ 32 \<and>
        enc0_admits b k alg ivLen payloadLen \<and>
        (detached \<noteq> None \<longrightarrow> detachedLen \<noteq> None \<and> payloadLen + aead_tag_len b alg \<le> detachedSz) \<and>
        length (alg_hdr alg) \<le> protected_hdr_max b \<and>
        length (enc0_aad alg (bytes_at extAad extAadLen)) \<le> scratchSz \<and>
        aead_encrypts b A alg k (bytes_at iv ivLen) (enc0_aad alg (bytes_at extAad extAadLen))
          (bytes_at payload payloadLen) = Some ct \<and>
        length (enc0_msg alg (bytes_at iv ivLen) (if detached = None then Some ct else None)) \<le> outSz)"

lemma enc0_checks_iff:
  "enc0_encrypt_checks key alg iv pl pln dsz ean (Some ms) ssz (Some mo) osz outLen = WOLFCOSE_SUCCESS \<longleftrightarrow>
     (\<exists>k. key = Some k \<and> iv \<noteq> None \<and> pl \<noteq> None \<and> outLen \<noteq> None \<and>
        max pln (max ean (max dsz (max osz ssz))) < 2 ^ 32 \<and> key_kty k = WOLFCOSE_KTY_SYMMETRIC \<and>
        (key_alg k = WOLFCOSE_ALG_UNSET \<or> key_alg k = alg))"
  by (cases key; auto simp: enc0_encrypt_checks_def wolfCose_LenFitsWord32_def)

lemma enc0_run:
  fixes A :: "'a wolfaead" and b :: build and k :: cose_key
  assumes A: "aead_ok A" and s: "ssz \<le> length ms" "ssz < 2 ^ 32" and o: "osz \<le> length mo" "osz < 2 ^ 32"
    and det: "dsz \<le> mem_len md \<or> md = None"
    and r: "readable iv ivn" "readable pl pln" "readable ea ean" "pln < 2 ^ 32"
    and pin: "key_kty k = WOLFCOSE_KTY_SYMMETRIC" "key_alg k = WOLFCOSE_ALG_UNSET \<or> key_alg k = alg"
    and w0: "w0 = \<lparr> ew_protected = Some (replicate (protected_hdr_max b) 0), ew_protectedLen = 0, ew_scratch = Some ms,
                ew_structLen = 0, ew_keyLen = 0, ew_tagLen = 0,
                ew_out = \<lparr> ctx_buf = Some mo, ctx_cbuf = None, ctx_bufSz = osz, ctx_idx = 0, ctx_fault = False \<rparr>,
                ew_detached = md, ew_detachedLen = dl, ew_fault = False \<rparr>"
    and aad: "aad = enc0_aad alg (bytes_at ea ean)"
    and pre: "pre = enc0_prefix (alg_hdr alg) (bytes_at iv ivn)"
    and ct: "ct = aead_encrypts b A alg k (bytes_at iv ivn) aad (bytes_at pl pln)"
    and W: "w = \<lparr> ew_protected = Some (splice 0 (alg_hdr alg) (replicate (protected_hdr_max b) 0)),
                ew_protectedLen = length (alg_hdr alg), ew_scratch = Some (splice 0 aad ms),
                ew_structLen = length aad, ew_keyLen = key_symmLen k, ew_tagLen = aead_tag_len b alg,
                ew_out = append_out (fresh mo osz) pre, ew_detached = md, ew_detachedLen = dl, ew_fault = False \<rparr>"
  shows "settles (enc0_inv ms ssz mo osz md dsz dl)
    (enc0_admits b k alg ivn pln \<and> (md \<noteq> None \<longrightarrow> dl \<noteq> None \<and> pln + aead_tag_len b alg \<le> dsz) \<and>
     length (alg_hdr alg) \<le> protected_hdr_max b \<and> length aad \<le> ssz \<and> length pre \<le> osz \<and>
     ct \<noteq> None \<and> length (pre @ payload_bytes (if md = None then ct else None)) \<le> osz)
    (enc0_sealed_work mo osz pre (the ct) w)
    (on_success (on_success (on_success (on_success (on_success (on_success (on_success (enc0_key_len b alg k w0)
        (enc0_tag_len b alg)) (enc0_payload_len b alg pln (md \<noteq> None) dsz)) (enc0_nonce_len b alg ivn))
        (enc0_protected b alg)) (enc0_struct ea ean ssz)) (enc0_headers iv ivn (Some mo) osz))
        (\<lambda>w. enc0_seal b A alg k iv ivn pl pln (md \<noteq> None) w))"
    (is "settles ?E ?C ?w ?r")
proof -
  let ?p = "splice 0 (alg_hdr alg) (replicate (protected_hdr_max b) 0)"
  let ?C1 = "wolfCose_AeadKeyLen b alg (Some 0) = (WOLFCOSE_SUCCESS, Some (key_symmLen k))"
  let ?C2 = "fst (wolfCose_AeadTagLen b alg (Some 0)) = WOLFCOSE_SUCCESS"
  let ?C3 = "(have_aesccm b \<longrightarrow> wolfCose_AeadCheckPayloadLen alg pln = WOLFCOSE_SUCCESS) \<and>
     (md \<noteq> None \<longrightarrow> dl \<noteq> None \<and> sz_add pln (aead_tag_len b alg) \<le> dsz)"
  let ?C4 = "wolfCose_AeadNonceLen b alg (Some 0) = (WOLFCOSE_SUCCESS, Some ivn)"
  let ?C5 = "length (alg_hdr alg) \<le> protected_hdr_max b"
  let ?C8 = "ct \<noteq> None \<and> length (pre @ payload_bytes (if md = None then ct else None)) \<le> osz"
  define w1 where "w1 = w0\<lparr>ew_keyLen := key_symmLen k\<rparr>"
  define w2 where "w2 = w1\<lparr>ew_tagLen := aead_tag_len b alg\<rparr>"
  define w3 where "w3 = w2\<lparr>ew_protected := Some ?p, ew_protectedLen := length (alg_hdr alg)\<rparr>"
  define w4 where "w4 = w3\<lparr>ew_scratch := Some (splice 0 aad ms), ew_structLen := length aad\<rparr>"
  have w5: "w = w4\<lparr>ew_out := append_out (fresh mo osz) pre\<rparr>" by (simp add: W w4_def w3_def w2_def w1_def w0)
  note ws = w4_def w3_def w2_def w1_def w0
  have dw: "det_within md dsz md" by (cases md) (simp_all add: det_within_def)
  have i: "?E w0" "?E w1" "?E w2" "?E w3" using dw by (simp_all add: enc0_inv_def ws)
  have i4: "length aad \<le> ssz \<Longrightarrow> ?E w4" using dw within_splice s(1) by (simp add: enc0_inv_def ws)
  have i5: "length aad \<le> ssz \<Longrightarrow> length pre \<le> osz \<Longrightarrow> ?E w"
    using i4 append_out_within [OF o(1), of pre] unfolding w5 by (simp add: enc0_inv_def)
  have prot: "bytes_at (Some ?p) (length (alg_hdr alg)) = alg_hdr alg" "readable (Some ?p) (length (alg_hdr alg))"
    if ?C5
    using that length_alg_hdr [of alg] splice_prefix [of "alg_hdr alg" "replicate (protected_hdr_max b) 0"]
      readable_splice [of "alg_hdr alg" "replicate (protected_hdr_max b) 0"] by simp_all
  have w3f: "ew_scratch w3 = Some ms" "ew_protected w3 = Some ?p" "ew_protectedLen w3 = length (alg_hdr alg)"
    "ew_protected w4 = Some ?p" "ew_protectedLen w4 = length (alg_hdr alg)" "ew_tagLen w2 = aead_tag_len b alg"
    "ew_protected w2 = Some (replicate (protected_hdr_max b) 0)" "ew_tagLen w = aead_tag_len b alg"
    by (simp_all add: ws W)
  have s1: "settles ?E ?C1 w1 (enc0_key_len b alg k w0)"
    using enc0_key_len_stage [OF i(1)] unfolding w1_def .
  have s2: "settles ?E ?C2 w2 (enc0_tag_len b alg w1)"
    using enc0_tag_len_stage [OF i(2)] unfolding w2_def .
  have s3: "settles ?E ?C3 w2 (enc0_payload_len b alg pln (md \<noteq> None) dsz w2)"
    using enc0_payload_len_stage [OF i(3)] unfolding w3f(6) .
  have s4: "settles ?E ?C4 w2 (enc0_nonce_len b alg ivn w2)" by (rule enc0_nonce_len_stage [OF i(3)])
  have s5: "settles ?E ?C5 w3 (enc0_protected b alg w2)"
    using enc0_protected_stage [OF i(3) w3f(7)] unfolding w3_def by simp
  have s6: "settles ?E (length aad \<le> ssz) w4 (enc0_struct ea ean ssz w3)" if ?C5
    using enc0_struct_stage [OF i(4) w3f(1) s(1) _ r(3), unfolded w3f(2,3), OF prot(2) [OF that]]
    unfolding w4_def aad enc0_aad_def prot(1) [OF that] by blast
  have s7: "settles ?E (length pre \<le> osz) w (enc0_headers iv ivn (Some mo) osz w4)" if ?C5 "length aad \<le> ssz"
    using enc0_headers_stage [OF i4 [OF that(2)] o(1) _ r(1), unfolded w3f(4,5), OF prot(2) [OF that(1)]]
    unfolding w5 pre prot(1) [OF that(1)] by blast
  have tl: "aead_tag_len b alg \<le> 16" if ?C2
    using that by (auto simp: aead_tag_len_def wolfCose_AeadTagLen_def split: if_splits)
  have add: "sz_add pln (aead_tag_len b alg) = pln + aead_tag_len b alg" if ?C2
    using tl [OF that] r(4) by simp
  have s8: "settles ?E ?C8 ?w (enc0_seal b A alg k iv ivn pl pln (md \<noteq> None) w)"
    if "?C2" "?C3" "?C4" "length aad \<le> ssz" "length pre \<le> osz"
  proof (rule enc0_seal_stage [OF A i5 [OF that(4,5)] o _ r(2,4) _ that(3,1) ct])
    show "enc0_ready b alg k aad pre mo osz md w"
      using that(4,5) s by (simp add: enc0_ready_def W splice_def)
    show "dl \<noteq> None \<and> pln + ew_tagLen w \<le> dsz \<and> dsz \<le> mem_len md" if "md \<noteq> None"
      using \<open>?C3\<close> det that unfolding w3f(8) add [OF \<open>?C2\<close>] by blast
  qed
  define r2 where "r2 = on_success (enc0_key_len b alg k w0) (enc0_tag_len b alg)"
  define r3 where "r3 = on_success r2 (enc0_payload_len b alg pln (md \<noteq> None) dsz)"
  define r4 where "r4 = on_success r3 (enc0_nonce_len b alg ivn)"
  define r5 where "r5 = on_success r4 (enc0_protected b alg)"
  define r6 where "r6 = on_success r5 (enc0_struct ea ean ssz)"
  define r7 where "r7 = on_success r6 (enc0_headers iv ivn (Some mo) osz)"
  have t2: "settles ?E (?C1 \<and> ?C2) w2 r2" unfolding r2_def by (rule settles_next [OF s1]) (rule s2)
  have t3: "settles ?E ((?C1 \<and> ?C2) \<and> ?C3) w2 r3" unfolding r3_def by (rule settles_next [OF t2]) (rule s3)
  have t4: "settles ?E (((?C1 \<and> ?C2) \<and> ?C3) \<and> ?C4) w2 r4" unfolding r4_def by (rule settles_next [OF t3]) (rule s4)
  have t5: "settles ?E ((((?C1 \<and> ?C2) \<and> ?C3) \<and> ?C4) \<and> ?C5) w3 r5" unfolding r5_def by (rule settles_next [OF t4]) (rule s5)
  have t6: "settles ?E (((((?C1 \<and> ?C2) \<and> ?C3) \<and> ?C4) \<and> ?C5) \<and> length aad \<le> ssz) w4 r6"
    unfolding r6_def by (rule settles_next [OF t5]) (elim conjE, rule s6)
  have t7: "settles ?E ((((((?C1 \<and> ?C2) \<and> ?C3) \<and> ?C4) \<and> ?C5) \<and> length aad \<le> ssz) \<and> length pre \<le> osz) w r7"
    unfolding r7_def by (rule settles_next [OF t6]) (elim conjE, rule s7)
  have "settles ?E (((((((?C1 \<and> ?C2) \<and> ?C3) \<and> ?C4) \<and> ?C5) \<and> length aad \<le> ssz) \<and> length pre \<le> osz) \<and> ?C8) ?w
      (on_success r7 (\<lambda>w. enc0_seal b A alg k iv ivn pl pln (md \<noteq> None) w))"
    by (rule settles_next [OF t7]) (elim conjE, intro s8 conjI)
  then have "settles ?E (((((((?C1 \<and> ?C2) \<and> ?C3) \<and> ?C4) \<and> ?C5) \<and> length aad \<le> ssz) \<and> length pre \<le> osz) \<and> ?C8) ?w ?r"
    unfolding r7_def r6_def r5_def r4_def r3_def r2_def .
  moreover have "(((((((?C1 \<and> ?C2) \<and> ?C3) \<and> ?C4) \<and> ?C5) \<and> length aad \<le> ssz) \<and> length pre \<le> osz) \<and> ?C8) = ?C"
    using pin add unfolding enc0_admits_def by auto
  ultimately show ?thesis by (simp only:)
qed

lemma enc0_sealed_fields:
  assumes "osz \<le> length mo" "length (pre @ payload_bytes (if ew_detached w = None then Some ct else None)) \<le> osz"
  shows "ctx_buf (ew_out (enc0_sealed_work mo osz pre ct w)) =
      Some (splice 0 (pre @ payload_bytes (if ew_detached w = None then Some ct else None)) mo)"
    "ctx_idx (ew_out (enc0_sealed_work mo osz pre ct w)) =
      length (pre @ payload_bytes (if ew_detached w = None then Some ct else None))"
    "ew_detached (enc0_sealed_work mo osz pre ct w) = map_option (splice 0 ct) (ew_detached w)"
    "ew_detachedLen (enc0_sealed_work mo osz pre ct w) =
      (if ew_detached w = None then ew_detachedLen w else Some (length ct))"
    "ew_scratch (enc0_sealed_work mo osz pre ct w) = ew_scratch w" "ew_fault (enc0_sealed_work mo osz pre ct w) = ew_fault w"
  by (cases "ew_detached w"; simp add: enc0_sealed_work_def append_out_def fresh_def)+

text \<open>An encryption is the run after the checks, followed by the clean-up.\<close>

lemma Encrypt0_Encrypt_outcome:
  assumes A: "aead_ok A" and bufs: "ssz \<le> length ms" "osz \<le> length mo" "detached \<noteq> None \<longrightarrow> dsz \<le> mem_len detached"
    and rd: "readable iv ivn" "readable pl pln" "readable ea ean"
    and run: "wc_CoseEncrypt0_Encrypt b A key alg iv ivn pl pln detached dsz dl ea ean (Some ms) ssz (Some mo) osz outLen =
      (ret, scratch', out', outLen', detached', dl', fault)"
    and msg: "\<And>ct. msg ct = enc0_msg alg (bytes_at iv ivn) (if detached = None then Some ct else None)"
    and acc: "\<And>ct. acc ct \<longleftrightarrow> enc0_accepted b A key alg iv ivn pl pln detached dsz dl ea ean ssz osz outLen ct"
  shows "\<not> fault \<and> scratch' = Some (splice 0 (replicate ssz 0) ms)"
    and "acc ct \<Longrightarrow> ret = WOLFCOSE_SUCCESS \<and> out' = Some (splice 0 (msg ct) mo) \<and> outLen' = Some (length (msg ct)) \<and>
      detached' = map_option (splice 0 ct) detached \<and> dl' = (if detached = None then dl else Some (length ct))"
    and "\<nexists>ct. acc ct \<Longrightarrow> ret \<noteq> WOLFCOSE_SUCCESS \<and> out' = Some (splice 0 (replicate osz 0) mo) \<and> outLen' = outLen \<and>
      detached' = map_option (splice 0 (replicate dsz 0)) detached \<and> dl' = dl"
proof -
  let ?E = "enc0_inv ms ssz mo osz detached dsz dl"
  define w0 where "w0 = \<lparr> ew_protected = Some (replicate (protected_hdr_max b) 0), ew_protectedLen = 0, ew_scratch = Some ms,
                ew_structLen = 0, ew_keyLen = 0, ew_tagLen = 0,
                ew_out = \<lparr> ctx_buf = Some mo, ctx_cbuf = None, ctx_bufSz = osz, ctx_idx = 0, ctx_fault = False \<rparr>,
                ew_detached = detached, ew_detachedLen = dl, ew_fault = False \<rparr>"
  define chk where "chk = enc0_encrypt_checks key alg iv pl pln dsz ean (Some ms) ssz (Some mo) osz outLen"
  define k where "k = the key"
  define aad where "aad = enc0_aad alg (bytes_at ea ean)"
  define pre where "pre = enc0_prefix (alg_hdr alg) (bytes_at iv ivn)"
  define cto where "cto = aead_encrypts b A alg k (bytes_at iv ivn) aad (bytes_at pl pln)"
  define body where "body = (on_success (on_success (on_success (on_success (on_success (on_success (on_success (enc0_key_len b alg k w0)
        (enc0_tag_len b alg)) (enc0_payload_len b alg pln (detached \<noteq> None) dsz)) (enc0_nonce_len b alg ivn))
        (enc0_protected b alg)) (enc0_struct ea ean ssz)) (enc0_headers iv ivn (Some mo) osz))
        (\<lambda>w. enc0_seal b A alg k iv ivn pl pln (detached \<noteq> None) w))"
  define r where "r = (if chk = WOLFCOSE_SUCCESS then body else (chk, w0))"
  have chain: "on_success (on_success (on_success (on_success (on_success (on_success (on_success (on_success (chk, w0)
        (\<lambda>w. enc0_key_len b alg k w)) (enc0_tag_len b alg)) (enc0_payload_len b alg pln (detached \<noteq> None) dsz))
        (enc0_nonce_len b alg ivn)) (enc0_protected b alg)) (enc0_struct ea ean ssz)) (enc0_headers iv ivn (Some mo) osz))
        (\<lambda>w. enc0_seal b A alg k iv ivn pl pln (detached \<noteq> None) w) = r"
    unfolding r_def body_def by (cases "chk = WOLFCOSE_SUCCESS") simp_all
  have fields: "ret = fst r" "scratch' = wolfCose_ForceZero (ew_scratch (snd r)) ssz"
    "out' = (if ret = WOLFCOSE_SUCCESS then ctx_buf (ew_out (snd r)) else wolfCose_ForceZero (ctx_buf (ew_out (snd r))) osz)"
    "outLen' = (if ret = WOLFCOSE_SUCCESS then Some (ctx_idx (ew_out (snd r))) else outLen)"
    "detached' = (if ret \<noteq> WOLFCOSE_SUCCESS \<and> detached \<noteq> None then wolfCose_ForceZero (ew_detached (snd r)) dsz
       else ew_detached (snd r))" "dl' = ew_detachedLen (snd r)" "fault = ew_fault (snd r)"
    using run unfolding wc_CoseEncrypt0_Encrypt_def w0_def [symmetric] chk_def [symmetric] k_def [symmetric] Let_def chain
      prod.inject by blast+
  define w where "w = \<lparr> ew_protected = Some (splice 0 (alg_hdr alg) (replicate (protected_hdr_max b) 0)),
                ew_protectedLen = length (alg_hdr alg), ew_scratch = Some (splice 0 aad ms),
                ew_structLen = length aad, ew_keyLen = key_symmLen k, ew_tagLen = aead_tag_len b alg,
                ew_out = append_out (fresh mo osz) pre, ew_detached = detached, ew_detachedLen = dl, ew_fault = False \<rparr>"
  have e0: "?E w0" by (cases detached) (simp_all add: enc0_inv_def w0_def det_within_def)
  have ctm: "pre @ payload_bytes (if detached = None then Some ct else None) = msg ct" for ct
    by (simp add: msg enc0_msg_def enc0_bytes_def pre_def)
  have st: "settles ?E (\<exists>ct. acc ct) (enc0_sealed_work mo osz pre (the cto) w) r"
  proof (cases "chk = WOLFCOSE_SUCCESS")
    case False
    have "\<nexists>ct. acc ct"
    proof
      assume "\<exists>ct. acc ct"
      then have "chk = WOLFCOSE_SUCCESS" unfolding acc enc0_accepted_def chk_def enc0_checks_iff enc0_admits_def by blast
      then show False using False by blast
    qed
    then show ?thesis using False e0 by (simp add: settles_def r_def)
  next
    case True
    have key: "key = Some k" and args: "iv \<noteq> None" "pl \<noteq> None" "outLen \<noteq> None"
      "max pln (max ean (max dsz (max osz ssz))) < 2 ^ 32"
      "key_kty k = WOLFCOSE_KTY_SYMMETRIC" "key_alg k = WOLFCOSE_ALG_UNSET \<or> key_alg k = alg"
      using True unfolding chk_def enc0_checks_iff k_def by auto
    have b32: "ssz < 2 ^ 32" "osz < 2 ^ 32" "pln < 2 ^ 32" using args(4) by simp_all
    have dd: "dsz \<le> mem_len detached \<or> detached = None" using bufs(3) by blast
    note body = enc0_run [OF A bufs(1) b32(1) bufs(2) b32(2) dd rd b32(3) args(5,6) w0_def aad_def pre_def cto_def w_def,
      folded body_def]
    have "(\<exists>ct. acc ct) \<longleftrightarrow> enc0_admits b k alg ivn pln \<and>
        (detached \<noteq> None \<longrightarrow> dl \<noteq> None \<and> pln + aead_tag_len b alg \<le> dsz) \<and>
        length (alg_hdr alg) \<le> protected_hdr_max b \<and> length aad \<le> ssz \<and> length pre \<le> osz \<and>
        cto \<noteq> None \<and> length (pre @ payload_bytes (if detached = None then cto else None)) \<le> osz" (is "?l \<longleftrightarrow> ?r")
    proof
      assume ?l
      then obtain ct where "acc ct" by blast
      note a = this [unfolded acc enc0_accepted_def key option.inject, folded aad_def msg]
      have c: "cto = Some ct" "length (msg ct) \<le> osz" using a unfolding cto_def by auto
      then have "length pre \<le> osz" "length (pre @ payload_bytes (if detached = None then cto else None)) \<le> osz"
        unfolding ctm [symmetric] by (auto split: if_splits)
      then show ?r using a c(1) by blast
    next
      assume R: ?r
      then obtain ct where ct: "cto = Some ct" by blast
      have "pre @ payload_bytes (if detached = None then cto else None) = msg ct" unfolding ct by (rule ctm)
      then have "length (msg ct) \<le> osz" using R by simp
      then have "acc ct" unfolding acc enc0_accepted_def 
        using R ct args key unfolding aad_def cto_def msg by (intro exI [of _ k] conjI; (elim conjE)?; assumption?)
      then show ?l by blast
    qed
    with body show ?thesis using True by (simp add: r_def)
  qed
  have acct: "cto = Some ct \<and> length (msg ct) \<le> osz" if "acc ct" for ct
    using that unfolding acc enc0_accepted_def cto_def k_def msg aad_def by auto
  have wd: "ew_detached w = detached" "ew_detachedLen w = dl" "ew_scratch w = Some (splice 0 aad ms)" "\<not> ew_fault w"
    by (simp_all add: w_def)
  have ok: "r = (WOLFCOSE_SUCCESS, enc0_sealed_work mo osz pre ct w) \<and> length aad \<le> ssz" if "acc ct" for ct
  proof -
    have "r = (WOLFCOSE_SUCCESS, enc0_sealed_work mo osz pre ct w)"
      using st that acct [OF that] by (cases r) (auto simp: settles_def split: if_splits)
    then show ?thesis using that unfolding acc enc0_accepted_def aad_def by auto
  qed
  have bad: "fst r \<noteq> WOLFCOSE_SUCCESS \<and> ?E (snd r)" if "\<nexists>ct. acc ct"
    using st that by (auto simp: settles_def split: if_splits)
  have sf: "length (msg ct) \<le> osz \<Longrightarrow> length (pre @ payload_bytes (if ew_detached w = None then Some ct else None)) \<le> osz" for ct
    unfolding wd(1) ctm .
  note F = enc0_sealed_fields [OF bufs(2) sf, unfolded wd(1) ctm]
  show "ret = WOLFCOSE_SUCCESS \<and> out' = Some (splice 0 (msg ct) mo) \<and> outLen' = Some (length (msg ct)) \<and>
      detached' = map_option (splice 0 ct) detached \<and> dl' = (if detached = None then dl else Some (length ct))" if "acc ct" for ct
    using ok [OF that] F [OF conjunct2 [OF acct [OF that]]] wd unfolding fields by simp
  show fail: "ret \<noteq> WOLFCOSE_SUCCESS \<and> out' = Some (splice 0 (replicate osz 0) mo) \<and> outLen' = outLen \<and>
      detached' = map_option (splice 0 (replicate dsz 0)) detached \<and> dl' = dl" if "\<nexists>ct. acc ct"
    using bad [OF that] within_zero unfolding fields(1,3-6) enc0_inv_def
    by (cases detached) (auto simp: det_within_def)
  show "\<not> fault \<and> scratch' = Some (splice 0 (replicate ssz 0) ms)"
  proof (cases "\<exists>ct. acc ct")
    case True
    then obtain ct where a: "acc ct" by blast
    have "within ms ssz (ew_scratch (snd r))"
      using ok [OF a] F(5) [OF conjunct2 [OF acct [OF a]]] wd(3) within_splice [OF _ bufs(1)] by simp
    moreover have "\<not> ew_fault (snd r)" using ok [OF a] F(6) [OF conjunct2 [OF acct [OF a]]] wd(4) by simp
    ultimately show ?thesis using within_zero unfolding fields(2,7) by simp
  next
    case False
    then show ?thesis using bad [OF False] within_zero unfolding fields(2,7) enc0_inv_def by simp
  qed
qed

text \<open>C5: an encryption succeeds exactly when the arguments are present and of 32-bit length, the symmetric key
is one for the algorithm and of its key length, nonce and payload have admissible lengths, the AEAD call
answers, and everything fits its buffer. The output then starts with exactly tag 16 and the array of the
protected header \<open>{1: alg}\<close>, the unprotected header \<open>{5: iv}\<close> and the ciphertext with its tag, or null when
that went to the caller's buffer; the additional data is the RFC 9052 Enc_structure. No access leaves a
buffer, the scratch buffer is zeroed, and after a failure so are the output and the caller's buffer, and no
length is reported.\<close>

theorem Encrypt0_Encrypt_exact:
  assumes "aead_ok A" "ssz \<le> length ms" "osz \<le> length mo" "detached \<noteq> None \<longrightarrow> dsz \<le> mem_len detached"
    and "readable iv ivn" "readable pl pln" "readable ea ean"
    and "wc_CoseEncrypt0_Encrypt b A key alg iv ivn pl pln detached dsz dl ea ean (Some ms) ssz (Some mo) osz outLen =
      (ret, scratch', out', outLen', detached', dl', fault)"
  shows "\<not> fault \<and> scratch' = Some (splice 0 (replicate ssz 0) ms) \<and>
    (if \<exists>ct. enc0_accepted b A key alg iv ivn pl pln detached dsz dl ea ean ssz osz outLen ct
     then ret = WOLFCOSE_SUCCESS \<and>
       (\<exists>ct. enc0_accepted b A key alg iv ivn pl pln detached dsz dl ea ean ssz osz outLen ct \<and>
          (let msg = enc0_bytes (alg_hdr alg) (bytes_at iv ivn) (if detached = None then Some ct else None)
           in out' = Some (splice 0 msg mo) \<and> outLen' = Some (length msg)) \<and>
          (if detached = None then detached' = None \<and> dl' = dl
           else detached' = map_option (splice 0 ct) detached \<and> dl' = Some (length ct)))
     else ret \<noteq> WOLFCOSE_SUCCESS \<and> out' = Some (splice 0 (replicate osz 0) mo) \<and> outLen' = outLen \<and>
       detached' = map_option (splice 0 (replicate dsz 0)) detached \<and> dl' = dl)"
proof (cases "\<exists>ct. enc0_accepted b A key alg iv ivn pl pln detached dsz dl ea ean ssz osz outLen ct")
  case True
  then obtain ct where a: "enc0_accepted b A key alg iv ivn pl pln detached dsz dl ea ean ssz osz outLen ct" by blast
  note o = Encrypt0_Encrypt_outcome [OF assms refl refl, unfolded enc0_msg_def]
  show ?thesis unfolding if_P [OF True] Let_def
    using o(1) o(2) [OF a] a by auto
next
  case False
  show ?thesis unfolding if_not_P [OF False]
    using Encrypt0_Encrypt_outcome(1) [OF assms refl refl] Encrypt0_Encrypt_outcome(3) [OF assms refl refl False]
    by blast
qed

section \<open>An example\<close>

definition toy_ekey :: cose_key where
  "toy_ekey = \<lparr> key_kty = 4, key_alg = 0, key_crv = 0, key_kid = None, key_kidLen = 0, key_ecc = None, key_ed25519 = None, key_ed448 = None,
     key_rsa = None, key_mldsa = None, key_lms = None,
     key_symm = Some (replicate 16 1), key_symmLen = 16, key_hasPrivate = False, key_attachedType = 6, key_signCb = None,
     key_mldsaSeed = None, key_mldsaSeedLen = 0 \<rparr>"

abbreviation toy_iv :: cptr where "toy_iv \<equiv> Some (replicate 12 9)"

definition toy_ct :: "u8 list" where
  "toy_ct = [1, 2] @ [0x40, 0x01, 0x01, 0xA1, 0x43, 0x30, 0x74, 0x70, 0x79, 0x72, 0x63, 0x6E, 0x45, 0x68, 0x83, 9]"

lemma toy_alg_hdr1: "alg_hdr 1 = [0xA1, 0x01, 0x01]"
  by code_simp

lemma toy_aad: "enc0_aad 1 [] = [0x83, 0x68, 0x45, 0x6E, 0x63, 0x72, 0x79, 0x70, 0x74, 0x30, 0x43, 0xA1, 0x01, 0x01, 0x40]"
  unfolding enc0_aad_def toy_alg_hdr1 by code_simp

lemma toy_sealed:
  "aead_encrypts full_build toy_aead 1 toy_ekey (replicate 12 9) (enc0_aad 1 []) [1, 2] = Some toy_ct"
proof -
  have f: "aead_family full_build 1 = Some Aead_GCM" by (simp add: aead_family_def full_build_def is_gcm_def)
  have t: "aead_tag_len full_build 1 = 16" by (simp add: aead_tag_len_def wolfCose_AeadTagLen_def full_build_def is_gcm_def)
  have m: "toy_mark (replicate 12 9) [0x83, 0x68, 0x45, 0x6E, 0x63, 0x72, 0x79, 0x70, 0x74, 0x30, 0x43, 0xA1, 0x01, 0x01, 0x40] 16 =
      [0x40, 0x01, 0x01, 0xA1, 0x43, 0x30, 0x74, 0x70, 0x79, 0x72, 0x63, 0x6E, 0x45, 0x68, 0x83, 9]"
    by (simp add: toy_mark_def numeral_eq_Suc)
  show ?thesis
    by (simp add: aead_encrypts_def f t aead_start_def aead_seal_def toy_aead_def toy_aad m toy_ct_def)
qed

abbreviation toy_encrypt :: "cptr \<Rightarrow> size \<Rightarrow> size option \<Rightarrow> rc \<times> cptr \<times> cptr \<times> size option \<times> cptr \<times> size option \<times> bool" where
  "toy_encrypt detached detachedSz detachedLen \<equiv> wc_CoseEncrypt0_Encrypt full_build toy_aead (Some toy_ekey) 1 toy_iv 12
     (Some [1, 2]) 2 detached detachedSz detachedLen None 0 (Some (replicate 20 7)) 20 (Some (replicate 60 7)) 60 (Some 0)"

lemma toy_enc_accepted:
  assumes "detached \<noteq> None \<longrightarrow> dl \<noteq> None \<and> 18 \<le> dsz" "dsz < 2 ^ 32"
  shows "enc0_accepted full_build toy_aead (Some toy_ekey) 1 toy_iv 12 (Some [1, 2]) 2 detached dsz dl None 0
     20 60 (Some 0) toy_ct"
proof -
  have ad: "enc0_admits full_build toy_ekey 1 12 2"
    by (simp add: enc0_admits_def toy_ekey_def full_build_def wolfCose_AeadKeyLen_def wolfCose_AeadTagLen_def
        wolfCose_AeadNonceLen_def wolfCose_AeadCheckPayloadLen_def is_gcm_def WOLFCOSE_ALG_UNSET_def)
  have t: "aead_tag_len full_build 1 = 16" by (simp add: aead_tag_len_def wolfCose_AeadTagLen_def full_build_def is_gcm_def)
  have l: "length (enc0_msg 1 (replicate 12 9) (if detached = None then Some toy_ct else None)) \<le> 60"
    "length (alg_hdr 1) \<le> protected_hdr_max full_build" "length (enc0_aad 1 []) \<le> 20"
    by (cases detached; simp add: enc0_msg_def enc0_bytes_def enc0_prefix_def payload_bytes_def toy_alg_hdr1 str_bytes_def
        length_cbor_head toy_ct_def full_build_def toy_aad)+
  show ?thesis unfolding enc0_accepted_def
    using ad t l toy_sealed assms by (intro exI [of _ toy_ekey]) (simp add: bytes_at_def)
qed

lemma Encrypt0_Encrypt_exact_witness:
  "\<exists>out n d dn. toy_encrypt (Some (replicate 20 5)) 20 (Some 0) =
     (WOLFCOSE_SUCCESS, Some (replicate 20 0), out, n, Some d, dn, False) \<and> take 18 d = toy_ct"
proof -
  obtain ret scr out n d dn fault where c: "toy_encrypt (Some (replicate 20 5)) 20 (Some 0) = (ret, scr, out, n, d, dn, fault)"
    by (metis prod_cases7)
  have a: "enc0_accepted full_build toy_aead (Some toy_ekey) 1 toy_iv 12 (Some [1, 2]) 2 (Some (replicate 20 5)) 20 (Some 0)
      None 0 20 60 (Some 0) toy_ct" by (rule toy_enc_accepted) simp_all
  have u: "ct = toy_ct" if "enc0_accepted full_build toy_aead (Some toy_ekey) 1 toy_iv 12 (Some [1, 2]) 2
      (Some (replicate 20 5)) 20 (Some 0) None 0 20 60 (Some 0) ct" for ct
    using that toy_sealed by (simp add: enc0_accepted_def bytes_at_def)
  have ex: "\<exists>ct. enc0_accepted full_build toy_aead (Some toy_ekey) 1 toy_iv 12 (Some [1, 2]) 2 (Some (replicate 20 5)) 20
      (Some 0) None 0 20 60 (Some 0) ct" using a by blast
  have r: "readable toy_iv 12" "readable (Some [1, 2]) 2" "readable None 0" by (simp_all add: readable_def)
  have l: "20 \<le> length (replicate 20 (7 :: u8))" "60 \<le> length (replicate 60 (7 :: u8))"
    "Some (replicate 20 5) \<noteq> None \<longrightarrow> 20 \<le> mem_len (Some (replicate 20 5))" by simp_all
  note W = Encrypt0_Encrypt_exact [OF toy_aead_ok(1) l r c, unfolded if_P [OF ex]]
  then obtain ct where ct: "enc0_accepted full_build toy_aead (Some toy_ekey) 1 toy_iv 12 (Some [1, 2]) 2
      (Some (replicate 20 5)) 20 (Some 0) None 0 20 60 (Some 0) ct" "d = map_option (splice 0 ct) (Some (replicate 20 5))"
    by auto
  have "d = Some (toy_ct @ [5, 5])"
    unfolding ct(2) u [OF ct(1)] by (simp add: splice_def toy_ct_def numeral_eq_Suc)
  moreover have "ret = WOLFCOSE_SUCCESS" "\<not> fault" "scr = Some (splice 0 (replicate 20 0) (replicate 20 7))" using W by blast+
  ultimately show ?thesis using c by (simp add: splice_def toy_ct_def)
qed

end
