(* ===== verification/Cose_Encrypt0Decrypt.thy ===== *)
theory Cose_Encrypt0Decrypt
  imports Cose_Encrypt0Spec
begin

text \<open>
  What decrypting a COSE_Encrypt0 message promises: a plaintext that is handed out is the authenticated
  decryption, under the key, of the ciphertext with the nonce of the header and the RFC 9052 Enc_structure,
  and what an encryption wrote is decrypted.
\<close>

section \<open>Parsing\<close>

lemma enc0_ct_moves: "stage_moves (enc0_read_ct b dct dctn)"
  by (rule stage_movesI) (auto simp: enc0_read_ct_def Let_def advance_1 split: prod.splits if_splits
      dest: moves_Bstr intro: moves_null)

lemma enc0_ct_sound:
  assumes d: "dec_ctx (msg_ctx s)" and dp: "readable dct dctn"
    and run: "enc0_read_ct b dct dctn s = (WOLFCOSE_SUCCESS, s')"
  shows "\<exists>c det p n f. inp (msg_ctx s) = payload_bytes (if det then None else Some (bytes_at p n)) @ inp c \<and>
    readable p n \<and> p \<noteq> None \<and> (det \<longrightarrow> p = dct \<and> n = dctn) \<and>
    s' = s\<lparr>msg_ctx := c, msg_payload := p, msg_payloadLen := n, msg_hdr := (msg_hdr s)\<lparr>hdr_flags := f\<rparr>\<rparr>"
proof (cases "next_is_null (msg_ctx s)")
  case True
  note r = run [unfolded enc0_read_ct_def Let_def if_P [OF True]]
  have dn: "dct \<noteq> None" using r by (simp split: if_splits)
  have s': "s' = s\<lparr>msg_ctx := advance (msg_ctx s) (Suc 0),
      msg_hdr := (msg_hdr s)\<lparr>hdr_flags := hdr_flags (msg_hdr s) OR WOLFCOSE_HDR_FLAG_DETACHED\<rparr>,
      msg_payload := dct, msg_payloadLen := dctn\<rparr>"
    using r unfolding advance_1 by (simp split: if_splits)
  obtain x where "inp (msg_ctx s) = 0xF6 # x" using True next_is_null_iff [OF d] by blast
  then have "inp (msg_ctx s) = payload_bytes None @ inp (advance (msg_ctx s) (Suc 0))" by (simp add: payload_bytes_def)
  then show ?thesis using dn dp s'
    by (intro exI [of _ "advance (msg_ctx s) (Suc 0)"] exI [of _ True] exI [of _ dct] exI [of _ dctn]
        exI [of _ "hdr_flags (msg_hdr s) OR WOLFCOSE_HDR_FLAG_DETACHED"])
      (simp del: inp_advance)
next
  case False
  obtain ret c p n where t: "wolfCose_CBOR_DecodeBstr_ex b (msg_ctx s) (msg_payload s, msg_payloadLen s) 0 = (ret, c, p, n)"
    by (metis prod_cases4)
  have r: "ret = WOLFCOSE_SUCCESS" "s' = s\<lparr>msg_ctx := c, msg_payload := p, msg_payloadLen := n\<rparr>"
    using run [unfolded enc0_read_ct_def Let_def if_not_P [OF False] t prod.case] by (auto split: if_splits)
  note h = takes_str [OF d t [unfolded r(1)]]
  have "inp (msg_ctx s) = payload_bytes (Some (bytes_at p n)) @ inp c" using h(1) by (simp add: payload_bytes_def del: inp_advance)
  then show ?thesis using h(2,3) unfolding r(2)
    by (intro exI [of _ c] exI [of _ False] exI [of _ p] exI [of _ n] exI [of _ "hdr_flags (msg_hdr s)"])
      (cases s; simp del: inp_advance)
qed

lemma enc0_parse_safe:
  assumes "inSz \<le> length m" "length m < 2 ^ 63" "enc0_parse b (Some m) inSz dct dctn = (ret, s)"
  shows "dec_ctx (msg_ctx s)"
proof -
  let ?c = "\<lparr> ctx_buf = None, ctx_cbuf = Some m, ctx_bufSz = inSz, ctx_idx = 0, ctx_fault = False \<rparr>"
  have d: "dec_ctx (msg_ctx (msg_start ?c))" using assms(1,2) by (simp add: dec_ctx_def msg_start_def)
  define f where "f = (\<lambda>s. on_success (on_success (msg_headers b 0 WOLFCOSE_TAG_ENCRYPT0 3 s)
      (enc0_read_ct b dct dctn)) msg_at_end)"
  have "stage_moves f" unfolding f_def by (intro stage_moves_seq msg_headers_moves msg_stages_move enc0_ct_moves)
  moreover have "enc0_parse b (Some m) inSz dct dctn = f (msg_start ?c)"
    by (simp add: enc0_parse_def Let_def f_def)
  ultimately have "moves (msg_ctx (msg_start ?c)) (msg_ctx s)"
    using d assms(3) unfolding stage_moves_def by (metis snd_conv)
  then show ?thesis by (rule moves_dec_ctx [OF d])
qed

lemma cose_headers_iv:
  assumes "cose_headers b prot pes ues h" "hdr_iv h \<noteq> None"
  shows "readable (hdr_iv h) (hdr_ivLen h)"
proof -
  have f: "hdr_fields (pes @ ues) hdr_zero h" using assms(1) by (simp add: cose_headers_def)
  then have "LInt 5 \<in> fst ` set (pes @ ues)" using assms(2) unfolding hdr_fields_def by (auto simp: hdr_zero_def)
  then obtain t where "(LInt 5, t) \<in> set (pes @ ues)" by force
  then show ?thesis using f unfolding hdr_fields_def bstr_field_def by blast
qed

lemma enc0_parse_sound:
  assumes i: "inSz \<le> length m" "length m < 2 ^ 63" and dp: "readable dct dctn"
    and run: "enc0_parse b (Some m) inSz dct dctn = (WOLFCOSE_SUCCESS, s)"
  shows "\<exists>mp pes ues pre det. msg_protected s = Some mp \<and> msg_protectedLen s \<le> length mp \<and> length mp < 2 ^ 63 \<and>
    msg_prefix 16 3 (take (msg_protectedLen s) mp) ues pre \<and>
    take inSz m = pre @ payload_bytes (if det then None else Some (bytes_at (msg_payload s) (msg_payloadLen s))) \<and>
    cose_headers b (take (msg_protectedLen s) mp) pes ues (msg_hdr s) \<and>
    (msg_algProtected s \<longleftrightarrow> LInt 1 \<in> fst ` set pes) \<and>
    readable (msg_payload s) (msg_payloadLen s) \<and> msg_payload s \<noteq> None \<and>
    (det \<longrightarrow> msg_payload s = dct \<and> msg_payloadLen s = dctn)"
proof -
  let ?c = "\<lparr> ctx_buf = None, ctx_cbuf = Some m, ctx_bufSz = inSz, ctx_idx = 0, ctx_fault = False \<rparr>"
  let ?s0 = "msg_start ?c"
  have d: "dec_ctx (msg_ctx ?s0)" and i0: "inp (msg_ctx ?s0) = take inSz m" and h0: "msg_hdr ?s0 = hdr_zero"
    using i by (simp_all add: dec_ctx_def msg_start_def inp_def)
  obtain s1 s2 where r: "msg_headers b 0 WOLFCOSE_TAG_ENCRYPT0 3 ?s0 = (WOLFCOSE_SUCCESS, s1)"
    "enc0_read_ct b dct dctn s1 = (WOLFCOSE_SUCCESS, s2)" "msg_at_end s2 = (WOLFCOSE_SUCCESS, s)"
    using run by (auto simp: enc0_parse_def Let_def on_success_eq_success)
  obtain c mp k pes ues hdr st pre where 1: "s1 = ?s0\<lparr>msg_ctx := c, msg_protected := Some mp, msg_protectedLen := k, msg_hdr := hdr,
       msg_state := st, msg_algProtected := (LInt 1 \<in> fst ` set pes)\<rparr>" "dec_ctx c" "k \<le> length mp" "length mp < 2 ^ 63"
    "inp (msg_ctx ?s0) = pre @ inp c" "msg_prefix (unat WOLFCOSE_TAG_ENCRYPT0) 3 (take k mp) ues pre"
    "cose_headers b (take k mp) pes ues hdr"
    using msg_headers_sound [OF d h0 r(1)] by blast
  have c1: "msg_ctx s1 = c" unfolding 1(1) by simp
  obtain c2 det p n f where 2: "inp c = payload_bytes (if det then None else Some (bytes_at p n)) @ inp c2"
    "readable p n" "p \<noteq> None" "det \<longrightarrow> p = dct \<and> n = dctn"
    "s2 = s1\<lparr>msg_ctx := c2, msg_payload := p, msg_payloadLen := n, msg_hdr := (msg_hdr s1)\<lparr>hdr_flags := f\<rparr>\<rparr>"
    using enc0_ct_sound [OF _ dp r(2)] 1(2) unfolding c1 by blast
  have e: "s = s2" "ctx_idx (msg_ctx s2) = ctx_bufSz (msg_ctx s2)" using r(3) by (simp_all add: msg_at_end_def split: if_splits)
  then have "inp c2 = []" using 2(5) by (simp add: inp_def)
  then have I: "take inSz m = pre @ payload_bytes (if det then None else Some (bytes_at p n))"
    using 1(5) i0 2(1) by simp
  have f: "msg_protected s = Some mp" "msg_protectedLen s = k" "msg_payload s = p" "msg_payloadLen s = n"
    "msg_hdr s = hdr\<lparr>hdr_flags := f\<rparr>" "msg_algProtected s = (LInt 1 \<in> fst ` set pes)"
    unfolding e(1) 2(5) 1(1) by simp_all
  have tg: "unat WOLFCOSE_TAG_ENCRYPT0 = 16" by simp
  show ?thesis
    unfolding f cose_headers_flags using 1(3,4,6,7) 2(2-4) I unfolding tg by blast
qed

section \<open>Checks and decryption\<close>

text \<open>What the checks of a parsed message against the key ask.\<close>

definition enc0_msg_ok :: "build \<Rightarrow> cose_key \<Rightarrow> size \<Rightarrow> cose_msg \<Rightarrow> bool" where
  "enc0_msg_ok b k plaintextSz s \<longleftrightarrow> (let hdr = msg_hdr s; alg = hdr_alg hdr; n = msg_payloadLen s - aead_tag_len b alg in
     (if key_alg k = WOLFCOSE_ALG_UNSET then msg_algProtected s else key_alg k = alg) \<and>
     wolfCose_AeadKeyLen b alg (Some 0) = (WOLFCOSE_SUCCESS, Some (key_symmLen k)) \<and>
     fst (wolfCose_AeadTagLen b alg (Some 0)) = WOLFCOSE_SUCCESS \<and> aead_tag_len b alg \<le> msg_payloadLen s \<and>
     (have_aesccm b \<longrightarrow> wolfCose_AeadCheckPayloadLen alg n = WOLFCOSE_SUCCESS) \<and> n \<le> plaintextSz \<and>
     hdr_iv hdr \<noteq> None \<and> wolfCose_AeadNonceLen b alg (Some 0) = (WOLFCOSE_SUCCESS, Some (hdr_ivLen hdr)))"

lemma enc0_params_iff:
  assumes "enc0_decrypt_params b k psz s = (ret, keyn, tagn)"
  shows "(ret = WOLFCOSE_SUCCESS \<longleftrightarrow> enc0_msg_ok b k psz s) \<and>
    (ret = WOLFCOSE_SUCCESS \<longrightarrow> keyn = key_symmLen k \<and> tagn = aead_tag_len b (hdr_alg (msg_hdr s)))"
proof -
  let ?alg = "hdr_alg (msg_hdr s)"
  obtain e where e: "wolfCose_AeadKeyLen b ?alg (Some x) = lookup_out (Some x) e" for x using aead_entries(1) by blast
  obtain f where f: "wolfCose_AeadTagLen b ?alg (Some x) = lookup_out (Some x) f" for x using aead_entries(2) by blast
  obtain g where g: "wolfCose_AeadNonceLen b ?alg (Some x) = lookup_out (Some x) g" for x using aead_entries(3) by blast
  have "g \<noteq> Some 0" using g [of 1] by (auto simp: wolfCose_AeadNonceLen_def split: if_splits)
  then show ?thesis using assms unfolding enc0_decrypt_params_def enc0_msg_ok_def Let_def aead_tag_len_def e f g
    by (cases e; cases f; cases g) (auto split: if_splits)
qed

text \<open>The additional data of a parsed message, and its decryption under the key.\<close>

definition enc0_msg_aad :: "cptr \<Rightarrow> size \<Rightarrow> cose_msg \<Rightarrow> u8 list" where
  "enc0_msg_aad ea ean s = enc_bytes WOLFCOSE_CTX_ENCRYPT0 (bytes_at (msg_protected s) (msg_protectedLen s)) (bytes_at ea ean)"

definition enc0_msg_opens :: "build \<Rightarrow> 'a wolfaead \<Rightarrow> cose_key \<Rightarrow> cptr \<Rightarrow> size \<Rightarrow> cose_msg \<Rightarrow> u8 list option" where
  "enc0_msg_opens b A k ea ean s = aead_decrypts b A (hdr_alg (msg_hdr s)) k
     (bytes_at (hdr_iv (msg_hdr s)) (hdr_ivLen (msg_hdr s))) (enc0_msg_aad ea ean s)
     (bytes_at (msg_payload s) (msg_payloadLen s))"

lemma enc0_open_spec:
  assumes A: "aead_ok A" and bufs: "ssz \<le> length ms" "ssz < 2 ^ 32" "psz \<le> length mp" "psz < 2 ^ 32"
    and rd: "readable (msg_protected s) (msg_protectedLen s)" "readable ea ean" "readable (msg_payload s) (msg_payloadLen s)"
      "readable (hdr_iv (msg_hdr s)) (hdr_ivLen (msg_hdr s))"
    and ok: "enc0_msg_ok b k psz s"
    and run: "enc0_open b A k ea ean (Some ms) ssz (Some mp) (key_symmLen k) (aead_tag_len b (hdr_alg (msg_hdr s))) s =
      (ret, scr, pt, fault)"
  shows "\<not> fault \<and> within ms ssz scr \<and> within mp psz pt \<and>
    (ret = WOLFCOSE_SUCCESS \<longleftrightarrow> length (enc0_msg_aad ea ean s) \<le> ssz \<and> enc0_msg_opens b A k ea ean s \<noteq> None) \<and>
    (\<forall>pl. ret = WOLFCOSE_SUCCESS \<and> enc0_msg_opens b A k ea ean s = Some pl \<longrightarrow>
       pt = Some (splice 0 pl mp) \<and> length pl = msg_payloadLen s - aead_tag_len b (hdr_alg (msg_hdr s)) \<and> length pl \<le> psz)"
proof -
  let ?alg = "hdr_alg (msg_hdr s)" and ?aad = "enc0_msg_aad ea ean s" and ?h = "msg_hdr s"
  let ?t = "aead_tag_len b ?alg" and ?ct = "bytes_at (msg_payload s) (msg_payloadLen s)"
  let ?n = "msg_payloadLen s - ?t"
  obtain r1 c n where bld: "wolfCose_BuildEncStructure0 (msg_protected s) (msg_protectedLen s) ea ean (Some ms) ssz 0 = (r1, c, n)"
    by (metis prod_cases3)
  have B: "\<not> ctx_fault c" "within ms ssz (ctx_buf c)" "if length ?aad \<le> ssz then r1 = WOLFCOSE_SUCCESS \<and> n = length ?aad \<and>
      ctx_buf c = Some (splice 0 ?aad ms) else r1 \<noteq> WOLFCOSE_SUCCESS"
    using BuildEncStructure_spec [OF contexts_ok(5) rd(1,2) bufs(1) bld [unfolded wolfCose_BuildEncStructure0_def]]
      within_splice [OF _ bufs(1)] by (auto simp: enc0_msg_aad_def Let_def within_def split: if_splits)
  have O: "?t \<le> msg_payloadLen s" "?n \<le> psz" "hdr_iv ?h \<noteq> None"
    "wolfCose_AeadNonceLen b ?alg (Some 0) = (WOLFCOSE_SUCCESS, Some (hdr_ivLen ?h))"
    using ok by (simp_all add: enc0_msg_ok_def Let_def)
  have sub: "sz_sub (msg_payloadLen s) ?t = ?n" using O(1) by simp
  have lct: "length ?ct = msg_payloadLen s" using rd(3) by simp
  note R = run [unfolded enc0_open_def bld prod.case Let_def sub]
  show ?thesis
  proof (cases "length ?aad \<le> ssz")
    case False
    then show ?thesis using R B by auto
  next
    case True
    then have b: "r1 = WOLFCOSE_SUCCESS" "n = length ?aad" "ctx_buf c = Some (splice 0 ?aad ms)" using B(3) by simp_all
    have aad: "bytes_at (ctx_buf c) (w32 n) = ?aad" using True bufs(2) unfolding b(2,3) by (simp add: splice_def)
    show ?thesis
    proof (cases "aead_family b ?alg")
      case None
      then show ?thesis using R b(1) B(1,2) by (auto simp: enc0_msg_opens_def aead_decrypts_def)
    next
      case (Some fam)
      obtain r2 aes where st: "aead_start A fam (key_symm k) (key_symmLen k) = (r2, aes)" by fastforce
      show ?thesis
      proof (cases "r2 = WOLFCOSE_SUCCESS")
        case False
        then show ?thesis using R b(1) B(1,2) Some st by (auto simp: enc0_msg_opens_def aead_decrypts_def)
      next
        case ok2: True
        have "hdr_ivLen ?h \<le> 13 \<and> (fam = Aead_CHACHA \<longrightarrow> hdr_ivLen ?h = 12)"
          using O(4) Some by (auto simp: wolfCose_AeadNonceLen_def aead_family_def is_gcm_def is_ccm_def split: if_splits)
        then have iv: "aead_nonce fam (hdr_iv ?h) (hdr_ivLen ?h) = bytes_at (hdr_iv ?h) (hdr_ivLen ?h)"
          by (auto simp: aead_nonce_def)
        have ct: "bytes_at (msg_payload s) (w32 ?n) = take ?n ?ct" using O(2) bufs(4) rd(3) by (cases "msg_payload s") simp_all
        have tag: "bytes_at (map_option (drop ?n) (msg_payload s)) ?t = drop ?n ?ct"
          using O(1) rd(3) by (cases "msg_payload s") (simp_all add: drop_take)
        obtain okd pl where op: "aead_open A fam aes (key_symm k) (bytes_at (hdr_iv ?h) (hdr_ivLen ?h))
            (take ?n ?ct) (drop ?n ?ct) ?aad = (okd, pl)" by fastforce
        have len: "length pl \<le> ?n" "okd \<Longrightarrow> length pl = ?n" using aead_openD [OF A op] lct O(1) by simp_all
        obtain pt' where s: "store_bytes 0 pl (Some mp) = (pt', False)" "within mp psz pt'"
          using within_store [OF within_self _ bufs(3), of 0 pl] len(1) O(2) by auto
        have res: "ret = (if okd then WOLFCOSE_SUCCESS else WOLFCOSE_E_COSE_DECRYPT_FAIL)" "scr = ctx_buf c" "pt = pt'"
          "fault \<longleftrightarrow> ctx_fault c \<or> mem_len (msg_payload s) < ?n + ?t \<or> mem_len (hdr_iv ?h) < hdr_ivLen ?h"
          using R b(1) ok2 unfolding Some option.case st prod.case iv ct tag aad op s(1) by simp_all
        have nf: "\<not> fault" unfolding res(4) using B(1) O(1) rd(3,4) by (simp add: readable_def)
        have dec: "enc0_msg_opens b A k ea ean s = (if okd then Some pl else None)"
          unfolding enc0_msg_opens_def aead_decrypts_def Some option.case st prod.case lct Let_def op using ok2 by simp
        have "pt' = Some (splice 0 pl mp)" if okd
          using s(1) by (simp add: store_bytes_def split: if_splits)
        then show ?thesis using nf B(2) s(2) True len O(2) unfolding res dec by auto
      qed
    qed
  qed
qed

section \<open>Decryption\<close>

lemma Encrypt0_Decrypt_outcome:
  assumes A: "aead_ok A" and i: "inSz \<le> length m" "length m < 2 ^ 63" and dp: "readable dct dctn" and ea: "readable ea ean"
    and bufs: "ssz \<le> length ms" "psz \<le> length mp"
    and run: "wc_CoseEncrypt0_Decrypt b A key (Some m) inSz dct dctn ea ean (Some ms) ssz hdr (Some mp) psz plen =
      (ret, hdr', scratch', pt', plen', fault)"
    and chk: "chk = enc0_decrypt_checks key (Some m) inSz dctn ean (Some ms) ssz hdr (Some mp) psz plen"
  shows "\<not> fault \<and> scratch' = Some (splice 0 (replicate ssz 0) ms)"
    and "ret \<noteq> WOLFCOSE_SUCCESS \<Longrightarrow> hdr' = map_option (\<lambda>_. hdr_zero) hdr \<and>
      pt' = Some (splice 0 (replicate psz 0) mp) \<and> plen' = map_option (\<lambda>_. 0) plen"
    and "ret = WOLFCOSE_SUCCESS \<Longrightarrow> \<exists>k s pl. key = Some k \<and> chk = WOLFCOSE_SUCCESS \<and>
      enc0_parse b (Some m) inSz dct dctn = (WOLFCOSE_SUCCESS, s) \<and> enc0_msg_ok b k psz s \<and>
      length (enc0_msg_aad ea ean s) \<le> ssz \<and> enc0_msg_opens b A k ea ean s = Some pl \<and>
      hdr' = Some (msg_hdr s) \<and> pt' = Some (splice 0 pl mp) \<and> plen' = Some (length pl) \<and> length pl \<le> psz"
    and "\<lbrakk>key = Some k; chk = WOLFCOSE_SUCCESS; enc0_parse b (Some m) inSz dct dctn = (WOLFCOSE_SUCCESS, s);
      enc0_msg_ok b k psz s; length (enc0_msg_aad ea ean s) \<le> ssz; enc0_msg_opens b A k ea ean s \<noteq> None\<rbrakk> \<Longrightarrow>
      ret = WOLFCOSE_SUCCESS"
proof -
  define k0 where "k0 = the key"
  obtain rp s where p: "enc0_parse b (Some m) inSz dct dctn = (rp, s)" by fastforce
  obtain ra keyn tagn where a: "enc0_decrypt_params b k0 psz s = (ra, keyn, tagn)" by (metis prod_cases3)
  obtain ro scr pt ft where o: "enc0_open b A k0 ea ean (Some ms) ssz (Some mp) keyn tagn s = (ro, scr, pt, ft)"
    by (metis prod_cases4)
  have nf: "\<not> ctx_fault (msg_ctx s)" using enc0_parse_safe [OF i p] by (auto elim!: dec_ctxE)
  have keyed: "chk = WOLFCOSE_SUCCESS \<Longrightarrow> key = Some k0 \<and> ssz < 2 ^ 32 \<and> psz < 2 ^ 32 \<and> hdr \<noteq> None"
    unfolding chk enc0_decrypt_checks_def wolfCose_LenFitsWord32_def k0_def by (auto split: if_splits)
  note par = enc0_params_iff [OF a]
  have T: "\<not> ft \<and> within ms ssz scr \<and> within mp psz pt \<and>
      (ro = WOLFCOSE_SUCCESS \<longleftrightarrow> length (enc0_msg_aad ea ean s) \<le> ssz \<and> enc0_msg_opens b A k0 ea ean s \<noteq> None) \<and>
      (\<forall>pl. ro = WOLFCOSE_SUCCESS \<and> enc0_msg_opens b A k0 ea ean s = Some pl \<longrightarrow>
         pt = Some (splice 0 pl mp) \<and> length pl = msg_payloadLen s - tagn \<and> length pl \<le> psz)"
    if ok: "chk = WOLFCOSE_SUCCESS" "rp = WOLFCOSE_SUCCESS" "ra = WOLFCOSE_SUCCESS"
  proof -
    obtain mq pes ues where S: "msg_protected s = Some mq" "msg_protectedLen s \<le> length mq" "length mq < 2 ^ 63"
      "cose_headers b (take (msg_protectedLen s) mq) pes ues (msg_hdr s)" "readable (msg_payload s) (msg_payloadLen s)"
      using enc0_parse_sound [OF i dp p [unfolded ok(2)]] by blast
    have ok': "enc0_msg_ok b k0 psz s" "keyn = key_symmLen k0" "tagn = aead_tag_len b (hdr_alg (msg_hdr s))"
      using par ok(3) by simp_all
    have "hdr_iv (msg_hdr s) \<noteq> None" using ok'(1) by (simp add: enc0_msg_ok_def Let_def)
    then have iv: "readable (hdr_iv (msg_hdr s)) (hdr_ivLen (msg_hdr s))" by (rule cose_headers_iv [OF S(4)])
    have pr: "readable (msg_protected s) (msg_protectedLen s)" using S(1-3) by simp
    show ?thesis
      using enc0_open_spec [OF A bufs(1) _ bufs(2) _ pr ea S(5) iv ok'(1) o [unfolded ok'(2,3)]] keyed [OF ok(1)]
      unfolding ok'(3) by blast
  qed
  note R = run [unfolded wc_CoseEncrypt0_Decrypt_def chk [symmetric] k0_def [symmetric] Let_def p prod.case a o]
  consider "chk \<noteq> WOLFCOSE_SUCCESS" | "chk = WOLFCOSE_SUCCESS" "rp \<noteq> WOLFCOSE_SUCCESS"
    | "chk = WOLFCOSE_SUCCESS" "rp = WOLFCOSE_SUCCESS" "ra \<noteq> WOLFCOSE_SUCCESS"
    | "chk = WOLFCOSE_SUCCESS" "rp = WOLFCOSE_SUCCESS" "ra = WOLFCOSE_SUCCESS" by blast
  note cases = this
  have ret: "ret = (if chk \<noteq> WOLFCOSE_SUCCESS then chk else if rp \<noteq> WOLFCOSE_SUCCESS then rp
       else if ra \<noteq> WOLFCOSE_SUCCESS then ra else ro)"
    using R by (cases rule: cases) auto
  have zero: "wolfCose_ForceZero (Some m') n = Some (splice 0 (replicate n 0) m')" for m' n by simp
  show "\<not> fault \<and> scratch' = Some (splice 0 (replicate ssz 0) ms)"
    using R nf T within_zero by (cases rule: cases) auto
  show "hdr' = map_option (\<lambda>_. hdr_zero) hdr \<and> pt' = Some (splice 0 (replicate psz 0) mp) \<and> plen' = map_option (\<lambda>_. 0) plen"
    if r: "ret \<noteq> WOLFCOSE_SUCCESS"
  proof (cases rule: cases)
    case 4
    note t = T [OF 4]
    have "pt \<noteq> None" using t by (auto simp: within_def)
    then show ?thesis using R r 4 keyed [OF 4(1)] within_zero [OF conjunct1 [OF conjunct2 [OF conjunct2 [OF t]]]]
      by (cases plen) auto
  qed (use R r keyed in \<open>cases plen; auto\<close>)+
  show "\<exists>k s pl. key = Some k \<and> chk = WOLFCOSE_SUCCESS \<and>
      enc0_parse b (Some m) inSz dct dctn = (WOLFCOSE_SUCCESS, s) \<and> enc0_msg_ok b k psz s \<and>
      length (enc0_msg_aad ea ean s) \<le> ssz \<and> enc0_msg_opens b A k ea ean s = Some pl \<and>
      hdr' = Some (msg_hdr s) \<and> pt' = Some (splice 0 pl mp) \<and> plen' = Some (length pl) \<and> length pl \<le> psz"
    if r: "ret = WOLFCOSE_SUCCESS"
  proof -
    have ok: "chk = WOLFCOSE_SUCCESS" "rp = WOLFCOSE_SUCCESS" "ra = WOLFCOSE_SUCCESS" "ro = WOLFCOSE_SUCCESS"
      using ret r by (auto split: if_splits)
    note t = T [OF ok(1-3)]
    obtain pl where pl: "enc0_msg_opens b A k0 ea ean s = Some pl" "length (enc0_msg_aad ea ean s) \<le> ssz" using t ok(4) by blast
    have x: "pt = Some (splice 0 pl mp)" "length pl = msg_payloadLen s - tagn" "length pl \<le> psz" using t ok(4) pl(1) by blast+
    have ok': "enc0_msg_ok b k0 psz s" "tagn = aead_tag_len b (hdr_alg (msg_hdr s))" using par ok(3) by simp_all
    have "sz_sub (msg_payloadLen s) tagn = length pl" using ok' x(2) by (simp add: enc0_msg_ok_def Let_def)
    then have "hdr' = Some (msg_hdr s)" "pt' = Some (splice 0 pl mp)" "plen' = Some (length pl)" using R ok x(1) by simp_all
    then show ?thesis using ok p keyed pl ok'(1) x(3) by blast
  qed
  show "ret = WOLFCOSE_SUCCESS" if "key = Some k" "chk = WOLFCOSE_SUCCESS"
    "enc0_parse b (Some m) inSz dct dctn = (WOLFCOSE_SUCCESS, s')" "enc0_msg_ok b k psz s'"
    "length (enc0_msg_aad ea ean s') \<le> ssz" "enc0_msg_opens b A k ea ean s' \<noteq> None" for k s'
  proof -
    have e: "rp = WOLFCOSE_SUCCESS" "s' = s" "k0 = k" using that(1,3) p by (simp_all add: k0_def)
    then have "ra = WOLFCOSE_SUCCESS" using par that(4) by blast
    then show ?thesis using T [OF that(2) e(1)] that(5,6) ret that(2) e by auto
  qed
qed

text \<open>C3: a plaintext is handed out only if the whole input is the optional tag 16 and the array of a protected
header, an unprotected header and a ciphertext (or null, and then the ciphertext is the one that was passed);
the two headers are well-formed maps with disjoint labels, no critical label ignored, and the header structure
holds their values; the algorithm is the one of the key, or, when the key has none, comes from the protected
header; the key and the nonce of the header have that algorithm's lengths; and the plaintext is the
authenticated decryption of the ciphertext under the key, that nonce and the RFC 9052 Enc_structure over the
protected header and the external data. No access leaves a buffer, the scratch buffer is zeroed, and after
every failure the header structure and the plaintext buffer are zeroed and the length is 0.\<close>

theorem Encrypt0_Decrypt_sound:
  assumes "aead_ok A" "inSz \<le> length m" "length m < 2 ^ 63" "readable dct dctn" "readable ea ean"
    and "ssz \<le> length ms" "psz \<le> length mp"
    and "wc_CoseEncrypt0_Decrypt b A key (Some m) inSz dct dctn ea ean (Some ms) ssz hdr (Some mp) psz plen =
      (ret, hdr', scratch', pt', plen', fault)"
  shows "\<not> fault \<and> scratch' = Some (splice 0 (replicate ssz 0) ms) \<and>
    (if ret = WOLFCOSE_SUCCESS then
       \<exists>k h prot pes ues pre det ct pl. key = Some k \<and> key_kty k = WOLFCOSE_KTY_SYMMETRIC \<and> hdr' = Some h \<and>
         take inSz m = pre @ payload_bytes (if det then None else Some ct) \<and> (det \<longrightarrow> dct \<noteq> None \<and> ct = bytes_at dct dctn) \<and>
         msg_prefix 16 3 prot ues pre \<and> cose_headers b prot pes ues h \<and>
         (if key_alg k = WOLFCOSE_ALG_UNSET then LInt 1 \<in> fst ` set pes else key_alg k = hdr_alg h) \<and>
         wolfCose_AeadKeyLen b (hdr_alg h) (Some 0) = (WOLFCOSE_SUCCESS, Some (key_symmLen k)) \<and>
         wolfCose_AeadNonceLen b (hdr_alg h) (Some 0) = (WOLFCOSE_SUCCESS, Some (hdr_ivLen h)) \<and>
         aead_decrypts b A (hdr_alg h) k (bytes_at (hdr_iv h) (hdr_ivLen h))
           (enc_bytes WOLFCOSE_CTX_ENCRYPT0 prot (bytes_at ea ean)) ct = Some pl \<and>
         length pl \<le> psz \<and> pt' = Some (splice 0 pl mp) \<and> plen' = Some (length pl)
     else hdr' = map_option (\<lambda>_. hdr_zero) hdr \<and> pt' = Some (splice 0 (replicate psz 0) mp) \<and>
       plen' = map_option (\<lambda>_. 0) plen)"
proof (cases "ret = WOLFCOSE_SUCCESS")
  case False
  then show ?thesis using Encrypt0_Decrypt_outcome(1,2) [OF assms refl] by simp
next
  case True
  note out = Encrypt0_Decrypt_outcome(1) [OF assms refl]
  obtain k s pl where k: "key = Some k"
    "enc0_decrypt_checks key (Some m) inSz dctn ean (Some ms) ssz hdr (Some mp) psz plen = WOLFCOSE_SUCCESS"
    "enc0_parse b (Some m) inSz dct dctn = (WOLFCOSE_SUCCESS, s)" "enc0_msg_ok b k psz s"
    "enc0_msg_opens b A k ea ean s = Some pl"
    "hdr' = Some (msg_hdr s)" "pt' = Some (splice 0 pl mp)" "plen' = Some (length pl)" "length pl \<le> psz"
    using Encrypt0_Decrypt_outcome(3) [OF assms refl True] by (elim exE conjE) (rule that; assumption)
  obtain mq pes ues pre det where S: "msg_protected s = Some mq" "msg_protectedLen s \<le> length mq"
    "msg_prefix 16 3 (take (msg_protectedLen s) mq) ues pre"
    "take inSz m = pre @ payload_bytes (if det then None else Some (bytes_at (msg_payload s) (msg_payloadLen s)))"
    "cose_headers b (take (msg_protectedLen s) mq) pes ues (msg_hdr s)" "msg_algProtected s \<longleftrightarrow> LInt 1 \<in> fst ` set pes"
    "msg_payload s \<noteq> None" "det \<longrightarrow> msg_payload s = dct \<and> msg_payloadLen s = dctn"
    using enc0_parse_sound [OF assms(2-4) k(3)] by (elim exE conjE) (rule that; assumption)
  have kty: "key_kty k = WOLFCOSE_KTY_SYMMETRIC"
    using k(1,2) by (auto simp: enc0_decrypt_checks_def split: if_splits)
  have ok: "if key_alg k = WOLFCOSE_ALG_UNSET then LInt 1 \<in> fst ` set pes else key_alg k = hdr_alg (msg_hdr s)"
    "wolfCose_AeadKeyLen b (hdr_alg (msg_hdr s)) (Some 0) = (WOLFCOSE_SUCCESS, Some (key_symmLen k))"
    "wolfCose_AeadNonceLen b (hdr_alg (msg_hdr s)) (Some 0) = (WOLFCOSE_SUCCESS, Some (hdr_ivLen (msg_hdr s)))"
    using k(4) unfolding enc0_msg_ok_def Let_def S(6) by blast+
  have dec: "aead_decrypts b A (hdr_alg (msg_hdr s)) k (bytes_at (hdr_iv (msg_hdr s)) (hdr_ivLen (msg_hdr s)))
      (enc_bytes WOLFCOSE_CTX_ENCRYPT0 (take (msg_protectedLen s) mq) (bytes_at ea ean))
      (bytes_at (msg_payload s) (msg_payloadLen s)) = Some pl"
    using k(5) unfolding enc0_msg_opens_def enc0_msg_aad_def S(1) bytes_at_simps .
  have det: "det \<longrightarrow> dct \<noteq> None \<and> bytes_at (msg_payload s) (msg_payloadLen s) = bytes_at dct dctn"
    using S(7,8) by auto
  show ?thesis
    unfolding if_P [OF True]
    by (rule conjI [OF conjunct1 [OF out] conjI [OF conjunct2 [OF out]]],
        rule exI [of _ k], rule exI [of _ "msg_hdr s"], rule exI [of _ "take (msg_protectedLen s) mq"],
        rule exI [of _ pes], rule exI [of _ ues], rule exI [of _ pre], rule exI [of _ det],
        rule exI [of _ "bytes_at (msg_payload s) (msg_payloadLen s)"], rule exI [of _ pl])
      (intro conjI k kty S(3,4,5) ok dec det)
qed

section \<open>Decryption accepts what encryption wrote\<close>

lemma enc0_ct_reads:
  assumes d: "dec_ctx (msg_ctx s)" and i: "inp (msg_ctx s) = payload_bytes (if det then None else Some ct) @ rest"
    and dp: "det \<longrightarrow> dct \<noteq> None \<and> dctn = length ct \<and> bytes_at dct dctn = ct \<and> ct \<noteq> []"
  shows "\<exists>p f. enc0_read_ct b dct dctn s = (WOLFCOSE_SUCCESS, s\<lparr>
      msg_ctx := advance (msg_ctx s) (length (payload_bytes (if det then None else Some ct))),
      msg_payload := p, msg_payloadLen := length ct, msg_hdr := (msg_hdr s)\<lparr>hdr_flags := f\<rparr>\<rparr>) \<and> bytes_at p (length ct) = ct"
proof (cases det)
  case True
  have n: "next_is_null (msg_ctx s)" using i True by (simp add: next_is_null_iff [OF d] payload_bytes_def)
  have g: "\<not> (dct = None \<or> dctn = 0)" using dp True by auto
  have "bytes_at dct (length ct) = ct" "dctn = length ct" using dp True by metis+
  then show ?thesis
    unfolding enc0_read_ct_def Let_def if_P [OF n] if_not_P [OF g] advance_1 using True
    by (intro exI [of _ dct] exI [of _ "hdr_flags (msg_hdr s) OR WOLFCOSE_HDR_FLAG_DETACHED"])
      (cases s; simp add: payload_bytes_def)
next
  case False
  have i': "inp (msg_ctx s) = str_bytes 2 ct @ rest" using i False by (simp add: payload_bytes_def)
  obtain p where p: "wolfCose_CBOR_DecodeBstr_ex b (msg_ctx s) (msg_payload s, msg_payloadLen s) 0 =
      (WOLFCOSE_SUCCESS, advance (msg_ctx s) (length (str_bytes 2 ct)), Some p, length ct)" "take (length ct) p = ct"
    using reads_Bstr [OF d i'] by blast
  have n: "\<not> next_is_null (msg_ctx s)" using i' by (rule str_not_null [OF d])
  show ?thesis
    unfolding enc0_read_ct_def Let_def if_not_P [OF n] p(1) prod.case using p(2) False
    by (intro exI [of _ "Some p"] exI [of _ "hdr_flags (msg_hdr s)"]) (cases s; simp add: payload_bytes_def)
qed

lemma enc0_parse_reads:
  assumes i: "take inSz m = enc0_msg alg iv (if det then None else Some ct)" "inSz \<le> length m" "length m < 2 ^ 63"
    and b: "1 \<le> max_map_items b" and dp: "det \<longrightarrow> dct \<noteq> None \<and> dctn = length ct \<and> bytes_at dct dctn = ct \<and> ct \<noteq> []"
  shows "\<exists>s h f. enc0_parse b (Some m) inSz dct dctn = (WOLFCOSE_SUCCESS, s) \<and>
    bytes_at (msg_protected s) (msg_protectedLen s) = alg_hdr alg \<and> msg_algProtected s \<and>
    one_field (Some (5, iv)) (hdr_zero\<lparr>hdr_alg := alg\<rparr>) h \<and> msg_hdr s = h\<lparr>hdr_flags := f\<rparr> \<and>
    msg_payloadLen s = length ct \<and> bytes_at (msg_payload s) (msg_payloadLen s) = ct"
proof -
  let ?c = "\<lparr> ctx_buf = None, ctx_cbuf = Some m, ctx_bufSz = inSz, ctx_idx = 0, ctx_fault = False \<rparr>"
  let ?s0 = "msg_start ?c" and ?e = "Some (5 :: i64, iv)" and ?po = "if det then None else Some ct"
  have d: "dec_ctx (msg_ctx ?s0)" and h0: "msg_hdr ?s0 = hdr_zero"
    using i(2,3) by (simp_all add: dec_ctx_def msg_start_def)
  let ?pre = "cbor_head 6 (unat WOLFCOSE_TAG_ENCRYPT0) @ cbor_head 4 3 @ str_bytes 2 (alg_hdr alg) @ one_entry ?e"
  have i0: "inp (msg_ctx ?s0) = cbor_head 6 (unat WOLFCOSE_TAG_ENCRYPT0) @ cbor_head 4 3 @ str_bytes 2 (alg_hdr alg) @
      one_entry ?e @ (payload_bytes ?po @ [])"
    using i(1) by (simp add: msg_start_def inp_def enc0_msg_def enc0_bytes_def enc0_prefix_def one_entry_def cbor_int_def)
  have e: "\<forall>v x. ?e = Some (v, x) \<longrightarrow> v = 4 \<or> v = 5" by simp
  obtain mp h st where 1: "msg_headers b 0 WOLFCOSE_TAG_ENCRYPT0 3 ?s0 = (WOLFCOSE_SUCCESS, ?s0\<lparr>
      msg_ctx := advance (msg_ctx ?s0) (length ?pre), msg_protected := Some mp, msg_protectedLen := length (alg_hdr alg),
      msg_hdr := h, msg_state := st, msg_algProtected := True\<rparr>)"
    "take (length (alg_hdr alg)) mp = alg_hdr alg" "one_field ?e (hdr_zero\<lparr>hdr_alg := alg\<rparr>) h"
    using msg_headers_reads [OF d h0 b insertI2 [OF singletonI] i0 _ e] by auto
  let ?c1 = "advance (msg_ctx ?s0) (length ?pre)"
  have step: "dec_ctx c \<Longrightarrow> inp c = x @ r \<Longrightarrow> dec_ctx (advance c (length x)) \<and> inp (advance c (length x)) = r" for c x r
    by (simp add: dec_ctx_advance del: length_inp)
  have i0': "inp (msg_ctx ?s0) = ?pre @ payload_bytes ?po @ []" using i0 by simp
  have 2: "dec_ctx ?c1" "inp ?c1 = payload_bytes ?po @ []" using step [OF d i0'] by blast+
  let ?c2 = "advance ?c1 (length (payload_bytes ?po))"
  have 3: "dec_ctx ?c2" "inp ?c2 = []" using step [OF 2] by blast+
  define s1 where "s1 = ?s0\<lparr>msg_ctx := ?c1, msg_protected := Some mp, msg_protectedLen := length (alg_hdr alg),
      msg_hdr := h, msg_state := st, msg_algProtected := True\<rparr>"
  have c1: "msg_ctx s1 = ?c1" by (simp add: s1_def)
  obtain p f where p: "enc0_read_ct b dct dctn s1 = (WOLFCOSE_SUCCESS, s1\<lparr>msg_ctx := ?c2,
      msg_payload := p, msg_payloadLen := length ct, msg_hdr := (msg_hdr s1)\<lparr>hdr_flags := f\<rparr>\<rparr>)" "bytes_at p (length ct) = ct"
    using enc0_ct_reads [of s1 det ct "[]" dct dctn b, unfolded c1, OF 2 dp] by blast
  define s2 where "s2 = s1\<lparr>msg_ctx := ?c2, msg_payload := p, msg_payloadLen := length ct,
      msg_hdr := (msg_hdr s1)\<lparr>hdr_flags := f\<rparr>\<rparr>"
  have "ctx_idx ?c2 = ctx_bufSz ?c2" using 3 length_inp [OF 3(1)] unfolding 3(2) by (auto elim!: dec_ctxE)
  then have r3: "msg_at_end s2 = (WOLFCOSE_SUCCESS, s2)" by (simp add: msg_at_end_def s2_def)
  have r1: "msg_headers b 0 WOLFCOSE_TAG_ENCRYPT0 3 ?s0 = (WOLFCOSE_SUCCESS, s1)" unfolding s1_def by (rule 1(1))
  have r2: "enc0_read_ct b dct dctn s1 = (WOLFCOSE_SUCCESS, s2)" unfolding s2_def by (rule p(1))
  have run: "enc0_parse b (Some m) inSz dct dctn = (WOLFCOSE_SUCCESS, s2)"
    unfolding enc0_parse_def Let_def on_success_def fst_conv snd_conv if_P [OF refl] r1 r2 r3 ..
  show ?thesis
    by (rule exI [of _ s2], rule exI [of _ h], rule exI [of _ f]) (use run 1(2,3) p(2) in \<open>simp add: s2_def s1_def\<close>)
qed

lemma Encrypt0_decrypts_encrypted:
  assumes A: "aead_ok A" "aead_inverts A"
    and bufs: "ssz \<le> length ms" "osz \<le> length mo" "length mo < 2 ^ 63" "detached \<noteq> None \<longrightarrow> dsz \<le> mem_len detached"
    and rd: "readable iv ivn" "readable pl pln" "readable ea ean" and b: "1 \<le> max_map_items b"
    and enc: "wc_CoseEncrypt0_Encrypt b A key alg iv ivn pl pln detached dsz dl ea ean (Some ms) ssz (Some mo) osz outLen =
      (WOLFCOSE_SUCCESS, scr, Some m, Some n, detached', dl', fault)"
    and sc: "ssz \<le> ssz'" "ssz' \<le> length ms'" "ssz' < 2 ^ 32" and pt: "pln \<le> psz" "psz \<le> length mp" "psz < 2 ^ 32"
  shows "\<exists>h scr'. wc_CoseEncrypt0_Decrypt b A key (Some m) n detached' (if detached = None then 0 else the dl') ea ean
       (Some ms') ssz' (Some hdr) (Some mp) psz (Some q) =
      (WOLFCOSE_SUCCESS, Some h, scr', Some (splice 0 (bytes_at pl pln) mp), Some pln, False) \<and>
    hdr_alg h = alg \<and> bytes_at (hdr_iv h) (hdr_ivLen h) = bytes_at iv ivn"
proof -
  note E = Encrypt0_Encrypt_outcome [OF A(1) bufs(1,2,4) rd enc refl refl]
  obtain ct where acc: "enc0_accepted b A key alg iv ivn pl pln detached dsz dl ea ean ssz osz outLen ct"
    using E(3) by blast
  let ?msg = "enc0_msg alg (bytes_at iv ivn) (if detached = None then Some ct else None)"
  let ?n = "if detached = None then 0 else the dl'"
  have o: "m = splice 0 ?msg mo" "n = length ?msg" "detached' = map_option (splice 0 ct) detached"
    "dl' = (if detached = None then dl else Some (length ct))"
    using E(2) [OF acc] by simp_all
  obtain k where k: "key = Some k" "max pln (max ean (max dsz (max osz ssz))) < 2 ^ 32" "enc0_admits b k alg ivn pln"
    "detached \<noteq> None \<longrightarrow> pln + aead_tag_len b alg \<le> dsz" "length (enc0_aad alg (bytes_at ea ean)) \<le> ssz"
    "aead_encrypts b A alg k (bytes_at iv ivn) (enc0_aad alg (bytes_at ea ean)) (bytes_at pl pln) = Some ct"
    "length ?msg \<le> osz" "iv \<noteq> None"
    using acc unfolding enc0_accepted_def by blast
  have m: "take n m = ?msg" "n \<le> length m" "length m < 2 ^ 63" using k(7) bufs(2,3) unfolding o(1,2) by (simp_all add: splice_def)
  have ctl: "length ct = pln + aead_tag_len b alg" using length_aead_encrypts [OF A(1) k(6)] rd(2) by simp
  obtain fam where "aead_family b alg = Some fam" using k(6) by (auto simp: aead_encrypts_def split: option.splits)
  note T = TagLen_16 [OF this, of 0]
  have dp: "\<not> (detached = None) \<longrightarrow> detached' \<noteq> None \<and> ?n = length ct \<and> bytes_at detached' ?n = ct \<and> ct \<noteq> []"
    using k(4) bufs(4) ctl T unfolding o(3,4) by (cases detached) (auto simp: splice_def)
  have dlen: "length ct \<le> mem_len detached \<and> length ct < 2 ^ 32" if "detached \<noteq> None"
    using that k(2,4) bufs(4) ctl by auto
  have dn: "readable detached' ?n" using dlen unfolding o(3,4) by (cases detached) (auto simp: readable_def)
  have pos: "(if \<not> detached = None then None else Some ct) = (if detached = None then Some ct else None)" by simp
  obtain s h f where s: "enc0_parse b (Some m) n detached' ?n = (WOLFCOSE_SUCCESS, s)"
    "bytes_at (msg_protected s) (msg_protectedLen s) = alg_hdr alg" "msg_algProtected s"
    "one_field (Some (5, bytes_at iv ivn)) (hdr_zero\<lparr>hdr_alg := alg\<rparr>) h" "msg_hdr s = h\<lparr>hdr_flags := f\<rparr>"
    "msg_payloadLen s = length ct" "bytes_at (msg_payload s) (msg_payloadLen s) = ct"
    using enc0_parse_reads [of n m alg "bytes_at iv ivn" "\<not> detached = None" ct, unfolded pos, OF m b dp]
    by (elim exE conjE) (rule that; assumption)
  have H: "hdr_alg (msg_hdr s) = alg" "hdr_iv (msg_hdr s) \<noteq> None" "hdr_ivLen (msg_hdr s) = ivn"
    "bytes_at (hdr_iv (msg_hdr s)) (hdr_ivLen (msg_hdr s)) = bytes_at iv ivn"
    using s(4) rd(1) unfolding s(5) by (auto simp: one_field_def)
  have aad: "enc0_msg_aad ea ean s = enc0_aad alg (bytes_at ea ean)" by (simp add: enc0_msg_aad_def enc0_aad_def s(2))
  have op: "enc0_msg_opens b A k ea ean s = Some (bytes_at pl pln)"
    unfolding enc0_msg_opens_def aad H(1,4) s(7) by (rule aead_decrypts_encrypted [OF A k(6)])
  have ok: "enc0_msg_ok b k psz s"
    using k(3) s(3) H(1-3) pt(1) ctl by (auto simp: enc0_msg_ok_def enc0_admits_def Let_def s(6))
  have "max ean (max dsz osz) < 2 ^ 32" "key_kty k = WOLFCOSE_KTY_SYMMETRIC" using k(2,3) by (simp_all add: enc0_admits_def)
  moreover have "?n < 2 ^ 32" using dlen dp by auto
  ultimately have v: "enc0_decrypt_checks key (Some m) n ?n ean (Some ms') ssz' (Some hdr) (Some mp) psz (Some q) = WOLFCOSE_SUCCESS"
    using k(1,7) sc(3) pt(3) o(2) by (simp add: enc0_decrypt_checks_def wolfCose_LenFitsWord32_def)
  obtain ret hdr' scr' pt' plen' fault' where run: "wc_CoseEncrypt0_Decrypt b A key (Some m) n detached' ?n ea ean
      (Some ms') ssz' (Some hdr) (Some mp) psz (Some q) = (ret, hdr', scr', pt', plen', fault')"
    by (metis prod_cases6)
  note V = Encrypt0_Decrypt_outcome [OF A(1) m(2,3) dn rd(3) sc(2) pt(2) run refl]
  have aadl: "length (enc0_msg_aad ea ean s) \<le> ssz'" using k(5) sc(1) unfolding aad by simp
  have opn: "enc0_msg_opens b A k ea ean s \<noteq> None" unfolding op by simp
  have okr: "ret = WOLFCOSE_SUCCESS" by (rule V(4) [OF k(1) v s(1) ok aadl opn])
  obtain k' s' x where "key = Some k'" "enc0_parse b (Some m) n detached' ?n = (WOLFCOSE_SUCCESS, s')"
    "enc0_msg_opens b A k' ea ean s' = Some x" "hdr' = Some (msg_hdr s')" "pt' = Some (splice 0 x mp)" "plen' = Some (length x)"
    using V(3) [OF okr] by blast
  then have "hdr' = Some (msg_hdr s)" "pt' = Some (splice 0 (bytes_at pl pln) mp)" "plen' = Some pln"
    using s(1) k(1) op rd(2) by auto
  then show ?thesis using run okr V(1) H by auto
qed

lemma toy_decrypted:
  "\<exists>out n h scr. toy_encrypt None 0 None = (WOLFCOSE_SUCCESS, Some (replicate 20 0), Some out, Some n, None, None, False) \<and>
    n \<le> length out \<and> length out < 2 ^ 63 \<and>
    wc_CoseEncrypt0_Decrypt full_build toy_aead (Some toy_ekey) (Some out) n None 0 None 0 (Some (replicate 20 7)) 20
      (Some hdr_zero) (Some [0, 0, 0]) 3 (Some 0) = (WOLFCOSE_SUCCESS, Some h, scr, Some [1, 2, 0], Some 2, False)"
proof -
  obtain ret scr out n d dn fault where c: "toy_encrypt None 0 None = (ret, scr, out, n, d, dn, fault)" by (metis prod_cases7)
  have a: "enc0_accepted full_build toy_aead (Some toy_ekey) 1 toy_iv 12 (Some [1, 2]) 2 None 0 None None 0 20 60 (Some 0) toy_ct"
    by (rule toy_enc_accepted) simp_all
  have r: "readable toy_iv 12" "readable (Some [1, 2]) 2" "readable None 0" by (simp_all add: readable_def)
  have l: "20 \<le> length (replicate 20 (7 :: u8))" "60 \<le> length (replicate 60 (7 :: u8))" "(None :: cptr) \<noteq> None \<longrightarrow> 0 \<le> mem_len None"
    by simp_all
  note E = Encrypt0_Encrypt_outcome [OF toy_aead_ok(1) l r c refl refl]
  let ?msg = "enc0_msg 1 (bytes_at toy_iv 12) (Some toy_ct)"
  have ml: "length ?msg \<le> 60" using a unfolding enc0_accepted_def by simp
  have f: "ret = WOLFCOSE_SUCCESS" "\<not> fault" "scr = Some (replicate 20 0)" "out = Some (splice 0 ?msg (replicate 60 7))"
    "n = Some (length ?msg)" "d = None" "dn = None"
    using E(1) E(2) [OF a] by (simp_all add: splice_def del: bytes_at_simps)
  note c = c [unfolded f(1,3-7)]
  have s: "length (replicate 60 (7 :: u8)) < 2 ^ 63" "20 \<le> (20 :: nat)" "20 \<le> length (replicate 20 (7 :: u8))" "(20 :: nat) < 2 ^ 32"
    "2 \<le> (3 :: nat)" "3 \<le> length [0, 0, 0 :: u8]" "(3 :: nat) < 2 ^ 32" by simp_all
  note D = Encrypt0_decrypts_encrypted [OF toy_aead_ok l(1,2) s(1) l(3) r full_build_items c s(2-7), of hdr_zero 0]
  then obtain h scr' where h: "wc_CoseEncrypt0_Decrypt full_build toy_aead (Some toy_ekey)
      (Some (splice 0 ?msg (replicate 60 7))) (length ?msg) None 0 None 0 (Some (replicate 20 7)) 20 (Some hdr_zero)
      (Some [0, 0, 0]) 3 (Some 0) = (WOLFCOSE_SUCCESS, Some h, scr', Some (splice 0 (bytes_at (Some [1, 2]) 2) [0, 0, 0]), Some 2, False)"
    by (auto simp del: bytes_at_simps)
  have p: "splice 0 (bytes_at (Some [1, 2]) 2) [0, 0, 0] = [1, 2, 0 :: u8]" by (simp add: splice_def)
  have lo: "length (splice 0 ?msg (replicate 60 (7 :: u8))) = 60" using ml by (simp del: bytes_at_simps)
  show ?thesis
    using c h ml f(2) unfolding p by (intro exI [of _ "splice 0 ?msg (replicate 60 7)"] exI [of _ "length ?msg"] exI [of _ h] exI [of _ scr'])
      (simp add: lo del: bytes_at_simps)
qed

text \<open>C4: decryption inverts encryption. With the same key and external data, the message of a successful
encryption, with its ciphertext inside or passed along, decrypts in any scratch buffer at least as large and
any plaintext buffer at least as long as the payload, to the payload it was made from, and yields its
algorithm and nonce.\<close>

theorem Encrypt0_round_trip:
  assumes A: "aead_ok A" "aead_inverts A"
    and bufs: "ssz \<le> length ms" "osz \<le> length mo" "length mo < 2 ^ 63" "detached \<noteq> None \<longrightarrow> dsz \<le> mem_len detached"
    and rd: "readable iv ivn" "readable pl pln" "readable ea ean" and b: "1 \<le> max_map_items b"
    and enc: "wc_CoseEncrypt0_Encrypt b A key alg iv ivn pl pln detached dsz dl ea ean (Some ms) ssz (Some mo) osz outLen =
      (WOLFCOSE_SUCCESS, scr, Some m, Some n, detached', dl', fault)"
    and sc: "ssz \<le> ssz'" "ssz' \<le> length ms'" "ssz' < 2 ^ 32" and pt: "pln \<le> psz" "psz \<le> length mp" "psz < 2 ^ 32"
  shows "\<exists>h scr'. wc_CoseEncrypt0_Decrypt b A key (Some m) n detached' (if detached = None then 0 else the dl') ea ean
       (Some ms') ssz' (Some hdr) (Some mp) psz (Some q) =
      (WOLFCOSE_SUCCESS, Some h, scr', Some (splice 0 (bytes_at pl pln) mp), Some pln, False) \<and>
    hdr_alg h = alg \<and> bytes_at (hdr_iv h) (hdr_ivLen h) = bytes_at iv ivn"
  by (rule Encrypt0_decrypts_encrypted [OF assms])

lemma Encrypt0_round_trip_witness:
  "\<exists>out n h scr pt. toy_encrypt None 0 None = (WOLFCOSE_SUCCESS, Some (replicate 20 0), Some out, Some n, None, None, False) \<and>
    wc_CoseEncrypt0_Decrypt full_build toy_aead (Some toy_ekey) (Some out) n None 0 None 0 (Some (replicate 20 7)) 20
      (Some hdr_zero) (Some [0, 0, 0]) 3 (Some 0) = (WOLFCOSE_SUCCESS, Some h, scr, Some pt, Some 2, False) \<and>
    take 2 pt = [1, 2] \<and> hdr_alg h = 1"
proof -
  obtain out n where c: "toy_encrypt None 0 None = (WOLFCOSE_SUCCESS, Some (replicate 20 0), Some out, Some n, None, None, False)"
    using toy_decrypted by blast
  have l: "20 \<le> length (replicate 20 (7 :: u8))" "60 \<le> length (replicate 60 (7 :: u8))" "length (replicate 60 (7 :: u8)) < 2 ^ 63"
    "(None :: cptr) \<noteq> None \<longrightarrow> 0 \<le> mem_len None" by simp_all
  have r: "readable toy_iv 12" "readable (Some [1, 2]) 2" "readable None 0" by (simp_all add: readable_def)
  have s: "20 \<le> (20 :: nat)" "20 \<le> length (replicate 20 (7 :: u8))" "(20 :: nat) < 2 ^ 32"
    "2 \<le> (3 :: nat)" "3 \<le> length [0, 0, 0 :: u8]" "(3 :: nat) < 2 ^ 32" by simp_all
  show ?thesis
    using Encrypt0_round_trip [OF toy_aead_ok l r full_build_items c s, of hdr_zero 0] c
    by (auto simp: splice_def)
qed

lemma Encrypt0_Decrypt_sound_witness:
  "\<exists>out n h scr prot ct. wc_CoseEncrypt0_Decrypt full_build toy_aead (Some toy_ekey) (Some out) n None 0 None 0
      (Some (replicate 20 7)) 20 (Some hdr_zero) (Some [0, 0, 0]) 3 (Some 0) =
      (WOLFCOSE_SUCCESS, Some h, scr, Some [1, 2, 0], Some 2, False) \<and>
    aead_decrypts full_build toy_aead (hdr_alg h) toy_ekey (bytes_at (hdr_iv h) (hdr_ivLen h))
      (enc_bytes WOLFCOSE_CTX_ENCRYPT0 prot []) ct \<noteq> None"
proof -
  obtain out n h scr where v: "n \<le> length out" "length out < 2 ^ 63"
    "wc_CoseEncrypt0_Decrypt full_build toy_aead (Some toy_ekey) (Some out) n None 0 None 0 (Some (replicate 20 7)) 20
      (Some hdr_zero) (Some [0, 0, 0]) 3 (Some 0) = (WOLFCOSE_SUCCESS, Some h, scr, Some [1, 2, 0], Some 2, False)"
    using toy_decrypted by blast
  have r: "readable None 0" "20 \<le> length (replicate 20 (7 :: u8))" "3 \<le> length [0, 0, 0 :: u8]" by simp_all
  obtain k prot ct pl where "Some toy_ekey = Some k" "aead_decrypts full_build toy_aead (hdr_alg h) k
      (bytes_at (hdr_iv h) (hdr_ivLen h)) (enc_bytes WOLFCOSE_CTX_ENCRYPT0 prot (bytes_at None 0)) ct = Some pl"
    using Encrypt0_Decrypt_sound [OF toy_aead_ok(1) v(1,2) r(1,1,2,3) v(3)] by auto
  then show ?thesis using v(3) by (intro exI [of _ out] exI [of _ n] exI [of _ h] exI [of _ scr] exI [of _ prot] exI [of _ ct]) simp
qed

end
