(* ===== verification/Cose_HdrSkip.thy ===== *)
theory Cose_HdrSkip
  imports Cose_Msg
begin

text \<open>
  The decoders of signature and recipient entries a multi-party message holds besides the selected
  one (\<open>src/wolfcose_hdr.c\<close>, \<open>wolfCose_DecodeSkippedHdrAlg\<close> to \<open>wolfCose_DecodeSkippedRecipient\<close>):
  each is parsed structurally, only its algorithm is kept, and nested recipients are followed with
  an explicit bounded stack. An accepted entry is proved to be a COSE_Signature or COSE_recipient.
\<close>

section \<open>The algorithm of a skipped bucket\<close>

text \<open>\<open>*alg\<close>, \<open>*algFound\<close> and \<open>*hpkeEkFound\<close>; the last pointer may be \<open>NULL\<close>.\<close>

record skipped =
  sk_ctx :: cbor_ctx
  sk_alg :: i32
  sk_algFound :: bool
  sk_hpkeEk :: "bool option"

definition skipped_value :: "build \<Rightarrow> cbor_label \<Rightarrow> skipped \<Rightarrow> rc \<times> skipped" where
  "skipped_value b label s =
     (if wc_CBOR_LabelIsInt (Some label) WOLFCOSE_HDR_ALG then
        if sk_algFound s then (WOLFCOSE_E_CBOR_MALFORMED, s)
        else (case read_alg b 0 (sk_ctx s) (sk_alg s) of (ret, ctx, alg) \<Rightarrow>
          (ret, s\<lparr>sk_ctx := ctx, sk_alg := alg, sk_algFound := True\<rparr>))
      else if hpke_0_ke_decrypt b \<and> wc_CBOR_LabelIsInt (Some label) WOLFCOSE_HDR_HPKE_EK then
        if sk_hpkeEk s = Some True then (WOLFCOSE_E_CBOR_MALFORMED, s)
        else (case wc_CBOR_Skip b (sk_ctx s) of (ret, ctx) \<Rightarrow>
          (ret, s\<lparr>sk_ctx := ctx, sk_hpkeEk := map_option (\<lambda>_. True) (sk_hpkeEk s)\<rparr>))
      else (case wc_CBOR_Skip b (sk_ctx s) of (ret, ctx) \<Rightarrow> (ret, s\<lparr>sk_ctx := ctx\<rparr>)))"

definition skipped_pair :: "build \<Rightarrow> skipped \<Rightarrow> rc \<times> skipped" where
  "skipped_pair b s =
     (case wc_CBOR_DecodeLabel b (sk_ctx s) local_label of (ret, ctx, label) \<Rightarrow>
        if ret \<noteq> WOLFCOSE_SUCCESS then (ret, s\<lparr>sk_ctx := ctx\<rparr>)
        else skipped_value b label (s\<lparr>sk_ctx := ctx\<rparr>))"

definition wolfCose_DecodeSkippedHdrAlg :: "build \<Rightarrow> skipped \<Rightarrow> rc \<times> skipped" where
  "wolfCose_DecodeSkippedHdrAlg b s =
     (let s = (if hpke_0_ke_decrypt b then s\<lparr>sk_hpkeEk := map_option (\<lambda>_. False) (sk_hpkeEk s)\<rparr> else s)
      in case wc_CBOR_DecodeMapStart b (sk_ctx s) 0 of (ret, ctx, mapCount) \<Rightarrow>
           if ret \<noteq> WOLFCOSE_SUCCESS then (ret, s\<lparr>sk_ctx := ctx\<rparr>)
           else if mapCount > ctx_bufSz ctx then (WOLFCOSE_E_CBOR_MALFORMED, s\<lparr>sk_ctx := ctx\<rparr>)
           else repeat_ok mapCount (skipped_pair b) (s\<lparr>sk_ctx := ctx\<rparr>))"

section \<open>A skipped entry\<close>

text \<open>
  The parameters and variables of \<open>wolfCose_DecodeSkippedHeaderEntry\<close>. A \<open>NULL\<close> pointer to an
  output is \<open>None\<close>; \<open>se_algFound\<close> is the local variable, \<open>se_algFoundOut\<close> the output.
\<close>

record skip_entry =
  se_ctx :: cbor_ctx
  se_arrayCount :: size
  se_alg :: "i32 option"
  se_algFound :: bool
  se_algFoundOut :: "bool option"
  se_hpkeEk :: "bool option"
  se_protectedData :: cptr
  se_protectedLen :: size

definition entry_array :: "build \<Rightarrow> size \<Rightarrow> skip_entry \<Rightarrow> rc \<times> skip_entry" where
  "entry_array b maxArrayCount s =
     (case wc_CBOR_DecodeArrayStart b (se_ctx s) (se_arrayCount s) of (ret, ctx, n) \<Rightarrow>
        (if ret \<noteq> WOLFCOSE_SUCCESS then ret
         else if n < 3 \<or> n > maxArrayCount then WOLFCOSE_E_CBOR_MALFORMED else WOLFCOSE_SUCCESS,
         s\<lparr>se_ctx := ctx, se_arrayCount := n\<rparr>))"

definition entry_protected :: "build \<Rightarrow> skip_entry \<Rightarrow> rc \<times> skip_entry" where
  "entry_protected b s =
     (case wc_CBOR_DecodeBstr b (se_ctx s) (se_protectedData s, se_protectedLen s) of (ret, ctx, p, n) \<Rightarrow>
        (ret, s\<lparr>se_ctx := ctx, se_protectedData := p, se_protectedLen := n\<rparr>))"

text \<open>The protected bucket, through a cursor of its own; an access of it out of bounds is one of the function.\<close>

definition entry_protected_alg :: "build \<Rightarrow> skip_entry \<Rightarrow> rc \<times> skip_entry" where
  "entry_protected_alg b s =
     (case se_alg s of None \<Rightarrow> (WOLFCOSE_SUCCESS, s)
      | Some alg \<Rightarrow>
          if se_protectedLen s = 0 then (WOLFCOSE_SUCCESS, s)
          else
            let sub = \<lparr> ctx_buf = None, ctx_cbuf = se_protectedData s, ctx_bufSz = se_protectedLen s,
                        ctx_idx = 0, ctx_fault = False \<rparr>
            in case wolfCose_DecodeSkippedHdrAlg b
                   \<lparr> sk_ctx = sub, sk_alg = alg, sk_algFound = se_algFound s, sk_hpkeEk = None \<rparr> of (ret, k) \<Rightarrow>
                 (if ret \<noteq> WOLFCOSE_SUCCESS then ret
                  else if ctx_idx (sk_ctx k) \<noteq> ctx_bufSz (sk_ctx k) then WOLFCOSE_E_CBOR_MALFORMED
                  else WOLFCOSE_SUCCESS,
                  s\<lparr>se_ctx := (se_ctx s)\<lparr>ctx_fault := (ctx_fault (se_ctx s) \<or> ctx_fault (sk_ctx k))\<rparr>,
                    se_alg := Some (sk_alg k), se_algFound := sk_algFound k\<rparr>))"

definition entry_unprotected :: "build \<Rightarrow> skip_entry \<Rightarrow> rc \<times> skip_entry" where
  "entry_unprotected b s =
     (case se_alg s of
        Some alg \<Rightarrow>
          (case wolfCose_DecodeSkippedHdrAlg b
               \<lparr> sk_ctx = se_ctx s, sk_alg = alg, sk_algFound = se_algFound s, sk_hpkeEk = se_hpkeEk s \<rparr> of
             (ret, k) \<Rightarrow>
             (ret, s\<lparr>se_ctx := sk_ctx k, se_alg := Some (sk_alg k), se_algFound := sk_algFound k,
                     se_hpkeEk := sk_hpkeEk k\<rparr>))
      | None \<Rightarrow> (case wc_CBOR_Skip b (se_ctx s) of (ret, ctx) \<Rightarrow> (ret, s\<lparr>se_ctx := ctx\<rparr>)))"

definition entry_direct :: "skip_entry \<Rightarrow> rc \<times> skip_entry" where
  "entry_direct s =
     (if se_alg s = Some WOLFCOSE_ALG_DIRECT \<and> se_protectedLen s \<noteq> 0 then (WOLFCOSE_E_COSE_BAD_HDR, s)
      else (WOLFCOSE_SUCCESS, s\<lparr>se_algFoundOut := map_option (\<lambda>_. se_algFound s) (se_algFoundOut s)\<rparr>))"

text \<open>The signature or the encrypted key.\<close>

definition entry_value :: "build \<Rightarrow> bool \<Rightarrow> skip_entry \<Rightarrow> rc \<times> skip_entry" where
  "entry_value b isSignature s =
     (let ctx = se_ctx s
      in if isSignature then
           (case wc_CBOR_DecodeBstr b ctx (None, 0) of (ret, ctx, p, n) \<Rightarrow> (ret, s\<lparr>se_ctx := ctx\<rparr>))
         else if se_alg s = Some WOLFCOSE_ALG_DIRECT then
           (case wolfCose_CBOR_DecodeHead b ctx local_item of (ret, ctx, item) \<Rightarrow>
              (if ret \<noteq> WOLFCOSE_SUCCESS then ret
               else if item_majorType item \<noteq> WOLFCOSE_CBOR_BSTR \<or> item_dataLen item \<noteq> 0
                 then WOLFCOSE_E_COSE_BAD_HDR
               else WOLFCOSE_SUCCESS, s\<lparr>se_ctx := ctx\<rparr>))
         else if next_is_null ctx then (WOLFCOSE_SUCCESS, s\<lparr>se_ctx := ctx\<lparr>ctx_idx := ctx_idx ctx + 1\<rparr>\<rparr>)
         else (case wc_CBOR_DecodeBstr b ctx (None, 0) of (ret, ctx, p, n) \<Rightarrow> (ret, s\<lparr>se_ctx := ctx\<rparr>)))"

definition wolfCose_DecodeSkippedHeaderEntry ::
  "build \<Rightarrow> cbor_ctx \<Rightarrow> size \<Rightarrow> i32 option \<Rightarrow> bool \<Rightarrow> bool option \<Rightarrow> bool option \<Rightarrow> rc \<times> skip_entry" where
  "wolfCose_DecodeSkippedHeaderEntry b ctx maxArrayCount alg isSignature algFoundOut hpkeEkFound =
     (let s = \<lparr> se_ctx = ctx, se_arrayCount = 0, se_alg = map_option (\<lambda>_. WOLFCOSE_ALG_UNSET) alg,
                se_algFound = False, se_algFoundOut = map_option (\<lambda>_. False) algFoundOut,
                se_hpkeEk = (if hpke_0_ke_decrypt b then map_option (\<lambda>_. False) hpkeEkFound else hpkeEkFound),
                se_protectedData = None, se_protectedLen = 0 \<rparr>;
          r = entry_array b maxArrayCount s;
          r = on_success r (entry_protected b);
          r = on_success r (entry_protected_alg b);
          r = on_success r (entry_unprotected b);
          r = on_success r entry_direct
      in on_success r (entry_value b isSignature))"

definition wolfCose_DecodeSkippedSignature :: "build \<Rightarrow> cbor_ctx \<Rightarrow> rc \<times> cbor_ctx" where
  "wolfCose_DecodeSkippedSignature b ctx =
     (case wolfCose_DecodeSkippedHeaderEntry b ctx 3 None True None None of (ret, s) \<Rightarrow> (ret, se_ctx s))"

text \<open>COSE_Key maps take integer labels only.\<close>

definition wolfCose_SkipIfTstrLabel :: "cbor_ctx \<Rightarrow> rc" where
  "wolfCose_SkipIfTstrLabel ctx =
     (if ctx_idx ctx \<ge> ctx_bufSz ctx then WOLFCOSE_E_CBOR_MALFORMED
      else if wc_CBOR_PeekType ctx = WOLFCOSE_CBOR_TSTR then WOLFCOSE_E_CBOR_MALFORMED
      else WOLFCOSE_SUCCESS)"

section \<open>A skipped recipient\<close>

text \<open>
  The variables of \<open>wolfCose_DecodeSkippedRecipient\<close>; the stack is as in \<open>Cbor_Skip\<close>, the entry on
  top first. One round is the body of the outer loop, with the inner loop as \<open>unwind\<close>.
\<close>

record skip_rcpt =
  sr_ctx :: cbor_ctx
  sr_remaining :: size
  sr_stack :: "size list"
  sr_first :: bool
  sr_alg :: i32

definition nested_recipients :: "build \<Rightarrow> skip_rcpt \<Rightarrow> rc \<times> skip_rcpt" where
  "nested_recipients b s =
     (case wc_CBOR_DecodeArrayStart b (sr_ctx s) 0 of (ret, ctx, n) \<Rightarrow>
        let s = s\<lparr>sr_ctx := ctx\<rparr>
        in if ret \<noteq> WOLFCOSE_SUCCESS then (ret, s)
           else if n = 0 \<or> n > ctx_bufSz ctx then (WOLFCOSE_E_CBOR_MALFORMED, s)
           else if length (sr_stack s) \<ge> cbor_max_depth b then (WOLFCOSE_E_CBOR_DEPTH, s)
           else (WOLFCOSE_SUCCESS, s\<lparr>sr_stack := sr_remaining s # sr_stack s, sr_remaining := n\<rparr>))"

definition recipient_alg :: "build \<Rightarrow> skip_entry \<Rightarrow> i32" where
  "recipient_alg b e =
     (if hpke_0_ke_decrypt b \<and> se_algFoundOut e = Some False \<and> se_hpkeEk e = Some True then WOLFCOSE_ALG_HPKE_0_KE
      else the (se_alg e))"

definition recipient_round :: "build \<Rightarrow> skip_rcpt \<Rightarrow> rc \<times> skip_rcpt" where
  "recipient_round b s =
     (case wolfCose_DecodeSkippedHeaderEntry b (sr_ctx s) 4 (Some WOLFCOSE_ALG_UNSET) False (Some False)
           (if hpke_0_ke_decrypt b then Some False else None) of (ret, e) \<Rightarrow>
        let s = s\<lparr>sr_ctx := se_ctx e, sr_remaining := sr_remaining s - 1\<rparr>;
            decodedAlg = recipient_alg b e
        in if ret \<noteq> WOLFCOSE_SUCCESS then (ret, s)
           else if se_arrayCount e = 4 \<and> decodedAlg = WOLFCOSE_ALG_DIRECT then (WOLFCOSE_E_COSE_BAD_HDR, s)
           else
             let s = (if sr_first s then s\<lparr>sr_alg := decodedAlg, sr_first := False\<rparr> else s);
                 r = (if se_arrayCount e = 4 then nested_recipients b s else (WOLFCOSE_SUCCESS, s))
             in on_success r (\<lambda>s. case unwind (sr_remaining s) (sr_stack s) of (n, st) \<Rightarrow>
                  (WOLFCOSE_SUCCESS, s\<lparr>sr_remaining := n, sr_stack := st\<rparr>)))"

section \<open>Every round makes progress\<close>

text \<open>
  A decoder that succeeds moves its cursor on, whatever the cursor: the measure of the recipient
  loop is the number of bytes left, as in \<open>Cbor_Skip\<close>.
\<close>

definition forward :: "cbor_ctx \<Rightarrow> cbor_ctx \<Rightarrow> bool" where
  "forward c c' \<longleftrightarrow> ctx_idx c \<le> ctx_idx c' \<and> ctx_bufSz c' = ctx_bufSz c"

lemma forward_refl [simp]: "forward c c"
  by (simp add: forward_def)

lemma forward_trans: "forward c d \<Longrightarrow> forward d e \<Longrightarrow> forward c e"
  by (auto simp: forward_def)

lemma forward_fault [simp]: "forward c (d\<lparr>ctx_fault := f\<rparr>) \<longleftrightarrow> forward c d"
  by (simp add: forward_def)

lemma forward_Head: "wolfCose_CBOR_DecodeHead_ex b c item flags = (WOLFCOSE_SUCCESS, c', item') \<Longrightarrow> forward c c'"
  using DecodeHead_forward by (fastforce simp: forward_def)

lemma forward_Skip: "wolfCose_CBOR_Skip_ex b c flags = (WOLFCOSE_SUCCESS, c') \<Longrightarrow> forward c c'"
proof -
  have "skip_loop b flags c r st = (WOLFCOSE_SUCCESS, c') \<Longrightarrow> forward c c'" for r st
  proof (induction b flags c r st rule: skip_loop.induct)
    case (1 b flags c r st)
    show ?case
    proof (cases r)
      case (Suc k)
      note run = 1(2) [unfolded skip_loop.simps [of b flags c]]
      obtain c1 item where h: "wolfCose_CBOR_DecodeHead_ex b c local_item flags = (WOLFCOSE_SUCCESS, c1, item)"
        using run Suc by (auto split: prod.splits if_splits)
      obtain r1 s1 where i: "skip_item b c1 item (r - 1) st = (WOLFCOSE_SUCCESS, r1, s1)"
        using run Suc h by (auto split: prod.splits if_splits)
      obtain r2 s2 where u: "unwind r1 s1 = (r2, s2)" by fastforce
      have rec: "skip_loop b flags c1 r2 s2 = (WOLFCOSE_SUCCESS, c')" using run Suc h i u by simp
      have pos: "0 < r" and ok: "\<not> WOLFCOSE_SUCCESS \<noteq> WOLFCOSE_SUCCESS" using Suc by simp_all
      have "forward c1 c'" by (rule "1.IH" [OF pos h [symmetric] refl ok i [symmetric] refl ok u [symmetric] rec])
      then show ?thesis by (rule forward_trans [OF forward_Head [OF h]])
    qed (use 1(2) in simp)
  qed
  then show "wolfCose_CBOR_Skip_ex b c flags = (WOLFCOSE_SUCCESS, c') \<Longrightarrow> forward c c'"
    by (simp add: wolfCose_CBOR_Skip_ex_def)
qed

lemma forward_decoders:
  "wolfCose_CBOR_DecodeInt_ex b c v flags = (WOLFCOSE_SUCCESS, c', v') \<Longrightarrow> forward c c'"
  "wc_CBOR_DecodeLabel b c l = (WOLFCOSE_SUCCESS, c', l') \<Longrightarrow> forward c c'"
  "wc_CBOR_DecodeBstr b c out = (WOLFCOSE_SUCCESS, c', p, n) \<Longrightarrow> forward c c'"
  "wc_CBOR_DecodeMapStart b c k = (WOLFCOSE_SUCCESS, c', k') \<Longrightarrow> forward c c'"
  "wc_CBOR_DecodeArrayStart b c k = (WOLFCOSE_SUCCESS, c', k') \<Longrightarrow> forward c c'"
  "wolfCose_CBOR_DecodeHead b c item = (WOLFCOSE_SUCCESS, c', item') \<Longrightarrow> forward c c'"
  "wc_CBOR_Skip b c = (WOLFCOSE_SUCCESS, c') \<Longrightarrow> forward c c'"
  "read_alg b flags c a = (WOLFCOSE_SUCCESS, c', a') \<Longrightarrow> forward c c'"
  unfolding wolfCose_CBOR_DecodeInt_ex_def wc_CBOR_DecodeLabel_def wolfCose_CBOR_DecodeLabel_ex_def
    wc_CBOR_DecodeBstr_def wolfCose_CBOR_DecodeBstr_ex_def wolfCose_CBOR_DecodeBytes_ex_def
    wc_CBOR_DecodeMapStart_def wolfCose_CBOR_DecodeMapStart_ex_def wolfCose_CBOR_DecodeContainerStart_ex_def
    wc_CBOR_DecodeArrayStart_def wolfCose_CBOR_DecodeArrayStart_ex_def wolfCose_CBOR_DecodeHead_def
    wc_CBOR_Skip_def read_alg_def
  by (auto simp: Let_def split: prod.splits if_splits dest: forward_Head forward_Skip)

text \<open>A stage that moves the cursor under \<open>g\<close> forward when it succeeds.\<close>

definition advances :: "('s \<Rightarrow> cbor_ctx) \<Rightarrow> ('s \<Rightarrow> rc \<times> 's) \<Rightarrow> bool" where
  "advances g f \<longleftrightarrow> (\<forall>s s'. f s = (WOLFCOSE_SUCCESS, s') \<longrightarrow> forward (g s) (g s'))"

lemma advancesI: "(\<And>s s'. f s = (WOLFCOSE_SUCCESS, s') \<Longrightarrow> forward (g s) (g s')) \<Longrightarrow> advances g f"
  by (simp add: advances_def)

lemma advances_seq: "advances g f \<Longrightarrow> advances g h \<Longrightarrow> advances g (\<lambda>s. on_success (f s) h)"
  unfolding advances_def on_success_def by (metis forward_trans prod.collapse)

lemma advances_repeat: "advances g f \<Longrightarrow> advances g (repeat_ok n f)"
proof (induction n)
  case (Suc n)
  from advances_seq [OF Suc.prems Suc.IH [OF Suc.prems]] show ?case by (simp add: advances_def)
qed (simp add: advances_def)

lemma skipped_advances:
  "advances sk_ctx (skipped_value b label)" "advances sk_ctx (skipped_pair b)"
  "advances sk_ctx (wolfCose_DecodeSkippedHdrAlg b)"
proof -
  have v: "advances sk_ctx (skipped_value b label)" for label
    by (rule advancesI) (auto simp: skipped_value_def split: if_splits prod.splits dest: forward_decoders)
  then show "advances sk_ctx (skipped_value b label)" .
  show p: "advances sk_ctx (skipped_pair b)"
  proof (rule advancesI)
    fix s s' assume "skipped_pair b s = (WOLFCOSE_SUCCESS, s')"
    then obtain c1 l where "wc_CBOR_DecodeLabel b (sk_ctx s) local_label = (WOLFCOSE_SUCCESS, c1, l)"
      "skipped_value b l (s\<lparr>sk_ctx := c1\<rparr>) = (WOLFCOSE_SUCCESS, s')"
      by (auto simp: skipped_pair_def split: prod.splits if_splits)
    then show "forward (sk_ctx s) (sk_ctx s')"
      using v [of l] forward_decoders(2) forward_trans by (fastforce simp: advances_def)
  qed
  show "advances sk_ctx (wolfCose_DecodeSkippedHdrAlg b)"
  proof (rule advancesI)
    fix s s' assume "wolfCose_DecodeSkippedHdrAlg b s = (WOLFCOSE_SUCCESS, s')"
    then obtain x c1 n where "wc_CBOR_DecodeMapStart b (sk_ctx s) 0 = (WOLFCOSE_SUCCESS, c1, n)"
      "repeat_ok n (skipped_pair b) (s\<lparr>sk_ctx := c1, sk_hpkeEk := x\<rparr>) = (WOLFCOSE_SUCCESS, s')"
      by (cases s) (auto simp: wolfCose_DecodeSkippedHdrAlg_def Let_def split: prod.splits if_splits)
    then show "forward (sk_ctx s) (sk_ctx s')"
      using advances_repeat [OF p, of n] forward_decoders(4) forward_trans by (fastforce simp: advances_def)
  qed
qed

lemma entry_advances:
  "advances se_ctx (entry_protected b)" "advances se_ctx (entry_protected_alg b)"
  "advances se_ctx (entry_unprotected b)" "advances se_ctx entry_direct" "advances se_ctx (entry_value b sig)"
proof -
  show "advances se_ctx (entry_protected b)"
    by (rule advancesI) (auto simp: entry_protected_def split: prod.splits dest: forward_decoders)
  show "advances se_ctx (entry_protected_alg b)"
    by (rule advancesI) (auto simp: entry_protected_alg_def Let_def split: prod.splits option.splits if_splits)
  show "advances se_ctx (entry_unprotected b)"
    by (rule advancesI) (use skipped_advances(3) [of b] in
      \<open>fastforce simp: entry_unprotected_def advances_def split: prod.splits option.splits dest: forward_decoders\<close>)
  show "advances se_ctx entry_direct"
    by (rule advancesI) (auto simp: entry_direct_def split: if_splits)
  show "advances se_ctx (entry_value b sig)"
    by (rule advancesI) (auto simp: entry_value_def Let_def forward_def [of _ "_\<lparr>ctx_idx := _\<rparr>"]
        split: prod.splits if_splits dest: forward_decoders)
qed

lemma Entry_forward:
  assumes "wolfCose_DecodeSkippedHeaderEntry b c n alg sig fo hk = (WOLFCOSE_SUCCESS, e)"
  shows "ctx_idx c < ctx_bufSz c \<and> ctx_idx c < ctx_idx (se_ctx e) \<and> ctx_bufSz (se_ctx e) = ctx_bufSz c"
proof -
  let ?rest = "\<lambda>s. on_success (on_success (on_success (on_success (entry_protected b s) (entry_protected_alg b))
    (entry_unprotected b)) entry_direct) (entry_value b sig)"
  have adv: "advances se_ctx ?rest" by (intro advances_seq entry_advances)
  obtain s s1 where s: "se_ctx s = c" "entry_array b n s = (WOLFCOSE_SUCCESS, s1)" "?rest s1 = (WOLFCOSE_SUCCESS, e)"
    using assms unfolding wolfCose_DecodeSkippedHeaderEntry_def Let_def on_success_eq_success by force
  have "ctx_idx c < ctx_bufSz c \<and> ctx_idx c < ctx_idx (se_ctx s1) \<and> ctx_bufSz (se_ctx s1) = ctx_bufSz c"
    using s(1,2) DecodeHead_forward
    by (fastforce simp: entry_array_def wc_CBOR_DecodeArrayStart_def wolfCose_CBOR_DecodeArrayStart_ex_def
        wolfCose_CBOR_DecodeContainerStart_ex_def split: prod.splits if_splits)
  moreover have "forward (se_ctx s1) (se_ctx e)" using adv s(3) by (simp add: advances_def)
  ultimately show ?thesis by (auto simp: forward_def)
qed

lemma Round_forward:
  assumes "recipient_round b s = (WOLFCOSE_SUCCESS, s')"
  shows "ctx_bufSz (sr_ctx s') - ctx_idx (sr_ctx s') < ctx_bufSz (sr_ctx s) - ctx_idx (sr_ctx s)"
proof -
  obtain e where e: "wolfCose_DecodeSkippedHeaderEntry b (sr_ctx s) 4 (Some WOLFCOSE_ALG_UNSET) False (Some False)
      (if hpke_0_ke_decrypt b then Some False else None) = (WOLFCOSE_SUCCESS, e)"
    using assms by (auto simp: recipient_round_def Let_def split: prod.splits if_splits)
  have "forward (se_ctx e) (sr_ctx s')"
    using assms e by (auto simp: recipient_round_def nested_recipients_def Let_def on_success_def
        split: prod.splits if_splits dest: forward_decoders)
  with Entry_forward [OF e] show ?thesis by (auto simp: forward_def)
qed

function recipient_loop :: "build \<Rightarrow> skip_rcpt \<Rightarrow> rc \<times> skip_rcpt" where
  "recipient_loop b s =
     (if sr_remaining s > 0 then
        (case recipient_round b s of (ret, s') \<Rightarrow>
           if ret \<noteq> WOLFCOSE_SUCCESS then (ret, s') else recipient_loop b s')
      else (WOLFCOSE_SUCCESS, s))"
  by pat_completeness auto
termination
  by (relation "measure (\<lambda>(b, s). ctx_bufSz (sr_ctx s) - ctx_idx (sr_ctx s))")
    (auto intro: Round_forward [OF sym])

declare recipient_loop.simps [simp del]

definition wolfCose_DecodeSkippedRecipient :: "build \<Rightarrow> cbor_ctx \<Rightarrow> i32 \<Rightarrow> rc \<times> cbor_ctx \<times> i32" where
  "wolfCose_DecodeSkippedRecipient b ctx recipientAlg =
     (case recipient_loop b \<lparr> sr_ctx = ctx, sr_remaining = 1, sr_stack = [], sr_first = True,
             sr_alg = WOLFCOSE_ALG_UNSET \<rparr> of (ret, s) \<Rightarrow> (ret, sr_ctx s, sr_alg s))"

section \<open>Safety\<close>

lemma moves_public:
  "dec_ctx c \<Longrightarrow> wc_CBOR_DecodeLabel b c l = (ret, c', l') \<Longrightarrow> moves c c'"
  "dec_ctx c \<Longrightarrow> wc_CBOR_DecodeBstr b c out = (ret, c', p, n) \<Longrightarrow> moves c c'"
  "dec_ctx c \<Longrightarrow> wc_CBOR_DecodeMapStart b c k = (ret, c', k') \<Longrightarrow> moves c c'"
  "dec_ctx c \<Longrightarrow> wc_CBOR_DecodeArrayStart b c k = (ret, c', k') \<Longrightarrow> moves c c'"
  "dec_ctx c \<Longrightarrow> wolfCose_CBOR_DecodeHead b c item = (ret, c', item') \<Longrightarrow> moves c c'"
  "dec_ctx c \<Longrightarrow> wc_CBOR_Skip b c = (ret, c') \<Longrightarrow> moves c c'"
  unfolding wc_CBOR_DecodeLabel_def wc_CBOR_DecodeBstr_def wc_CBOR_DecodeMapStart_def
    wc_CBOR_DecodeArrayStart_def wolfCose_CBOR_DecodeHead_def wc_CBOR_Skip_def
  by (blast intro: moves_decoders moves_Bstr moves_Map moves_Array)+

text \<open>A stage that only moves the cursor under \<open>g\<close>, whether it succeeds or not.\<close>

definition only_moves :: "('s \<Rightarrow> cbor_ctx) \<Rightarrow> ('s \<Rightarrow> rc \<times> 's) \<Rightarrow> bool" where
  "only_moves g f \<longleftrightarrow> (\<forall>s. dec_ctx (g s) \<longrightarrow> moves (g s) (g (snd (f s))))"

lemma only_movesI: "(\<And>s ret s'. dec_ctx (g s) \<Longrightarrow> f s = (ret, s') \<Longrightarrow> moves (g s) (g s')) \<Longrightarrow> only_moves g f"
  unfolding only_moves_def by (metis prod.collapse)

lemma only_movesD: "only_moves g f \<Longrightarrow> dec_ctx (g s) \<Longrightarrow> moves (g s) (g (snd (f s)))"
  by (simp add: only_moves_def)

lemma only_moves_seq: "only_moves g f \<Longrightarrow> only_moves g h \<Longrightarrow> only_moves g (\<lambda>s. on_success (f s) h)"
  unfolding only_moves_def on_success_def by (auto intro: moves_trans moves_dec_ctx)

lemma only_moves_repeat: "only_moves g f \<Longrightarrow> only_moves g (repeat_ok n f)"
  using entries_move [of g _ f n] by (simp add: only_moves_def)

lemma skipped_moves:
  "only_moves sk_ctx (skipped_value b label)" "only_moves sk_ctx (skipped_pair b)"
  "only_moves sk_ctx (wolfCose_DecodeSkippedHdrAlg b)"
proof -
  have v: "only_moves sk_ctx (skipped_value b label)" for label
    by (rule only_movesI) (auto simp: skipped_value_def split: if_splits prod.splits dest: moves_alg moves_public)
  then show "only_moves sk_ctx (skipped_value b label)" .
  show p: "only_moves sk_ctx (skipped_pair b)"
  proof (rule only_movesI)
    fix s ret s' assume d: "dec_ctx (sk_ctx s)" and r: "skipped_pair b s = (ret, s')"
    obtain r1 c1 l where l: "wc_CBOR_DecodeLabel b (sk_ctx s) local_label = (r1, c1, l)" by (metis prod_cases3)
    note m = moves_public(1) [OF d l]
    have "moves c1 (sk_ctx (snd (skipped_value b l (s\<lparr>sk_ctx := c1\<rparr>))))"
      using only_movesD [OF v, of "s\<lparr>sk_ctx := c1\<rparr>" l] moves_dec_ctx [OF d m] by simp
    then show "moves (sk_ctx s) (sk_ctx s')"
      using r l m moves_trans [OF d m] by (auto simp: skipped_pair_def split: if_splits)
  qed
  show "only_moves sk_ctx (wolfCose_DecodeSkippedHdrAlg b)"
  proof (rule only_movesI)
    fix s ret s' assume d: "dec_ctx (sk_ctx s)" and r: "wolfCose_DecodeSkippedHdrAlg b s = (ret, s')"
    obtain r1 c1 n where l: "wc_CBOR_DecodeMapStart b (sk_ctx s) 0 = (r1, c1, n)" by (metis prod_cases3)
    note m = moves_public(3) [OF d l]
    have "moves c1 (sk_ctx (snd (repeat_ok n (skipped_pair b) (t\<lparr>sk_ctx := c1\<rparr>))))" for t
      using only_movesD [OF only_moves_repeat [OF p], of "t\<lparr>sk_ctx := c1\<rparr>" n] moves_dec_ctx [OF d m] by simp
    from moves_trans [OF d m this] show "moves (sk_ctx s) (sk_ctx s')"
      using r l m by (auto simp: wolfCose_DecodeSkippedHdrAlg_def Let_def split: if_splits) (metis snd_conv)+
  qed
qed

text \<open>The bytes of the protected bucket are readable.\<close>

definition entry_reads :: "skip_entry \<Rightarrow> bool" where
  "entry_reads s \<longleftrightarrow> (\<exists>m. se_protectedData s = Some m \<and> se_protectedLen s \<le> length m \<and> length m < 2 ^ 63)"

definition sub_ctx :: "cptr \<Rightarrow> size \<Rightarrow> cbor_ctx" where
  "sub_ctx p n = \<lparr> ctx_buf = None, ctx_cbuf = p, ctx_bufSz = n, ctx_idx = 0, ctx_fault = False \<rparr>"

lemma sub_ctx_ok: "entry_reads s \<Longrightarrow> dec_ctx (sub_ctx (se_protectedData s) (se_protectedLen s))"
  by (auto simp: entry_reads_def sub_ctx_def dec_ctx_def)

lemma moves_no_fault: "dec_ctx c \<Longrightarrow> moves c c' \<Longrightarrow> \<not> ctx_fault c'"
  by (auto simp: moves_def elim!: dec_ctxE)

lemma no_fault_update: "\<not> f \<Longrightarrow> c\<lparr>ctx_fault := (ctx_fault c \<or> f)\<rparr> = c"
  by simp

lemma entry_protected_alg_ctx:
  assumes "entry_reads s"
  shows "se_ctx (snd (entry_protected_alg b s)) = se_ctx s"
proof (cases "se_alg s")
  case (Some alg)
  let ?k = "\<lparr> sk_ctx = sub_ctx (se_protectedData s) (se_protectedLen s), sk_alg = alg, sk_algFound = se_algFound s, sk_hpkeEk = None \<rparr>"
  obtain ret k where k: "wolfCose_DecodeSkippedHdrAlg b ?k = (ret, k)" by fastforce
  have d: "dec_ctx (sk_ctx ?k)" using sub_ctx_ok [OF assms] by simp
  from only_movesD [OF skipped_moves(3), of ?k b] d k have "moves (sk_ctx ?k) (sk_ctx k)" by simp
  from moves_no_fault [OF d this] show ?thesis
    using k Some by (simp add: entry_protected_alg_def sub_ctx_def Let_def)
qed (simp add: entry_protected_alg_def)

lemma entry_stages_move:
  assumes c: "dec_ctx c" and m: "moves c (se_ctx s)"
  shows "staged (\<lambda>s. moves c (se_ctx s)) (\<lambda>s. True) (entry_array b n s)"
    "staged (\<lambda>s. moves c (se_ctx s)) entry_reads (entry_protected b s)"
    "entry_reads s \<Longrightarrow> staged (\<lambda>s. moves c (se_ctx s)) (\<lambda>s. True) (entry_protected_alg b s)"
    "staged (\<lambda>s. moves c (se_ctx s)) (\<lambda>s. True) (entry_unprotected b s)"
    "staged (\<lambda>s. moves c (se_ctx s)) (\<lambda>s. True) (entry_direct s)"
    "staged (\<lambda>s. moves c (se_ctx s)) (\<lambda>s. True) (entry_value b sig s)"
proof -
  have d: "dec_ctx (se_ctx s)" by (rule moves_dec_ctx [OF c m])
  note step = moves_trans [OF c m]
  show "staged (\<lambda>s. moves c (se_ctx s)) (\<lambda>s. True) (entry_array b n s)"
    using step moves_public(4) [OF d] by (auto simp: staged_def entry_array_def split: prod.splits)
  show "staged (\<lambda>s. moves c (se_ctx s)) entry_reads (entry_protected b s)"
    using step moves_public(2) [OF d] Bstr_pointer [OF d, of b]
    by (auto simp: staged_def entry_protected_def entry_reads_def wc_CBOR_DecodeBstr_def split: prod.splits)
  show "staged (\<lambda>s. moves c (se_ctx s)) (\<lambda>s. True) (entry_protected_alg b s)" if "entry_reads s"
    using m entry_protected_alg_ctx [OF that] by (simp add: staged_def)
  show "staged (\<lambda>s. moves c (se_ctx s)) (\<lambda>s. True) (entry_direct s)"
    using m by (simp add: staged_def entry_direct_def)
  show "staged (\<lambda>s. moves c (se_ctx s)) (\<lambda>s. True) (entry_value b sig s)"
    using step moves_public(2,5) [OF d] moves_null [OF d]
    by (auto simp: staged_def entry_value_def Let_def advance_1 split: prod.splits)
  have "moves (se_ctx s) (sk_ctx k)"
    if "wolfCose_DecodeSkippedHdrAlg b \<lparr> sk_ctx = se_ctx s, sk_alg = a, sk_algFound = f, sk_hpkeEk = h \<rparr> = (r, k)"
    for a f h r k
    using only_movesD [OF skipped_moves(3), of "\<lparr> sk_ctx = se_ctx s, sk_alg = a, sk_algFound = f, sk_hpkeEk = h \<rparr>" b] that d
    by simp
  then show "staged (\<lambda>s. moves c (se_ctx s)) (\<lambda>s. True) (entry_unprotected b s)"
    using step moves_public(6) [OF d]
    by (auto simp: staged_def entry_unprotected_def split: prod.splits option.splits)
qed

lemma Entry_moves:
  assumes c: "dec_ctx c"
  shows "moves c (se_ctx (snd (wolfCose_DecodeSkippedHeaderEntry b c n alg sig fo hk)))"
proof -
  note S = entry_stages_move [OF c]
  let ?s = "\<lparr> se_ctx = c, se_arrayCount = 0, se_alg = map_option (\<lambda>_. WOLFCOSE_ALG_UNSET) alg,
                se_algFound = False, se_algFoundOut = map_option (\<lambda>_. False) fo,
                se_hpkeEk = (if hpke_0_ke_decrypt b then map_option (\<lambda>_. False) hk else hk),
                se_protectedData = None, se_protectedLen = 0 \<rparr>"
  let ?E = "\<lambda>s. moves c (se_ctx s)"
  define r1 where "r1 = entry_array b n ?s"
  define r2 where "r2 = on_success r1 (entry_protected b)"
  define r3 where "r3 = on_success r2 (entry_protected_alg b)"
  define r4 where "r4 = on_success r3 (entry_unprotected b)"
  define r5 where "r5 = on_success r4 entry_direct"
  have 1: "staged ?E (\<lambda>s. True) r1" unfolding r1_def by (rule S(1)) simp
  have 2: "staged ?E entry_reads r2" unfolding r2_def by (rule staged_next [OF 1]) (erule S(2))
  have 3: "staged ?E (\<lambda>s. True) r3" unfolding r3_def by (rule staged_next [OF 2]) (erule S(3))
  have 4: "staged ?E (\<lambda>s. True) r4" unfolding r4_def by (rule staged_next [OF 3]) (erule S(4))
  have 5: "staged ?E (\<lambda>s. True) r5" unfolding r5_def by (rule staged_next [OF 4]) (erule S(5))
  have "staged ?E (\<lambda>s. True) (on_success r5 (entry_value b sig))" by (rule staged_next [OF 5]) (erule S(6))
  then show ?thesis
    unfolding r5_def r4_def r3_def r2_def r1_def wolfCose_DecodeSkippedHeaderEntry_def Let_def
    by (simp only: staged_def)
qed

lemma Round_moves:
  assumes c: "dec_ctx (sr_ctx s)"
  shows "moves (sr_ctx s) (sr_ctx (snd (recipient_round b s)))"
proof -
  let ?h = "if hpke_0_ke_decrypt b then Some False else None"
  obtain ret e where e: "wolfCose_DecodeSkippedHeaderEntry b (sr_ctx s) 4 (Some WOLFCOSE_ALG_UNSET) False (Some False) ?h
      = (ret, e)" by fastforce
  have m: "moves (sr_ctx s) (se_ctx e)"
    using Entry_moves [OF c, of b 4 "Some WOLFCOSE_ALG_UNSET" False "Some False" ?h] e by simp
  have "moves (se_ctx e) (sr_ctx (snd (nested_recipients b t)))" if "sr_ctx t = se_ctx e" for t
    using moves_public(4) [of "sr_ctx t" b 0] moves_dec_ctx [OF c m] that
    by (auto simp: nested_recipients_def Let_def split: prod.splits)
  from moves_trans [OF c m this] have "moves (sr_ctx s) (sr_ctx (snd (nested_recipients b t)))"
    if "sr_ctx t = se_ctx e" for t using that .
  then show ?thesis
    using e m by (auto simp: recipient_round_def on_success_def Let_def split: prod.splits)
qed

lemma recipient_loop_moves:
  assumes "dec_ctx (sr_ctx s)"
  shows "moves (sr_ctx s) (sr_ctx (snd (recipient_loop b s)))"
  using assms
proof (induction b s rule: recipient_loop.induct)
  case (1 b s)
  obtain ret s1 where r: "recipient_round b s = (ret, s1)" by fastforce
  note m = Round_moves [OF 1(2), of b, unfolded r snd_conv]
  show ?case
  proof (cases "sr_remaining s > 0 \<and> ret = WOLFCOSE_SUCCESS")
    case True
    then have "moves (sr_ctx s1) (sr_ctx (snd (recipient_loop b s1)))"
      using "1.IH" [OF _ r [symmetric]] moves_dec_ctx [OF 1(2) m] by blast
    from moves_trans [OF 1(2) m this] show ?thesis using True r by (subst recipient_loop.simps) simp
  next
    case False
    then show ?thesis using r m by (subst recipient_loop.simps) auto
  qed
qed

section \<open>What was skipped\<close>

text \<open>A decoder has consumed the bytes \<open>bs\<close>.\<close>

definition consumes :: "cbor_ctx \<Rightarrow> u8 list \<Rightarrow> cbor_ctx \<Rightarrow> bool" where
  "consumes c bs c' \<longleftrightarrow> inp c = bs @ inp c' \<and> c' = advance c (length bs)"

lemma consumes_Nil [simp]: "consumes c [] c"
  by (simp add: consumes_def)

lemma consumes_trans: "consumes c bs d \<Longrightarrow> consumes d cs e \<Longrightarrow> consumes c (bs @ cs) e"
  unfolding consumes_def by (metis advance_advance append.assoc length_append)

lemma consumes_dec_ctx: "dec_ctx c \<Longrightarrow> consumes c bs d \<Longrightarrow> dec_ctx d"
  unfolding consumes_def by (metis dec_ctx_advance length_append le_add1)

lemma takes_consumes: "takes c t d \<Longrightarrow> consumes c (tree_bytes t) d \<and> tree_wf False t"
  unfolding takes_def consumes_def by blast

lemma consumes_decoders:
  assumes d: "dec_ctx c"
  shows "wc_CBOR_DecodeLabel b c l0 = (WOLFCOSE_SUCCESS, c', l) \<Longrightarrow> consumes c (label_bytes (label_of l)) c'"
    "wc_CBOR_DecodeMapStart b c k = (WOLFCOSE_SUCCESS, c', n) \<Longrightarrow> consumes c (cbor_head 5 n) c'"
    "wc_CBOR_DecodeArrayStart b c k = (WOLFCOSE_SUCCESS, c', n) \<Longrightarrow> consumes c (cbor_head 4 n) c'"
    "wc_CBOR_DecodeBstr b c out = (WOLFCOSE_SUCCESS, c', p, n) \<Longrightarrow> consumes c (str_bytes 2 (bytes_at p n)) c' \<and> length (bytes_at p n) = n"
    "wc_CBOR_Skip b c = (WOLFCOSE_SUCCESS, c') \<Longrightarrow> \<exists>t. consumes c (tree_bytes t) c' \<and> tree_wf False t"
    "next_is_null c \<Longrightarrow> consumes c [0xF6] (advance c 1)"
proof -
  have u: "unat (4 :: u8) = 4" "unat (5 :: u8) = 5" by simp_all
  show "wc_CBOR_DecodeLabel b c l0 = (WOLFCOSE_SUCCESS, c', l) \<Longrightarrow> consumes c (label_bytes (label_of l)) c'"
    using DecodeLabel_reads_only [OF d] unfolding consumes_def by blast
  show "wc_CBOR_DecodeMapStart b c k = (WOLFCOSE_SUCCESS, c', n) \<Longrightarrow> consumes c (cbor_head 5 n) c'"
    using DecodeContainer_reads_only [OF d disjI2 [OF refl], of b k] unfolding u
    by (auto simp: wc_CBOR_DecodeMapStart_def wolfCose_CBOR_DecodeMapStart_ex_def consumes_def simp del: inp_advance)
  show "wc_CBOR_DecodeArrayStart b c k = (WOLFCOSE_SUCCESS, c', n) \<Longrightarrow> consumes c (cbor_head 4 n) c'"
    using DecodeContainer_reads_only [OF d disjI1 [OF refl], of b k] unfolding u
    by (auto simp: wc_CBOR_DecodeArrayStart_def wolfCose_CBOR_DecodeArrayStart_ex_def consumes_def simp del: inp_advance)
  show "wc_CBOR_DecodeBstr b c out = (WOLFCOSE_SUCCESS, c', p, n) \<Longrightarrow> consumes c (str_bytes 2 (bytes_at p n)) c' \<and> length (bytes_at p n) = n"
    using takes_Bstr [OF d, of b out c' p n]
    by (auto simp: wc_CBOR_DecodeBstr_def consumes_def takes_def str_bytes_def cbor_head_bytes simp del: inp_advance)
  show "wc_CBOR_Skip b c = (WOLFCOSE_SUCCESS, c') \<Longrightarrow> \<exists>t. consumes c (tree_bytes t) c' \<and> tree_wf False t"
    using takes_Skip [OF d] takes_consumes unfolding wc_CBOR_Skip_def by blast
  show "next_is_null c \<Longrightarrow> consumes c [0xF6] (advance c 1)"
    using next_is_null_iff [OF d] by (auto simp: consumes_def)
qed

definition bucket_bytes :: "entry list \<Rightarrow> u8 list" where
  "bucket_bytes es = cbor_head 5 (length es) @ entries_bytes es"

text \<open>
  The algorithm of a list of entries: of the one entry with label 1, unset when it has none. The
  value the variable had before is \<open>a0\<close>.
\<close>

definition alg_among :: "i32 \<Rightarrow> entry list \<Rightarrow> i32 \<Rightarrow> bool" where
  "alg_among a0 es a \<longleftrightarrow> length (filter (\<lambda>e. fst e = LInt 1) es) \<le> 1 \<and>
     (\<forall>t. (LInt 1, t) \<in> set es \<longrightarrow> int_field t a0 a) \<and> (LInt 1 \<notin> fst ` set es \<longrightarrow> a = a0)"

lemma alg_among_Nil [simp]: "alg_among a [] a' \<longleftrightarrow> a' = a"
  by (auto simp: alg_among_def)

lemma filter_none: "LInt 1 \<notin> fst ` set es \<longleftrightarrow> filter (\<lambda>e. fst e = LInt 1) es = []"
  by (auto simp: filter_empty_conv image_iff)

lemma alg_among_append:
  assumes "alg_among a0 es a1" "alg_among a1 fs a2" "LInt 1 \<in> fst ` set es \<longrightarrow> LInt 1 \<notin> fst ` set fs"
  shows "alg_among a0 (es @ fs) a2"
proof (cases "LInt 1 \<in> fst ` set es")
  case True
  then have n: "LInt 1 \<notin> fst ` set fs" using assms(3) by blast
  then have "(LInt 1, t) \<notin> set fs" for t by force
  then show ?thesis using True n filter_none [THEN iffD1, OF n] assms(1,2) by (auto simp: alg_among_def image_Un)
next
  case False
  then have "(LInt 1, t) \<notin> set es" for t by force
  then show ?thesis using False filter_none [THEN iffD1, OF False] assms(1,2) by (auto simp: alg_among_def image_Un)
qed

lemma skipped_value_spec:
  assumes d: "dec_ctx c0" and ok: "skipped_value b l (s\<lparr>sk_ctx := c0\<rparr>) = (WOLFCOSE_SUCCESS, s')"
  shows "\<exists>t. consumes c0 (tree_bytes t) (sk_ctx s') \<and> tree_wf False t \<and>
    alg_among (sk_alg s) [(label_of l, t)] (sk_alg s') \<and>
    sk_algFound s' = (sk_algFound s \<or> label_of l = LInt 1) \<and> \<not> (sk_algFound s \<and> label_of l = LInt 1) \<and>
    sk_hpkeEk s' = (if hpke_0_ke_decrypt b \<and> label_of l = LInt (- 4) then map_option (\<lambda>_. True) (sk_hpkeEk s) else sk_hpkeEk s)"
proof -
  note F = skipped_value_def LabelIsInt_iff
  consider "label_of l = LInt 1" | "label_of l \<noteq> LInt 1" by blast
  then show ?thesis
  proof cases
    case 1
    then obtain c a where r: "read_alg b 0 c0 (sk_alg s) = (WOLFCOSE_SUCCESS, c, a)" "\<not> sk_algFound s"
      "s' = s\<lparr>sk_ctx := c, sk_alg := a, sk_algFound := True\<rparr>"
      using ok by (auto simp: F split: prod.splits if_splits)
    obtain t where t: "takes c0 t c" "int_field t (sk_alg s) a"
      using takes_alg [OF d r(1)] unfolding int_field_def by blast
    show ?thesis using takes_consumes [OF t(1)] t(2) 1 r(2) by (auto simp: r(3) alg_among_def)
  next
    case 2
    then obtain c x where r: "wc_CBOR_Skip b c0 = (WOLFCOSE_SUCCESS, c)" "s' = s\<lparr>sk_ctx := c, sk_hpkeEk := x\<rparr>"
      "x = (if hpke_0_ke_decrypt b \<and> label_of l = LInt (- 4) then map_option (\<lambda>_. True) (sk_hpkeEk s) else sk_hpkeEk s)"
      using ok by (cases s) (auto simp: F split: prod.splits if_splits)
    show ?thesis using consumes_decoders(5) [OF d r(1)] 2 by (auto simp: r(2,3) alg_among_def)
  qed
qed

lemma skipped_pair_spec:
  assumes d: "dec_ctx (sk_ctx s)" and ok: "skipped_pair b s = (WOLFCOSE_SUCCESS, s')"
  shows "\<exists>l t. consumes (sk_ctx s) (entry_bytes (l, t)) (sk_ctx s') \<and> tree_wf False t \<and>
    alg_among (sk_alg s) [(l, t)] (sk_alg s') \<and>
    sk_algFound s' = (sk_algFound s \<or> l = LInt 1) \<and> \<not> (sk_algFound s \<and> l = LInt 1) \<and>
    sk_hpkeEk s' = (if hpke_0_ke_decrypt b \<and> l = LInt (- 4) then map_option (\<lambda>_. True) (sk_hpkeEk s) else sk_hpkeEk s)"
proof -
  obtain c l where l: "wc_CBOR_DecodeLabel b (sk_ctx s) local_label = (WOLFCOSE_SUCCESS, c, l)"
    and v: "skipped_value b l (s\<lparr>sk_ctx := c\<rparr>) = (WOLFCOSE_SUCCESS, s')"
    using ok by (auto simp: skipped_pair_def split: prod.splits if_splits)
  note c = consumes_decoders(1) [OF d l]
  have d1: "dec_ctx c" by (rule consumes_dec_ctx [OF d c])
  obtain t where t: "consumes c (tree_bytes t) (sk_ctx s')" "tree_wf False t"
    "alg_among (sk_alg s) [(label_of l, t)] (sk_alg s')"
    "sk_algFound s' = (sk_algFound s \<or> label_of l = LInt 1)" "\<not> (sk_algFound s \<and> label_of l = LInt 1)"
    "sk_hpkeEk s' = (if hpke_0_ke_decrypt b \<and> label_of l = LInt (- 4) then map_option (\<lambda>_. True) (sk_hpkeEk s) else sk_hpkeEk s)"
    using skipped_value_spec [OF d1 v] by blast
  have "consumes (sk_ctx s) (entry_bytes (label_of l, t)) (sk_ctx s')"
    using consumes_trans [OF c t(1)] by (simp add: entry_bytes_def)
  with t(2-6) show ?thesis by blast
qed

text \<open>A skipped bucket.\<close>

lemma SkippedHdrAlg_spec:
  assumes d: "dec_ctx (sk_ctx s)" and ok: "wolfCose_DecodeSkippedHdrAlg b s = (WOLFCOSE_SUCCESS, s')"
    and h: "\<not> hpke_0_ke_decrypt b \<longrightarrow> sk_hpkeEk s \<in> {None, Some False}"
  shows "\<exists>es. consumes (sk_ctx s) (bucket_bytes es) (sk_ctx s') \<and> (\<forall>e\<in>set es. tree_wf False (snd e)) \<and>
    alg_among (sk_alg s) es (sk_alg s') \<and>
    sk_algFound s' = (sk_algFound s \<or> LInt 1 \<in> fst ` set es) \<and> (sk_algFound s \<longrightarrow> LInt 1 \<notin> fst ` set es) \<and>
    sk_hpkeEk s' = map_option (\<lambda>_. hpke_0_ke_decrypt b \<and> LInt (- 4) \<in> fst ` set es) (sk_hpkeEk s)"
proof -
  obtain c n x where m: "wc_CBOR_DecodeMapStart b (sk_ctx s) 0 = (WOLFCOSE_SUCCESS, c, n)"
    and run: "repeat_ok n (skipped_pair b) (s\<lparr>sk_ctx := c, sk_hpkeEk := x\<rparr>) = (WOLFCOSE_SUCCESS, s')"
    and x: "x = map_option (\<lambda>_. False) (sk_hpkeEk s)"
    using ok h by (cases s) (auto simp: wolfCose_DecodeSkippedHdrAlg_def Let_def split: prod.splits if_splits)
  note c = consumes_decoders(2) [OF d m]
  note d1 = consumes_dec_ctx [OF d c]
  define P where "P = (\<lambda>es (k :: skipped). consumes c (entries_bytes es) (sk_ctx k) \<and> (\<forall>e\<in>set es. tree_wf False (snd e)) \<and>
    alg_among (sk_alg s) es (sk_alg k) \<and>
    sk_algFound k = (sk_algFound s \<or> LInt 1 \<in> fst ` set es) \<and> (sk_algFound s \<longrightarrow> LInt 1 \<notin> fst ` set es) \<and>
    sk_hpkeEk k = map_option (\<lambda>_. hpke_0_ke_decrypt b \<and> LInt (- 4) \<in> fst ` set es) (sk_hpkeEk s))"
  have "\<exists>es. length es = n \<and> P ([] @ es) s'"
  proof (rule repeat_ok_collect [where P = P, OF _ _ run])
    show "P [] (s\<lparr>sk_ctx := c, sk_hpkeEk := x\<rparr>)" using x by (simp add: P_def)
  next
    fix es k k' assume "P es k" and step: "skipped_pair b k = (WOLFCOSE_SUCCESS, k')"
    then have p: "consumes c (entries_bytes es) (sk_ctx k)" "\<forall>e\<in>set es. tree_wf False (snd e)"
      "alg_among (sk_alg s) es (sk_alg k)" "sk_algFound k = (sk_algFound s \<or> LInt 1 \<in> fst ` set es)"
      "sk_algFound s \<longrightarrow> LInt 1 \<notin> fst ` set es"
      "sk_hpkeEk k = map_option (\<lambda>_. hpke_0_ke_decrypt b \<and> LInt (- 4) \<in> fst ` set es) (sk_hpkeEk s)"
      unfolding P_def by blast+
    obtain l t where e: "consumes (sk_ctx k) (entry_bytes (l, t)) (sk_ctx k')" "tree_wf False t"
      "alg_among (sk_alg k) [(l, t)] (sk_alg k')" "sk_algFound k' = (sk_algFound k \<or> l = LInt 1)"
      "\<not> (sk_algFound k \<and> l = LInt 1)"
      "sk_hpkeEk k' = (if hpke_0_ke_decrypt b \<and> l = LInt (- 4) then map_option (\<lambda>_. True) (sk_hpkeEk k) else sk_hpkeEk k)"
      using skipped_pair_spec [OF consumes_dec_ctx [OF d1 p(1)] step] by blast
    have "alg_among (sk_alg s) (es @ [(l, t)]) (sk_alg k')"
      by (rule alg_among_append [OF p(3) e(3)]) (use p(4) e(5) in auto)
    moreover have "consumes c (entries_bytes (es @ [(l, t)])) (sk_ctx k')"
      using consumes_trans [OF p(1) e(1)] by simp
    moreover have "sk_hpkeEk k' = map_option (\<lambda>_. hpke_0_ke_decrypt b \<and> LInt (- 4) \<in> fst ` set (es @ [(l, t)])) (sk_hpkeEk s)"
      unfolding e(6) p(6) by (cases "sk_hpkeEk s") auto
    ultimately have "P (es @ [(l, t)]) k'" unfolding P_def using p(2,4,5) e(2,4,5) by auto
    then show "\<exists>e. P (es @ [e]) k'" by blast
  qed
  then obtain es where "length es = n" "P es s'" by auto
  then show ?thesis using consumes_trans [OF c] unfolding P_def bucket_bytes_def by blast
qed

section \<open>A skipped entry is a signature or a recipient\<close>

definition skipped_signature :: "u8 list \<Rightarrow> bool" where
  "skipped_signature bs \<longleftrightarrow> (\<exists>prot t sig. tree_wf False t \<and>
     bs = cbor_head 4 3 @ str_bytes 2 prot @ tree_bytes t @ str_bytes 2 sig)"

text \<open>
  The first three fields of a recipient with \<open>n\<close> fields, whose algorithm is \<open>alg\<close>: a recipient
  without one that has an encapsulated key is an HPKE recipient where the build knows these.
\<close>

definition recipient_fields :: "build \<Rightarrow> nat \<Rightarrow> i32 \<Rightarrow> u8 list \<Rightarrow> bool" where
  "recipient_fields b n alg bs \<longleftrightarrow> (\<exists>prot pes ues v a.
     bs = cbor_head 4 n @ str_bytes 2 prot @ bucket_bytes ues @ v \<and>
     (if prot = [] then pes = [] else prot = bucket_bytes pes) \<and>
     (\<forall>e\<in>set (pes @ ues). tree_wf False (snd e)) \<and>
     alg_among WOLFCOSE_ALG_UNSET (pes @ ues) a \<and>
     (if a = WOLFCOSE_ALG_DIRECT then prot = [] \<and> v = str_bytes 2 [] else v = [0xF6] \<or> (\<exists>s. v = str_bytes 2 s)) \<and>
     alg = (if hpke_0_ke_decrypt b \<and> LInt 1 \<notin> fst ` set (pes @ ues) \<and> LInt (- 4) \<in> fst ` set ues
            then WOLFCOSE_ALG_HPKE_0_KE else a))"

lemma bytes_at_0: "bytes_at p 0 = []"
  by (simp add: bytes_at_def split: option.splits)

lemma Entry_array_spec:
  assumes d: "dec_ctx (se_ctx s)" and ok: "entry_array b m s = (WOLFCOSE_SUCCESS, s')"
  shows "\<exists>c n. s' = s\<lparr>se_ctx := c, se_arrayCount := n\<rparr> \<and> 3 \<le> n \<and> n \<le> m \<and> consumes (se_ctx s) (cbor_head 4 n) c"
proof -
  obtain r c n where a: "wc_CBOR_DecodeArrayStart b (se_ctx s) (se_arrayCount s) = (r, c, n)" by (metis prod_cases3)
  then have "r = WOLFCOSE_SUCCESS" "3 \<le> n" "n \<le> m" "s' = s\<lparr>se_ctx := c, se_arrayCount := n\<rparr>"
    using ok by (auto simp: entry_array_def split: if_splits)
  then show ?thesis using consumes_decoders(3) [OF d] a by blast
qed

lemma Entry_protected_spec:
  assumes d: "dec_ctx (se_ctx s)" and ok: "entry_protected b s = (WOLFCOSE_SUCCESS, s')"
  shows "\<exists>c p n. s' = s\<lparr>se_ctx := c, se_protectedData := p, se_protectedLen := n\<rparr> \<and>
    consumes (se_ctx s) (str_bytes 2 (bytes_at p n)) c \<and> length (bytes_at p n) = n \<and> entry_reads s'"
proof -
  obtain r c p n where a: "wc_CBOR_DecodeBstr b (se_ctx s) (se_protectedData s, se_protectedLen s) = (r, c, p, n)"
    by (metis prod_cases4)
  then have ok': "r = WOLFCOSE_SUCCESS" "s' = s\<lparr>se_ctx := c, se_protectedData := p, se_protectedLen := n\<rparr>"
    using ok by (auto simp: entry_protected_def)
  have "entry_reads s'"
    using Bstr_pointer [OF d, of b _ c p n] a ok' by (auto simp: entry_reads_def wc_CBOR_DecodeBstr_def)
  then show ?thesis using consumes_decoders(4) [OF d] a ok' by blast
qed

lemma sub_ctx_all:
  assumes "entry_reads s" "consumes (sub_ctx (se_protectedData s) (se_protectedLen s)) bs c" "ctx_idx c = ctx_bufSz c"
  shows "bytes_at (se_protectedData s) (se_protectedLen s) = bs"
proof -
  let ?c = "sub_ctx (se_protectedData s) (se_protectedLen s)"
  have i: "inp ?c = bytes_at (se_protectedData s) (se_protectedLen s)"
    using assms(1) by (auto simp: entry_reads_def sub_ctx_def inp_def bytes_at_def)
  have "dec_ctx c" by (rule consumes_dec_ctx [OF sub_ctx_ok [OF assms(1)] assms(2)])
  then have "inp c = []" using assms(3) by (metis length_inp diff_self_eq_0 length_0_conv)
  then show ?thesis using assms(2) i by (simp add: consumes_def del: inp_advance)
qed

lemma Entry_protected_alg_spec:
  assumes reads: "entry_reads s" and alg: "se_alg s = Some a" "\<not> se_algFound s"
    and ok: "entry_protected_alg b s = (WOLFCOSE_SUCCESS, s')"
  shows "\<exists>es a'. s' = s\<lparr>se_alg := Some a', se_algFound := (LInt 1 \<in> fst ` set es)\<rparr> \<and>
    (if se_protectedLen s = 0 then es = [] else bytes_at (se_protectedData s) (se_protectedLen s) = bucket_bytes es) \<and>
    (\<forall>e\<in>set es. tree_wf False (snd e)) \<and> alg_among a es a'"
proof (cases "se_protectedLen s = 0")
  case True
  then have "s' = s\<lparr>se_alg := Some a, se_algFound := False\<rparr>"
    using ok alg by (cases s) (auto simp: entry_protected_alg_def)
  then show ?thesis using True by fastforce
next
  case False
  let ?k = "\<lparr> sk_ctx = sub_ctx (se_protectedData s) (se_protectedLen s), sk_alg = a, sk_algFound = se_algFound s, sk_hpkeEk = None \<rparr>"
  obtain ret k where k: "wolfCose_DecodeSkippedHdrAlg b ?k = (ret, k)" by fastforce
  have d: "dec_ctx (sk_ctx ?k)" using sub_ctx_ok [OF reads] by simp
  have E: "entry_protected_alg b s = (if ret \<noteq> WOLFCOSE_SUCCESS then ret
       else if ctx_idx (sk_ctx k) \<noteq> ctx_bufSz (sk_ctx k) then WOLFCOSE_E_CBOR_MALFORMED else WOLFCOSE_SUCCESS,
       s\<lparr>se_ctx := se_ctx (snd (entry_protected_alg b s)), se_alg := Some (sk_alg k), se_algFound := sk_algFound k\<rparr>)"
    using k alg False by (simp add: entry_protected_alg_def sub_ctx_def Let_def)
  then have r: "ret = WOLFCOSE_SUCCESS" "ctx_idx (sk_ctx k) = ctx_bufSz (sk_ctx k)"
    "s' = s\<lparr>se_alg := Some (sk_alg k), se_algFound := sk_algFound k\<rparr>"
    using ok unfolding entry_protected_alg_ctx [OF reads] by (auto split: if_splits)
  obtain es where es: "consumes (sk_ctx ?k) (bucket_bytes es) (sk_ctx k)" "\<forall>e\<in>set es. tree_wf False (snd e)"
    "alg_among a es (sk_alg k)" "sk_algFound k = (LInt 1 \<in> fst ` set es)"
    using SkippedHdrAlg_spec [OF d k [unfolded r(1)]] alg(2) by auto
  have "bytes_at (se_protectedData s) (se_protectedLen s) = bucket_bytes es"
    using sub_ctx_all [OF reads _ r(2)] es(1) by simp
  then show ?thesis using r(3) es(2-4) False by auto
qed

lemma Entry_unprotected_spec:
  assumes d: "dec_ctx (se_ctx s)" and alg: "se_alg s = Some a"
    and ok: "entry_unprotected b s = (WOLFCOSE_SUCCESS, s')"
    and h: "se_hpkeEk s = (if hpke_0_ke_decrypt b then Some False else None)"
  shows "\<exists>c es a'. s' = s\<lparr>se_ctx := c, se_alg := Some a', se_algFound := (se_algFound s \<or> LInt 1 \<in> fst ` set es),
      se_hpkeEk := (if hpke_0_ke_decrypt b then Some (LInt (- 4) \<in> fst ` set es) else None)\<rparr> \<and>
    consumes (se_ctx s) (bucket_bytes es) c \<and> (\<forall>e\<in>set es. tree_wf False (snd e)) \<and> alg_among a es a' \<and>
    (se_algFound s \<longrightarrow> LInt 1 \<notin> fst ` set es)"
proof -
  let ?k = "\<lparr> sk_ctx = se_ctx s, sk_alg = a, sk_algFound = se_algFound s, sk_hpkeEk = se_hpkeEk s \<rparr>"
  obtain k where k: "wolfCose_DecodeSkippedHdrAlg b ?k = (WOLFCOSE_SUCCESS, k)"
    "s' = s\<lparr>se_ctx := sk_ctx k, se_alg := Some (sk_alg k), se_algFound := sk_algFound k, se_hpkeEk := sk_hpkeEk k\<rparr>"
    using ok alg by (auto simp: entry_unprotected_def split: prod.splits)
  obtain es where es: "consumes (se_ctx s) (bucket_bytes es) (sk_ctx k)" "\<forall>e\<in>set es. tree_wf False (snd e)"
    "alg_among a es (sk_alg k)" "sk_algFound k = (se_algFound s \<or> LInt 1 \<in> fst ` set es)"
    "se_algFound s \<longrightarrow> LInt 1 \<notin> fst ` set es"
    "sk_hpkeEk k = map_option (\<lambda>_. hpke_0_ke_decrypt b \<and> LInt (- 4) \<in> fst ` set es) (se_hpkeEk s)"
    using SkippedHdrAlg_spec [of ?k b k] d k(1) h by auto
  then show ?thesis unfolding k(2) h by (intro exI [of _ "sk_ctx k"] exI [of _ es] exI [of _ "sk_alg k"]) simp
qed

lemma Entry_value_spec:
  assumes d: "dec_ctx (se_ctx s)" and ok: "entry_value b sig s = (WOLFCOSE_SUCCESS, s')"
  shows "\<exists>c v. s' = s\<lparr>se_ctx := c\<rparr> \<and> consumes (se_ctx s) v c \<and>
    (if sig then \<exists>x. v = str_bytes 2 x
     else if se_alg s = Some WOLFCOSE_ALG_DIRECT then v = str_bytes 2 []
     else v = [0xF6] \<or> (\<exists>x. v = str_bytes 2 x))"
proof -
  have bstr: ?thesis if "\<not> (\<not> sig \<and> se_alg s = Some WOLFCOSE_ALG_DIRECT)"
    "wc_CBOR_DecodeBstr b (se_ctx s) (None, 0) = (WOLFCOSE_SUCCESS, c, p, n)" "s' = s\<lparr>se_ctx := c\<rparr>" for c p n
    using consumes_decoders(4) [OF d that(2)] that(1,3) by auto
  consider "sig" | "\<not> sig" "se_alg s = Some WOLFCOSE_ALG_DIRECT"
    | "\<not> sig" "se_alg s \<noteq> Some WOLFCOSE_ALG_DIRECT" "next_is_null (se_ctx s)"
    | "\<not> sig" "se_alg s \<noteq> Some WOLFCOSE_ALG_DIRECT" "\<not> next_is_null (se_ctx s)" by blast
  then show ?thesis
  proof cases
    case 1
    then show ?thesis using ok bstr by (auto simp: entry_value_def Let_def split: prod.splits)
  next
    case 2
    then obtain c item where h: "wolfCose_CBOR_DecodeHead_ex b (se_ctx s) local_item 0 = (WOLFCOSE_SUCCESS, c, item)"
      "item_majorType item = 2" "item_dataLen item = 0" "s' = s\<lparr>se_ctx := c\<rparr>"
      using ok by (auto simp: entry_value_def wolfCose_CBOR_DecodeHead_def Let_def split: prod.splits if_splits)
    obtain p n where "wolfCose_CBOR_DecodeBstr_ex b (se_ctx s) (None, 0) 0 = (WOLFCOSE_SUCCESS, c, p, n)" "n = 0"
      using h by (simp add: wolfCose_CBOR_DecodeBstr_ex_def wolfCose_CBOR_DecodeBytes_ex_def)
    then have "consumes (se_ctx s) (str_bytes 2 []) c"
      using consumes_decoders(4) [OF d, of b "(None, 0)" c p n] by (simp add: wc_CBOR_DecodeBstr_def bytes_at_0)
    then show ?thesis using 2 h(4) by auto
  next
    case 3
    then have "s' = s\<lparr>se_ctx := advance (se_ctx s) 1\<rparr>" using ok by (simp add: entry_value_def Let_def advance_1)
    then show ?thesis using 3 consumes_decoders(6) [OF d 3(3)] by auto
  next
    case 4
    then show ?thesis using ok bstr by (auto simp: entry_value_def Let_def split: prod.splits)
  qed
qed

lemma Entry_stages:
  assumes "wolfCose_DecodeSkippedHeaderEntry b c m alg sig fo hk = (WOLFCOSE_SUCCESS, e)"
  obtains s1 s2 s3 s4 s5 where
    "entry_array b m \<lparr> se_ctx = c, se_arrayCount = 0, se_alg = map_option (\<lambda>_. WOLFCOSE_ALG_UNSET) alg,
                se_algFound = False, se_algFoundOut = map_option (\<lambda>_. False) fo,
                se_hpkeEk = (if hpke_0_ke_decrypt b then map_option (\<lambda>_. False) hk else hk),
                se_protectedData = None, se_protectedLen = 0 \<rparr> = (WOLFCOSE_SUCCESS, s1)"
    "entry_protected b s1 = (WOLFCOSE_SUCCESS, s2)" "entry_protected_alg b s2 = (WOLFCOSE_SUCCESS, s3)"
    "entry_unprotected b s3 = (WOLFCOSE_SUCCESS, s4)" "entry_direct s4 = (WOLFCOSE_SUCCESS, s5)"
    "entry_value b sig s5 = (WOLFCOSE_SUCCESS, e)"
  using assms unfolding wolfCose_DecodeSkippedHeaderEntry_def Let_def on_success_eq_success by blast

lemma Entry_recipient:
  assumes d: "dec_ctx c"
    and run: "wolfCose_DecodeSkippedHeaderEntry b c 4 (Some WOLFCOSE_ALG_UNSET) False (Some False)
       (if hpke_0_ke_decrypt b then Some False else None) = (WOLFCOSE_SUCCESS, e)"
  shows "\<exists>bs. consumes c bs (se_ctx e) \<and> recipient_fields b (se_arrayCount e) (recipient_alg b e) bs \<and>
    3 \<le> se_arrayCount e \<and> se_arrayCount e \<le> 4"
proof -
  obtain s1 s2 s3 s4 s5 where st: "entry_array b 4 \<lparr> se_ctx = c, se_arrayCount = 0, se_alg = Some WOLFCOSE_ALG_UNSET,
                se_algFound = False, se_algFoundOut = Some False,
                se_hpkeEk = (if hpke_0_ke_decrypt b then Some False else None),
                se_protectedData = None, se_protectedLen = 0 \<rparr> = (WOLFCOSE_SUCCESS, s1)"
    "entry_protected b s1 = (WOLFCOSE_SUCCESS, s2)" "entry_protected_alg b s2 = (WOLFCOSE_SUCCESS, s3)"
    "entry_unprotected b s3 = (WOLFCOSE_SUCCESS, s4)" "entry_direct s4 = (WOLFCOSE_SUCCESS, s5)"
    "entry_value b False s5 = (WOLFCOSE_SUCCESS, e)"
    by (rule Entry_stages [OF run]) (simp split: if_splits)
  obtain c1 n where 1: "s1 = \<lparr> se_ctx = c1, se_arrayCount = n, se_alg = Some WOLFCOSE_ALG_UNSET,
                se_algFound = False, se_algFoundOut = Some False,
                se_hpkeEk = (if hpke_0_ke_decrypt b then Some False else None),
                se_protectedData = None, se_protectedLen = 0 \<rparr>"
    "3 \<le> n" "n \<le> 4" "consumes c (cbor_head 4 n) c1"
    using Entry_array_spec [OF _ st(1)] d by auto
  have d1: "dec_ctx (se_ctx s1)" using consumes_dec_ctx [OF d 1(4)] by (simp add: 1(1))
  obtain c2 p k where 2: "s2 = s1\<lparr>se_ctx := c2, se_protectedData := p, se_protectedLen := k\<rparr>"
    "consumes c1 (str_bytes 2 (bytes_at p k)) c2" "length (bytes_at p k) = k" "entry_reads s2"
    using Entry_protected_spec [OF d1 st(2)] by (auto simp: 1(1))
  have d2: "dec_ctx c2" using consumes_dec_ctx [OF _ 2(2)] d1 by (simp add: 1(1))
  have a2: "se_alg s2 = Some WOLFCOSE_ALG_UNSET" "\<not> se_algFound s2" by (simp_all add: 1(1) 2(1))
  obtain pes a where 3: "s3 = s2\<lparr>se_alg := Some a, se_algFound := (LInt 1 \<in> fst ` set pes)\<rparr>"
    "if se_protectedLen s2 = 0 then pes = [] else bytes_at (se_protectedData s2) (se_protectedLen s2) = bucket_bytes pes"
    "\<forall>e\<in>set pes. tree_wf False (snd e)" "alg_among WOLFCOSE_ALG_UNSET pes a"
    using Entry_protected_alg_spec [OF 2(4) a2 st(3)] by blast
  have d3: "dec_ctx (se_ctx s3)" "se_alg s3 = Some a"
    "se_hpkeEk s3 = (if hpke_0_ke_decrypt b then Some False else None)" using d2 by (simp_all add: 1(1) 2(1) 3(1))
  obtain c4 ues a' where 4: "s4 = s3\<lparr>se_ctx := c4, se_alg := Some a', se_algFound := (se_algFound s3 \<or> LInt 1 \<in> fst ` set ues),
      se_hpkeEk := (if hpke_0_ke_decrypt b then Some (LInt (- 4) \<in> fst ` set ues) else None)\<rparr>"
    "consumes c2 (bucket_bytes ues) c4" "\<forall>e\<in>set ues. tree_wf False (snd e)" "alg_among a ues a'"
    "se_algFound s3 \<longrightarrow> LInt 1 \<notin> fst ` set ues"
    using Entry_unprotected_spec [OF d3(1,2) st(4) d3(3)] by (auto simp: 2(1) 3(1))
  have d4: "dec_ctx c4" by (rule consumes_dec_ctx [OF d2 4(2)])
  have found: "LInt 1 \<in> fst ` set pes \<longrightarrow> LInt 1 \<notin> fst ` set ues" using 4(5) by (simp add: 3(1))
  have 5: "s5 = s4\<lparr>se_algFoundOut := Some (LInt 1 \<in> fst ` set (pes @ ues))\<rparr>"
    "\<not> (a' = WOLFCOSE_ALG_DIRECT \<and> k \<noteq> 0)"
    using st(5) by (auto simp: entry_direct_def 1(1) 2(1) 3(1) 4(1) image_Un split: if_splits)
  obtain c6 v where 6: "e = s5\<lparr>se_ctx := c6\<rparr>" "consumes c4 v c6"
    "if a' = WOLFCOSE_ALG_DIRECT then v = str_bytes 2 [] else v = [0xF6] \<or> (\<exists>x. v = str_bytes 2 x)"
    using Entry_value_spec [OF _ st(6)] d4 by (auto simp: 4(1) 5(1))
  let ?bs = "cbor_head 4 n @ str_bytes 2 (bytes_at p k) @ bucket_bytes ues @ v"
  have "consumes c ?bs c6"
    using consumes_trans [OF 1(4) consumes_trans [OF 2(2) consumes_trans [OF 4(2) 6(2)]]] .
  moreover have "recipient_fields b n (recipient_alg b e) ?bs"
    unfolding recipient_fields_def
  proof (rule exI [of _ "bytes_at p k"], rule exI [of _ pes], rule exI [of _ ues], rule exI [of _ v],
      rule exI [of _ a'], intro conjI)
    show "if bytes_at p k = [] then pes = [] else bytes_at p k = bucket_bytes pes"
      using 3(2) 2(3) by (auto simp: 2(1) split: if_splits)
    show "alg_among WOLFCOSE_ALG_UNSET (pes @ ues) a'" by (rule alg_among_append [OF 3(4) 4(4) found])
    show "if a' = WOLFCOSE_ALG_DIRECT then bytes_at p k = [] \<and> v = str_bytes 2 [] else v = [0xF6] \<or> (\<exists>s. v = str_bytes 2 s)"
      using 6(3) 5(2) 2(3) by (auto simp: bytes_at_0)
    show "recipient_alg b e = (if hpke_0_ke_decrypt b \<and> LInt 1 \<notin> fst ` set (pes @ ues) \<and> LInt (- 4) \<in> fst ` set ues
            then WOLFCOSE_ALG_HPKE_0_KE else a')"
      by (simp add: recipient_alg_def 1(1) 2(1) 3(1) 4(1) 5(1) 6(1))
  qed (use 3(3) 4(3) in auto)
  ultimately show ?thesis using 1(2,3) by (auto simp: 1(1) 2(1) 3(1) 4(1) 5(1) 6(1))
qed

lemma Skipped_signature:
  assumes d: "dec_ctx c" and ok: "wolfCose_DecodeSkippedSignature b c = (WOLFCOSE_SUCCESS, c')"
  shows "\<exists>bs. consumes c bs c' \<and> skipped_signature bs"
proof -
  obtain e where run: "wolfCose_DecodeSkippedHeaderEntry b c 3 None True None None = (WOLFCOSE_SUCCESS, e)" "c' = se_ctx e"
    using ok by (auto simp: wolfCose_DecodeSkippedSignature_def split: prod.splits)
  obtain s1 s2 s3 s4 s5 where st: "entry_array b 3 \<lparr> se_ctx = c, se_arrayCount = 0, se_alg = None,
                se_algFound = False, se_algFoundOut = None, se_hpkeEk = None,
                se_protectedData = None, se_protectedLen = 0 \<rparr> = (WOLFCOSE_SUCCESS, s1)"
    "entry_protected b s1 = (WOLFCOSE_SUCCESS, s2)" "entry_protected_alg b s2 = (WOLFCOSE_SUCCESS, s3)"
    "entry_unprotected b s3 = (WOLFCOSE_SUCCESS, s4)" "entry_direct s4 = (WOLFCOSE_SUCCESS, s5)"
    "entry_value b True s5 = (WOLFCOSE_SUCCESS, e)"
    by (rule Entry_stages [OF run(1)]) (simp split: if_splits)
  obtain c1 where 1: "s1 = \<lparr> se_ctx = c1, se_arrayCount = 3, se_alg = None, se_algFound = False, se_algFoundOut = None,
                se_hpkeEk = None, se_protectedData = None, se_protectedLen = 0 \<rparr>" "consumes c (cbor_head 4 3) c1"
    using Entry_array_spec [OF _ st(1)] d by (auto dest: le_antisym)
  have d1: "dec_ctx (se_ctx s1)" using consumes_dec_ctx [OF d 1(2)] by (simp add: 1(1))
  obtain c2 p k where 2: "s2 = s1\<lparr>se_ctx := c2, se_protectedData := p, se_protectedLen := k\<rparr>"
    "consumes c1 (str_bytes 2 (bytes_at p k)) c2"
    using Entry_protected_spec [OF d1 st(2)] by (auto simp: 1(1))
  have d2: "dec_ctx c2" using consumes_dec_ctx [OF _ 2(2)] d1 by (simp add: 1(1))
  have 3: "s3 = s2" using st(3) by (simp add: entry_protected_alg_def 1(1) 2(1))
  obtain c4 where 4: "s4 = s3\<lparr>se_ctx := c4\<rparr>" "wc_CBOR_Skip b c2 = (WOLFCOSE_SUCCESS, c4)"
    using st(4) by (auto simp: entry_unprotected_def 1(1) 2(1) 3 split: prod.splits)
  obtain t where t: "consumes c2 (tree_bytes t) c4" "tree_wf False t" using consumes_decoders(5) [OF d2 4(2)] by blast
  have 5: "se_ctx s5 = c4" using st(5) by (auto simp: entry_direct_def 4(1) split: if_splits)
  have d5: "dec_ctx (se_ctx s5)" using consumes_dec_ctx [OF d2 t(1)] 5 by simp
  obtain v where 6: "consumes c4 (str_bytes 2 v) (se_ctx e)"
    using Entry_value_spec [OF d5 st(6)] 5 by auto
  show ?thesis
    using consumes_trans [OF 1(2) consumes_trans [OF 2(2) consumes_trans [OF t(1) 6]]] t(2)
    unfolding run(2) skipped_signature_def by blast
qed

section \<open>A recipient with its nested recipients\<close>

inductive recipient_item :: "build \<Rightarrow> nat \<Rightarrow> i32 \<Rightarrow> u8 list \<Rightarrow> bool" for b where
  flat: "recipient_fields b 3 alg bs \<Longrightarrow> recipient_item b d alg bs"
| nested: "recipient_fields b 4 alg bs \<Longrightarrow> alg \<noteq> WOLFCOSE_ALG_DIRECT \<Longrightarrow> rs \<noteq> [] \<Longrightarrow>
     \<forall>r\<in>set rs. \<exists>a. recipient_item b d a r \<Longrightarrow>
     recipient_item b (Suc d) alg (bs @ cbor_head 4 (length rs) @ concat rs)"

text \<open>As \<open>levels\<close> in \<open>Cbor_Skip\<close>, with recipients in place of items.\<close>

fun rcpt_levels :: "build \<Rightarrow> nat \<Rightarrow> nat list \<Rightarrow> u8 list \<Rightarrow> bool" where
  "rcpt_levels b d [] bs \<longleftrightarrow> bs = []"
| "rcpt_levels b d (n # ns) bs \<longleftrightarrow> (\<exists>rs bs'. length rs = n \<and> bs = concat rs @ bs' \<and>
     (\<forall>r\<in>set rs. \<exists>a. recipient_item b d a r) \<and> rcpt_levels b (Suc d) ns bs')"

lemma rcpt_levels_0: "rcpt_levels b d (0 # ns) bs \<longleftrightarrow> rcpt_levels b (Suc d) ns bs"
  by simp

lemma rcpt_levels_Suc:
  "rcpt_levels b d (n # ns) bs \<Longrightarrow> recipient_item b d a r \<Longrightarrow> rcpt_levels b d (Suc n # ns) (r @ bs)"
  by (simp, elim exE conjE) (rule exI [of _ "r # _"], auto)

lemma rcpt_levels_unwind:
  assumes "unwind r st = (r', st')" "length st \<le> m" "rcpt_levels b (m - length st') (r' # st') bs"
  shows "rcpt_levels b (m - length st) (r # st) bs"
  using assms
proof (induction r st rule: unwind.induct)
  case (2 r s st)
  show ?case
  proof (cases "r = 0")
    case True
    then have "rcpt_levels b (m - length st) (s # st) bs" using 2 by simp
    moreover have "Suc (m - length (s # st)) = m - length st" using 2(3) by simp
    ultimately show ?thesis using True by (simp only: rcpt_levels_0)
  next
    case False
    then show ?thesis using 2 by simp
  qed
qed simp

text \<open>What a successful round has read and how it leaves the counters.\<close>

lemma Round_spec:
  assumes d: "dec_ctx (sr_ctx s)" and ok: "recipient_round b s = (WOLFCOSE_SUCCESS, s')"
  shows "\<exists>alg bs n st. sr_alg s' = (if sr_first s then alg else sr_alg s) \<and> \<not> sr_first s' \<and>
    unwind n st = (sr_remaining s', sr_stack s') \<and>
    (recipient_fields b 3 alg bs \<and> consumes (sr_ctx s) bs (sr_ctx s') \<and> n = sr_remaining s - 1 \<and> st = sr_stack s \<or>
     recipient_fields b 4 alg bs \<and> alg \<noteq> WOLFCOSE_ALG_DIRECT \<and> consumes (sr_ctx s) (bs @ cbor_head 4 n) (sr_ctx s') \<and>
     n \<noteq> 0 \<and> st = (sr_remaining s - 1) # sr_stack s \<and> length (sr_stack s) < cbor_max_depth b)"
proof -
  obtain e where e: "wolfCose_DecodeSkippedHeaderEntry b (sr_ctx s) 4 (Some WOLFCOSE_ALG_UNSET) False (Some False)
      (if hpke_0_ke_decrypt b then Some False else None) = (WOLFCOSE_SUCCESS, e)"
    using ok by (auto simp: recipient_round_def Let_def split: prod.splits if_splits)
  obtain bs where bs: "consumes (sr_ctx s) bs (se_ctx e)" "recipient_fields b (se_arrayCount e) (recipient_alg b e) bs"
    "3 \<le> se_arrayCount e" "se_arrayCount e \<le> 4" using Entry_recipient [OF d e] by blast
  let ?s = "s\<lparr>sr_ctx := se_ctx e, sr_remaining := sr_remaining s - 1,
      sr_alg := (if sr_first s then recipient_alg b e else sr_alg s), sr_first := False\<rparr>"
  have s1: "(if sr_first (s\<lparr>sr_ctx := se_ctx e, sr_remaining := sr_remaining s - 1\<rparr>) then s\<lparr>sr_ctx := se_ctx e, sr_remaining := sr_remaining s - 1, sr_alg := recipient_alg b e, sr_first := False\<rparr>
      else s\<lparr>sr_ctx := se_ctx e, sr_remaining := sr_remaining s - 1\<rparr>) = ?s"
    by (cases s) simp
  have dir: "\<not> (se_arrayCount e = 4 \<and> recipient_alg b e = WOLFCOSE_ALG_DIRECT)"
    using ok e by (auto simp: recipient_round_def Let_def split: if_splits)
  let ?u = "\<lambda>s. case unwind (sr_remaining s) (sr_stack s) of (n, st) \<Rightarrow> (WOLFCOSE_SUCCESS, s\<lparr>sr_remaining := n, sr_stack := st\<rparr>)"
  have R: "on_success (if se_arrayCount e = 4 then nested_recipients b ?s else (WOLFCOSE_SUCCESS, ?s)) ?u = (WOLFCOSE_SUCCESS, s')"
    using ok unfolding recipient_round_def Let_def e prod.case s1 by (simp only: dir if_False simp_thms)
  show ?thesis
  proof (cases "se_arrayCount e = 4")
    case False
    then have "recipient_fields b 3 (recipient_alg b e) bs" using bs(2-4) by (cases "se_arrayCount e = 3") auto
    then show ?thesis
      using R False bs(1)
      by (intro exI [of _ "recipient_alg b e"] exI [of _ bs] exI [of _ "sr_remaining s - 1"] exI [of _ "sr_stack s"])
        (auto split: prod.splits)
  next
    case True
    then obtain c n where n: "wc_CBOR_DecodeArrayStart b (se_ctx e) 0 = (WOLFCOSE_SUCCESS, c, n)" "n \<noteq> 0"
      "length (sr_stack s) < cbor_max_depth b"
      "?u (?s\<lparr>sr_ctx := c, sr_stack := (sr_remaining s - 1) # sr_stack s, sr_remaining := n\<rparr>) = (WOLFCOSE_SUCCESS, s')"
      using R by (auto simp: nested_recipients_def on_success_def Let_def split: prod.splits if_splits)
    have "consumes (sr_ctx s) (bs @ cbor_head 4 n) c"
      by (rule consumes_trans [OF bs(1) consumes_decoders(3) [OF consumes_dec_ctx [OF d bs(1)] n(1)]])
    then show ?thesis
      using n(2-4) True bs(2) dir
      by (intro exI [of _ "recipient_alg b e"] exI [of _ bs] exI [of _ n] exI [of _ "(sr_remaining s - 1) # sr_stack s"])
        (auto split: prod.splits)
  qed
qed

lemma rcpt_levels_round:
  assumes d: "dec_ctx (sr_ctx s)" and ok: "recipient_round b s = (WOLFCOSE_SUCCESS, s')"
    and st: "length (sr_stack s) \<le> cbor_max_depth b" "sr_remaining s = Suc k"
    and lv: "rcpt_levels b (cbor_max_depth b - length (sr_stack s')) (sr_remaining s' # sr_stack s') bs"
  shows "\<exists>hd. consumes (sr_ctx s) hd (sr_ctx s') \<and>
    rcpt_levels b (cbor_max_depth b - length (sr_stack s)) (Suc k # sr_stack s) (hd @ bs)"
proof -
  let ?m = "cbor_max_depth b" and ?d = "cbor_max_depth b - length (sr_stack s)"
  obtain alg fb n st where u: "unwind n st = (sr_remaining s', sr_stack s')"
    and r: "recipient_fields b 3 alg fb \<and> consumes (sr_ctx s) fb (sr_ctx s') \<and> n = k \<and> st = sr_stack s \<or>
     recipient_fields b 4 alg fb \<and> alg \<noteq> WOLFCOSE_ALG_DIRECT \<and> consumes (sr_ctx s) (fb @ cbor_head 4 n) (sr_ctx s') \<and>
     n \<noteq> 0 \<and> st = k # sr_stack s \<and> length (sr_stack s) < ?m"
    using Round_spec [OF d ok] st(2) by auto
  from r show ?thesis
  proof (elim disjE conjE)
    assume f: "recipient_fields b 3 alg fb" and c: "consumes (sr_ctx s) fb (sr_ctx s')" and n: "n = k" "st = sr_stack s"
    have "rcpt_levels b ?d (k # sr_stack s) bs" using rcpt_levels_unwind [OF u [unfolded n] st(1) lv] .
    from rcpt_levels_Suc [OF this recipient_item.flat [OF f]] c show ?thesis by blast
  next
    assume f: "recipient_fields b 4 alg fb" "alg \<noteq> WOLFCOSE_ALG_DIRECT" "n \<noteq> 0"
      and c: "consumes (sr_ctx s) (fb @ cbor_head 4 n) (sr_ctx s')" and n: "st = k # sr_stack s" "length (sr_stack s) < ?m"
    obtain D where D: "?d = Suc D" "?m - length (k # sr_stack s) = D" using n by (cases ?d) auto
    have "length st \<le> ?m" using n by simp
    from rcpt_levels_unwind [OF u this lv] have "rcpt_levels b D (n # k # sr_stack s) bs" unfolding n(1) D(2) .
    then obtain rs bs' where rs: "length rs = n" "bs = concat rs @ bs'" "\<forall>r\<in>set rs. \<exists>a. recipient_item b D a r"
      "rcpt_levels b (Suc D) (k # sr_stack s) bs'" unfolding rcpt_levels.simps(2) [of b D] by blast
    have "rs \<noteq> []" using rs(1) f(3) by auto
    from recipient_item.nested [OF f(1,2) this rs(3)] have "recipient_item b (Suc D) alg (fb @ cbor_head 4 n @ concat rs)"
      by (simp add: rs(1))
    from rcpt_levels_Suc [OF rs(4) this] have "rcpt_levels b ?d (Suc k # sr_stack s) ((fb @ cbor_head 4 n) @ bs)"
      by (simp add: D(1) rs(2) del: rcpt_levels.simps)
    with c show ?thesis by blast
  qed
qed

lemma round_stack:
  assumes "dec_ctx (sr_ctx s)" "recipient_round b s = (WOLFCOSE_SUCCESS, s')" "length (sr_stack s) \<le> cbor_max_depth b"
  shows "length (sr_stack s') \<le> cbor_max_depth b" "sr_remaining s' = 0 \<longrightarrow> sr_stack s' = []" "dec_ctx (sr_ctx s')"
proof -
  obtain n st where "unwind n st = (sr_remaining s', sr_stack s')"
    "st = sr_stack s \<or> st = (sr_remaining s - 1) # sr_stack s \<and> length (sr_stack s) < cbor_max_depth b"
    using Round_spec [OF assms(1,2)] by blast
  then have u: "unwind n st = (sr_remaining s', sr_stack s')" "length st \<le> cbor_max_depth b" using assms(3) by auto
  then show "length (sr_stack s') \<le> cbor_max_depth b" using unwind_length by fastforce
  show "sr_remaining s' = 0 \<longrightarrow> sr_stack s' = []"
    using u(1) by (induction n st rule: unwind.induct) (auto split: if_splits)
  show "dec_ctx (sr_ctx s')" using Round_moves [OF assms(1), of b] moves_dec_ctx [OF assms(1)] assms(2) by simp
qed

lemma recipient_loop_levels:
  assumes "recipient_loop b s = (WOLFCOSE_SUCCESS, s')" "dec_ctx (sr_ctx s)"
    "length (sr_stack s) \<le> cbor_max_depth b" "sr_remaining s = 0 \<longrightarrow> sr_stack s = []" "\<not> sr_first s"
  shows "\<exists>bs. consumes (sr_ctx s) bs (sr_ctx s') \<and> sr_alg s' = sr_alg s \<and>
    rcpt_levels b (cbor_max_depth b - length (sr_stack s)) (sr_remaining s # sr_stack s) bs"
  using assms
proof (induction b s rule: recipient_loop.induct)
  case (1 b s)
  show ?case
  proof (cases "sr_remaining s")
    case 0
    then have "s' = s" using 1(2) by (subst (asm) recipient_loop.simps) simp
    then show ?thesis using 0 1(5) by (intro exI [of _ "[]"]) simp
  next
    case (Suc k)
    obtain s1 where r: "recipient_round b s = (WOLFCOSE_SUCCESS, s1)" "recipient_loop b s1 = (WOLFCOSE_SUCCESS, s')"
      using 1(2) Suc by (subst (asm) recipient_loop.simps) (auto split: prod.splits if_splits)
    note st = round_stack [OF 1(3) r(1) 1(4)]
    have f: "\<not> sr_first s1" "sr_alg s1 = sr_alg s" using Round_spec [OF 1(3) r(1)] 1(6) by auto
    have p: "0 < sr_remaining s" using Suc by simp
    obtain bs where bs: "consumes (sr_ctx s1) bs (sr_ctx s')" "sr_alg s' = sr_alg s1"
      "rcpt_levels b (cbor_max_depth b - length (sr_stack s1)) (sr_remaining s1 # sr_stack s1) bs"
      using "1.IH" [OF p r(1) [symmetric] _ r(2) st(3,1,2) f(1)] by auto
    obtain hd where "consumes (sr_ctx s) hd (sr_ctx s1)"
      "rcpt_levels b (cbor_max_depth b - length (sr_stack s)) (Suc k # sr_stack s) (hd @ bs)"
      using rcpt_levels_round [OF 1(3) r(1) 1(4) Suc bs(3)] by blast
    then show ?thesis using consumes_trans bs(1,2) f(2) Suc by metis
  qed
qed

lemma Skipped_recipient:
  assumes d: "dec_ctx c" and m: "0 < cbor_max_depth b"
    and ok: "wolfCose_DecodeSkippedRecipient b c a0 = (WOLFCOSE_SUCCESS, c', alg)"
  shows "\<exists>bs. consumes c bs c' \<and> recipient_item b (cbor_max_depth b) alg bs"
proof -
  let ?s = "\<lparr> sr_ctx = c, sr_remaining = 1, sr_stack = [], sr_first = True, sr_alg = WOLFCOSE_ALG_UNSET \<rparr>"
  obtain s' where run: "recipient_loop b ?s = (WOLFCOSE_SUCCESS, s')" "c' = sr_ctx s'" "alg = sr_alg s'"
    using ok by (auto simp: wolfCose_DecodeSkippedRecipient_def split: prod.splits)
  obtain s1 where r: "recipient_round b ?s = (WOLFCOSE_SUCCESS, s1)" "recipient_loop b s1 = (WOLFCOSE_SUCCESS, s')"
    using run(1) by (subst (asm) recipient_loop.simps) (auto split: prod.splits if_splits)
  have d0: "dec_ctx (sr_ctx ?s)" "length (sr_stack ?s) \<le> cbor_max_depth b" using d by simp_all
  note st = round_stack [OF d0(1) r(1) d0(2)]
  obtain a fb n stk where R: "sr_alg s1 = a" "\<not> sr_first s1" "unwind n stk = (sr_remaining s1, sr_stack s1)"
    "recipient_fields b 3 a fb \<and> consumes c fb (sr_ctx s1) \<and> n = 0 \<and> stk = [] \<or>
     recipient_fields b 4 a fb \<and> a \<noteq> WOLFCOSE_ALG_DIRECT \<and> consumes c (fb @ cbor_head 4 n) (sr_ctx s1) \<and>
     n \<noteq> 0 \<and> stk = [0]"
    using Round_spec [OF d0(1) r(1)] by auto
  obtain bs where bs: "consumes (sr_ctx s1) bs (sr_ctx s')" "sr_alg s' = a"
    "rcpt_levels b (cbor_max_depth b - length (sr_stack s1)) (sr_remaining s1 # sr_stack s1) bs"
    using recipient_loop_levels [OF r(2) st(3,1,2) R(2)] R(1) by auto
  from R(4) show ?thesis
  proof (elim disjE conjE)
    assume f: "recipient_fields b 3 a fb" "consumes c fb (sr_ctx s1)" "n = 0" "stk = []"
    then have "bs = []" using bs(3) R(3) by simp
    with consumes_trans [OF f(2) bs(1)] have "consumes c fb c'" by (simp add: run(2))
    then show ?thesis using recipient_item.flat [OF f(1)] bs(2) run(3) by blast
  next
    assume f: "recipient_fields b 4 a fb" "a \<noteq> WOLFCOSE_ALG_DIRECT" "consumes c (fb @ cbor_head 4 n) (sr_ctx s1)" "n \<noteq> 0" "stk = [0]"
    then have s1: "sr_remaining s1 = n" "sr_stack s1 = [0]" using R(3) by auto
    obtain D where D: "cbor_max_depth b = Suc D" using m by (cases "cbor_max_depth b") auto
    have "rcpt_levels b D (n # [0]) bs" using bs(3) by (simp add: s1 D del: rcpt_levels.simps)
    then obtain rs bs' where rs': "length rs = n" "bs = concat rs @ bs'" "\<forall>r\<in>set rs. \<exists>a. recipient_item b D a r"
      "rcpt_levels b (Suc D) [0] bs'" unfolding rcpt_levels.simps(2) [of b D] by blast
    then have rs: "length rs = n" "bs = concat rs" "\<forall>r\<in>set rs. \<exists>a. recipient_item b D a r" by auto
    have "rs \<noteq> []" using rs(1) f(4) by auto
    from recipient_item.nested [OF f(1,2) this rs(3)] have "recipient_item b (Suc D) a ((fb @ cbor_head 4 n) @ bs)"
      by (simp add: rs(1,2))
    then show ?thesis using consumes_trans [OF f(3) bs(1)] bs(2) run(2,3) D by auto
  qed
qed

section \<open>The number of rounds\<close>

definition recipient_step :: "build \<Rightarrow> skip_rcpt \<Rightarrow> skip_rcpt \<Rightarrow> bool" where
  "recipient_step b s s' \<longleftrightarrow> 0 < sr_remaining s \<and> recipient_round b s = (WOLFCOSE_SUCCESS, s')"

lemma consumes_length: "consumes c bs d \<Longrightarrow> length (inp c) = length bs + length (inp d)"
  unfolding consumes_def by (metis length_append)

lemma length_cbor_head_pos: "1 \<le> length (cbor_head mt n)"
  by (simp add: cbor_head_bytes)

lemma recipient_fields_length: "recipient_fields b n alg bs \<Longrightarrow> 4 \<le> length bs"
proof -
  assume "recipient_fields b n alg bs"
  then obtain prot ues v where bs: "bs = cbor_head 4 n @ str_bytes 2 prot @ bucket_bytes ues @ v"
    and v: "v = [0xF6] \<or> (\<exists>s. v = str_bytes 2 s)" unfolding recipient_fields_def by metis
  have "1 \<le> length (str_bytes 2 s)" for s using length_cbor_head_pos [of 2 "length s"] by (simp add: str_bytes_def)
  note str = this
  have "1 \<le> length v" using v str by auto
  moreover have "1 \<le> length (bucket_bytes ues)" using length_cbor_head_pos [of 5 "length ues"] by (simp add: bucket_bytes_def)
  moreover note str [of prot] length_cbor_head_pos [of 4 n]
  ultimately show ?thesis unfolding bs length_append by linarith
qed

lemma round_length:
  assumes d: "dec_ctx (sr_ctx s)" and ok: "recipient_round b s = (WOLFCOSE_SUCCESS, s')"
  shows "4 + length (inp (sr_ctx s')) \<le> length (inp (sr_ctx s))"
proof -
  obtain alg bs hd where h: "4 \<le> length bs" "consumes (sr_ctx s) (bs @ hd) (sr_ctx s')"
    using Round_spec [OF d ok] recipient_fields_length by (metis append_Nil2)
  from consumes_length [OF h(2)] h(1) show ?thesis by simp
qed

lemma rounds_safe:
  "(recipient_step b ^^ n) s s' \<Longrightarrow> dec_ctx (sr_ctx s) \<Longrightarrow> length (sr_stack s) \<le> cbor_max_depth b \<Longrightarrow>
   4 * n + length (inp (sr_ctx s')) \<le> length (inp (sr_ctx s)) \<and> moves (sr_ctx s') (sr_ctx (snd (recipient_round b s')))"
proof (induction n arbitrary: s)
  case (Suc n)
  then obtain s1 where s1: "recipient_step b s s1" "(recipient_step b ^^ n) s1 s'"
    by (metis relpowp_Suc_E2)
  then have ok: "recipient_round b s = (WOLFCOSE_SUCCESS, s1)" by (simp add: recipient_step_def)
  note st = round_stack [OF Suc.prems(2) ok Suc.prems(3)]
  from Suc.IH [OF s1(2) st(3,1)] round_length [OF Suc.prems(2) ok] show ?case by (simp del: length_inp)
qed (simp add: Round_moves)

lemma recipient_safe:
  assumes "dec_ctx c"
  shows "moves c (fst (snd (wolfCose_DecodeSkippedRecipient b c a0)))"
  using recipient_loop_moves [of "\<lparr> sr_ctx = c, sr_remaining = 1, sr_stack = [], sr_first = True, sr_alg = WOLFCOSE_ALG_UNSET \<rparr>" b]
    assms by (auto simp: wolfCose_DecodeSkippedRecipient_def split_def)

lemma signature_safe:
  assumes "dec_ctx c"
  shows "moves c (snd (wolfCose_DecodeSkippedSignature b c))"
  using Entry_moves [OF assms, of b 3 None True None None]
  by (simp add: wolfCose_DecodeSkippedSignature_def split_def)

section \<open>The properties\<close>

text \<open>A recipient with algorithm -5 that holds one direct recipient, and a byte behind it.\<close>

definition toy_recipient :: "u8 list" where
  "toy_recipient = [0x84, 0x40, 0xA1, 0x01, 0x24, 0xF6, 0x81, 0x83, 0x40, 0xA1, 0x01, 0x25, 0x40, 0x00]"

lemma toy_recipient_skipped: "wolfCose_DecodeSkippedRecipient full_build (dec_example toy_recipient) 0 =
   (WOLFCOSE_SUCCESS, advance (dec_example toy_recipient) 13, - 5)"
  by code_simp

lemma toy_recipient_ok: "dec_ctx (dec_example toy_recipient)" "length (inp (dec_example toy_recipient)) = 14"
  by (simp_all add: dec_example_def toy_recipient_def dec_ctx_def inp_def)

text \<open>C18: a recipient entry that the decoder of unselected recipients accepts is one: an array of three
or four fields, a protected bucket that is empty or a map, an unprotected map, at most one algorithm among
both, a byte string or null behind them (a Direct recipient has no protected bytes and an empty string), and
as fourth field a non-empty array of further such recipients, nested no deeper than the bound of the build. The
decoder stops right behind it and reports the algorithm of the outermost recipient.\<close>

theorem DecodeSkippedRecipient_sound:
  assumes "dec_ctx c" "0 < cbor_max_depth b"
    and "wolfCose_DecodeSkippedRecipient b c a0 = (WOLFCOSE_SUCCESS, c', alg)"
  shows "\<exists>bs. inp c = bs @ inp c' \<and> c' = advance c (length bs) \<and> recipient_item b (cbor_max_depth b) alg bs"
  using Skipped_recipient [OF assms] unfolding consumes_def by blast

lemma DecodeSkippedRecipient_sound_witness:
  "recipient_item full_build 8 (- 5) (butlast toy_recipient)"
proof -
  have "0 < cbor_max_depth full_build" by (simp add: full_build_def)
  from DecodeSkippedRecipient_sound [OF toy_recipient_ok(1) this toy_recipient_skipped]
  obtain bs where bs: "inp (dec_example toy_recipient) = bs @ inp (advance (dec_example toy_recipient) 13)"
    "recipient_item full_build (cbor_max_depth full_build) (- 5) bs" by blast
  have "inp (dec_example toy_recipient) = butlast toy_recipient @ inp (advance (dec_example toy_recipient) 13)"
    by (simp add: dec_example_def inp_def toy_recipient_def)
  then have "bs = butlast toy_recipient" using bs(1) by (simp del: inp_advance)
  then show ?thesis using bs(2) by (simp add: full_build_def)
qed

text \<open>C19: the loop over unselected recipients ends: every round that goes on has consumed at least four
bytes of the input, so however counters and stack were set (within the stack's size), no more than a quarter
of the bytes left many rounds follow, and no round reads out of bounds.\<close>

theorem DecodeSkippedRecipient_rounds:
  assumes "dec_ctx (sr_ctx s)" "length (sr_stack s) \<le> cbor_max_depth b"
    and "(recipient_step b ^^ n) s s'"
  shows "4 * n + length (inp (sr_ctx s')) \<le> length (inp (sr_ctx s)) \<and>
    moves (sr_ctx s') (sr_ctx (snd (recipient_round b s')))"
  using rounds_safe [OF assms(3,1,2)] by blast

lemma DecodeSkippedRecipient_rounds_witness:
  "\<exists>s'. (recipient_step full_build ^^ 2) \<lparr> sr_ctx = dec_example toy_recipient, sr_remaining = 1, sr_stack = [], sr_first = True,
     sr_alg = 0 \<rparr> s' \<and> 4 * 2 + length (inp (sr_ctx s')) \<le> 14"
proof -
  let ?s = "\<lparr> sr_ctx = dec_example toy_recipient, sr_remaining = 1, sr_stack = [], sr_first = True, sr_alg = 0 \<rparr>"
  let ?t = "\<lparr> sr_ctx = advance (dec_example toy_recipient) 7, sr_remaining = 1, sr_stack = [0], sr_first = False, sr_alg = - 5 \<rparr>"
  let ?u = "\<lparr> sr_ctx = advance (dec_example toy_recipient) 13, sr_remaining = 0, sr_stack = [], sr_first = False, sr_alg = - 5 \<rparr>"
  have "recipient_round full_build ?s = (WOLFCOSE_SUCCESS, ?t)" "recipient_round full_build ?t = (WOLFCOSE_SUCCESS, ?u)"
    by code_simp+
  then have st: "recipient_step full_build ?s ?t" "recipient_step full_build ?t ?u" by (simp_all add: recipient_step_def)
  have "(recipient_step full_build ^^ 2) ?s ?u"
    using st by (auto simp: numeral_2_eq_2 intro: relcomppI)
  moreover from DecodeSkippedRecipient_rounds [OF _ _ this] have "4 * 2 + length (inp (sr_ctx ?u)) \<le> 14"
    using toy_recipient_ok by (simp add: full_build_def del: length_inp)
  ultimately show ?thesis by blast
qed

text \<open>C40: on any input, well-formed or not, the decoders of unselected entries only move the cursor on
inside its buffer and read no byte outside it.\<close>

theorem DecodeSkipped_safe:
  assumes "dec_ctx c"
  shows "dec_ctx (fst (snd (wolfCose_DecodeSkippedRecipient b c a0))) \<and>
    moves c (fst (snd (wolfCose_DecodeSkippedRecipient b c a0))) \<and>
    dec_ctx (snd (wolfCose_DecodeSkippedSignature b c)) \<and> moves c (snd (wolfCose_DecodeSkippedSignature b c))"
  using recipient_safe [OF assms] signature_safe [OF assms] moves_dec_ctx [OF assms] by blast

lemma DecodeSkipped_safe_witness:
  "dec_ctx (snd (wolfCose_DecodeSkippedSignature full_build (dec_example toy_recipient)))"
  using DecodeSkipped_safe [OF toy_recipient_ok(1)] by blast

text \<open>C39: a signature entry that the decoder of unselected signatures accepts is an array of three fields: a
byte string, one well-formed item and a byte string; the decoder stops right behind it.\<close>

theorem DecodeSkippedSignature_sound:
  assumes "dec_ctx c" "wolfCose_DecodeSkippedSignature b c = (WOLFCOSE_SUCCESS, c')"
  shows "\<exists>bs. inp c = bs @ inp c' \<and> c' = advance c (length bs) \<and> skipped_signature bs"
  using Skipped_signature [OF assms] unfolding consumes_def by blast

lemma DecodeSkippedSignature_sound_witness:
  "skipped_signature [0x83, 0x40, 0xA0, 0x41, 0x07]"
proof -
  let ?m = "[0x83, 0x40, 0xA0, 0x41, 0x07]"
  have d: "dec_ctx (dec_example ?m)" by (simp add: dec_example_def dec_ctx_def)
  have "wolfCose_DecodeSkippedSignature full_build (dec_example ?m) = (WOLFCOSE_SUCCESS, advance (dec_example ?m) 5)"
    by code_simp
  from DecodeSkippedSignature_sound [OF d this] obtain bs where
    bs: "inp (dec_example ?m) = bs @ inp (advance (dec_example ?m) 5)" "skipped_signature bs" by blast
  then have "bs = ?m" by (simp add: dec_example_def inp_def)
  then show ?thesis using bs(2) by simp
qed

end
