(* ===== verification/Cose_Sig.thy ===== *)
theory Cose_Sig
  imports Cose_Msg4 Cose_Aead
begin

text \<open>
  What COSE_Sign1 and its siblings share on signatures: the key checks and signature lengths of the
  first part of \<open>src/wolfcose_sign1.c\<close>, the delegated signer, the conversion of ECDSA signatures
  (\<open>src/wolfcose_ecc.c\<close>) and the size arithmetic of \<open>src/wolfcose_key.c\<close>. wolfCrypt's operations
  are a parameter.
\<close>

section \<open>wolfCrypt\<close>

text \<open>
  The calls the code makes, on the bytes they read; \<open>None\<close> is a failing call. A call that signs takes
  the state of the random generator, which is used at most once, and returns the bytes it writes. An
  ECDSA key that was set to deterministic mode signs with the hash type it was given. LMS signing returns
  the key as it leaves it. \<open>sg_pss_verify\<close> works in place: it gets the signature, the size of the buffer
  that holds it and the digest, and returns its verdict and what it leaves in the buffer. Sizes that a call
  gets are the capacity of the buffer it writes to. What a failing call leaves in a buffer is not modelled:
  every such buffer is zeroed before the caller returns.
\<close>

type_synonym rng = nat

datatype lms_verdict = LMS_VALID | LMS_SIG_VERIFY_E | LMS_ERROR

record wolfsig =
  sg_digest_size :: "wc_HashType \<Rightarrow> int"                    \<comment> \<open>wc_HashGetDigestSize\<close>
  sg_hash :: "wc_HashType \<Rightarrow> u8 list \<Rightarrow> u8 list option"       \<comment> \<open>wc_Hash\<close>
  sg_deterministic :: "ecc_view \<Rightarrow> wc_HashType \<Rightarrow> bool"       \<comment> \<open>wc_ecc_set_deterministic_ex\<close>
  sg_ecc_sign :: "ecc_view \<Rightarrow> wc_HashType option \<Rightarrow> rng \<Rightarrow> u8 list \<Rightarrow> u8 list option"
  sg_sig_to_rs :: "u8 list \<Rightarrow> size \<Rightarrow> (u8 list \<times> u8 list) option"
  sg_rs_to_sig :: "u8 list \<Rightarrow> u8 list \<Rightarrow> u8 list option"      \<comment> \<open>wc_ecc_rs_raw_to_sig\<close>
  sg_ecc_verify :: "ecc_view \<Rightarrow> u8 list \<Rightarrow> u8 list \<Rightarrow> bool option"
  sg_ed25519_sign :: "nat \<Rightarrow> u8 list \<Rightarrow> size \<Rightarrow> u8 list option"
  sg_ed25519_verify :: "nat \<Rightarrow> u8 list \<Rightarrow> u8 list \<Rightarrow> bool option"
  sg_ed448_sign :: "nat \<Rightarrow> u8 list \<Rightarrow> size \<Rightarrow> u8 list option"
  sg_ed448_verify :: "nat \<Rightarrow> u8 list \<Rightarrow> u8 list \<Rightarrow> bool option"
  sg_pss_sign :: "rsa_view \<Rightarrow> wc_HashType \<Rightarrow> wc_mgf \<Rightarrow> int \<Rightarrow> rng \<Rightarrow> u8 list \<Rightarrow> size \<Rightarrow> u8 list option"
  sg_pss_verify :: "rsa_view \<Rightarrow> wc_HashType \<Rightarrow> wc_mgf \<Rightarrow> u8 list \<Rightarrow> size \<Rightarrow> u8 list \<Rightarrow> bool \<times> u8 list"
  sg_mldsa_sign :: "mldsa_view \<Rightarrow> rng \<Rightarrow> u8 list \<Rightarrow> size \<Rightarrow> u8 list option"
  sg_mldsa_verify :: "mldsa_view \<Rightarrow> u8 list \<Rightarrow> u8 list \<Rightarrow> bool option"
  sg_lms_sig_len :: "lms_view \<Rightarrow> size option"                \<comment> \<open>wc_LmsKey_GetSigLen\<close>
  sg_lms_left :: "lms_view \<Rightarrow> int"                           \<comment> \<open>wc_LmsKey_SigsLeft\<close>
  sg_lms_sign :: "lms_view \<Rightarrow> u8 list \<Rightarrow> size \<Rightarrow> u8 list option \<times> lms_view"
  sg_lms_verify :: "lms_view \<Rightarrow> u8 list \<Rightarrow> u8 list \<Rightarrow> lms_verdict"

section \<open>Key checks\<close>

definition wolfCose_MlDsaAlgLevel :: "i32 \<Rightarrow> u8 \<Rightarrow> rc \<times> u8" where
  "wolfCose_MlDsaAlgLevel alg level =
     (if alg = WOLFCOSE_ALG_ML_DSA_44 then (WOLFCOSE_SUCCESS, 2)
      else if alg = WOLFCOSE_ALG_ML_DSA_65 then (WOLFCOSE_SUCCESS, 3)
      else if alg = WOLFCOSE_ALG_ML_DSA_87 then (WOLFCOSE_SUCCESS, 5)
      else (WOLFCOSE_E_COSE_BAD_ALG, level))"

definition wolfCose_MlDsaCheckKey :: "cose_key option \<Rightarrow> i32 \<Rightarrow> rc" where
  "wolfCose_MlDsaCheckKey key alg =
     (case key of None \<Rightarrow> WOLFCOSE_E_COSE_KEY_TYPE | Some k \<Rightarrow>
        if key_kty k \<noteq> WOLFCOSE_KTY_AKP \<or> key_attachedType k \<noteq> WOLFCOSE_ATT_MLDSA then WOLFCOSE_E_COSE_KEY_TYPE
        else (case key_mldsa k of None \<Rightarrow> WOLFCOSE_E_COSE_KEY_TYPE | Some v \<Rightarrow>
          (case wolfCose_MlDsaAlgLevel alg 0 of (ret, reqLevel) \<Rightarrow>
             if ret = WOLFCOSE_SUCCESS \<and> mldsa_level v \<noteq> reqLevel then WOLFCOSE_E_COSE_KEY_TYPE else ret)))"

definition wolfCose_LmsCheckKey :: "cose_key option \<Rightarrow> rc" where
  "wolfCose_LmsCheckKey key =
     (case key of None \<Rightarrow> WOLFCOSE_E_COSE_KEY_TYPE | Some k \<Rightarrow>
        if key_kty k \<noteq> WOLFCOSE_KTY_HSS_LMS \<or> key_attachedType k \<noteq> WOLFCOSE_ATT_LMS \<or> key_lms k = None
        then WOLFCOSE_E_COSE_KEY_TYPE else WOLFCOSE_SUCCESS)"

definition wolfCose_KeyCanSign :: "build \<Rightarrow> cose_key \<Rightarrow> bool" where
  "wolfCose_KeyCanSign b key \<longleftrightarrow> key_hasPrivate key \<or> ext_sign b \<and> key_signCb key \<noteq> None"

definition wc_CoseKey_SetExtSigner :: "cose_key option \<Rightarrow> sign_cb option \<Rightarrow> rc \<times> cose_key option" where
  "wc_CoseKey_SetExtSigner key cb =
     (case key of None \<Rightarrow> (WOLFCOSE_E_INVALID_ARG, None)
      | Some k \<Rightarrow> (WOLFCOSE_SUCCESS, Some (k\<lparr>key_signCb := cb\<rparr>)))"

definition is_pss :: "i32 \<Rightarrow> bool" where
  "is_pss alg \<longleftrightarrow> alg = WOLFCOSE_ALG_PS256 \<or> alg = WOLFCOSE_ALG_PS384 \<or> alg = WOLFCOSE_ALG_PS512"

definition is_mldsa :: "i32 \<Rightarrow> bool" where
  "is_mldsa alg \<longleftrightarrow> alg = WOLFCOSE_ALG_ML_DSA_44 \<or> alg = WOLFCOSE_ALG_ML_DSA_65 \<or> alg = WOLFCOSE_ALG_ML_DSA_87"

section \<open>The length of a signature\<close>

text \<open>The three cases of \<open>wolfCose_SignSigLen\<close> that look at the key, and the table with the curve check.\<close>

definition eddsa_sig_len :: "build \<Rightarrow> cose_key option \<Rightarrow> size \<Rightarrow> rc \<times> size" where
  "eddsa_sig_len b key expSigLen =
     (case key of None \<Rightarrow>
        (if have_eddsa b \<and> have_ed448 b then (WOLFCOSE_E_INVALID_ARG, expSigLen)
         else if have_eddsa b then (WOLFCOSE_SUCCESS, 64) else (WOLFCOSE_SUCCESS, 114))
      | Some k \<Rightarrow>
         if key_kty k \<noteq> WOLFCOSE_KTY_OKP then (WOLFCOSE_E_COSE_KEY_TYPE, expSigLen)
         else if have_eddsa b \<and> key_crv k = WOLFCOSE_CRV_ED25519 then (WOLFCOSE_SUCCESS, 64)
         else if have_ed448 b \<and> key_crv k = WOLFCOSE_CRV_ED448 then (WOLFCOSE_SUCCESS, 114)
         else (WOLFCOSE_E_COSE_KEY_TYPE, expSigLen))"

definition lms_sig_len :: "wolfsig \<Rightarrow> cose_key option \<Rightarrow> size \<Rightarrow> rc \<times> size" where
  "lms_sig_len W key expSigLen =
     (let ret = wolfCose_LmsCheckKey key
      in if ret \<noteq> WOLFCOSE_SUCCESS then (ret, expSigLen)
         else (case sg_lms_sig_len W (the (key_lms (the key))) of
             None \<Rightarrow> (WOLFCOSE_E_COSE_KEY_TYPE, expSigLen) | Some n \<Rightarrow> (WOLFCOSE_SUCCESS, n)))"

definition declared_curve :: "build \<Rightarrow> cose_key option \<Rightarrow> i32 \<Rightarrow> rc" where
  "declared_curve b key alg =
     (case key of None \<Rightarrow> WOLFCOSE_SUCCESS | Some k \<Rightarrow>
        (case wolfCose_AlgToCrv b alg (Some 0) of (bound, expectedCrv) \<Rightarrow>
           let expectedKty = (if wolfCose_AlgIsEcdsa b alg then WOLFCOSE_KTY_EC2
                              else if wolfCose_AlgIsEddsa b alg then WOLFCOSE_KTY_OKP else 0)
           in if bound = WOLFCOSE_SUCCESS \<and> the expectedCrv \<noteq> 0 \<and> expectedKty \<noteq> 0 then
                if key_kty k \<noteq> 0 \<and> key_kty k \<noteq> expectedKty then WOLFCOSE_E_COSE_KEY_TYPE
                else if key_crv k \<noteq> 0 \<and> key_crv k \<noteq> the expectedCrv then WOLFCOSE_E_COSE_BAD_ALG
                else WOLFCOSE_SUCCESS
              else WOLFCOSE_SUCCESS))"

definition wolfCose_SignSigLen :: "build \<Rightarrow> wolfsig \<Rightarrow> cose_key option \<Rightarrow> i32 \<Rightarrow> size \<Rightarrow> rc \<times> size" where
  "wolfCose_SignSigLen b W key alg expSigLen =
     (if (have_eddsa b \<or> have_ed448 b) \<and> have_deprecated_algs b \<and> alg = WOLFCOSE_ALG_EDDSA
      then eddsa_sig_len b key expSigLen
      else if have_ps256 b \<and> alg = WOLFCOSE_ALG_PS256 \<or> have_ps384 b \<and> alg = WOLFCOSE_ALG_PS384 \<or>
              have_ps512 b \<and> alg = WOLFCOSE_ALG_PS512
      then (case wolfCose_RsaPssCheckKey key (Some expSigLen) of (ret, n) \<Rightarrow> (ret, the n))
      else if have_lms b \<and> (ext_sign b \<or> \<not> lms_verify_only b) \<and> alg = WOLFCOSE_ALG_HSS_LMS
      then lms_sig_len W key expSigLen
      else (case wolfCose_SigSize b alg (Some expSigLen) of (ret, n) \<Rightarrow>
         (if ret = WOLFCOSE_SUCCESS \<and> (have_ecdsa b \<or> have_eddsa b \<or> have_ed448 b)
          then declared_curve b key alg else ret, the n)))"

section \<open>Delegated signing\<close>

definition wolfCose_ExtSignAlg :: "build \<Rightarrow> i32 \<Rightarrow> bool \<Rightarrow> rc \<times> bool" where
  "wolfCose_ExtSignAlg b alg preHashes =
     (if alg_is_es b have_es256 WOLFCOSE_ALG_ES256 WOLFCOSE_ALG_ESP256 alg \<or>
         alg_is_es b have_es384 WOLFCOSE_ALG_ES384 WOLFCOSE_ALG_ESP384 alg \<or>
         alg_is_es b have_es512 WOLFCOSE_ALG_ES512 WOLFCOSE_ALG_ESP512 alg \<or>
         have_ps256 b \<and> alg = WOLFCOSE_ALG_PS256 \<or> have_ps384 b \<and> alg = WOLFCOSE_ALG_PS384 \<or>
         have_ps512 b \<and> alg = WOLFCOSE_ALG_PS512 then (WOLFCOSE_SUCCESS, True)
      else if (have_eddsa b \<or> have_ed448 b) \<and>
         (have_deprecated_algs b \<and> alg = WOLFCOSE_ALG_EDDSA \<or> have_eddsa b \<and> alg = WOLFCOSE_ALG_ED25519 \<or>
          have_ed448 b \<and> alg = WOLFCOSE_ALG_ED448) then (WOLFCOSE_SUCCESS, False)
      else if have_mldsa b \<and> is_mldsa alg then (WOLFCOSE_SUCCESS, False)
      else if have_lms b \<and> alg = WOLFCOSE_ALG_HSS_LMS then (WOLFCOSE_SUCCESS, False)
      else (WOLFCOSE_E_COSE_BAD_ALG, preHashes))"

text \<open>The hash type of the algorithm and the digest of the structure, with the code of a failure.\<close>

definition struct_digest :: "build \<Rightarrow> wolfsig \<Rightarrow> i32 \<Rightarrow> u8 list \<Rightarrow> rc \<times> wc_HashType \<times> u8 list" where
  "struct_digest b W alg bs =
     (case wolfCose_AlgToHashType b alg (Some WC_HASH_TYPE_NONE) of (ret, ht) \<Rightarrow>
        if ret \<noteq> WOLFCOSE_SUCCESS then (ret, the ht, [])
        else if sg_digest_size W (the ht) \<le> 0 then (WOLFCOSE_E_CRYPTO, the ht, [])
        else (case sg_hash W (the ht) bs of None \<Rightarrow> (WOLFCOSE_E_CRYPTO, the ht, [])
              | Some h \<Rightarrow> (WOLFCOSE_SUCCESS, the ht, h)))"

text \<open>
  \<open>sig\<close> is the offset of the buffer in the scratch memory, where \<open>sigSz\<close> bytes are available: the code
  passes both as pointers into the same object, so they are not NULL. The callback sees exactly
  \<open>expSigLen\<close> of them, zeroed; the bytes to be signed are ahead of them or were copied out as a digest.
\<close>

definition wolfCose_ExtSign ::
  "build \<Rightarrow> wolfsig \<Rightarrow> cose_key option \<Rightarrow> i32 \<Rightarrow> u8 list \<Rightarrow> size \<Rightarrow> size \<Rightarrow> size \<Rightarrow> size \<Rightarrow> rc \<times> u8 list \<times> size" where
  "wolfCose_ExtSign b W key alg scratch sigStructLen sig sigSz sigLen =
     (case key of None \<Rightarrow> (WOLFCOSE_E_INVALID_ARG, scratch, sigLen) | Some k \<Rightarrow>
      (case key_signCb k of None \<Rightarrow> (WOLFCOSE_E_INVALID_ARG, scratch, sigLen) | Some cb \<Rightarrow>
        if sigSz = 0 then (WOLFCOSE_E_INVALID_ARG, scratch, sigLen)
        else
          let bs = take sigStructLen scratch;
              (ret, preHashes) = wolfCose_ExtSignAlg b alg False;
              (ret, tbs) =
                (if ret = WOLFCOSE_SUCCESS \<and> preHashes
                 then (case struct_digest b W alg (take (w32 sigStructLen) scratch) of (ret, ht, h) \<Rightarrow> (ret, h))
                 else (ret, bs));
              (ret, expSigLen) = (if ret = WOLFCOSE_SUCCESS then wolfCose_SignSigLen b W key alg 0 else (ret, 0));
              ret = (if ret = WOLFCOSE_SUCCESS \<and> sigSz < expSigLen then WOLFCOSE_E_BUFFER_TOO_SMALL else ret)
          in if ret \<noteq> WOLFCOSE_SUCCESS then (ret, scratch, sigLen)
             else (case cb alg tbs (replicate expSigLen 0) of (cbRet, buf, sigLen) \<Rightarrow>
               (if cbRet \<noteq> 0 then WOLFCOSE_E_CRYPTO
                else if sigLen = 0 \<or> sigLen > sigSz then WOLFCOSE_E_CRYPTO
                else if sigLen \<noteq> expSigLen then WOLFCOSE_E_CRYPTO
                else WOLFCOSE_SUCCESS,
                splice sig buf scratch, sigLen))))"

section \<open>ECDSA signatures\<close>

text \<open>Right-justifying \<open>r\<close> and \<open>s\<close>, which stand at the start of the two halves of the buffer.\<close>

definition justify_rs :: "size \<Rightarrow> size \<Rightarrow> size \<Rightarrow> u8 list \<Rightarrow> u8 list" where
  "justify_rs coordSz rLen sLen buf =
     (let buf = splice (coordSz - rLen) (take rLen buf) buf;
          buf = splice 0 (replicate (coordSz - rLen) 0) buf;
          buf = splice (coordSz + (coordSz - sLen)) (take sLen (drop coordSz buf)) buf
      in splice coordSz (replicate (coordSz - sLen) 0) buf)"

definition wolfCose_EccSignRaw ::
  "build \<Rightarrow> wolfsig \<Rightarrow> u8 list \<Rightarrow> u8 list \<Rightarrow> size \<Rightarrow> size \<Rightarrow> wc_HashType \<Rightarrow> rng option \<Rightarrow> ecc_view option \<Rightarrow>
   rc \<times> u8 list \<times> size" where
  "wolfCose_EccSignRaw b W hash sigBuf sigLen coordSz hashType rng eccKey =
     (case (rng, eccKey) of (Some g, Some k) \<Rightarrow>
        if sigLen < coordSz * 2 then (WOLFCOSE_E_BUFFER_TOO_SMALL, sigBuf, sigLen)
        else if deterministic_ecdsa b \<and> \<not> sg_deterministic W k hashType then (WOLFCOSE_E_CRYPTO, sigBuf, sigLen)
        else (case sg_ecc_sign W k (if deterministic_ecdsa b then Some hashType else None) g hash of
            None \<Rightarrow> (WOLFCOSE_E_CRYPTO, sigBuf, sigLen)
          | Some derSig \<Rightarrow>
              let sigBuf = splice 0 (replicate (coordSz * 2) 0) sigBuf
              in (case sg_sig_to_rs W derSig coordSz of None \<Rightarrow> (WOLFCOSE_E_CRYPTO, sigBuf, sigLen)
                  | Some (r, s) \<Rightarrow>
                      let sigBuf = splice coordSz s (splice 0 r sigBuf)
                      in if length r > coordSz \<or> length s > coordSz then (WOLFCOSE_E_CRYPTO, sigBuf, sigLen)
                         else (WOLFCOSE_SUCCESS, justify_rs coordSz (length r) (length s) sigBuf, coordSz * 2)))
      | _ \<Rightarrow> (WOLFCOSE_E_INVALID_ARG, sigBuf, sigLen))"

definition wolfCose_EccVerifyRaw ::
  "build \<Rightarrow> wolfsig \<Rightarrow> cptr \<Rightarrow> size \<Rightarrow> u8 list \<Rightarrow> size \<Rightarrow> ecc_view option \<Rightarrow> bool \<Rightarrow> rc \<times> bool" where
  "wolfCose_EccVerifyRaw b W sigBuf sigLen hash coordSz eccKey verified =
     (if sigBuf = None then (WOLFCOSE_E_INVALID_ARG, verified)
      else (case eccKey of None \<Rightarrow> (WOLFCOSE_E_INVALID_ARG, verified) | Some k \<Rightarrow>
        if sigLen \<noteq> coordSz * 2 then (WOLFCOSE_E_COSE_SIG_FAIL, verified)
        else
          let sig = bytes_at sigBuf sigLen
          in case (if no_asn b then Some sig else sg_rs_to_sig W (take coordSz sig) (drop coordSz sig)) of
               None \<Rightarrow> (WOLFCOSE_E_CRYPTO, False)
             | Some derSig \<Rightarrow> (case sg_ecc_verify W k derSig hash of
                   None \<Rightarrow> (WOLFCOSE_E_CRYPTO, False) | Some v \<Rightarrow> (WOLFCOSE_SUCCESS, v))))"

section \<open>Sizes\<close>

definition wolfCose_SizeAdd :: "size option \<Rightarrow> size \<Rightarrow> rc \<times> size option" where
  "wolfCose_SizeAdd acc add =
     (case acc of None \<Rightarrow> (WOLFCOSE_E_INVALID_ARG, None)
      | Some t \<Rightarrow> if add > SIZE_MAX - t then (WOLFCOSE_E_INVALID_ARG, Some t)
                 else (WOLFCOSE_SUCCESS, Some (sz_add t add)))"

definition wolfCose_CborHeadSize :: "nat \<Rightarrow> size" where
  "wolfCose_CborHeadSize val =
     (if val \<le> 23 then 1 else if val \<le> 0xFF then 2 else if val \<le> 0xFFFF then 3
      else if val \<le> 0xFFFFFFFF then 5 else 9)"

definition wolfCose_CborStringSize :: "size \<Rightarrow> size \<Rightarrow> rc \<times> size" where
  "wolfCose_CborStringSize len encodedLen =
     (case wolfCose_SizeAdd (Some (wolfCose_CborHeadSize len)) len of (ret, acc) \<Rightarrow>
        (ret, if ret = WOLFCOSE_SUCCESS then the acc else encodedLen))"

end
