(* ===== verification/Cose_Sign1.thy ===== *)
theory Cose_Sign1
  imports Cose_Sig
begin

text \<open>
  COSE_Sign1 (\<open>src/wolfcose_sign1.c\<close>, second half): the size of a message, signing and verifying. A
  function's local variables are the record its stages pass on; a stage runs when the return code is still
  \<open>WOLFCOSE_SUCCESS\<close>, as in the code. Buffers passed by the caller are distinct objects.
\<close>

section \<open>Common pieces\<close>

definition WOLFCOSE_TAG_SIGN1 :: u64 where [simp]: "WOLFCOSE_TAG_SIGN1 = 18"

definition WOLFCOSE_SIGN1_UNTAGGED :: u32 where [simp]: "WOLFCOSE_SIGN1_UNTAGGED = 1"

definition sign1_flags_ok :: "u32 \<Rightarrow> bool" where
  "sign1_flags_ok flags \<longleftrightarrow> flags AND NOT WOLFCOSE_SIGN1_UNTAGGED = 0"

definition sign1_tagged :: "u32 \<Rightarrow> bool" where
  "sign1_tagged flags \<longleftrightarrow> flags AND WOLFCOSE_SIGN1_UNTAGGED = 0"

definition wolfCose_BuildSigStructure ::
  "cptr \<Rightarrow> size \<Rightarrow> cptr \<Rightarrow> size \<Rightarrow> cptr \<Rightarrow> size \<Rightarrow> cptr \<Rightarrow> size \<Rightarrow> size \<Rightarrow> rc \<times> cbor_ctx \<times> size" where
  "wolfCose_BuildSigStructure protectedHdr protectedLen extAad extAadLen payload payloadLen scratch scratchSz
       structLen =
     wolfCose_BuildToBeSignedMaced (Some WOLFCOSE_CTX_SIGNATURE1) (length WOLFCOSE_CTX_SIGNATURE1)
       protectedHdr protectedLen None 0 extAad extAadLen payload payloadLen scratch scratchSz structLen"

section \<open>The size of a message\<close>

definition size_add :: "size \<Rightarrow> size \<Rightarrow> rc \<times> size" where
  "size_add acc add = (case wolfCose_SizeAdd (Some acc) add of (ret, n) \<Rightarrow> (ret, the n))"

definition size_add_string :: "size \<Rightarrow> size \<Rightarrow> rc \<times> size" where
  "size_add_string acc len =
     (case wolfCose_CborStringSize len 0 of (ret, itemLen) \<Rightarrow>
        if ret = WOLFCOSE_SUCCESS then size_add acc itemLen else (ret, acc))"

definition sign1_total :: "size \<Rightarrow> size \<Rightarrow> size \<Rightarrow> size \<Rightarrow> size \<Rightarrow> u32 \<Rightarrow> rc \<times> size" where
  "sign1_total protectedLen kidLen payloadLen detachedLen sigLen flags =
     (let r = (if sign1_tagged flags then size_add 0 1 else (WOLFCOSE_SUCCESS, 0));
          r = on_success r (\<lambda>acc. size_add acc 1);
          r = on_success r (\<lambda>acc. size_add_string acc protectedLen);
          r = on_success r (\<lambda>acc. size_add acc 1);
          r = on_success r (\<lambda>acc. if kidLen \<noteq> 0
                then on_success (size_add acc 1) (\<lambda>acc. size_add_string acc kidLen)
                else (WOLFCOSE_SUCCESS, acc));
          r = on_success r (\<lambda>acc. if detachedLen \<noteq> 0 then size_add acc 1 else size_add_string acc payloadLen)
      in on_success r (\<lambda>acc. size_add_string acc sigLen))"

definition wc_CoseSign1_SignSize_ex ::
  "build \<Rightarrow> wolfsig \<Rightarrow> cose_key option \<Rightarrow> i32 \<Rightarrow> size \<Rightarrow> size \<Rightarrow> size \<Rightarrow> u32 \<Rightarrow> size option \<Rightarrow> rc \<times> size option" where
  "wc_CoseSign1_SignSize_ex b W key alg kidLen payloadLen detachedLen flags outLen =
     (case outLen of None \<Rightarrow> (WOLFCOSE_E_INVALID_ARG, None) | Some _ \<Rightarrow>
        if \<not> sign1_flags_ok flags then (WOLFCOSE_E_INVALID_ARG, Some 0)
        else if payloadLen \<noteq> 0 \<and> detachedLen \<noteq> 0 then (WOLFCOSE_E_INVALID_ARG, Some 0)
        else if \<not> wolfCose_LenFitsWord32 payloadLen \<or> \<not> wolfCose_LenFitsWord32 detachedLen
          then (WOLFCOSE_E_INVALID_ARG, Some 0)
        else if (case key of None \<Rightarrow> False | Some k \<Rightarrow> key_alg k \<noteq> WOLFCOSE_ALG_UNSET \<and> key_alg k \<noteq> alg)
          then (WOLFCOSE_E_COSE_BAD_ALG, Some 0)
        else (case wolfCose_SignSigLen b W key alg 0 of (ret, sigLen) \<Rightarrow>
          if ret \<noteq> WOLFCOSE_SUCCESS then (ret, Some 0)
          else (case wolfCose_EncodeProtectedHdr alg (Some (replicate (protected_hdr_max b) 0)) (protected_hdr_max b) 0 of
            (ret, c, protectedLen) \<Rightarrow>
              if ret \<noteq> WOLFCOSE_SUCCESS then (ret, Some 0)
              else (case sign1_total protectedLen kidLen payloadLen detachedLen sigLen flags of (ret, acc) \<Rightarrow>
                (ret, Some (if ret = WOLFCOSE_SUCCESS then acc else 0))))))"

section \<open>Making the signature\<close>

text \<open>\<open>sigPtr\<close> points to the local buffer or into the scratch memory.\<close>

datatype sig_ptr = SIG_BUF | SIG_SCRATCH size

record sign1_work =
  sw_protected :: cptr      \<comment> \<open>protectedBuf\<close>
  sw_protectedLen :: size
  sw_scratch :: cptr
  sw_structLen :: size      \<comment> \<open>sigStructLen\<close>
  sw_sigBuf :: cptr
  sw_sigPtr :: sig_ptr
  sw_sigSz :: size
  sw_key :: "cose_key option"
  sw_out :: cbor_ctx        \<comment> \<open>outCtx\<close>
  sw_fault :: bool          \<comment> \<open>ghost: an access outside a buffer happened\<close>

abbreviation sig_buf_sz :: size where "sig_buf_sz \<equiv> 132"

text \<open>The structure, as the signing calls read it.\<close>

definition sw_tbs :: "sign1_work \<Rightarrow> u8 list" where
  "sw_tbs w = bytes_at (sw_scratch w) (w32 (sw_structLen w))"

text \<open>A signature written to the local buffer, and one written to the scratch memory.\<close>

definition sig_to_buf :: "u8 list \<Rightarrow> sign1_work \<Rightarrow> sign1_work" where
  "sig_to_buf sig w = (case store_bytes 0 sig (sw_sigBuf w) of (m, bad) \<Rightarrow>
     w\<lparr>sw_sigBuf := m, sw_sigSz := length sig, sw_fault := (sw_fault w \<or> bad)\<rparr>)"

definition sig_to_scratch :: "size \<Rightarrow> u8 list \<Rightarrow> sign1_work \<Rightarrow> sign1_work" where
  "sig_to_scratch off sig w = (case store_bytes off sig (sw_scratch w) of (m, bad) \<Rightarrow>
     w\<lparr>sw_scratch := m, sw_sigPtr := SIG_SCRATCH off, sw_sigSz := length sig, sw_fault := (sw_fault w \<or> bad)\<rparr>)"

definition sign1_ext :: "build \<Rightarrow> wolfsig \<Rightarrow> i32 \<Rightarrow> size \<Rightarrow> sign1_work \<Rightarrow> rc \<times> sign1_work" where
  "sign1_ext b W alg scratchSz w =
     (case wolfCose_ExtSignAlg b alg False of (ret, extPreHash) \<Rightarrow>
        if ret \<noteq> WOLFCOSE_SUCCESS then (ret, w)
        else
          let sigOff = (if extPreHash then 0 else sw_structLen w)
          in if scratchSz \<le> sigOff then (WOLFCOSE_E_BUFFER_TOO_SMALL, w)
             else (case wolfCose_ExtSign b W (sw_key w) alg (the (sw_scratch w)) (sw_structLen w) sigOff
                          (scratchSz - sigOff) 0 of (ret, m, extSigLen) \<Rightarrow>
               (ret, if ret = WOLFCOSE_SUCCESS
                     then w\<lparr>sw_scratch := Some m, sw_sigPtr := SIG_SCRATCH sigOff, sw_sigSz := extSigLen\<rparr>
                     else w\<lparr>sw_scratch := Some m\<rparr>)))"

definition eddsa_call ::
  "('k \<Rightarrow> u8 list \<Rightarrow> size \<Rightarrow> u8 list option) \<Rightarrow> 'k option \<Rightarrow> bool \<Rightarrow> sign1_work \<Rightarrow> rc \<times> sign1_work" where
  "eddsa_call sign handle attached w =
     (case handle of Some k \<Rightarrow>
        if \<not> attached then (WOLFCOSE_E_COSE_KEY_TYPE, w)
        else (case sign k (sw_tbs w) sig_buf_sz of None \<Rightarrow> (WOLFCOSE_E_CRYPTO, w)
              | Some sig \<Rightarrow> (WOLFCOSE_SUCCESS, sig_to_buf sig w))
      | None \<Rightarrow> (WOLFCOSE_E_COSE_KEY_TYPE, w))"

definition sign1_eddsa :: "build \<Rightarrow> wolfsig \<Rightarrow> i32 \<Rightarrow> cose_key \<Rightarrow> sign1_work \<Rightarrow> rc \<times> sign1_work" where
  "sign1_eddsa b W alg key w =
     (if key_kty key \<noteq> WOLFCOSE_KTY_OKP then (WOLFCOSE_E_COSE_KEY_TYPE, w)
      else let ret = wolfCose_AlgCheckCrv b alg (key_crv key)
      in if ret \<noteq> WOLFCOSE_SUCCESS then (ret, w)
         else if have_eddsa b \<and> key_crv key = WOLFCOSE_CRV_ED25519
           then eddsa_call (sg_ed25519_sign W) (key_ed25519 key) (key_attachedType key = WOLFCOSE_ATT_ED25519) w
         else if have_ed448 b \<and> key_crv key = WOLFCOSE_CRV_ED448
           then eddsa_call (sg_ed448_sign W) (key_ed448 key) (key_attachedType key = WOLFCOSE_ATT_ED448) w
         else (WOLFCOSE_E_COSE_BAD_ALG, w))"

definition sign1_ecdsa ::
  "build \<Rightarrow> wolfsig \<Rightarrow> i32 \<Rightarrow> cose_key \<Rightarrow> rng option \<Rightarrow> sign1_work \<Rightarrow> rc \<times> sign1_work" where
  "sign1_ecdsa b W alg key rng w =
     (if key_kty key \<noteq> WOLFCOSE_KTY_EC2 then (WOLFCOSE_E_COSE_KEY_TYPE, w)
      else let ret = wolfCose_AlgCheckCrv b alg (key_crv key);
               ret = (if ret = WOLFCOSE_SUCCESS then wolfCose_EccKeyCheckCurve (key_crv key) (key_ecc key) else ret)
      in if ret \<noteq> WOLFCOSE_SUCCESS then (ret, w)
         else (case struct_digest b W alg (sw_tbs w) of (ret, ht, h) \<Rightarrow>
           if ret \<noteq> WOLFCOSE_SUCCESS then (ret, w)
           else (case wolfCose_CrvKeySize (key_crv key) (Some 0) of (ret, coordSz) \<Rightarrow>
             if ret \<noteq> WOLFCOSE_SUCCESS then (ret, w)
             else (case wolfCose_EccSignRaw b W h (the (sw_sigBuf w)) sig_buf_sz (the coordSz) ht rng (key_ecc key) of
               (ret, m, rawSigLen) \<Rightarrow>
                 (ret, w\<lparr>sw_sigBuf := Some m,
                         sw_sigSz := (if ret = WOLFCOSE_SUCCESS then rawSigLen else sw_sigSz w)\<rparr>)))))"

definition sign1_pss ::
  "build \<Rightarrow> wolfsig \<Rightarrow> i32 \<Rightarrow> cose_key \<Rightarrow> rng option \<Rightarrow> size \<Rightarrow> sign1_work \<Rightarrow> rc \<times> sign1_work" where
  "sign1_pss b W alg key rng scratchSz w =
     (let ret = fst (wolfCose_RsaPssCheckKey (Some key) None)
      in if ret \<noteq> WOLFCOSE_SUCCESS then (ret, w)
         else (case struct_digest b W alg (sw_tbs w) of (ret, ht, h) \<Rightarrow>
           if ret \<noteq> WOLFCOSE_SUCCESS then (ret, w)
           else (case wolfCose_HashToMgf b ht (Some WC_MGF1SHA256) of (ret, mgf) \<Rightarrow>
             if ret \<noteq> WOLFCOSE_SUCCESS then (ret, w)
             else (case sg_pss_sign W (the (key_rsa key)) ht (the mgf) (sg_digest_size W ht) (the rng) h (w32 scratchSz) of
               None \<Rightarrow> (WOLFCOSE_E_CRYPTO, w)
             | Some sig \<Rightarrow>
                 if sig = [] then (WOLFCOSE_E_CRYPTO, w) else (WOLFCOSE_SUCCESS, sig_to_scratch 0 sig w)))))"

definition sign1_mldsa ::
  "build \<Rightarrow> wolfsig \<Rightarrow> i32 \<Rightarrow> cose_key \<Rightarrow> rng option \<Rightarrow> size \<Rightarrow> sign1_work \<Rightarrow> rc \<times> sign1_work" where
  "sign1_mldsa b W alg key rng scratchSz w =
     (let ret = wolfCose_MlDsaCheckKey (Some key) alg
      in if ret \<noteq> WOLFCOSE_SUCCESS then (ret, w)
         else (case wolfCose_SigSize b alg (Some 0) of (ret, expectedSigSz) \<Rightarrow>
           if ret \<noteq> WOLFCOSE_SUCCESS then (ret, w)
           else if sz_add (sw_structLen w) (the expectedSigSz) > scratchSz then (WOLFCOSE_E_BUFFER_TOO_SMALL, w)
           else (case sg_mldsa_sign W (the (key_mldsa key)) (the rng) (sw_tbs w) (w32 (the expectedSigSz)) of
               None \<Rightarrow> (WOLFCOSE_E_CRYPTO, w)
             | Some sig \<Rightarrow> (WOLFCOSE_SUCCESS, sig_to_scratch (sw_structLen w) sig w))))"

definition INT_MAX :: size where [simp]: "INT_MAX = 2147483647"

definition lms_after_failure :: "lms_view \<Rightarrow> lms_view" where
  "lms_after_failure v = (if lms_state v \<noteq> WC_LMS_STATE_NOSIGS then v\<lparr>lms_state := WC_LMS_STATE_BAD\<rparr> else v)"

definition sign1_lms :: "wolfsig \<Rightarrow> cose_key \<Rightarrow> size \<Rightarrow> sign1_work \<Rightarrow> rc \<times> sign1_work" where
  "sign1_lms W key scratchSz w =
     (let ret = wolfCose_LmsCheckKey (Some key); v = the (key_lms key)
      in if ret \<noteq> WOLFCOSE_SUCCESS then (ret, w)
         else if lms_state v \<noteq> WC_LMS_STATE_OK \<or> sg_lms_left W v \<noteq> 1 then (WOLFCOSE_E_COSE_KEY_TYPE, w)
         else (case sg_lms_sig_len W v of None \<Rightarrow> (WOLFCOSE_E_COSE_KEY_TYPE, w) | Some expectedSigSz \<Rightarrow>
           if sw_structLen w > INT_MAX then (WOLFCOSE_E_INVALID_ARG, w)
           else if expectedSigSz > scratchSz \<or> sw_structLen w > scratchSz - expectedSigSz
             then (WOLFCOSE_E_BUFFER_TOO_SMALL, w)
           else (case sg_lms_sign W v (bytes_at (sw_scratch w) (sw_structLen w)) (w32 expectedSigSz) of
               (None, v) \<Rightarrow> (WOLFCOSE_E_CRYPTO, w\<lparr>sw_key := Some (key\<lparr>key_lms := Some (lms_after_failure v)\<rparr>)\<rparr>)
             | (Some sig, v) \<Rightarrow>
                 (WOLFCOSE_SUCCESS, sig_to_scratch (sw_structLen w) sig (w\<lparr>sw_key := Some (key\<lparr>key_lms := Some v\<rparr>)\<rparr>)))))"

text \<open>The choice by algorithm; a delegated signer comes first.\<close>

definition sign1_signature ::
  "build \<Rightarrow> wolfsig \<Rightarrow> i32 \<Rightarrow> rng option \<Rightarrow> size \<Rightarrow> sign1_work \<Rightarrow> rc \<times> sign1_work" where
  "sign1_signature b W alg rng scratchSz w =
     (let key = the (sw_key w)
      in if ext_sign b \<and> key_signCb key \<noteq> None then sign1_ext b W alg scratchSz w
         else if wolfCose_AlgIsEddsa b alg then sign1_eddsa b W alg key w
         else if wolfCose_AlgIsEcdsa b alg then sign1_ecdsa b W alg key rng w
         else if have_rsapss b \<and> is_pss alg then sign1_pss b W alg key rng scratchSz w
         else if have_mldsa b \<and> is_mldsa alg then sign1_mldsa b W alg key rng scratchSz w
         else if have_lms b \<and> \<not> lms_verify_only b \<and> alg = WOLFCOSE_ALG_HSS_LMS then sign1_lms W key scratchSz w
         else (WOLFCOSE_E_COSE_BAD_ALG, w))"

section \<open>Signing\<close>

definition sign1_checks ::
  "build \<Rightarrow> cose_key option \<Rightarrow> i32 \<Rightarrow> cptr \<Rightarrow> size \<Rightarrow> cptr \<Rightarrow> size \<Rightarrow> cptr \<Rightarrow> size \<Rightarrow> size \<Rightarrow> cptr \<Rightarrow> size \<Rightarrow> cptr \<Rightarrow> size \<Rightarrow>
   size option \<Rightarrow> rng option \<Rightarrow> u32 \<Rightarrow> rc" where
  "sign1_checks b key alg kid kidLen payload payloadLen detachedPayload detachedLen extAadLen
       scratch scratchSz out outSz outLen rng flags =
     (let sigPayload = (if detachedPayload \<noteq> None then detachedPayload else payload)
      in if key = None \<or> sigPayload = None \<or> scratch = None \<or> out = None \<or> outLen = None \<or> (\<not> ext_sign b \<and> rng = None)
         then WOLFCOSE_E_INVALID_ARG
         else if ext_sign b \<and> key_signCb (the key) = None \<and> rng = None then WOLFCOSE_E_INVALID_ARG
         else if \<not> sign1_flags_ok flags then WOLFCOSE_E_INVALID_ARG
         else if \<not> wolfCose_LenFitsWord32 payloadLen \<or> \<not> wolfCose_LenFitsWord32 detachedLen \<or>
                 \<not> wolfCose_LenFitsWord32 extAadLen \<or> \<not> wolfCose_LenFitsWord32 scratchSz \<or>
                 \<not> wolfCose_LenFitsWord32 outSz then WOLFCOSE_E_INVALID_ARG
         else if kid \<noteq> None \<and> kidLen = 0 \<or> kid = None \<and> kidLen \<noteq> 0 then WOLFCOSE_E_INVALID_ARG
         else if payload \<noteq> None \<and> detachedPayload \<noteq> None then WOLFCOSE_E_INVALID_ARG
         else if \<not> wolfCose_KeyCanSign b (the key) then WOLFCOSE_E_COSE_KEY_TYPE
         else if key_alg (the key) \<noteq> WOLFCOSE_ALG_UNSET \<and> key_alg (the key) \<noteq> alg then WOLFCOSE_E_COSE_BAD_ALG
         else WOLFCOSE_SUCCESS)"

definition sign1_protected :: "build \<Rightarrow> i32 \<Rightarrow> sign1_work \<Rightarrow> rc \<times> sign1_work" where
  "sign1_protected b alg w =
     (case wolfCose_EncodeProtectedHdr alg (sw_protected w) (protected_hdr_max b) (sw_protectedLen w) of
        (ret, c, n) \<Rightarrow> (ret, w\<lparr>sw_protected := ctx_buf c, sw_protectedLen := n,
                              sw_fault := (sw_fault w \<or> ctx_fault c)\<rparr>))"

definition sign1_struct :: "cptr \<Rightarrow> size \<Rightarrow> cptr \<Rightarrow> size \<Rightarrow> size \<Rightarrow> sign1_work \<Rightarrow> rc \<times> sign1_work" where
  "sign1_struct extAad extAadLen sigPayload sigPayloadLen scratchSz w =
     (case wolfCose_BuildSigStructure (sw_protected w) (sw_protectedLen w) extAad extAadLen
             sigPayload sigPayloadLen (sw_scratch w) scratchSz (sw_structLen w) of
        (ret, c, n) \<Rightarrow> (ret, w\<lparr>sw_scratch := ctx_buf c, sw_structLen := n,
                              sw_fault := (sw_fault w \<or> ctx_fault c)\<rparr>))"

text \<open>An LMS signature is not spent on an output buffer that cannot hold the message.\<close>

definition sign1_lms_room ::
  "build \<Rightarrow> wolfsig \<Rightarrow> i32 \<Rightarrow> size \<Rightarrow> size \<Rightarrow> size \<Rightarrow> u32 \<Rightarrow> size \<Rightarrow> sign1_work \<Rightarrow> rc \<times> sign1_work" where
  "sign1_lms_room b W alg kidLen payloadLen detachedLen flags outSz w =
     (if have_lms b \<and> alg = WOLFCOSE_ALG_HSS_LMS
      then (case wc_CoseSign1_SignSize_ex b W (sw_key w) alg kidLen payloadLen detachedLen flags (Some 0) of
        (ret, neededOut) \<Rightarrow>
          (if ret = WOLFCOSE_SUCCESS \<and> outSz < the neededOut then WOLFCOSE_E_BUFFER_TOO_SMALL else ret, w))
      else (WOLFCOSE_SUCCESS, w))"

definition sign1_encode ::
  "u32 \<Rightarrow> cptr \<Rightarrow> size \<Rightarrow> cptr \<Rightarrow> size \<Rightarrow> bool \<Rightarrow> cptr \<Rightarrow> size \<Rightarrow> cptr \<Rightarrow> size \<Rightarrow> cbor_ctx \<Rightarrow> rc \<times> cbor_ctx" where
  "sign1_encode flags protectedBuf protectedLen kid kidLen isDetached payload payloadLen sigPtr sigSz ctx =
     (let r = (if sign1_tagged flags then wc_CBOR_EncodeTag ctx WOLFCOSE_TAG_SIGN1 else (WOLFCOSE_SUCCESS, ctx));
          r = on_success r (\<lambda>ctx. wc_CBOR_EncodeArrayStart ctx 4);
          r = on_success r (\<lambda>ctx. wc_CBOR_EncodeBstr ctx protectedBuf protectedLen);
          r = on_success r (\<lambda>ctx. wc_CBOR_EncodeMapStart ctx (if kid \<noteq> None \<and> kidLen > 0 then 1 else 0));
          r = on_success r (\<lambda>ctx. if kid \<noteq> None \<and> kidLen > 0
                then on_success (wc_CBOR_EncodeUint ctx WOLFCOSE_HDR_KID) (\<lambda>ctx. wc_CBOR_EncodeBstr ctx kid kidLen)
                else (WOLFCOSE_SUCCESS, ctx));
          r = on_success r (\<lambda>ctx. if isDetached then wc_CBOR_EncodeNull ctx
                else wc_CBOR_EncodeBstr ctx payload payloadLen)
      in on_success r (\<lambda>ctx. wc_CBOR_EncodeBstr ctx sigPtr sigSz))"

definition sw_sig :: "sign1_work \<Rightarrow> cptr" where
  "sw_sig w = (case sw_sigPtr w of SIG_BUF \<Rightarrow> sw_sigBuf w | SIG_SCRATCH off \<Rightarrow> map_option (drop off) (sw_scratch w))"

definition sign1_output ::
  "u32 \<Rightarrow> cptr \<Rightarrow> size \<Rightarrow> bool \<Rightarrow> cptr \<Rightarrow> size \<Rightarrow> cptr \<Rightarrow> size \<Rightarrow> sign1_work \<Rightarrow> rc \<times> sign1_work" where
  "sign1_output flags kid kidLen isDetached payload payloadLen out outSz w =
     (let ctx = \<lparr> ctx_buf = out, ctx_cbuf = None, ctx_bufSz = outSz, ctx_idx = 0, ctx_fault = False \<rparr>
      in case sign1_encode flags (sw_protected w) (sw_protectedLen w) kid kidLen isDetached payload payloadLen
                (sw_sig w) (sw_sigSz w) ctx of
           (ret, c) \<Rightarrow> (ret, w\<lparr>sw_out := c, sw_fault := (sw_fault w \<or> ctx_fault c)\<rparr>))"

definition sign1_work0 :: "build \<Rightarrow> cose_key option \<Rightarrow> cptr \<Rightarrow> cptr \<Rightarrow> size \<Rightarrow> sign1_work" where
  "sign1_work0 b key scratch out outSz =
     \<lparr> sw_protected = Some (replicate (protected_hdr_max b) 0), sw_protectedLen = 0, sw_scratch = scratch,
       sw_structLen = 0, sw_sigBuf = Some (replicate sig_buf_sz 0), sw_sigPtr = SIG_BUF, sw_sigSz = 0, sw_key = key,
       sw_out = \<lparr> ctx_buf = out, ctx_cbuf = None, ctx_bufSz = outSz, ctx_idx = 0, ctx_fault = False \<rparr>,
       sw_fault = False \<rparr>"

text \<open>The result: return code, scratch, out, \<open>*outLen\<close>, the key, and the ghost flag.\<close>

definition wc_CoseSign1_Sign_ex ::
  "build \<Rightarrow> wolfsig \<Rightarrow> cose_key option \<Rightarrow> i32 \<Rightarrow> cptr \<Rightarrow> size \<Rightarrow> cptr \<Rightarrow> size \<Rightarrow> cptr \<Rightarrow> size \<Rightarrow> cptr \<Rightarrow> size \<Rightarrow>
   cptr \<Rightarrow> size \<Rightarrow> cptr \<Rightarrow> size \<Rightarrow> size option \<Rightarrow> rng option \<Rightarrow> u32 \<Rightarrow>
   rc \<times> cptr \<times> cptr \<times> size option \<times> cose_key option \<times> bool" where
  "wc_CoseSign1_Sign_ex b W key alg kid kidLen payload payloadLen detachedPayload detachedLen extAad extAadLen
       scratch scratchSz out outSz outLen rng flags =
     (let isDetached = (detachedPayload \<noteq> None);
          sigPayload = (if isDetached then detachedPayload else payload);
          sigPayloadLen = (if isDetached then detachedLen else payloadLen);
          r = (sign1_checks b key alg kid kidLen payload payloadLen detachedPayload detachedLen extAadLen
                 scratch scratchSz out outSz outLen rng flags, sign1_work0 b key scratch out outSz);
          r = on_success r (sign1_protected b alg);
          r = on_success r (sign1_struct extAad extAadLen sigPayload sigPayloadLen scratchSz);
          r = on_success r (sign1_lms_room b W alg kidLen payloadLen detachedLen flags outSz);
          r = on_success r (sign1_signature b W alg rng scratchSz);
          r = on_success r (sign1_output flags kid kidLen isDetached payload payloadLen out outSz);
          ret = fst r; w = snd r
      in (ret, wolfCose_ForceZero (sw_scratch w) scratchSz,
          if ret = WOLFCOSE_SUCCESS then ctx_buf (sw_out w) else wolfCose_ForceZero (ctx_buf (sw_out w)) outSz,
          if ret = WOLFCOSE_SUCCESS then Some (ctx_idx (sw_out w)) else map_option (\<lambda>_. 0) outLen,
          sw_key w, sw_fault w))"

definition wc_CoseSign1_Sign ::
  "build \<Rightarrow> wolfsig \<Rightarrow> cose_key option \<Rightarrow> i32 \<Rightarrow> cptr \<Rightarrow> size \<Rightarrow> cptr \<Rightarrow> size \<Rightarrow> cptr \<Rightarrow> size \<Rightarrow> cptr \<Rightarrow> size \<Rightarrow>
   cptr \<Rightarrow> size \<Rightarrow> cptr \<Rightarrow> size \<Rightarrow> size option \<Rightarrow> rng option \<Rightarrow>
   rc \<times> cptr \<times> cptr \<times> size option \<times> cose_key option \<times> bool" where
  "wc_CoseSign1_Sign b W key alg kid kidLen payload payloadLen detachedPayload detachedLen extAad extAadLen
       scratch scratchSz out outSz outLen rng =
     wc_CoseSign1_Sign_ex b W key alg kid kidLen payload payloadLen detachedPayload detachedLen extAad extAadLen
       scratch scratchSz out outSz outLen rng 0"

section \<open>Checking the signature\<close>

text \<open>The return code of a verifying call and the value it leaves in \<open>verified\<close>.\<close>

definition sig_verdict :: "bool option \<Rightarrow> rc" where
  "sig_verdict v = (case v of None \<Rightarrow> WOLFCOSE_E_CRYPTO
     | Some verified \<Rightarrow> if verified then WOLFCOSE_SUCCESS else WOLFCOSE_E_COSE_SIG_FAIL)"

definition eddsa_verdict :: "('k \<Rightarrow> u8 list \<Rightarrow> u8 list \<Rightarrow> bool option) \<Rightarrow> 'k option \<Rightarrow> bool \<Rightarrow> u8 list \<Rightarrow> u8 list \<Rightarrow> rc" where
  "eddsa_verdict verify handle attached sig tbs =
     (if \<not> attached then WOLFCOSE_E_COSE_KEY_TYPE
      else (case handle of None \<Rightarrow> WOLFCOSE_E_COSE_KEY_TYPE | Some k \<Rightarrow> sig_verdict (verify k sig tbs)))"

definition check_eddsa :: "build \<Rightarrow> wolfsig \<Rightarrow> i32 \<Rightarrow> cose_key \<Rightarrow> u8 list \<Rightarrow> u8 list \<Rightarrow> rc" where
  "check_eddsa b W alg key sig tbs =
     (if key_kty key \<noteq> WOLFCOSE_KTY_OKP then WOLFCOSE_E_COSE_KEY_TYPE
      else let ret = wolfCose_AlgCheckCrv b alg (key_crv key)
      in if ret \<noteq> WOLFCOSE_SUCCESS then ret
         else if have_eddsa b \<and> key_crv key = WOLFCOSE_CRV_ED25519
           then eddsa_verdict (sg_ed25519_verify W) (key_ed25519 key) (key_attachedType key = WOLFCOSE_ATT_ED25519) sig tbs
         else if have_ed448 b \<and> key_crv key = WOLFCOSE_CRV_ED448
           then eddsa_verdict (sg_ed448_verify W) (key_ed448 key) (key_attachedType key = WOLFCOSE_ATT_ED448) sig tbs
         else WOLFCOSE_E_COSE_BAD_ALG)"

definition check_ecdsa :: "build \<Rightarrow> wolfsig \<Rightarrow> i32 \<Rightarrow> cose_key \<Rightarrow> cptr \<Rightarrow> size \<Rightarrow> u8 list \<Rightarrow> rc" where
  "check_ecdsa b W alg key sigData sigDataLen tbs =
     (if key_kty key \<noteq> WOLFCOSE_KTY_EC2 \<or> key_attachedType key \<noteq> WOLFCOSE_ATT_ECC then WOLFCOSE_E_COSE_KEY_TYPE
      else let ret = wolfCose_AlgCheckCrv b alg (key_crv key);
               ret = (if ret = WOLFCOSE_SUCCESS then wolfCose_EccKeyCheckCurve (key_crv key) (key_ecc key) else ret)
      in if ret \<noteq> WOLFCOSE_SUCCESS then ret
         else (case struct_digest b W alg tbs of (ret, ht, h) \<Rightarrow>
           if ret \<noteq> WOLFCOSE_SUCCESS then ret
           else (case wolfCose_CrvKeySize (key_crv key) (Some 0) of (ret, coordSz) \<Rightarrow>
             if ret \<noteq> WOLFCOSE_SUCCESS then ret
             else (case wolfCose_EccVerifyRaw b W sigData sigDataLen h (the coordSz) (key_ecc key) False of
               (ret, verified) \<Rightarrow>
                 if ret = WOLFCOSE_SUCCESS \<and> \<not> verified then WOLFCOSE_E_COSE_SIG_FAIL else ret))))"

text \<open>\<open>wc_RsaPSS_VerifyCheck\<close> works in place, on a copy of the signature in the scratch memory.\<close>

definition check_pss ::
  "build \<Rightarrow> wolfsig \<Rightarrow> i32 \<Rightarrow> cose_key \<Rightarrow> cptr \<Rightarrow> size \<Rightarrow> cptr \<Rightarrow> size \<Rightarrow> u8 list \<Rightarrow> rc \<times> cptr \<times> bool" where
  "check_pss b W alg key sigData sigDataLen scratch scratchSz tbs =
     (let ret = fst (wolfCose_RsaPssCheckKey (Some key) None)
      in if ret \<noteq> WOLFCOSE_SUCCESS then (ret, scratch, False)
         else (case struct_digest b W alg tbs of (ret, ht, h) \<Rightarrow>
           if ret \<noteq> WOLFCOSE_SUCCESS then (ret, scratch, False)
           else (case wolfCose_HashToMgf b ht (Some WC_MGF1SHA256) of (ret, mgf) \<Rightarrow>
             if ret \<noteq> WOLFCOSE_SUCCESS then (ret, scratch, False)
             else if sigDataLen > scratchSz then (WOLFCOSE_E_BUFFER_TOO_SMALL, scratch, False)
             else (case store_bytes 0 (bytes_at sigData sigDataLen) scratch of (scratch, bad1) \<Rightarrow>
               case sg_pss_verify W (the (key_rsa key)) ht (the mgf) (bytes_at scratch (w32 sigDataLen)) (w32 scratchSz) h of
                 (ok, left) \<Rightarrow> (case store_bytes 0 left scratch of (scratch, bad2) \<Rightarrow>
                   (if ok then WOLFCOSE_SUCCESS else WOLFCOSE_E_COSE_SIG_FAIL, scratch, bad1 \<or> bad2))))))"

definition check_mldsa :: "wolfsig \<Rightarrow> i32 \<Rightarrow> cose_key \<Rightarrow> u8 list \<Rightarrow> u8 list \<Rightarrow> rc" where
  "check_mldsa W alg key sig tbs =
     (let ret = wolfCose_MlDsaCheckKey (Some key) alg
      in if ret \<noteq> WOLFCOSE_SUCCESS then ret else sig_verdict (sg_mldsa_verify W (the (key_mldsa key)) sig tbs))"

definition check_lms :: "wolfsig \<Rightarrow> cose_key \<Rightarrow> u8 list \<Rightarrow> cptr \<Rightarrow> size \<Rightarrow> rc" where
  "check_lms W key sig scratch sigStructLen =
     (let ret = wolfCose_LmsCheckKey (Some key)
      in if ret \<noteq> WOLFCOSE_SUCCESS then ret
         else if sigStructLen > INT_MAX then WOLFCOSE_E_INVALID_ARG
         else (case sg_lms_verify W (the (key_lms key)) sig (bytes_at scratch sigStructLen) of
             LMS_VALID \<Rightarrow> WOLFCOSE_SUCCESS | LMS_SIG_VERIFY_E \<Rightarrow> WOLFCOSE_E_COSE_SIG_FAIL
           | LMS_ERROR \<Rightarrow> WOLFCOSE_E_CRYPTO))"

text \<open>The choice by algorithm; the result has the scratch buffer and the ghost flag.\<close>

definition sign1_check_sig ::
  "build \<Rightarrow> wolfsig \<Rightarrow> i32 \<Rightarrow> cose_key \<Rightarrow> cptr \<Rightarrow> size \<Rightarrow> cptr \<Rightarrow> size \<Rightarrow> size \<Rightarrow> rc \<times> cptr \<times> bool" where
  "sign1_check_sig b W alg key sigData sigDataLen scratch scratchSz sigStructLen =
     (let tbs = bytes_at scratch (w32 sigStructLen); sig = bytes_at sigData (w32 sigDataLen)
      in if wolfCose_AlgIsEddsa b alg then (check_eddsa b W alg key sig tbs, scratch, False)
         else if wolfCose_AlgIsEcdsa b alg then (check_ecdsa b W alg key sigData sigDataLen tbs, scratch, False)
         else if have_rsapss b \<and> is_pss alg then check_pss b W alg key sigData sigDataLen scratch scratchSz tbs
         else if have_mldsa b \<and> is_mldsa alg then (check_mldsa W alg key sig tbs, scratch, False)
         else if have_lms b \<and> alg = WOLFCOSE_ALG_HSS_LMS then (check_lms W key sig scratch sigStructLen, scratch, False)
         else (WOLFCOSE_E_COSE_BAD_ALG, scratch, False))"

section \<open>Verifying a message\<close>

definition sign1_parse :: "build \<Rightarrow> u32 \<Rightarrow> cptr \<Rightarrow> size \<Rightarrow> cptr \<Rightarrow> size \<Rightarrow> rc \<times> cose_msg" where
  "sign1_parse b flags = msg_parse b flags WOLFCOSE_TAG_SIGN1"

definition sign1_alg_checks :: "cose_key \<Rightarrow> cose_msg \<Rightarrow> rc" where
  "sign1_alg_checks key s =
     (if key_alg key \<noteq> WOLFCOSE_ALG_UNSET \<and> key_alg key \<noteq> hdr_alg (msg_hdr s) then WOLFCOSE_E_COSE_BAD_ALG
      else if key_alg key = WOLFCOSE_ALG_UNSET \<and> \<not> msg_algProtected s then WOLFCOSE_E_COSE_BAD_ALG
      else WOLFCOSE_SUCCESS)"

text \<open>Rebuilding the structure and checking the signature.\<close>

definition sign1_verify_sig ::
  "build \<Rightarrow> wolfsig \<Rightarrow> cose_key \<Rightarrow> cptr \<Rightarrow> size \<Rightarrow> cptr \<Rightarrow> size \<Rightarrow> cose_msg \<Rightarrow> rc \<times> cptr \<times> bool" where
  "sign1_verify_sig b W key extAad extAadLen scratch scratchSz s =
     (case wolfCose_BuildSigStructure (msg_protected s) (msg_protectedLen s) extAad extAadLen
             (msg_verify s) (msg_verifyLen s) scratch scratchSz 0 of (ret, c, sigStructLen) \<Rightarrow>
        if ret \<noteq> WOLFCOSE_SUCCESS then (ret, ctx_buf c, ctx_fault c)
        else (case sign1_check_sig b W (hdr_alg (msg_hdr s)) key (msg_tag s) (msg_tagLen s) (ctx_buf c) scratchSz
                     sigStructLen of (ret, scratch, bad) \<Rightarrow> (ret, scratch, ctx_fault c \<or> bad)))"

definition sign1_verify_checks ::
  "build \<Rightarrow> cose_key option \<Rightarrow> cptr \<Rightarrow> size \<Rightarrow> size \<Rightarrow> size \<Rightarrow> cptr \<Rightarrow> size \<Rightarrow> cose_hdr option \<Rightarrow> cptr option \<Rightarrow>
   size option \<Rightarrow> u32 \<Rightarrow> rc" where
  "sign1_verify_checks b key input inSz detachedLen extAadLen scratch scratchSz hdr payload payloadLen flags =
     (if key = None \<or> input = None \<or> scratch = None \<or> hdr = None \<or> payload = None \<or> payloadLen = None
      then WOLFCOSE_E_INVALID_ARG
      else if \<not> DECODE_FLAGS_VALID b flags then WOLFCOSE_E_INVALID_ARG
      else if \<not> wolfCose_LenFitsWord32 inSz \<or> \<not> wolfCose_LenFitsWord32 detachedLen \<or>
              \<not> wolfCose_LenFitsWord32 extAadLen \<or> \<not> wolfCose_LenFitsWord32 scratchSz
        then WOLFCOSE_E_INVALID_ARG
      else WOLFCOSE_SUCCESS)"

text \<open>The result: return code, \<open>*hdr\<close>, \<open>*payload\<close>, \<open>*payloadLen\<close>, scratch, and the ghost flag.\<close>

definition wolfCose_Sign1_Verify_ex ::
  "build \<Rightarrow> wolfsig \<Rightarrow> cose_key option \<Rightarrow> cptr \<Rightarrow> size \<Rightarrow> cptr \<Rightarrow> size \<Rightarrow> cptr \<Rightarrow> size \<Rightarrow> cptr \<Rightarrow> size \<Rightarrow>
   cose_hdr option \<Rightarrow> cptr option \<Rightarrow> size option \<Rightarrow> u32 \<Rightarrow>
   rc \<times> cose_hdr option \<times> cptr option \<times> size option \<times> cptr \<times> bool" where
  "wolfCose_Sign1_Verify_ex b W key input inSz detachedPayload detachedLen extAad extAadLen scratch scratchSz
       hdr payload payloadLen flags =
     (let ret0 = sign1_verify_checks b key input inSz detachedLen extAadLen scratch scratchSz hdr payload payloadLen flags;
          (ret, hdr, data, dataLen, scratch, fault) =
            (if ret0 \<noteq> WOLFCOSE_SUCCESS then (ret0, hdr, None, 0, scratch, False)
             else (case sign1_parse b flags input inSz detachedPayload detachedLen of (ret, s) \<Rightarrow>
               let ret = (if ret = WOLFCOSE_SUCCESS then sign1_alg_checks (the key) s else ret)
               in if ret \<noteq> WOLFCOSE_SUCCESS
                  then (ret, Some (msg_hdr s), msg_payload s, msg_payloadLen s, scratch, ctx_fault (msg_ctx s))
                  else (case sign1_verify_sig b W (the key) extAad extAadLen scratch scratchSz s of
                    (ret, scratch, fault) \<Rightarrow>
                      (ret, Some (msg_hdr s), msg_payload s, msg_payloadLen s, scratch,
                       ctx_fault (msg_ctx s) \<or> fault))))
      in (ret, wolfCose_HdrClearOnFail ret hdr,
          if ret = WOLFCOSE_SUCCESS then Some data
          else if payload \<noteq> None \<and> payloadLen \<noteq> None then Some None else payload,
          if ret = WOLFCOSE_SUCCESS then Some dataLen
          else if payload \<noteq> None \<and> payloadLen \<noteq> None then Some 0 else payloadLen,
          wolfCose_ForceZero scratch scratchSz, fault))"

definition wc_CoseSign1_Verify ::
  "build \<Rightarrow> wolfsig \<Rightarrow> cose_key option \<Rightarrow> cptr \<Rightarrow> size \<Rightarrow> cptr \<Rightarrow> size \<Rightarrow> cptr \<Rightarrow> size \<Rightarrow> cptr \<Rightarrow> size \<Rightarrow>
   cose_hdr option \<Rightarrow> cptr option \<Rightarrow> size option \<Rightarrow>
   rc \<times> cose_hdr option \<times> cptr option \<times> size option \<times> cptr \<times> bool" where
  "wc_CoseSign1_Verify b W key input inSz detachedPayload detachedLen extAad extAadLen scratch scratchSz
       hdr payload payloadLen =
     wolfCose_Sign1_Verify_ex b W key input inSz detachedPayload detachedLen extAad extAadLen scratch scratchSz
       hdr payload payloadLen 0"

end
