(* ===== verification/Cose_Sign1Spec.thy ===== *)
theory Cose_Sign1Spec
  imports Cose_Sign1
begin

text \<open>
  What signing a COSE_Sign1 message promises: which signatures the code makes and under which key and
  algorithm, the exact bytes of the message, clean buffers after every outcome, and that the one-time state
  of an LMS key is not spent on an output buffer that is too small.
\<close>

section \<open>What is relied on\<close>

text \<open>
  Documented behaviour of wolfCrypt: a call writes no more than the capacity it is given, the length of an
  LMS signature is a \<open>word32\<close>, and an LMS signature has that length. \<open>signer_ok\<close> asks a signing callback to
  leave the size of its buffer alone.
\<close>

definition sig_ok :: "wolfsig \<Rightarrow> bool" where
  "sig_ok W \<longleftrightarrow>
     (\<forall>k m n sig. sg_ed25519_sign W k m n = Some sig \<longrightarrow> length sig \<le> n) \<and>
     (\<forall>k m n sig. sg_ed448_sign W k m n = Some sig \<longrightarrow> length sig \<le> n) \<and>
     (\<forall>der n r s. sg_sig_to_rs W der n = Some (r, s) \<longrightarrow> length r \<le> n \<and> length s \<le> n) \<and>
     (\<forall>k ht mgf salt g d n sig. sg_pss_sign W k ht mgf salt g d n = Some sig \<longrightarrow> length sig \<le> n) \<and>
     (\<forall>k ht mgf sig n d. length sig \<le> n \<longrightarrow> length (snd (sg_pss_verify W k ht mgf sig n d)) \<le> n) \<and>
     (\<forall>k g m n sig. sg_mldsa_sign W k g m n = Some sig \<longrightarrow> length sig \<le> n) \<and>
     (\<forall>v n. sg_lms_sig_len W v = Some n \<longrightarrow> n < 2 ^ 32) \<and>
     (\<forall>v m n sig v'. sg_lms_sign W v m n = (Some sig, v') \<longrightarrow> sg_lms_sig_len W v = Some n \<longrightarrow> length sig = n)"

definition signer_ok :: "cose_key \<Rightarrow> bool" where
  "signer_ok k \<longleftrightarrow> (\<forall>cb alg m buf ret buf' n. key_signCb k = Some cb \<longrightarrow> cb alg m buf = (ret, buf', n) \<longrightarrow>
     length buf' = length buf)"

section \<open>Signatures\<close>

text \<open>The fixed-width form of a big-endian number.\<close>

definition pad :: "size \<Rightarrow> u8 list \<Rightarrow> u8 list" where
  "pad n x = replicate (n - length x) 0 @ x"

lemma length_pad [simp]: "length x \<le> n \<Longrightarrow> length (pad n x) = n"
  by (simp add: pad_def)

text \<open>
  The signatures wolfCrypt makes for a key, an algorithm and bytes; the last argument is the key afterwards,
  which only an LMS key differs from.
\<close>

inductive local_sig ::
  "build \<Rightarrow> wolfsig \<Rightarrow> cose_key \<Rightarrow> rng \<Rightarrow> i32 \<Rightarrow> u8 list \<Rightarrow> u8 list \<Rightarrow> cose_key \<Rightarrow> bool"
  for b W k g alg tbs where
  ed25519: "wolfCose_AlgIsEddsa b alg \<Longrightarrow> key_kty k = WOLFCOSE_KTY_OKP \<Longrightarrow>
    wolfCose_AlgCheckCrv b alg (key_crv k) = WOLFCOSE_SUCCESS \<Longrightarrow> have_eddsa b \<Longrightarrow> key_crv k = WOLFCOSE_CRV_ED25519 \<Longrightarrow>
    key_attachedType k = WOLFCOSE_ATT_ED25519 \<Longrightarrow> key_ed25519 k = Some h \<Longrightarrow>
    sg_ed25519_sign W h tbs sig_buf_sz = Some sig \<Longrightarrow> local_sig b W k g alg tbs sig k"
| ed448: "wolfCose_AlgIsEddsa b alg \<Longrightarrow> key_kty k = WOLFCOSE_KTY_OKP \<Longrightarrow>
    wolfCose_AlgCheckCrv b alg (key_crv k) = WOLFCOSE_SUCCESS \<Longrightarrow> have_ed448 b \<Longrightarrow> key_crv k = WOLFCOSE_CRV_ED448 \<Longrightarrow>
    key_attachedType k = WOLFCOSE_ATT_ED448 \<Longrightarrow> key_ed448 k = Some h \<Longrightarrow>
    sg_ed448_sign W h tbs sig_buf_sz = Some sig \<Longrightarrow> local_sig b W k g alg tbs sig k"
| ecdsa: "wolfCose_AlgIsEcdsa b alg \<Longrightarrow> key_kty k = WOLFCOSE_KTY_EC2 \<Longrightarrow>
    wolfCose_AlgCheckCrv b alg (key_crv k) = WOLFCOSE_SUCCESS \<Longrightarrow> key_ecc k = Some e \<Longrightarrow>
    wolfCose_EccKeyCheckCurve (key_crv k) (Some e) = WOLFCOSE_SUCCESS \<Longrightarrow>
    struct_digest b W alg tbs = (WOLFCOSE_SUCCESS, ht, d) \<Longrightarrow>
    wolfCose_CrvKeySize (key_crv k) (Some 0) = (WOLFCOSE_SUCCESS, Some n) \<Longrightarrow>
    deterministic_ecdsa b \<longrightarrow> sg_deterministic W e ht \<Longrightarrow>
    sg_ecc_sign W e (if deterministic_ecdsa b then Some ht else None) g d = Some der \<Longrightarrow>
    sg_sig_to_rs W der n = Some (r, s) \<Longrightarrow> length r \<le> n \<Longrightarrow> length s \<le> n \<Longrightarrow>
    local_sig b W k g alg tbs (pad n r @ pad n s) k"
| pss: "have_rsapss b \<Longrightarrow> is_pss alg \<Longrightarrow> fst (wolfCose_RsaPssCheckKey (Some k) None) = WOLFCOSE_SUCCESS \<Longrightarrow>
    key_rsa k = Some v \<Longrightarrow> struct_digest b W alg tbs = (WOLFCOSE_SUCCESS, ht, d) \<Longrightarrow>
    wolfCose_HashToMgf b ht (Some WC_MGF1SHA256) = (WOLFCOSE_SUCCESS, Some mgf) \<Longrightarrow>
    sg_pss_sign W v ht mgf (sg_digest_size W ht) g d cap = Some sig \<Longrightarrow> sig \<noteq> [] \<Longrightarrow> local_sig b W k g alg tbs sig k"
| mldsa: "have_mldsa b \<Longrightarrow> is_mldsa alg \<Longrightarrow> wolfCose_MlDsaCheckKey (Some k) alg = WOLFCOSE_SUCCESS \<Longrightarrow>
    key_mldsa k = Some m \<Longrightarrow> wolfCose_SigSize b alg (Some 0) = (WOLFCOSE_SUCCESS, Some n) \<Longrightarrow>
    sg_mldsa_sign W m g tbs n = Some sig \<Longrightarrow> local_sig b W k g alg tbs sig k"
| lms: "have_lms b \<Longrightarrow> \<not> lms_verify_only b \<Longrightarrow> alg = WOLFCOSE_ALG_HSS_LMS \<Longrightarrow> wolfCose_LmsCheckKey (Some k) = WOLFCOSE_SUCCESS \<Longrightarrow>
    key_lms k = Some v \<Longrightarrow> lms_state v = WC_LMS_STATE_OK \<Longrightarrow> sg_lms_left W v = 1 \<Longrightarrow>
    sg_lms_sig_len W v = Some n \<Longrightarrow> length tbs \<le> INT_MAX \<Longrightarrow> sg_lms_sign W v tbs n = (Some sig, v') \<Longrightarrow>
    local_sig b W k g alg tbs sig (k\<lparr>key_lms := Some v'\<rparr>)"

text \<open>The signature of a delegated signer, of the exact length of the algorithm and key.\<close>

definition delegates :: "build \<Rightarrow> cose_key \<Rightarrow> bool" where
  "delegates b k \<longleftrightarrow> ext_sign b \<and> key_signCb k \<noteq> None"

definition delegated_sig :: "build \<Rightarrow> wolfsig \<Rightarrow> cose_key \<Rightarrow> i32 \<Rightarrow> u8 list \<Rightarrow> u8 list \<Rightarrow> bool" where
  "delegated_sig b W k alg tbs sig \<longleftrightarrow> (\<exists>cb pre m n. key_signCb k = Some cb \<and>
     wolfCose_ExtSignAlg b alg False = (WOLFCOSE_SUCCESS, pre) \<and>
     (if pre then \<exists>ht. struct_digest b W alg tbs = (WOLFCOSE_SUCCESS, ht, m) else m = tbs) \<and>
     wolfCose_SignSigLen b W (Some k) alg 0 = (WOLFCOSE_SUCCESS, n) \<and> 0 < n \<and> length sig = n \<and>
     cb alg m (replicate n 0) = (0, sig, n))"

definition signs ::
  "build \<Rightarrow> wolfsig \<Rightarrow> cose_key \<Rightarrow> rng option \<Rightarrow> i32 \<Rightarrow> u8 list \<Rightarrow> u8 list \<Rightarrow> cose_key \<Rightarrow> bool" where
  "signs b W k rng alg tbs sig k' \<longleftrightarrow>
     (if delegates b k then delegated_sig b W k alg tbs sig \<and> k' = k
      else \<exists>g. rng = Some g \<and> local_sig b W k g alg tbs sig k')"

section \<open>The signing calls\<close>

lemma sig_okD:
  assumes "sig_ok W"
  shows "sg_ed25519_sign W ed m n = Some sig \<Longrightarrow> length sig \<le> n"
    and "sg_ed448_sign W ed m n = Some sig \<Longrightarrow> length sig \<le> n"
    and "sg_sig_to_rs W der n = Some (r, s) \<Longrightarrow> length r \<le> n \<and> length s \<le> n"
    and "sg_pss_sign W rk ht mgf salt g d n = Some sig \<Longrightarrow> length sig \<le> n"
    and "length sig \<le> n \<Longrightarrow> length (snd (sg_pss_verify W rk ht mgf sig n d)) \<le> n"
    and "sg_mldsa_sign W mk g m n = Some sig \<Longrightarrow> length sig \<le> n"
    and "sg_lms_sig_len W v = Some n \<Longrightarrow> n < 2 ^ 32"
    and "sg_lms_sign W v m n = (Some sig, v') \<Longrightarrow> sg_lms_sig_len W v = Some n \<Longrightarrow> length sig = n"
  using assms unfolding sig_ok_def by (simp_all, blast)

lemma justify_rs_pads:
  assumes "length r \<le> c" "length s \<le> c" "2 * c \<le> length m"
  shows "length (justify_rs c (length r) (length s) (splice c s (splice 0 r m))) = length m"
    and "take (2 * c) (justify_rs c (length r) (length s) (splice c s (splice 0 r m))) = pad c r @ pad c s"
proof -
  define x where "x = take (c - length r) (drop (length r) m)"
  define y where "y = take (c - length s) (drop (c + length s) m)"
  define z where "z = drop (c + c) m"
  have l: "length x = c - length r" "length y = c - length s" "length z = length m - (c + c)"
    using assms by (simp_all add: x_def y_def z_def)
  have m1: "splice c s (splice 0 r m) = r @ x @ s @ y @ z"
  proof -
    have "drop (length r) m = x @ drop c m"
      using assms(1) append_take_drop_id [of "c - length r" "drop (length r) m"] by (simp add: x_def)
    moreover have "drop (c + length s) m = y @ z"
      using assms(2) append_take_drop_id [of "c - length s" "drop (c + length s) m"] by (simp add: y_def z_def add.commute)
    ultimately show ?thesis using assms l(1) by (simp add: splice_def add.commute)
  qed
  let ?b1 = "take (c - length r) (r @ x) @ r @ s @ y @ z"
  have b1: "splice (c - length r) r (r @ x @ s @ y @ z) = ?b1"
    using l(1) assms(1) by (simp add: splice_def)
  have b2: "splice 0 (replicate (c - length r) 0) ?b1 = pad c r @ s @ y @ z"
    using l(1) assms(1) by (simp add: splice_def pad_def)
  have b3: "splice (c + (c - length s)) s (pad c r @ s @ y @ z) = pad c r @ take (c - length s) (s @ y) @ s @ z"
    using l(2) assms(1,2) by (simp add: splice_def)
  have b4: "splice c (replicate (c - length s) 0) (pad c r @ take (c - length s) (s @ y) @ s @ z) = pad c r @ pad c s @ z"
    using l(2) assms(1,2) by (simp add: splice_def pad_def)
  have e: "justify_rs c (length r) (length s) (splice c s (splice 0 r m)) = pad c r @ pad c s @ z"
    unfolding m1 justify_rs_def Let_def using b1 b2 b3 b4 assms(1) by simp
  show "length (justify_rs c (length r) (length s) (splice c s (splice 0 r m))) = length m"
    unfolding e using assms l(3) by simp
  show "take (2 * c) (justify_rs c (length r) (length s) (splice c s (splice 0 r m))) = pad c r @ pad c s"
    unfolding e using assms by (simp add: pad_def)
qed

lemma EccSignRaw_spec:
  assumes W: "sig_ok W" and m: "length m = sig_buf_sz"
    and run: "wolfCose_EccSignRaw b W h m sig_buf_sz c ht rng ecc = (ret, m', n)"
  shows "length m' = length m" and "ret = WOLFCOSE_SUCCESS \<Longrightarrow> \<exists>g e der r s. rng = Some g \<and> ecc = Some e \<and>
    (deterministic_ecdsa b \<longrightarrow> sg_deterministic W e ht) \<and>
    sg_ecc_sign W e (if deterministic_ecdsa b then Some ht else None) g h = Some der \<and>
    sg_sig_to_rs W der c = Some (r, s) \<and> length r \<le> c \<and> length s \<le> c \<and> n = 2 * c \<and> n \<le> sig_buf_sz \<and>
    take n m' = pad c r @ pad c s"
proof -
  have rs: "length r \<le> c \<and> length s \<le> c" if "sg_sig_to_rs W der c = Some (r, s)" for der r s
    using sig_okD(3) [OF W that] .
  have z: "length (splice 0 (replicate (c * 2) 0) m) = length m" if "\<not> sig_buf_sz < c * 2"
    using m that by (intro length_splice) simp
  note j = justify_rs_pads [of _ c _ "splice 0 (replicate (c * 2) 0) m"]
  have l: "length (splice c s (splice 0 r (splice 0 (replicate (c * 2) 0) m))) = length m"
    if "\<not> sig_buf_sz < c * 2" "length r \<le> c" "length s \<le> c" for r s
    using z [OF that(1)] that m by simp
  have n: "\<not> c < length r" "\<not> c < length s" if "sg_sig_to_rs W der c = Some (r, s)" for der r s
    using rs [OF that] by simp_all
  have l': "length (justify_rs c (length r) (length s) (splice c s (splice 0 r (splice 0 (replicate (c * 2) 0) m)))) = length m"
    if "\<not> sig_buf_sz < c * 2" "sg_sig_to_rs W der c = Some (r, s)" for der r s
    using j(1) [of r s] rs [OF that(2)] z [OF that(1)] that(1) m by (simp add: mult.commute)
  show "length m' = length m"
    using run by (auto simp: wolfCose_EccSignRaw_def Let_def n z l' split: option.splits if_splits)
  show "\<exists>g e der r s. rng = Some g \<and> ecc = Some e \<and>
    (deterministic_ecdsa b \<longrightarrow> sg_deterministic W e ht) \<and>
    sg_ecc_sign W e (if deterministic_ecdsa b then Some ht else None) g h = Some der \<and>
    sg_sig_to_rs W der c = Some (r, s) \<and> length r \<le> c \<and> length s \<le> c \<and> n = 2 * c \<and> n \<le> sig_buf_sz \<and>
    take n m' = pad c r @ pad c s" if "ret = WOLFCOSE_SUCCESS"
    using run that z j(2) rs m
    by (auto simp: wolfCose_EccSignRaw_def Let_def mult.commute [of c 2] split: option.splits if_splits)
qed

lemma ExtSign_spec:
  assumes k: "signer_ok k" and m: "off + sz \<le> length m" and tbs: "take n m = tbs" "length tbs = n" "n < 2 ^ 32"
    and run: "wolfCose_ExtSign b W (Some k) alg m n off sz x = (ret, m', sn)"
  shows "\<exists>bs. length bs \<le> sz \<and> (m' = m \<or> m' = splice off bs m) \<and>
    (ret = WOLFCOSE_SUCCESS \<longrightarrow> delegated_sig b W k alg tbs bs \<and> m' = splice off bs m \<and> sn = length bs)"
proof (cases "key_signCb k = None \<or> sz = 0")
  case True
  then show ?thesis using run by (auto simp: wolfCose_ExtSign_def split: option.splits intro: exI [of _ "[]"])
next
  case False
  then obtain cb where cb: "key_signCb k = Some cb" "sz \<noteq> 0" by auto
  obtain r1 pre where e: "wolfCose_ExtSignAlg b alg False = (r1, pre)" by fastforce
  obtain rd ht h where d: "struct_digest b W alg tbs = (rd, ht, h)" by (metis prod_cases3)
  obtain r3 en where s: "wolfCose_SignSigLen b W (Some k) alg 0 = (r3, en)" by fastforce
  define msg where "msg = (if pre then h else tbs)"
  obtain cr buf bn where c: "cb alg msg (replicate en 0) = (cr, buf, bn)" by (metis prod_cases3)
  have lb: "length buf = en" using k cb(1) c unfolding signer_ok_def by fastforce
  note R = run [unfolded wolfCose_ExtSign_def cb(1) option.case if_not_P [OF cb(2)] w32_id [OF tbs(3)] tbs(1) e Let_def prod.case d s]
  show ?thesis
  proof (cases "r1 = WOLFCOSE_SUCCESS \<and> (pre \<longrightarrow> rd = WOLFCOSE_SUCCESS) \<and> r3 = WOLFCOSE_SUCCESS \<and> en \<le> sz")
    case False
    then show ?thesis using R by (intro exI [of _ "[]"]) (auto split: if_splits)
  next
    case True
    then have "m' = splice off buf m" "sn = bn"
      "ret = (if cr \<noteq> 0 then WOLFCOSE_E_CRYPTO else if bn = 0 \<or> bn > sz then WOLFCOSE_E_CRYPTO
         else if bn \<noteq> en then WOLFCOSE_E_CRYPTO else WOLFCOSE_SUCCESS)"
      using R c unfolding msg_def by (auto split: if_splits)
    moreover have "delegated_sig b W k alg tbs buf" if "cr = 0" "bn = en" "bn \<noteq> 0"
      using True that cb(1) e d s c lb unfolding delegated_sig_def msg_def
      by (auto intro!: exI [of _ cb] exI [of _ pre] exI [of _ msg] exI [of _ en] simp: msg_def)
    ultimately show ?thesis using lb True by (intro exI [of _ buf]) (auto split: if_splits)
  qed
qed

section \<open>The signature stage\<close>

definition sign1_inv :: "u8 list \<Rightarrow> size \<Rightarrow> u8 list \<Rightarrow> size \<Rightarrow> sign1_work \<Rightarrow> bool" where
  "sign1_inv ms ssz mo osz w \<longleftrightarrow> \<not> sw_fault w \<and> within ms ssz (sw_scratch w) \<and> within mo osz (ctx_buf (sw_out w))"

text \<open>The state in which a signature is made, and what making it leaves.\<close>

definition sign1_ready :: "size \<Rightarrow> cose_key \<Rightarrow> u8 list \<Rightarrow> sign1_work \<Rightarrow> bool" where
  "sign1_ready ssz k tbs w \<longleftrightarrow> sw_key w = Some k \<and> sw_sigPtr w = SIG_BUF \<and>
     (\<exists>m. sw_sigBuf w = Some m \<and> length m = sig_buf_sz) \<and> bytes_at (sw_scratch w) (sw_structLen w) = tbs \<and>
     sw_structLen w = length tbs \<and> length tbs \<le> ssz"

definition sign1_signed :: "sign1_work \<Rightarrow> u8 list \<Rightarrow> cose_key \<Rightarrow> sign1_work \<Rightarrow> bool" where
  "sign1_signed w sig k' w' \<longleftrightarrow> sw_key w' = Some k' \<and> readable (sw_sig w') (sw_sigSz w') \<and>
     bytes_at (sw_sig w') (sw_sigSz w') = sig \<and> sw_protected w' = sw_protected w \<and>
     sw_protectedLen w' = sw_protectedLen w"

lemma sw_tbs_ready: "sign1_ready ssz k tbs w \<Longrightarrow> ssz < 2 ^ 32 \<Longrightarrow> sw_tbs w = tbs"
  unfolding sign1_ready_def sw_tbs_def by (metis le_less_trans w32_id)

lemma sig_to_buf_signed:
  assumes "sign1_inv ms ssz mo osz w" "sign1_ready ssz k tbs w" "length sig \<le> sig_buf_sz"
  shows "sign1_inv ms ssz mo osz (sig_to_buf sig w)" "sign1_signed w sig k (sig_to_buf sig w)"
proof -
  obtain m where m: "sw_sigBuf w = Some m" "length m = sig_buf_sz" using assms(2) by (auto simp: sign1_ready_def)
  have e: "sig_to_buf sig w = w\<lparr>sw_sigBuf := Some (splice 0 sig m), sw_sigSz := length sig, sw_fault := sw_fault w\<rparr>"
    using m assms(3) by (simp add: sig_to_buf_def store_bytes_def)
  have "take (length sig) (splice 0 sig m) = sig" by (simp add: splice_def)
  then show "sign1_signed w sig k (sig_to_buf sig w)" using assms(2,3) m(2)
    by (simp add: e sign1_ready_def sign1_signed_def sw_sig_def)
  show "sign1_inv ms ssz mo osz (sig_to_buf sig w)" using assms(1) by (simp add: e sign1_inv_def)
qed

lemma sig_to_scratch_signed:
  assumes "sign1_inv ms ssz mo osz w" "ssz \<le> length ms" "ssz < 2 ^ 32" "off + length sig \<le> ssz" "sw_key w = Some k"
  shows "sign1_inv ms ssz mo osz (sig_to_scratch off sig w)" "sign1_signed w sig k (sig_to_scratch off sig w)"
proof -
  obtain m where m: "sw_scratch w = Some m" "length m = length ms" "drop ssz m = drop ssz ms"
    using assms(1) by (auto simp: sign1_inv_def within_def)
  obtain p' where p: "store_bytes off sig (sw_scratch w) = (p', False)" "within ms ssz p'"
    using within_store [of ms ssz "sw_scratch w" off sig] assms unfolding sign1_inv_def by blast
  have p': "p' = Some (splice off sig m)" using p(1) m assms(2,4) by (simp add: store_bytes_def)
  have e: "sig_to_scratch off sig w = w\<lparr>sw_scratch := p', sw_sigPtr := SIG_SCRATCH off, sw_sigSz := length sig, sw_fault := sw_fault w\<rparr>"
    using p(1) by (simp add: sig_to_scratch_def)
  have l: "off + length sig \<le> length m" using assms(2,4) m(2) by simp
  then have "length (splice off sig m) = length m" by simp
  moreover have "take (length sig) (drop off (splice off sig m)) = sig" using l by (simp add: splice_def)
  moreover have "length sig < 2 ^ 64" using assms(3,4) by simp
  ultimately show "sign1_signed w sig k (sig_to_scratch off sig w)" using assms(3,5) l
    by (simp add: e p' sign1_signed_def sw_sig_def)
  show "sign1_inv ms ssz mo osz (sig_to_scratch off sig w)" using assms(1) p(2) by (simp add: e sign1_inv_def)
qed

text \<open>A failure that leaves the state alone, and a signature written to one of the two places.\<close>

lemma signed_fails: "ret \<noteq> WOLFCOSE_SUCCESS \<Longrightarrow> E w \<Longrightarrow> staged E Q (ret, w)"
  by (simp add: staged_def)

lemma signed_to_buf:
  assumes "sig_ok W" "sign1_inv ms ssz mo osz w" "sign1_ready ssz k tbs w"
    and "local_sig b W k g alg tbs sig k" "length sig \<le> sig_buf_sz"
  shows "staged (sign1_inv ms ssz mo osz) (\<lambda>w'. \<exists>sig k'. local_sig b W k g alg tbs sig k' \<and> sign1_signed w sig k' w')
    (WOLFCOSE_SUCCESS, sig_to_buf sig w)"
  using sig_to_buf_signed [OF assms(2,3,5)] assms(4) unfolding staged_def by auto

lemma signed_to_scratch:
  assumes "sign1_inv ms ssz mo osz w" "sign1_ready ssz k tbs w" "ssz \<le> length ms" "ssz < 2 ^ 32"
    and "local_sig b W k g alg tbs sig k" "off + length sig \<le> ssz"
  shows "staged (sign1_inv ms ssz mo osz) (\<lambda>w'. \<exists>sig k'. local_sig b W k g alg tbs sig k' \<and> sign1_signed w sig k' w')
    (WOLFCOSE_SUCCESS, sig_to_scratch off sig w)"
  using sig_to_scratch_signed [OF assms(1,3,4,6)] assms(2,5) unfolding staged_def sign1_ready_def by auto

lemma sign1_eddsa_stage:
  assumes W: "sig_ok W" and i: "sign1_inv ms ssz mo osz w" and r: "sign1_ready ssz k tbs w" and z: "ssz < 2 ^ 32"
    and a: "wolfCose_AlgIsEddsa b alg"
  shows "staged (sign1_inv ms ssz mo osz) (\<lambda>w'. \<exists>sig k'. local_sig b W k g alg tbs sig k' \<and> sign1_signed w sig k' w')
    (sign1_eddsa b W alg k w)"
  using sig_okD(1,2) [OF W] i
  by (auto simp: sign1_eddsa_def eddsa_call_def Let_def sw_tbs_ready [OF r z] split: option.split
      intro!: signed_fails signed_to_buf [OF W i r] intro: local_sig.ed25519 [OF a] local_sig.ed448 [OF a])

lemma sign1_ecdsa_stage:
  assumes W: "sig_ok W" and i: "sign1_inv ms ssz mo osz w" and r: "sign1_ready ssz k tbs w" and z: "ssz < 2 ^ 32"
    and a: "wolfCose_AlgIsEcdsa b alg"
  shows "staged (sign1_inv ms ssz mo osz) (\<lambda>w'. \<exists>sig k'. local_sig b W k g alg tbs sig k' \<and> sign1_signed w sig k' w')
    (sign1_ecdsa b W alg k (Some g) w)"
proof -
  obtain m where m: "sw_sigBuf w = Some m" "length m = sig_buf_sz" and p: "sw_sigPtr w = SIG_BUF" and k: "sw_key w = Some k"
    using r by (auto simp: sign1_ready_def)
  obtain rd ht d where d: "struct_digest b W alg tbs = (rd, ht, d)" by (metis prod_cases3)
  obtain rs c where c: "wolfCose_CrvKeySize (key_crv k) (Some 0) = (rs, c)" by fastforce
  obtain re m' n where e: "wolfCose_EccSignRaw b W d m sig_buf_sz (the c) ht (Some g) (key_ecc k) = (re, m', n)"
    by (metis prod_cases3)
  note E = EccSignRaw_spec [OF W m(2) e]
  let ?w = "w\<lparr>sw_sigBuf := Some m', sw_sigSz := (if re = WOLFCOSE_SUCCESS then n else sw_sigSz w)\<rparr>"
  have i': "sign1_inv ms ssz mo osz ?w" using i by (simp add: sign1_inv_def)
  define ok where "ok \<longleftrightarrow> key_kty k = WOLFCOSE_KTY_EC2 \<and> wolfCose_AlgCheckCrv b alg (key_crv k) = WOLFCOSE_SUCCESS \<and>
     wolfCose_EccKeyCheckCurve (key_crv k) (key_ecc k) = WOLFCOSE_SUCCESS \<and> rd = WOLFCOSE_SUCCESS \<and> rs = WOLFCOSE_SUCCESS"
  note run = sign1_ecdsa_def Let_def sw_tbs_ready [OF r z] d prod.case c m(1) option.sel e
  show ?thesis
  proof (cases ok)
    case False
    then have "fst (sign1_ecdsa b W alg k (Some g) w) \<noteq> WOLFCOSE_SUCCESS \<and> snd (sign1_ecdsa b W alg k (Some g) w) = w"
      unfolding run ok_def by (simp split: if_splits)
    then show ?thesis using i by (simp add: staged_def)
  next
    case ok: True
    then have R: "sign1_ecdsa b W alg k (Some g) w = (re, ?w)" unfolding run ok_def by simp
    show ?thesis
    proof (cases "re = WOLFCOSE_SUCCESS")
      case False
      then show ?thesis unfolding R using i' by (intro signed_fails) simp_all
    next
      case True
      obtain e' der x y where s: "key_ecc k = Some e'" "deterministic_ecdsa b \<longrightarrow> sg_deterministic W e' ht"
        "sg_ecc_sign W e' (if deterministic_ecdsa b then Some ht else None) g d = Some der"
        "sg_sig_to_rs W der (the c) = Some (x, y)" "length x \<le> the c" "length y \<le> the c" "n \<le> sig_buf_sz"
        "take n m' = pad (the c) x @ pad (the c) y" using E(2) [OF True] by blast
      have c': "c = Some (the c)" using c ok by (auto simp: wolfCose_CrvKeySize_def ok_def split: if_splits)
      have l: "local_sig b W k g alg tbs (pad (the c) x @ pad (the c) y) k"
        using ok d c c' s unfolding ok_def by (intro local_sig.ecdsa [OF a]) simp_all
      moreover have "sign1_signed w (pad (the c) x @ pad (the c) y) k ?w"
        using True s(7,8) E(1) m(2) p k by (simp add: sign1_signed_def sw_sig_def)
      ultimately show ?thesis unfolding R staged_def fst_conv snd_conv using i' by blast
    qed
  qed
qed

lemma sign1_pss_stage:
  assumes W: "sig_ok W" and i: "sign1_inv ms ssz mo osz w" and r: "sign1_ready ssz k tbs w" and z: "ssz \<le> length ms" "ssz < 2 ^ 32"
    and a: "have_rsapss b" "is_pss alg"
  shows "staged (sign1_inv ms ssz mo osz) (\<lambda>w'. \<exists>sig k'. local_sig b W k g alg tbs sig k' \<and> sign1_signed w sig k' w')
    (sign1_pss b W alg k (Some g) ssz w)"
proof -
  obtain rd ht d where d: "struct_digest b W alg tbs = (rd, ht, d)" by (metis prod_cases3)
  obtain rm mgf where m: "wolfCose_HashToMgf b ht (Some WC_MGF1SHA256) = (rm, mgf)" by fastforce
  have m': "rm = WOLFCOSE_SUCCESS \<Longrightarrow> wolfCose_HashToMgf b ht (Some WC_MGF1SHA256) = (WOLFCOSE_SUCCESS, Some (the mgf))"
    using m by (auto simp: wolfCose_HashToMgf_def split: if_splits option.splits)
  have v: "key_rsa k = Some (the (key_rsa k))" if "fst (wolfCose_RsaPssCheckKey (Some k) None) = WOLFCOSE_SUCCESS"
    using that by (auto simp: wolfCose_RsaPssCheckKey_def split: option.splits if_splits)
  show ?thesis
    unfolding sign1_pss_def Let_def sw_tbs_ready [OF r z(2)] d prod.case m option.sel w32_id [OF z(2)]
    using i sig_okD(4) [OF W] d m' v
    by (auto split: option.split intro!: signed_fails signed_to_scratch [OF i r z] intro: local_sig.pss [OF a])
qed

lemma sign1_mldsa_stage:
  assumes W: "sig_ok W" and i: "sign1_inv ms ssz mo osz w" and r: "sign1_ready ssz k tbs w" and z: "ssz \<le> length ms" "ssz < 2 ^ 32"
    and a: "have_mldsa b" "is_mldsa alg"
  shows "staged (sign1_inv ms ssz mo osz) (\<lambda>w'. \<exists>sig k'. local_sig b W k g alg tbs sig k' \<and> sign1_signed w sig k' w')
    (sign1_mldsa b W alg k (Some g) ssz w)"
proof -
  obtain rz n where n: "wolfCose_SigSize b alg (Some 0) = (rz, n)" by fastforce
  have n': "rz = WOLFCOSE_SUCCESS \<Longrightarrow> wolfCose_SigSize b alg (Some 0) = (WOLFCOSE_SUCCESS, Some (the n))"
    "rz = WOLFCOSE_SUCCESS \<Longrightarrow> the n < 10000"
    using n by (auto simp: wolfCose_SigSize_def split: if_splits option.splits)
  have v: "key_mldsa k = Some (the (key_mldsa k))" if "wolfCose_MlDsaCheckKey (Some k) alg = WOLFCOSE_SUCCESS"
    using that by (auto simp: wolfCose_MlDsaCheckKey_def split: option.splits if_splits)
  have l: "sw_structLen w \<le> ssz" using r by (simp add: sign1_ready_def)
  have w: "w32 (the n) = the n" "sz_add (sw_structLen w) (the n) = sw_structLen w + the n" if "rz = WOLFCOSE_SUCCESS"
    using n'(2) [OF that] l z(2) by simp_all
  have f: "sw_structLen w + length sig \<le> ssz"
    if "sg_mldsa_sign W mk g tbs (the n) = Some sig" "\<not> ssz < sw_structLen w + the n" for mk sig
    using sig_okD(6) [OF W that(1)] that(2) by simp
  show ?thesis
    unfolding sign1_mldsa_def Let_def sw_tbs_ready [OF r z(2)] n prod.case option.sel
    using i n' v w f
    by (auto split: option.split intro!: signed_fails signed_to_scratch [OF i r z] intro: local_sig.mldsa [OF a])
qed

lemma sign1_lms_stage:
  assumes W: "sig_ok W" and i: "sign1_inv ms ssz mo osz w" and r: "sign1_ready ssz k tbs w" and z: "ssz \<le> length ms" "ssz < 2 ^ 32"
    and a: "have_lms b" "\<not> lms_verify_only b" "alg = WOLFCOSE_ALG_HSS_LMS"
  shows "staged (sign1_inv ms ssz mo osz) (\<lambda>w'. \<exists>sig k'. local_sig b W k g alg tbs sig k' \<and> sign1_signed w sig k' w')
    (sign1_lms W k ssz w)"
proof -
  have t: "bytes_at (sw_scratch w) (sw_structLen w) = tbs" "sw_structLen w = length tbs"
    using r unfolding sign1_ready_def by blast+
  note t = t t(1) [unfolded t(2)]
  define v where "v = the (key_lms k)"
  show ?thesis
  proof (cases "wolfCose_LmsCheckKey (Some k) = WOLFCOSE_SUCCESS \<and> lms_state v = WC_LMS_STATE_OK \<and> sg_lms_left W v = 1 \<and>
      length tbs \<le> INT_MAX \<and> (\<exists>n. sg_lms_sig_len W v = Some n \<and> length tbs + n \<le> ssz)")
    case False
    have "fst (sign1_lms W k ssz w) \<noteq> WOLFCOSE_SUCCESS \<and> snd (sign1_lms W k ssz w) = w"
      using False unfolding sign1_lms_def Let_def v_def [symmetric] t
      by (auto split: option.split)
    then show ?thesis using i by (simp add: staged_def)
  next
    case True
    then obtain n where n: "sg_lms_sig_len W v = Some n" "length tbs + n \<le> ssz" by blast
    have kv: "key_lms k = Some v"
      using True by (auto simp: v_def wolfCose_LmsCheckKey_def split: if_splits)
    obtain so v' where s: "sg_lms_sign W v tbs n = (so, v')" by fastforce
    have wn: "w32 n = n" using sig_okD(7) [OF W n(1)] by simp
    let ?w = "w\<lparr>sw_key := Some (k\<lparr>key_lms := Some v'\<rparr>)\<rparr>"
    have R: "sign1_lms W k ssz w = (case so of
        None \<Rightarrow> (WOLFCOSE_E_CRYPTO, w\<lparr>sw_key := Some (k\<lparr>key_lms := Some (lms_after_failure v')\<rparr>)\<rparr>)
      | Some sig \<Rightarrow> (WOLFCOSE_SUCCESS, sig_to_scratch (sw_structLen w) sig ?w))"
      using True n s wn unfolding sign1_lms_def Let_def v_def [symmetric] t by (auto split: option.split)
    show ?thesis
    proof (cases so)
      case None
      then show ?thesis unfolding R using i by (simp add: staged_def sign1_inv_def)
    next
      case (Some sig)
      have l: "length sig = n" using sig_okD(8) [OF W s [unfolded Some] n(1)] .
      have ls: "local_sig b W k g alg tbs sig (k\<lparr>key_lms := Some v'\<rparr>)"
        using True n(1) kv s Some by (intro local_sig.lms [OF a]) simp_all
      have i': "sign1_inv ms ssz mo osz ?w" using i by (simp add: sign1_inv_def)
      have o: "sw_structLen w + length sig \<le> ssz" using n(2) l t(2) by simp
      have kw: "sw_key ?w = Some (k\<lparr>key_lms := Some v'\<rparr>)" by simp
      note sc = sig_to_scratch_signed [OF i' z o kw]
      have "sign1_signed w sig (k\<lparr>key_lms := Some v'\<rparr>) (sig_to_scratch (sw_structLen w) sig ?w)"
        using sc(2) by (simp add: sign1_signed_def)
      then show ?thesis unfolding R Some option.case staged_def fst_conv snd_conv using sc(1) ls by blast
    qed
  qed
qed

lemma sign1_ext_stage:
  assumes k: "signer_ok k" and i: "sign1_inv ms ssz mo osz w" and r: "sign1_ready ssz k tbs w" and z: "ssz \<le> length ms" "ssz < 2 ^ 32"
  shows "staged (sign1_inv ms ssz mo osz) (\<lambda>w'. \<exists>sig. delegated_sig b W k alg tbs sig \<and> sign1_signed w sig k w')
    (sign1_ext b W alg ssz w)"
proof -
  obtain r1 pre where e: "wolfCose_ExtSignAlg b alg False = (r1, pre)" by fastforce
  define off where "off = (if pre then 0 else length tbs)"
  have kw: "sw_key w = Some k" and t: "bytes_at (sw_scratch w) (sw_structLen w) = tbs" "sw_structLen w = length tbs" "length tbs \<le> ssz"
    using r unfolding sign1_ready_def by blast+
  obtain m where m: "sw_scratch w = Some m" "length m = length ms" "drop ssz m = drop ssz ms" using i by (auto simp: sign1_inv_def within_def)
  obtain r2 m' sn where x: "wolfCose_ExtSign b W (Some k) alg m (length tbs) off (ssz - off) 0 = (r2, m', sn)" by (metis prod_cases3)
  have R: "sign1_ext b W alg ssz w = (if r1 \<noteq> WOLFCOSE_SUCCESS then (r1, w) else if ssz \<le> off then (WOLFCOSE_E_BUFFER_TOO_SMALL, w)
     else (r2, if r2 = WOLFCOSE_SUCCESS then w\<lparr>sw_scratch := Some m', sw_sigPtr := SIG_SCRATCH off, sw_sigSz := sn\<rparr>
            else w\<lparr>sw_scratch := Some m'\<rparr>))"
    unfolding sign1_ext_def e prod.case Let_def t(2) off_def [symmetric] kw m(1) option.sel x ..
  show ?thesis
  proof (cases "r1 = WOLFCOSE_SUCCESS \<and> off < ssz")
    case False
    then show ?thesis unfolding R using i by (auto simp: staged_def)
  next
    case True
    have bm: "take (length tbs) m = tbs" using t m(1) by simp
    have lt: "length tbs < 2 ^ 32" using t(3) z(2) by simp
    have fit: "off + (ssz - off) \<le> length m" using True z(1) m(2) by simp
    obtain bs where bs: "length bs \<le> ssz - off" "m' = m \<or> m' = splice off bs m"
      "r2 = WOLFCOSE_SUCCESS \<longrightarrow> delegated_sig b W k alg tbs bs \<and> m' = splice off bs m \<and> sn = length bs"
      using ExtSign_spec [OF k fit bm refl lt x] by blast
    have le: "off + length bs \<le> ssz" "off + length bs \<le> length m" using bs(1) True m(2) z(1) by linarith+
    then have sp: "length (splice off bs m) = length m" "drop ssz (splice off bs m) = drop ssz m"
      "take (length bs) (drop off (splice off bs m)) = bs"
      by (simp_all add: splice_def)
    have i': "sign1_inv ms ssz mo osz (w\<lparr>sw_scratch := Some m'\<rparr>)"
      using i bs(2) m sp(1,2) by (auto simp: sign1_inv_def within_def)
    have sg: "sign1_signed w bs k (w\<lparr>sw_scratch := Some (splice off bs m), sw_sigPtr := SIG_SCRATCH off, sw_sigSz := length bs\<rparr>)"
      using sp le z m(2) kw by (simp add: sign1_signed_def sw_sig_def)
    show ?thesis unfolding R using True i' bs(3) sg by (auto simp: staged_def sign1_inv_def)
  qed
qed

text \<open>The stage as a whole.\<close>

lemma sign1_signature_stage:
  assumes W: "sig_ok W" and k: "signer_ok k" and i: "sign1_inv ms ssz mo osz w" and r: "sign1_ready ssz k tbs w"
    and z: "ssz \<le> length ms" "ssz < 2 ^ 32" and g: "delegates b k \<or> rng \<noteq> None"
  shows "staged (sign1_inv ms ssz mo osz) (\<lambda>w'. \<exists>sig k'. signs b W k rng alg tbs sig k' \<and> sign1_signed w sig k' w')
    (sign1_signature b W alg rng ssz w)"
proof -
  have kw: "the (sw_key w) = k" using r by (simp add: sign1_ready_def)
  have mono: "staged E P x \<Longrightarrow> (\<And>w. P w \<Longrightarrow> Q w) \<Longrightarrow> staged E Q x" for E P Q and x :: "rc \<times> sign1_work"
    by (simp add: staged_def)
  show ?thesis
  proof (cases "delegates b k")
    case True
    then have R: "sign1_signature b W alg rng ssz w = sign1_ext b W alg ssz w"
      by (simp add: sign1_signature_def kw delegates_def)
    show ?thesis unfolding R signs_def if_P [OF True] by (rule mono [OF sign1_ext_stage [OF k i r z]]) blast
  next
    case False
    then obtain h where h: "rng = Some h" using g by blast
    have nd: "\<not> (ext_sign b \<and> key_signCb k \<noteq> None)" using False by (simp add: delegates_def)
    have "staged (sign1_inv ms ssz mo osz) (\<lambda>w'. \<exists>sig k'. local_sig b W k h alg tbs sig k' \<and> sign1_signed w sig k' w')
      (sign1_signature b W alg rng ssz w)"
      unfolding sign1_signature_def Let_def kw if_not_P [OF nd] h
      using sign1_eddsa_stage [OF W i r z(2), of b alg h] sign1_ecdsa_stage [OF W i r z(2), of b alg h]
        sign1_pss_stage [OF W i r z, of b alg h] sign1_mldsa_stage [OF W i r z, of b alg h] sign1_lms_stage [OF W i r z, of b alg h] i
      by (simp add: signed_fails)
    then show ?thesis unfolding signs_def if_not_P [OF False] h by (rule mono) blast
  qed
qed

section \<open>The bytes of a COSE_Sign1\<close>

definition sign1_tag :: "u32 \<Rightarrow> u8 list" where
  "sign1_tag flags = (if sign1_tagged flags then cbor_head 6 18 else [])"

lemma sign1_encode_writes:
  assumes "readable p n" "readable kid kidLen" "\<not> detached \<longrightarrow> readable pl pln" "readable t tn"
  shows "cbor_writer (sign1_encode flags p n kid kidLen detached pl pln t tn)
    (sign1_tag flags @ msg4_bytes (bytes_at p n) (kid_of kid kidLen)
       (if detached then None else Some (bytes_at pl pln)) (bytes_at t tn))"
proof -
  let ?k = "kid \<noteq> None \<and> kidLen > 0"
  let ?d = "if detached then [0xF6] else str_bytes 2 (bytes_at pl pln)"
  have g: "cbor_writer (\<lambda>ctx. if sign1_tagged flags then wc_CBOR_EncodeTag ctx WOLFCOSE_TAG_SIGN1 else (WOLFCOSE_SUCCESS, ctx))
      (if sign1_tagged flags then cbor_head 6 (unat WOLFCOSE_TAG_SIGN1) else [])"
    using tag.cbor_writer_axioms [of WOLFCOSE_TAG_SIGN1] writer_nothing by simp
  have k: "cbor_writer (\<lambda>ctx. if ?k then on_success (wc_CBOR_EncodeUint ctx WOLFCOSE_HDR_KID)
        (\<lambda>ctx. wc_CBOR_EncodeBstr ctx kid kidLen) else (WOLFCOSE_SUCCESS, ctx))
      (if ?k then cbor_head 0 (unat WOLFCOSE_HDR_KID) @ str_bytes 2 (bytes_at kid kidLen) else [])"
    using writer_seq [OF uint.cbor_writer_axioms [of WOLFCOSE_HDR_KID] writer_str(1)] assms(2) writer_nothing by auto
  have d: "cbor_writer (\<lambda>ctx. if detached then wc_CBOR_EncodeNull ctx else wc_CBOR_EncodeBstr ctx pl pln) ?d"
    using null_val.cbor_writer_axioms writer_str(1) [of pl pln] assms(3) by simp
  have "cbor_writer (sign1_encode flags p n kid kidLen detached pl pln t tn)
     (((((((if sign1_tagged flags then cbor_head 6 (unat WOLFCOSE_TAG_SIGN1) else []) @ cbor_head 4 (4 mod 2 ^ 64)) @ str_bytes 2 (bytes_at p n)) @
        cbor_head 5 ((if ?k then 1 else 0) mod 2 ^ 64)) @
        (if ?k then cbor_head 0 (unat WOLFCOSE_HDR_KID) @ str_bytes 2 (bytes_at kid kidLen) else [])) @ ?d) @
        str_bytes 2 (bytes_at t tn))"
    unfolding sign1_encode_def [abs_def] Let_def
    by (intro writer_seq array.cbor_writer_axioms map.cbor_writer_axioms writer_str(1) g k d assms(1,4))
  then show ?thesis
    by (cases kid; cases "kidLen = 0"; cases detached; cases "sign1_tagged flags";
        simp add: msg4_bytes_def kid_map_def kid_of_def payload_bytes_def sign1_tag_def)
qed

section \<open>Signing\<close>

lemma sign1_protected_stage:
  assumes "sign1_inv ms ssz mo osz w" "sw_protected w = Some p" "length p = protected_hdr_max b"
  shows "settles (sign1_inv ms ssz mo osz) (length (alg_hdr alg) \<le> protected_hdr_max b)
    (w\<lparr>sw_protected := Some (splice 0 (alg_hdr alg) p), sw_protectedLen := length (alg_hdr alg)\<rparr>)
    (sign1_protected b alg w)"
  using EncodeProtectedHdr_spec [of "protected_hdr_max b" p alg "sw_protectedLen w"] assms
  by (auto simp: sign1_protected_def settles_def sign1_inv_def split: if_splits)

lemma sign1_struct_stage:
  assumes i: "sign1_inv ms ssz mo osz w" and w: "sw_scratch w = Some ms" "ssz \<le> length ms"
    and r: "readable (sw_protected w) (sw_protectedLen w)" "readable ea ean" "readable pl pln"
    and tbs: "tbs = tbs_bytes WOLFCOSE_CTX_SIGNATURE1 (bytes_at (sw_protected w) (sw_protectedLen w)) None
                (bytes_at ea ean) (bytes_at pl pln)"
  shows "settles (sign1_inv ms ssz mo osz) (length tbs \<le> ssz)
    (w\<lparr>sw_scratch := Some (splice 0 tbs ms), sw_structLen := length tbs\<rparr>) (sign1_struct ea ean pl pln ssz w)"
proof -
  obtain ret c n where b: "wolfCose_BuildSigStructure (sw_protected w) (sw_protectedLen w) ea ean pl pln
      (Some ms) ssz (sw_structLen w) = (ret, c, n)" by (metis prod_cases3)
  show ?thesis
    using BuildToBeSignedMaced_spec [OF contexts_ok(1) r(1) _ r(2,3) w(2) b [unfolded wolfCose_BuildSigStructure_def]]
      i w b
    by (auto simp: sign1_struct_def settles_def sign1_inv_def tbs ptr_bytes_def Let_def within_def split: if_splits)
qed

lemma sign1_output_stage:
  assumes i: "sign1_inv ms ssz mo osz w" and o: "osz \<le> length mo"
    and r: "readable (sw_protected w) (sw_protectedLen w)" "readable kid kidLen" "\<not> detached \<longrightarrow> readable pl pln"
      "readable (sw_sig w) (sw_sigSz w)"
    and bs: "bs = sign1_tag flags @ msg4_bytes (bytes_at (sw_protected w) (sw_protectedLen w)) (kid_of kid kidLen)
                (if detached then None else Some (bytes_at pl pln)) (bytes_at (sw_sig w) (sw_sigSz w))"
  shows "settles (sign1_inv ms ssz mo osz) (length bs \<le> osz)
    (w\<lparr>sw_out := append_out (fresh mo osz) bs\<rparr>)
    (sign1_output flags kid kidLen detached pl pln (Some mo) osz w)"
proof -
  let ?f = "sign1_encode flags (sw_protected w) (sw_protectedLen w) kid kidLen detached pl pln (sw_sig w) (sw_sigSz w)"
  obtain ret c where f: "?f (fresh mo osz) = (ret, c)" by fastforce
  have w: "cbor_writer ?f bs" unfolding bs by (rule sign1_encode_writes [OF r])
  note h = writer_fresh [OF w o f]
  have c: "c = append_out (fresh mo osz) bs" if "length bs \<le> osz"
    using cbor_writer.fits [OF w fresh_ctx [OF o]] f that by (simp add: fresh_def)
  have m: "sign1_output flags kid kidLen detached pl pln (Some mo) osz w =
      (ret, w\<lparr>sw_out := c, sw_fault := (sw_fault w \<or> ctx_fault c)\<rparr>)"
    using f by (simp add: sign1_output_def fresh_def)
  show ?thesis
    unfolding m using h c i by (intro settlesI) (auto simp: sign1_inv_def within_def)
qed

text \<open>What is signed, and the message.\<close>

definition sign1_tbs :: "i32 \<Rightarrow> u8 list \<Rightarrow> u8 list \<Rightarrow> u8 list" where
  "sign1_tbs alg ext pl = tbs_bytes WOLFCOSE_CTX_SIGNATURE1 (alg_hdr alg) None ext pl"

definition sign1_bytes :: "u32 \<Rightarrow> i32 \<Rightarrow> u8 list option \<Rightarrow> u8 list option \<Rightarrow> u8 list \<Rightarrow> u8 list" where
  "sign1_bytes flags alg kid po sig = sign1_tag flags @ msg4_bytes (alg_hdr alg) kid po sig"

text \<open>The state the signature is made in, and the condition for an LMS signature.\<close>

definition sign1_prepared :: "build \<Rightarrow> cose_key option \<Rightarrow> i32 \<Rightarrow> u8 list \<Rightarrow> u8 list \<Rightarrow> u8 list \<Rightarrow> size \<Rightarrow> sign1_work" where
  "sign1_prepared b key alg tbs ms mo osz = (sign1_work0 b key (Some ms) (Some mo) osz)
     \<lparr>sw_protected := Some (splice 0 (alg_hdr alg) (replicate (protected_hdr_max b) 0)), sw_protectedLen := length (alg_hdr alg),
      sw_scratch := Some (splice 0 tbs ms), sw_structLen := length tbs\<rparr>"

definition lms_room :: "build \<Rightarrow> wolfsig \<Rightarrow> cose_key option \<Rightarrow> i32 \<Rightarrow> size \<Rightarrow> size \<Rightarrow> size \<Rightarrow> u32 \<Rightarrow> size \<Rightarrow> bool" where
  "lms_room b W key alg kidLen pln dn flags osz \<longleftrightarrow> (have_lms b \<and> alg = WOLFCOSE_ALG_HSS_LMS \<longrightarrow>
     (\<exists>n. wc_CoseSign1_SignSize_ex b W key alg kidLen pln dn flags (Some 0) = (WOLFCOSE_SUCCESS, Some n) \<and> n \<le> osz))"

lemma protected_prefix:
  assumes "length (alg_hdr alg) \<le> protected_hdr_max b"
  shows "bytes_at (Some (splice 0 (alg_hdr alg) (replicate (protected_hdr_max b) 0))) (length (alg_hdr alg)) = alg_hdr alg"
    "readable (Some (splice 0 (alg_hdr alg) (replicate (protected_hdr_max b) 0))) (length (alg_hdr alg))"
  using assms length_alg_hdr [of alg] splice_prefix [of "alg_hdr alg" "replicate (protected_hdr_max b) 0"]
    readable_splice [of "alg_hdr alg" "replicate (protected_hdr_max b) 0"] by simp_all

lemma SignSize_Some:
  "\<exists>ret n. wc_CoseSign1_SignSize_ex b W key alg kidLen pln dn flags (Some x) = (ret, Some n)"
  by (simp add: wc_CoseSign1_SignSize_ex_def split: prod.split)

lemma sign1_prepare:
  assumes s: "ssz \<le> length ms" and r: "readable ea ean" "readable sp spn"
    and tbs: "tbs = sign1_tbs alg (bytes_at ea ean) (bytes_at sp spn)"
  shows "settles (sign1_inv ms ssz mo osz)
    ((length (alg_hdr alg) \<le> protected_hdr_max b \<and> length tbs \<le> ssz) \<and> lms_room b W key alg kidLen pln dn flags osz)
    (sign1_prepared b key alg tbs ms mo osz)
    (on_success (on_success (sign1_protected b alg (sign1_work0 b key (Some ms) (Some mo) osz))
       (sign1_struct ea ean sp spn ssz)) (sign1_lms_room b W alg kidLen pln dn flags osz))"
proof -
  let ?E = "sign1_inv ms ssz mo osz" and ?w0 = "sign1_work0 b key (Some ms) (Some mo) osz"
  let ?p = "splice 0 (alg_hdr alg) (replicate (protected_hdr_max b) 0)"
  let ?w1 = "?w0\<lparr>sw_protected := Some ?p, sw_protectedLen := length (alg_hdr alg)\<rparr>"
  have i0: "?E ?w0" by (simp add: sign1_inv_def sign1_work0_def)
  have 1: "settles ?E (length (alg_hdr alg) \<le> protected_hdr_max b) ?w1 (sign1_protected b alg ?w0)"
    by (rule sign1_protected_stage [OF i0]) (simp_all add: sign1_work0_def)
  have 2: "settles ?E (length tbs \<le> ssz) (sign1_prepared b key alg tbs ms mo osz) (sign1_struct ea ean sp spn ssz ?w1)"
    if l: "length (alg_hdr alg) \<le> protected_hdr_max b"
  proof -
    have i1: "?E ?w1" using i0 by (simp add: sign1_inv_def)
    have f: "sw_scratch ?w1 = Some ms" "sw_protected ?w1 = Some ?p" "sw_protectedLen ?w1 = length (alg_hdr alg)"
      by (simp_all add: sign1_work0_def)
    note st = sign1_struct_stage [OF i1 f(1) s _ r, unfolded f(2,3), OF protected_prefix(2) [OF l] refl,
        unfolded protected_prefix(1) [OF l], folded sign1_tbs_def, folded tbs]
    then show ?thesis by (simp add: sign1_prepared_def)
  qed
  have 3: "settles ?E (lms_room b W key alg kidLen pln dn flags osz) (sign1_prepared b key alg tbs ms mo osz)
      (sign1_lms_room b W alg kidLen pln dn flags osz (sign1_prepared b key alg tbs ms mo osz))"
    if l: "length (alg_hdr alg) \<le> protected_hdr_max b \<and> length tbs \<le> ssz"
  proof -
    have i: "?E (sign1_prepared b key alg tbs ms mo osz)"
      using l s within_splice [of tbs ssz ms] by (simp add: sign1_inv_def sign1_prepared_def sign1_work0_def)
    have k: "sw_key (sign1_prepared b key alg tbs ms mo osz) = key" by (simp add: sign1_prepared_def sign1_work0_def)
    obtain ret n where n: "wc_CoseSign1_SignSize_ex b W key alg kidLen pln dn flags (Some 0) = (ret, Some n)"
      using SignSize_Some by blast
    show ?thesis unfolding sign1_lms_room_def lms_room_def k n prod.case using i by (auto simp: settles_def)
  qed
  show ?thesis
    by (rule settles_next, rule settles_next [OF 1], erule 2, erule 3)
qed

lemma sign1_prepared_ready:
  assumes "length tbs \<le> ssz" "ssz \<le> length ms"
  shows "sign1_ready ssz k tbs (sign1_prepared b (Some k) alg tbs ms mo osz)"
    "sign1_inv ms ssz mo osz (sign1_prepared b key alg tbs ms mo osz)"
proof -
  show "sign1_ready ssz k tbs (sign1_prepared b (Some k) alg tbs ms mo osz)"
    using assms splice_prefix [of tbs ms] by (simp add: sign1_ready_def sign1_prepared_def sign1_work0_def)
  show "sign1_inv ms ssz mo osz (sign1_prepared b key alg tbs ms mo osz)"
    using assms within_splice [of tbs ssz ms] by (simp add: sign1_inv_def sign1_prepared_def sign1_work0_def)
qed

text \<open>A run after the checks: up to the signature, and the output.\<close>

lemma sign1_made:
  assumes W: "sig_ok W" and k: "signer_ok k" and s: "ssz \<le> length ms" "ssz < 2 ^ 32"
    and r: "readable payload payloadLen" "readable detached detachedLen" "readable ea ean"
    and g: "delegates b k \<or> rng \<noteq> None"
    and pl: "pl = (if detached \<noteq> None then bytes_at detached detachedLen else bytes_at payload payloadLen)"
    and tbs: "tbs = sign1_tbs alg (bytes_at ea ean) pl"
    and prep: "prep = on_success (on_success (sign1_protected b alg (sign1_work0 b (Some k) (Some ms) (Some mo) osz))
       (sign1_struct ea ean (if detached \<noteq> None then detached else payload)
         (if detached \<noteq> None then detachedLen else payloadLen) ssz))
       (sign1_lms_room b W alg kidLen payloadLen detachedLen flags osz)"
  shows "staged (sign1_inv ms ssz mo osz) (\<lambda>w. lms_room b W (Some k) alg kidLen payloadLen detachedLen flags osz \<and>
      length (alg_hdr alg) \<le> protected_hdr_max b \<and> length tbs \<le> ssz \<and>
      (\<exists>sig k'. signs b W k rng alg tbs sig k' \<and> sign1_signed (sign1_prepared b (Some k) alg tbs ms mo osz) sig k' w))
    (on_success prep (sign1_signature b W alg rng ssz))"
proof -
  let ?E = "sign1_inv ms ssz mo osz" and ?w = "sign1_prepared b (Some k) alg tbs ms mo osz"
  let ?fit = "(length (alg_hdr alg) \<le> protected_hdr_max b \<and> length tbs \<le> ssz) \<and>
    lms_room b W (Some k) alg kidLen payloadLen detachedLen flags osz"
  have sp: "readable (if detached \<noteq> None then detached else payload) (if detached \<noteq> None then detachedLen else payloadLen)"
    using r(1,2) by simp
  have bp: "bytes_at (if detached \<noteq> None then detached else payload) (if detached \<noteq> None then detachedLen else payloadLen) = pl"
    by (simp add: pl)
  note p = sign1_prepare [OF s(1) r(3) sp tbs [folded bp], where mo = mo and osz = osz and b = b and W = W and key = "Some k" and
      kidLen = kidLen and pln = payloadLen and dn = detachedLen and flags = flags, folded prep]
  have 1: "staged ?E (\<lambda>w. w = ?w \<and> ?fit) prep"
    using p sign1_prepared_ready(2) [OF _ s(1)] by (auto simp: settles_def staged_def split: if_splits)
  show ?thesis
  proof (rule staged_next [OF 1])
    fix w assume w: "?E w" "w = ?w \<and> ?fit"
    then show "staged ?E (\<lambda>w'. lms_room b W (Some k) alg kidLen payloadLen detachedLen flags osz \<and>
      length (alg_hdr alg) \<le> protected_hdr_max b \<and> length tbs \<le> ssz \<and>
      (\<exists>sig k'. signs b W k rng alg tbs sig k' \<and> sign1_signed ?w sig k' w')) (sign1_signature b W alg rng ssz w)"
      using sign1_signature_stage [OF W k _ _ s g, where mo = mo and osz = osz and w = w and tbs = tbs and alg = alg]
        sign1_prepared_ready [OF _ s(1)]
      by (simp add: staged_def)
  qed
qed

lemma sign1_written:
  assumes i: "sign1_inv ms ssz mo osz w" and o: "osz \<le> length mo" and r: "readable kid kidLen" "readable payload payloadLen"
    and l: "length (alg_hdr alg) \<le> protected_hdr_max b"
    and w: "sign1_signed (sign1_prepared b (Some k) alg tbs ms mo osz) sig k' w"
    and po: "po = (if detached \<noteq> None then None else Some (bytes_at payload payloadLen))"
    and bs: "bs = sign1_bytes flags alg (kid_of kid kidLen) po sig"
  shows "settles (sign1_inv ms ssz mo osz) (length bs \<le> osz) (w\<lparr>sw_out := append_out (fresh mo osz) bs\<rparr>)
    (sign1_output flags kid kidLen (detached \<noteq> None) payload payloadLen (Some mo) osz w)"
proof -
  have f: "readable (sw_sig w) (sw_sigSz w)" "bytes_at (sw_sig w) (sw_sigSz w) = sig"
    "sw_protected w = Some (splice 0 (alg_hdr alg) (replicate (protected_hdr_max b) 0))" "sw_protectedLen w = length (alg_hdr alg)"
    using w by (simp_all add: sign1_signed_def sign1_prepared_def)
  have rp: "\<not> detached \<noteq> None \<longrightarrow> readable payload payloadLen" using r(2) by simp
  have rq: "readable (sw_protected w) (sw_protectedLen w)" unfolding f(3,4) by (rule protected_prefix(2) [OF l])
  show ?thesis
    by (rule sign1_output_stage [OF i o rq r(1) rp f(1)])
      (simp only: f(2,3,4) protected_prefix(1) [OF l] bs po sign1_bytes_def)
qed

lemma sign1_run:
  assumes W: "sig_ok W" and k: "signer_ok k" and s: "ssz \<le> length ms" "ssz < 2 ^ 32" and o: "osz \<le> length mo"
    and r: "readable kid kidLen" "readable payload payloadLen" "readable detached detachedLen" "readable ea ean"
    and g: "delegates b k \<or> rng \<noteq> None"
    and pl: "pl = (if detached \<noteq> None then bytes_at detached detachedLen else bytes_at payload payloadLen)"
    and po: "po = (if detached \<noteq> None then None else Some pl)"
    and tbs: "tbs = sign1_tbs alg (bytes_at ea ean) pl"
    and prep: "prep = on_success (on_success (sign1_protected b alg (sign1_work0 b (Some k) (Some ms) (Some mo) osz))
       (sign1_struct ea ean (if detached \<noteq> None then detached else payload)
         (if detached \<noteq> None then detachedLen else payloadLen) ssz))
       (sign1_lms_room b W alg kidLen payloadLen detachedLen flags osz)"
  shows "staged (sign1_inv ms ssz mo osz) (\<lambda>w. \<exists>sig k'. let bs = sign1_bytes flags alg (kid_of kid kidLen) po sig in
      length (alg_hdr alg) \<le> protected_hdr_max b \<and> length tbs \<le> ssz \<and> signs b W k rng alg tbs sig k' \<and>
      sw_key w = Some k' \<and> length bs \<le> osz \<and> sw_out w = append_out (fresh mo osz) bs)
    (on_success (on_success prep (sign1_signature b W alg rng ssz))
       (sign1_output flags kid kidLen (detached \<noteq> None) payload payloadLen (Some mo) osz))"
proof (rule staged_next [OF sign1_made [OF W k s r(2-4) g pl tbs prep]])
  fix w
  let ?E = "sign1_inv ms ssz mo osz" and ?w = "sign1_prepared b (Some k) alg tbs ms mo osz"
  let ?out = "sign1_output flags kid kidLen (detached \<noteq> None) payload payloadLen (Some mo) osz w"
  assume i: "?E w" and "lms_room b W (Some k) alg kidLen payloadLen detachedLen flags osz \<and>
      length (alg_hdr alg) \<le> protected_hdr_max b \<and> length tbs \<le> ssz \<and>
      (\<exists>sig k'. signs b W k rng alg tbs sig k' \<and> sign1_signed ?w sig k' w)"
  then obtain sig k' where w: "length (alg_hdr alg) \<le> protected_hdr_max b" "length tbs \<le> ssz" "signs b W k rng alg tbs sig k'"
    "sign1_signed ?w sig k' w" by blast
  define bs where "bs = sign1_bytes flags alg (kid_of kid kidLen) po sig"
  have p: "po = (if detached \<noteq> None then None else Some (bytes_at payload payloadLen))" by (simp add: po pl)
  note st = sign1_written [OF i o r(1,2) w(1,4) p bs_def]
  have kw: "sw_key w = Some k'" using w(4) by (simp add: sign1_signed_def)
  have i': "?E (w\<lparr>sw_out := append_out (fresh mo osz) bs\<rparr>)" if "length bs \<le> osz"
    using i append_out_within [OF o that] by (simp add: sign1_inv_def)
  show "staged ?E (\<lambda>w. \<exists>sig k'. let bs = sign1_bytes flags alg (kid_of kid kidLen) po sig in
      length (alg_hdr alg) \<le> protected_hdr_max b \<and> length tbs \<le> ssz \<and> signs b W k rng alg tbs sig k' \<and>
      sw_key w = Some k' \<and> length bs \<le> osz \<and> sw_out w = append_out (fresh mo osz) bs) ?out"
    unfolding staged_def
  proof (intro conjI impI)
    show "?E (snd ?out)" using st i' unfolding settles_def by (cases "fst ?out = WOLFCOSE_SUCCESS") auto
    assume "fst ?out = WOLFCOSE_SUCCESS"
    then have q: "length bs \<le> osz" "snd ?out = w\<lparr>sw_out := append_out (fresh mo osz) bs\<rparr>"
      using st unfolding settles_def by auto
    show "\<exists>sig k'. let bs = sign1_bytes flags alg (kid_of kid kidLen) po sig in
        length (alg_hdr alg) \<le> protected_hdr_max b \<and> length tbs \<le> ssz \<and> signs b W k rng alg tbs sig k' \<and>
        sw_key (snd ?out) = Some k' \<and> length bs \<le> osz \<and> sw_out (snd ?out) = append_out (fresh mo osz) bs"
      unfolding q(2) Let_def
      by (rule exI [of _ sig], rule exI [of _ k']) (use w kw q(1) in \<open>simp add: bs_def\<close>)
  qed
qed

text \<open>Signing is the run after the checks, followed by the clean-up.\<close>

lemma Sign1_Sign_parts:
  assumes chk: "chk = sign1_checks b key alg kid kidLen payload payloadLen detached detachedLen ean
       scratch ssz out osz outLen rng flags"
    and run: "run = on_success (on_success (on_success (on_success (sign1_protected b alg (sign1_work0 b key scratch out osz))
       (sign1_struct ea ean (if detached \<noteq> None then detached else payload)
         (if detached \<noteq> None then detachedLen else payloadLen) ssz))
       (sign1_lms_room b W alg kidLen payloadLen detachedLen flags osz))
       (sign1_signature b W alg rng ssz))
       (sign1_output flags kid kidLen (detached \<noteq> None) payload payloadLen out osz)"
    and r: "r = (if chk = WOLFCOSE_SUCCESS then run else (chk, sign1_work0 b key scratch out osz))"
  shows "wc_CoseSign1_Sign_ex b W key alg kid kidLen payload payloadLen detached detachedLen ea ean
       scratch ssz out osz outLen rng flags =
     (fst r, wolfCose_ForceZero (sw_scratch (snd r)) ssz,
      if fst r = WOLFCOSE_SUCCESS then ctx_buf (sw_out (snd r)) else wolfCose_ForceZero (ctx_buf (sw_out (snd r))) osz,
      if fst r = WOLFCOSE_SUCCESS then Some (ctx_idx (sw_out (snd r))) else map_option (\<lambda>_. 0) outLen,
      sw_key (snd r), sw_fault (snd r))"
proof -
  have chain: "on_success (on_success (on_success (on_success (on_success (chk, sign1_work0 b key scratch out osz)
       (sign1_protected b alg))
       (sign1_struct ea ean (if detached \<noteq> None then detached else payload)
         (if detached \<noteq> None then detachedLen else payloadLen) ssz))
       (sign1_lms_room b W alg kidLen payloadLen detachedLen flags osz))
       (sign1_signature b W alg rng ssz))
       (sign1_output flags kid kidLen (detached \<noteq> None) payload payloadLen out osz) = r"
    unfolding r run by (cases "chk = WOLFCOSE_SUCCESS") simp_all
  show ?thesis unfolding wc_CoseSign1_Sign_ex_def chk [symmetric] Let_def chain ..
qed

lemma sign1_checksD:
  assumes "sign1_checks b key alg kid kidLen payload payloadLen detached detachedLen ean
       scratch ssz out osz outLen rng flags = WOLFCOSE_SUCCESS"
  shows "\<exists>k. key = Some k \<and> (delegates b k \<or> rng \<noteq> None) \<and> (key_alg k = WOLFCOSE_ALG_UNSET \<or> key_alg k = alg) \<and>
      wolfCose_KeyCanSign b k"
    and "ssz < 2 ^ 32" "osz < 2 ^ 32" "payloadLen < 2 ^ 32" "detachedLen < 2 ^ 32" "sign1_flags_ok flags"
    and "(payload = None) = (detached \<noteq> None)" "(kid = None) = (kidLen = 0)"
  using assms by (auto simp: sign1_checks_def Let_def delegates_def wolfCose_LenFitsWord32_def split: if_splits)

lemma Sign1_Sign_outcome:
  assumes W: "sig_ok W" and k: "\<forall>k. key = Some k \<longrightarrow> signer_ok k" and bufs: "ssz \<le> length ms" "osz \<le> length mo"
    and rd: "readable kid kidLen" "readable payload payloadLen" "readable detached detachedLen" "readable ea ean"
    and run: "wc_CoseSign1_Sign_ex b W key alg kid kidLen payload payloadLen detached detachedLen ea ean
       (Some ms) ssz (Some mo) osz outLen rng flags = (ret, scratch', out', outLen', key', fault)"
    and pl: "pl = (if detached \<noteq> None then bytes_at detached detachedLen else bytes_at payload payloadLen)"
    and po: "po = (if detached \<noteq> None then None else Some pl)"
    and tbs: "tbs = sign1_tbs alg (bytes_at ea ean) pl"
    and bs: "\<And>sig. bs sig = sign1_bytes flags alg (kid_of kid kidLen) po sig"
  shows "\<not> fault \<and> scratch' = Some (splice 0 (replicate ssz 0) ms)"
    and "ret = WOLFCOSE_SUCCESS \<Longrightarrow> \<exists>k k' sig. key = Some k \<and> key' = Some k' \<and> signs b W k rng alg tbs sig k' \<and>
       length tbs \<le> ssz \<and> length (alg_hdr alg) \<le> protected_hdr_max b \<and>
       length (bs sig) \<le> osz \<and> out' = Some (splice 0 (bs sig) mo) \<and> outLen' = Some (length (bs sig))"
    and "ret \<noteq> WOLFCOSE_SUCCESS \<Longrightarrow> out' = Some (splice 0 (replicate osz 0) mo) \<and> outLen' = map_option (\<lambda>_. 0) outLen"
    and "ret = WOLFCOSE_SUCCESS \<Longrightarrow> sign1_checks b key alg kid kidLen payload payloadLen detached detachedLen ean
       (Some ms) ssz (Some mo) osz outLen rng flags = WOLFCOSE_SUCCESS"
proof -
  define chk where "chk = sign1_checks b key alg kid kidLen payload payloadLen detached detachedLen ean
       (Some ms) ssz (Some mo) osz outLen rng flags"
  let ?w0 = "sign1_work0 b key (Some ms) (Some mo) osz" and ?E = "sign1_inv ms ssz mo osz"
  define prep where "prep = on_success (on_success (sign1_protected b alg ?w0)
       (sign1_struct ea ean (if detached \<noteq> None then detached else payload)
         (if detached \<noteq> None then detachedLen else payloadLen) ssz))
       (sign1_lms_room b W alg kidLen payloadLen detachedLen flags osz)"
  define body where "body = on_success (on_success prep (sign1_signature b W alg rng ssz))
       (sign1_output flags kid kidLen (detached \<noteq> None) payload payloadLen (Some mo) osz)"
  define r where "r = (if chk = WOLFCOSE_SUCCESS then body else (chk, ?w0))"
  note parts = run [symmetric, unfolded Sign1_Sign_parts [OF chk_def body_def [unfolded prep_def] r_def]]
  have fields: "ret = fst r" "scratch' = wolfCose_ForceZero (sw_scratch (snd r)) ssz"
      "out' = (if ret = WOLFCOSE_SUCCESS then ctx_buf (sw_out (snd r)) else wolfCose_ForceZero (ctx_buf (sw_out (snd r))) osz)"
      "outLen' = (if ret = WOLFCOSE_SUCCESS then Some (ctx_idx (sw_out (snd r))) else map_option (\<lambda>_. 0) outLen)"
      "key' = sw_key (snd r)" "fault = sw_fault (snd r)"
    using parts by simp_all
  have st: "staged ?E (\<lambda>w. \<exists>k sig k'. key = Some k \<and> length (alg_hdr alg) \<le> protected_hdr_max b \<and> length tbs \<le> ssz \<and>
      signs b W k rng alg tbs sig k' \<and> sw_key w = Some k' \<and> length (bs sig) \<le> osz \<and>
      sw_out w = append_out (fresh mo osz) (bs sig)) r"
  proof (cases "chk = WOLFCOSE_SUCCESS")
    case True
    obtain k where kk: "key = Some k" "delegates b k \<or> rng \<noteq> None" using sign1_checksD(1) [OF True [unfolded chk_def]] by blast
    have so: "signer_ok k" using k kk(1) by blast
    from sign1_run [OF W so bufs(1) sign1_checksD(2) [OF True [unfolded chk_def]] bufs(2) rd kk(2) pl po tbs prep_def [unfolded kk(1)]]
    have "staged ?E (\<lambda>w. \<exists>sig k'. let bs = sign1_bytes flags alg (kid_of kid kidLen) po sig in
      length (alg_hdr alg) \<le> protected_hdr_max b \<and> length tbs \<le> ssz \<and> signs b W k rng alg tbs sig k' \<and>
      sw_key w = Some k' \<and> length bs \<le> osz \<and> sw_out w = append_out (fresh mo osz) bs) body" unfolding body_def .
    then show ?thesis unfolding r_def if_P [OF True] Let_def bs kk(1) by simp
  next
    case False
    then show ?thesis by (simp add: r_def staged_def sign1_inv_def sign1_work0_def)
  qed
  show "\<not> fault \<and> scratch' = Some (splice 0 (replicate ssz 0) ms)"
    using st fields within_zero unfolding staged_def sign1_inv_def by auto
  show "\<exists>k k' sig. key = Some k \<and> key' = Some k' \<and> signs b W k rng alg tbs sig k' \<and> length tbs \<le> ssz \<and>
       length (alg_hdr alg) \<le> protected_hdr_max b \<and>
       length (bs sig) \<le> osz \<and> out' = Some (splice 0 (bs sig) mo) \<and> outLen' = Some (length (bs sig))" if ok: "ret = WOLFCOSE_SUCCESS"
  proof -
    obtain k sig k' where x: "key = Some k" "length (alg_hdr alg) \<le> protected_hdr_max b" "length tbs \<le> ssz"
      "signs b W k rng alg tbs sig k'" "sw_key (snd r) = Some k'" "length (bs sig) \<le> osz"
      "sw_out (snd r) = append_out (fresh mo osz) (bs sig)"
    proof -
      have "fst r = WOLFCOSE_SUCCESS" using ok fields(1) by simp
      from conjunct2 [OF st [unfolded staged_def], rule_format, OF this] show ?thesis
        by (elim exE conjE) (rule that; assumption)
    qed
    have "ctx_buf (append_out (fresh mo osz) (bs sig)) = Some (splice 0 (bs sig) mo)"
      "ctx_idx (append_out (fresh mo osz) (bs sig)) = length (bs sig)" by (simp_all add: append_out_def fresh_def)
    then show ?thesis using x ok fields by auto
  qed
  show "out' = Some (splice 0 (replicate osz 0) mo) \<and> outLen' = map_option (\<lambda>_. 0) outLen" if "ret \<noteq> WOLFCOSE_SUCCESS"
    using st fields that within_zero unfolding staged_def sign1_inv_def by auto
  show "chk = WOLFCOSE_SUCCESS" if "ret = WOLFCOSE_SUCCESS"
    using fields(1) that by (auto simp: r_def split: if_splits)
qed

text \<open>C8: signing a COSE_Sign1 never accesses a buffer out of bounds and leaves the scratch buffer zeroed. When
it succeeds, the output starts with exactly the optional tag 18 and the array of the protected header
\<open>{1: alg}\<close>, the unprotected map with the key identifier when one is given, the payload or null when it is
detached, and a signature made by the key, for this algorithm and of its type, over the RFC 9052
Sig_structure; its length is reported. When it fails the whole output buffer is zeroed and the reported
length is 0.\<close>

theorem Sign1_Sign_exact:
  assumes "sig_ok W" "\<forall>k. key = Some k \<longrightarrow> signer_ok k" "ssz \<le> length ms" "osz \<le> length mo"
    and "readable kid kidLen" "readable payload payloadLen" "readable detached detachedLen" "readable ea ean"
    and "wc_CoseSign1_Sign_ex b W key alg kid kidLen payload payloadLen detached detachedLen ea ean
       (Some ms) ssz (Some mo) osz outLen rng flags = (ret, scratch', out', outLen', key', fault)"
  shows "\<not> fault \<and> scratch' = Some (splice 0 (replicate ssz 0) ms) \<and>
    (if ret = WOLFCOSE_SUCCESS then
       \<exists>k k' sig. let pl = (if detached \<noteq> None then bytes_at detached detachedLen else bytes_at payload payloadLen);
           bs = sign1_bytes flags alg (kid_of kid kidLen) (if detached \<noteq> None then None else Some pl) sig
         in key = Some k \<and> key' = Some k' \<and> (key_alg k = WOLFCOSE_ALG_UNSET \<or> key_alg k = alg) \<and>
            wolfCose_KeyCanSign b k \<and> signs b W k rng alg (sign1_tbs alg (bytes_at ea ean) pl) sig k' \<and>
            length bs \<le> osz \<and> out' = Some (splice 0 bs mo) \<and> outLen' = Some (length bs)
     else out' = Some (splice 0 (replicate osz 0) mo) \<and> outLen' = map_option (\<lambda>_. 0) outLen)"
proof (cases "ret = WOLFCOSE_SUCCESS")
  case True
  show ?thesis
    unfolding if_P [OF True] Let_def
    using Sign1_Sign_outcome(1,2) [OF assms refl refl refl refl] True
      sign1_checksD(1) [OF Sign1_Sign_outcome(4) [OF assms refl refl refl refl True]] by fastforce
next
  case False
  show ?thesis
    unfolding if_not_P [OF False] using Sign1_Sign_outcome(1,3) [OF assms refl refl refl refl] False by blast
qed

text \<open>When signing succeeds, as far as the buffers and the signature stage go.\<close>

lemma Sign1_Sign_succeeds:
  assumes W: "sig_ok W" and k: "signer_ok k" and bufs: "ssz \<le> length ms" "osz \<le> length mo"
    and rd: "readable kid kidLen" "readable payload payloadLen" "readable detached detachedLen" "readable ea ean"
    and chk: "sign1_checks b (Some k) alg kid kidLen payload payloadLen detached detachedLen ean
       (Some ms) ssz (Some mo) osz outLen rng flags = WOLFCOSE_SUCCESS"
    and pl: "pl = (if detached \<noteq> None then bytes_at detached detachedLen else bytes_at payload payloadLen)"
    and tbs: "tbs = sign1_tbs alg (bytes_at ea ean) pl"
    and fit: "length (alg_hdr alg) \<le> protected_hdr_max b" "length tbs \<le> ssz"
      "lms_room b W (Some k) alg kidLen payloadLen detachedLen flags osz"
    and sig: "fst (sign1_signature b W alg rng ssz (sign1_prepared b (Some k) alg tbs ms mo osz)) = WOLFCOSE_SUCCESS"
    and room: "\<And>sig k'. signs b W k rng alg tbs sig k' \<Longrightarrow>
      length (sign1_bytes flags alg (kid_of kid kidLen) (if detached \<noteq> None then None else Some pl) sig) \<le> osz"
  shows "fst (wc_CoseSign1_Sign_ex b W (Some k) alg kid kidLen payload payloadLen detached detachedLen ea ean
       (Some ms) ssz (Some mo) osz outLen rng flags) = WOLFCOSE_SUCCESS"
proof -
  let ?z = "sign1_work0 b (Some k) (Some ms) (Some mo) osz" and ?w = "sign1_prepared b (Some k) alg tbs ms mo osz"
  define prep where "prep = on_success (on_success (sign1_protected b alg ?z)
       (sign1_struct ea ean (if detached \<noteq> None then detached else payload)
         (if detached \<noteq> None then detachedLen else payloadLen) ssz))
       (sign1_lms_room b W alg kidLen payloadLen detachedLen flags osz)"
  have g: "delegates b k \<or> rng \<noteq> None" "ssz < 2 ^ 32" using sign1_checksD(1,2) [OF chk] by auto
  have sp: "readable (if detached \<noteq> None then detached else payload) (if detached \<noteq> None then detachedLen else payloadLen)"
    using rd(2,3) by simp
  have bp: "bytes_at (if detached \<noteq> None then detached else payload) (if detached \<noteq> None then detachedLen else payloadLen) = pl"
    by (simp add: pl)
  have "settles (sign1_inv ms ssz mo osz) ((length (alg_hdr alg) \<le> protected_hdr_max b \<and> length tbs \<le> ssz) \<and>
      lms_room b W (Some k) alg kidLen payloadLen detachedLen flags osz) ?w prep"
    unfolding prep_def by (rule sign1_prepare [OF bufs(1) rd(4) sp tbs [folded bp]])
  then have p: "prep = (WOLFCOSE_SUCCESS, ?w)"
    using fit unfolding settles_def by (simp add: prod_eq_iff split: if_splits)
  obtain w where w: "sign1_signature b W alg rng ssz ?w = (WOLFCOSE_SUCCESS, w)"
    using sig by (cases "sign1_signature b W alg rng ssz ?w") auto
  have m: "sign1_inv ms ssz mo osz w \<and> (\<exists>sig k'. signs b W k rng alg tbs sig k' \<and> sign1_signed ?w sig k' w)"
    using sign1_made [OF W k bufs(1) g(2) rd(2-4) g(1) pl tbs prep_def] unfolding p by (simp add: w staged_def)
  then obtain s k' where s: "sign1_inv ms ssz mo osz w" "signs b W k rng alg tbs s k'" "sign1_signed ?w s k' w" by blast
  have e: "(if detached \<noteq> None then None else Some pl) = (if detached \<noteq> None then None else Some (bytes_at payload payloadLen))"
    by (simp add: pl)
  have o: "fst (sign1_output flags kid kidLen (detached \<noteq> None) payload payloadLen (Some mo) osz w) = WOLFCOSE_SUCCESS"
    using sign1_written [OF s(1) bufs(2) rd(1,2) fit(1) s(3) e refl, of flags] room [OF s(2)]
    by (auto simp: settles_def split: if_splits)
  have run: "on_success (on_success prep (sign1_signature b W alg rng ssz))
       (sign1_output flags kid kidLen (detached \<noteq> None) payload payloadLen (Some mo) osz) =
     sign1_output flags kid kidLen (detached \<noteq> None) payload payloadLen (Some mo) osz w" by (simp add: p w)
  show ?thesis
    unfolding Sign1_Sign_parts [OF chk [symmetric] refl refl] prep_def [symmetric] if_P [OF refl] run fst_conv by (rule o)
qed

section \<open>An example\<close>

definition toy_digest :: "u8 list \<Rightarrow> size \<Rightarrow> u8 list" where
  "toy_digest m n = take n (m @ replicate n 0)"

definition toy_sig :: wolfsig where
  "toy_sig = \<lparr> sg_digest_size = \<lambda>_. 32, sg_hash = \<lambda>_ m. Some (toy_digest m 32), sg_deterministic = \<lambda>_ _. True,
     sg_ecc_sign = \<lambda>_ _ _ d. Some d, sg_sig_to_rs = \<lambda>d n. if length d \<le> n then Some (d, []) else None,
     sg_rs_to_sig = \<lambda>r s. Some r, sg_ecc_verify = \<lambda>_ s d. Some (length d \<le> length s \<and> drop (length s - length d) s = d),
     sg_ed25519_sign = \<lambda>_ m n. if 64 \<le> n then Some (toy_digest m 64) else None, sg_ed25519_verify = \<lambda>_ s m. Some (s = toy_digest m 64),
     sg_ed448_sign = \<lambda>_ m n. if 114 \<le> n then Some (toy_digest m 114) else None, sg_ed448_verify = \<lambda>_ s m. Some (s = toy_digest m 114),
     sg_pss_sign = \<lambda>k _ _ salt _ d n. if nat (rsa_size k) \<le> n then Some (toy_digest (of_int salt # d) (nat (rsa_size k))) else None,
     sg_pss_verify = \<lambda>k _ _ s _ d. (s = toy_digest (32 # d) (nat (rsa_size k)), s),
     sg_mldsa_sign = \<lambda>k _ m n. let z = (if mldsa_level k = 2 then 2420 else if mldsa_level k = 3 then 3309 else 4627)
       in if mldsa_level k \<in> {2, 3, 5} \<and> z \<le> n then Some (toy_digest m z) else None,
     sg_mldsa_verify = \<lambda>_ s m. Some (s = toy_digest m (length s)),
     sg_lms_sig_len = \<lambda>_. Some 60, sg_lms_left = \<lambda>v. if lms_state v = WC_LMS_STATE_OK then 1 else 0,
     sg_lms_sign = \<lambda>v m n. (Some (toy_digest m n), v\<lparr>lms_handle := Suc (lms_handle v)\<rparr>),
     sg_lms_verify = \<lambda>_ s m. if s = toy_digest m 60 then LMS_VALID else LMS_SIG_VERIFY_E \<rparr>"

definition toy_okp :: cose_key where
  "toy_okp = \<lparr> key_kty = 1, key_alg = 0, key_crv = 6, key_kid = None, key_kidLen = 0, key_ecc = None, key_ed25519 = Some 5,
     key_ed448 = None, key_rsa = None, key_mldsa = None, key_lms = None, key_symm = None, key_symmLen = 0,
     key_hasPrivate = True, key_attachedType = 2, key_signCb = None,
     key_mldsaSeed = None, key_mldsaSeedLen = 0 \<rparr>"


lemma length_toy_digest [simp]: "length (toy_digest m n) = n"
  by (simp add: toy_digest_def)

lemma toy_sig_ok: "sig_ok toy_sig"
  by (auto simp: sig_ok_def toy_sig_def split: if_splits)

lemma toy_okp_signer: "\<forall>k. Some toy_okp = Some k \<longrightarrow> signer_ok k"
  by (simp add: signer_ok_def toy_okp_def)

abbreviation toy_sign :: "rc \<times> cptr \<times> cptr \<times> size option \<times> cose_key option \<times> bool" where
  "toy_sign \<equiv> wc_CoseSign1_Sign_ex full_build toy_sig (Some toy_okp) (- 19) None 0 (Some [1]) 1 None 0 None 0
     (Some (replicate 20 7)) 20 (Some (replicate 80 7)) 80 (Some 0) (Some 0) 0"

lemma toy_sign_tbs: "sign1_tbs (- 19) [] [1] =
    [0x84, 0x6A, 0x53, 0x69, 0x67, 0x6E, 0x61, 0x74, 0x75, 0x72, 0x65, 0x31, 0x43, 0xA1, 0x01, 0x32, 0x40, 0x41, 0x01]"
  by code_simp

lemma toy_sign_tables: "wolfCose_AlgIsEddsa full_build (- 19)" "wolfCose_AlgCheckCrv full_build (- 19) 6 = WOLFCOSE_SUCCESS"
    "length (alg_hdr (- 19)) \<le> protected_hdr_max full_build" "have_eddsa full_build" "\<not> ext_sign full_build"
  by code_simp+

lemma toy_signs: "signs full_build toy_sig toy_okp (Some 0) (- 19) tbs sig k' \<Longrightarrow> length sig = 64 \<and> k' = toy_okp"
  by (auto simp: signs_def delegates_def toy_sign_tables toy_sig_def toy_okp_def wolfCose_AlgIsEcdsa_def is_pss_def is_mldsa_def
      alg_is_es_def elim!: local_sig.cases split: if_splits)

lemma toy_sign_checks: "sign1_checks full_build (Some toy_okp) (- 19) None 0 (Some [1]) 1 None 0 0
     (Some (replicate 20 7)) 20 (Some (replicate 80 7)) 80 (Some 0) (Some 0) 0 = WOLFCOSE_SUCCESS"
  by (simp add: sign1_checks_def toy_sign_tables wolfCose_LenFitsWord32_def sign1_flags_ok_def wolfCose_KeyCanSign_def toy_okp_def
      WOLFCOSE_ALG_UNSET_def)

lemma toy_sign_stage: "fst (sign1_signature full_build toy_sig (- 19) (Some 0) 20
    (sign1_prepared full_build (Some toy_okp) (- 19) tbs ms mo 80)) = WOLFCOSE_SUCCESS"
  by (simp add: Let_def sign1_signature_def toy_sign_tables sign1_eddsa_def eddsa_call_def sign1_prepared_def sign1_work0_def toy_okp_def
      toy_sig_def)

lemma toy_sign_length: "length sig = 64 \<Longrightarrow> length (sign1_bytes 0 (- 19) (kid_of None 0) (Some [1]) sig) = 75"
  by (simp add: sign1_bytes_def sign1_tag_def sign1_tagged_def msg4_bytes_def kid_of_def kid_map_def payload_bytes_def str_bytes_def
      length_cbor_head alg_hdr_def cbor_int_def)

lemma toy_sign_runs: "fst toy_sign = WOLFCOSE_SUCCESS"
proof -
  have room: "lms_room full_build toy_sig (Some toy_okp) (- 19) 0 1 0 0 80" by (simp add: lms_room_def)
  have fit: "length (sign1_tbs (- 19) [] [1]) \<le> 20" unfolding toy_sign_tbs by simp
  have k: "signer_ok toy_okp" using toy_okp_signer by simp
  show ?thesis
    by (rule Sign1_Sign_succeeds [OF toy_sig_ok k _ _ _ _ _ _ toy_sign_checks refl refl toy_sign_tables(3)])
      (use room fit toy_sign_stage toy_sign_length toy_signs in \<open>auto simp: readable_def\<close>)
qed

lemma Sign1_Sign_exact_witness:
  "\<exists>sig. toy_sign = (WOLFCOSE_SUCCESS, Some (replicate 20 0), Some (splice 0 (sign1_bytes 0 (- 19) None (Some [1]) sig) (replicate 80 7)),
     Some 75, Some toy_okp, False) \<and> signs full_build toy_sig toy_okp (Some 0) (- 19) (sign1_tbs (- 19) [] [1]) sig toy_okp"
proof -
  obtain ret scr out n k' f where c: "toy_sign = (ret, scr, out, n, k', f)" by (metis prod_cases6)
  have ok: "ret = WOLFCOSE_SUCCESS" using toy_sign_runs unfolding c by simp
  have r: "readable None 0" "readable (Some [1]) 1" "20 \<le> length (replicate 20 (7 :: u8))" "80 \<le> length (replicate 80 (7 :: u8))"
    by (simp_all add: readable_def)
  have kid: "kid_of None 0 = None" by (simp add: kid_of_def)
  have z: "splice 0 (replicate 20 0) (replicate 20 7) = (replicate 20 0 :: u8 list)" by (simp add: splice_def)
  from Sign1_Sign_exact [OF toy_sig_ok toy_okp_signer r(3,4,1,2,1,1) c]
  obtain k sig where "toy_okp = k" "signs full_build toy_sig k (Some 0) (- 19) (sign1_tbs (- 19) [] [1]) sig (the k')" "k' = Some (the k')"
    "out = Some (splice 0 (sign1_bytes 0 (- 19) None (Some [1]) sig) (replicate 80 7))"
    "n = Some (length (sign1_bytes 0 (- 19) None (Some [1]) sig))" "\<not> f" "scr = Some (replicate 20 0)"
    unfolding if_P [OF ok] Let_def kid z by auto
  moreover have "length sig = 64" "the k' = toy_okp" using toy_signs calculation(1,2) by auto
  ultimately show ?thesis using c ok toy_sign_length kid by auto
qed

end
