(* ===== verification/Cose_Sign1Size.thy ===== *)
theory Cose_Sign1Size
  imports Cose_Sign1Spec
begin

text \<open>
  The size that \<open>wc_CoseSign1_SignSize_ex\<close> announces is the size of the message that signing writes, and
  so the one-time state of an LMS key is not spent on an output buffer that is too small.
\<close>

section \<open>Lengths\<close>

definition str_len :: "size \<Rightarrow> size" where
  "str_len n = length (cbor_head 2 n) + n"

lemma CborHeadSize_length: "wolfCose_CborHeadSize n = length (cbor_head mt n)"
  by (simp add: wolfCose_CborHeadSize_def length_cbor_head)

lemma SizeAdd_fits: "t < 2 ^ 64 \<Longrightarrow> wolfCose_SizeAdd (Some t) n =
    (if t + n < 2 ^ 64 then (WOLFCOSE_SUCCESS, Some (t + n)) else (WOLFCOSE_E_INVALID_ARG, Some t))"
  by (auto simp: wolfCose_SizeAdd_def SIZE_MAX_def)

text \<open>A sum that was computed, or does not fit \<open>size_t\<close>.\<close>

definition sums :: "nat \<Rightarrow> rc \<times> size \<Rightarrow> bool" where
  "sums t r \<longleftrightarrow> (if fst r = WOLFCOSE_SUCCESS then snd r = t \<and> t < 2 ^ 64 else 2 ^ 64 \<le> t)"

lemma sums_next: "sums t r \<Longrightarrow> (t < 2 ^ 64 \<Longrightarrow> sums (t + d) (f t)) \<Longrightarrow> sums (t + d) (on_success r f)"
  by (auto simp: sums_def on_success_def split: if_splits)

lemma sums_add: "a < 2 ^ 64 \<Longrightarrow> sums (a + n) (size_add a n)"
  by (simp add: sums_def size_add_def SizeAdd_fits)

lemma sums_string: "a < 2 ^ 64 \<Longrightarrow> sums (a + str_len n) (size_add_string a n)"
proof -
  assume a: "a < 2 ^ 64"
  have h: "wolfCose_CborHeadSize n \<le> 9" by (simp add: wolfCose_CborHeadSize_def)
  have l: "str_len n = wolfCose_CborHeadSize n + n" by (simp add: str_len_def CborHeadSize_length [of n 2])
  show ?thesis
  proof (cases "str_len n < 2 ^ 64")
    case True
    then have "wolfCose_CborStringSize n 0 = (WOLFCOSE_SUCCESS, str_len n)"
      using h by (simp add: wolfCose_CborStringSize_def SizeAdd_fits l)
    then show ?thesis using sums_add [OF a] by (simp add: size_add_string_def)
  next
    case False
    then have "fst (wolfCose_CborStringSize n 0) = WOLFCOSE_E_INVALID_ARG"
      using h by (simp add: wolfCose_CborStringSize_def SizeAdd_fits l)
    then show ?thesis using False by (auto simp: size_add_string_def sums_def split: prod.split)
  qed
qed

definition sign1_len :: "size \<Rightarrow> size \<Rightarrow> size \<Rightarrow> size \<Rightarrow> size \<Rightarrow> u32 \<Rightarrow> size" where
  "sign1_len protLen kidLen pln dn sigLen flags =
     ((((((if sign1_tagged flags then 1 else 0) + 1) + str_len protLen) + 1) + (if kidLen \<noteq> 0 then 1 + str_len kidLen else 0)) +
      (if dn \<noteq> 0 then 1 else str_len pln)) + str_len sigLen"

lemma sign1_total_sums: "sums (sign1_len protLen kidLen pln dn sigLen flags) (sign1_total protLen kidLen pln dn sigLen flags)"
proof -
  have t: "sums (if sign1_tagged flags then 1 else 0) (if sign1_tagged flags then size_add 0 1 else (WOLFCOSE_SUCCESS, 0))"
    using sums_add [of 0 1] by (cases "sign1_tagged flags") (simp_all add: sums_def)
  have k: "sums (a + (if kidLen \<noteq> 0 then 1 + str_len kidLen else 0))
     (if kidLen \<noteq> 0 then on_success (size_add a 1) (\<lambda>acc. size_add_string acc kidLen) else (WOLFCOSE_SUCCESS, a))" if "a < 2 ^ 64" for a
  proof -
    have "sums (a + 1 + str_len kidLen) (on_success (size_add a 1) (\<lambda>acc. size_add_string acc kidLen))"
      by (rule sums_next [OF sums_add [OF that]]) (rule sums_string)
    then show ?thesis using that unfolding add.assoc by (cases "kidLen = 0") (simp add: sums_def, simp only: if_True not_False_eq_True)
  qed
  have p: "sums (a + (if dn \<noteq> 0 then 1 else str_len pln)) (if dn \<noteq> 0 then size_add a 1 else size_add_string a pln)" if "a < 2 ^ 64" for a
    using sums_add [OF that, of 1] sums_string [OF that] by simp
  show ?thesis
    unfolding sign1_len_def sign1_total_def Let_def
    by (intro sums_next t k p sums_add sums_string)
qed

lemma length_str_bytes: "length (str_bytes mt s) = length (cbor_head mt (length s)) + length s"
  by (simp add: str_bytes_def)

lemma length_sign1_bytes:
  assumes "kid \<noteq> Some []"
  shows "length (sign1_bytes flags alg kid po sig) = sign1_len (length (alg_hdr alg)) (case kid of None \<Rightarrow> 0 | Some k \<Rightarrow> length k)
     (case po of None \<Rightarrow> 0 | Some p \<Rightarrow> length p) 0 (length sig) flags"
proof -
  have "length (cbor_head 2 0) = 1" "length (cbor_head 0 4) = 1" "length (cbor_head 4 4) = 1" "length (cbor_head 5 0) = 1"
    "length (cbor_head 5 1) = 1" "length (cbor_head 6 18) = 1" by (simp_all add: length_cbor_head)
  then show ?thesis using assms
    by (auto simp: sign1_bytes_def sign1_tag_def msg4_bytes_def kid_map_def payload_bytes_def length_str_bytes str_len_def sign1_len_def
        split: option.split)
qed

section \<open>The announced size\<close>

lemma SignSize_iff:
  "wc_CoseSign1_SignSize_ex b W (Some k) alg kidLen pln dn flags (Some x) = (WOLFCOSE_SUCCESS, Some n) \<longleftrightarrow>
     sign1_flags_ok flags \<and> (pln = 0 \<or> dn = 0) \<and> pln < 2 ^ 32 \<and> dn < 2 ^ 32 \<and>
     (key_alg k = WOLFCOSE_ALG_UNSET \<or> key_alg k = alg) \<and> length (alg_hdr alg) \<le> protected_hdr_max b \<and>
     (\<exists>sl. wolfCose_SignSigLen b W (Some k) alg 0 = (WOLFCOSE_SUCCESS, sl) \<and>
        n = sign1_len (length (alg_hdr alg)) kidLen pln dn sl flags \<and> n < 2 ^ 64)"
proof -
  obtain r1 sl where s: "wolfCose_SignSigLen b W (Some k) alg 0 = (r1, sl)" by fastforce
  obtain r2 c pl where e: "wolfCose_EncodeProtectedHdr alg (Some (replicate (protected_hdr_max b) 0)) (protected_hdr_max b) 0 = (r2, c, pl)"
    by (metis prod_cases3)
  obtain r3 t where t: "sign1_total pl kidLen pln dn sl flags = (r3, t)" by fastforce
  have E: "if length (alg_hdr alg) \<le> protected_hdr_max b then r2 = WOLFCOSE_SUCCESS \<and> pl = length (alg_hdr alg) else r2 \<noteq> WOLFCOSE_SUCCESS"
    using EncodeProtectedHdr_spec [of "protected_hdr_max b" "replicate (protected_hdr_max b) 0" alg 0] e by (auto split: if_splits)
  have T: "if r3 = WOLFCOSE_SUCCESS then t = sign1_len pl kidLen pln dn sl flags \<and> t < 2 ^ 64
      else 2 ^ 64 \<le> sign1_len pl kidLen pln dn sl flags"
    using sign1_total_sums [of pl kidLen pln dn sl flags] unfolding t sums_def by (auto split: if_splits)
  show ?thesis
    unfolding wc_CoseSign1_SignSize_ex_def s e t option.case prod.case wolfCose_LenFitsWord32_def
    using E T by (auto split: if_splits)
qed

text \<open>
  Documented lengths of the signatures with a fixed length: those of RFC 8032, the modulus length of an RSA key
  (RFC 8017), and those FIPS 204 gives the parameter sets of ML-DSA, by the security level of the key.
\<close>

definition fips204_sig_len :: "u8 \<Rightarrow> size option" where
  "fips204_sig_len level = (if level = 2 then Some 2420 else if level = 3 then Some 3309 else if level = 5 then Some 4627 else None)"

definition sig_exact :: "wolfsig \<Rightarrow> bool" where
  "sig_exact W \<longleftrightarrow>
     (\<forall>k m n sig. sg_ed25519_sign W k m n = Some sig \<longrightarrow> length sig = 64) \<and>
     (\<forall>k m n sig. sg_ed448_sign W k m n = Some sig \<longrightarrow> length sig = 114) \<and>
     (\<forall>k ht mgf salt g d n sig. sg_pss_sign W k ht mgf salt g d n = Some sig \<longrightarrow> length sig = nat (rsa_size k)) \<and>
     (\<forall>k g m n sig. sg_mldsa_sign W k g m n = Some sig \<longrightarrow> fips204_sig_len (mldsa_level k) = Some (length sig))"

lemma sig_exactD:
  assumes "sig_exact W"
  shows "sg_ed25519_sign W ed m n = Some sig \<Longrightarrow> length sig = 64"
    and "sg_ed448_sign W ed m n = Some sig \<Longrightarrow> length sig = 114"
    and "sg_pss_sign W rk ht mgf salt g d n = Some sig \<Longrightarrow> length sig = nat (rsa_size rk)"
    and "sg_mldsa_sign W mk g m n = Some sig \<Longrightarrow> fips204_sig_len (mldsa_level mk) = Some (length sig)"
  using assms unfolding sig_exact_def by simp_all

text \<open>The families of algorithms by their identifiers.\<close>

lemma AlgIsEddsa_iff: "wolfCose_AlgIsEddsa b alg \<longleftrightarrow> (have_eddsa b \<or> have_ed448 b) \<and>
    (have_deprecated_algs b \<and> alg = - 8 \<or> have_eddsa b \<and> alg = - 19 \<or> have_ed448 b \<and> alg = - 53)"
  by (auto simp: wolfCose_AlgIsEddsa_def wolfCose_AlgToCrv_def alg_is_es_def)

lemma AlgIsEcdsa_iff: "wolfCose_AlgIsEcdsa b alg \<longleftrightarrow>
    have_es256 b \<and> (have_deprecated_algs b \<and> alg = - 7 \<or> alg = - 9) \<or>
    have_es384 b \<and> (have_deprecated_algs b \<and> alg = - 35 \<or> alg = - 51) \<or>
    have_es512 b \<and> (have_deprecated_algs b \<and> alg = - 36 \<or> alg = - 52)"
  by (auto simp: wolfCose_AlgIsEcdsa_def wolfCose_AlgToCrv_def alg_is_es_def have_ecdsa_def)

lemmas alg_family = AlgIsEddsa_iff AlgIsEcdsa_iff is_pss_def is_mldsa_def alg_is_es_def

lemmas sig_tables = wolfCose_SignSigLen_def wolfCose_SigSize_def wolfCose_AlgToCrv_def wolfCose_CrvKeySize_def declared_curve_def

lemma lms_sig_length:
  assumes "sig_ok W" "local_sig b W k g WOLFCOSE_ALG_HSS_LMS tbs sig k'"
  shows "wolfCose_SignSigLen b W (Some k) WOLFCOSE_ALG_HSS_LMS x = (WOLFCOSE_SUCCESS, length sig)"
  using assms(2) sig_okD(8) [OF assms(1)]
  by (cases rule: local_sig.cases) (auto simp: wolfCose_SignSigLen_def lms_sig_len_def alg_family)

lemma pss_sig_length:
  assumes "alg = - 37 \<and> have_ps256 b \<or> alg = - 38 \<and> have_ps384 b \<or> alg = - 39 \<and> have_ps512 b"
    and "wolfCose_RsaPssCheckKey (Some k) (Some x) = (WOLFCOSE_SUCCESS, Some n)"
  shows "wolfCose_SignSigLen b W (Some k) alg x = (WOLFCOSE_SUCCESS, n)"
proof -
  have "alg \<noteq> WOLFCOSE_ALG_EDDSA" "have_ps256 b \<and> alg = WOLFCOSE_ALG_PS256 \<or> have_ps384 b \<and> alg = WOLFCOSE_ALG_PS384 \<or>
      have_ps512 b \<and> alg = WOLFCOSE_ALG_PS512"
    using assms(1) by auto
  then show ?thesis unfolding wolfCose_SignSigLen_def assms(2) by simp
qed

lemma local_sig_length:
  assumes W: "sig_ok W" "sig_exact W" and l: "local_sig b W k g alg tbs sig k'"
  shows "wolfCose_SignSigLen b W (Some k) alg x = (WOLFCOSE_SUCCESS, length sig)"
  using l
proof (cases rule: local_sig.cases)
  case (ed25519 h)
  have "length sig = 64" using sig_exactD(1) [OF W(2) ed25519(9)] .
  then show ?thesis using ed25519
    by (auto simp: sig_tables eddsa_sig_len_def alg_family wolfCose_AlgCheckCrv_def)
next
  case (ed448 h)
  have "length sig = 114" using sig_exactD(2) [OF W(2) ed448(9)] .
  then show ?thesis using ed448
    by (auto simp: sig_tables eddsa_sig_len_def alg_family wolfCose_AlgCheckCrv_def)
next
  case (ecdsa e ht d n der r s)
  consider "have_es256 b" "have_deprecated_algs b \<and> alg = - 7 \<or> alg = - 9"
    | "have_es384 b" "have_deprecated_algs b \<and> alg = - 35 \<or> alg = - 51"
    | "have_es512 b" "have_deprecated_algs b \<and> alg = - 36 \<or> alg = - 52"
    using ecdsa(3) unfolding AlgIsEcdsa_iff by blast
  then have "wolfCose_AlgToCrv b alg (Some 0) = (WOLFCOSE_SUCCESS, Some (key_crv k)) \<and> wolfCose_AlgIsEcdsa b alg \<and> key_crv k \<noteq> 0 \<and>
      have_ecdsa b \<and> (\<forall>x. wolfCose_SigSize b alg (Some x) = (WOLFCOSE_SUCCESS, Some (2 * n))) \<and>
      \<not> is_pss alg \<and> alg \<noteq> - 46 \<and> alg \<noteq> - 8"
    using ecdsa(5,9)
    by cases (elim disjE conjE; simp add: AlgIsEcdsa_iff wolfCose_AlgCheckCrv_def wolfCose_AlgToCrv_def wolfCose_CrvKeySize_def
        wolfCose_SigSize_def alg_is_es_def have_ecdsa_def is_pss_def split: if_splits)+
  moreover have "length sig = 2 * n" using ecdsa(1,13,14) by simp
  ultimately show ?thesis using ecdsa(4)
    by (auto simp: wolfCose_SignSigLen_def declared_curve_def is_pss_def)
next
  case (pss v ht d mgf cap)
  have n: "nat (rsa_size v) = length sig" using sig_exactD(3) [OF W(2) pss(8)] by (rule sym)
  have c: "wolfCose_RsaPssCheckKey (Some k) (Some x) = (WOLFCOSE_SUCCESS, Some (nat (rsa_size v)))"
    using pss(4,5) by (auto simp: wolfCose_RsaPssCheckKey_def Let_def split: option.splits if_splits)
  have h: "fst (wolfCose_AlgToHashType b alg (Some WC_HASH_TYPE_NONE)) = WOLFCOSE_SUCCESS"
    using pss(6) unfolding struct_digest_def by (auto split: prod.splits if_splits)
  have a: "alg = - 37 \<and> have_ps256 b \<or> alg = - 38 \<and> have_ps384 b \<or> alg = - 39 \<and> have_ps512 b"
    using h pss(3) unfolding is_pss_def
    by (elim disjE) (simp_all add: wolfCose_AlgToHashType_def alg_is_es_def lookup_out_def split: if_splits)
  show ?thesis using pss_sig_length [OF a c, of W] unfolding n .
next
  case (mldsa m n)
  have f: "fips204_sig_len (mldsa_level m) = Some (length sig)" using sig_exactD(4) [OF W(2) mldsa(7)] .
  have "wolfCose_MlDsaAlgLevel alg 0 = (WOLFCOSE_SUCCESS, mldsa_level m)"
    using mldsa(4,5) by (auto simp: wolfCose_MlDsaCheckKey_def split: if_splits prod.splits)
  then have "fips204_sig_len (mldsa_level m) = Some n"
    using mldsa(3,6) unfolding is_mldsa_def
    by (elim disjE) (auto simp: wolfCose_MlDsaAlgLevel_def wolfCose_SigSize_def alg_is_es_def fips204_sig_len_def split: if_splits)
  moreover have "wolfCose_SignSigLen b W (Some k) alg x = (WOLFCOSE_SUCCESS, n)"
    using mldsa(3,6) unfolding is_mldsa_def
    by (elim disjE) (simp_all add: sig_tables alg_family split: if_splits)
  ultimately show ?thesis using f by simp
next
  case (lms v n v')
  then show ?thesis using lms_sig_length [OF W(1)] l by blast
qed

lemma signs_length:
  assumes "sig_ok W" "sig_exact W" "signs b W k rng alg tbs sig k'"
  shows "wolfCose_SignSigLen b W (Some k) alg 0 = (WOLFCOSE_SUCCESS, length sig)"
  using assms(3) local_sig_length [OF assms(1,2)] by (auto simp: signs_def delegated_sig_def split: if_splits)

lemma sign1_bytes_length:
  assumes "readable kid kidLen" "(kid = None) = (kidLen = 0)" "readable payload payloadLen" "readable detached detachedLen"
    and "(payload = None) = (detached \<noteq> None)" "detached \<noteq> None \<longrightarrow> payloadLen = 0" "detached = None \<longrightarrow> detachedLen = 0"
  shows "length (sign1_bytes flags alg (kid_of kid kidLen)
      (if detached \<noteq> None then None else Some (if detached \<noteq> None then bytes_at detached detachedLen else bytes_at payload payloadLen)) sig) =
    sign1_len (length (alg_hdr alg)) kidLen payloadLen detachedLen (length sig) flags"
proof -
  have k: "(case kid_of kid kidLen of None \<Rightarrow> 0 | Some x \<Rightarrow> length x) = kidLen" "kid_of kid kidLen \<noteq> Some []"
    using assms(1,2) by (auto simp: kid_of_def readable_def bytes_at_def)
  have z: "str_len 0 = 1" by (simp add: str_len_def length_cbor_head)
  show ?thesis
    using assms(3-) k by (cases detached; cases payload) (auto simp: length_sign1_bytes [OF k(2)] sign1_len_def readable_def z)
qed

text \<open>C9: a successful signing call and the size query agree: asked with the same key, algorithm, key identifier
and payload lengths, \<open>wc_CoseSign1_SignSize_ex\<close> announces exactly the number of bytes that the call wrote.\<close>

theorem Sign1_SignSize_exact:
  assumes W: "sig_ok W" "sig_exact W" and k: "\<forall>k. key = Some k \<longrightarrow> signer_ok k" and bufs: "ssz \<le> length ms" "osz \<le> length mo"
    and rd: "readable kid kidLen" "readable payload payloadLen" "readable detached detachedLen" "readable ea ean"
    and pln: "detached \<noteq> None \<longrightarrow> payloadLen = 0" "detached = None \<longrightarrow> detachedLen = 0"
    and run: "wc_CoseSign1_Sign_ex b W key alg kid kidLen payload payloadLen detached detachedLen ea ean
       (Some ms) ssz (Some mo) osz outLen rng flags = (WOLFCOSE_SUCCESS, scratch', out', Some n, key', fault)"
  shows "wc_CoseSign1_SignSize_ex b W key alg kidLen payloadLen detachedLen flags (Some x) = (WOLFCOSE_SUCCESS, Some n)"
proof -
  note o = Sign1_Sign_outcome [OF W(1) k bufs rd run refl refl refl refl]
  obtain kk k' sig where s: "key = Some kk" "signs b W kk rng alg (sign1_tbs alg (bytes_at ea ean)
       (if detached \<noteq> None then bytes_at detached detachedLen else bytes_at payload payloadLen)) sig k'"
    "length (alg_hdr alg) \<le> protected_hdr_max b" and n: "n = length (sign1_bytes flags alg (kid_of kid kidLen)
      (if detached \<noteq> None then None else Some (if detached \<noteq> None then bytes_at detached detachedLen else bytes_at payload payloadLen)) sig)"
    "n \<le> osz"
    using o(2) [OF refl] by auto
  note c = sign1_checksD [OF o(4) [OF refl]]
  have l: "n = sign1_len (length (alg_hdr alg)) kidLen payloadLen detachedLen (length sig) flags"
    unfolding n(1) by (rule sign1_bytes_length [OF rd(1) c(8) rd(2,3) c(7) pln])
  show ?thesis
    unfolding s(1) SignSize_iff
    using signs_length [OF W s(2)] c(1-6) s(1,3) pln l n(2) by auto
qed

section \<open>The state of an LMS key\<close>

text \<open>What a failing call may leave in the key: it is untouched, or it can make no further signature.\<close>

definition lms_spent :: "cose_key option \<Rightarrow> rc \<Rightarrow> cose_key option \<Rightarrow> bool" where
  "lms_spent key ret key' \<longleftrightarrow> key' = key \<or> ret = WOLFCOSE_E_CRYPTO \<and>
     (\<exists>k v. key = Some k \<and> key' = Some (k\<lparr>key_lms := Some v\<rparr>) \<and> lms_state v \<noteq> WC_LMS_STATE_OK)"

lemma sw_key_kept:
  "sw_key (snd (sign1_protected b alg w)) = sw_key w"
  "sw_key (snd (sign1_struct ea ean sp spn ssz w)) = sw_key w"
  "sw_key (snd (sign1_lms_room b W alg kidLen pln dn flags osz w)) = sw_key w"
  "sw_key (snd (sign1_output flags kid kidLen d payload payloadLen out osz w)) = sw_key w"
  "sw_key (snd (sign1_ext b W alg ssz w)) = sw_key w"
  "sw_key (sig_to_buf sig w) = sw_key w" "sw_key (sig_to_scratch off sig w) = sw_key w"
  by (simp_all add: sign1_protected_def sign1_struct_def sign1_lms_room_def sign1_output_def sign1_ext_def sig_to_buf_def
      sig_to_scratch_def Let_def split: prod.split)

lemma eddsa_call_key: "sw_key (snd (eddsa_call sign h at w)) = sw_key w"
  by (simp add: eddsa_call_def sw_key_kept split: option.split)

lemma sign1_family_key:
  "sw_key (snd (sign1_eddsa b W alg key w)) = sw_key w"
  "sw_key (snd (sign1_ecdsa b W alg key rng w)) = sw_key w"
  "sw_key (snd (sign1_pss b W alg key rng ssz w)) = sw_key w"
  "sw_key (snd (sign1_mldsa b W alg key rng ssz w)) = sw_key w"
  by (simp_all add: sign1_eddsa_def sign1_ecdsa_def sign1_pss_def sign1_mldsa_def eddsa_call_key sw_key_kept Let_def
      split: prod.split option.split)

lemma lms_after_failure_state [simp]: "lms_state (lms_after_failure v) \<noteq> WC_LMS_STATE_OK"
  by (simp add: lms_after_failure_def)

lemma sign1_lms_outcome:
  "snd (sign1_lms W k ssz w) = w \<or> fst (sign1_lms W k ssz w) = WOLFCOSE_SUCCESS \<or>
   (\<exists>v. sign1_lms W k ssz w = (WOLFCOSE_E_CRYPTO, w\<lparr>sw_key := Some (k\<lparr>key_lms := Some (lms_after_failure v)\<rparr>)\<rparr>))"
proof (cases "wolfCose_LmsCheckKey (Some k) = WOLFCOSE_SUCCESS \<and> lms_state (the (key_lms k)) = WC_LMS_STATE_OK \<and>
    sg_lms_left W (the (key_lms k)) = 1 \<and> sw_structLen w \<le> INT_MAX \<and>
    (\<exists>n. sg_lms_sig_len W (the (key_lms k)) = Some n \<and> n \<le> ssz \<and> sw_structLen w \<le> ssz - n)")
  case False
  have "snd (sign1_lms W k ssz w) = w"
    using False unfolding sign1_lms_def Let_def by (auto split: option.split)
  then show ?thesis by blast
next
  case True
  then obtain n where n: "sg_lms_sig_len W (the (key_lms k)) = Some n" "n \<le> ssz" "sw_structLen w \<le> ssz - n" by blast
  obtain so v' where s: "sg_lms_sign W (the (key_lms k)) (bytes_at (sw_scratch w) (sw_structLen w)) (w32 n) = (so, v')" by fastforce
  have R: "sign1_lms W k ssz w = (case so of
        None \<Rightarrow> (WOLFCOSE_E_CRYPTO, w\<lparr>sw_key := Some (k\<lparr>key_lms := Some (lms_after_failure v')\<rparr>)\<rparr>)
      | Some sig \<Rightarrow> (WOLFCOSE_SUCCESS, sig_to_scratch (sw_structLen w) sig (w\<lparr>sw_key := Some (k\<lparr>key_lms := Some v'\<rparr>)\<rparr>)))"
    using True n s unfolding sign1_lms_def Let_def by (auto split: option.split)
  show ?thesis unfolding R by (cases so) auto
qed

lemma sign1_lms_spent:
  assumes "sw_key w = Some k" "fst (sign1_lms W k ssz w) \<noteq> WOLFCOSE_SUCCESS"
  shows "lms_spent (Some k) (fst (sign1_lms W k ssz w)) (sw_key (snd (sign1_lms W k ssz w)))"
proof -
  consider "snd (sign1_lms W k ssz w) = w"
    | v where "sign1_lms W k ssz w = (WOLFCOSE_E_CRYPTO, w\<lparr>sw_key := Some (k\<lparr>key_lms := Some (lms_after_failure v)\<rparr>)\<rparr>)"
    using sign1_lms_outcome assms(2) by blast
  then show ?thesis
  proof cases
    case 1
    then show ?thesis using assms(1) by (simp add: lms_spent_def)
  next
    case 2
    show ?thesis unfolding 2 lms_spent_def using lms_after_failure_state [of v] by auto
  qed
qed

lemma sign1_signature_spent:
  assumes k: "sw_key w = Some k" and f: "fst (sign1_signature b W alg rng ssz w) \<noteq> WOLFCOSE_SUCCESS"
  shows "lms_spent (Some k) (fst (sign1_signature b W alg rng ssz w)) (sw_key (snd (sign1_signature b W alg rng ssz w)))"
proof (cases "sign1_signature b W alg rng ssz w = sign1_lms W k ssz w")
  case True
  then show ?thesis using sign1_lms_spent [OF k] f by simp
next
  case False
  then have "sw_key (snd (sign1_signature b W alg rng ssz w)) = Some k"
    unfolding sign1_signature_def Let_def k option.sel by (auto simp: sw_key_kept sign1_family_key k)
  then show ?thesis by (simp add: lms_spent_def)
qed

lemma on_success_key:
  assumes "sw_key (snd r) = key" "\<And>w. sw_key w = key \<Longrightarrow> sw_key (snd (f w)) = key"
  shows "sw_key (snd (on_success r f)) = key"
  using assms by (simp add: on_success_def)

lemma prep_key:
  "sw_key (snd (on_success (on_success (sign1_protected b alg (sign1_work0 b key out mo osz)) (sign1_struct ea ean sp spn ssz))
     (sign1_lms_room b W alg kidLen pln dn flags n))) = key"
  by (intro on_success_key) (simp_all add: sw_key_kept sign1_work0_def)

text \<open>An LMS signature fits the output when there was room for the announced size.\<close>

lemma lms_output_fits:
  assumes W: "sig_ok W" and r: "lms_room b W (Some k) alg kidLen payloadLen detachedLen flags osz"
    and s: "signs b W k rng alg tbs sig k'" "k' \<noteq> k"
    and l: "length bs = sign1_len (length (alg_hdr alg)) kidLen payloadLen detachedLen (length sig) flags"
  shows "length bs \<le> osz"
proof -
  obtain g where g: "local_sig b W k g alg tbs sig k'" using s by (auto simp: signs_def split: if_splits)
  then have a: "have_lms b" "alg = WOLFCOSE_ALG_HSS_LMS" using s(2) by (auto elim: local_sig.cases)
  then obtain n where n: "wc_CoseSign1_SignSize_ex b W (Some k) alg kidLen payloadLen detachedLen flags (Some 0) = (WOLFCOSE_SUCCESS, Some n)"
    "n \<le> osz" using r by (auto simp: lms_room_def)
  have "wolfCose_SignSigLen b W (Some k) alg 0 = (WOLFCOSE_SUCCESS, length sig)"
    using lms_sig_length [OF W] g unfolding a(2) by blast
  then show ?thesis using n l unfolding SignSize_iff by simp
qed

text \<open>C14: a signing call that fails, for whatever reason, leaves the key as it was, unless the LMS call itself
failed: then the code reports a cryptographic error and leaves the LMS key in a state in which it makes no further
signature. In particular no LMS signature is made and then thrown away because the output buffer is too small.\<close>

theorem Sign1_lms_state:
  assumes W: "sig_ok W" and k: "\<forall>k. key = Some k \<longrightarrow> signer_ok k" and bufs: "ssz \<le> length ms" "osz \<le> length mo"
    and rd: "readable kid kidLen" "readable payload payloadLen" "readable detached detachedLen" "readable ea ean"
    and pln: "detached \<noteq> None \<longrightarrow> payloadLen = 0" "detached = None \<longrightarrow> detachedLen = 0"
    and run: "wc_CoseSign1_Sign_ex b W key alg kid kidLen payload payloadLen detached detachedLen ea ean
       (Some ms) ssz (Some mo) osz outLen rng flags = (ret, scratch', out', outLen', key', fault)"
    and fails: "ret \<noteq> WOLFCOSE_SUCCESS"
  shows "lms_spent key ret key'"
proof -
  define chk where "chk = sign1_checks b key alg kid kidLen payload payloadLen detached detachedLen ean
       (Some ms) ssz (Some mo) osz outLen rng flags"
  define pl where "pl = (if detached \<noteq> None then bytes_at detached detachedLen else bytes_at payload payloadLen)"
  define po where "po = (if detached \<noteq> None then None else Some pl)"
  define prep where "prep = on_success (on_success (sign1_protected b alg (sign1_work0 b key (Some ms) (Some mo) osz))
       (sign1_struct ea ean (if detached \<noteq> None then detached else payload)
         (if detached \<noteq> None then detachedLen else payloadLen) ssz))
       (sign1_lms_room b W alg kidLen payloadLen detachedLen flags osz)"
  define made where "made = on_success prep (sign1_signature b W alg rng ssz)"
  define body where "body = on_success made (sign1_output flags kid kidLen (detached \<noteq> None) payload payloadLen (Some mo) osz)"
  define r where "r = (if chk = WOLFCOSE_SUCCESS then body else (chk, sign1_work0 b key (Some ms) (Some mo) osz))"
  have fields: "ret = fst r" "key' = sw_key (snd r)"
    using run [symmetric, unfolded Sign1_Sign_parts [OF chk_def body_def [unfolded made_def prep_def] r_def]] by simp_all
  have pk: "sw_key (snd prep) = key" unfolding prep_def by (rule prep_key)
  show ?thesis
  proof (cases "chk = WOLFCOSE_SUCCESS \<and> fst prep = WOLFCOSE_SUCCESS")
    case False
    then have "sw_key (snd r) = key"
      using pk by (auto simp: r_def body_def made_def on_success_def sign1_work0_def)
    then show ?thesis by (simp add: fields lms_spent_def)
  next
    case True
    have b: "r = body" "made = sign1_signature b W alg rng ssz (snd prep)"
      using True by (simp_all add: r_def made_def on_success_def)
    note c = sign1_checksD [OF conjunct1 [OF True, unfolded chk_def]]
    obtain kk where kk: "key = Some kk" "delegates b kk \<or> rng \<noteq> None" using c(1) by blast
    show ?thesis
    proof (cases "fst made = WOLFCOSE_SUCCESS")
      case False
      then have "r = made" using b(1) by (simp add: body_def on_success_def)
      then show ?thesis
        using sign1_signature_spent [OF pk [unfolded kk(1)]] False unfolding fields kk(1) b(2) by simp
    next
      case ok: True
      have so: "signer_ok kk" using k kk(1) by blast
      note m = sign1_made [OF W so bufs(1) c(2) rd(2-4) kk(2) pl_def refl prep_def [unfolded kk(1)], folded made_def]
      obtain sig k' where s: "lms_room b W (Some kk) alg kidLen payloadLen detachedLen flags osz" "length (alg_hdr alg) \<le> protected_hdr_max b"
        "signs b W kk rng alg (sign1_tbs alg (bytes_at ea ean) pl) sig k'"
        "sign1_signed (sign1_prepared b (Some kk) alg (sign1_tbs alg (bytes_at ea ean) pl) ms mo osz) sig k' (snd made)"
        using m ok unfolding staged_def by blast
      define bs where "bs = sign1_bytes flags alg (kid_of kid kidLen) po sig"
      have p: "po = (if detached \<noteq> None then None else Some (bytes_at payload payloadLen))" by (simp add: po_def pl_def)
      have i: "sign1_inv ms ssz mo osz (snd made)" using m unfolding staged_def by blast
      have "settles (sign1_inv ms ssz mo osz) (length bs \<le> osz) ((snd made)\<lparr>sw_out := append_out (fresh mo osz) bs\<rparr>) body"
        using sign1_written [OF i bufs(2) rd(1,2) s(2,4) p bs_def] ok by (simp add: body_def on_success_def)
      then have "\<not> length bs \<le> osz" using fails unfolding fields b(1) settles_def by (auto split: if_splits)
      moreover have l: "length bs = sign1_len (length (alg_hdr alg)) kidLen payloadLen detachedLen (length sig) flags"
        unfolding bs_def po_def pl_def by (rule sign1_bytes_length [OF rd(1) c(8) rd(2,3) c(7) pln])
      ultimately have "k' = kk" using lms_output_fits [OF W s(1,3) _ l] by (cases "k' = kk") simp_all
      then have "sw_key (snd r) = key"
        using s(4) ok by (simp add: b(1) body_def on_success_def sw_key_kept sign1_signed_def kk(1))
      then show ?thesis by (simp add: fields lms_spent_def)
    qed
  qed
qed

lemma toy_sig_exact: "sig_exact toy_sig"
  by (auto simp: sig_exact_def toy_sig_def fips204_sig_len_def Let_def split: if_splits)

lemma toy_sign_output:
  obtains scr out k' f where "toy_sign = (WOLFCOSE_SUCCESS, scr, out, Some 75, k', f)"
proof -
  obtain ret scr out n k' f where c: "toy_sign = (ret, scr, out, n, k', f)" by (metis prod_cases6)
  have ok: "ret = WOLFCOSE_SUCCESS" using toy_sign_runs unfolding c by simp
  have r: "readable None 0" "readable (Some [1]) 1" "20 \<le> length (replicate 20 (7 :: u8))" "80 \<le> length (replicate 80 (7 :: u8))"
    by (simp_all add: readable_def)
  obtain sig kk where "signs full_build toy_sig toy_okp (Some 0) (- 19) (sign1_tbs (- 19) [] [1]) sig kk"
    "n = Some (length (sign1_bytes 0 (- 19) (kid_of None 0) (Some [1]) sig))"
    using Sign1_Sign_outcome(2) [OF toy_sig_ok toy_okp_signer r(3,4,1,2,1,1) c refl refl refl refl ok] by auto
  then show thesis using that c ok toy_signs toy_sign_length by auto
qed

lemma Sign1_SignSize_exact_witness:
  "wc_CoseSign1_SignSize_ex full_build toy_sig (Some toy_okp) (- 19) 0 1 0 0 (Some 0) = (WOLFCOSE_SUCCESS, Some 75)"
proof -
  have r: "readable None 0" "readable (Some [1]) 1" "20 \<le> length (replicate 20 (7 :: u8))" "80 \<le> length (replicate 80 (7 :: u8))"
    by (simp_all add: readable_def)
  obtain scr out k' f where c: "toy_sign = (WOLFCOSE_SUCCESS, scr, out, Some 75, k', f)" by (rule toy_sign_output)
  show ?thesis
    by (rule Sign1_SignSize_exact [OF toy_sig_ok toy_sig_exact toy_okp_signer r(3,4,1,2,1,1) _ _ c]) simp_all
qed

text \<open>An LMS key, and a provider whose LMS signing fails.\<close>

definition toy_lms :: cose_key where
  "toy_lms = toy_okp\<lparr>key_kty := WOLFCOSE_KTY_HSS_LMS, key_attachedType := WOLFCOSE_ATT_LMS,
     key_lms := Some \<lparr> lms_handle = 1, lms_state = WC_LMS_STATE_OK \<rparr>\<rparr>"

definition toy_lms_fails :: wolfsig where
  "toy_lms_fails = toy_sig\<lparr>sg_lms_sign := \<lambda>v m n. (None, v)\<rparr>"

lemma toy_lms_ok: "sig_ok toy_lms_fails" "\<forall>k. Some toy_lms = Some k \<longrightarrow> signer_ok k"
  by (auto simp: sig_ok_def toy_lms_fails_def toy_sig_def signer_ok_def toy_lms_def toy_okp_def split: if_splits)

lemma toy_lms_signs: "\<not> signs full_build toy_lms_fails toy_lms (Some 0) (- 46) tbs sig k'"
  by (auto simp: signs_def delegates_def toy_sign_tables toy_lms_fails_def toy_lms_def toy_okp_def wolfCose_AlgIsEcdsa_def is_pss_def is_mldsa_def
      alg_is_es_def elim!: local_sig.cases split: if_splits)

abbreviation toy_lms_run :: "rc \<times> cptr \<times> cptr \<times> size option \<times> cose_key option \<times> bool" where
  "toy_lms_run \<equiv> wc_CoseSign1_Sign_ex full_build toy_lms_fails (Some toy_lms) (- 46) None 0 (Some [1]) 1 None 0 None 0
     (Some (replicate 80 7)) 80 (Some (replicate 80 7)) 80 (Some 0) (Some 0) 0"

lemma Sign1_lms_state_witness:
  "fst toy_lms_run \<noteq> WOLFCOSE_SUCCESS \<and> lms_spent (Some toy_lms) (fst toy_lms_run) (fst (snd (snd (snd (snd toy_lms_run)))))"
proof -
  obtain ret scr out n k' f where c: "toy_lms_run = (ret, scr, out, n, k', f)" by (metis prod_cases6)
  have r: "readable None 0" "readable (Some [1]) 1" "80 \<le> length (replicate 80 (7 :: u8))"
    by (simp_all add: readable_def)
  have f: "ret \<noteq> WOLFCOSE_SUCCESS"
    using Sign1_Sign_outcome(2) [OF toy_lms_ok r(3,3,1,2,1,1) c refl refl refl refl] toy_lms_signs by auto
  then show ?thesis
    unfolding c fst_conv snd_conv by (intro conjI Sign1_lms_state [OF toy_lms_ok r(3,3,1,2,1,1) _ _ c]) simp_all
qed

end
