(* ===== verification/Cose_Sign1Verify.thy ===== *)
theory Cose_Sign1Verify
  imports Cose_Sign1Size
begin

text \<open>
  What verifying a COSE_Sign1 message promises: a verified message carries a signature that wolfCrypt accepts
  for the key over the RFC 9052 Sig_structure, and what a signing call wrote is accepted.
\<close>

section \<open>Signatures that are accepted\<close>

text \<open>
  The signatures wolfCrypt accepts for a key, an algorithm and bytes; \<open>cap\<close> is the size of the buffer in which
  an RSA-PSS signature is opened.
\<close>

definition ecc_der :: "build \<Rightarrow> wolfsig \<Rightarrow> size \<Rightarrow> u8 list \<Rightarrow> u8 list option" where
  "ecc_der b W n sig = (if no_asn b then Some sig else sg_rs_to_sig W (take n sig) (drop n sig))"

inductive accepts :: "build \<Rightarrow> wolfsig \<Rightarrow> cose_key \<Rightarrow> i32 \<Rightarrow> size \<Rightarrow> u8 list \<Rightarrow> u8 list \<Rightarrow> bool"
  for b W k alg cap tbs sig where
  ed25519: "wolfCose_AlgIsEddsa b alg \<Longrightarrow> key_kty k = WOLFCOSE_KTY_OKP \<Longrightarrow>
    wolfCose_AlgCheckCrv b alg (key_crv k) = WOLFCOSE_SUCCESS \<Longrightarrow> have_eddsa b \<Longrightarrow> key_crv k = WOLFCOSE_CRV_ED25519 \<Longrightarrow>
    key_attachedType k = WOLFCOSE_ATT_ED25519 \<Longrightarrow> key_ed25519 k = Some h \<Longrightarrow>
    sg_ed25519_verify W h sig tbs = Some True \<Longrightarrow> accepts b W k alg cap tbs sig"
| ed448: "wolfCose_AlgIsEddsa b alg \<Longrightarrow> key_kty k = WOLFCOSE_KTY_OKP \<Longrightarrow>
    wolfCose_AlgCheckCrv b alg (key_crv k) = WOLFCOSE_SUCCESS \<Longrightarrow> have_ed448 b \<Longrightarrow> key_crv k = WOLFCOSE_CRV_ED448 \<Longrightarrow>
    key_attachedType k = WOLFCOSE_ATT_ED448 \<Longrightarrow> key_ed448 k = Some h \<Longrightarrow>
    sg_ed448_verify W h sig tbs = Some True \<Longrightarrow> accepts b W k alg cap tbs sig"
| ecdsa: "wolfCose_AlgIsEcdsa b alg \<Longrightarrow> key_kty k = WOLFCOSE_KTY_EC2 \<Longrightarrow> key_attachedType k = WOLFCOSE_ATT_ECC \<Longrightarrow>
    wolfCose_AlgCheckCrv b alg (key_crv k) = WOLFCOSE_SUCCESS \<Longrightarrow> key_ecc k = Some e \<Longrightarrow>
    wolfCose_EccKeyCheckCurve (key_crv k) (Some e) = WOLFCOSE_SUCCESS \<Longrightarrow>
    struct_digest b W alg tbs = (WOLFCOSE_SUCCESS, ht, d) \<Longrightarrow>
    wolfCose_CrvKeySize (key_crv k) (Some 0) = (WOLFCOSE_SUCCESS, Some n) \<Longrightarrow> length sig = n * 2 \<Longrightarrow>
    ecc_der b W n sig = Some der \<Longrightarrow>
    sg_ecc_verify W e der d = Some True \<Longrightarrow> accepts b W k alg cap tbs sig"
| pss: "have_rsapss b \<Longrightarrow> is_pss alg \<Longrightarrow> fst (wolfCose_RsaPssCheckKey (Some k) None) = WOLFCOSE_SUCCESS \<Longrightarrow>
    key_rsa k = Some v \<Longrightarrow> struct_digest b W alg tbs = (WOLFCOSE_SUCCESS, ht, d) \<Longrightarrow>
    wolfCose_HashToMgf b ht (Some WC_MGF1SHA256) = (WOLFCOSE_SUCCESS, Some mgf) \<Longrightarrow> length sig \<le> cap \<Longrightarrow>
    fst (sg_pss_verify W v ht mgf sig cap d) \<Longrightarrow> accepts b W k alg cap tbs sig"
| mldsa: "have_mldsa b \<Longrightarrow> is_mldsa alg \<Longrightarrow> wolfCose_MlDsaCheckKey (Some k) alg = WOLFCOSE_SUCCESS \<Longrightarrow>
    key_mldsa k = Some m \<Longrightarrow> sg_mldsa_verify W m sig tbs = Some True \<Longrightarrow> accepts b W k alg cap tbs sig"
| lms: "have_lms b \<Longrightarrow> alg = WOLFCOSE_ALG_HSS_LMS \<Longrightarrow> wolfCose_LmsCheckKey (Some k) = WOLFCOSE_SUCCESS \<Longrightarrow>
    key_lms k = Some v \<Longrightarrow> length tbs \<le> INT_MAX \<Longrightarrow> sg_lms_verify W v sig tbs = LMS_VALID \<Longrightarrow>
    accepts b W k alg cap tbs sig"

lemma sig_verdict_success [simp]: "sig_verdict v = WOLFCOSE_SUCCESS \<longleftrightarrow> v = Some True"
  by (auto simp: sig_verdict_def split: option.split)

lemma eddsa_verdict_success [simp]:
  "eddsa_verdict verify h at sig tbs = WOLFCOSE_SUCCESS \<longleftrightarrow> at \<and> (\<exists>k. h = Some k \<and> verify k sig tbs = Some True)"
  by (auto simp: eddsa_verdict_def split: option.split)

lemma check_eddsa_iff:
  assumes a: "wolfCose_AlgIsEddsa b alg"
  shows "check_eddsa b W alg k sig tbs = WOLFCOSE_SUCCESS \<longleftrightarrow> key_kty k = WOLFCOSE_KTY_OKP \<and>
    wolfCose_AlgCheckCrv b alg (key_crv k) = WOLFCOSE_SUCCESS \<and>
    (have_eddsa b \<and> key_crv k = WOLFCOSE_CRV_ED25519 \<and> key_attachedType k = WOLFCOSE_ATT_ED25519 \<and>
       (\<exists>h. key_ed25519 k = Some h \<and> sg_ed25519_verify W h sig tbs = Some True) \<or>
     have_ed448 b \<and> key_crv k = WOLFCOSE_CRV_ED448 \<and> key_attachedType k = WOLFCOSE_ATT_ED448 \<and>
       (\<exists>h. key_ed448 k = Some h \<and> sg_ed448_verify W h sig tbs = Some True))"
  unfolding check_eddsa_def Let_def by auto

lemma check_ecdsa_iff:
  assumes s: "sigData \<noteq> None"
  shows "check_ecdsa b W alg k sigData n tbs = WOLFCOSE_SUCCESS \<longleftrightarrow> key_kty k = WOLFCOSE_KTY_EC2 \<and> key_attachedType k = WOLFCOSE_ATT_ECC \<and>
    wolfCose_AlgCheckCrv b alg (key_crv k) = WOLFCOSE_SUCCESS \<and>
    (\<exists>e ht d sz der. key_ecc k = Some e \<and> wolfCose_EccKeyCheckCurve (key_crv k) (Some e) = WOLFCOSE_SUCCESS \<and>
      struct_digest b W alg tbs = (WOLFCOSE_SUCCESS, ht, d) \<and> wolfCose_CrvKeySize (key_crv k) (Some 0) = (WOLFCOSE_SUCCESS, Some sz) \<and>
      n = sz * 2 \<and> ecc_der b W sz (bytes_at sigData n) = Some der \<and>
      sg_ecc_verify W e der d = Some True)"
proof -
  obtain r1 ht d where d: "struct_digest b W alg tbs = (r1, ht, d)" by (metis prod_cases3)
  obtain r2 so where c: "wolfCose_CrvKeySize (key_crv k) (Some 0) = (r2, Some so)"
    by (cases "wolfCose_CrvKeySize (key_crv k) (Some 0)") (auto simp: wolfCose_CrvKeySize_def split: if_splits option.splits)
  have v: "(case wolfCose_EccVerifyRaw b W sigData n d so (Some e) False of (ret, verified) \<Rightarrow>
        if ret = WOLFCOSE_SUCCESS \<and> \<not> verified then WOLFCOSE_E_COSE_SIG_FAIL else ret) = WOLFCOSE_SUCCESS \<longleftrightarrow>
      n = so * 2 \<and> (\<exists>der. ecc_der b W so (bytes_at sigData n) = Some der \<and> sg_ecc_verify W e der d = Some True)" for e
    unfolding wolfCose_EccVerifyRaw_def Let_def ecc_der_def [symmetric] using s by (auto split: option.split)
  show ?thesis
  proof (cases "key_ecc k")
    case None
    then show ?thesis unfolding check_ecdsa_def Let_def d prod.case c
      by (simp add: wolfCose_EccKeyCheckCurve_def)
  next
    case (Some e)
    show ?thesis
      unfolding check_ecdsa_def Let_def d prod.case c Some option.sel
      using v [of e] by (auto split del: if_split split: if_splits)
  qed
qed

lemma RsaPssCheckKey_rsa: "fst (wolfCose_RsaPssCheckKey (Some k) None) = WOLFCOSE_SUCCESS \<Longrightarrow> key_rsa k \<noteq> None"
  by (cases "key_rsa k") (auto simp: wolfCose_RsaPssCheckKey_def split: if_splits)

lemma MlDsaCheckKey_mldsa: "wolfCose_MlDsaCheckKey (Some k) alg = WOLFCOSE_SUCCESS \<Longrightarrow> key_mldsa k \<noteq> None"
  by (cases "key_mldsa k") (auto simp: wolfCose_MlDsaCheckKey_def split: if_splits)

lemma LmsCheckKey_lms: "wolfCose_LmsCheckKey (Some k) = WOLFCOSE_SUCCESS \<Longrightarrow> key_lms k \<noteq> None"
  by (auto simp: wolfCose_LmsCheckKey_def split: if_splits)

lemma check_pss_spec:
  assumes W: "sig_ok W" and sc: "within ms ssz scr" "ssz \<le> length ms" "ssz < 2 ^ 32" and n: "length sig < 2 ^ 32"
    and sd: "readable sigData (length sig)" "bytes_at sigData (length sig) = sig"
    and run: "check_pss b W alg k sigData (length sig) scr ssz tbs = (ret, scr', bad)"
  shows "\<not> bad \<and> within ms ssz scr' \<and> (ret = WOLFCOSE_SUCCESS \<longleftrightarrow>
    fst (wolfCose_RsaPssCheckKey (Some k) None) = WOLFCOSE_SUCCESS \<and> (\<exists>v ht d mgf. key_rsa k = Some v \<and>
      struct_digest b W alg tbs = (WOLFCOSE_SUCCESS, ht, d) \<and>
      wolfCose_HashToMgf b ht (Some WC_MGF1SHA256) = (WOLFCOSE_SUCCESS, Some mgf) \<and> length sig \<le> ssz \<and>
      fst (sg_pss_verify W v ht mgf sig ssz d)))"
proof -
  obtain r1 ht d where d: "struct_digest b W alg tbs = (r1, ht, d)" by (metis prod_cases3)
  obtain r2 mo where m: "wolfCose_HashToMgf b ht (Some WC_MGF1SHA256) = (r2, Some mo)"
    by (cases "wolfCose_HashToMgf b ht (Some WC_MGF1SHA256)") (auto simp: wolfCose_HashToMgf_def lookup_out_def split: if_splits option.splits)
  show ?thesis
  proof (cases "fst (wolfCose_RsaPssCheckKey (Some k) None) = WOLFCOSE_SUCCESS \<and> r1 = WOLFCOSE_SUCCESS \<and> r2 = WOLFCOSE_SUCCESS \<and>
      length sig \<le> ssz")
    case False
    have "ret \<noteq> WOLFCOSE_SUCCESS \<and> scr' = scr \<and> \<not> bad"
      using run False unfolding check_pss_def Let_def d prod.case m by (auto split: if_splits)
    then show ?thesis using sc(1) False d m by auto
  next
    case True
    obtain v where v: "key_rsa k = Some v" using RsaPssCheckKey_rsa True by blast
    obtain p1 where p1: "store_bytes 0 sig scr = (p1, False)" "within ms ssz p1"
      using within_store [OF sc(1), of 0 sig] True sc(2) by auto
    have b1: "bytes_at p1 (length sig) = sig"
      using p1(1) sc True unfolding within_def store_bytes_def by (auto simp: splice_def split: if_splits)
    obtain ok left where o: "sg_pss_verify W v ht mo sig ssz d = (ok, left)" by fastforce
    have "length left \<le> ssz" using sig_okD(5) [OF W, of sig ssz v ht mo d] True o by simp
    then obtain p2 where p2: "store_bytes 0 left p1 = (p2, False)" "within ms ssz p2"
      using within_store [OF p1(2), of 0 left] sc(2) by auto
    have w: "w32 (length sig) = length sig" "w32 ssz = ssz" using n sc(3) by simp_all
    have "ret = (if ok then WOLFCOSE_SUCCESS else WOLFCOSE_E_COSE_SIG_FAIL) \<and> scr' = p2 \<and> \<not> bad"
      using run True unfolding check_pss_def Let_def d prod.case m sd(2) p1(1) w b1 v option.sel o p2(1) by simp
    then show ?thesis using p2(2) True v d m o by auto
  qed
qed

text \<open>The families exclude each other.\<close>

lemma family_disjoint:
  "wolfCose_AlgIsEcdsa b alg \<Longrightarrow> \<not> wolfCose_AlgIsEddsa b alg"
  "is_pss alg \<Longrightarrow> \<not> wolfCose_AlgIsEddsa b alg \<and> \<not> wolfCose_AlgIsEcdsa b alg"
  "is_mldsa alg \<Longrightarrow> \<not> wolfCose_AlgIsEddsa b alg \<and> \<not> wolfCose_AlgIsEcdsa b alg \<and> \<not> is_pss alg"
  "alg = WOLFCOSE_ALG_HSS_LMS \<Longrightarrow> \<not> wolfCose_AlgIsEddsa b alg \<and> \<not> wolfCose_AlgIsEcdsa b alg \<and> \<not> is_pss alg \<and> \<not> is_mldsa alg"
  unfolding AlgIsEddsa_iff AlgIsEcdsa_iff is_pss_def is_mldsa_def WOLFCOSE_ALG_HSS_LMS_def
  by (elim disjE conjE; simp)+ simp

lemma sign1_check_sig_spec:
  assumes W: "sig_ok W" and sc: "within ms ssz scr" "ssz \<le> length ms" "ssz < 2 ^ 32"
    and t: "bytes_at scr (length tbs) = tbs" "length tbs < 2 ^ 32" and n: "length sig < 2 ^ 32"
    and sd: "readable sigData (length sig)" "bytes_at sigData (length sig) = sig" "sigData \<noteq> None"
    and run: "sign1_check_sig b W alg k sigData (length sig) scr ssz (length tbs) = (ret, scr', bad)"
  shows "\<not> bad \<and> within ms ssz scr' \<and> (ret = WOLFCOSE_SUCCESS \<longleftrightarrow> accepts b W k alg ssz tbs sig)"
proof -
  have w: "w32 (length tbs) = length tbs" "w32 (length sig) = length sig" using t(2) n by simp_all
  note R = run [unfolded sign1_check_sig_def Let_def w t(1) sd(2)]
  consider "wolfCose_AlgIsEddsa b alg" | "wolfCose_AlgIsEcdsa b alg" "\<not> wolfCose_AlgIsEddsa b alg"
    | "have_rsapss b" "is_pss alg" "\<not> wolfCose_AlgIsEddsa b alg" "\<not> wolfCose_AlgIsEcdsa b alg"
    | "have_mldsa b" "is_mldsa alg" "\<not> wolfCose_AlgIsEddsa b alg" "\<not> wolfCose_AlgIsEcdsa b alg" "\<not> is_pss alg"
    | "have_lms b" "alg = WOLFCOSE_ALG_HSS_LMS" "\<not> wolfCose_AlgIsEddsa b alg" "\<not> wolfCose_AlgIsEcdsa b alg" "\<not> is_pss alg" "\<not> is_mldsa alg"
    | "\<not> wolfCose_AlgIsEddsa b alg" "\<not> wolfCose_AlgIsEcdsa b alg" "\<not> (have_rsapss b \<and> is_pss alg)" "\<not> (have_mldsa b \<and> is_mldsa alg)"
      "\<not> (have_lms b \<and> alg = WOLFCOSE_ALG_HSS_LMS)"
    using family_disjoint by blast
  then show ?thesis
  proof cases
    case 1
    have "ret = check_eddsa b W alg k sig tbs \<and> scr' = scr \<and> \<not> bad" using R 1 by simp
    moreover have "accepts b W k alg ssz tbs sig \<longleftrightarrow> check_eddsa b W alg k sig tbs = WOLFCOSE_SUCCESS"
      unfolding check_eddsa_iff [OF 1] using 1 family_disjoint by (auto elim!: accepts.cases intro: accepts.intros)
    ultimately show ?thesis using sc(1) by simp
  next
    case 2
    have "ret = check_ecdsa b W alg k sigData (length sig) tbs \<and> scr' = scr \<and> \<not> bad" using R 2 by simp
    moreover have "accepts b W k alg ssz tbs sig \<longleftrightarrow> check_ecdsa b W alg k sigData (length sig) tbs = WOLFCOSE_SUCCESS"
      unfolding check_ecdsa_iff [OF sd(3)] sd(2)
      using 2 family_disjoint by (auto elim!: accepts.cases intro: accepts.ecdsa)
    ultimately show ?thesis using sc(1) by simp
  next
    case 3
    have "check_pss b W alg k sigData (length sig) scr ssz tbs = (ret, scr', bad)" using R 3 by simp
    note p = check_pss_spec [OF W sc n sd(1,2) this]
    show ?thesis using p 3 family_disjoint by (auto elim!: accepts.cases intro: accepts.pss)
  next
    case 4
    have "ret = check_mldsa W alg k sig tbs \<and> scr' = scr \<and> \<not> bad" using R 4 by simp
    moreover have "check_mldsa W alg k sig tbs = WOLFCOSE_SUCCESS" if "accepts b W k alg ssz tbs sig"
      using that 4 family_disjoint(4) [of alg b] by (auto simp: check_mldsa_def elim!: accepts.cases)
    moreover have "accepts b W k alg ssz tbs sig" if c: "check_mldsa W alg k sig tbs = WOLFCOSE_SUCCESS"
    proof -
      have k: "wolfCose_MlDsaCheckKey (Some k) alg = WOLFCOSE_SUCCESS" "sg_mldsa_verify W (the (key_mldsa k)) sig tbs = Some True"
        using c by (auto simp: check_mldsa_def Let_def split: if_splits)
      then obtain m where "key_mldsa k = Some m" using MlDsaCheckKey_mldsa by blast
      then show ?thesis using accepts.mldsa [OF 4(1,2) k(1)] k(2) by simp
    qed
    ultimately show ?thesis using sc(1) by auto
  next
    case 5
    have "ret = check_lms W k sig scr (length tbs) \<and> scr' = scr \<and> \<not> bad" using R 5 by auto
    moreover have "check_lms W k sig scr (length tbs) = WOLFCOSE_SUCCESS" if "accepts b W k alg ssz tbs sig"
      unfolding check_lms_def Let_def t(1) using that
      by (cases rule: accepts.cases) (use 5 in simp_all)
    moreover have "accepts b W k alg ssz tbs sig" if c: "check_lms W k sig scr (length tbs) = WOLFCOSE_SUCCESS"
    proof -
      have k: "wolfCose_LmsCheckKey (Some k) = WOLFCOSE_SUCCESS" "length tbs \<le> INT_MAX"
        using c by (auto simp: check_lms_def Let_def split: if_splits)
      then obtain v where v: "key_lms k = Some v" using LmsCheckKey_lms by blast
      then have "sg_lms_verify W v sig tbs = LMS_VALID"
        using c k unfolding check_lms_def Let_def t(1) by (cases "sg_lms_verify W v sig tbs") simp_all
      then show ?thesis using accepts.lms [OF 5(1,2) k(1) v k(2)] by simp
    qed
    ultimately show ?thesis using sc(1) by auto
  next
    case 6
    have "ret \<noteq> WOLFCOSE_SUCCESS \<and> scr' = scr \<and> \<not> bad" using R 6 by (auto split: if_splits)
    moreover have "\<not> accepts b W k alg ssz tbs sig" using 6 by (auto elim: accepts.cases)
    ultimately show ?thesis using sc(1) by simp
  qed
qed

section \<open>Verification\<close>

lemma tag_sign1: "unat WOLFCOSE_TAG_SIGN1 = 18"
  by simp

lemmas sign1_parse_safe = msg_parse_safe [where tagNo = WOLFCOSE_TAG_SIGN1, folded sign1_parse_def]

lemmas sign1_parse_sound = msg_parse_sound [where tagNo = WOLFCOSE_TAG_SIGN1, folded sign1_parse_def, unfolded tag_sign1]

lemmas sign1_parse_reads = msg_parse_reads [where tagNo = WOLFCOSE_TAG_SIGN1, folded sign1_parse_def, unfolded tag_sign1]

text \<open>The bytes the signature of a parsed message is made over, and when a parsed message is accepted.\<close>

definition sign1_msg_tbs :: "cptr \<Rightarrow> size \<Rightarrow> cose_msg \<Rightarrow> u8 list" where
  "sign1_msg_tbs ea ean s = tbs_bytes WOLFCOSE_CTX_SIGNATURE1 (bytes_at (msg_protected s) (msg_protectedLen s)) None (bytes_at ea ean)
     (bytes_at (msg_verify s) (msg_verifyLen s))"

definition sign1_accepts :: "build \<Rightarrow> wolfsig \<Rightarrow> cose_key \<Rightarrow> cptr \<Rightarrow> size \<Rightarrow> size \<Rightarrow> cose_msg \<Rightarrow> bool" where
  "sign1_accepts b W k ea ean scratchSz s \<longleftrightarrow>
     (if key_alg k = WOLFCOSE_ALG_UNSET then msg_algProtected s else key_alg k = hdr_alg (msg_hdr s)) \<and>
     length (sign1_msg_tbs ea ean s) \<le> scratchSz \<and>
     accepts b W k (hdr_alg (msg_hdr s)) scratchSz (sign1_msg_tbs ea ean s) (bytes_at (msg_tag s) (msg_tagLen s))"

lemma sign1_verify_sig_spec:
  assumes W: "sig_ok W" and sc: "scratchSz \<le> length ms" "scratchSz < 2 ^ 32"
    and rd: "readable (msg_protected s) (msg_protectedLen s)" "readable ea ean" "readable (msg_verify s) (msg_verifyLen s)"
    and t: "msg_tag s = Some t" "msg_tagLen s \<le> length t" "msg_tagLen s < 2 ^ 32"
    and run: "sign1_verify_sig b W k ea ean (Some ms) scratchSz s = (ret, scr, fault)"
  shows "\<not> fault \<and> within ms scratchSz scr \<and> (ret = WOLFCOSE_SUCCESS \<longleftrightarrow> length (sign1_msg_tbs ea ean s) \<le> scratchSz \<and>
    accepts b W k (hdr_alg (msg_hdr s)) scratchSz (sign1_msg_tbs ea ean s) (bytes_at (msg_tag s) (msg_tagLen s)))"
proof -
  define tbs where "tbs = sign1_msg_tbs ea ean s"
  define sig where "sig = bytes_at (msg_tag s) (msg_tagLen s)"
  obtain r1 c n where bld: "wolfCose_BuildSigStructure (msg_protected s) (msg_protectedLen s) ea ean
      (msg_verify s) (msg_verifyLen s) (Some ms) scratchSz 0 = (r1, c, n)" by (metis prod_cases3)
  have B: "\<not> ctx_fault c" "if length tbs \<le> scratchSz then r1 = WOLFCOSE_SUCCESS \<and> n = length tbs \<and> ctx_buf c = Some (splice 0 tbs ms)
      else r1 \<noteq> WOLFCOSE_SUCCESS" "within ms scratchSz (ctx_buf c)"
    using BuildToBeSignedMaced_spec [OF contexts_ok(1) rd(1) _ rd(2,3) sc(1) bld [unfolded wolfCose_BuildSigStructure_def]]
      within_splice [OF _ sc(1)] by (auto simp: tbs_def sign1_msg_tbs_def ptr_bytes_def Let_def within_def split: if_splits)
  show ?thesis
    unfolding tbs_def [symmetric] sig_def [symmetric]
  proof (cases "length tbs \<le> scratchSz")
    case False
    then show "\<not> fault \<and> within ms scratchSz scr \<and> (ret = WOLFCOSE_SUCCESS \<longleftrightarrow> length tbs \<le> scratchSz \<and>
        accepts b W k (hdr_alg (msg_hdr s)) scratchSz tbs sig)"
      using run B unfolding sign1_verify_sig_def bld prod.case by auto
  next
    case True
    then have b: "r1 = WOLFCOSE_SUCCESS" "n = length tbs" "ctx_buf c = Some (splice 0 tbs ms)" using B(2) by simp_all
    have tb: "bytes_at (ctx_buf c) (length tbs) = tbs" "length tbs < 2 ^ 32"
      unfolding b(3) using True sc by (simp_all add: splice_def)
    have sg: "length sig = msg_tagLen s" using t(1,2) by (simp add: sig_def)
    have sd: "length sig < 2 ^ 32" "readable (msg_tag s) (length sig)" "bytes_at (msg_tag s) (length sig) = sig" "msg_tag s \<noteq> None"
      unfolding sg using t by (simp_all add: sig_def)
    obtain r2 scr' bad where ck: "sign1_check_sig b W (hdr_alg (msg_hdr s)) k (msg_tag s) (msg_tagLen s) (ctx_buf c) scratchSz n = (r2, scr', bad)"
      by (metis prod_cases3)
    note C = sign1_check_sig_spec [OF W B(3) sc tb sd ck [folded sg, unfolded b(2)]]
    have "ret = r2 \<and> scr = scr' \<and> fault = bad"
      using run B(1) unfolding sign1_verify_sig_def bld prod.case ck b(1) by simp
    then show "\<not> fault \<and> within ms scratchSz scr \<and> (ret = WOLFCOSE_SUCCESS \<longleftrightarrow> length tbs \<le> scratchSz \<and>
        accepts b W k (hdr_alg (msg_hdr s)) scratchSz tbs sig)"
      using C True by simp
  qed
qed

lemma Sign1_Verify_outcome:
  assumes W: "sig_ok W" and i: "inSz \<le> length m" "length m < 2 ^ 63" and dp: "readable dp dn" and ea: "readable ea ean"
    and sc: "scratchSz \<le> length ms"
    and run: "wc_CoseSign1_Verify b W key (Some m) inSz dp dn ea ean (Some ms) scratchSz hdr payload plen =
      (ret, hdr', payload', plen', scratch', fault)"
    and chk: "chk = sign1_verify_checks b key (Some m) inSz dn ean (Some ms) scratchSz hdr payload plen 0"
  shows "\<not> fault \<and> scratch' = Some (splice 0 (replicate scratchSz 0) ms)"
    and "ret \<noteq> WOLFCOSE_SUCCESS \<Longrightarrow> hdr' = map_option (\<lambda>_. hdr_zero) hdr \<and>
      payload' = (if payload \<noteq> None \<and> plen \<noteq> None then Some None else payload) \<and>
      plen' = (if payload \<noteq> None \<and> plen \<noteq> None then Some 0 else plen)"
    and "ret = WOLFCOSE_SUCCESS \<Longrightarrow> \<exists>k s. key = Some k \<and> chk = WOLFCOSE_SUCCESS \<and>
      sign1_parse b 0 (Some m) inSz dp dn = (WOLFCOSE_SUCCESS, s) \<and> sign1_accepts b W k ea ean scratchSz s \<and>
      hdr' = Some (msg_hdr s) \<and> payload' = Some (msg_payload s) \<and> plen' = Some (msg_payloadLen s)"
    and "\<lbrakk>key = Some k; chk = WOLFCOSE_SUCCESS; sign1_parse b 0 (Some m) inSz dp dn = (WOLFCOSE_SUCCESS, s);
      sign1_accepts b W k ea ean scratchSz s\<rbrakk> \<Longrightarrow> ret = WOLFCOSE_SUCCESS"
proof -
  obtain rp s where p: "sign1_parse b 0 (Some m) inSz dp dn = (rp, s)" by fastforce
  define ra where "ra = sign1_alg_checks (the key) s"
  obtain rt scr ft where t: "sign1_verify_sig b W (the key) ea ean (Some ms) scratchSz s = (rt, scr, ft)" by (metis prod_cases3)
  have nf: "\<not> ctx_fault (msg_ctx s)" using sign1_parse_safe [OF i p] by (auto elim!: dec_ctxE)
  have keyed: "chk = WOLFCOSE_SUCCESS \<Longrightarrow> key = Some (the key) \<and> scratchSz < 2 ^ 32 \<and> inSz < 2 ^ 32"
    unfolding chk sign1_verify_checks_def wolfCose_LenFitsWord32_def by (auto split: if_splits)
  have ra: "ra = WOLFCOSE_SUCCESS \<longleftrightarrow>
      (if key_alg (the key) = WOLFCOSE_ALG_UNSET then msg_algProtected s else key_alg (the key) = hdr_alg (msg_hdr s))"
    by (simp add: ra_def sign1_alg_checks_def)
  have T: "\<not> ft \<and> within ms scratchSz scr \<and> (rt = WOLFCOSE_SUCCESS \<longleftrightarrow> length (sign1_msg_tbs ea ean s) \<le> scratchSz \<and>
      accepts b W (the key) (hdr_alg (msg_hdr s)) scratchSz (sign1_msg_tbs ea ean s) (bytes_at (msg_tag s) (msg_tagLen s)))"
    if ok: "chk = WOLFCOSE_SUCCESS" "rp = WOLFCOSE_SUCCESS"
  proof -
    obtain mp t' pre po where S: "msg_protected s = Some mp" "msg_protectedLen s \<le> length mp" "length mp < 2 ^ 63"
      "msg_tag s = Some t'" "msg_tagLen s \<le> length t'" "readable (msg_payload s) (msg_payloadLen s)"
      "msg_verify s = (if msg_payload s = None then dp else msg_payload s)"
      "msg_verifyLen s = (if msg_payload s = None then dn else msg_payloadLen s)"
      "take inSz m = pre @ payload_bytes po @ str_bytes 2 (take (msg_tagLen s) t')"
      using sign1_parse_sound [OF i dp p [unfolded ok(2)]] by blast
    have "length (take inSz m) \<ge> msg_tagLen s" unfolding S(9) using S(5) by (simp add: str_bytes_def)
    then have tl: "msg_tagLen s < 2 ^ 32" using keyed [OF ok(1)] by simp
    have rd: "readable (msg_protected s) (msg_protectedLen s)" "readable (msg_verify s) (msg_verifyLen s)"
      using S(1-3,6) dp unfolding S(7,8) by simp_all
    show ?thesis
      using sign1_verify_sig_spec [OF W sc _ rd(1) ea rd(2) S(4,5) tl t] keyed [OF ok(1)] by blast
  qed
  note R = run [unfolded wc_CoseSign1_Verify_def wolfCose_Sign1_Verify_ex_def chk [symmetric] Let_def p prod.case ra_def [symmetric] t]
  consider "chk \<noteq> WOLFCOSE_SUCCESS" | "chk = WOLFCOSE_SUCCESS" "rp \<noteq> WOLFCOSE_SUCCESS"
    | "chk = WOLFCOSE_SUCCESS" "rp = WOLFCOSE_SUCCESS" "ra \<noteq> WOLFCOSE_SUCCESS"
    | "chk = WOLFCOSE_SUCCESS" "rp = WOLFCOSE_SUCCESS" "ra = WOLFCOSE_SUCCESS" by blast
  note cases = this
  have hp: "chk = WOLFCOSE_SUCCESS \<Longrightarrow> hdr \<noteq> None"
    unfolding chk sign1_verify_checks_def by (auto split: if_splits)
  have acc: "sign1_accepts b W (the key) ea ean scratchSz s \<longleftrightarrow> ra = WOLFCOSE_SUCCESS \<and> rt = WOLFCOSE_SUCCESS"
    if "chk = WOLFCOSE_SUCCESS" "rp = WOLFCOSE_SUCCESS"
    using T [OF that] ra unfolding sign1_accepts_def by blast
  have fields: "ret = (if chk \<noteq> WOLFCOSE_SUCCESS then chk else if rp \<noteq> WOLFCOSE_SUCCESS then rp
       else if ra \<noteq> WOLFCOSE_SUCCESS then ra else rt)"
    "scratch' = wolfCose_ForceZero (if ret \<noteq> WOLFCOSE_SUCCESS \<and> (chk \<noteq> WOLFCOSE_SUCCESS \<or> rp \<noteq> WOLFCOSE_SUCCESS \<or> ra \<noteq> WOLFCOSE_SUCCESS)
       then Some ms else scr) scratchSz"
    "\<not> fault \<or> fault \<and> ft \<and> chk = WOLFCOSE_SUCCESS \<and> rp = WOLFCOSE_SUCCESS \<and> ra = WOLFCOSE_SUCCESS"
    using R nf by (cases rule: cases; auto split: if_splits)+
  show "\<not> fault \<and> scratch' = Some (splice 0 (replicate scratchSz 0) ms)"
    using fields T within_zero within_self [of ms scratchSz] by (cases rule: cases; auto split: if_splits)
  show "hdr' = map_option (\<lambda>_. hdr_zero) hdr \<and>
      payload' = (if payload \<noteq> None \<and> plen \<noteq> None then Some None else payload) \<and>
      plen' = (if payload \<noteq> None \<and> plen \<noteq> None then Some 0 else plen)" if "ret \<noteq> WOLFCOSE_SUCCESS"
    using R that hp by (cases rule: cases; auto split: if_splits)
  show "\<exists>k s. key = Some k \<and> chk = WOLFCOSE_SUCCESS \<and>
      sign1_parse b 0 (Some m) inSz dp dn = (WOLFCOSE_SUCCESS, s) \<and> sign1_accepts b W k ea ean scratchSz s \<and>
      hdr' = Some (msg_hdr s) \<and> payload' = Some (msg_payload s) \<and> plen' = Some (msg_payloadLen s)" if r: "ret = WOLFCOSE_SUCCESS"
  proof -
    have ok: "chk = WOLFCOSE_SUCCESS" "rp = WOLFCOSE_SUCCESS" "ra = WOLFCOSE_SUCCESS" "rt = WOLFCOSE_SUCCESS"
      using fields(1) r by (auto split: if_splits)
    have "hdr' = Some (msg_hdr s)" "payload' = Some (msg_payload s)" "plen' = Some (msg_payloadLen s)"
      using R ok by simp_all
    then show ?thesis using ok p keyed acc by blast
  qed
  show "ret = WOLFCOSE_SUCCESS" if "key = Some k" "chk = WOLFCOSE_SUCCESS"
    "sign1_parse b 0 (Some m) inSz dp dn = (WOLFCOSE_SUCCESS, s')" "sign1_accepts b W k ea ean scratchSz s'" for k s'
    using that p acc fields(1) by auto
qed

text \<open>C6: a COSE_Sign1 that is verified was, over the whole input, the optional tag 18 and the array of a
protected header, an unprotected header, a payload (null only when a detached one was given) and a signature;
the two headers are well-formed maps with disjoint labels, no critical label ignored, and the header
structure holds their values; the algorithm is the one of the key, or, when the key has none, comes from
the protected header; and the signature is one that wolfCrypt accepts, for the key, of its type and curve, and
this algorithm, over the RFC 9052 Sig_structure of the protected header, the external data and the payload
that is returned. No access leaves a buffer, the scratch buffer is zeroed, and after every failure header
and payload are cleared.\<close>

theorem Sign1_Verify_sound:
  assumes "sig_ok W" "inSz \<le> length m" "length m < 2 ^ 63" "readable dp dn" "readable ea ean" "scratchSz \<le> length ms"
    and "wc_CoseSign1_Verify b W key (Some m) inSz dp dn ea ean (Some ms) scratchSz hdr payload plen =
      (ret, hdr', payload', plen', scratch', fault)"
  shows "\<not> fault \<and> scratch' = Some (splice 0 (replicate scratchSz 0) ms) \<and>
    (if ret = WOLFCOSE_SUCCESS then
       \<exists>k h p n prot pes ues pre sig. let po = (if p = None then None else Some (bytes_at p n)) in
         key = Some k \<and> hdr' = Some h \<and> payload' = Some p \<and> plen' = Some n \<and>
         take inSz m = pre @ payload_bytes po @ str_bytes 2 sig \<and>
         msg_prefix 18 4 prot ues pre \<and> cose_headers b prot pes ues h \<and> (po = None \<longrightarrow> dp \<noteq> None) \<and>
         (if key_alg k = WOLFCOSE_ALG_UNSET then LInt 1 \<in> fst ` set pes else key_alg k = hdr_alg h) \<and>
         accepts b W k (hdr_alg h) scratchSz (tbs_bytes WOLFCOSE_CTX_SIGNATURE1 prot None (bytes_at ea ean)
           (case po of None \<Rightarrow> bytes_at dp dn | Some pl \<Rightarrow> pl)) sig
     else hdr' = map_option (\<lambda>_. hdr_zero) hdr \<and>
       payload' = (if payload \<noteq> None \<and> plen \<noteq> None then Some None else payload) \<and>
       plen' = (if payload \<noteq> None \<and> plen \<noteq> None then Some 0 else plen))"
proof (cases "ret = WOLFCOSE_SUCCESS")
  case False
  then show ?thesis using Sign1_Verify_outcome(1,2) [OF assms refl] by simp
next
  case True
  obtain k s where k: "key = Some k" "sign1_parse b 0 (Some m) inSz dp dn = (WOLFCOSE_SUCCESS, s)"
    "sign1_accepts b W k ea ean scratchSz s"
    "hdr' = Some (msg_hdr s)" "payload' = Some (msg_payload s)" "plen' = Some (msg_payloadLen s)"
    using Sign1_Verify_outcome(3) [OF assms refl True] by blast
  let ?po = "if msg_payload s = None then None else Some (bytes_at (msg_payload s) (msg_payloadLen s))"
  obtain mp pes ues pre t where S: "msg_protected s = Some mp" "msg_protectedLen s \<le> length mp"
    "msg_tag s = Some t" "msg_tagLen s \<le> length t"
    "msg_prefix 18 4 (take (msg_protectedLen s) mp) ues pre"
    "take inSz m = pre @ payload_bytes ?po @ str_bytes 2 (take (msg_tagLen s) t)"
    "cose_headers b (take (msg_protectedLen s) mp) pes ues (msg_hdr s)" "msg_algProtected s \<longleftrightarrow> LInt 1 \<in> fst ` set pes"
    "msg_payload s = None \<longrightarrow> dp \<noteq> None \<and> msg_payloadLen s = 0"
    "msg_verify s = (if msg_payload s = None then dp else msg_payload s)"
    "msg_verifyLen s = (if msg_payload s = None then dn else msg_payloadLen s)"
    using sign1_parse_sound [OF assms(2-4) k(2)] by (elim exE conjE) (rule that; assumption)
  have v: "bytes_at (msg_verify s) (msg_verifyLen s) = (case ?po of None \<Rightarrow> bytes_at dp dn | Some pl \<Rightarrow> pl)"
    unfolding S(10,11) by simp
  have sig: "accepts b W k (hdr_alg (msg_hdr s)) scratchSz (tbs_bytes WOLFCOSE_CTX_SIGNATURE1 (take (msg_protectedLen s) mp) None
      (bytes_at ea ean) (case ?po of None \<Rightarrow> bytes_at dp dn | Some pl \<Rightarrow> pl)) (take (msg_tagLen s) t)"
    using k(3) unfolding sign1_accepts_def sign1_msg_tbs_def S(1,3) v bytes_at_simps by blast
  have alg: "if key_alg k = WOLFCOSE_ALG_UNSET then LInt 1 \<in> fst ` set pes else key_alg k = hdr_alg (msg_hdr s)"
    using k(3) unfolding sign1_accepts_def S(8) by blast
  have po: "?po = None \<longrightarrow> dp \<noteq> None" using S(9) by simp
  note out = Sign1_Verify_outcome(1) [OF assms refl]
  show ?thesis
    unfolding if_P [OF True] Let_def
    by (rule conjI [OF conjunct1 [OF out] conjI [OF conjunct2 [OF out]]],
        rule exI [of _ k], rule exI [of _ "msg_hdr s"], rule exI [of _ "msg_payload s"], rule exI [of _ "msg_payloadLen s"],
        rule exI [of _ "take (msg_protectedLen s) mp"], rule exI [of _ pes], rule exI [of _ ues], rule exI [of _ pre],
        rule exI [of _ "take (msg_tagLen s) t"])
      (intro conjI k S po alg sig)
qed

section \<open>Verification accepts what signing wrote\<close>

text \<open>
  What verification needs to accept a signature: that the two halves of the attached key belong together. Then,
  as documented, the key verifies what it signed. For ECDSA this is after the conversion to fixed-width numbers
  and back; for RSA-PSS it holds of a salt as long as the digest, which is all that \<open>wc_RsaPSS_VerifyCheck\<close>
  accepts; for LMS the key is the one that signing left. Nothing is assumed of other keys: one whose public half
  is missing or another's may sign and verify nothing.
\<close>

definition key_pair :: "build \<Rightarrow> wolfsig \<Rightarrow> cose_key \<Rightarrow> bool" where
  "key_pair b W k \<longleftrightarrow>
     (\<forall>h m n sig. key_ed25519 k = Some h \<longrightarrow> sg_ed25519_sign W h m n = Some sig \<longrightarrow> sg_ed25519_verify W h sig m = Some True) \<and>
     (\<forall>h m n sig. key_ed448 k = Some h \<longrightarrow> sg_ed448_sign W h m n = Some sig \<longrightarrow> sg_ed448_verify W h sig m = Some True) \<and>
     (\<forall>e hto g d der n r s. key_ecc k = Some e \<longrightarrow> sg_ecc_sign W e hto g d = Some der \<longrightarrow> sg_sig_to_rs W der n = Some (r, s) \<longrightarrow>
        (\<exists>der'. ecc_der b W n (pad n r @ pad n s) = Some der' \<and> sg_ecc_verify W e der' d = Some True)) \<and>
     (\<forall>v ht mgf g d n sig cap. key_rsa k = Some v \<longrightarrow> sg_pss_sign W v ht mgf (sg_digest_size W ht) g d n = Some sig \<longrightarrow>
        length sig \<le> cap \<longrightarrow> fst (sg_pss_verify W v ht mgf sig cap d)) \<and>
     (\<forall>v g m n sig. key_mldsa k = Some v \<longrightarrow> sg_mldsa_sign W v g m n = Some sig \<longrightarrow> sg_mldsa_verify W v sig m = Some True) \<and>
     (\<forall>v m n sig v'. key_lms k = Some v \<longrightarrow> sg_lms_sig_len W v = Some n \<longrightarrow> sg_lms_sign W v m n = (Some sig, v') \<longrightarrow>
        sg_lms_verify W v' sig m = LMS_VALID)"

lemma key_pairD:
  assumes "key_pair b W k"
  shows "key_ed25519 k = Some h \<Longrightarrow> sg_ed25519_sign W h m n = Some sig \<Longrightarrow> sg_ed25519_verify W h sig m = Some True"
    and "key_ed448 k = Some h \<Longrightarrow> sg_ed448_sign W h m n = Some sig \<Longrightarrow> sg_ed448_verify W h sig m = Some True"
    and "key_ecc k = Some e \<Longrightarrow> sg_ecc_sign W e hto g d = Some der \<Longrightarrow> sg_sig_to_rs W der n = Some (r, s) \<Longrightarrow>
        \<exists>der'. ecc_der b W n (pad n r @ pad n s) = Some der' \<and> sg_ecc_verify W e der' d = Some True"
    and "key_rsa k = Some rk \<Longrightarrow> sg_pss_sign W rk ht mgf (sg_digest_size W ht) g d n = Some sig \<Longrightarrow> length sig \<le> cap \<Longrightarrow>
        fst (sg_pss_verify W rk ht mgf sig cap d)"
    and "key_mldsa k = Some mk \<Longrightarrow> sg_mldsa_sign W mk g m n = Some sig \<Longrightarrow> sg_mldsa_verify W mk sig m = Some True"
    and "key_lms k = Some v \<Longrightarrow> sg_lms_sig_len W v = Some n \<Longrightarrow> sg_lms_sign W v m n = (Some sig, v') \<Longrightarrow>
        sg_lms_verify W v' sig m = LMS_VALID"
proof -
  note h = assms [unfolded key_pair_def]
  note t1 = conjunct2 [OF h] note t2 = conjunct2 [OF t1] note t3 = conjunct2 [OF t2] note t4 = conjunct2 [OF t3]
  show "key_ed25519 k = Some h \<Longrightarrow> sg_ed25519_sign W h m n = Some sig \<Longrightarrow> sg_ed25519_verify W h sig m = Some True"
    by (rule conjunct1 [OF h, rule_format])
  show "key_ed448 k = Some h \<Longrightarrow> sg_ed448_sign W h m n = Some sig \<Longrightarrow> sg_ed448_verify W h sig m = Some True"
    by (rule conjunct1 [OF t1, rule_format])
  show "key_ecc k = Some e \<Longrightarrow> sg_ecc_sign W e hto g d = Some der \<Longrightarrow> sg_sig_to_rs W der n = Some (r, s) \<Longrightarrow>
      \<exists>der'. ecc_der b W n (pad n r @ pad n s) = Some der' \<and> sg_ecc_verify W e der' d = Some True"
    by (rule conjunct1 [OF t2, rule_format])
  show "key_rsa k = Some rk \<Longrightarrow> sg_pss_sign W rk ht mgf (sg_digest_size W ht) g d n = Some sig \<Longrightarrow> length sig \<le> cap \<Longrightarrow>
      fst (sg_pss_verify W rk ht mgf sig cap d)"
    by (rule conjunct1 [OF t3, rule_format])
  show "key_mldsa k = Some mk \<Longrightarrow> sg_mldsa_sign W mk g m n = Some sig \<Longrightarrow> sg_mldsa_verify W mk sig m = Some True"
    by (rule conjunct1 [OF t4, rule_format])
  show "key_lms k = Some v \<Longrightarrow> sg_lms_sig_len W v = Some n \<Longrightarrow> sg_lms_sign W v m n = (Some sig, v') \<Longrightarrow>
      sg_lms_verify W v' sig m = LMS_VALID"
    by (rule conjunct2 [OF t4, rule_format])
qed

lemma local_sig_accepted:
  assumes I: "key_pair b W k" and l: "local_sig b W k g alg tbs sig k'"
    and ecc: "key_kty k = WOLFCOSE_KTY_EC2 \<longrightarrow> key_attachedType k = WOLFCOSE_ATT_ECC" and cap: "is_pss alg \<longrightarrow> length sig \<le> cap"
  shows "accepts b W k' alg cap tbs sig"
  using l
proof (cases rule: local_sig.cases)
  case (ed25519 h)
  have "sg_ed25519_verify W h sig tbs = Some True" by (rule key_pairD(1) [OF I ed25519(8,9)])
  then show ?thesis using ed25519 by (auto intro: accepts.ed25519)
next
  case (ed448 h)
  have "sg_ed448_verify W h sig tbs = Some True" by (rule key_pairD(2) [OF I ed448(8,9)])
  then show ?thesis using ed448 by (auto intro: accepts.ed448)
next
  case (ecdsa e ht d n der r s)
  obtain der' where d: "ecc_der b W n sig = Some der'" "sg_ecc_verify W e der' d = Some True"
    using key_pairD(3) [OF I ecdsa(6,11,12)] unfolding ecdsa(1) by blast
  have "length sig = n * 2" using ecdsa(1,13,14) by simp
  then show ?thesis using accepts.ecdsa [of b alg k' e W tbs ht d n sig der' cap] ecdsa d ecc by simp
next
  case (pss v ht d mgf cap')
  have c: "length sig \<le> cap" using cap pss(3) by simp
  have "fst (sg_pss_verify W v ht mgf sig cap d)" by (rule key_pairD(4) [OF I pss(5,8) c])
  then show ?thesis using accepts.pss [OF pss(2-3) _ _ pss(6,7) c] pss(1,4,5) by simp
next
  case (mldsa m n)
  have "sg_mldsa_verify W m sig tbs = Some True" by (rule key_pairD(5) [OF I mldsa(5,7)])
  then show ?thesis using mldsa by (auto intro: accepts.mldsa)
next
  case (lms v n v')
  have "wolfCose_LmsCheckKey (Some k') = WOLFCOSE_SUCCESS"
    using lms(1,5) by (auto simp: wolfCose_LmsCheckKey_def split: if_splits)
  moreover have "sg_lms_verify W v' sig tbs = LMS_VALID" by (rule key_pairD(6) [OF I lms(6,9,11)])
  ultimately show ?thesis using accepts.lms [OF lms(2,4), of k' v'] lms(1,10) by simp
qed

lemma local_sig_key: "local_sig b W k g alg tbs sig k' \<Longrightarrow> key_alg k' = key_alg k"
  by (auto elim!: local_sig.cases)

lemma Sign1_verifies_signed:
  assumes W: "sig_ok W" and k: "\<forall>k. key = Some k \<longrightarrow> signer_ok k \<and> \<not> delegates b k \<and> key_pair b W k \<and>
      (key_kty k = WOLFCOSE_KTY_EC2 \<longrightarrow> key_attachedType k = WOLFCOSE_ATT_ECC)"
    and bufs: "ssz \<le> length ms" "osz \<le> length mo" "length mo < 2 ^ 63"
    and rd: "readable kid kidLen" "readable payload payloadLen" "readable detached detachedLen" "readable ea ean"
    and b: "1 \<le> max_map_items b"
    and sign: "wc_CoseSign1_Sign_ex b W key alg kid kidLen payload payloadLen detached detachedLen ea ean
       (Some ms) ssz (Some mo) osz outLen rng flags = (WOLFCOSE_SUCCESS, scr, Some m, Some n, key', fault)"
    and sc: "ssz \<le> ssz'" "is_pss alg \<longrightarrow> n \<le> ssz'" "ssz' \<le> length ms'" "ssz' < 2 ^ 32"
  shows "\<exists>h p pn scr'. wc_CoseSign1_Verify b W key' (Some m) n detached detachedLen ea ean (Some ms') ssz'
       (Some hdr) (Some q) (Some qn) = (WOLFCOSE_SUCCESS, Some h, Some p, Some pn, scr', False) \<and>
    hdr_alg h = alg \<and> bytes_at (hdr_kid h) (hdr_kidLen h) = bytes_at kid kidLen \<and>
    (if detached = None then bytes_at p pn = bytes_at payload payloadLen else p = None)"
proof -
  define pl where "pl = (if detached \<noteq> None then bytes_at detached detachedLen else bytes_at payload payloadLen)"
  define tbs where "tbs = sign1_tbs alg (bytes_at ea ean) pl"
  define po where "po = (if detached \<noteq> None then None else Some pl)"
  define bs where "bs = sign1_bytes flags alg (kid_of kid kidLen) po"
  have so: "\<forall>k. key = Some k \<longrightarrow> signer_ok k" using k by blast
  note C = Sign1_Sign_outcome [OF W so bufs(1,2) rd sign pl_def po_def tbs_def bs_def [THEN fun_cong]]
  obtain kk k' sig where s: "key = Some kk" "key' = Some k'" "signs b W kk rng alg tbs sig k'" "length tbs \<le> ssz"
    "length (bs sig) \<le> osz" "m = splice 0 (bs sig) mo" "n = length (bs sig)"
    using C(2) [OF refl] by auto
  have kk: "\<not> delegates b kk" "key_pair b W kk" "key_kty kk = WOLFCOSE_KTY_EC2 \<longrightarrow> key_attachedType kk = WOLFCOSE_ATT_ECC" using k s(1) by blast+
  obtain g where l: "local_sig b W kk g alg tbs sig k'" using s(3) kk(1) by (auto simp: signs_def)
  note chk = sign1_checksD [OF C(4) [OF refl]]
  have en: "ean < 2 ^ 32"
    using C(4) [OF refl] by (auto simp: sign1_checks_def Let_def wolfCose_LenFitsWord32_def split: if_splits)
  have ka: "key_alg k' = WOLFCOSE_ALG_UNSET \<or> key_alg k' = alg" using chk(1) s(1) local_sig_key [OF l] by auto
  have sz: "length sig \<le> n" unfolding s(7) bs_def by (simp add: sign1_bytes_def msg4_bytes_def str_bytes_def)
  have av: "accepts b W k' alg ssz' tbs sig" using local_sig_accepted [OF kk(2) l kk(3)] sc(2) sz by (meson le_trans)
  have m: "n \<le> length m" "length m < 2 ^ 63" "take n m = bs sig"
    using s(5-7) bufs(2,3) by (simp_all add: splice_def)
  have dp: "po = None \<longrightarrow> detached \<noteq> None" by (simp add: po_def)
  have tg: "sign1_tag flags \<in> {[], cbor_head 6 18}" by (simp add: sign1_tag_def)
  obtain s0 h f where p: "sign1_parse b 0 (Some m) n detached detachedLen = (WOLFCOSE_SUCCESS, s0)"
    "bytes_at (msg_protected s0) (msg_protectedLen s0) = alg_hdr alg" "msg_algProtected s0"
    "one_field (map_option (\<lambda>k. (4, k)) (kid_of kid kidLen)) (hdr_zero\<lparr>hdr_alg := alg\<rparr>) h" "msg_hdr s0 = h\<lparr>hdr_flags := f\<rparr>"
    "msg_tagLen s0 = length sig" "bytes_at (msg_tag s0) (msg_tagLen s0) = sig"
    "case po of None \<Rightarrow> msg_payload s0 = None \<and> msg_payloadLen s0 = 0 \<and> msg_verify s0 = detached \<and> msg_verifyLen s0 = detachedLen
     | Some x \<Rightarrow> msg_payload s0 \<noteq> None \<and> msg_payloadLen s0 = length x \<and> bytes_at (msg_payload s0) (length x) = x \<and>
         msg_verify s0 = msg_payload s0 \<and> msg_verifyLen s0 = length x"
    using sign1_parse_reads [OF m(3) [unfolded bs_def sign1_bytes_def] tg m(1,2) b dp] by blast
  have alg: "hdr_alg (msg_hdr s0) = alg"
    using p(4) unfolding p(5) by (cases "kid_of kid kidLen") (auto simp: one_field_def)
  have kid: "bytes_at (hdr_kid (msg_hdr s0)) (hdr_kidLen (msg_hdr s0)) = bytes_at kid kidLen"
    using p(4) chk(8) unfolding p(5) by (cases kid) (auto simp: one_field_def kid_of_def hdr_zero_def)
  have pay: "bytes_at (msg_verify s0) (msg_verifyLen s0) = pl"
    "if detached = None then bytes_at (msg_payload s0) (msg_payloadLen s0) = bytes_at payload payloadLen else msg_payload s0 = None"
    using p(8) by (auto simp: po_def pl_def split: option.splits if_splits)
  have tb: "sign1_msg_tbs ea ean s0 = tbs" unfolding sign1_msg_tbs_def p(2) pay(1) tbs_def sign1_tbs_def ..
  have acc: "sign1_accepts b W k' ea ean ssz' s0"
    unfolding sign1_accepts_def tb alg p(7) using av s(4) sc(1) ka p(3) by auto
  have v: "sign1_verify_checks b key' (Some m) n detachedLen ean (Some ms') ssz' (Some hdr) (Some q) (Some qn) 0 = WOLFCOSE_SUCCESS"
    using s(2,5,7) chk(3,5) sc(4) en by (simp add: sign1_verify_checks_def wolfCose_LenFitsWord32_def)
  obtain ret hdr' payload' plen' scr' fault' where run: "wc_CoseSign1_Verify b W key' (Some m) n detached detachedLen ea ean
      (Some ms') ssz' (Some hdr) (Some q) (Some qn) = (ret, hdr', payload', plen', scr', fault')"
    by (metis prod_cases6)
  note V = Sign1_Verify_outcome [OF W m(1,2) rd(3,4) sc(3) run refl]
  have ok: "ret = WOLFCOSE_SUCCESS" by (rule V(4) [OF s(2) v p(1) acc])
  obtain s' where "sign1_parse b 0 (Some m) n detached detachedLen = (WOLFCOSE_SUCCESS, s')"
    "hdr' = Some (msg_hdr s')" "payload' = Some (msg_payload s')" "plen' = Some (msg_payloadLen s')"
    using V(3) [OF ok] by blast
  then show ?thesis using run ok V(1) p(1) alg kid pay(2) by auto
qed

text \<open>C7: verification accepts what signing wrote. With a key whose halves belong together, as signing left it, the same external data and
detached payload, the message of a successful signing call that was not delegated verifies, in any scratch
buffer that is as large as the one of the signing call (and, for RSA-PSS, as the message), and yields the
algorithm, the key identifier and the payload it was signed with. An ECDSA key must be attached as one, which
only verification checks.\<close>

theorem Sign1_round_trip:
  assumes W: "sig_ok W" and k: "\<forall>k. key = Some k \<longrightarrow> signer_ok k \<and> \<not> delegates b k \<and> key_pair b W k \<and>
      (key_kty k = WOLFCOSE_KTY_EC2 \<longrightarrow> key_attachedType k = WOLFCOSE_ATT_ECC)"
    and bufs: "ssz \<le> length ms" "osz \<le> length mo" "length mo < 2 ^ 63"
    and rd: "readable kid kidLen" "readable payload payloadLen" "readable detached detachedLen" "readable ea ean"
    and b: "1 \<le> max_map_items b"
    and sign: "wc_CoseSign1_Sign_ex b W key alg kid kidLen payload payloadLen detached detachedLen ea ean
       (Some ms) ssz (Some mo) osz outLen rng flags = (WOLFCOSE_SUCCESS, scr, Some m, Some n, key', fault)"
    and sc: "ssz \<le> ssz'" "is_pss alg \<longrightarrow> n \<le> ssz'" "ssz' \<le> length ms'" "ssz' < 2 ^ 32"
  shows "\<exists>h p pn scr'. wc_CoseSign1_Verify b W key' (Some m) n detached detachedLen ea ean (Some ms') ssz'
       (Some hdr) (Some q) (Some qn) = (WOLFCOSE_SUCCESS, Some h, Some p, Some pn, scr', False) \<and>
    hdr_alg h = alg \<and> bytes_at (hdr_kid h) (hdr_kidLen h) = bytes_at kid kidLen \<and>
    (if detached = None then bytes_at p pn = bytes_at payload payloadLen else p = None)"
  by (rule Sign1_verifies_signed [OF assms])

lemma toy_sig_pair: "key_pair full_build toy_sig k"
  by (auto simp: key_pair_def toy_sig_def ecc_der_def full_build_def pad_def Let_def split: if_splits)

lemma toy_okp_local: "\<forall>k. Some toy_okp = Some k \<longrightarrow> signer_ok k \<and> \<not> delegates full_build k \<and> key_pair full_build toy_sig k \<and>
    (key_kty k = WOLFCOSE_KTY_EC2 \<longrightarrow> key_attachedType k = WOLFCOSE_ATT_ECC)"
  using toy_sig_pair by (simp add: toy_okp_def signer_ok_def delegates_def)

lemma toy_sign_readable: "readable None 0" "readable (Some [1]) 1"
  by (simp_all add: readable_def)

lemma toy_signed:
  obtains m where "toy_sign = (WOLFCOSE_SUCCESS, Some (splice 0 (replicate 20 0) (replicate 20 7)), Some m, Some 75, Some toy_okp, False)"
    "length m = 80"
proof -
  obtain scr out k' f where c: "toy_sign = (WOLFCOSE_SUCCESS, scr, out, Some 75, k', f)" by (rule toy_sign_output)
  have r: "20 \<le> length (replicate 20 (7 :: u8))" "80 \<le> length (replicate 80 (7 :: u8))" by simp_all
  note o = Sign1_Sign_outcome [OF toy_sig_ok toy_okp_signer r toy_sign_readable(1,2,1,1) c refl refl refl refl]
  obtain k'' sig where s: "k' = Some k''" "signs full_build toy_sig toy_okp (Some 0) (- 19) (sign1_tbs (- 19) [] [1]) sig k''"
    "length (sign1_bytes 0 (- 19) (kid_of None 0) (Some [1]) sig) \<le> 80"
    "out = Some (splice 0 (sign1_bytes 0 (- 19) (kid_of None 0) (Some [1]) sig) (replicate 80 7))"
    using o(2) [OF refl] by auto
  have "k'' = toy_okp" using toy_signs [OF s(2)] by blast
  moreover have "length (splice 0 (sign1_bytes 0 (- 19) (kid_of None 0) (Some [1]) sig) (replicate 80 7)) = 80"
    using s(3) by (simp add: splice_def)
  ultimately show thesis using that c o(1) s(1,4) by auto
qed

lemma toy_sign_scratch: "(20 :: nat) \<le> 20" "is_pss (- 19) \<longrightarrow> (75 :: nat) \<le> 20" "20 \<le> length (replicate 20 (7 :: u8))" "(20 :: nat) < 2 ^ 32"
    "20 \<le> length (replicate 20 (7 :: u8))" "80 \<le> length (replicate 80 (7 :: u8))" "length (replicate 80 (7 :: u8)) < 2 ^ 63"
  by (simp_all add: is_pss_def)

lemma Sign1_round_trip_witness:
  "\<exists>m h p pn scr. toy_sign = (WOLFCOSE_SUCCESS, Some (splice 0 (replicate 20 0) (replicate 20 7)), Some m, Some 75, Some toy_okp, False) \<and>
    wc_CoseSign1_Verify full_build toy_sig (Some toy_okp) (Some m) 75 None 0 None 0 (Some (replicate 20 7)) 20
       (Some hdr_zero) (Some None) (Some 0) = (WOLFCOSE_SUCCESS, Some h, Some p, Some pn, scr, False) \<and>
    hdr_alg h = - 19 \<and> bytes_at p pn = [1]"
proof -
  obtain m where c: "toy_sign = (WOLFCOSE_SUCCESS, Some (splice 0 (replicate 20 0) (replicate 20 7)), Some m, Some 75, Some toy_okp, False)"
    by (rule toy_signed)
  show ?thesis
    using Sign1_round_trip [OF toy_sig_ok toy_okp_local toy_sign_scratch(5-7) toy_sign_readable(1,2,1,1) full_build_items c
        toy_sign_scratch(1-4), of hdr_zero None 0] c by (auto simp: bytes_at_def)
qed

lemma Sign1_Verify_sound_witness:
  "\<exists>m h p pn scr prot pes sig. wc_CoseSign1_Verify full_build toy_sig (Some toy_okp) (Some m) 75 None 0 None 0
     (Some (replicate 20 7)) 20 (Some hdr_zero) (Some None) (Some 0) = (WOLFCOSE_SUCCESS, Some h, Some p, Some pn, scr, False) \<and>
    LInt 1 \<in> fst ` set pes \<and> protected_map full_build prot pes \<and>
    accepts full_build toy_sig toy_okp (hdr_alg h) 20 (tbs_bytes WOLFCOSE_CTX_SIGNATURE1 prot None [] (bytes_at p pn)) sig"
proof -
  obtain m where c: "toy_sign = (WOLFCOSE_SUCCESS, Some (splice 0 (replicate 20 0) (replicate 20 7)), Some m, Some 75, Some toy_okp, False)"
    "length m = 80" by (rule toy_signed)
  obtain h p pn scr where v: "wc_CoseSign1_Verify full_build toy_sig (Some toy_okp) (Some m) 75 None 0 None 0 (Some (replicate 20 7)) 20
       (Some hdr_zero) (Some None) (Some 0) = (WOLFCOSE_SUCCESS, Some h, Some p, Some pn, scr, False)"
    using Sign1_verifies_signed [OF toy_sig_ok toy_okp_local toy_sign_scratch(5-7) toy_sign_readable(1,2,1,1)
        full_build_items c(1) toy_sign_scratch(1-4), of hdr_zero None 0] by blast
  have m: "75 \<le> length m" "length m < 2 ^ 63" using c(2) by simp_all
  have k: "key_alg toy_okp = WOLFCOSE_ALG_UNSET" by (simp add: toy_okp_def WOLFCOSE_ALG_UNSET_def)
  obtain prot pes ues pre sig t where s: "cose_headers full_build prot pes ues h" "(LInt 1, t) \<in> set pes" "p \<noteq> None"
    "accepts full_build toy_sig toy_okp (hdr_alg h) 20 (tbs_bytes WOLFCOSE_CTX_SIGNATURE1 prot None [] (bytes_at p pn)) sig"
    using Sign1_Verify_sound [OF toy_sig_ok m toy_sign_readable(1,1) toy_sign_scratch(3) v] k
    by (auto simp: Let_def bytes_at_def split: if_splits)
  then have "protected_map full_build prot pes" by (auto simp: cose_headers_def split: if_splits)
  moreover have "LInt 1 \<in> fst ` set pes" using s(2) by force
  ultimately show ?thesis using v s(4) by blast
qed

end
