(* ===== verification/Cose_Key.thy ===== *)
theory Cose_Key
  imports Cose_Sig
begin

text \<open>
  \<open>src/wolfcose_key.c\<close>, first part: attaching wolfCrypt keys to a COSE key, encoding a COSE_Key
  (RFC 9052 section 7, RFC 9053, RFC 8230, RFC 8778, RFC 9964) and the size of an encoding.
\<close>

section \<open>Constants\<close>

definition WOLFCOSE_KEY_PUBLIC_ONLY :: u32 where [simp]: "WOLFCOSE_KEY_PUBLIC_ONLY = 1"
definition WOLFCOSE_KEY_LABEL_KTY :: i64 where [simp]: "WOLFCOSE_KEY_LABEL_KTY = 1"
definition WOLFCOSE_KEY_LABEL_KID :: i64 where [simp]: "WOLFCOSE_KEY_LABEL_KID = 2"
definition WOLFCOSE_KEY_LABEL_ALG :: i64 where [simp]: "WOLFCOSE_KEY_LABEL_ALG = 3"
definition WOLFCOSE_KEY_LABEL_KEY_OPS :: i64 where [simp]: "WOLFCOSE_KEY_LABEL_KEY_OPS = 4"
definition WOLFCOSE_KEY_LABEL_CRV :: i64 where [simp]: "WOLFCOSE_KEY_LABEL_CRV = - 1"
definition WOLFCOSE_KEY_LABEL_X :: i64 where [simp]: "WOLFCOSE_KEY_LABEL_X = - 2"
definition WOLFCOSE_KEY_LABEL_Y :: i64 where [simp]: "WOLFCOSE_KEY_LABEL_Y = - 3"
definition WOLFCOSE_KEY_LABEL_D :: i64 where [simp]: "WOLFCOSE_KEY_LABEL_D = - 4"
definition WOLFCOSE_KEY_LABEL_K :: i64 where [simp]: "WOLFCOSE_KEY_LABEL_K = - 1"
definition WOLFCOSE_KEY_LABEL_PUB :: i64 where [simp]: "WOLFCOSE_KEY_LABEL_PUB = - 1"
definition WOLFCOSE_KEY_LABEL_PRIV :: i64 where [simp]: "WOLFCOSE_KEY_LABEL_PRIV = - 2"
definition WOLFCOSE_KEY_LABEL_RSA_P :: i64 where [simp]: "WOLFCOSE_KEY_LABEL_RSA_P = - 4"
definition WOLFCOSE_KEY_LABEL_RSA_Q :: i64 where [simp]: "WOLFCOSE_KEY_LABEL_RSA_Q = - 5"
definition WOLFCOSE_KEY_LABEL_RSA_DP :: i64 where [simp]: "WOLFCOSE_KEY_LABEL_RSA_DP = - 6"
definition WOLFCOSE_KEY_LABEL_RSA_DQ :: i64 where [simp]: "WOLFCOSE_KEY_LABEL_RSA_DQ = - 7"
definition WOLFCOSE_KEY_LABEL_RSA_QINV :: i64 where [simp]: "WOLFCOSE_KEY_LABEL_RSA_QINV = - 8"
definition WOLFCOSE_MLDSA_SEED_SZ :: size where [simp]: "WOLFCOSE_MLDSA_SEED_SZ = 32"

section \<open>Exports of wolfCrypt keys\<close>

text \<open>
  The calls the code makes on attached keys, as the bytes they write; \<open>None\<close> is a failing call. A size
  argument is the capacity of the output buffer; where the code passes a local buffer of a fixed size, there
  is none. What a failing call leaves in a buffer is not modelled: the output is zeroed on every failure.
\<close>

datatype rsa_part = RSA_P | RSA_Q | RSA_DP | RSA_DQ | RSA_QINV

record wolfkey =
  kx_ecc_private_type :: "ecc_view \<Rightarrow> bool"                  \<comment> \<open>type == ECC_PRIVATEKEY\<close>
  kx_ecc_public :: "ecc_view \<Rightarrow> (u8 list \<times> u8 list) option"  \<comment> \<open>wc_ecc_export_public_raw\<close>
  kx_ecc_private :: "ecc_view \<Rightarrow> u8 list option"             \<comment> \<open>wc_ecc_export_private_only\<close>
  kx_ed25519_priv_set :: "nat \<Rightarrow> bool"                       \<comment> \<open>privKeySet\<close>
  kx_ed25519_public :: "nat \<Rightarrow> u8 list option"
  kx_ed25519_private :: "nat \<Rightarrow> u8 list option"
  kx_ed448_priv_set :: "nat \<Rightarrow> bool"
  kx_ed448_public :: "nat \<Rightarrow> u8 list option"
  kx_ed448_private :: "nat \<Rightarrow> u8 list option"
  kx_rsa_private_type :: "rsa_view \<Rightarrow> bool"                  \<comment> \<open>type == RSA_PRIVATE\<close>
  kx_rsa_public :: "rsa_view \<Rightarrow> size \<Rightarrow> (u8 list \<times> u8 list) option"  \<comment> \<open>wc_RsaFlattenPublicKey: e and n\<close>
  kx_rsa_export :: "rsa_view \<Rightarrow> (u8 list \<times> u8 list \<times> u8 list \<times> u8 list \<times> u8 list) option"
    \<comment> \<open>wc_RsaExportKey: e, n, d, p, q\<close>
  kx_rsa_int :: "rsa_view \<Rightarrow> rsa_part \<Rightarrow> size \<Rightarrow> u8 list option"      \<comment> \<open>wc_export_int\<close>
  kx_rsa_exponent :: "rsa_view \<Rightarrow> u8 list option"            \<comment> \<open>the public exponent in a buffer of 8 bytes\<close>
  kx_mldsa_priv_set :: "mldsa_view \<Rightarrow> bool"
  kx_mldsa_public :: "mldsa_view \<Rightarrow> size \<Rightarrow> u8 list option"
  kx_mldsa_pub_len :: "mldsa_view \<Rightarrow> int option"             \<comment> \<open>wc_MlDsaKey_GetPubLen\<close>
  kx_lms_public :: "lms_view \<Rightarrow> u8 list option"
  kx_lms_pub_len :: "lms_view \<Rightarrow> size option"                \<comment> \<open>wc_LmsKey_GetPubLen\<close>

section \<open>Attaching keys\<close>

text \<open>
  A setter stores into the union \<open>key\<close>; the members that are not stored read as \<open>NULL\<close>, for the code reads
  a member only under the type it was stored for. \<open>signCb\<close> exists in builds with delegated signing.
\<close>

definition key_zero :: cose_key where
  "key_zero = \<lparr> key_kty = 0, key_alg = 0, key_crv = 0, key_kid = None, key_kidLen = 0, key_ecc = None, key_ed25519 = None,
     key_ed448 = None, key_rsa = None, key_mldsa = None, key_lms = None, key_symm = None, key_symmLen = 0,
     key_hasPrivate = False, key_attachedType = 0, key_signCb = None, key_mldsaSeed = None, key_mldsaSeedLen = 0 \<rparr>"

definition clear_union :: "cose_key \<Rightarrow> cose_key" where
  "clear_union key = key\<lparr>key_ecc := None, key_ed25519 := None, key_ed448 := None, key_rsa := None, key_mldsa := None,
     key_lms := None, key_symm := None, key_symmLen := 0\<rparr>"

definition drop_signer :: "build \<Rightarrow> cose_key \<Rightarrow> cose_key" where
  "drop_signer b key = (if ext_sign b then key\<lparr>key_signCb := None\<rparr> else key)"

definition wc_CoseKey_Init :: "cose_key option \<Rightarrow> rc \<times> cose_key option" where
  "wc_CoseKey_Init key = (case key of None \<Rightarrow> (WOLFCOSE_E_INVALID_ARG, None) | Some _ \<Rightarrow> (WOLFCOSE_SUCCESS, Some key_zero))"

definition wc_CoseKey_Free :: "cose_key option \<Rightarrow> cose_key option" where
  "wc_CoseKey_Free key = map_option (\<lambda>_. key_zero) key"

definition wc_CoseKey_SetEcc ::
  "build \<Rightarrow> wolfkey \<Rightarrow> cose_key option \<Rightarrow> i32 \<Rightarrow> ecc_view option \<Rightarrow> rc \<times> cose_key option" where
  "wc_CoseKey_SetEcc b K key crv eccKey =
     (case (key, eccKey) of
        (Some k, Some e) \<Rightarrow>
          if crv \<noteq> WOLFCOSE_CRV_P256 \<and> crv \<noteq> WOLFCOSE_CRV_P384 \<and> crv \<noteq> WOLFCOSE_CRV_P521 then (WOLFCOSE_E_INVALID_ARG, key)
          else if wolfCose_EccKeyCheckCurve crv eccKey \<noteq> WOLFCOSE_SUCCESS then (WOLFCOSE_E_INVALID_ARG, key)
          else (WOLFCOSE_SUCCESS, Some (drop_signer b (clear_union k)
            \<lparr>key_kty := WOLFCOSE_KTY_EC2, key_crv := crv, key_alg := WOLFCOSE_ALG_UNSET, key_ecc := eccKey,
             key_attachedType := WOLFCOSE_ATT_ECC, key_hasPrivate := (ecc_size e > 0 \<and> kx_ecc_private_type K e)\<rparr>))
      | _ \<Rightarrow> (WOLFCOSE_E_INVALID_ARG, key))"

definition wc_CoseKey_SetEd25519 :: "build \<Rightarrow> wolfkey \<Rightarrow> cose_key option \<Rightarrow> nat option \<Rightarrow> rc \<times> cose_key option" where
  "wc_CoseKey_SetEd25519 b K key edKey =
     (case (key, edKey) of
        (Some k, Some e) \<Rightarrow> (WOLFCOSE_SUCCESS, Some (drop_signer b (clear_union k)
            \<lparr>key_kty := WOLFCOSE_KTY_OKP, key_crv := WOLFCOSE_CRV_ED25519, key_alg := WOLFCOSE_ALG_UNSET, key_ed25519 := edKey,
             key_attachedType := WOLFCOSE_ATT_ED25519, key_hasPrivate := kx_ed25519_priv_set K e\<rparr>))
      | _ \<Rightarrow> (WOLFCOSE_E_INVALID_ARG, key))"

definition wc_CoseKey_SetEd448 :: "build \<Rightarrow> wolfkey \<Rightarrow> cose_key option \<Rightarrow> nat option \<Rightarrow> rc \<times> cose_key option" where
  "wc_CoseKey_SetEd448 b K key edKey =
     (case (key, edKey) of
        (Some k, Some e) \<Rightarrow> (WOLFCOSE_SUCCESS, Some (drop_signer b (clear_union k)
            \<lparr>key_kty := WOLFCOSE_KTY_OKP, key_crv := WOLFCOSE_CRV_ED448, key_alg := WOLFCOSE_ALG_UNSET, key_ed448 := edKey,
             key_attachedType := WOLFCOSE_ATT_ED448, key_hasPrivate := kx_ed448_priv_set K e\<rparr>))
      | _ \<Rightarrow> (WOLFCOSE_E_INVALID_ARG, key))"

definition wc_CoseKey_SetMlDsa_ex ::
  "build \<Rightarrow> wolfkey \<Rightarrow> cose_key option \<Rightarrow> i32 \<Rightarrow> mldsa_view option \<Rightarrow> cptr \<Rightarrow> size \<Rightarrow> rc \<times> cose_key option" where
  "wc_CoseKey_SetMlDsa_ex b K key alg mlDsaKey seed seedLen =
     (case (key, mlDsaKey) of
        (Some k, Some m) \<Rightarrow>
          if \<not> is_mldsa alg then (WOLFCOSE_E_COSE_BAD_ALG, key)
          else if seed \<noteq> None \<and> seedLen \<noteq> WOLFCOSE_MLDSA_SEED_SZ then (WOLFCOSE_E_INVALID_ARG, key)
          else (WOLFCOSE_SUCCESS, Some (drop_signer b (clear_union k)
            \<lparr>key_kty := WOLFCOSE_KTY_AKP, key_alg := alg, key_crv := 0, key_mldsa := mlDsaKey,
             key_attachedType := WOLFCOSE_ATT_MLDSA, key_mldsaSeed := seed,
             key_mldsaSeedLen := (if seed \<noteq> None then seedLen else 0), key_hasPrivate := kx_mldsa_priv_set K m\<rparr>))
      | _ \<Rightarrow> (WOLFCOSE_E_INVALID_ARG, key))"

definition wc_CoseKey_SetMlDsa ::
  "build \<Rightarrow> wolfkey \<Rightarrow> cose_key option \<Rightarrow> i32 \<Rightarrow> mldsa_view option \<Rightarrow> rc \<times> cose_key option" where
  "wc_CoseKey_SetMlDsa b K key alg mlDsaKey = wc_CoseKey_SetMlDsa_ex b K key alg mlDsaKey None 0"

definition wc_CoseKey_SetLms :: "build \<Rightarrow> cose_key option \<Rightarrow> lms_view option \<Rightarrow> rc \<times> cose_key option" where
  "wc_CoseKey_SetLms b key lmsKey =
     (case (key, lmsKey) of
        (Some k, Some v) \<Rightarrow> (WOLFCOSE_SUCCESS, Some (drop_signer b (clear_union k)
            \<lparr>key_kty := WOLFCOSE_KTY_HSS_LMS, key_alg := WOLFCOSE_ALG_HSS_LMS, key_crv := 0, key_lms := lmsKey,
             key_attachedType := WOLFCOSE_ATT_LMS, key_hasPrivate := (lms_state v = WC_LMS_STATE_OK)\<rparr>))
      | _ \<Rightarrow> (WOLFCOSE_E_INVALID_ARG, key))"

definition wc_CoseKey_SetRsa :: "build \<Rightarrow> wolfkey \<Rightarrow> cose_key option \<Rightarrow> rsa_view option \<Rightarrow> rc \<times> cose_key option" where
  "wc_CoseKey_SetRsa b K key rsaKey =
     (case (key, rsaKey) of
        (Some k, Some r) \<Rightarrow> (WOLFCOSE_SUCCESS, Some (drop_signer b (clear_union k)
            \<lparr>key_kty := WOLFCOSE_KTY_RSA, key_alg := WOLFCOSE_ALG_UNSET, key_rsa := rsaKey,
             key_attachedType := WOLFCOSE_ATT_RSA, key_hasPrivate := (rsa_size r > 0 \<and> kx_rsa_private_type K r)\<rparr>))
      | _ \<Rightarrow> (WOLFCOSE_E_INVALID_ARG, key))"

definition wc_CoseKey_SetSymmetric :: "build \<Rightarrow> cose_key option \<Rightarrow> cptr \<Rightarrow> size \<Rightarrow> rc \<times> cose_key option" where
  "wc_CoseKey_SetSymmetric b key data dataLen =
     (case key of
        Some k \<Rightarrow> if data = None \<or> dataLen = 0 then (WOLFCOSE_E_INVALID_ARG, key)
          else (WOLFCOSE_SUCCESS, Some (drop_signer b (clear_union k)
            \<lparr>key_kty := WOLFCOSE_KTY_SYMMETRIC, key_alg := WOLFCOSE_ALG_UNSET, key_symm := data, key_symmLen := dataLen,
             key_attachedType := WOLFCOSE_ATT_SYMMETRIC, key_hasPrivate := True\<rparr>))
      | None \<Rightarrow> (WOLFCOSE_E_INVALID_ARG, key))"

section \<open>Parts of an encoding\<close>

definition wolfCose_KeyEmitsPrivate :: "build \<Rightarrow> cose_key \<Rightarrow> u32 \<Rightarrow> bool" where
  "wolfCose_KeyEmitsPrivate b key flags \<longleftrightarrow>
     key_hasPrivate key \<and> flags AND WOLFCOSE_KEY_PUBLIC_ONLY = 0 \<and> \<not> (ext_sign b \<and> key_signCb key \<noteq> None)"

definition wolfCose_KeyOptionalEntries :: "cose_key \<Rightarrow> size" where
  "wolfCose_KeyOptionalEntries key =
     (if key_kid key \<noteq> None \<and> key_kidLen key > 0 then 1 else 0) + (if key_alg key \<noteq> WOLFCOSE_ALG_UNSET then 1 else 0)"

definition wolfCose_EncodeKeyOptionalFields :: "cose_key \<Rightarrow> cbor_ctx \<Rightarrow> rc \<times> cbor_ctx" where
  "wolfCose_EncodeKeyOptionalFields key ctx =
     on_success
       (if key_kid key \<noteq> None \<and> key_kidLen key > 0
        then on_success (wc_CBOR_EncodeUint ctx WOLFCOSE_KEY_LABEL_KID) (\<lambda>ctx. wc_CBOR_EncodeBstr ctx (key_kid key) (key_kidLen key))
        else (WOLFCOSE_SUCCESS, ctx))
       (\<lambda>ctx. if key_alg key \<noteq> WOLFCOSE_ALG_UNSET
        then on_success (wc_CBOR_EncodeUint ctx WOLFCOSE_KEY_LABEL_ALG) (\<lambda>ctx. wc_CBOR_EncodeInt ctx (scast (key_alg key)))
        else (WOLFCOSE_SUCCESS, ctx))"

text \<open>The map head, \<open>kty\<close>, and the optional fields, with which every family begins.\<close>

definition encode_common :: "cose_key \<Rightarrow> size \<Rightarrow> cbor_ctx \<Rightarrow> rc \<times> cbor_ctx" where
  "encode_common key entries ctx =
     (let r = wc_CBOR_EncodeMapStart ctx (entries + wolfCose_KeyOptionalEntries key);
          r = on_success r (\<lambda>ctx. wc_CBOR_EncodeUint ctx WOLFCOSE_KEY_LABEL_KTY);
          r = on_success r (\<lambda>ctx. wc_CBOR_EncodeUint ctx (scast (key_kty key)))
      in on_success r (wolfCose_EncodeKeyOptionalFields key))"

text \<open>A label and a byte string.\<close>

definition encode_bstr_entry :: "i64 \<Rightarrow> cptr \<Rightarrow> size \<Rightarrow> cbor_ctx \<Rightarrow> rc \<times> cbor_ctx" where
  "encode_bstr_entry label data len ctx = on_success (wc_CBOR_EncodeInt ctx label) (\<lambda>ctx. wc_CBOR_EncodeBstr ctx data len)"

definition encode_crv :: "cose_key \<Rightarrow> cbor_ctx \<Rightarrow> rc \<times> cbor_ctx" where
  "encode_crv key ctx = on_success (wc_CBOR_EncodeInt ctx WOLFCOSE_KEY_LABEL_CRV) (\<lambda>ctx. wc_CBOR_EncodeUint ctx (scast (key_crv key)))"

definition wolfCose_EncodeEc2Map ::
  "cose_key \<Rightarrow> cptr \<Rightarrow> size \<Rightarrow> cptr \<Rightarrow> size \<Rightarrow> cptr \<Rightarrow> size \<Rightarrow> cbor_ctx \<Rightarrow> rc \<times> cbor_ctx" where
  "wolfCose_EncodeEc2Map key x xLen y yLen d dLen ctx =
     (let r = encode_common key (if d \<noteq> None then 5 else 4) ctx;
          r = on_success r (encode_crv key);
          r = on_success r (encode_bstr_entry WOLFCOSE_KEY_LABEL_X x xLen);
          r = on_success r (encode_bstr_entry WOLFCOSE_KEY_LABEL_Y y yLen)
      in on_success r (\<lambda>ctx. if d \<noteq> None then encode_bstr_entry WOLFCOSE_KEY_LABEL_D d dLen ctx else (WOLFCOSE_SUCCESS, ctx)))"

section \<open>Encoding by key type\<close>

text \<open>The families end with the code and the cursor; a coordinate is read from a buffer that holds it.\<close>

definition encode_ec2 :: "build \<Rightarrow> wolfkey \<Rightarrow> cose_key \<Rightarrow> u32 \<Rightarrow> cbor_ctx \<Rightarrow> rc \<times> cbor_ctx" where
  "encode_ec2 b K key flags ctx =
     (case key_ecc key of None \<Rightarrow> (WOLFCOSE_E_INVALID_ARG, ctx) | Some ecc \<Rightarrow>
        (case wolfCose_CrvKeySize (key_crv key) (Some 0) of (ret, coordSz) \<Rightarrow>
           if ret \<noteq> WOLFCOSE_SUCCESS then (ret, ctx)
           else (case kx_ecc_public K ecc of None \<Rightarrow> (WOLFCOSE_E_CRYPTO, ctx) | Some (x, y) \<Rightarrow>
             if length x \<noteq> the coordSz \<or> length y \<noteq> the coordSz then (WOLFCOSE_E_COSE_KEY_TYPE, ctx)
             else if wolfCose_KeyEmitsPrivate b key flags
             then (case kx_ecc_private K ecc of None \<Rightarrow> (WOLFCOSE_E_CRYPTO, ctx) | Some d \<Rightarrow>
               if length d \<noteq> the coordSz then (WOLFCOSE_E_COSE_KEY_TYPE, ctx)
               else wolfCose_EncodeEc2Map key (Some x) (length x) (Some y) (length y) (Some d) (length d) ctx)
             else wolfCose_EncodeEc2Map key (Some x) (length x) (Some y) (length y) None 66 ctx)))"

text \<open>
  A byte string that wolfCrypt writes into the output behind three bytes that are reserved for its head:
  \<open>wolfCose_FinalizeRsaBstr\<close> writes the head, and moves the string when two bytes are enough.
\<close>

definition wolfCose_FinalizeRsaBstr :: "cbor_ctx \<Rightarrow> size \<Rightarrow> size \<Rightarrow> cbor_ctx" where
  "wolfCose_FinalizeRsaBstr ctx hdrPos payloadLen =
     (let payload = take payloadLen (drop (hdrPos + 3) (the (ctx_buf ctx)));
          bs = (if payloadLen < 256 then [0x58, of_nat payloadLen] @ payload
                else [0x59, of_nat (payloadLen div 256), of_nat payloadLen])
      in (put_bytes (ctx\<lparr>ctx_idx := hdrPos\<rparr>) bs)
           \<lparr>ctx_idx := hdrPos + (if payloadLen < 256 then 2 else 3) + payloadLen\<rparr>)"

definition encode_rsa_n :: "wolfkey \<Rightarrow> rsa_view \<Rightarrow> cbor_ctx \<Rightarrow> rc \<times> cbor_ctx \<times> u8 list" where
  "encode_rsa_n K rsa ctx =
     (if sz_add (ctx_idx ctx) 3 > ctx_bufSz ctx then (WOLFCOSE_E_BUFFER_TOO_SMALL, ctx, [])
      else
        let hdrPos = ctx_idx ctx; ctx = ctx\<lparr>ctx_idx := ctx_idx ctx + 3\<rparr>
        in case kx_rsa_public K rsa (w32 (sz_sub (ctx_bufSz ctx) (ctx_idx ctx))) of
             None \<Rightarrow> (WOLFCOSE_E_CRYPTO, ctx, [])
           | Some (e, n) \<Rightarrow>
               let ctx = put_bytes ctx n
               in if length n = 0 \<or> length n > 65535 then (WOLFCOSE_E_BUFFER_TOO_SMALL, ctx, e)
                  else (WOLFCOSE_SUCCESS, wolfCose_FinalizeRsaBstr ctx hdrPos (length n), e))"

text \<open>
  The private exponent: \<open>wc_RsaExportKey\<close> writes it behind the reserved head, and the other components into
  scratch space behind it, which is zeroed.
\<close>

definition put_at :: "size \<Rightarrow> u8 list \<Rightarrow> cbor_ctx \<Rightarrow> cbor_ctx" where
  "put_at off bs ctx = (put_bytes (ctx\<lparr>ctx_idx := off\<rparr>) bs)\<lparr>ctx_idx := ctx_idx ctx\<rparr>"

definition encode_rsa_d :: "wolfkey \<Rightarrow> rsa_view \<Rightarrow> cbor_ctx \<Rightarrow> rc \<times> cbor_ctx" where
  "encode_rsa_d K rsa ctx =
     (if sz_add (ctx_idx ctx) 3 > ctx_bufSz ctx then (WOLFCOSE_E_BUFFER_TOO_SMALL, ctx)
      else if rsa_size rsa \<le> 0 then (WOLFCOSE_E_CRYPTO, ctx)
      else
        let hdrPos = ctx_idx ctx; rsaEncSz = nat (rsa_size rsa);
            ctx = ctx\<lparr>ctx_idx := hdrPos + 3\<rparr>; dOff = hdrPos + 3;
            scrOff = sz_add dOff rsaEncSz;
            needed = sz_add (sz_add (sz_add scrOff 8) rsaEncSz) rsaEncSz
        in if needed > ctx_bufSz ctx then (WOLFCOSE_E_BUFFER_TOO_SMALL, ctx)
           else (case kx_rsa_export K rsa of
               None \<Rightarrow> (WOLFCOSE_E_CRYPTO, put_at scrOff (replicate (needed - scrOff) 0) ctx)
             | Some (e2, n2, d, p, q) \<Rightarrow>
                 let ctx = put_at dOff d ctx;
                     ctx = put_at scrOff e2 ctx;
                     ctx = put_at (scrOff + 8) n2 ctx;
                     ctx = put_at (scrOff + 8 + rsaEncSz) p ctx;
                     ctx = put_at (scrOff + 8 + rsaEncSz + rsaEncSz div 2) q ctx
                 in if length d = 0 \<or> length d > 65535
                    then (WOLFCOSE_E_BUFFER_TOO_SMALL, put_at scrOff (replicate (needed - scrOff) 0) ctx)
                    else
                      let d' = (if length d < rsaEncSz then replicate (rsaEncSz - length d) 0 @ d else d);
                          ctx = (if length d < rsaEncSz then put_at dOff d' ctx else ctx)
                      in (WOLFCOSE_SUCCESS, put_at scrOff (replicate (needed - scrOff) 0)
                            (wolfCose_FinalizeRsaBstr ctx hdrPos (length d')))))"

definition wolfCose_EncodeRsaMp :: "wolfkey \<Rightarrow> rsa_view \<Rightarrow> i64 \<Rightarrow> rsa_part \<Rightarrow> size \<Rightarrow> cbor_ctx \<Rightarrow> rc \<times> cbor_ctx" where
  "wolfCose_EncodeRsaMp K rsa label a keySz ctx =
     (let r = (if keySz = 0 then (WOLFCOSE_E_INVALID_ARG, ctx) else (WOLFCOSE_SUCCESS, ctx));
          r = on_success r (\<lambda>ctx. wc_CBOR_EncodeInt ctx label);
          r = on_success r (\<lambda>ctx. wolfCose_CBOR_EncodeHead ctx WOLFCOSE_CBOR_BSTR (of_nat keySz))
      in on_success r (\<lambda>ctx.
           if sz_add (ctx_idx ctx) keySz > ctx_bufSz ctx then (WOLFCOSE_E_BUFFER_TOO_SMALL, ctx)
           else (case kx_rsa_int K rsa a keySz of None \<Rightarrow> (WOLFCOSE_E_CRYPTO, ctx) | Some bs \<Rightarrow>
             let ctx = put_bytes ctx bs
             in if length bs \<noteq> keySz then (WOLFCOSE_E_CRYPTO, ctx)
                else (WOLFCOSE_SUCCESS, ctx\<lparr>ctx_idx := ctx_idx ctx + keySz\<rparr>))))"

text \<open>A device-backed RSA key has no local CRT parameters to export.\<close>

definition rsa_emits_private :: "build \<Rightarrow> cose_key \<Rightarrow> rsa_view \<Rightarrow> u32 \<Rightarrow> bool" where
  "rsa_emits_private b key rsa flags \<longleftrightarrow> rsa_private_key b \<and> wolfCose_KeyEmitsPrivate b key flags \<and> \<not> rsa_opaque rsa"

definition encode_rsa_private :: "wolfkey \<Rightarrow> rsa_view \<Rightarrow> cbor_ctx \<Rightarrow> rc \<times> cbor_ctx" where
  "encode_rsa_private K rsa ctx =
     (let r = on_success (wc_CBOR_EncodeInt ctx WOLFCOSE_KEY_LABEL_Y) (encode_rsa_d K rsa)
      in on_success r (\<lambda>ctx.
           if rsa_size rsa \<le> 0 then (WOLFCOSE_E_CRYPTO, ctx)
           else
             let halfSz = (nat (rsa_size rsa) + 1) div 2;
                 r = wolfCose_EncodeRsaMp K rsa WOLFCOSE_KEY_LABEL_RSA_P RSA_P halfSz ctx;
                 r = on_success r (wolfCose_EncodeRsaMp K rsa WOLFCOSE_KEY_LABEL_RSA_Q RSA_Q halfSz);
                 r = on_success r (wolfCose_EncodeRsaMp K rsa WOLFCOSE_KEY_LABEL_RSA_DP RSA_DP halfSz);
                 r = on_success r (wolfCose_EncodeRsaMp K rsa WOLFCOSE_KEY_LABEL_RSA_DQ RSA_DQ halfSz)
             in on_success r (wolfCose_EncodeRsaMp K rsa WOLFCOSE_KEY_LABEL_RSA_QINV RSA_QINV halfSz)))"

definition encode_rsa :: "build \<Rightarrow> wolfkey \<Rightarrow> cose_key \<Rightarrow> u32 \<Rightarrow> cbor_ctx \<Rightarrow> rc \<times> cbor_ctx" where
  "encode_rsa b K key flags ctx =
     (case key_rsa key of None \<Rightarrow> (WOLFCOSE_E_INVALID_ARG, ctx) | Some rsa \<Rightarrow>
        let rsaPriv = rsa_emits_private b key rsa flags;
            r = encode_common key (if rsaPriv then 9 else 3) ctx;
            r = on_success r (\<lambda>ctx. wc_CBOR_EncodeInt ctx WOLFCOSE_KEY_LABEL_CRV);
            r = on_success r (\<lambda>ctx. case encode_rsa_n K rsa ctx of (ret, ctx, e) \<Rightarrow>
                  on_success (ret, ctx) (encode_bstr_entry WOLFCOSE_KEY_LABEL_X (Some e) (length e)))
        in on_success r (\<lambda>ctx. if rsaPriv then encode_rsa_private K rsa ctx else (WOLFCOSE_SUCCESS, ctx)))"

text \<open>The ML-DSA public key, whose head always has two bytes of length.\<close>

definition encode_mldsa_pub :: "wolfkey \<Rightarrow> mldsa_view \<Rightarrow> cbor_ctx \<Rightarrow> rc \<times> cbor_ctx" where
  "encode_mldsa_pub K mldsa ctx =
     (if sz_add (ctx_idx ctx) 3 > ctx_bufSz ctx then (WOLFCOSE_E_BUFFER_TOO_SMALL, ctx)
      else
        let hdrPos = ctx_idx ctx; ctx = ctx\<lparr>ctx_idx := ctx_idx ctx + 3\<rparr>
        in case kx_mldsa_public K mldsa (w32 (sz_sub (ctx_bufSz ctx) (ctx_idx ctx))) of
             None \<Rightarrow> (WOLFCOSE_E_CRYPTO, ctx)
           | Some pub \<Rightarrow>
               let ctx = put_bytes ctx pub
               in if length pub < 256 \<or> length pub > 65535 then (WOLFCOSE_E_BUFFER_TOO_SMALL, ctx)
                  else (WOLFCOSE_SUCCESS, (put_at hdrPos [0x59, of_nat (length pub div 256), of_nat (length pub)] ctx)
                          \<lparr>ctx_idx := ctx_idx ctx + length pub\<rparr>))"

definition akp_emits_private :: "build \<Rightarrow> cose_key \<Rightarrow> u32 \<Rightarrow> bool" where
  "akp_emits_private b key flags \<longleftrightarrow> wolfCose_KeyEmitsPrivate b key flags \<and> key_mldsaSeed key \<noteq> None \<and>
     key_mldsaSeedLen key = WOLFCOSE_MLDSA_SEED_SZ"

definition encode_akp :: "build \<Rightarrow> wolfkey \<Rightarrow> cose_key \<Rightarrow> u32 \<Rightarrow> cbor_ctx \<Rightarrow> rc \<times> cbor_ctx" where
  "encode_akp b K key flags ctx =
     (let emitPriv = akp_emits_private b key flags
      in case key_mldsa key of None \<Rightarrow> (WOLFCOSE_E_INVALID_ARG, ctx) | Some mldsa \<Rightarrow>
           if key_alg key = WOLFCOSE_ALG_UNSET then (WOLFCOSE_E_COSE_BAD_ALG, ctx)
           else
             let r = encode_common key (if emitPriv then 3 else 2) ctx;
                 r = on_success r (\<lambda>ctx. wc_CBOR_EncodeInt ctx WOLFCOSE_KEY_LABEL_PUB);
                 r = on_success r (encode_mldsa_pub K mldsa)
             in on_success r (\<lambda>ctx. if emitPriv
                  then encode_bstr_entry WOLFCOSE_KEY_LABEL_PRIV (key_mldsaSeed key) (key_mldsaSeedLen key) ctx
                  else (WOLFCOSE_SUCCESS, ctx)))"

text \<open>The states of an LMS key that hold a public key.\<close>

definition lms_has_public :: "lms_view \<Rightarrow> bool" where
  "lms_has_public v \<longleftrightarrow> lms_state v = WC_LMS_STATE_OK \<or> lms_state v = WC_LMS_STATE_VERIFYONLY \<or>
     lms_state v = WC_LMS_STATE_NOSIGS \<or> lms_state v = WC_LMS_STATE_BAD"

definition lms_checks :: "cose_key \<Rightarrow> rc" where
  "lms_checks key =
     (if key_attachedType key \<noteq> WOLFCOSE_ATT_LMS then WOLFCOSE_E_COSE_KEY_TYPE
      else (case key_lms key of None \<Rightarrow> WOLFCOSE_E_INVALID_ARG | Some v \<Rightarrow>
        if key_alg key \<noteq> WOLFCOSE_ALG_UNSET \<and> key_alg key \<noteq> WOLFCOSE_ALG_HSS_LMS then WOLFCOSE_E_COSE_BAD_ALG
        else if \<not> lms_has_public v then WOLFCOSE_E_COSE_KEY_TYPE else WOLFCOSE_SUCCESS))"

definition encode_lms :: "wolfkey \<Rightarrow> cose_key \<Rightarrow> cbor_ctx \<Rightarrow> rc \<times> cbor_ctx" where
  "encode_lms K key ctx =
     (let ret = lms_checks key
      in if ret \<noteq> WOLFCOSE_SUCCESS then (ret, ctx)
         else (case kx_lms_public K (the (key_lms key)) of None \<Rightarrow> (WOLFCOSE_E_CRYPTO, ctx) | Some pub \<Rightarrow>
           on_success (encode_common key 2 ctx) (encode_bstr_entry WOLFCOSE_KEY_LABEL_PUB (Some pub) (length pub))))"

definition okp_public :: "build \<Rightarrow> wolfkey \<Rightarrow> cose_key \<Rightarrow> rc \<times> u8 list" where
  "okp_public b K key =
     (let export = (\<lambda>h f. case h of None \<Rightarrow> (WOLFCOSE_E_INVALID_ARG, [])
            | Some k \<Rightarrow> (case f k of None \<Rightarrow> (WOLFCOSE_E_CRYPTO, []) | Some pub \<Rightarrow> (WOLFCOSE_SUCCESS, pub)))
      in if have_eddsa b \<and> key_crv key = WOLFCOSE_CRV_ED25519 then export (key_ed25519 key) (kx_ed25519_public K)
         else if have_ed448 b \<and> key_crv key = WOLFCOSE_CRV_ED448 then export (key_ed448 key) (kx_ed448_public K)
         else (WOLFCOSE_E_COSE_BAD_ALG, []))"

definition okp_private :: "build \<Rightarrow> wolfkey \<Rightarrow> cose_key \<Rightarrow> rc \<times> u8 list" where
  "okp_private b K key =
     (let export = (\<lambda>d. case d of None \<Rightarrow> (WOLFCOSE_E_CRYPTO, []) | Some d \<Rightarrow> (WOLFCOSE_SUCCESS, d))
      in if have_eddsa b \<and> key_crv key = WOLFCOSE_CRV_ED25519 then export (kx_ed25519_private K (the (key_ed25519 key)))
         else if have_ed448 b \<and> key_crv key = WOLFCOSE_CRV_ED448 then export (kx_ed448_private K (the (key_ed448 key)))
         else (WOLFCOSE_E_COSE_BAD_ALG, []))"

definition encode_okp :: "build \<Rightarrow> wolfkey \<Rightarrow> cose_key \<Rightarrow> u32 \<Rightarrow> cbor_ctx \<Rightarrow> rc \<times> cbor_ctx" where
  "encode_okp b K key flags ctx =
     (case okp_public b K key of (ret, pub) \<Rightarrow>
        let emits = wolfCose_KeyEmitsPrivate b key flags;
            r = (if ret = WOLFCOSE_SUCCESS then encode_common key (if emits then 4 else 3) ctx else (ret, ctx));
            r = on_success r (encode_crv key);
            r = on_success r (encode_bstr_entry WOLFCOSE_KEY_LABEL_X (Some pub) (length pub))
        in on_success r (\<lambda>ctx. if emits
             then (case okp_private b K key of (ret, d) \<Rightarrow>
               if ret \<noteq> WOLFCOSE_SUCCESS then (ret, ctx)
               else encode_bstr_entry WOLFCOSE_KEY_LABEL_D (Some d) (length d) ctx)
             else (WOLFCOSE_SUCCESS, ctx)))"

definition symm_checks :: "build \<Rightarrow> cose_key \<Rightarrow> u32 \<Rightarrow> rc" where
  "symm_checks b key flags =
     (if flags AND WOLFCOSE_KEY_PUBLIC_ONLY \<noteq> 0 then WOLFCOSE_E_COSE_KEY_TYPE
      else if key_symm key = None \<or> key_symmLen key = 0 then WOLFCOSE_E_COSE_KEY_TYPE
      else if ext_sign b \<and> key_signCb key \<noteq> None then WOLFCOSE_E_COSE_KEY_TYPE
      else WOLFCOSE_SUCCESS)"

definition encode_symm :: "build \<Rightarrow> cose_key \<Rightarrow> u32 \<Rightarrow> cbor_ctx \<Rightarrow> rc \<times> cbor_ctx" where
  "encode_symm b key flags ctx =
     (let ret = symm_checks b key flags
      in if ret \<noteq> WOLFCOSE_SUCCESS then (ret, ctx)
         else on_success (encode_common key 2 ctx) (encode_bstr_entry WOLFCOSE_KEY_LABEL_K (key_symm key) (key_symmLen key)))"

definition encode_key :: "build \<Rightarrow> wolfkey \<Rightarrow> cose_key \<Rightarrow> u32 \<Rightarrow> cbor_ctx \<Rightarrow> rc \<times> cbor_ctx" where
  "encode_key b K key flags ctx =
     (if have_ecc b \<and> key_kty key = WOLFCOSE_KTY_EC2 then encode_ec2 b K key flags ctx
      else if have_rsapss b \<and> key_kty key = WOLFCOSE_KTY_RSA then encode_rsa b K key flags ctx
      else if have_mldsa b \<and> key_kty key = WOLFCOSE_KTY_AKP then encode_akp b K key flags ctx
      else if have_lms b \<and> key_kty key = WOLFCOSE_KTY_HSS_LMS then encode_lms K key ctx
      else if (have_eddsa b \<or> have_ed448 b) \<and> key_kty key = WOLFCOSE_KTY_OKP then encode_okp b K key flags ctx
      else if key_kty key = WOLFCOSE_KTY_SYMMETRIC then encode_symm b key flags ctx
      else (WOLFCOSE_E_COSE_KEY_TYPE, ctx))"

text \<open>The clean-up: the output is zeroed and the length is 0 after every failure.\<close>

definition encode_cleanup :: "cptr \<Rightarrow> size \<Rightarrow> size option \<Rightarrow> rc \<times> cbor_ctx \<Rightarrow> rc \<times> cptr \<times> size option \<times> bool" where
  "encode_cleanup out outSz outLen r =
     (case r of (ret, ctx) \<Rightarrow>
        if ret = WOLFCOSE_SUCCESS then (ret, ctx_buf ctx, Some (ctx_idx ctx), ctx_fault ctx)
        else (ret, wolfCose_ForceZero (ctx_buf ctx) outSz, map_option (\<lambda>_. 0) outLen, ctx_fault ctx))"

definition encode_start :: "cptr \<Rightarrow> size \<Rightarrow> cbor_ctx" where
  "encode_start out outSz = \<lparr> ctx_buf = out, ctx_cbuf = None, ctx_bufSz = outSz, ctx_idx = 0, ctx_fault = False \<rparr>"

text \<open>The result: return code, out, \<open>*outLen\<close>, and the ghost flag.\<close>

definition wc_CoseKey_Encode_ex ::
  "build \<Rightarrow> wolfkey \<Rightarrow> cose_key option \<Rightarrow> cptr \<Rightarrow> size \<Rightarrow> size option \<Rightarrow> u32 \<Rightarrow> rc \<times> cptr \<times> size option \<times> bool" where
  "wc_CoseKey_Encode_ex b K key out outSz outLen flags =
     encode_cleanup out outSz outLen
       (if key = None \<or> out = None \<or> outLen = None then (WOLFCOSE_E_INVALID_ARG, encode_start out outSz)
        else if flags AND NOT WOLFCOSE_KEY_PUBLIC_ONLY \<noteq> 0 then (WOLFCOSE_E_INVALID_ARG, encode_start out outSz)
        else encode_key b K (the key) flags (encode_start out outSz))"

definition wc_CoseKey_Encode ::
  "build \<Rightarrow> wolfkey \<Rightarrow> cose_key option \<Rightarrow> cptr \<Rightarrow> size \<Rightarrow> size option \<Rightarrow> rc \<times> cptr \<times> size option \<times> bool" where
  "wc_CoseKey_Encode b K key out outSz outLen = wc_CoseKey_Encode_ex b K key out outSz outLen 0"

definition wc_CoseKey_EncodeEccRaw ::
  "i32 \<Rightarrow> cptr \<Rightarrow> cptr \<Rightarrow> cptr \<Rightarrow> size \<Rightarrow> cptr \<Rightarrow> size \<Rightarrow> i32 \<Rightarrow> cptr \<Rightarrow> size \<Rightarrow> size option \<Rightarrow> rc \<times> cptr \<times> size option \<times> bool" where
  "wc_CoseKey_EncodeEccRaw crv x y d coordLen kid kidLen alg out outSz outLen =
     encode_cleanup out outSz outLen
       (let ctx = encode_start out outSz
        in if x = None \<or> y = None \<or> out = None \<or> outLen = None then (WOLFCOSE_E_INVALID_ARG, ctx)
           else if crv \<noteq> WOLFCOSE_CRV_P256 \<and> crv \<noteq> WOLFCOSE_CRV_P384 \<and> crv \<noteq> WOLFCOSE_CRV_P521 then (WOLFCOSE_E_INVALID_ARG, ctx)
           else (case wolfCose_CrvKeySize crv (Some 0) of (ret, coordSz) \<Rightarrow>
             if ret \<noteq> WOLFCOSE_SUCCESS then (ret, ctx)
             else if coordLen \<noteq> the coordSz then (WOLFCOSE_E_INVALID_ARG, ctx)
             else if kid = None \<and> kidLen \<noteq> 0 then (WOLFCOSE_E_INVALID_ARG, ctx)
             else
               let meta = key_zero\<lparr>key_kty := WOLFCOSE_KTY_EC2, key_crv := crv, key_alg := alg, key_kid := kid, key_kidLen := kidLen\<rparr>
               in wolfCose_EncodeEc2Map meta x coordLen y coordLen d coordLen ctx))"

section \<open>The size of an encoding\<close>

text \<open>A running total: \<open>wolfCose_SizeAdd(&total, n)\<close>, and the additions of an item whose size is computed first.\<close>

definition key_size_add :: "size \<Rightarrow> size \<Rightarrow> rc \<times> size" where
  "key_size_add n acc = (case wolfCose_SizeAdd (Some acc) n of (ret, t) \<Rightarrow> (ret, the t))"

definition wolfCose_CborIntSize :: "i64 \<Rightarrow> size" where
  "wolfCose_CborIntSize val =
     (if 0 <=s val then wolfCose_CborHeadSize (unat val) else wolfCose_CborHeadSize (unat (- (val + 1))))"

definition wolfCose_ReservedBstrSize :: "size \<Rightarrow> size \<Rightarrow> rc \<times> size" where
  "wolfCose_ReservedBstrSize payloadLen encodedLen =
     (case key_size_add payloadLen (if payloadLen < 256 then 2 else 3) of (ret, t) \<Rightarrow>
        (ret, if ret = WOLFCOSE_SUCCESS then t else encodedLen))"

definition size_string :: "size \<Rightarrow> size \<Rightarrow> rc \<times> size" where
  "size_string len acc =
     (case wolfCose_CborStringSize len 0 of (ret, itemLen) \<Rightarrow>
        if ret = WOLFCOSE_SUCCESS then key_size_add itemLen acc else (ret, acc))"

definition size_reserved :: "size \<Rightarrow> size \<Rightarrow> rc \<times> size" where
  "size_reserved len acc =
     (case wolfCose_ReservedBstrSize len 0 of (ret, itemLen) \<Rightarrow>
        if ret = WOLFCOSE_SUCCESS then key_size_add itemLen acc else (ret, acc))"

definition wolfCose_KeyCommonSize :: "cose_key \<Rightarrow> size \<Rightarrow> size \<Rightarrow> rc \<times> size" where
  "wolfCose_KeyCommonSize key entries acc =
     (case key_size_add (wolfCose_KeyOptionalEntries key) entries of (ret, entries) \<Rightarrow>
        let r = on_success (ret, 0) (key_size_add (wolfCose_CborHeadSize (entries mod 2 ^ 64)));
            r = on_success r (key_size_add 1);
            r = on_success r (key_size_add (wolfCose_CborHeadSize (unat (scast (key_kty key) :: u64))));
            r = on_success r (\<lambda>sz. if key_kid key \<noteq> None \<and> key_kidLen key > 0
                  then on_success (key_size_add 1 sz) (size_string (key_kidLen key)) else (WOLFCOSE_SUCCESS, sz));
            r = on_success r (\<lambda>sz. if key_alg key \<noteq> WOLFCOSE_ALG_UNSET
                  then on_success (key_size_add 1 sz) (key_size_add (wolfCose_CborIntSize (scast (key_alg key))))
                  else (WOLFCOSE_SUCCESS, sz))
        in (fst r, if fst r = WOLFCOSE_SUCCESS then snd r else acc))"

definition wolfCose_KeyBstrEntrySize :: "size \<Rightarrow> size \<Rightarrow> rc \<times> size" where
  "wolfCose_KeyBstrEntrySize payloadLen acc = on_success (key_size_add 1 acc) (size_string payloadLen)"

definition size_crv :: "cose_key \<Rightarrow> size \<Rightarrow> rc \<times> size" where
  "size_crv key acc =
     on_success (key_size_add 1 acc) (key_size_add (wolfCose_CborHeadSize (unat (scast (key_crv key) :: u64))))"

definition size_ec2 :: "build \<Rightarrow> cose_key \<Rightarrow> u32 \<Rightarrow> rc \<times> size" where
  "size_ec2 b key flags =
     (case key_ecc key of None \<Rightarrow> (WOLFCOSE_E_INVALID_ARG, 0) | Some ecc \<Rightarrow>
        (case wolfCose_CrvKeySize (key_crv key) (Some 0) of (ret, coordSz) \<Rightarrow>
           if ret \<noteq> WOLFCOSE_SUCCESS then (ret, 0)
           else if ecc_size ecc \<noteq> int (the coordSz) then (WOLFCOSE_E_COSE_KEY_TYPE, 0)
           else
             let emitPriv = wolfCose_KeyEmitsPrivate b key flags;
                 r = wolfCose_KeyCommonSize key (if emitPriv then 5 else 4) 0;
                 r = on_success r (size_crv key);
                 r = on_success r (wolfCose_KeyBstrEntrySize (the coordSz));
                 r = on_success r (wolfCose_KeyBstrEntrySize (the coordSz))
             in on_success r (\<lambda>t. if emitPriv then wolfCose_KeyBstrEntrySize (the coordSz) t else (WOLFCOSE_SUCCESS, t))))"

text \<open>The natural width of the public exponent, which may be exported with leading zeros.\<close>

definition wolfCose_RsaExponentSize :: "wolfkey \<Rightarrow> rsa_view \<Rightarrow> size \<Rightarrow> rc \<times> size" where
  "wolfCose_RsaExponentSize K rsa eLen =
     (case kx_rsa_exponent K rsa of None \<Rightarrow> (WOLFCOSE_E_CRYPTO, eLen) | Some e \<Rightarrow>
        let lead = length (takeWhile (\<lambda>x. x = 0) e)
        in if lead = length e then (WOLFCOSE_E_CRYPTO, eLen) else (WOLFCOSE_SUCCESS, length e - lead))"

definition size_rsa :: "build \<Rightarrow> wolfkey \<Rightarrow> cose_key \<Rightarrow> u32 \<Rightarrow> rc \<times> size" where
  "size_rsa b K key flags =
     (case key_rsa key of None \<Rightarrow> (WOLFCOSE_E_INVALID_ARG, 0) | Some rsa \<Rightarrow>
        if rsa_size rsa \<le> 0 then (WOLFCOSE_E_CRYPTO, 0)
        else (case wolfCose_RsaExponentSize K rsa 0 of (ret, eSz) \<Rightarrow>
          if ret \<noteq> WOLFCOSE_SUCCESS then (ret, 0)
          else
            let modSz = nat (rsa_size rsa); rsaPriv = rsa_emits_private b key rsa flags; halfSz = (modSz + 1) div 2;
                r = wolfCose_KeyCommonSize key (if rsaPriv then 9 else 3) 0;
                r = on_success r (key_size_add 1);
                r = on_success r (size_reserved modSz);
                r = on_success r (wolfCose_KeyBstrEntrySize eSz);
                r = on_success r (\<lambda>t. if rsaPriv then on_success (key_size_add 1 t) (size_reserved modSz) else (WOLFCOSE_SUCCESS, t))
            in on_success r (\<lambda>t. if rsaPriv then repeat_ok 5 (wolfCose_KeyBstrEntrySize halfSz) t else (WOLFCOSE_SUCCESS, t))))"

definition size_akp :: "build \<Rightarrow> wolfkey \<Rightarrow> cose_key \<Rightarrow> u32 \<Rightarrow> rc \<times> size" where
  "size_akp b K key flags =
     (case key_mldsa key of None \<Rightarrow> (WOLFCOSE_E_INVALID_ARG, 0) | Some mldsa \<Rightarrow>
        if key_alg key = WOLFCOSE_ALG_UNSET then (WOLFCOSE_E_COSE_BAD_ALG, 0)
        else (case kx_mldsa_pub_len K mldsa of None \<Rightarrow> (WOLFCOSE_E_CRYPTO, 0) | Some dlPubLen \<Rightarrow>
          if dlPubLen < 256 \<or> dlPubLen > 65535 then (WOLFCOSE_E_BUFFER_TOO_SMALL, 0)
          else
            let emitPriv = akp_emits_private b key flags;
                r = wolfCose_KeyCommonSize key (if emitPriv then 3 else 2) 0;
                r = on_success r (key_size_add 1);
                r = on_success r (size_reserved (nat dlPubLen))
            in on_success r (\<lambda>t. if emitPriv then wolfCose_KeyBstrEntrySize WOLFCOSE_MLDSA_SEED_SZ t else (WOLFCOSE_SUCCESS, t))))"

definition size_lms :: "wolfkey \<Rightarrow> cose_key \<Rightarrow> rc \<times> size" where
  "size_lms K key =
     (let ret = lms_checks key
      in if ret \<noteq> WOLFCOSE_SUCCESS then (ret, 0)
         else (case kx_lms_pub_len K (the (key_lms key)) of None \<Rightarrow> (WOLFCOSE_E_CRYPTO, 0) | Some lmsPubLen \<Rightarrow>
           on_success (wolfCose_KeyCommonSize key 2 0) (wolfCose_KeyBstrEntrySize lmsPubLen)))"

definition size_okp :: "build \<Rightarrow> cose_key \<Rightarrow> u32 \<Rightarrow> rc \<times> size" where
  "size_okp b key flags =
     (let (ret, okpSz) =
            (if have_eddsa b \<and> key_crv key = WOLFCOSE_CRV_ED25519
             then (if key_ed25519 key = None then WOLFCOSE_E_INVALID_ARG else WOLFCOSE_SUCCESS, 32)
             else if have_ed448 b \<and> key_crv key = WOLFCOSE_CRV_ED448
             then (if key_ed448 key = None then WOLFCOSE_E_INVALID_ARG else WOLFCOSE_SUCCESS, 57)
             else (WOLFCOSE_E_COSE_BAD_ALG, 0));
          emitPriv = wolfCose_KeyEmitsPrivate b key flags;
          r = (if ret = WOLFCOSE_SUCCESS then wolfCose_KeyCommonSize key (if emitPriv then 4 else 3) 0 else (ret, 0));
          r = on_success r (size_crv key);
          r = on_success r (wolfCose_KeyBstrEntrySize okpSz)
      in on_success r (\<lambda>t. if emitPriv then wolfCose_KeyBstrEntrySize okpSz t else (WOLFCOSE_SUCCESS, t)))"

definition size_symm :: "build \<Rightarrow> cose_key \<Rightarrow> u32 \<Rightarrow> rc \<times> size" where
  "size_symm b key flags =
     (let ret = symm_checks b key flags
      in if ret \<noteq> WOLFCOSE_SUCCESS then (ret, 0)
         else on_success (wolfCose_KeyCommonSize key 2 0) (wolfCose_KeyBstrEntrySize (key_symmLen key)))"

definition size_key :: "build \<Rightarrow> wolfkey \<Rightarrow> cose_key \<Rightarrow> u32 \<Rightarrow> rc \<times> size" where
  "size_key b K key flags =
     (if have_ecc b \<and> key_kty key = WOLFCOSE_KTY_EC2 then size_ec2 b key flags
      else if have_rsapss b \<and> key_kty key = WOLFCOSE_KTY_RSA then size_rsa b K key flags
      else if have_mldsa b \<and> key_kty key = WOLFCOSE_KTY_AKP then size_akp b K key flags
      else if have_lms b \<and> key_kty key = WOLFCOSE_KTY_HSS_LMS then size_lms K key
      else if (have_eddsa b \<or> have_ed448 b) \<and> key_kty key = WOLFCOSE_KTY_OKP then size_okp b key flags
      else if key_kty key = WOLFCOSE_KTY_SYMMETRIC then size_symm b key flags
      else (WOLFCOSE_E_COSE_KEY_TYPE, 0))"

definition wc_CoseKey_EncodeSize_ex ::
  "build \<Rightarrow> wolfkey \<Rightarrow> cose_key option \<Rightarrow> size option \<Rightarrow> u32 \<Rightarrow> rc \<times> size option" where
  "wc_CoseKey_EncodeSize_ex b K key outLen flags =
     (if key = None \<or> outLen = None then (WOLFCOSE_E_INVALID_ARG, outLen)
      else if flags AND NOT WOLFCOSE_KEY_PUBLIC_ONLY \<noteq> 0 then (WOLFCOSE_E_INVALID_ARG, outLen)
      else (case size_key b K (the key) flags of (ret, acc) \<Rightarrow>
        (ret, Some (if ret = WOLFCOSE_SUCCESS then acc else 0))))"

definition wc_CoseKey_EncodeSize :: "build \<Rightarrow> wolfkey \<Rightarrow> cose_key option \<Rightarrow> size option \<Rightarrow> rc \<times> size option" where
  "wc_CoseKey_EncodeSize b K key outLen = wc_CoseKey_EncodeSize_ex b K key outLen 0"

end
