(* ===== verification/Cose_KeySpec.thy ===== *)
theory Cose_KeySpec
  imports Cose_Key Cose_Sign1Size
begin

text \<open>
  What encoding a COSE_Key promises: the output is the RFC 9052 map of the key's public material, of its private
  material only when that may be serialised, and its size is the announced one.
\<close>

section \<open>Encoders that can fail\<close>

text \<open>
  Unlike a \<open>cbor_writer\<close>, an encoder of key material can fail for other reasons than a full buffer, and what
  it writes comes from wolfCrypt: when it succeeds it appended bytes with \<open>P\<close>, and otherwise it kept the frame.
\<close>

locale cbor_maker =
  fixes f :: "cbor_ctx \<Rightarrow> rc \<times> cbor_ctx" and P :: "u8 list \<Rightarrow> bool"
  assumes keeps: "enc_ctx c \<Longrightarrow> ctx_bufSz c < 2 ^ 63 \<Longrightarrow> out_frame c (snd (f c))"
    and makes: "enc_ctx c \<Longrightarrow> ctx_bufSz c < 2 ^ 63 \<Longrightarrow> f c = (WOLFCOSE_SUCCESS, c') \<Longrightarrow>
      \<exists>bs. P bs \<and> written c' = written c @ bs"

sublocale cbor_writer \<subseteq> maker: cbor_maker f "\<lambda>x. x = bs"
  by unfold_locales (use frame success_written in auto)

context cbor_writer
begin

lemma is_maker: "cbor_maker f (\<lambda>x. x = bs)"
  by unfold_locales

end

context cbor_maker
begin

lemma from_start:
  assumes "sz \<le> length m" "sz < 2 ^ 63" "f (fresh m sz) = (ret, c)"
  shows "\<not> ctx_fault c \<and> within m sz (ctx_buf c) \<and>
    (ret = WOLFCOSE_SUCCESS \<longrightarrow> (\<exists>bs m'. P bs \<and> ctx_buf c = Some m' \<and> take (length bs) m' = bs \<and>
       ctx_idx c = length bs \<and> length bs \<le> sz))"
proof -
  have e: "enc_ctx (fresh m sz)" "ctx_bufSz (fresh m sz) < 2 ^ 63" using assms(1,2) fresh_ctx by (simp_all add: fresh_def)
  note k = keeps [OF e, unfolded assms(3) snd_conv]
  have e': "enc_ctx c" using k by (simp add: out_frame_def)
  then have nf: "\<not> ctx_fault c" "enc_ctx c" by (simp_all add: enc_ctx_def)
  have "\<exists>bs m'. P bs \<and> ctx_buf c = Some m' \<and> take (length bs) m' = bs \<and> ctx_idx c = length bs \<and> length bs \<le> sz"
    if ok: "ret = WOLFCOSE_SUCCESS"
  proof -
    obtain bs where bs: "P bs" "written c = written (fresh m sz) @ bs" using makes [OF e, of c] assms(3) ok by auto
    have w: "written c = bs" using bs(2) by (simp add: written_def fresh_def)
    obtain m' where m': "ctx_buf c = Some m'" "ctx_idx c \<le> ctx_bufSz c" "ctx_idx c \<le> length m'" using nf(2) by (auto elim: enc_ctxE)
    have "ctx_bufSz c = sz" using k by (simp add: out_frame_def fresh_def)
    then show ?thesis using bs(1) w m' by (intro exI [of _ bs] exI [of _ m']) (auto simp: written_def)
  qed
  then show ?thesis using nf(1) within_frame [OF k] by blast
qed

end

lemma maker_next:
  assumes "cbor_maker f P" "cbor_maker g Q" "\<And>a b. P a \<Longrightarrow> Q b \<Longrightarrow> R (a @ b)"
  shows "cbor_maker (\<lambda>c. on_success (f c) g) R"
proof
  fix c assume c: "enc_ctx c" "ctx_bufSz c < 2 ^ 63"
  obtain r c1 where f: "f c = (r, c1)" by fastforce
  have k: "out_frame c c1" using cbor_maker.keeps [OF assms(1) c] f by simp
  then have c1: "enc_ctx c1" "ctx_bufSz c1 < 2 ^ 63" using c(2) by (simp_all add: out_frame_def)
  show "out_frame c (snd (on_success (f c) g))"
    using k out_frame_trans [OF k cbor_maker.keeps [OF assms(2) c1]] by (simp add: on_success_def f)
  fix c' assume s: "on_success (f c) g = (WOLFCOSE_SUCCESS, c')"
  then have o: "r = WOLFCOSE_SUCCESS" "g c1 = (WOLFCOSE_SUCCESS, c')" by (auto simp: on_success_def f split: if_splits)
  obtain a b where "P a" "written c1 = written c @ a" "Q b" "written c' = written c1 @ b"
    using cbor_maker.makes [OF assms(1) c f [unfolded o(1)]] cbor_maker.makes [OF assms(2) c1 o(2)] by blast
  then show "\<exists>bs. R bs \<and> written c' = written c @ bs" using assms(3) by auto
qed

lemma maker_seq:
  "cbor_maker f (\<lambda>x. x = a) \<Longrightarrow> cbor_maker g (\<lambda>x. x = b) \<Longrightarrow> cbor_maker (\<lambda>c. on_success (f c) g) (\<lambda>x. x = a @ b)"
  by (erule maker_next, assumption) simp

lemma maker_fails: "(\<And>c. enc_ctx c \<Longrightarrow> fst (f c) \<noteq> WOLFCOSE_SUCCESS \<and> snd (f c) = c) \<Longrightarrow> cbor_maker f P"
  by unfold_locales (fastforce simp: out_frame_refl)+

lemma maker_weaken: "cbor_maker f P \<Longrightarrow> (\<And>bs. P bs \<Longrightarrow> Q bs) \<Longrightarrow> cbor_maker f Q"
  unfolding cbor_maker_def by blast

lemma maker_error: "e \<noteq> WOLFCOSE_SUCCESS \<Longrightarrow> cbor_maker (\<lambda>c. (e, c)) P"
  by (rule maker_fails) simp

section \<open>The map of a key\<close>

definition key_pairs :: "cose_key \<Rightarrow> (int \<times> u8 list) list" where
  "key_pairs k = [(1, cbor_head 0 (unat (scast (key_kty k) :: u64)))] @
     (if key_kid k \<noteq> None \<and> key_kidLen k > 0 then [(2, str_bytes 2 (bytes_at (key_kid k) (key_kidLen k)))] else []) @
     (if key_alg k \<noteq> WOLFCOSE_ALG_UNSET then [(3, cbor_int (sint (key_alg k)))] else [])"

definition pairs_bytes :: "(int \<times> u8 list) list \<Rightarrow> u8 list" where
  "pairs_bytes es = concat (map (\<lambda>(l, v). cbor_int l @ v) es)"

definition key_map_bytes :: "cose_key \<Rightarrow> (int \<times> u8 list) list \<Rightarrow> u8 list" where
  "key_map_bytes k es = cbor_head 5 (length (key_pairs k @ es)) @ pairs_bytes (key_pairs k @ es)"

lemma pairs_bytes_simps [simp]:
  "pairs_bytes [] = []" "pairs_bytes ((l, v) # es) = cbor_int l @ v @ pairs_bytes es"
  "pairs_bytes (as @ bs) = pairs_bytes as @ pairs_bytes bs"
  by (simp_all add: pairs_bytes_def)

definition key_readable :: "cose_key \<Rightarrow> bool" where
  "key_readable k \<longleftrightarrow> readable (key_kid k) (key_kidLen k) \<and> readable (key_symm k) (key_symmLen k) \<and>
     readable (key_mldsaSeed k) (key_mldsaSeedLen k)"

lemma maker_int: "cbor_maker (\<lambda>c. wc_CBOR_EncodeInt c v) (\<lambda>x. x = cbor_int (sint v))"
  by (rule int.is_maker)

lemma maker_uint: "cbor_maker (\<lambda>c. wc_CBOR_EncodeUint c v) (\<lambda>x. x = cbor_head 0 (unat v))"
  by (rule uint.is_maker)

lemma maker_bstr: "readable p n \<Longrightarrow> cbor_maker (\<lambda>c. wc_CBOR_EncodeBstr c p n) (\<lambda>x. x = str_bytes 2 (bytes_at p n))"
  using cbor_writer.is_maker [OF writer_bstr [of p n]] by (simp add: str_bytes_def)

lemma maker_nothing: "cbor_maker (\<lambda>c. (WOLFCOSE_SUCCESS, c)) (\<lambda>x. x = [])"
  by (rule cbor_writer.is_maker [OF writer_nothing])

lemma maker_entry:
  "readable p n \<Longrightarrow> cbor_maker (encode_bstr_entry l p n) (\<lambda>x. x = pairs_bytes [(sint l, str_bytes 2 (bytes_at p n))])"
  unfolding encode_bstr_entry_def [abs_def] by (rule maker_next [OF maker_int maker_bstr]) simp_all

interpretation crv: cbor_maker "encode_crv key" "\<lambda>x. x = pairs_bytes [(- 1, cbor_head 0 (unat (scast (key_crv key) :: u64)))]" for key
proof -
  have "cbor_maker (encode_crv key) (\<lambda>x. x = cbor_int (sint WOLFCOSE_KEY_LABEL_CRV) @ cbor_head 0 (unat (scast (key_crv key) :: u64)))"
    unfolding encode_crv_def [abs_def] by (rule maker_next [OF maker_int maker_uint]) simp
  then show "cbor_maker (encode_crv key) (\<lambda>x. x = pairs_bytes [(- 1, cbor_head 0 (unat (scast (key_crv key) :: u64)))])" by simp
qed

lemma maker_kid:
  assumes "readable (key_kid k) (key_kidLen k)"
  shows "cbor_maker (\<lambda>c. if key_kid k \<noteq> None \<and> key_kidLen k > 0
       then on_success (wc_CBOR_EncodeUint c WOLFCOSE_KEY_LABEL_KID) (\<lambda>c. wc_CBOR_EncodeBstr c (key_kid k) (key_kidLen k))
       else (WOLFCOSE_SUCCESS, c))
     (\<lambda>x. x = pairs_bytes (if key_kid k \<noteq> None \<and> key_kidLen k > 0
        then [(2, str_bytes 2 (bytes_at (key_kid k) (key_kidLen k)))] else []))"
proof (cases "key_kid k \<noteq> None \<and> key_kidLen k > 0")
  case True
  show ?thesis unfolding if_P [OF True]
    by (rule maker_next [OF maker_uint maker_bstr [OF assms]]) (simp add: cbor_int_def)
next
  case False
  show ?thesis unfolding if_not_P [OF False] using maker_nothing by simp
qed

lemma maker_alg:
  "cbor_maker (\<lambda>c. if key_alg k \<noteq> WOLFCOSE_ALG_UNSET
       then on_success (wc_CBOR_EncodeUint c WOLFCOSE_KEY_LABEL_ALG) (\<lambda>c. wc_CBOR_EncodeInt c (scast (key_alg k)))
       else (WOLFCOSE_SUCCESS, c))
     (\<lambda>x. x = pairs_bytes (if key_alg k \<noteq> WOLFCOSE_ALG_UNSET then [(3, cbor_int (sint (key_alg k)))] else []))"
proof (cases "key_alg k \<noteq> WOLFCOSE_ALG_UNSET")
  case True
  show ?thesis unfolding if_P [OF True]
    by (rule maker_next [OF maker_uint maker_int]) (simp add: cbor_int_def sint_scast32)
next
  case False
  show ?thesis unfolding if_not_P [OF False] using maker_nothing by simp
qed

lemma length_key_pairs: "length (key_pairs k) = 1 + wolfCose_KeyOptionalEntries k" "length (key_pairs k) \<le> 3"
  by (simp_all add: key_pairs_def wolfCose_KeyOptionalEntries_def)

lemma maker_common:
  assumes "readable (key_kid k) (key_kidLen k)" "length es < 100"
  shows "cbor_maker (encode_common k (1 + length es)) (\<lambda>x. x = cbor_head 5 (length (key_pairs k @ es)) @ pairs_bytes (key_pairs k))"
proof -
  have n: "(1 + length es + wolfCose_KeyOptionalEntries k) mod 2 ^ 64 = length (key_pairs k @ es)"
    using assms(2) length_key_pairs [of k] by simp
  have m: "cbor_maker (\<lambda>c. wc_CBOR_EncodeMapStart c (1 + length es + wolfCose_KeyOptionalEntries k))
      (\<lambda>x. x = cbor_head 5 (length (key_pairs k @ es)))"
    using map.is_maker [of "1 + length es + wolfCose_KeyOptionalEntries k"] unfolding n .
  have o: "cbor_maker (wolfCose_EncodeKeyOptionalFields k) (\<lambda>x. x = pairs_bytes (tl (key_pairs k)))"
    unfolding wolfCose_EncodeKeyOptionalFields_def [abs_def]
    by (rule maker_next [OF maker_kid [OF assms(1)] maker_alg]) (simp add: key_pairs_def)
  have "cbor_maker (encode_common k (1 + length es)) (\<lambda>x. x = ((cbor_head 5 (length (key_pairs k @ es)) @
      cbor_head 0 (unat WOLFCOSE_KEY_LABEL_KTY)) @ cbor_head 0 (unat (scast (key_kty k) :: u64))) @ pairs_bytes (tl (key_pairs k)))"
    unfolding encode_common_def [abs_def] Let_def by (intro maker_seq m o maker_uint)
  then show ?thesis by (simp add: key_pairs_def cbor_int_def)
qed

section \<open>Strings written in place\<close>

text \<open>A byte string with a head of two or three bytes; from 24 bytes on it is the shortest one.\<close>

definition long_bytes :: "u8 list \<Rightarrow> u8 list" where
  "long_bytes s = (if length s < 256 then [0x58, of_nat (length s)]
     else [0x59, of_nat (length s div 256), of_nat (length s)]) @ s"

lemma long_bytes_shortest: "24 \<le> length s \<Longrightarrow> length s < 65536 \<Longrightarrow> long_bytes s = str_bytes 2 s"
  by (cases "length s < 256") (auto simp: long_bytes_def str_bytes_def cbor_head_def One_nat_def)

text \<open>Memory that changed only between two offsets.\<close>

definition between :: "nat \<Rightarrow> nat \<Rightarrow> u8 list \<Rightarrow> u8 list \<Rightarrow> bool" where
  "between a z p p' \<longleftrightarrow> length p' = length p \<and> take a p' = take a p \<and> drop z p' = drop z p"

lemma between_refl [simp]: "between a z p p"
  by (simp add: between_def)

lemma between_splice:
  "between a z p p' \<Longrightarrow> a \<le> off \<Longrightarrow> off + length bs \<le> z \<Longrightarrow> z \<le> length p \<Longrightarrow> between a z p (splice off bs p')"
  by (auto simp: between_def splice_def)

lemma take_splice_before: "k \<le> off \<Longrightarrow> off \<le> length p \<Longrightarrow> take k (splice off bs p) = take k p"
  by (simp add: splice_def)

lemma between_frame:
  assumes "enc_ctx c" "ctx_buf c = Some p" "between (ctx_idx c) (ctx_bufSz c) p p'" "ctx_idx c \<le> i" "i \<le> ctx_bufSz c"
  shows "out_frame c (c\<lparr>ctx_buf := Some p', ctx_idx := i\<rparr>)"
  using assms by (auto simp: out_frame_def enc_ctx_def written_def between_def)

lemma put_at_simps:
  "off + length bs \<le> length p \<Longrightarrow>
     put_at off bs (c\<lparr>ctx_buf := Some p, ctx_idx := i\<rparr>) = c\<lparr>ctx_buf := Some (splice off bs p), ctx_idx := i\<rparr>"
  "i + length bs \<le> length p \<Longrightarrow>
     put_bytes (c\<lparr>ctx_buf := Some p, ctx_idx := i\<rparr>) bs = c\<lparr>ctx_buf := Some (splice i bs p), ctx_idx := i\<rparr>"
  by (simp_all add: put_at_def put_bytes_def)

lemma FinalizeRsaBstr_spec:
  assumes p: "h + 3 + length s \<le> length p" "take (h + 3 + length s) p = take (h + 3) p @ s"
  obtains p' where "wolfCose_FinalizeRsaBstr (c\<lparr>ctx_buf := Some p, ctx_idx := i\<rparr>) h (length s) =
      c\<lparr>ctx_buf := Some p', ctx_idx := h + length (long_bytes s)\<rparr>"
    "between h (h + 3 + length s) p p'" "take (h + length (long_bytes s)) p' = take h p @ long_bytes s"
proof -
  have s: "take (length s) (drop (h + 3) p) = s"
    using p by (metis add_diff_cancel_left' append_eq_conv_conj drop_take length_take min.absorb2 add_leD1)
  let ?bs = "if length s < 256 then [0x58, of_nat (length s)] @ s else [0x59, of_nat (length s div 256), of_nat (length s)]"
  have F: "wolfCose_FinalizeRsaBstr (c\<lparr>ctx_buf := Some p, ctx_idx := i\<rparr>) h (length s) =
      c\<lparr>ctx_buf := Some (splice h ?bs p), ctx_idx := h + length (long_bytes s)\<rparr>"
    unfolding wolfCose_FinalizeRsaBstr_def Let_def using p(1)
    by (simp add: s put_bytes_def long_bytes_def)
  have b: "between h (h + 3 + length s) p (splice h ?bs p)"
    by (rule between_splice) (use p(1) in auto)
  have t: "take (h + length (long_bytes s)) (splice h ?bs p) = take h p @ long_bytes s"
  proof (cases "length s < 256")
    case True
    then show ?thesis using p(1) by (simp add: splice_def long_bytes_def)
  next
    case False
    have k: "take (length s) (drop (3 + h) p) = s" using s by (simp add: add.commute)
    then show ?thesis using p(1) False s by (simp add: splice_def long_bytes_def numeral_3_eq_3)
  qed
  show thesis using that F b t by blast
qed


section \<open>The material of each key type\<close>

text \<open>
  What is assumed of wolfCrypt's exports: they fit the buffer they are written to.
\<close>

definition wolfkey_ok :: "wolfkey \<Rightarrow> bool" where
  "wolfkey_ok K \<longleftrightarrow>
     (\<forall>e x y. kx_ecc_public K e = Some (x, y) \<longrightarrow> length x \<le> 66 \<and> length y \<le> 66) \<and>
     (\<forall>e d. kx_ecc_private K e = Some d \<longrightarrow> length d \<le> 66) \<and>
     (\<forall>h bs. kx_ed25519_public K h = Some bs \<or> kx_ed25519_private K h = Some bs \<or>
        kx_ed448_public K h = Some bs \<or> kx_ed448_private K h = Some bs \<longrightarrow> length bs \<le> 57) \<and>
     (\<forall>r cap e n. kx_rsa_public K r cap = Some (e, n) \<longrightarrow> length e \<le> 8 \<and> length n \<le> cap) \<and>
     (\<forall>r e n d p q. kx_rsa_export K r = Some (e, n, d, p, q) \<longrightarrow> length e \<le> 8 \<and> int (length n) \<le> rsa_size r \<and>
        int (length d) \<le> rsa_size r \<and> int (length p) \<le> rsa_size r div 2 \<and> int (length q) \<le> rsa_size r div 2) \<and>
     (\<forall>r a n bs. kx_rsa_int K r a n = Some bs \<longrightarrow> length bs \<le> n) \<and>
     (\<forall>m cap bs. kx_mldsa_public K m cap = Some bs \<longrightarrow> length bs \<le> cap) \<and>
     (\<forall>v bs. kx_lms_public K v = Some bs \<longrightarrow> length bs \<le> 60)"

lemma wolfkey_okD:
  assumes "wolfkey_ok K"
  shows "kx_ecc_public K ev = Some (x, y) \<Longrightarrow> length x \<le> 66 \<and> length y \<le> 66"
    "kx_ecc_private K ev = Some d \<Longrightarrow> length d \<le> 66"
    "kx_ed25519_public K h = Some bs \<Longrightarrow> length bs \<le> 57" "kx_ed25519_private K h = Some bs \<Longrightarrow> length bs \<le> 57"
    "kx_ed448_public K h = Some bs \<Longrightarrow> length bs \<le> 57" "kx_ed448_private K h = Some bs \<Longrightarrow> length bs \<le> 57"
    "kx_rsa_public K r cap = Some (e, n) \<Longrightarrow> length e \<le> 8 \<and> length n \<le> cap"
    "kx_rsa_export K r = Some (e, n, d, p, q) \<Longrightarrow> length e \<le> 8 \<and> int (length n) \<le> rsa_size r \<and>
        int (length d) \<le> rsa_size r \<and> int (length p) \<le> rsa_size r div 2 \<and> int (length q) \<le> rsa_size r div 2"
    "kx_rsa_int K r a i = Some bs \<Longrightarrow> length bs \<le> i"
    "kx_mldsa_public K m cap = Some bs \<Longrightarrow> length bs \<le> cap"
    "kx_lms_public K v = Some bs \<Longrightarrow> length bs \<le> 60"
  by (insert assms [unfolded wolfkey_ok_def]) (elim conjE; (blast | metis))+

definition bstr :: "u8 list \<Rightarrow> u8 list" where
  "bstr = str_bytes 2"

text \<open>An encoder of map entries.\<close>

abbreviation entry_maker :: "(cbor_ctx \<Rightarrow> rc \<times> cbor_ctx) \<Rightarrow> ((int \<times> u8 list) list \<Rightarrow> bool) \<Rightarrow> bool" where
  "entry_maker f Q \<equiv> cbor_maker f (\<lambda>x. \<exists>es. Q es \<and> x = pairs_bytes es)"

lemma entry_maker_next:
  "entry_maker f Q \<Longrightarrow> entry_maker g R \<Longrightarrow> (\<And>as bs. Q as \<Longrightarrow> R bs \<Longrightarrow> S (as @ bs)) \<Longrightarrow> entry_maker (\<lambda>c. on_success (f c) g) S"
  by (erule maker_next, assumption) (metis pairs_bytes_simps(3))

lemma entry_maker_one: "cbor_maker f (\<lambda>x. x = pairs_bytes es) \<Longrightarrow> entry_maker f (\<lambda>x. x = es)"
  by (erule maker_weaken) blast

lemma entry_maker_bstr: "length bs < 2 ^ 64 \<Longrightarrow> entry_maker (encode_bstr_entry l (Some bs) (length bs)) (\<lambda>x. x = [(sint l, bstr bs)])"
  by (rule entry_maker_one) (use maker_entry [of "Some bs" "length bs" l] in \<open>simp add: bstr_def\<close>)

lemma entry_maker_crv: "entry_maker (encode_crv k) (\<lambda>x. x = [(- 1, cbor_head 0 (unat (scast (key_crv k) :: u64)))])"
  by (rule entry_maker_one) (rule crv.cbor_maker_axioms)

lemma entry_maker_nothing: "entry_maker (\<lambda>c. (WOLFCOSE_SUCCESS, c)) (\<lambda>x. x = [])"
  by (rule entry_maker_one) (simp add: maker_nothing)

lemma on_success_assoc: "on_success (on_success r f) g = on_success r (\<lambda>c. on_success (f c) g)"
  by (simp add: on_success_def)

text \<open>The map: a head that counts the entries, the common ones, and those of the key type.\<close>

lemma maker_map:
  assumes "readable (key_kid k) (key_kidLen k)" "entry_maker body Q" "\<And>es. Q es \<Longrightarrow> length es = n" "n < 100"
  shows "cbor_maker (\<lambda>c. on_success (encode_common k (1 + n) c) body) (\<lambda>x. \<exists>es. Q es \<and> x = key_map_bytes k es)"
proof -
  have "cbor_maker (encode_common k (1 + n)) (\<lambda>x. x = cbor_head 5 (length (key_pairs k) + n) @ pairs_bytes (key_pairs k))"
    using maker_common [OF assms(1), of "replicate n x" for x] assms(4) by simp
  then show ?thesis
    by (rule maker_next [OF _ assms(2)]) (use assms(3) in \<open>auto simp: key_map_bytes_def\<close>)
qed


lemma maker_map_n:
  assumes "readable (key_kid k) (key_kidLen k)" "entry_maker body Q" "\<And>es. Q es \<Longrightarrow> length es = n - 1" "0 < n" "n < 100"
  shows "cbor_maker (\<lambda>c. on_success (encode_common k n c) body) (\<lambda>x. \<exists>es. Q es \<and> x = key_map_bytes k es)"
proof -
  have n: "1 + (n - 1) = n" using assms(4) by simp
  have "n - 1 < 100" using assms(5) by simp
  then show ?thesis using maker_map [OF assms(1-3)] unfolding n by simp
qed

lemma maker_map_of:
  assumes "readable (key_kid k) (key_kidLen k)" "entry_maker body (\<lambda>x. x = es)" "length es < 100" "n = 1 + length es"
  shows "cbor_maker (\<lambda>c. on_success (encode_common k n c) body) (\<lambda>x. x = key_map_bytes k es)"
  unfolding assms(4) by (rule maker_weaken [OF maker_map [OF assms(1,2) _ assms(3)]]) simp_all

lemma maker_is:
  "cbor_maker f (\<lambda>x. x = key_map_bytes k es) \<Longrightarrow> Q es \<Longrightarrow> cbor_maker f (\<lambda>x. \<exists>es. Q es \<and> x = key_map_bytes k es)"
  by (erule maker_weaken) blast

text \<open>What the entries of a key type are; \<open>priv\<close> says whether private material is among them.\<close>

definition crv_entry :: "cose_key \<Rightarrow> int \<times> u8 list" where
  "crv_entry k = (- 1, cbor_head 0 (unat (scast (key_crv k) :: u64)))"

inductive ec2_material :: "wolfkey \<Rightarrow> cose_key \<Rightarrow> bool \<Rightarrow> (int \<times> u8 list) list \<Rightarrow> bool" for K k where
  ec2_public: "key_ecc k = Some e \<Longrightarrow> kx_ecc_public K e = Some (x, y) \<Longrightarrow>
     wolfCose_CrvKeySize (key_crv k) (Some 0) = (WOLFCOSE_SUCCESS, Some n) \<Longrightarrow> length x = n \<Longrightarrow> length y = n \<Longrightarrow>
     ec2_material K k False [crv_entry k, (- 2, bstr x), (- 3, bstr y)]"
| ec2_private: "ec2_material K k False es \<Longrightarrow> key_ecc k = Some e \<Longrightarrow> kx_ecc_private K e = Some d \<Longrightarrow>
     wolfCose_CrvKeySize (key_crv k) (Some 0) = (WOLFCOSE_SUCCESS, Some (length d)) \<Longrightarrow>
     ec2_material K k True (es @ [(- 4, bstr d)])"

definition okp_exports :: "build \<Rightarrow> wolfkey \<Rightarrow> cose_key \<Rightarrow> u8 list option \<Rightarrow> u8 list option \<Rightarrow> bool" where
  "okp_exports b K k pub d \<longleftrightarrow>
     (\<exists>h. have_eddsa b \<and> key_crv k = WOLFCOSE_CRV_ED25519 \<and> key_ed25519 k = Some h \<and> pub = kx_ed25519_public K h \<and> d = kx_ed25519_private K h) \<or>
     (\<exists>h. have_ed448 b \<and> key_crv k = WOLFCOSE_CRV_ED448 \<and> key_ed448 k = Some h \<and> pub = kx_ed448_public K h \<and> d = kx_ed448_private K h)"

inductive okp_material :: "build \<Rightarrow> wolfkey \<Rightarrow> cose_key \<Rightarrow> bool \<Rightarrow> (int \<times> u8 list) list \<Rightarrow> bool" for b K k where
  okp_public: "okp_exports b K k (Some x) d \<Longrightarrow> okp_material b K k False [crv_entry k, (- 2, bstr x)]"
| okp_private: "okp_exports b K k (Some x) (Some d) \<Longrightarrow> okp_material b K k True [crv_entry k, (- 2, bstr x), (- 4, bstr d)]"

lemma maker_if_fails: "(\<And>c. f c = (e, c)) \<Longrightarrow> e \<noteq> WOLFCOSE_SUCCESS \<Longrightarrow> cbor_maker f P"
  by (rule maker_fails) simp

lemma CrvKeySize_out: "\<exists>n. wolfCose_CrvKeySize crv (Some 0) = (WOLFCOSE_SUCCESS, Some n) \<or>
    (\<exists>e. wolfCose_CrvKeySize crv (Some 0) = (e, Some n) \<and> e \<noteq> WOLFCOSE_SUCCESS)"
  by (auto simp: wolfCose_CrvKeySize_def lookup_out_def)

text \<open>The map of an EC2 key, with the private entry or without it.\<close>

lemma maker_Ec2Map:
  assumes "readable (key_kid k) (key_kidLen k)" "length x < 2 ^ 64" "length y < 2 ^ 64"
  shows "cbor_maker (wolfCose_EncodeEc2Map k (Some x) (length x) (Some y) (length y) None z)
      (\<lambda>bs. bs = key_map_bytes k [crv_entry k, (- 2, bstr x), (- 3, bstr y)])"
    "length d < 2 ^ 64 \<Longrightarrow> cbor_maker (wolfCose_EncodeEc2Map k (Some x) (length x) (Some y) (length y) (Some d) (length d))
      (\<lambda>bs. bs = key_map_bytes k [crv_entry k, (- 2, bstr x), (- 3, bstr y), (- 4, bstr d)])"
proof -
  note e = entry_maker_next [OF entry_maker_crv entry_maker_next [OF entry_maker_bstr [OF assms(2)] entry_maker_next [OF entry_maker_bstr [OF assms(3)]]]]
  have "entry_maker (\<lambda>c. on_success (encode_crv k c) (\<lambda>c. on_success (encode_bstr_entry WOLFCOSE_KEY_LABEL_X (Some x) (length x) c)
       (\<lambda>c. on_success (encode_bstr_entry WOLFCOSE_KEY_LABEL_Y (Some y) (length y) c) (\<lambda>c. (WOLFCOSE_SUCCESS, c)))))
     (\<lambda>es. es = [crv_entry k, (- 2, bstr x), (- 3, bstr y)])"
    by (rule e) (rule entry_maker_nothing, simp_all add: crv_entry_def)
  from maker_map_of [OF assms(1) this, of 4]
  show "cbor_maker (wolfCose_EncodeEc2Map k (Some x) (length x) (Some y) (length y) None z)
      (\<lambda>bs. bs = key_map_bytes k [crv_entry k, (- 2, bstr x), (- 3, bstr y)])"
    by (simp add: wolfCose_EncodeEc2Map_def [abs_def] on_success_assoc)
  assume d: "length d < 2 ^ 64"
  have "entry_maker (\<lambda>c. on_success (encode_crv k c) (\<lambda>c. on_success (encode_bstr_entry WOLFCOSE_KEY_LABEL_X (Some x) (length x) c)
       (\<lambda>c. on_success (encode_bstr_entry WOLFCOSE_KEY_LABEL_Y (Some y) (length y) c)
         (encode_bstr_entry WOLFCOSE_KEY_LABEL_D (Some d) (length d)))))
     (\<lambda>es. es = [crv_entry k, (- 2, bstr x), (- 3, bstr y), (- 4, bstr d)])"
    by (rule e) (rule entry_maker_bstr [OF d], simp_all add: crv_entry_def)
  from maker_map_of [OF assms(1) this, of 5]
  show "cbor_maker (wolfCose_EncodeEc2Map k (Some x) (length x) (Some y) (length y) (Some d) (length d))
      (\<lambda>bs. bs = key_map_bytes k [crv_entry k, (- 2, bstr x), (- 3, bstr y), (- 4, bstr d)])"
    by (simp add: wolfCose_EncodeEc2Map_def [abs_def] on_success_assoc)
qed

lemma maker_ec2:
  assumes "wolfkey_ok K" "readable (key_kid k) (key_kidLen k)"
  shows "cbor_maker (encode_ec2 b K k flags)
     (\<lambda>x. \<exists>es. ec2_material K k (wolfCose_KeyEmitsPrivate b k flags) es \<and> x = key_map_bytes k es)"
proof (cases "key_ecc k")
  case None
  then show ?thesis by (intro maker_if_fails [where e = WOLFCOSE_E_INVALID_ARG]) (simp_all add: encode_ec2_def)
next
  case (Some e)
  obtain n where n: "wolfCose_CrvKeySize (key_crv k) (Some 0) = (WOLFCOSE_SUCCESS, Some n) \<or>
    (\<exists>e. wolfCose_CrvKeySize (key_crv k) (Some 0) = (e, Some n) \<and> e \<noteq> WOLFCOSE_SUCCESS)" using CrvKeySize_out by blast
  let ?ok = "wolfCose_CrvKeySize (key_crv k) (Some 0) = (WOLFCOSE_SUCCESS, Some n) \<and>
     (\<exists>x y. kx_ecc_public K e = Some (x, y) \<and> length x = n \<and> length y = n)"
  show ?thesis
  proof (cases ?ok)
    case False
    then show ?thesis using n
      by (cases "kx_ecc_public K e") (intro maker_fails; auto simp: encode_ec2_def Some)+
  next
    case True
    then obtain x y where xy: "kx_ecc_public K e = Some (x, y)" "length x = n" "length y = n" by blast
    have l: "length x < 2 ^ 64" "length y < 2 ^ 64" using wolfkey_okD(1) [OF assms(1) xy(1)] by simp_all
    note pub = ec2_public [OF Some xy(1) conjunct1 [OF True] xy(2,3)]
    show ?thesis
    proof (cases "wolfCose_KeyEmitsPrivate b k flags")
      case False
      then have "encode_ec2 b K k flags = wolfCose_EncodeEc2Map k (Some x) (length x) (Some y) (length y) None 66"
        using True xy Some by (simp add: encode_ec2_def fun_eq_iff)
      then show ?thesis using maker_is [OF maker_Ec2Map(1) [OF assms(2) l], where Q = "ec2_material K k False", OF pub] False by simp
    next
      case p: True
      show ?thesis
      proof (cases "\<exists>d. kx_ecc_private K e = Some d \<and> length d = n")
        case False
        then show ?thesis using True xy Some p by (intro maker_fails) (auto simp: encode_ec2_def split: option.split)
      next
        case d: True
        then obtain d where d: "kx_ecc_private K e = Some d" "length d = n" by blast
        have "encode_ec2 b K k flags = wolfCose_EncodeEc2Map k (Some x) (length x) (Some y) (length y) (Some d) (length d)"
          using True xy Some d p by (simp add: encode_ec2_def fun_eq_iff)
        moreover have "length d < 2 ^ 64" using wolfkey_okD(2) [OF assms(1) d(1)] by simp
        moreover have "ec2_material K k True ([crv_entry k, (- 2, bstr x), (- 3, bstr y)] @ [(- 4, bstr d)])"
          by (rule ec2_private [OF pub Some d(1)]) (use True d(2) in simp)
        ultimately show ?thesis using maker_is [OF maker_Ec2Map(2) [OF assms(2) l], where Q = "ec2_material K k True"] p by simp
      qed
    qed
  qed
qed


lemma okp_exports_of:
  assumes "okp_public b K k = (WOLFCOSE_SUCCESS, pub)"
  shows "\<exists>d. okp_exports b K k (Some pub) d \<and>
    okp_private b K k = (case d of None \<Rightarrow> (WOLFCOSE_E_CRYPTO, []) | Some d \<Rightarrow> (WOLFCOSE_SUCCESS, d))"
  using assms
  by (auto simp: okp_public_def okp_private_def okp_exports_def Let_def split: if_splits option.splits)

lemma okp_exports_length:
  assumes "wolfkey_ok K" "okp_exports b K k pub d"
  shows "pub = Some x \<Longrightarrow> length x \<le> 57" "d = Some x \<Longrightarrow> length x \<le> 57"
  using assms(2) wolfkey_okD(3-6) [OF assms(1)] by (auto simp: okp_exports_def)

lemma maker_okp:
  assumes "wolfkey_ok K" "readable (key_kid k) (key_kidLen k)"
  shows "cbor_maker (encode_okp b K k flags)
     (\<lambda>x. \<exists>es. okp_material b K k (wolfCose_KeyEmitsPrivate b k flags) es \<and> x = key_map_bytes k es)"
proof (cases "fst (okp_public b K k) = WOLFCOSE_SUCCESS")
  case False
  then show ?thesis by (intro maker_fails) (auto simp: encode_okp_def Let_def split: prod.split)
next
  case True
  then obtain pub where pub: "okp_public b K k = (WOLFCOSE_SUCCESS, pub)" by (cases "okp_public b K k") auto
  obtain d where d: "okp_exports b K k (Some pub) d"
      "okp_private b K k = (case d of None \<Rightarrow> (WOLFCOSE_E_CRYPTO, []) | Some d \<Rightarrow> (WOLFCOSE_SUCCESS, d))"
    using okp_exports_of [OF pub] by blast
  have l: "length pub < 2 ^ 64" using okp_exports_length(1) [OF assms(1) d(1) refl] by simp
  note next_entry = entry_maker_next [OF entry_maker_crv entry_maker_next [OF entry_maker_bstr [OF l]]]
  show ?thesis
  proof (cases "wolfCose_KeyEmitsPrivate b k flags")
    case False
    have "entry_maker (\<lambda>c. on_success (encode_crv k c) (\<lambda>c. on_success (encode_bstr_entry WOLFCOSE_KEY_LABEL_X (Some pub) (length pub) c)
       (\<lambda>c. (WOLFCOSE_SUCCESS, c)))) (\<lambda>es. es = [crv_entry k, (- 2, bstr pub)])"
      by (rule next_entry) (rule entry_maker_nothing, simp_all add: crv_entry_def)
    from maker_map_of [OF assms(2) this, of 3]
    have "cbor_maker (encode_okp b K k flags) (\<lambda>x. x = key_map_bytes k [crv_entry k, (- 2, bstr pub)])"
      by (simp add: encode_okp_def [abs_def] pub False on_success_assoc Let_def)
    from maker_is [OF this, where Q = "okp_material b K k False"] show ?thesis using okp_material.okp_public [OF d(1)] False by simp
  next
    case p: True
    let ?priv = "\<lambda>ctx. case okp_private b K k of (ret, d) \<Rightarrow> if ret \<noteq> WOLFCOSE_SUCCESS then (ret, ctx)
          else encode_bstr_entry WOLFCOSE_KEY_LABEL_D (Some d) (length d) ctx"
    have priv: "entry_maker ?priv (\<lambda>es. \<exists>v. d = Some v \<and> es = [(- 4, bstr v)])"
    proof (cases d)
      case None
      then show ?thesis using d(2) by (intro maker_fails) simp
    next
      case (Some v)
      have "entry_maker (encode_bstr_entry WOLFCOSE_KEY_LABEL_D (Some v) (length v)) (\<lambda>es. es = [(sint WOLFCOSE_KEY_LABEL_D, bstr v)])"
        using okp_exports_length(2) [OF assms(1) d(1) Some] by (intro entry_maker_bstr) simp
      then show ?thesis using Some d(2) by simp
    qed
    have "entry_maker (\<lambda>c. on_success (encode_crv k c) (\<lambda>c. on_success (encode_bstr_entry WOLFCOSE_KEY_LABEL_X (Some pub) (length pub) c) ?priv))
       (\<lambda>es. \<exists>v. d = Some v \<and> es = [crv_entry k, (- 2, bstr pub), (- 4, bstr v)])"
      by (rule next_entry) (rule priv, auto simp: crv_entry_def)
    from maker_map [OF assms(2) this, of 3]
    have "cbor_maker (encode_okp b K k flags)
        (\<lambda>x. \<exists>es. (\<exists>v. d = Some v \<and> es = [crv_entry k, (- 2, bstr pub), (- 4, bstr v)]) \<and> x = key_map_bytes k es)"
      by (fastforce simp add: encode_okp_def [abs_def] pub p on_success_assoc Let_def)
    then show ?thesis
    proof (rule maker_weaken, elim exE conjE)
      fix bs es v assume "d = Some v" "es = [crv_entry k, (- 2, bstr pub), (- 4, bstr v)]" "bs = key_map_bytes k es"
      then show "\<exists>es. okp_material b K k (wolfCose_KeyEmitsPrivate b k flags) es \<and> bs = key_map_bytes k es"
        using okp_material.okp_private [of b K k pub v] d(1) p by auto
    qed
  qed
qed

inductive symm_material :: "cose_key \<Rightarrow> (int \<times> u8 list) list \<Rightarrow> bool" for k where
  "key_symm k \<noteq> None \<Longrightarrow> 0 < key_symmLen k \<Longrightarrow> symm_material k [(- 1, bstr (bytes_at (key_symm k) (key_symmLen k)))]"

lemma maker_symm:
  assumes "readable (key_kid k) (key_kidLen k)" "readable (key_symm k) (key_symmLen k)"
  shows "cbor_maker (encode_symm b k flags)
     (\<lambda>x. \<exists>es. symm_material k es \<and> flags AND WOLFCOSE_KEY_PUBLIC_ONLY = 0 \<and> \<not> (ext_sign b \<and> key_signCb k \<noteq> None) \<and> x = key_map_bytes k es)"
proof (cases "symm_checks b k flags = WOLFCOSE_SUCCESS")
  case False
  then show ?thesis by (intro maker_fails) (simp add: encode_symm_def Let_def)
next
  case True
  have "entry_maker (encode_bstr_entry WOLFCOSE_KEY_LABEL_K (key_symm k) (key_symmLen k))
      (\<lambda>es. es = [(- 1, bstr (bytes_at (key_symm k) (key_symmLen k)))])"
    by (rule entry_maker_one) (use maker_entry [OF assms(2), of WOLFCOSE_KEY_LABEL_K] in \<open>simp add: bstr_def\<close>)
  from maker_map_of [OF assms(1) this, of 2]
  have "cbor_maker (encode_symm b k flags) (\<lambda>x. x = key_map_bytes k [(- 1, bstr (bytes_at (key_symm k) (key_symmLen k)))])"
    by (simp add: encode_symm_def [abs_def] True)
  then show ?thesis using True
    by (elim maker_weaken) (auto simp: symm_checks_def symm_material.simps split: if_splits)
qed

inductive lms_material :: "wolfkey \<Rightarrow> cose_key \<Rightarrow> (int \<times> u8 list) list \<Rightarrow> bool" for K k where
  "key_attachedType k = WOLFCOSE_ATT_LMS \<Longrightarrow> key_lms k = Some v \<Longrightarrow> lms_has_public v \<Longrightarrow>
   key_alg k \<in> {WOLFCOSE_ALG_UNSET, WOLFCOSE_ALG_HSS_LMS} \<Longrightarrow> kx_lms_public K v = Some pub \<Longrightarrow>
   lms_material K k [(- 1, bstr pub)]"

lemma maker_lms:
  assumes "wolfkey_ok K" "readable (key_kid k) (key_kidLen k)"
  shows "cbor_maker (encode_lms K k) (\<lambda>x. \<exists>es. lms_material K k es \<and> x = key_map_bytes k es)"
proof (cases "lms_checks k = WOLFCOSE_SUCCESS \<and> (\<exists>pub. kx_lms_public K (the (key_lms k)) = Some pub)")
  case False
  then show ?thesis by (intro maker_fails) (auto simp: encode_lms_def Let_def split: option.split)
next
  case True
  then obtain pub where pub: "kx_lms_public K (the (key_lms k)) = Some pub" by blast
  have "length pub < 2 ^ 64" using wolfkey_okD(11) [OF assms(1) pub] by simp
  from maker_map_of [OF assms(2) entry_maker_bstr [OF this, of WOLFCOSE_KEY_LABEL_PUB], where n = 2]
  have "cbor_maker (encode_lms K k) (\<lambda>x. x = key_map_bytes k [(- 1, bstr pub)])"
    by (simp add: encode_lms_def [abs_def] True pub)
  moreover have "lms_material K k [(- 1, bstr pub)]"
    using True pub by (auto simp: lms_checks_def lms_material.simps split: if_splits option.splits)
  ultimately show ?thesis by (rule maker_is)
qed


section \<open>Strings that wolfCrypt writes into the output\<close>

lemma length_long_bytes: "length s \<le> length (long_bytes s)" "length (long_bytes s) \<le> 3 + length s"
  by (auto simp: long_bytes_def)

lemma between_trans: "between a z p q \<Longrightarrow> between a' z' q r \<Longrightarrow> a \<le> a' \<Longrightarrow> z' \<le> z \<Longrightarrow> between a z p r"
proof -
  assume b: "between a z p q" "between a' z' q r" and l: "a \<le> a'" "z' \<le> z"
  have "take a r = take a (take a' r)" "drop z r = drop (z - z') (drop z' r)" using l by (simp_all add: min_def)
  then have "take a r = take a (take a' q)" "drop z r = drop (z - z') (drop z' q)" using b(2) unfolding between_def by simp_all
  then show ?thesis using b l by (simp add: between_def min_def)
qed

lemma written_between: "between (ctx_idx c) z p p' \<Longrightarrow> ctx_buf c = Some p \<Longrightarrow> take (ctx_idx c) p' = written c"
  by (simp add: between_def written_def)

text \<open>A string at its place, whose head is then written in front of it.\<close>

lemma reserved_written:
  assumes c: "enc_ctx c" "ctx_buf c = Some p" and b: "between (ctx_idx c) (ctx_bufSz c) p p1"
    and s: "take (ctx_idx c + 3 + length s) p1 = take (ctx_idx c + 3) p1 @ s" "ctx_idx c + 3 + length s \<le> ctx_bufSz c"
  obtains p2 where "wolfCose_FinalizeRsaBstr (c\<lparr>ctx_buf := Some p1, ctx_idx := j\<rparr>) (ctx_idx c) (length s) =
      c\<lparr>ctx_buf := Some p2, ctx_idx := ctx_idx c + length (long_bytes s)\<rparr>"
    "between (ctx_idx c) (ctx_bufSz c) p p2" "take (ctx_idx c + length (long_bytes s)) p2 = written c @ long_bytes s"
proof -
  have z: "ctx_bufSz c \<le> length p1" using c b by (auto simp: between_def enc_ctx_def)
  then have l: "ctx_idx c + 3 + length s \<le> length p1" using s(2) by simp
  obtain p2 where p2: "wolfCose_FinalizeRsaBstr (c\<lparr>ctx_buf := Some p1, ctx_idx := j\<rparr>) (ctx_idx c) (length s) =
      c\<lparr>ctx_buf := Some p2, ctx_idx := ctx_idx c + length (long_bytes s)\<rparr>"
    "between (ctx_idx c) (ctx_idx c + 3 + length s) p1 p2" "take (ctx_idx c + length (long_bytes s)) p2 = take (ctx_idx c) p1 @ long_bytes s"
    by (rule FinalizeRsaBstr_spec [OF l s(1)])
  have "between (ctx_idx c) (ctx_bufSz c) p p2" by (rule between_trans [OF b p2(2)]) (use s(2) in simp_all)
  moreover have "take (ctx_idx c) p1 = written c" by (rule written_between [OF b c(2)])
  ultimately show thesis using that [OF p2(1)] p2(3) by simp
qed

lemma reserved_frame:
  assumes "enc_ctx c" "ctx_buf c = Some p" "between (ctx_idx c) (ctx_bufSz c) p p2" "ctx_idx c + length bs \<le> ctx_bufSz c"
    "take (ctx_idx c + length bs) p2 = written c @ bs"
  shows "out_frame c (c\<lparr>ctx_buf := Some p2, ctx_idx := ctx_idx c + length bs\<rparr>)"
    "written (c\<lparr>ctx_buf := Some p2, ctx_idx := ctx_idx c + length bs\<rparr>) = written c @ bs"
  using between_frame [OF assms(1,2,3) _ assms(4)] assms(5) by (simp_all add: written_def)

lemma take_splice_at: "off + length s \<le> length p \<Longrightarrow> take (off + length s) (splice off s p) = take off (splice off s p) @ s"
  by (simp add: splice_def)

lemma put_bytes_at:
  "ctx_buf c = Some p \<Longrightarrow> off + length bs \<le> length p \<Longrightarrow>
     put_bytes (c\<lparr>ctx_idx := off\<rparr>) bs = c\<lparr>ctx_buf := Some (splice off bs p), ctx_idx := off\<rparr>"
  by (simp add: put_bytes_def)

lemma w32_le: "w32 n \<le> n"
  by (simp add: w32_def unat_of_nat)

lemma rsa_n_spec:
  assumes K: "wolfkey_ok K" and c: "enc_ctx c" "ctx_bufSz c < 2 ^ 63" and r: "encode_rsa_n K rsa c = (ret, c', e)"
  shows "out_frame c c' \<and> (ret = WOLFCOSE_SUCCESS \<longrightarrow> (\<exists>cap n. kx_rsa_public K rsa cap = Some (e, n) \<and> n \<noteq> [] \<and>
     length n \<le> 65535 \<and> written c' = written c @ long_bytes n))"
proof -
  obtain p where p: "ctx_buf c = Some p" "ctx_bufSz c \<le> length p" "ctx_idx c \<le> ctx_bufSz c" using c(1) by (auto simp: enc_ctx_def)
  let ?i = "ctx_idx c" and ?cap = "w32 (sz_sub (ctx_bufSz c) (ctx_idx c + 3))"
  have a: "sz_add ?i 3 = ?i + 3" using c p(3) by (intro sz_add_id) simp
  show ?thesis
  proof (cases "?i + 3 > ctx_bufSz c")
    case True
    then show ?thesis using r a out_frame_refl [OF c(1)] by (auto simp: encode_rsa_n_def)
  next
    case False
    have b0: "between ?i (ctx_bufSz c) p p" by simp
    have same: "c\<lparr>ctx_buf := Some p, ctx_idx := j\<rparr> = c\<lparr>ctx_idx := j\<rparr>" for j using p(1) by simp
    show ?thesis
    proof (cases "kx_rsa_public K rsa ?cap")
      case None
      then have "ret = WOLFCOSE_E_CRYPTO" "c' = c\<lparr>ctx_idx := ?i + 3\<rparr>" using r a False by (simp_all add: encode_rsa_n_def Let_def)
      then show ?thesis using between_frame [OF c(1) p(1) b0, of "?i + 3"] False same by simp
    next
      case (Some en)
      obtain e' n where en: "kx_rsa_public K rsa ?cap = Some (e', n)" using Some by (cases en) auto
      have "length n \<le> ?cap" using wolfkey_okD(7) [OF K en] by simp
      moreover have "?cap \<le> ctx_bufSz c - (?i + 3)" 
      proof -
        have "sz_sub (ctx_bufSz c) (?i + 3) = ctx_bufSz c - (?i + 3)" using False c(2) by (intro sz_sub_id) simp_all
        then show ?thesis by (simp only: w32_le)
      qed
      ultimately have fit: "?i + 3 + length n \<le> ctx_bufSz c" using False by simp
      then have lp: "?i + 3 + length n \<le> length p" using p(2) by simp
      let ?p1 = "splice (?i + 3) n p"
      note put = put_bytes_at [OF p(1) lp]
      have b1: "between ?i (ctx_bufSz c) p ?p1" by (rule between_splice [OF between_refl]) (use fit p(2) in simp_all)
      show ?thesis
      proof (cases "length n = 0 \<or> length n > 65535")
        case True
        then have "ret = WOLFCOSE_E_BUFFER_TOO_SMALL" "c' = c\<lparr>ctx_buf := Some ?p1, ctx_idx := ?i + 3\<rparr>"
          using r a False en put by (simp_all add: encode_rsa_n_def Let_def)
        then show ?thesis using between_frame [OF c(1) p(1) b1, of "?i + 3"] fit by simp
      next
        case ok: False
        obtain p2 where p2: "wolfCose_FinalizeRsaBstr (c\<lparr>ctx_buf := Some ?p1, ctx_idx := ?i + 3\<rparr>) ?i (length n) =
            c\<lparr>ctx_buf := Some p2, ctx_idx := ?i + length (long_bytes n)\<rparr>" "between ?i (ctx_bufSz c) p p2"
            "take (?i + length (long_bytes n)) p2 = written c @ long_bytes n"
          by (rule reserved_written [OF c(1) p(1) b1 take_splice_at [OF lp] fit])
        have "?i + length (long_bytes n) \<le> ctx_bufSz c" using fit length_long_bytes(2) [of n] by simp
        note fr = reserved_frame [OF c(1) p(1) p2(2) this p2(3)]
        have "ret = WOLFCOSE_SUCCESS" "e = e'" "c' = c\<lparr>ctx_buf := Some p2, ctx_idx := ?i + length (long_bytes n)\<rparr>"
          using r a False en put ok p2(1) by (simp_all add: encode_rsa_n_def Let_def)
        moreover have "n \<noteq> []" "length n \<le> 65535" using ok by auto
        ultimately show ?thesis using fr en by (intro conjI impI exI [of _ ?cap] exI [of _ n]) simp_all
      qed
    qed
  qed
qed


text \<open>The values of the private entries.\<close>

definition rsa_d_value :: "wolfkey \<Rightarrow> rsa_view \<Rightarrow> u8 list \<Rightarrow> bool" where
  "rsa_d_value K r x \<longleftrightarrow> (\<exists>e n d p q. kx_rsa_export K r = Some (e, n, d, p, q) \<and> d \<noteq> [] \<and> length d \<le> 65535 \<and> 0 < rsa_size r \<and>
     x = long_bytes (replicate (nat (rsa_size r) - length d) 0 @ d))"

definition rsa_part_value :: "wolfkey \<Rightarrow> rsa_view \<Rightarrow> rsa_part \<Rightarrow> u8 list \<Rightarrow> bool" where
  "rsa_part_value K r a x \<longleftrightarrow> (\<exists>v. kx_rsa_int K r a ((nat (rsa_size r) + 1) div 2) = Some v \<and>
     length v = (nat (rsa_size r) + 1) div 2 \<and> x = bstr v)"

inductive rsa_material :: "wolfkey \<Rightarrow> cose_key \<Rightarrow> bool \<Rightarrow> (int \<times> u8 list) list \<Rightarrow> bool" for K k where
  rsa_public: "key_rsa k = Some r \<Longrightarrow> kx_rsa_public K r cap = Some (e, n) \<Longrightarrow> n \<noteq> [] \<Longrightarrow> length n \<le> 65535 \<Longrightarrow>
     rsa_material K k False [(- 1, long_bytes n), (- 2, bstr e)]"
| rsa_private: "rsa_material K k False es \<Longrightarrow> key_rsa k = Some r \<Longrightarrow> rsa_d_value K r d \<Longrightarrow> rsa_part_value K r RSA_P p \<Longrightarrow>
     rsa_part_value K r RSA_Q q \<Longrightarrow> rsa_part_value K r RSA_DP dp \<Longrightarrow> rsa_part_value K r RSA_DQ dq \<Longrightarrow> rsa_part_value K r RSA_QINV qi \<Longrightarrow>
     rsa_material K k True (es @ [(- 3, d), (- 4, p), (- 5, q), (- 6, dp), (- 7, dq), (- 8, qi)])"

lemma maker_rsa_n:
  assumes "wolfkey_ok K" "key_rsa k = Some r"
  shows "entry_maker (\<lambda>c. on_success (wc_CBOR_EncodeInt c WOLFCOSE_KEY_LABEL_CRV) (\<lambda>c. case encode_rsa_n K r c of (ret, c, e) \<Rightarrow>
     on_success (ret, c) (encode_bstr_entry WOLFCOSE_KEY_LABEL_X (Some e) (length e)))) (rsa_material K k False)"
proof -
  have n: "cbor_maker (\<lambda>c. case encode_rsa_n K r c of (ret, c, e) \<Rightarrow>
       on_success (ret, c) (encode_bstr_entry WOLFCOSE_KEY_LABEL_X (Some e) (length e)))
     (\<lambda>x. \<exists>cap e n. kx_rsa_public K r cap = Some (e, n) \<and> n \<noteq> [] \<and> length n \<le> 65535 \<and> x = long_bytes n @ pairs_bytes [(- 2, bstr e)])"
  proof
    fix c assume c: "enc_ctx c" "ctx_bufSz c < 2 ^ 63"
    obtain ret c1 e where r: "encode_rsa_n K r c = (ret, c1, e)" by (cases "encode_rsa_n K r c") auto
    note n = rsa_n_spec [OF assms(1) c r]
    have c1: "enc_ctx c1" "ctx_bufSz c1 < 2 ^ 63" using n c(2) by (simp_all add: out_frame_def)
    let ?e = "encode_bstr_entry WOLFCOSE_KEY_LABEL_X (Some e) (length e)"
    have e: "cbor_maker ?e (\<lambda>x. x = pairs_bytes [(- 2, bstr e)])" if "length e \<le> 8"
      using maker_entry [of "Some e" "length e" WOLFCOSE_KEY_LABEL_X] that by (simp add: bstr_def)
    show "out_frame c (snd (case encode_rsa_n K r c of (ret, c, e) \<Rightarrow>
       on_success (ret, c) (encode_bstr_entry WOLFCOSE_KEY_LABEL_X (Some e) (length e))))"
    proof (cases "ret = WOLFCOSE_SUCCESS")
      case True
      then have "length e \<le> 8" using n wolfkey_okD(7) [OF assms(1)] by blast
      then show ?thesis using True r out_frame_trans [OF conjunct1 [OF n] cbor_maker.keeps [OF e c1]] by simp
    qed (use n r in \<open>simp add: on_success_def\<close>)
    fix c' assume s: "(case encode_rsa_n K r c of (ret, c, e) \<Rightarrow>
       on_success (ret, c) (encode_bstr_entry WOLFCOSE_KEY_LABEL_X (Some e) (length e))) = (WOLFCOSE_SUCCESS, c')"
    then have o: "ret = WOLFCOSE_SUCCESS" "?e c1 = (WOLFCOSE_SUCCESS, c')" by (auto simp: on_success_def r split: if_splits)
    then obtain cap m where m: "kx_rsa_public K r cap = Some (e, m)" "m \<noteq> []" "length m \<le> 65535" "written c1 = written c @ long_bytes m"
      using n by blast
    have "written c' = written c1 @ pairs_bytes [(- 2, bstr e)]"
      using cbor_maker.makes [OF e c1 o(2)] wolfkey_okD(7) [OF assms(1) m(1)] by blast
    then show "\<exists>bs. (\<exists>cap e n. kx_rsa_public K r cap = Some (e, n) \<and> n \<noteq> [] \<and> length n \<le> 65535 \<and>
        bs = long_bytes n @ pairs_bytes [(- 2, bstr e)]) \<and> written c' = written c @ bs"
      using m by (intro exI [of _ "long_bytes m @ pairs_bytes [(- 2, bstr e)]"]) auto
  qed
  show ?thesis
  proof (rule maker_next [OF maker_int n], elim exE conjE)
    fix a x cap e m assume h: "a = cbor_int (sint WOLFCOSE_KEY_LABEL_CRV)" "kx_rsa_public K r cap = Some (e, m)" "m \<noteq> []" "length m \<le> 65535"
      "x = long_bytes m @ pairs_bytes [(- 2, bstr e)]"
    have "a @ x = pairs_bytes [(- 1, long_bytes m), (- 2, bstr e)]" by (simp add: h(1,5))
    then show "\<exists>es. rsa_material K k False es \<and> a @ x = pairs_bytes es"
      using rsa_public [OF assms(2) h(2,3,4)] by blast
  qed
qed


lemma maker_RsaMp:
  assumes "wolfkey_ok K" "keySz < 2 ^ 31"
  shows "entry_maker (wolfCose_EncodeRsaMp K r l a keySz) (\<lambda>es. \<exists>v. kx_rsa_int K r a keySz = Some v \<and> length v = keySz \<and> es = [(sint l, bstr v)])"
proof (cases "keySz = 0")
  case True
  then show ?thesis by (intro maker_fails) (simp add: wolfCose_EncodeRsaMp_def)
next
  case False
  let ?raw = "\<lambda>ctx. if sz_add (ctx_idx ctx) keySz > ctx_bufSz ctx then (WOLFCOSE_E_BUFFER_TOO_SMALL, ctx)
      else (case kx_rsa_int K r a keySz of None \<Rightarrow> (WOLFCOSE_E_CRYPTO, ctx) | Some bs \<Rightarrow>
        let ctx = put_bytes ctx bs
        in if length bs \<noteq> keySz then (WOLFCOSE_E_CRYPTO, ctx)
           else (WOLFCOSE_SUCCESS, ctx\<lparr>ctx_idx := ctx_idx ctx + keySz\<rparr>))"
  have raw: "cbor_maker ?raw (\<lambda>x. kx_rsa_int K r a keySz = Some x \<and> length x = keySz)"
  proof
    fix c assume c: "enc_ctx c" "ctx_bufSz c < 2 ^ 63"
    obtain p where p: "ctx_buf c = Some p" "ctx_bufSz c \<le> length p" "ctx_idx c \<le> ctx_bufSz c" using c(1) by (auto simp: enc_ctx_def)
    have sa: "sz_add (ctx_idx c) keySz = ctx_idx c + keySz" using c p(3) assms(2) by (intro sz_add_id) simp
    have spec: "out_frame c (snd (?raw c)) \<and> (\<forall>c'. ?raw c = (WOLFCOSE_SUCCESS, c') \<longrightarrow>
       (\<exists>v. kx_rsa_int K r a keySz = Some v \<and> length v = keySz \<and> written c' = written c @ v))"
    proof (cases "ctx_idx c + keySz > ctx_bufSz c \<or> kx_rsa_int K r a keySz = None")
      case True
      then show ?thesis using sa out_frame_refl [OF c(1)] by (auto split: option.split)
    next
      case no: False
      then obtain v where v: "kx_rsa_int K r a keySz = Some v" by auto
      have fit: "ctx_idx c + length v \<le> ctx_bufSz c" using wolfkey_okD(9) [OF assms(1) v] no by simp
      let ?p = "splice (ctx_idx c) v p"
      have lp: "ctx_idx c + length v \<le> length p" using fit p(2) by simp
      have put: "put_bytes c v = c\<lparr>ctx_buf := Some ?p, ctx_idx := ctx_idx c\<rparr>" using put_bytes_at [OF p(1) lp] by simp
      have b: "between (ctx_idx c) (ctx_bufSz c) p ?p" by (rule between_splice [OF between_refl]) (use fit p(2) in simp_all)
      have w: "take (ctx_idx c + length v) ?p = written c @ v" using lp p(1) by (simp add: written_def)
      note fr = reserved_frame [OF c(1) p(1) b fit w]
      show ?thesis
      proof (cases "length v = keySz")
        case True
        then have "?raw c = (WOLFCOSE_SUCCESS, c\<lparr>ctx_buf := Some ?p, ctx_idx := ctx_idx c + length v\<rparr>)"
          using v put no sa by simp
        then show ?thesis using fr v True by simp
      next
        case False
        then have "?raw c = (WOLFCOSE_E_CRYPTO, c\<lparr>ctx_buf := Some ?p, ctx_idx := ctx_idx c\<rparr>)"
          using v put no sa by simp
        then show ?thesis using between_frame [OF c(1) p(1) b, of "ctx_idx c"] p(3) by simp
      qed
    qed
    show "out_frame c (snd (?raw c))" by (rule conjunct1 [OF spec])
    fix c' assume "?raw c = (WOLFCOSE_SUCCESS, c')"
    then show "\<exists>bs. (kx_rsa_int K r a keySz = Some bs \<and> length bs = keySz) \<and> written c' = written c @ bs"
      using conjunct2 [OF spec] by blast
  qed
  have hd: "cbor_maker (\<lambda>c. wolfCose_CBOR_EncodeHead c WOLFCOSE_CBOR_BSTR (of_nat keySz)) (\<lambda>x. x = cbor_head 2 keySz)"
    using cbor_writer.is_maker [OF writer_head [of WOLFCOSE_CBOR_BSTR "of_nat keySz"]] assms(2)
    by (simp add: unat_of_nat WOLFCOSE_CBOR_BSTR_def)
  have "cbor_maker (\<lambda>c. on_success (wc_CBOR_EncodeInt c l) (\<lambda>c. on_success (wolfCose_CBOR_EncodeHead c WOLFCOSE_CBOR_BSTR (of_nat keySz)) ?raw))
     (\<lambda>x. \<exists>es. (\<exists>v. kx_rsa_int K r a keySz = Some v \<and> length v = keySz \<and> es = [(sint l, bstr v)]) \<and> x = pairs_bytes es)"
    by (rule maker_next [OF maker_int maker_next [OF hd raw, where R = "\<lambda>x. \<exists>v. kx_rsa_int K r a keySz = Some v \<and> length v = keySz \<and> x = bstr v"]])
      (auto simp: bstr_def str_bytes_def)
  then show ?thesis by (simp only: wolfCose_EncodeRsaMp_def [abs_def] False if_False on_success_simps Let_def on_success_assoc)
qed


lemma put_at_buf:
  "off + length bs \<le> length p \<Longrightarrow>
     put_at off bs (c\<lparr>ctx_buf := Some p, ctx_idx := j\<rparr>) = c\<lparr>ctx_buf := Some (splice off bs p), ctx_idx := j\<rparr>"
  by (rule put_at_simps(1))

lemma rsa_d_spec:
  assumes K: "wolfkey_ok K" "rsa_size r < 2 ^ 31" and c: "enc_ctx c" "ctx_bufSz c < 2 ^ 63" and r: "encode_rsa_d K r c = (ret, c')"
  shows "out_frame c c' \<and> (ret = WOLFCOSE_SUCCESS \<longrightarrow> (\<exists>e n d p q. kx_rsa_export K r = Some (e, n, d, p, q) \<and> d \<noteq> [] \<and>
     length d \<le> 65535 \<and> 0 < rsa_size r \<and> written c' = written c @ long_bytes (replicate (nat (rsa_size r) - length d) 0 @ d)))"
proof -
  obtain p0 where p0: "ctx_buf c = Some p0" "ctx_bufSz c \<le> length p0" "ctx_idx c \<le> ctx_bufSz c" using c(1) by (auto simp: enc_ctx_def)
  let ?i = "ctx_idx c" and ?z = "ctx_bufSz c" and ?N = "nat (rsa_size r)"
  have N: "?N < 2 ^ 31" using K(2) by simp
  have a: "sz_add ?i 3 = ?i + 3" "sz_add (?i + 3) ?N = ?i + 3 + ?N" "sz_add (?i + 3 + ?N) 8 = ?i + 3 + ?N + 8"
    "sz_add (?i + 3 + ?N + 8) ?N = ?i + 3 + ?N + 8 + ?N" "sz_add (?i + 3 + ?N + 8 + ?N) ?N = ?i + 3 + ?N + 8 + ?N + ?N"
    using c p0(3) N by (auto intro!: sz_add_id)
  show ?thesis
  proof (cases "?i + 3 > ?z \<or> rsa_size r \<le> 0")
    case True
    then show ?thesis using r a out_frame_refl [OF c(1)] by (auto simp: encode_rsa_d_def split: if_splits)
  next
    case g1: False
    define s where "s = ?i + 3 + ?N"
    define needed where "needed = s + 8 + ?N + ?N"
    have same: "c\<lparr>ctx_idx := j\<rparr> = c\<lparr>ctx_buf := Some p0, ctx_idx := j\<rparr>" for j using p0(1) by simp
    show ?thesis
    proof (cases "needed > ?z")
      case True
      then have "ret = WOLFCOSE_E_BUFFER_TOO_SMALL \<and> c' = c\<lparr>ctx_buf := Some p0, ctx_idx := ?i + 3\<rparr>"
        using r a g1 same by (simp add: encode_rsa_d_def Let_def needed_def s_def)
      then show ?thesis using between_frame [OF c(1) p0(1) between_refl, of "?i + 3"] g1 by simp
    next
      case g2: False
      have lp: "needed \<le> length p0" using g2 p0(2) by simp
      let ?zero = "replicate (needed - s) (0 :: u8)"
      have z: "s + length ?zero = needed" by (simp add: needed_def)
      show ?thesis
      proof (cases "kx_rsa_export K r")
        case None
        then have "ret = WOLFCOSE_E_CRYPTO \<and> c' = put_at s ?zero (c\<lparr>ctx_buf := Some p0, ctx_idx := ?i + 3\<rparr>)"
          using r a g1 g2 same by (simp add: encode_rsa_d_def Let_def needed_def s_def)
        moreover have "put_at s ?zero (c\<lparr>ctx_buf := Some p0, ctx_idx := ?i + 3\<rparr>) = c\<lparr>ctx_buf := Some (splice s ?zero p0), ctx_idx := ?i + 3\<rparr>"
          by (rule put_at_buf) (simp only: z lp)
        moreover have "between ?i ?z p0 (splice s ?zero p0)"
          by (rule between_splice [OF between_refl]) (use z g2 p0(2) in \<open>simp_all add: s_def\<close>)
        ultimately show ?thesis using between_frame [OF c(1) p0(1), of _ "?i + 3"] g1 by simp
      next
        case (Some t)
        then obtain e n d p q where x: "kx_rsa_export K r = Some (e, n, d, p, q)" by (cases t) auto
        have l: "length e \<le> 8" "length n \<le> ?N" "length d \<le> ?N" "length p \<le> ?N div 2" "length q \<le> ?N div 2"
          using wolfkey_okD(8) [OF K(1) x] g1 by (auto simp: nat_div_distrib)
        let ?h = "?N div 2"
        have hh: "?h + ?h \<le> ?N" by simp
        define p1 where "p1 = splice (?i + 3) d p0"
        define p2 where "p2 = splice s e p1"
        define p3 where "p3 = splice (s + 8) n p2"
        define p4 where "p4 = splice (s + 8 + ?N) p p3"
        define p5 where "p5 = splice (s + 8 + ?N + ?h) q p4"
        have zn: "needed \<le> ?z" "?i \<le> s" "s = ?i + 3 + ?N" using g2 by (simp_all add: s_def)
        have fits: "?i + 3 + length d \<le> needed" "s + length e \<le> needed" "s + 8 + length n \<le> needed" "s + 8 + ?N + length p \<le> needed"
            "s + 8 + ?N + ?h + length q \<le> needed" using l hh by (simp_all add: needed_def s_def)
        have l1: "length p1 = length p0" unfolding p1_def by (rule length_splice) (use fits(1) lp in simp)
        have l2: "length p2 = length p0" unfolding p2_def l1 [symmetric] by (rule length_splice) (use fits(2) lp l1 in simp)
        have l3: "length p3 = length p0" unfolding p3_def l2 [symmetric] by (rule length_splice) (use fits(3) lp l2 in simp)
        have l4: "length p4 = length p0" unfolding p4_def l3 [symmetric] by (rule length_splice) (use fits(4) lp l3 in simp)
        have l5: "length p5 = length p0" unfolding p5_def l4 [symmetric] by (rule length_splice) (use fits(5) lp l4 in simp)
        note steps = put_at_buf [of "?i + 3" d p0, folded p1_def] put_at_buf [of s e p1, folded p2_def] put_at_buf [of "s + 8" n p2, folded p3_def]
          put_at_buf [of "s + 8 + ?N" p p3, folded p4_def] put_at_buf [of "s + 8 + ?N + ?h" q p4, folded p5_def]
        have g5: "?i + 3 + length d \<le> length p0" "s + length e \<le> length p1" "s + 8 + length n \<le> length p2" "s + 8 + ?N + length p \<le> length p3"
            "s + 8 + ?N + ?h + length q \<le> length p4"
          unfolding l1 l2 l3 l4 by (rule order.trans [OF fits(1) lp], rule order.trans [OF fits(2) lp], rule order.trans [OF fits(3) lp],
            rule order.trans [OF fits(4) lp], rule order.trans [OF fits(5) lp])
        have puts: "put_at (s + 8 + ?N + ?h) q (put_at (s + 8 + ?N) p (put_at (s + 8) n (put_at s e (put_at (?i + 3) d
            (c\<lparr>ctx_buf := Some p0, ctx_idx := ?i + 3\<rparr>))))) = c\<lparr>ctx_buf := Some p5, ctx_idx := ?i + 3\<rparr>"
          by (simp only: steps(1) [OF g5(1)] steps(2) [OF g5(2)] steps(3) [OF g5(3)] steps(4) [OF g5(4)] steps(5) [OF g5(5)])
        have b5: "between ?i ?z p0 p5"
        proof -
          have b: "between ?i ?z p0 x \<Longrightarrow> ?i \<le> off \<Longrightarrow> off + length y \<le> needed \<Longrightarrow> between ?i ?z p0 (splice off y x)" for off x y
            by (rule between_splice) (use zn(1) p0(2) in simp_all)
          have "between ?i ?z p0 p1" unfolding p1_def by (rule b [OF between_refl _ fits(1)]) simp
          then have "between ?i ?z p0 p2" unfolding p2_def by (rule b [OF _ zn(2) fits(2)])
          then have "between ?i ?z p0 p3" unfolding p3_def by (rule b [OF _ _ fits(3)]) (use zn(2) in simp)
          then have "between ?i ?z p0 p4" unfolding p4_def by (rule b [OF _ _ fits(4)]) (use zn(2) in simp)
          then show ?thesis unfolding p5_def by (rule b [OF _ _ fits(5)]) (use zn(2) in simp)
        qed
        have d5: "take (?i + 3 + length d) p5 = take (?i + 3) p5 @ d"
        proof -
          have t: "take j p5 = take j p1" if j: "j \<le> s" for j
          proof -
            have le: "s \<le> length p1" "s + 8 \<le> length p2" "s + 8 + ?N \<le> length p3" "s + 8 + ?N + ?h \<le> length p4"
              using g5 by simp_all
            have "take j p5 = take j p4" unfolding p5_def by (rule take_splice_before) (use j le(4) in simp_all)
            also have "\<dots> = take j p3" unfolding p4_def by (rule take_splice_before) (use j le(3) in simp_all)
            also have "\<dots> = take j p2" unfolding p3_def by (rule take_splice_before) (use j le(2) in simp_all)
            also have "\<dots> = take j p1" unfolding p2_def by (rule take_splice_before) (use j le(1) in simp_all)
            finally show ?thesis .
          qed
          have e1: "take (?i + 3 + length d) p5 = take (?i + 3 + length d) p1" by (rule t) (use l(3) zn(3) in simp)
          have e2: "take (?i + 3) p5 = take (?i + 3) p1" by (rule t) (use zn(3) in simp)
          have "take (?i + 3 + length d) p1 = take (?i + 3) p1 @ d" unfolding p1_def by (rule take_splice_at [OF g5(1)])
          then show ?thesis by (simp only: e1 e2)
        qed
        let ?X = "put_at (s + 8 + ?N + ?h) q (put_at (s + 8 + ?N) p (put_at (s + 8) n (put_at s e (put_at (?i + 3) d (c\<lparr>ctx_idx := ?i + 3\<rparr>)))))"
          and ?d = "if length d < ?N then replicate (?N - length d) 0 @ d else d"
        have u: "encode_rsa_d K r c = (if length d = 0 \<or> length d > 65535 then (WOLFCOSE_E_BUFFER_TOO_SMALL, put_at s ?zero ?X)
           else (WOLFCOSE_SUCCESS, put_at s ?zero (wolfCose_FinalizeRsaBstr (if length d < ?N then put_at (?i + 3) ?d ?X else ?X) ?i (length ?d))))"
        proof -
          have g: "sz_add ?i 3 \<le> ?z" "sz_add (?i + 3) ?N = s" "sz_add (sz_add (sz_add s 8) ?N) ?N = needed"
            using g1 a by (simp_all add: s_def needed_def)
          have n1: "\<not> sz_add ?i 3 > ?z" "\<not> rsa_size r \<le> 0" "\<not> needed > ctx_bufSz (c\<lparr>ctx_idx := ?i + 3\<rparr>)" using g g1 g2 by simp_all
          show ?thesis
            unfolding encode_rsa_d_def Let_def g(2,3) if_not_P [OF n1(1)] if_not_P [OF n1(2)] if_not_P [OF n1(3)] x
            by (simp only: option.case prod.case)
        qed
        show ?thesis
        proof (cases "length d = 0 \<or> length d > 65535")
          case True
          have "ret = WOLFCOSE_E_BUFFER_TOO_SMALL \<and> c' = put_at s ?zero (c\<lparr>ctx_buf := Some p5, ctx_idx := ?i + 3\<rparr>)"
            using u [unfolded if_P [OF True] same puts] r by simp
          moreover have "put_at s ?zero (c\<lparr>ctx_buf := Some p5, ctx_idx := ?i + 3\<rparr>) = c\<lparr>ctx_buf := Some (splice s ?zero p5), ctx_idx := ?i + 3\<rparr>"
            by (rule put_at_buf) (simp only: z lp l5)
          moreover have "between ?i ?z p0 (splice s ?zero p5)"
            by (rule between_splice [OF b5]) (use z zn p0(2) in simp_all)
          ultimately show ?thesis using between_frame [OF c(1) p0(1), of _ "?i + 3"] g1 by simp
        next
          case ok: False
          define d' where "d' = replicate (?N - length d) 0 @ d"
          define p6 where "p6 = (if length d < ?N then splice (?i + 3) d' p5 else p5)"
          have ld: "length d' = ?N" using l(3) by (simp add: d'_def)
          have b6: "between ?i ?z p0 p6" unfolding p6_def
            by (auto intro!: between_splice b5) (use fits zn p0(2) ld in \<open>simp_all add: needed_def\<close>)
          have l6: "?i + 3 + length d' \<le> length p5" using ld lp l5 by (simp add: needed_def zn(3))
          have d6: "take (?i + 3 + length d') p6 = take (?i + 3) p6 @ d'"
            using take_splice_at [OF l6] d5 l(3) by (auto simp: p6_def d'_def)
          have step: "(if length d < ?N then put_at (?i + 3) d' (c\<lparr>ctx_buf := Some p5, ctx_idx := ?i + 3\<rparr>)
              else c\<lparr>ctx_buf := Some p5, ctx_idx := ?i + 3\<rparr>) = c\<lparr>ctx_buf := Some p6, ctx_idx := ?i + 3\<rparr>"
            using put_at_buf [OF l6] by (simp add: p6_def)
          have f6: "?i + 3 + length d' \<le> ?z" using zn ld by (simp add: needed_def)
          obtain p7 where p7: "wolfCose_FinalizeRsaBstr (c\<lparr>ctx_buf := Some p6, ctx_idx := ?i + 3\<rparr>) ?i (length d') =
              c\<lparr>ctx_buf := Some p7, ctx_idx := ?i + length (long_bytes d')\<rparr>" "between ?i ?z p0 p7"
              "take (?i + length (long_bytes d')) p7 = written c @ long_bytes d'"
            by (rule reserved_written [OF c(1) p0(1) b6 d6 f6])
          have l7: "length p7 = length p0" using p7(2) by (simp add: between_def)
          have "?i + length (long_bytes d') \<le> s" using length_long_bytes(2) [of d'] ld by (simp add: zn(3))
          then have t8: "take (?i + length (long_bytes d')) (splice s ?zero p7) = written c @ long_bytes d'"
            using p7(3) l7 lp by (subst take_splice_before) (simp_all add: needed_def)
          have b8: "between ?i ?z p0 (splice s ?zero p7)"
            by (rule between_splice [OF p7(2)]) (use z zn p0(2) in simp_all)
          have fit: "?i + length (long_bytes d') \<le> ?z" using f6 length_long_bytes(2) [of d'] by simp
          note fr = reserved_frame [OF c(1) p0(1) b8 fit t8]
          have put8: "put_at s ?zero (c\<lparr>ctx_buf := Some p7, ctx_idx := ?i + length (long_bytes d')\<rparr>) =
              c\<lparr>ctx_buf := Some (splice s ?zero p7), ctx_idx := ?i + length (long_bytes d')\<rparr>"
            by (rule put_at_buf) (simp only: z lp l7)
          have "encode_rsa_d K r c = (WOLFCOSE_SUCCESS, c\<lparr>ctx_buf := Some (splice s ?zero p7), ctx_idx := ?i + length (long_bytes d')\<rparr>)"
          proof -
            have dd: "(if length d < ?N then replicate (?N - length d) 0 @ d else d) = d'" using l(3) by (simp add: d'_def)
            show ?thesis using u [unfolded if_not_P [OF ok] dd same puts step p7(1) put8] .
          qed
          then have eq: "ret = WOLFCOSE_SUCCESS" "c' = c\<lparr>ctx_buf := Some (splice s ?zero p7), ctx_idx := ?i + length (long_bytes d')\<rparr>"
            unfolding r by (simp_all only: prod.inject)
          have "out_frame c c'" "written c' = written c @ long_bytes (replicate (?N - length d) 0 @ d)"
            using fr unfolding eq(2) d'_def .
          moreover have "d \<noteq> []" "length d \<le> 65535" "0 < rsa_size r" using ok g1 by auto
          ultimately show ?thesis using x by blast
        qed
      qed
    qed
  qed
qed


lemma maker_rsa_d:
  assumes "wolfkey_ok K" "rsa_size r < 2 ^ 31"
  shows "entry_maker (\<lambda>c. on_success (wc_CBOR_EncodeInt c WOLFCOSE_KEY_LABEL_Y) (encode_rsa_d K r))
    (\<lambda>es. \<exists>v. rsa_d_value K r v \<and> es = [(- 3, v)])"
proof -
  have d: "cbor_maker (encode_rsa_d K r) (rsa_d_value K r)"
  proof
    fix c assume c: "enc_ctx c" "ctx_bufSz c < 2 ^ 63"
    note s = rsa_d_spec [OF assms c]
    show "out_frame c (snd (encode_rsa_d K r c))" using s by (cases "encode_rsa_d K r c") simp
    fix c' assume "encode_rsa_d K r c = (WOLFCOSE_SUCCESS, c')"
    from s [OF this] show "\<exists>bs. rsa_d_value K r bs \<and> written c' = written c @ bs" unfolding rsa_d_value_def by auto
  qed
  show ?thesis
  proof (rule maker_next [OF maker_int d])
    fix a v assume "a = cbor_int (sint WOLFCOSE_KEY_LABEL_Y)" "rsa_d_value K r v"
    then show "\<exists>es. (\<exists>v. rsa_d_value K r v \<and> es = [(- 3, v)]) \<and> a @ v = pairs_bytes es"
      by (intro exI [of _ "[(- 3, v)]"]) auto
  qed
qed

lemma encode_rsa_private_eq:
  "0 < rsa_size r \<Longrightarrow> encode_rsa_private K r = (\<lambda>c. on_success (on_success (wc_CBOR_EncodeInt c WOLFCOSE_KEY_LABEL_Y) (encode_rsa_d K r))
     (\<lambda>c. on_success (wolfCose_EncodeRsaMp K r WOLFCOSE_KEY_LABEL_RSA_P RSA_P ((nat (rsa_size r) + 1) div 2) c)
     (\<lambda>c. on_success (wolfCose_EncodeRsaMp K r WOLFCOSE_KEY_LABEL_RSA_Q RSA_Q ((nat (rsa_size r) + 1) div 2) c)
     (\<lambda>c. on_success (wolfCose_EncodeRsaMp K r WOLFCOSE_KEY_LABEL_RSA_DP RSA_DP ((nat (rsa_size r) + 1) div 2) c)
     (\<lambda>c. on_success (wolfCose_EncodeRsaMp K r WOLFCOSE_KEY_LABEL_RSA_DQ RSA_DQ ((nat (rsa_size r) + 1) div 2) c)
       (wolfCose_EncodeRsaMp K r WOLFCOSE_KEY_LABEL_RSA_QINV RSA_QINV ((nat (rsa_size r) + 1) div 2)))))))"
  by (simp only: encode_rsa_private_def [abs_def] Let_def on_success_assoc not_le [symmetric] if_False)

lemma entry_maker_cons:
  "entry_maker f (\<lambda>es. \<exists>v. V v \<and> es = [(l, v)]) \<Longrightarrow> entry_maker g R \<Longrightarrow>
     entry_maker (\<lambda>c. on_success (f c) g) (\<lambda>es. \<exists>v es'. V v \<and> R es' \<and> es = (l, v) # es')"
  by (erule entry_maker_next, assumption) auto

lemma maker_rsa_private:
  assumes "wolfkey_ok K" "rsa_size r < 2 ^ 31" "key_rsa k = Some r"
  shows "entry_maker (encode_rsa_private K r) (\<lambda>es. \<forall>es0. rsa_material K k False es0 \<longrightarrow> rsa_material K k True (es0 @ es))"
proof (cases "0 < rsa_size r")
  case False
  then have "encode_rsa_private K r = (\<lambda>c. on_success (on_success (wc_CBOR_EncodeInt c WOLFCOSE_KEY_LABEL_Y) (encode_rsa_d K r))
      (\<lambda>c. (WOLFCOSE_E_CRYPTO, c)))"
    by (simp add: encode_rsa_private_def [abs_def])
  then show ?thesis using False
    by (simp only:) (rule maker_next [OF maker_rsa_d [OF assms(1,2)] maker_error]; auto simp: rsa_d_value_def)
next
  case True
  have mp: "entry_maker (wolfCose_EncodeRsaMp K r l a ((nat (rsa_size r) + 1) div 2)) (\<lambda>es. \<exists>v. rsa_part_value K r a v \<and> es = [(i, v)])" if "sint l = i" for l a i
    by (rule maker_weaken [OF maker_RsaMp [OF assms(1)]]) (use assms(2) that in \<open>auto simp: rsa_part_value_def\<close>)
  have labels: "sint WOLFCOSE_KEY_LABEL_RSA_P = - 4" "sint WOLFCOSE_KEY_LABEL_RSA_Q = - 5" "sint WOLFCOSE_KEY_LABEL_RSA_DP = - 6"
    "sint WOLFCOSE_KEY_LABEL_RSA_DQ = - 7" "sint WOLFCOSE_KEY_LABEL_RSA_QINV = - 8" by simp_all
  have "entry_maker (encode_rsa_private K r) (\<lambda>es. \<exists>v es1. rsa_d_value K r v \<and> (\<exists>v es2. rsa_part_value K r RSA_P v \<and> (\<exists>v es3.
      rsa_part_value K r RSA_Q v \<and> (\<exists>v es4. rsa_part_value K r RSA_DP v \<and> (\<exists>v es5. rsa_part_value K r RSA_DQ v \<and>
      (\<exists>v. rsa_part_value K r RSA_QINV v \<and> es5 = [(- 8, v)]) \<and> es4 = (- 7, v) # es5) \<and> es3 = (- 6, v) # es4) \<and>
      es2 = (- 5, v) # es3) \<and> es1 = (- 4, v) # es2) \<and> es = (- 3, v) # es1)"
    unfolding encode_rsa_private_eq [OF True]
    by (intro entry_maker_cons maker_rsa_d [OF assms(1,2)] mp labels)
  then show ?thesis
  proof (rule maker_weaken, elim exE conjE)
    fix x es v es1 v1 es2 v2 es3 v3 es4 v4 es5 v5
    assume h: "rsa_d_value K r v" "rsa_part_value K r RSA_P v1" "rsa_part_value K r RSA_Q v2" "rsa_part_value K r RSA_DP v3"
      "rsa_part_value K r RSA_DQ v4" "rsa_part_value K r RSA_QINV v5" and x: "x = pairs_bytes es" and
      e: "es5 = [(- 8, v5)]" "es4 = (- 7, v4) # es5" "es3 = (- 6, v3) # es4" "es2 = (- 5, v2) # es3"
      "es1 = (- 4, v1) # es2" "es = (- 3, v) # es1"
    have "rsa_material K k True (es0 @ es)" if "rsa_material K k False es0" for es0
      unfolding e by (rule rsa_private [OF that assms(3) h])
    then show "\<exists>es. (\<forall>es0. rsa_material K k False es0 \<longrightarrow> rsa_material K k True (es0 @ es)) \<and> x = pairs_bytes es" using x by blast
  qed
qed


lemma rsa_material_length: "rsa_material K k priv es \<Longrightarrow> length es = (if priv then 8 else 2)"
  by (induction rule: rsa_material.induct) simp_all

lemma maker_rsa:
  assumes "wolfkey_ok K" "readable (key_kid k) (key_kidLen k)" "\<And>r. key_rsa k = Some r \<Longrightarrow> rsa_size r < 2 ^ 31"
  shows "cbor_maker (encode_rsa b K k flags) (\<lambda>x. \<exists>es. (\<exists>r. key_rsa k = Some r \<and>
     rsa_material K k (rsa_emits_private b k r flags) es) \<and> x = key_map_bytes k es)"
proof (cases "key_rsa k")
  case None
  then show ?thesis by (intro maker_fails) (simp add: encode_rsa_def)
next
  case (Some r)
  let ?pub = "\<lambda>c. on_success (wc_CBOR_EncodeInt c WOLFCOSE_KEY_LABEL_CRV) (\<lambda>c. case encode_rsa_n K r c of (ret, c, e) \<Rightarrow>
     on_success (ret, c) (encode_bstr_entry WOLFCOSE_KEY_LABEL_X (Some e) (length e)))"
  have pub: "entry_maker ?pub (rsa_material K k False)" by (rule maker_rsa_n [OF assms(1) Some])
  show ?thesis
  proof (cases "rsa_emits_private b k r flags")
    case False
    have eq: "encode_rsa b K k flags = (\<lambda>c. on_success (encode_common k 3 c) (\<lambda>c. on_success (?pub c) (\<lambda>c. (WOLFCOSE_SUCCESS, c))))"
      using False by (simp add: encode_rsa_def [abs_def] Some on_success_assoc Let_def)
    have "entry_maker (\<lambda>c. on_success (?pub c) (\<lambda>c. (WOLFCOSE_SUCCESS, c))) (rsa_material K k False)"
      by (rule entry_maker_next [OF pub entry_maker_nothing]) simp
    then have "cbor_maker (encode_rsa b K k flags) (\<lambda>x. \<exists>es. rsa_material K k False es \<and> x = key_map_bytes k es)"
      unfolding eq by (rule maker_map_n [OF assms(2)]) (auto dest: rsa_material_length)
    then show ?thesis using Some False by simp
  next
    case True
    have eq: "encode_rsa b K k flags = (\<lambda>c. on_success (encode_common k 9 c) (\<lambda>c. on_success (?pub c) (encode_rsa_private K r)))"
      using True by (simp add: encode_rsa_def [abs_def] Some on_success_assoc Let_def)
    have "entry_maker (\<lambda>c. on_success (?pub c) (encode_rsa_private K r)) (rsa_material K k True)"
      by (rule entry_maker_next [OF pub maker_rsa_private [OF assms(1) assms(3) [OF Some] Some]]) blast
    then have "cbor_maker (encode_rsa b K k flags) (\<lambda>x. \<exists>es. rsa_material K k True es \<and> x = key_map_bytes k es)"
      unfolding eq by (rule maker_map_n [OF assms(2)]) (auto dest: rsa_material_length)
    then show ?thesis using Some True by simp
  qed
qed

lemma mldsa_pub_spec:
  assumes K: "wolfkey_ok K" and c: "enc_ctx c" "ctx_bufSz c < 2 ^ 63" and r: "encode_mldsa_pub K m c = (ret, c')"
  shows "out_frame c c' \<and> (ret = WOLFCOSE_SUCCESS \<longrightarrow> (\<exists>cap pub. kx_mldsa_public K m cap = Some pub \<and> 256 \<le> length pub \<and>
     length pub \<le> 65535 \<and> written c' = written c @ bstr pub))"
proof -
  obtain p where p: "ctx_buf c = Some p" "ctx_bufSz c \<le> length p" "ctx_idx c \<le> ctx_bufSz c" using c(1) by (auto simp: enc_ctx_def)
  let ?i = "ctx_idx c" and ?cap = "w32 (sz_sub (ctx_bufSz c) (ctx_idx c + 3))"
  have a: "sz_add ?i 3 = ?i + 3" using c p(3) by (intro sz_add_id) simp
  show ?thesis
  proof (cases "?i + 3 > ctx_bufSz c")
    case True
    then show ?thesis using r a out_frame_refl [OF c(1)] by (auto simp: encode_mldsa_pub_def)
  next
    case False
    have same: "c\<lparr>ctx_buf := Some p, ctx_idx := j\<rparr> = c\<lparr>ctx_idx := j\<rparr>" for j using p(1) by simp
    show ?thesis
    proof (cases "kx_mldsa_public K m ?cap")
      case None
      then have "ret = WOLFCOSE_E_CRYPTO" "c' = c\<lparr>ctx_idx := ?i + 3\<rparr>" using r a False by (simp_all add: encode_mldsa_pub_def Let_def)
      then show ?thesis using between_frame [OF c(1) p(1) between_refl, of "?i + 3"] False same by simp
    next
      case (Some pub)
      have "length pub \<le> ?cap" using wolfkey_okD(10) [OF K Some] .
      moreover have "?cap \<le> ctx_bufSz c - (?i + 3)"
      proof -
        have "sz_sub (ctx_bufSz c) (?i + 3) = ctx_bufSz c - (?i + 3)" using False c(2) by (intro sz_sub_id) simp_all
        then show ?thesis by (simp only: w32_le)
      qed
      ultimately have fit: "?i + 3 + length pub \<le> ctx_bufSz c" using False by simp
      then have lp: "?i + 3 + length pub \<le> length p" using p(2) by simp
      define p1 where "p1 = splice (?i + 3) pub p"
      have l1: "length p1 = length p" unfolding p1_def by (rule length_splice [OF lp])
      have put: "put_bytes (c\<lparr>ctx_idx := ?i + 3\<rparr>) pub = c\<lparr>ctx_buf := Some p1, ctx_idx := ?i + 3\<rparr>"
        unfolding p1_def by (rule put_bytes_at [OF p(1) lp])
      have b1: "between ?i (ctx_bufSz c) p p1" unfolding p1_def by (rule between_splice [OF between_refl]) (use fit p(2) in simp_all)
      show ?thesis
      proof (cases "length pub < 256 \<or> length pub > 65535")
        case True
        then have "ret = WOLFCOSE_E_BUFFER_TOO_SMALL" "c' = c\<lparr>ctx_buf := Some p1, ctx_idx := ?i + 3\<rparr>"
          using r a False Some put by (simp_all add: encode_mldsa_pub_def Let_def)
        then show ?thesis using between_frame [OF c(1) p(1) b1, of "?i + 3"] fit by simp
      next
        case ok: False
        let ?hdr = "[0x59, of_nat (length pub div 256), of_nat (length pub)] :: u8 list"
        define p2 where "p2 = splice ?i ?hdr p1"
        have bs: "bstr pub = ?hdr @ pub" using ok long_bytes_shortest [of pub] by (simp add: bstr_def long_bytes_def)
        have b2: "between ?i (ctx_bufSz c) p p2" unfolding p2_def by (rule between_splice [OF b1]) (use fit p(2) in simp_all)
        have t2: "take (?i + length (bstr pub)) p2 = written c @ bstr pub"
          using lp p(1) unfolding p2_def p1_def bs by (simp add: splice_def written_def numeral_3_eq_3)
        have lb: "length (bstr pub) = 3 + length pub" by (simp add: bs)
        then have "?i + length (bstr pub) \<le> ctx_bufSz c" using fit by simp
        note fr = reserved_frame [OF c(1) p(1) b2 this t2]
        have pa: "put_at ?i ?hdr (c\<lparr>ctx_buf := Some p1, ctx_idx := ?i + 3\<rparr>) = c\<lparr>ctx_buf := Some p2, ctx_idx := ?i + 3\<rparr>"
          unfolding p2_def by (rule put_at_buf) (use lp l1 in simp)
        have "ret = WOLFCOSE_SUCCESS" "c' = c\<lparr>ctx_buf := Some p2, ctx_idx := ?i + length (bstr pub)\<rparr>"
          using r a False Some put ok pa by (simp_all add: encode_mldsa_pub_def Let_def lb add.assoc)
        moreover have "256 \<le> length pub" "length pub \<le> 65535" using ok by auto
        ultimately show ?thesis using fr Some by blast
      qed
    qed
  qed
qed


inductive akp_material :: "wolfkey \<Rightarrow> cose_key \<Rightarrow> bool \<Rightarrow> (int \<times> u8 list) list \<Rightarrow> bool" for K k where
  akp_public: "key_mldsa k = Some m \<Longrightarrow> key_alg k \<noteq> WOLFCOSE_ALG_UNSET \<Longrightarrow> kx_mldsa_public K m cap = Some pub \<Longrightarrow>
     256 \<le> length pub \<Longrightarrow> length pub \<le> 65535 \<Longrightarrow> akp_material K k False [(- 1, bstr pub)]"
| akp_private: "akp_material K k False es \<Longrightarrow> key_mldsaSeed k = Some seed \<Longrightarrow> key_mldsaSeedLen k = WOLFCOSE_MLDSA_SEED_SZ \<Longrightarrow>
     akp_material K k True (es @ [(- 2, bstr (take 32 seed))])"

lemma akp_material_length: "akp_material K k priv es \<Longrightarrow> length es = (if priv then 2 else 1)"
  by (induction rule: akp_material.induct) simp_all

lemma maker_akp:
  assumes "wolfkey_ok K" "key_readable k"
  shows "cbor_maker (encode_akp b K k flags)
     (\<lambda>x. \<exists>es. akp_material K k (akp_emits_private b k flags) es \<and> x = key_map_bytes k es)"
proof (cases "key_mldsa k")
  case None
  then show ?thesis by (intro maker_fails) (simp add: encode_akp_def)
next
  case (Some m)
  have rd: "readable (key_kid k) (key_kidLen k)" "readable (key_mldsaSeed k) (key_mldsaSeedLen k)"
    using assms(2) by (simp_all add: key_readable_def)
  show ?thesis
  proof (cases "key_alg k = WOLFCOSE_ALG_UNSET")
    case True
    then show ?thesis using Some by (intro maker_fails) (simp add: encode_akp_def)
  next
    case False
    let ?pub = "\<lambda>c. on_success (wc_CBOR_EncodeInt c WOLFCOSE_KEY_LABEL_PUB) (encode_mldsa_pub K m)"
    have raw: "cbor_maker (encode_mldsa_pub K m) (\<lambda>x. \<exists>cap pub. kx_mldsa_public K m cap = Some pub \<and> 256 \<le> length pub \<and>
        length pub \<le> 65535 \<and> x = bstr pub)"
    proof
      fix c assume c: "enc_ctx c" "ctx_bufSz c < 2 ^ 63"
      note sp = mldsa_pub_spec [OF assms(1) c]
      show "out_frame c (snd (encode_mldsa_pub K m c))" using sp by (cases "encode_mldsa_pub K m c") simp
      fix c' assume "encode_mldsa_pub K m c = (WOLFCOSE_SUCCESS, c')"
      from sp [OF this] show "\<exists>bs. (\<exists>cap pub. kx_mldsa_public K m cap = Some pub \<and> 256 \<le> length pub \<and> length pub \<le> 65535 \<and> bs = bstr pub) \<and>
        written c' = written c @ bs" by blast
    qed
    have pub: "entry_maker ?pub (akp_material K k False)"
    proof (rule maker_next [OF maker_int raw], elim exE conjE)
      fix a x cap pub assume h: "a = cbor_int (sint WOLFCOSE_KEY_LABEL_PUB)" "kx_mldsa_public K m cap = Some pub" "256 \<le> length pub"
        "length pub \<le> 65535" "x = bstr pub"
      have "a @ x = pairs_bytes [(- 1, bstr pub)]" by (simp add: h(1,5))
      then show "\<exists>es. akp_material K k False es \<and> a @ x = pairs_bytes es" using akp_public [OF Some False h(2-4)] by blast
    qed
    show ?thesis
    proof (cases "akp_emits_private b k flags")
      case no: False
      have eq: "encode_akp b K k flags = (\<lambda>c. on_success (encode_common k 2 c) (\<lambda>c. on_success (?pub c) (\<lambda>c. (WOLFCOSE_SUCCESS, c))))"
        using no False by (simp add: encode_akp_def [abs_def] Some on_success_assoc Let_def)
      have "entry_maker (\<lambda>c. on_success (?pub c) (\<lambda>c. (WOLFCOSE_SUCCESS, c))) (akp_material K k False)"
        by (rule entry_maker_next [OF pub entry_maker_nothing]) simp
      then have "cbor_maker (encode_akp b K k flags) (\<lambda>x. \<exists>es. akp_material K k False es \<and> x = key_map_bytes k es)"
        unfolding eq by (rule maker_map_n [OF rd(1)]) (auto dest: akp_material_length)
      then show ?thesis using no by simp
    next
      case True
      let ?priv = "encode_bstr_entry WOLFCOSE_KEY_LABEL_PRIV (key_mldsaSeed k) (key_mldsaSeedLen k)"
      obtain seed where seed: "key_mldsaSeed k = Some seed" "key_mldsaSeedLen k = WOLFCOSE_MLDSA_SEED_SZ"
        using True by (auto simp: akp_emits_private_def)
      have eq: "encode_akp b K k flags = (\<lambda>c. on_success (encode_common k 3 c) (\<lambda>c. on_success (?pub c) ?priv))"
        using True False by (simp add: encode_akp_def [abs_def] Some on_success_assoc Let_def)
      have priv: "entry_maker ?priv (\<lambda>es. es = [(- 2, bstr (take 32 seed))])"
        by (rule entry_maker_one) (use maker_entry [OF rd(2), of WOLFCOSE_KEY_LABEL_PRIV] seed in \<open>simp add: bstr_def\<close>)
      have "entry_maker (\<lambda>c. on_success (?pub c) ?priv) (akp_material K k True)"
        by (rule entry_maker_next [OF pub priv]) (use akp_private [OF _ seed] in blast)
      then have "cbor_maker (encode_akp b K k flags) (\<lambda>x. \<exists>es. akp_material K k True es \<and> x = key_map_bytes k es)"
        unfolding eq by (rule maker_map_n [OF rd(1)]) (auto dest: akp_material_length)
      then show ?thesis using True by simp
    qed
  qed
qed

section \<open>Encoding a key\<close>

text \<open>The material that is serialised, by the type of the key; a symmetric key has no public half.\<close>

definition key_material :: "build \<Rightarrow> wolfkey \<Rightarrow> cose_key \<Rightarrow> u32 \<Rightarrow> (int \<times> u8 list) list \<Rightarrow> bool" where
  "key_material b K k flags es \<longleftrightarrow>
     have_ecc b \<and> key_kty k = WOLFCOSE_KTY_EC2 \<and> ec2_material K k (wolfCose_KeyEmitsPrivate b k flags) es \<or>
     have_rsapss b \<and> key_kty k = WOLFCOSE_KTY_RSA \<and> (\<exists>r. key_rsa k = Some r \<and> rsa_material K k (rsa_emits_private b k r flags) es) \<or>
     have_mldsa b \<and> key_kty k = WOLFCOSE_KTY_AKP \<and> akp_material K k (akp_emits_private b k flags) es \<or>
     have_lms b \<and> key_kty k = WOLFCOSE_KTY_HSS_LMS \<and> lms_material K k es \<or>
     key_kty k = WOLFCOSE_KTY_OKP \<and> okp_material b K k (wolfCose_KeyEmitsPrivate b k flags) es \<or>
     key_kty k = WOLFCOSE_KTY_SYMMETRIC \<and> symm_material k es \<and> flags AND WOLFCOSE_KEY_PUBLIC_ONLY = 0 \<and>
       \<not> (ext_sign b \<and> key_signCb k \<noteq> None)"

text \<open>What a caller promises of a key: its buffers, and that an RSA key is not larger than an \<open>int\<close>.\<close>

definition key_usable :: "cose_key \<Rightarrow> bool" where
  "key_usable k \<longleftrightarrow> key_readable k \<and> (\<forall>r. key_rsa k = Some r \<longrightarrow> rsa_size r < 2 ^ 31)"

lemma maker_key:
  assumes "wolfkey_ok K" "key_usable k"
  shows "cbor_maker (encode_key b K k flags) (\<lambda>x. \<exists>es. key_material b K k flags es \<and> x = key_map_bytes k es)"
proof -
  have rd: "readable (key_kid k) (key_kidLen k)" "readable (key_symm k) (key_symmLen k)" "key_readable k"
      "\<And>r. key_rsa k = Some r \<Longrightarrow> rsa_size r < 2 ^ 31"
    using assms(2) by (simp_all add: key_usable_def key_readable_def)
  consider "have_ecc b" "key_kty k = WOLFCOSE_KTY_EC2" | "have_rsapss b" "key_kty k = WOLFCOSE_KTY_RSA" | "have_mldsa b" "key_kty k = WOLFCOSE_KTY_AKP"
    | "have_lms b" "key_kty k = WOLFCOSE_KTY_HSS_LMS" | "have_eddsa b \<or> have_ed448 b" "key_kty k = WOLFCOSE_KTY_OKP"
    | "key_kty k = WOLFCOSE_KTY_SYMMETRIC"
    | "\<not> (have_ecc b \<and> key_kty k = WOLFCOSE_KTY_EC2)" "\<not> (have_rsapss b \<and> key_kty k = WOLFCOSE_KTY_RSA)"
      "\<not> (have_mldsa b \<and> key_kty k = WOLFCOSE_KTY_AKP)" "\<not> (have_lms b \<and> key_kty k = WOLFCOSE_KTY_HSS_LMS)"
      "\<not> ((have_eddsa b \<or> have_ed448 b) \<and> key_kty k = WOLFCOSE_KTY_OKP)" "key_kty k \<noteq> WOLFCOSE_KTY_SYMMETRIC"
    by blast
  then show ?thesis
  proof cases
    case 1
    then show ?thesis by (auto simp: encode_key_def [abs_def] key_material_def intro: maker_weaken [OF maker_ec2 [OF assms(1) rd(1)]])
  next
    case 2
    then show ?thesis by (auto simp: encode_key_def [abs_def] key_material_def intro: maker_weaken [OF maker_rsa [OF assms(1) rd(1,4)]])
  next
    case 3
    then show ?thesis by (auto simp: encode_key_def [abs_def] key_material_def intro: maker_weaken [OF maker_akp [OF assms(1) rd(3)]])
  next
    case 4
    then show ?thesis by (auto simp: encode_key_def [abs_def] key_material_def intro: maker_weaken [OF maker_lms [OF assms(1) rd(1)]])
  next
    case 5
    then show ?thesis by (auto simp: encode_key_def [abs_def] key_material_def intro: maker_weaken [OF maker_okp [OF assms(1) rd(1)]])
  next
    case 6
    then have "encode_key b K k flags = encode_symm b k flags" by (simp add: encode_key_def [abs_def])
    then show ?thesis using 6 by (simp only:) (rule maker_weaken [OF maker_symm [OF rd(1,2)]], auto simp: key_material_def)
  next
    case 7
    then have "encode_key b K k flags = (\<lambda>c. (WOLFCOSE_E_COSE_KEY_TYPE, c))"
      unfolding encode_key_def [abs_def] by (simp only: if_False)
    then show ?thesis by (simp add: maker_error)
  qed
qed


lemma Encode_fails: "e \<noteq> WOLFCOSE_SUCCESS \<Longrightarrow>
    encode_cleanup (Some mo) osz (Some n) (e, encode_start (Some mo) osz) = (e, wolfCose_ForceZero (Some mo) osz, Some 0, False)"
  by (simp add: encode_cleanup_def encode_start_def)

lemma Key_Encode_outcome:
  assumes "wolfkey_ok K" "key_usable k" "osz \<le> length mo" "osz < 2 ^ 63"
    "wc_CoseKey_Encode_ex b K (Some k) (Some mo) osz (Some n0) flags = (ret, out, n, fault)"
  shows "\<not> fault \<and>
     (if ret = WOLFCOSE_SUCCESS
      then \<exists>es bs mo'. key_material b K k flags es \<and> bs = key_map_bytes k es \<and> length bs \<le> osz \<and> n = Some (length bs) \<and>
        out = Some mo' \<and> take (length bs) mo' = bs \<and> length mo' = length mo \<and> drop osz mo' = drop osz mo
      else out = Some (splice 0 (replicate osz 0) mo) \<and> n = Some 0)"
proof (cases "flags AND NOT WOLFCOSE_KEY_PUBLIC_ONLY = 0")
  case False
  then have "(ret, out, n, fault) = (WOLFCOSE_E_INVALID_ARG, wolfCose_ForceZero (Some mo) osz, Some 0, False)"
    using assms(5) by (simp add: wc_CoseKey_Encode_ex_def Encode_fails)
  then show ?thesis using within_zero [OF within_self] by simp
next
  case True
  obtain r c where e: "encode_key b K k flags (fresh mo osz) = (r, c)" by fastforce
  have st: "encode_start (Some mo) osz = fresh mo osz" by (simp add: encode_start_def fresh_def)
  have res: "(ret, out, n, fault) = encode_cleanup (Some mo) osz (Some n0) (r, c)"
    using assms(5) True by (simp add: wc_CoseKey_Encode_ex_def st e)
  note run = cbor_maker.from_start [OF maker_key [OF assms(1,2)] assms(3,4) e]
  show ?thesis
  proof (cases "r = WOLFCOSE_SUCCESS")
    case ok: True
    then have o: "ret = WOLFCOSE_SUCCESS" "out = ctx_buf c" "n = Some (ctx_idx c)" "fault = ctx_fault c"
      using res by (simp_all add: encode_cleanup_def)
    obtain bs m' where b: "\<exists>es. key_material b K k flags es \<and> bs = key_map_bytes k es" "ctx_buf c = Some m'" "take (length bs) m' = bs"
        "ctx_idx c = length bs" "length bs \<le> osz" using run ok by blast
    have w: "length m' = length mo" "drop osz m' = drop osz mo" using run b(2) by (auto simp: within_def)
    show ?thesis using b w o run by (metis (no_types, lifting))
  next
    case False
    then have "ret = r" "out = wolfCose_ForceZero (ctx_buf c) osz" "n = Some 0" "fault = ctx_fault c"
      using res by (simp_all add: encode_cleanup_def)
    then show ?thesis using False run within_zero by metis
  qed
qed

text \<open>C10: encoding a COSE_Key either writes the RFC 9052 map of the key (a head that counts the entries, kty, the key id and
  the algorithm when they are set, and the material of the key's type, private material only when it may be
  serialised) and reports its length, leaving what lies behind the announced size of the output alone, or it fails,
  zeroes the output and reports length 0; the code never accesses memory outside the output.\<close>

theorem Key_Encode_exact:
  assumes "wolfkey_ok K" "key_usable k" "osz \<le> length mo" "osz < 2 ^ 63"
    "wc_CoseKey_Encode_ex b K (Some k) (Some mo) osz (Some n0) flags = (ret, out, n, fault)"
  shows "\<not> fault \<and>
     (if ret = WOLFCOSE_SUCCESS
      then \<exists>es bs mo'. key_material b K k flags es \<and> bs = key_map_bytes k es \<and> length bs \<le> osz \<and> n = Some (length bs) \<and>
        out = Some mo' \<and> take (length bs) mo' = bs \<and> length mo' = length mo \<and> drop osz mo' = drop osz mo
      else out = Some (splice 0 (replicate osz 0) mo) \<and> n = Some 0)"
  by (rule Key_Encode_outcome [OF assms])

section \<open>Private material stays\<close>

text \<open>The keys that differ in what wolfCrypt exports of their private halves only.\<close>

definition other_secrets :: "wolfkey \<Rightarrow> wolfkey \<Rightarrow> wolfkey" where
  "other_secrets S K = K\<lparr>kx_ecc_private := kx_ecc_private S, kx_ed25519_private := kx_ed25519_private S,
     kx_ed448_private := kx_ed448_private S, kx_rsa_export := kx_rsa_export S, kx_rsa_int := kx_rsa_int S\<rparr>"

lemma other_secrets_public:
  "kx_ecc_public (other_secrets S K) = kx_ecc_public K" "kx_ed25519_public (other_secrets S K) = kx_ed25519_public K"
  "kx_ed448_public (other_secrets S K) = kx_ed448_public K" "kx_rsa_public (other_secrets S K) = kx_rsa_public K"
  "kx_mldsa_public (other_secrets S K) = kx_mldsa_public K" "kx_lms_public (other_secrets S K) = kx_lms_public K"
  by (simp_all add: other_secrets_def)

lemma Key_Encode_hides:
  assumes "flags AND WOLFCOSE_KEY_PUBLIC_ONLY \<noteq> 0 \<or> ext_sign b \<and> key_signCb k \<noteq> None"
  shows "wc_CoseKey_Encode_ex b (other_secrets S K) (Some (k\<lparr>key_symm := s, key_symmLen := sl, key_mldsaSeed := d, key_mldsaSeedLen := dl\<rparr>))
      out osz n flags = wc_CoseKey_Encode_ex b K (Some k) out osz n flags"
proof -
  let ?K = "other_secrets S K" and ?k = "k\<lparr>key_symm := s, key_symmLen := sl, key_mldsaSeed := d, key_mldsaSeedLen := dl\<rparr>"
  have no: "\<not> wolfCose_KeyEmitsPrivate b k flags" "\<not> wolfCose_KeyEmitsPrivate b ?k flags"
    using assms by (auto simp: wolfCose_KeyEmitsPrivate_def)
  then have none: "\<not> rsa_emits_private b k r flags" "\<not> rsa_emits_private b ?k r flags" "\<not> akp_emits_private b k flags"
      "\<not> akp_emits_private b ?k flags" for r by (simp_all add: rsa_emits_private_def akp_emits_private_def)
  have sel: "key_kid ?k = key_kid k" "key_kidLen ?k = key_kidLen k" "key_alg ?k = key_alg k" "key_kty ?k = key_kty k" "key_crv ?k = key_crv k"
      "key_ecc ?k = key_ecc k" "key_rsa ?k = key_rsa k" "key_mldsa ?k = key_mldsa k" "key_lms ?k = key_lms k" "key_ed25519 ?k = key_ed25519 k"
      "key_ed448 ?k = key_ed448 k" "key_attachedType ?k = key_attachedType k" by simp_all
  have fields: "wolfCose_KeyOptionalEntries ?k = wolfCose_KeyOptionalEntries k"
      "wolfCose_EncodeKeyOptionalFields ?k = wolfCose_EncodeKeyOptionalFields k"
    unfolding wolfCose_KeyOptionalEntries_def wolfCose_EncodeKeyOptionalFields_def [abs_def] sel by (rule refl)+
  have common: "encode_common ?k = encode_common k" "encode_crv ?k = encode_crv k"
    unfolding encode_common_def [abs_def] encode_crv_def [abs_def] fields sel by (rule refl)+
  note same = common sel other_secrets_public if_not_P [OF no(1)] if_not_P [OF no(2)] if_not_P [OF none(1)] if_not_P [OF none(2)]
    if_not_P [OF none(3)] if_not_P [OF none(4)]
  have "encode_ec2 b ?K ?k flags = encode_ec2 b K k flags"
    unfolding encode_ec2_def [abs_def] wolfCose_EncodeEc2Map_def [abs_def] same by (rule refl)
  moreover have "encode_rsa b ?K ?k flags = encode_rsa b K k flags"
    unfolding encode_rsa_def [abs_def] encode_rsa_n_def [abs_def] Let_def same by (rule refl)
  moreover have "encode_akp b ?K ?k flags = encode_akp b K k flags"
    unfolding encode_akp_def [abs_def] encode_mldsa_pub_def [abs_def] Let_def same by (rule refl)
  moreover have "encode_lms ?K ?k = encode_lms K k"
    unfolding encode_lms_def [abs_def] lms_checks_def same by (rule refl)
  moreover have "encode_okp b ?K ?k flags = encode_okp b K k flags"
    unfolding encode_okp_def [abs_def] okp_public_def Let_def same by (rule refl)
  moreover have "encode_symm b ?k flags = encode_symm b k flags"
    using assms by (auto simp: encode_symm_def [abs_def] symm_checks_def Let_def)
  ultimately have "encode_key b ?K ?k flags = encode_key b K k flags" unfolding encode_key_def [abs_def] sel by (simp only:)
  then show ?thesis by (simp add: wc_CoseKey_Encode_ex_def)
qed


text \<open>C11: a caller who asks for the public half, or whose private half belongs to a delegated signer, gets a result that
  does not depend on any private material: neither on what wolfCrypt would export of it, nor on a symmetric key or an
  ML-DSA seed.\<close>

theorem Key_Encode_public_only:
  assumes "flags AND WOLFCOSE_KEY_PUBLIC_ONLY \<noteq> 0 \<or> ext_sign b \<and> key_signCb k \<noteq> None"
  shows "wc_CoseKey_Encode_ex b (other_secrets S K) (Some (k\<lparr>key_symm := s, key_symmLen := sl, key_mldsaSeed := d, key_mldsaSeedLen := dl\<rparr>))
      out osz n flags = wc_CoseKey_Encode_ex b K (Some k) out osz n flags"
  by (rule Key_Encode_hides [OF assms])

section \<open>Examples\<close>

definition toy_keys :: wolfkey where
  "toy_keys = \<lparr> kx_ecc_private_type = (\<lambda>_. True),
     kx_ecc_public = (\<lambda>e. if 0 \<le> ecc_size e \<and> ecc_size e \<le> 66 then Some (replicate (nat (ecc_size e)) 1, replicate (nat (ecc_size e)) 2) else None),
     kx_ecc_private = (\<lambda>e. if ecc_size e \<le> 66 then Some (replicate (nat (ecc_size e)) 3) else None),
     kx_ed25519_priv_set = (\<lambda>_. True), kx_ed25519_public = (\<lambda>h. Some (replicate 32 (of_nat h))), kx_ed25519_private = (\<lambda>h. Some (replicate 32 5)),
     kx_ed448_priv_set = (\<lambda>_. True), kx_ed448_public = (\<lambda>h. Some (replicate 57 (of_nat h))), kx_ed448_private = (\<lambda>h. Some (replicate 57 6)),
     kx_rsa_private_type = (\<lambda>_. True),
     kx_rsa_public = (\<lambda>r cap. if 0 < rsa_size r \<and> rsa_size r \<le> int cap then Some ([1, 0, 1], replicate (nat (rsa_size r)) 7) else None),
     kx_rsa_export = (\<lambda>r. if 1 < rsa_size r then Some ([1, 0, 1], [7], [8], [9], [9]) else None),
     kx_rsa_int = (\<lambda>r a n. Some (replicate n 9)), kx_rsa_exponent = (\<lambda>r. Some [0, 0, 0, 0, 0, 1, 0, 1]),
     kx_mldsa_priv_set = (\<lambda>_. True), kx_mldsa_public = (\<lambda>m cap. if 1312 \<le> cap then Some (replicate 1312 4) else None),
     kx_mldsa_pub_len = (\<lambda>_. Some 1312), kx_lms_public = (\<lambda>_. Some (replicate 60 3)), kx_lms_pub_len = (\<lambda>_. Some 60) \<rparr>"

lemma toy_keys_ok: "wolfkey_ok toy_keys"
  by (auto simp: wolfkey_ok_def toy_keys_def)

definition toy_symm :: cose_key where
  "toy_symm = key_zero\<lparr>key_kty := WOLFCOSE_KTY_SYMMETRIC, key_symm := Some [1, 2, 3], key_symmLen := 3, key_hasPrivate := True\<rparr>"

lemma toy_symm_usable: "key_usable toy_symm"
  by (simp add: key_usable_def key_readable_def toy_symm_def key_zero_def)

lemma toy_symm_encoded:
  "wc_CoseKey_Encode_ex full_build toy_keys (Some toy_symm) (Some (replicate 10 0xFF)) 9 (Some 0) 0 =
     (WOLFCOSE_SUCCESS, Some [0xA2, 1, 4, 0x20, 0x43, 1, 2, 3, 0xFF, 0xFF], Some 8, False)"
  by code_simp


definition toy_ed :: cose_key where
  "toy_ed = key_zero\<lparr>key_kty := WOLFCOSE_KTY_OKP, key_crv := WOLFCOSE_CRV_ED25519, key_ed25519 := Some 7, key_hasPrivate := True\<rparr>"

lemma Key_Encode_exact_witness:
  "\<exists>es. key_material full_build toy_keys toy_symm 0 es \<and> key_map_bytes toy_symm es = [0xA2, 1, 4, 0x20, 0x43, 1, 2, 3]"
  using Key_Encode_exact [OF toy_keys_ok toy_symm_usable _ _ toy_symm_encoded] by auto

lemma Key_Encode_public_only_witness:
  "wc_CoseKey_Encode_ex full_build (other_secrets (toy_keys\<lparr>kx_ed25519_private := (\<lambda>_. None)\<rparr>) toy_keys)
      (Some (toy_ed\<lparr>key_symm := Some [9], key_symmLen := 1, key_mldsaSeed := None, key_mldsaSeedLen := 0\<rparr>)) (Some (replicate 64 0)) 64 (Some 0) 1 =
   wc_CoseKey_Encode_ex full_build toy_keys (Some toy_ed) (Some (replicate 64 0)) 64 (Some 0) 1"
  by (rule Key_Encode_public_only) simp

end
