(* ===== verification/Cose_KeySize.thy ===== *)
theory Cose_KeySize
  imports Cose_KeySpec
begin

text \<open>
  The size that \<open>wc_CoseKey_EncodeSize_ex\<close> announces is the length that encoding writes, and what the attachment of
  keys keeps true of a \<open>WOLFCOSE_KEY\<close>.
\<close>

section \<open>The announced size\<close>

text \<open>The documented lengths of wolfCrypt's exports; the public exponent is exported without leading zeros.\<close>

definition wolfkey_exact :: "wolfkey \<Rightarrow> bool" where
  "wolfkey_exact K \<longleftrightarrow>
     (\<forall>e x y. kx_ecc_public K e = Some (x, y) \<longrightarrow> ecc_size e = int (length x)) \<and>
     (\<forall>h x. kx_ed25519_public K h = Some x \<or> kx_ed25519_private K h = Some x \<longrightarrow> length x = 32) \<and>
     (\<forall>h x. kx_ed448_public K h = Some x \<or> kx_ed448_private K h = Some x \<longrightarrow> length x = 57) \<and>
     (\<forall>r cap e n. kx_rsa_public K r cap = Some (e, n) \<longrightarrow> rsa_size r = int (length n) \<and> e \<noteq> [] \<and> hd e \<noteq> 0 \<and>
        (\<exists>z. kx_rsa_exponent K r = Some (replicate z 0 @ e))) \<and>
     (\<forall>m cap pub. kx_mldsa_public K m cap = Some pub \<longrightarrow> kx_mldsa_pub_len K m = Some (int (length pub))) \<and>
     (\<forall>v pub. kx_lms_public K v = Some pub \<longrightarrow> kx_lms_pub_len K v = Some (length pub))"

lemma wolfkey_exactD:
  assumes "wolfkey_exact K"
  shows "kx_ecc_public K ev = Some (x, y) \<Longrightarrow> ecc_size ev = int (length x)"
    "kx_ed25519_public K h = Some x \<Longrightarrow> length x = 32" "kx_ed25519_private K h = Some x \<Longrightarrow> length x = 32"
    "kx_ed448_public K h = Some x \<Longrightarrow> length x = 57" "kx_ed448_private K h = Some x \<Longrightarrow> length x = 57"
    "kx_rsa_public K r cap = Some (e, n) \<Longrightarrow> rsa_size r = int (length n) \<and> e \<noteq> [] \<and> hd e \<noteq> 0 \<and>
        (\<exists>z. kx_rsa_exponent K r = Some (replicate z 0 @ e))"
    "kx_mldsa_public K m cap = Some pub \<Longrightarrow> kx_mldsa_pub_len K m = Some (int (length pub))"
    "kx_lms_public K v = Some pub \<Longrightarrow> kx_lms_pub_len K v = Some (length pub)"
  by (insert assms [unfolded wolfkey_exact_def]) (elim conjE; (blast | metis))+

lemma sums_size: "a < 2 ^ 64 \<Longrightarrow> sums (a + n) (key_size_add n a)"
  by (simp add: sums_def key_size_add_def SizeAdd_fits)

lemma sums_item:
  assumes "a < 2 ^ 64" "sums t (f 0)" "g = (case f 0 of (ret, itemLen) \<Rightarrow> if ret = WOLFCOSE_SUCCESS then key_size_add itemLen a else (ret, a))"
  shows "sums (a + t) g"
proof (cases "f 0")
  case (Pair ret n)
  show ?thesis
  proof (cases "ret = WOLFCOSE_SUCCESS")
    case True
    then have "n = t" using assms(2) Pair by (simp add: sums_def)
    then show ?thesis using sums_size [OF assms(1), of t] True assms(3) Pair by simp
  next
    case False
    then show ?thesis using assms(2,3) Pair by (simp add: sums_def)
  qed
qed

lemma sums_string_item: "a < 2 ^ 64 \<Longrightarrow> sums (a + str_len n) (size_string n a)"
  by (rule sums_item [where f = "wolfCose_CborStringSize n"])
    (simp_all add: size_string_def sums_def wolfCose_CborStringSize_def SizeAdd_fits str_len_def CborHeadSize_length [of n 2] length_cbor_head)

lemma sums_reserved: "a < 2 ^ 64 \<Longrightarrow> sums (a + length (long_bytes s)) (size_reserved (length s) a)"
  by (rule sums_item [where f = "wolfCose_ReservedBstrSize (length s)"])
    (simp_all add: size_reserved_def sums_def wolfCose_ReservedBstrSize_def key_size_add_def SizeAdd_fits long_bytes_def)

lemma sums_entry: "a < 2 ^ 64 \<Longrightarrow> sums (a + (1 + str_len n)) (wolfCose_KeyBstrEntrySize n a)"
proof -
  assume a: "a < 2 ^ 64"
  have "sums (a + 1 + str_len n) (on_success (key_size_add 1 a) (size_string n))"
    by (rule sums_next [OF sums_size [OF a]]) (rule sums_string_item)
  then show ?thesis by (simp add: wolfCose_KeyBstrEntrySize_def add.assoc)
qed

lemma CborIntSize_length: "wolfCose_CborIntSize v = length (cbor_int (sint v))"
proof (cases "0 \<le> sint v")
  case True
  then have "0 <=s v" by (simp add: word_sle_eq)
  then show ?thesis using True unat_sint_nonneg [OF True] by (simp add: wolfCose_CborIntSize_def cbor_int_def CborHeadSize_length [of _ 0])
next
  case False
  then have "\<not> 0 <=s v" by (simp add: word_sle_eq)
  moreover have "unat (- (v + 1)) = nat (- 1 - sint v)" using False by (intro unat_neg_Suc) simp
  ultimately show ?thesis unfolding wolfCose_CborIntSize_def cbor_int_def using False
    by (simp only: if_False CborHeadSize_length [of _ 1])
qed

lemma sums_nothing: "a < 2 ^ 64 \<Longrightarrow> sums (a + 0) (WOLFCOSE_SUCCESS, a)"
  by (simp add: sums_def)

lemma sums_common:
  assumes "n < 100" and rd: "readable (key_kid k) (key_kidLen k)"
  shows "sums (length (cbor_head 5 (n + wolfCose_KeyOptionalEntries k)) + length (pairs_bytes (key_pairs k))) (wolfCose_KeyCommonSize k n 0)"
proof -
  have o: "wolfCose_KeyOptionalEntries k \<le> 2" using length_key_pairs [of k] by simp
  have n: "key_size_add (wolfCose_KeyOptionalEntries k) n = (WOLFCOSE_SUCCESS, n + wolfCose_KeyOptionalEntries k)"
    using assms o by (simp add: key_size_add_def SizeAdd_fits)
  let ?kid = "\<lambda>sz. if key_kid k \<noteq> None \<and> key_kidLen k > 0 then on_success (key_size_add 1 sz) (size_string (key_kidLen k)) else (WOLFCOSE_SUCCESS, sz)"
  let ?alg = "\<lambda>sz. if key_alg k \<noteq> WOLFCOSE_ALG_UNSET then on_success (key_size_add 1 sz) (key_size_add (wolfCose_CborIntSize (scast (key_alg k))))
     else (WOLFCOSE_SUCCESS, sz)"
  have kid: "sums (a + (if key_kid k \<noteq> None \<and> key_kidLen k > 0 then 1 + str_len (key_kidLen k) else 0)) (?kid a)" if "a < 2 ^ 64" for a
  proof (cases "key_kid k \<noteq> None \<and> key_kidLen k > 0")
    case True
    have "sums (a + 1 + str_len (key_kidLen k)) (on_success (key_size_add 1 a) (size_string (key_kidLen k)))"
      by (rule sums_next [OF sums_size [OF that]]) (rule sums_string_item)
    then show ?thesis unfolding if_P [OF True] by (simp only: add.assoc)
  next
    case False
    show ?thesis unfolding if_not_P [OF False] by (rule sums_nothing [OF that])
  qed
  have alg: "sums (a + (if key_alg k \<noteq> WOLFCOSE_ALG_UNSET then 1 + length (cbor_int (sint (key_alg k))) else 0)) (?alg a)" if "a < 2 ^ 64" for a
  proof (cases "key_alg k \<noteq> WOLFCOSE_ALG_UNSET")
    case True
    have "sums (a + 1 + length (cbor_int (sint (key_alg k)))) (on_success (key_size_add 1 a) (key_size_add (wolfCose_CborIntSize (scast (key_alg k)))))"
      unfolding CborIntSize_length sint_scast32 by (rule sums_next [OF sums_size [OF that]]) (rule sums_size)
    then show ?thesis unfolding if_P [OF True] by (simp only: add.assoc)
  next
    case False
    show ?thesis unfolding if_not_P [OF False] by (rule sums_nothing [OF that])
  qed
  define r where "r = on_success (on_success (on_success (on_success (on_success (WOLFCOSE_SUCCESS, 0)
      (key_size_add (wolfCose_CborHeadSize ((n + wolfCose_KeyOptionalEntries k) mod 2 ^ 64)))) (key_size_add 1))
      (key_size_add (wolfCose_CborHeadSize (unat (scast (key_kty k) :: u64))))) ?kid) ?alg"
  have h: "wolfCose_CborHeadSize ((n + wolfCose_KeyOptionalEntries k) mod 2 ^ 64) = length (cbor_head 5 (n + wolfCose_KeyOptionalEntries k))"
    "wolfCose_CborHeadSize (unat (scast (key_kty k) :: u64)) = length (cbor_head 0 (unat (scast (key_kty k) :: u64)))"
    using assms(1) o by (simp add: CborHeadSize_length [of _ 5], intro CborHeadSize_length)
  have "sums (0 + length (cbor_head 5 (n + wolfCose_KeyOptionalEntries k)) + 1 + length (cbor_head 0 (unat (scast (key_kty k) :: u64))) +
     (if key_kid k \<noteq> None \<and> key_kidLen k > 0 then 1 + str_len (key_kidLen k) else 0) +
     (if key_alg k \<noteq> WOLFCOSE_ALG_UNSET then 1 + length (cbor_int (sint (key_alg k))) else 0)) r"
    unfolding r_def h by (intro sums_next kid alg sums_size) (simp_all add: sums_def)
  moreover have "length (pairs_bytes (key_pairs k)) = 1 + length (cbor_head 0 (unat (scast (key_kty k) :: u64))) +
     (if key_kid k \<noteq> None \<and> key_kidLen k > 0 then 1 + str_len (key_kidLen k) else 0) +
     (if key_alg k \<noteq> WOLFCOSE_ALG_UNSET then 1 + length (cbor_int (sint (key_alg k))) else 0)"
    using rd by (auto simp: key_pairs_def length_str_bytes str_len_def cbor_int_def length_cbor_head [of _ "Suc 0"] length_cbor_head [of _ 2] length_cbor_head [of _ 3])
  ultimately have "sums (length (cbor_head 5 (n + wolfCose_KeyOptionalEntries k)) + length (pairs_bytes (key_pairs k))) r"
    by (simp only: add.assoc add_0_left)
  moreover have "wolfCose_KeyCommonSize k n 0 = (fst r, if fst r = WOLFCOSE_SUCCESS then snd r else 0)"
    unfolding wolfCose_KeyCommonSize_def n r_def by (simp only: prod.case Let_def)
  ultimately show ?thesis by (cases "fst r = WOLFCOSE_SUCCESS") (simp_all add: sums_def)
qed


definition map_start_len :: "cose_key \<Rightarrow> nat \<Rightarrow> nat" where
  "map_start_len k n = length (cbor_head 5 (n + wolfCose_KeyOptionalEntries k)) + length (pairs_bytes (key_pairs k))"

lemma length_key_map: "1 + length es = n \<Longrightarrow> length (key_map_bytes k es) = map_start_len k n + length (pairs_bytes es)"
  using length_key_pairs(1) [of k] by (auto simp: key_map_bytes_def map_start_len_def add.commute)

lemma sums_start: "n < 100 \<Longrightarrow> readable (key_kid k) (key_kidLen k) \<Longrightarrow> sums (map_start_len k n) (wolfCose_KeyCommonSize k n 0)"
  unfolding map_start_len_def by (rule sums_common)

lemma length_label: "- 8 \<le> l \<Longrightarrow> l < 0 \<Longrightarrow> length (cbor_int l) = 1"
  by (simp add: cbor_int_def length_cbor_head)

lemma length_bstr: "length (bstr s) = str_len (length s)"
  by (simp add: bstr_def length_str_bytes str_len_def)

lemma sums_crv: "a < 2 ^ 64 \<Longrightarrow> sums (a + length (pairs_bytes [crv_entry k])) (size_crv k a)"
proof -
  assume a: "a < 2 ^ 64"
  have "sums (a + 1 + wolfCose_CborHeadSize (unat (scast (key_crv k) :: u64))) (size_crv k a)"
    unfolding size_crv_def by (rule sums_next [OF sums_size [OF a]]) (rule sums_size)
  then show ?thesis by (simp add: crv_entry_def length_label CborHeadSize_length [of _ 0])
qed

lemma sums_if: "(p \<Longrightarrow> sums (a + d) (f a)) \<Longrightarrow> a < 2 ^ 64 \<Longrightarrow> sums (a + (if p then d else 0)) (if p then f a else (WOLFCOSE_SUCCESS, a))"
  by (cases p) (simp_all add: sums_def)

lemma size_ec2_sums:
  assumes "wolfkey_exact K" "readable (key_kid k) (key_kidLen k)" "ec2_material K k (wolfCose_KeyEmitsPrivate b k flags) es"
  shows "sums (length (key_map_bytes k es)) (size_ec2 b k flags)"
proof -
  obtain e x y where pub: "key_ecc k = Some e" "kx_ecc_public K e = Some (x, y)" "length y = length x"
      "wolfCose_CrvKeySize (key_crv k) (Some 0) = (WOLFCOSE_SUCCESS, Some (length x))"
      and es: "length es = (if wolfCose_KeyEmitsPrivate b k flags then 4 else 3)"
      "length (pairs_bytes es) = length (pairs_bytes [crv_entry k]) + (1 + str_len (length x)) + (1 + str_len (length x)) +
         (if wolfCose_KeyEmitsPrivate b k flags then 1 + str_len (length x) else 0)"
    using assms(3)
  proof cases
    case (ec2_public e x y n)
    show thesis by (rule that [of e x y]) (use ec2_public in \<open>simp_all add: crv_entry_def length_label length_bstr\<close>)
  next
    case (ec2_private es' e d)
    from ec2_private(3) obtain e' x y n where p: "es' = [crv_entry k, (- 2, bstr x), (- 3, bstr y)]" "key_ecc k = Some e'"
        "kx_ecc_public K e' = Some (x, y)" "wolfCose_CrvKeySize (key_crv k) (Some 0) = (WOLFCOSE_SUCCESS, Some n)" "length x = n" "length y = n"
      by cases auto
    show thesis by (rule that [of e' x y]) (use p ec2_private in \<open>simp_all add: crv_entry_def length_label length_bstr\<close>)
  qed
  have ecc: "ecc_size e = int (length x)" by (rule wolfkey_exactD(1) [OF assms(1) pub(2)])
  let ?p = "wolfCose_KeyEmitsPrivate b k flags"
  have "sums (map_start_len k (if ?p then 5 else 4) + length (pairs_bytes [crv_entry k]) + (1 + str_len (length x)) + (1 + str_len (length x)) +
     (if ?p then 1 + str_len (length x) else 0)) (size_ec2 b k flags)"
    unfolding size_ec2_def pub(1,4) option.case prod.case Let_def option.sel ecc
    by (simp only: simp_thms if_False) (intro sums_next sums_if sums_start sums_crv sums_entry, auto intro: assms(2))
  moreover have "1 + length es = (if ?p then 5 else 4)" using es(1) by simp
  ultimately show ?thesis by (simp only: length_key_map es(2) add.assoc)
qed


lemma size_okp_sums:
  assumes "wolfkey_exact K" "readable (key_kid k) (key_kidLen k)" "okp_material b K k (wolfCose_KeyEmitsPrivate b k flags) es"
  shows "sums (length (key_map_bytes k es)) (size_okp b k flags)"
proof -
  obtain pub d where x: "okp_exports b K k (Some pub) d"
      and es: "length es = (if wolfCose_KeyEmitsPrivate b k flags then 3 else 2)"
      "length (pairs_bytes es) = length (pairs_bytes [crv_entry k]) + (1 + str_len (length pub)) +
         (if wolfCose_KeyEmitsPrivate b k flags then 1 + str_len (length pub) else 0)"
    using assms(3)
  proof cases
    case (okp_public x d)
    show thesis by (rule that [of x d]) (use okp_public in \<open>simp_all add: crv_entry_def length_label length_bstr\<close>)
  next
    case (okp_private x d)
    have "length d = length x" using okp_private(3) wolfkey_exactD(2-5) [OF assms(1)] by (auto simp: okp_exports_def)
    then show thesis by (intro that [of x "Some d"]) (use okp_private in \<open>simp_all add: crv_entry_def length_label length_bstr\<close>)
  qed
  let ?p = "wolfCose_KeyEmitsPrivate b k flags"
  have start: "(let (ret, okpSz) =
            (if have_eddsa b \<and> key_crv k = WOLFCOSE_CRV_ED25519
             then (if key_ed25519 k = None then WOLFCOSE_E_INVALID_ARG else WOLFCOSE_SUCCESS, 32)
             else if have_ed448 b \<and> key_crv k = WOLFCOSE_CRV_ED448
             then (if key_ed448 k = None then WOLFCOSE_E_INVALID_ARG else WOLFCOSE_SUCCESS, 57)
             else (WOLFCOSE_E_COSE_BAD_ALG, 0 :: size)) in (ret, okpSz)) = (WOLFCOSE_SUCCESS, length pub)"
    using x wolfkey_exactD(2-5) [OF assms(1)] by (auto simp: okp_exports_def)
  have eq: "size_okp b k flags = on_success (on_success (on_success (wolfCose_KeyCommonSize k (if ?p then 4 else 3) 0) (size_crv k))
      (wolfCose_KeyBstrEntrySize (length pub))) (\<lambda>t. if ?p then wolfCose_KeyBstrEntrySize (length pub) t else (WOLFCOSE_SUCCESS, t))"
    using start unfolding size_okp_def Let_def by (simp split: prod.splits)
  have "sums (map_start_len k (if ?p then 4 else 3) + length (pairs_bytes [crv_entry k]) + (1 + str_len (length pub)) +
     (if ?p then 1 + str_len (length pub) else 0)) (size_okp b k flags)"
    unfolding eq by (intro sums_next sums_if sums_start sums_crv sums_entry) (auto intro: assms(2))
  moreover have "1 + length es = (if ?p then 4 else 3)" using es(1) by simp
  ultimately show ?thesis by (simp only: length_key_map es(2) add.assoc)
qed

lemma size_symm_sums:
  assumes "readable (key_kid k) (key_kidLen k)" "readable (key_symm k) (key_symmLen k)" "symm_material k es"
    "flags AND WOLFCOSE_KEY_PUBLIC_ONLY = 0" "\<not> (ext_sign b \<and> key_signCb k \<noteq> None)"
  shows "sums (length (key_map_bytes k es)) (size_symm b k flags)"
proof -
  have es: "length es = 1" "length (pairs_bytes es) = 1 + str_len (key_symmLen k)"
    using assms(2,3) by (auto simp: symm_material.simps length_label length_bstr)
  have "symm_checks b k flags = WOLFCOSE_SUCCESS" using assms(3-5) by (auto simp: symm_checks_def symm_material.simps)
  then have eq: "size_symm b k flags = on_success (wolfCose_KeyCommonSize k 2 0) (wolfCose_KeyBstrEntrySize (key_symmLen k))"
    by (simp add: size_symm_def)
  have "sums (map_start_len k 2 + (1 + str_len (key_symmLen k))) (size_symm b k flags)"
    unfolding eq by (intro sums_next sums_start sums_entry) (auto intro: assms(1))
  moreover have "1 + length es = 2" using es(1) by simp
  ultimately show ?thesis by (simp only: length_key_map es(2))
qed

lemma size_lms_sums:
  assumes "wolfkey_exact K" "readable (key_kid k) (key_kidLen k)" "lms_material K k es"
  shows "sums (length (key_map_bytes k es)) (size_lms K k)"
proof -
  obtain v pub where v: "key_attachedType k = WOLFCOSE_ATT_LMS" "key_lms k = Some v" "lms_has_public v"
      "key_alg k \<in> {WOLFCOSE_ALG_UNSET, WOLFCOSE_ALG_HSS_LMS}" "kx_lms_public K v = Some pub" "es = [(- 1, bstr pub)]"
    using assms(3) by (auto simp: lms_material.simps)
  have es: "length es = 1" "length (pairs_bytes es) = 1 + str_len (length pub)" by (simp_all add: v(6) length_label length_bstr)
  have "lms_checks k = WOLFCOSE_SUCCESS" using v by (auto simp: lms_checks_def)
  then have eq: "size_lms K k = on_success (wolfCose_KeyCommonSize k 2 0) (wolfCose_KeyBstrEntrySize (length pub))"
    using v(2) wolfkey_exactD(8) [OF assms(1) v(5)] by (simp add: size_lms_def)
  have "sums (map_start_len k 2 + (1 + str_len (length pub))) (size_lms K k)"
    unfolding eq by (intro sums_next sums_start sums_entry) (auto intro: assms(2))
  moreover have "1 + length es = 2" using es(1) by simp
  ultimately show ?thesis by (simp only: length_key_map es(2))
qed

lemma size_akp_sums:
  assumes "wolfkey_exact K" "key_readable k" "akp_material K k (akp_emits_private b k flags) es"
  shows "sums (length (key_map_bytes k es)) (size_akp b K k flags)"
proof -
  let ?p = "akp_emits_private b k flags"
  have pub: "\<exists>m cap pub. key_mldsa k = Some m \<and> key_alg k \<noteq> WOLFCOSE_ALG_UNSET \<and> kx_mldsa_public K m cap = Some pub \<and>
      256 \<le> length pub \<and> length pub \<le> 65535 \<and> es = [(- 1, bstr pub)]" if "akp_material K k False es" for es
    using that by (cases rule: akp_material.cases) auto
  obtain m cap pub where m: "key_mldsa k = Some m" "key_alg k \<noteq> WOLFCOSE_ALG_UNSET" "kx_mldsa_public K m cap = Some pub"
      "256 \<le> length pub" "length pub \<le> 65535"
      and es: "length es = (if ?p then 2 else 1)"
      "length (pairs_bytes es) = 1 + length (long_bytes pub) + (if ?p then 1 + str_len WOLFCOSE_MLDSA_SEED_SZ else 0)"
    using assms(3)
  proof cases
    case (akp_public m cap pub)
    show thesis by (rule that [of m cap pub])
      (use akp_public in \<open>simp_all add: length_label bstr_def long_bytes_shortest [symmetric]\<close>)
  next
    case (akp_private es' seed)
    from pub [OF akp_private(3)] obtain m cap pub where p: "key_mldsa k = Some m" "key_alg k \<noteq> WOLFCOSE_ALG_UNSET"
      "kx_mldsa_public K m cap = Some pub" "256 \<le> length pub" "length pub \<le> 65535" "es' = [(- 1, bstr pub)]" by blast
    have "32 \<le> length seed" using assms(2) akp_private by (auto simp: key_readable_def)
    then have "length (bstr (take 32 seed)) = str_len 32" by (simp add: length_bstr)
    then show thesis by (intro that [of m cap pub] p)
      (use p akp_private in \<open>simp_all add: length_label bstr_def long_bytes_shortest [symmetric]\<close>)
  qed
  have eq: "size_akp b K k flags = on_success (on_success (on_success (wolfCose_KeyCommonSize k (if ?p then 3 else 2) 0) (key_size_add 1))
      (size_reserved (length pub))) (\<lambda>t. if ?p then wolfCose_KeyBstrEntrySize WOLFCOSE_MLDSA_SEED_SZ t else (WOLFCOSE_SUCCESS, t))"
    using m wolfkey_exactD(7) [OF assms(1) m(3)] unfolding size_akp_def Let_def by simp
  have rd: "readable (key_kid k) (key_kidLen k)" using assms(2) by (simp add: key_readable_def)
  have "sums (map_start_len k (if ?p then 3 else 2) + 1 + length (long_bytes pub) + (if ?p then 1 + str_len WOLFCOSE_MLDSA_SEED_SZ else 0))
     (size_akp b K k flags)"
    unfolding eq by (intro sums_next sums_if sums_start sums_size sums_reserved sums_entry) (auto intro: rd)
  moreover have "1 + length es = (if ?p then 3 else 2)" using es(1) by simp
  ultimately show ?thesis by (simp only: length_key_map es(2) add.assoc)
qed


lemma sums_repeat:
  assumes "\<And>a. a < 2 ^ 64 \<Longrightarrow> sums (a + d) (f a)"
  shows "a < 2 ^ 64 \<Longrightarrow> sums (a + n * d) (repeat_ok n f a)"
proof (induction n arbitrary: a)
  case 0
  then show ?case by (simp add: sums_def)
next
  case (Suc n)
  have s: "sums (a + d) (f a)" by (rule assms [OF Suc.prems])
  show ?case
  proof (cases "fst (f a) = WOLFCOSE_SUCCESS")
    case True
    then have "snd (f a) = a + d" "a + d < 2 ^ 64" using s by (simp_all add: sums_def)
    then show ?thesis using Suc.IH [of "a + d"] True by (cases "f a") (simp add: on_success_def add.assoc)
  next
    case False
    then show ?thesis using s by (cases "f a") (simp add: on_success_def sums_def)
  qed
qed

lemma length_long_bytes_eq: "length s = length t \<Longrightarrow> length (long_bytes s) = length (long_bytes t)"
  by (simp add: long_bytes_def)

lemma RsaExponentSize_spec:
  assumes "kx_rsa_exponent K r = Some (replicate z 0 @ e)" "e \<noteq> []" "hd e \<noteq> 0"
  shows "wolfCose_RsaExponentSize K r n = (WOLFCOSE_SUCCESS, length e)"
proof -
  have "takeWhile (\<lambda>x. x = 0) (replicate z 0 @ e) = replicate z 0" using assms(2,3) by (cases e) (simp_all add: takeWhile_append)
  then show ?thesis using assms by (simp add: wolfCose_RsaExponentSize_def)
qed

lemma length_rsa_part: "rsa_part_value K r a v \<Longrightarrow> length v = str_len ((nat (rsa_size r) + 1) div 2)"
  by (auto simp: rsa_part_value_def length_bstr)

lemma size_rsa_sums:
  assumes "wolfkey_ok K" "wolfkey_exact K" "readable (key_kid k) (key_kidLen k)" "key_rsa k = Some r"
    "rsa_material K k (rsa_emits_private b k r flags) es"
  shows "sums (length (key_map_bytes k es)) (size_rsa b K k flags)"
proof -
  let ?p = "rsa_emits_private b k r flags"
  have pub: "\<exists>cap e n. kx_rsa_public K r cap = Some (e, n) \<and> n \<noteq> [] \<and> es = [(- 1, long_bytes n), (- 2, bstr e)]"
    if "rsa_material K k False es" for es
    using that assms(4) by (cases rule: rsa_material.cases) auto
  obtain cap e n where m: "kx_rsa_public K r cap = Some (e, n)" "n \<noteq> []"
      and es: "length es = (if ?p then 8 else 2)"
      "length (pairs_bytes es) = 1 + length (long_bytes n) + (1 + str_len (length e)) + (if ?p then 1 + length (long_bytes n) else 0) +
         (if ?p then 5 * (1 + str_len ((length n + 1) div 2)) else 0)"
    using assms(5)
  proof cases
    case (rsa_public r' cap e n)
    have r: "r' = r" using rsa_public assms(4) by simp
    show thesis by (rule that [of cap e n]) (use rsa_public r in \<open>simp_all add: length_label length_bstr\<close>)
  next
    case (rsa_private es' r' d p q dp dq qi)
    have r: "r' = r" using rsa_private assms(4) by simp
    from pub [OF rsa_private(3)] obtain cap e n where p: "kx_rsa_public K r cap = Some (e, n)" "n \<noteq> []"
      "es' = [(- 1, long_bytes n), (- 2, bstr e)]" by blast
    have N: "nat (rsa_size r) = length n" using wolfkey_exactD(6) [OF assms(2) p(1)] by simp
    obtain x1 x2 dd x3 x4 where x: "kx_rsa_export K r = Some (x1, x2, dd, x3, x4)"
        "d = long_bytes (replicate (nat (rsa_size r) - length dd) 0 @ dd)"
      using rsa_private r by (auto simp: rsa_d_value_def)
    have "length dd \<le> length n" using wolfkey_okD(8) [OF assms(1) x(1)] wolfkey_exactD(6) [OF assms(2) p(1)] by simp
    then have "length d = length (long_bytes n)" unfolding x(2) N by (intro length_long_bytes_eq) simp
    moreover have "length p = str_len ((length n + 1) div 2)" "length q = str_len ((length n + 1) div 2)" "length dp = str_len ((length n + 1) div 2)"
      "length dq = str_len ((length n + 1) div 2)" "length qi = str_len ((length n + 1) div 2)"
      using rsa_private length_rsa_part [of K r] r N by auto
    ultimately show thesis by (intro that [OF p(1,2)]) (use p(3) rsa_private in \<open>simp_all add: length_label length_bstr\<close>)
  qed
  have x: "rsa_size r = int (length n)" "e \<noteq> []" "hd e \<noteq> 0" "\<exists>z. kx_rsa_exponent K r = Some (replicate z 0 @ e)"
    using wolfkey_exactD(6) [OF assms(2) m(1)] by auto
  then have ex: "wolfCose_RsaExponentSize K r 0 = (WOLFCOSE_SUCCESS, length e)" using RsaExponentSize_spec by blast
  have eq: "size_rsa b K k flags = on_success (on_success (on_success (on_success (on_success (wolfCose_KeyCommonSize k (if ?p then 9 else 3) 0)
      (key_size_add 1)) (size_reserved (length n))) (wolfCose_KeyBstrEntrySize (length e)))
      (\<lambda>t. if ?p then on_success (key_size_add 1 t) (size_reserved (length n)) else (WOLFCOSE_SUCCESS, t)))
      (\<lambda>t. if ?p then repeat_ok 5 (wolfCose_KeyBstrEntrySize ((length n + 1) div 2)) t else (WOLFCOSE_SUCCESS, t))"
    using x(1) m(2) unfolding size_rsa_def Let_def assms(4) option.case ex by simp
  have d: "sums (a + (1 + length (long_bytes n))) (on_success (key_size_add 1 a) (size_reserved (length n)))" if "a < 2 ^ 64" for a
    unfolding add.assoc [symmetric] by (intro sums_next sums_size sums_reserved that)
  have "sums (map_start_len k (if ?p then 9 else 3) + 1 + length (long_bytes n) + (1 + str_len (length e)) +
     (if ?p then 1 + length (long_bytes n) else 0) + (if ?p then 5 * (1 + str_len ((length n + 1) div 2)) else 0)) (size_rsa b K k flags)"
    unfolding eq by (intro sums_next sums_if sums_start sums_size sums_reserved sums_entry sums_repeat d) (auto intro: assms(3))
  moreover have "1 + length es = (if ?p then 9 else 3)" using es(1) by simp
  ultimately show ?thesis by (simp only: length_key_map es(2) add.assoc)
qed

lemma size_key_sums:
  assumes "wolfkey_ok K" "wolfkey_exact K" "key_usable k" "key_material b K k flags es"
  shows "sums (length (key_map_bytes k es)) (size_key b K k flags)"
proof -
  have rd: "readable (key_kid k) (key_kidLen k)" "readable (key_symm k) (key_symmLen k)" "key_readable k"
    using assms(3) by (simp_all add: key_usable_def key_readable_def)
  have okp: "have_eddsa b \<or> have_ed448 b" if "okp_material b K k p es" for p
    using that by cases (auto simp: okp_exports_def)
  show ?thesis
    using assms(4) size_ec2_sums [OF assms(2) rd(1), of b flags es] size_rsa_sums [OF assms(1,2) rd(1), of _ b flags es]
      size_akp_sums [OF assms(2) rd(3), of b flags es] size_lms_sums [OF assms(2) rd(1), of es]
      size_okp_sums [OF assms(2) rd(1), of b flags es] size_symm_sums [OF rd(1,2), of es flags b] okp
    unfolding key_material_def size_key_def by (elim disjE conjE exE) simp_all
qed

text \<open>C12: the size that is announced for a key is the size of its encoding: when encoding succeeds, the size query with the same
  flags succeeds with the length that was written.\<close>

theorem Key_EncodeSize_exact:
  assumes "wolfkey_ok K" "wolfkey_exact K" "key_usable k" "osz \<le> length mo" "osz < 2 ^ 63"
    "wc_CoseKey_Encode_ex b K (Some k) (Some mo) osz (Some n0) flags = (WOLFCOSE_SUCCESS, out, n, fault)"
  shows "wc_CoseKey_EncodeSize_ex b K (Some k) (Some n1) flags = (WOLFCOSE_SUCCESS, n)"
proof -
  from Key_Encode_outcome [OF assms(1,3-6)] obtain es where es: "key_material b K k flags es"
    "n = Some (length (key_map_bytes k es))" "length (key_map_bytes k es) \<le> osz" by auto
  have f: "flags AND NOT WOLFCOSE_KEY_PUBLIC_ONLY = 0"
    using assms(6) by (auto simp: wc_CoseKey_Encode_ex_def encode_cleanup_def split: if_splits prod.splits)
  have "sums (length (key_map_bytes k es)) (size_key b K k flags)" by (rule size_key_sums [OF assms(1-3) es(1)])
  then have "size_key b K k flags = (WOLFCOSE_SUCCESS, length (key_map_bytes k es))"
    using es(3) assms(5) by (cases "size_key b K k flags") (auto simp: sums_def split: if_splits)
  then show ?thesis using f es(2) by (simp add: wc_CoseKey_EncodeSize_ex_def)
qed


section \<open>An example\<close>

lemma toy_keys_exact: "wolfkey_exact toy_keys"
proof -
  have "[0, 0, 0, 0, 0, 1, 0, 1] = replicate 5 0 @ [1, 0, 1 :: u8]" by (simp add: numeral_eq_Suc)
  then have "\<exists>z. [0, 0, 0, 0, 0, 1, 0, 1] = replicate z 0 @ [1, 0, 1 :: u8]" by blast
  then show ?thesis by (auto simp: wolfkey_exact_def toy_keys_def)
qed

lemma Key_EncodeSize_exact_witness: "wc_CoseKey_EncodeSize_ex full_build toy_keys (Some toy_symm) (Some 0) 0 = (WOLFCOSE_SUCCESS, Some 8)"
  by (rule Key_EncodeSize_exact [OF toy_keys_ok toy_keys_exact toy_symm_usable _ _ toy_symm_encoded]) simp_all

section \<open>The type of an attached key\<close>

text \<open>
  The keys a program can make with the API: a fresh one, an attachment to one it has (which may fail), and one
  whose key id, algorithm or signer it set. The algorithm of an AKP or HSS-LMS key is part of its type and is left alone.
\<close>

inductive made_key :: "build \<Rightarrow> wolfkey \<Rightarrow> cose_key \<Rightarrow> bool" for b K where
  made_init: "wc_CoseKey_Init (Some k0) = (r, Some k) \<Longrightarrow> made_key b K k"
| made_ecc: "made_key b K k \<Longrightarrow> wc_CoseKey_SetEcc b K (Some k) crv e = (r, Some k') \<Longrightarrow> made_key b K k'"
| made_ed25519: "made_key b K k \<Longrightarrow> wc_CoseKey_SetEd25519 b K (Some k) h = (r, Some k') \<Longrightarrow> made_key b K k'"
| made_ed448: "made_key b K k \<Longrightarrow> wc_CoseKey_SetEd448 b K (Some k) h = (r, Some k') \<Longrightarrow> made_key b K k'"
| made_mldsa: "made_key b K k \<Longrightarrow> wc_CoseKey_SetMlDsa_ex b K (Some k) alg m s n = (r, Some k') \<Longrightarrow> made_key b K k'"
| made_lms: "made_key b K k \<Longrightarrow> wc_CoseKey_SetLms b (Some k) v = (r, Some k') \<Longrightarrow> made_key b K k'"
| made_rsa: "made_key b K k \<Longrightarrow> wc_CoseKey_SetRsa b K (Some k) v' = (r, Some k') \<Longrightarrow> made_key b K k'"
| made_symm: "made_key b K k \<Longrightarrow> wc_CoseKey_SetSymmetric b (Some k) p n = (r, Some k') \<Longrightarrow> made_key b K k'"
| made_free: "made_key b K k \<Longrightarrow> wc_CoseKey_Free (Some k) = Some k' \<Longrightarrow> made_key b K k'"
| made_meta: "made_key b K k \<Longrightarrow> key_kty k \<noteq> WOLFCOSE_KTY_AKP \<and> key_kty k \<noteq> WOLFCOSE_KTY_HSS_LMS \<or> a = key_alg k \<Longrightarrow>
     made_key b K (k\<lparr>key_kid := p, key_kidLen := n, key_alg := a, key_signCb := cb\<rparr>)"

definition attached :: "cose_key \<Rightarrow> nat" where
  "attached k = (if key_ecc k \<noteq> None then 1 else 0) + (if key_ed25519 k \<noteq> None then 1 else 0) + (if key_ed448 k \<noteq> None then 1 else 0) +
     (if key_rsa k \<noteq> None then 1 else 0) + (if key_mldsa k \<noteq> None then 1 else 0) + (if key_lms k \<noteq> None then 1 else 0) +
     (if key_symm k \<noteq> None then 1 else 0)"

definition key_typed :: "cose_key \<Rightarrow> bool" where
  "key_typed k \<longleftrightarrow> (key_mldsaSeed k \<noteq> None \<longrightarrow> key_mldsaSeedLen k = WOLFCOSE_MLDSA_SEED_SZ) \<and>
     (if key_attachedType k = WOLFCOSE_ATT_NONE then key_kty k = 0 \<and> attached k = 0 \<and> \<not> key_hasPrivate k
      else attached k = 1 \<and>
        (key_attachedType k = WOLFCOSE_ATT_ECC \<and> key_kty k = WOLFCOSE_KTY_EC2 \<and> key_ecc k \<noteq> None \<and>
           wolfCose_EccKeyCheckCurve (key_crv k) (key_ecc k) = WOLFCOSE_SUCCESS \<or>
         key_attachedType k = WOLFCOSE_ATT_ED25519 \<and> key_kty k = WOLFCOSE_KTY_OKP \<and> key_crv k = WOLFCOSE_CRV_ED25519 \<and> key_ed25519 k \<noteq> None \<or>
         key_attachedType k = WOLFCOSE_ATT_ED448 \<and> key_kty k = WOLFCOSE_KTY_OKP \<and> key_crv k = WOLFCOSE_CRV_ED448 \<and> key_ed448 k \<noteq> None \<or>
         key_attachedType k = WOLFCOSE_ATT_RSA \<and> key_kty k = WOLFCOSE_KTY_RSA \<and> key_rsa k \<noteq> None \<or>
         key_attachedType k = WOLFCOSE_ATT_MLDSA \<and> key_kty k = WOLFCOSE_KTY_AKP \<and> is_mldsa (key_alg k) \<and> key_mldsa k \<noteq> None \<or>
         key_attachedType k = WOLFCOSE_ATT_LMS \<and> key_kty k = WOLFCOSE_KTY_HSS_LMS \<and> key_alg k = WOLFCOSE_ALG_HSS_LMS \<and> key_lms k \<noteq> None \<or>
         key_attachedType k = WOLFCOSE_ATT_SYMMETRIC \<and> key_kty k = WOLFCOSE_KTY_SYMMETRIC \<and> key_symm k \<noteq> None \<and> key_symmLen k > 0 \<and> key_hasPrivate k))"

lemma drop_signer_simps [simp]:
  "key_ecc (drop_signer b k) = key_ecc k" "key_ed25519 (drop_signer b k) = key_ed25519 k" "key_ed448 (drop_signer b k) = key_ed448 k"
  "key_rsa (drop_signer b k) = key_rsa k" "key_mldsa (drop_signer b k) = key_mldsa k" "key_lms (drop_signer b k) = key_lms k"
  "key_symm (drop_signer b k) = key_symm k" "key_mldsaSeed (drop_signer b k) = key_mldsaSeed k"
  "key_mldsaSeedLen (drop_signer b k) = key_mldsaSeedLen k" "key_alg (drop_signer b k) = key_alg k"
  by (simp_all add: drop_signer_def)

lemma clear_union_simps [simp]:
  "key_ecc (clear_union k) = None" "key_ed25519 (clear_union k) = None" "key_ed448 (clear_union k) = None" "key_rsa (clear_union k) = None"
  "key_mldsa (clear_union k) = None" "key_lms (clear_union k) = None" "key_symm (clear_union k) = None"
  "key_mldsaSeed (clear_union k) = key_mldsaSeed k" "key_mldsaSeedLen (clear_union k) = key_mldsaSeedLen k"
  by (simp_all add: clear_union_def)

lemma key_typed_seed: "key_typed k \<Longrightarrow> key_mldsaSeed k \<noteq> None \<longrightarrow> key_mldsaSeedLen k = WOLFCOSE_MLDSA_SEED_SZ"
  by (simp add: key_typed_def)

lemma made_key_typed: "made_key b K k \<Longrightarrow> key_typed k"
proof (induction rule: made_key.induct)
  case made_init
  then show ?case by (auto simp: wc_CoseKey_Init_def key_zero_def key_typed_def attached_def)
next
  case (made_ecc k crv e r k')
  from made_ecc.hyps(2) have "k' = k \<or> (\<exists>v. e = Some v \<and> wolfCose_EccKeyCheckCurve crv (Some v) = WOLFCOSE_SUCCESS \<and> k' = drop_signer b (clear_union k)\<lparr>key_kty := WOLFCOSE_KTY_EC2, key_crv := crv, key_alg := WOLFCOSE_ALG_UNSET, key_ecc := Some v,
     key_attachedType := WOLFCOSE_ATT_ECC, key_hasPrivate := (ecc_size v > 0 \<and> kx_ecc_private_type K v)\<rparr>)"
    by (auto simp: wc_CoseKey_SetEcc_def split: option.splits if_splits)
  then show ?case
  proof
    assume "k' = k"
    then show ?thesis using made_ecc.IH by simp
  next
    assume "\<exists>v. e = Some v \<and> wolfCose_EccKeyCheckCurve crv (Some v) = WOLFCOSE_SUCCESS \<and> k' = drop_signer b (clear_union k)\<lparr>key_kty := WOLFCOSE_KTY_EC2, key_crv := crv, key_alg := WOLFCOSE_ALG_UNSET, key_ecc := Some v,
     key_attachedType := WOLFCOSE_ATT_ECC, key_hasPrivate := (ecc_size v > 0 \<and> kx_ecc_private_type K v)\<rparr>"
    then show ?thesis using key_typed_seed [OF made_ecc.IH]
      by (elim exE conjE) (simp add: key_typed_def attached_def)
  qed
next
  case (made_ed25519 k h r k')
  from made_ed25519.hyps(2) have "k' = k \<or> (\<exists>v. h = Some v \<and> k' = drop_signer b (clear_union k)\<lparr>key_kty := WOLFCOSE_KTY_OKP, key_crv := WOLFCOSE_CRV_ED25519, key_alg := WOLFCOSE_ALG_UNSET, key_ed25519 := Some v,
     key_attachedType := WOLFCOSE_ATT_ED25519, key_hasPrivate := kx_ed25519_priv_set K v\<rparr>)"
    by (auto simp: wc_CoseKey_SetEd25519_def split: option.splits if_splits)
  then show ?case
  proof
    assume "k' = k"
    then show ?thesis using made_ed25519.IH by simp
  next
    assume "\<exists>v. h = Some v \<and> k' = drop_signer b (clear_union k)\<lparr>key_kty := WOLFCOSE_KTY_OKP, key_crv := WOLFCOSE_CRV_ED25519, key_alg := WOLFCOSE_ALG_UNSET, key_ed25519 := Some v,
     key_attachedType := WOLFCOSE_ATT_ED25519, key_hasPrivate := kx_ed25519_priv_set K v\<rparr>"
    then show ?thesis using key_typed_seed [OF made_ed25519.IH]
      by (elim exE conjE) (simp add: key_typed_def attached_def)
  qed
next
  case (made_ed448 k h r k')
  from made_ed448.hyps(2) have "k' = k \<or> (\<exists>v. h = Some v \<and> k' = drop_signer b (clear_union k)\<lparr>key_kty := WOLFCOSE_KTY_OKP, key_crv := WOLFCOSE_CRV_ED448, key_alg := WOLFCOSE_ALG_UNSET, key_ed448 := Some v,
     key_attachedType := WOLFCOSE_ATT_ED448, key_hasPrivate := kx_ed448_priv_set K v\<rparr>)"
    by (auto simp: wc_CoseKey_SetEd448_def split: option.splits if_splits)
  then show ?case
  proof
    assume "k' = k"
    then show ?thesis using made_ed448.IH by simp
  next
    assume "\<exists>v. h = Some v \<and> k' = drop_signer b (clear_union k)\<lparr>key_kty := WOLFCOSE_KTY_OKP, key_crv := WOLFCOSE_CRV_ED448, key_alg := WOLFCOSE_ALG_UNSET, key_ed448 := Some v,
     key_attachedType := WOLFCOSE_ATT_ED448, key_hasPrivate := kx_ed448_priv_set K v\<rparr>"
    then show ?thesis using key_typed_seed [OF made_ed448.IH]
      by (elim exE conjE) (simp add: key_typed_def attached_def)
  qed
next
  case (made_mldsa k alg m s n r k')
  from made_mldsa.hyps(2) have "k' = k \<or> (\<exists>v. m = Some v \<and> is_mldsa alg \<and> (s \<noteq> None \<longrightarrow> n = 32) \<and> k' = drop_signer b (clear_union k)\<lparr>key_kty := WOLFCOSE_KTY_AKP, key_alg := alg, key_crv := 0, key_mldsa := Some v,
     key_attachedType := WOLFCOSE_ATT_MLDSA, key_mldsaSeed := s, key_mldsaSeedLen := (if s \<noteq> None then n else 0), key_hasPrivate := kx_mldsa_priv_set K v\<rparr>)"
    by (auto simp: wc_CoseKey_SetMlDsa_ex_def split: option.splits if_splits)
  then show ?case
  proof
    assume "k' = k"
    then show ?thesis using made_mldsa.IH by simp
  next
    assume "\<exists>v. m = Some v \<and> is_mldsa alg \<and> (s \<noteq> None \<longrightarrow> n = 32) \<and> k' = drop_signer b (clear_union k)\<lparr>key_kty := WOLFCOSE_KTY_AKP, key_alg := alg, key_crv := 0, key_mldsa := Some v,
     key_attachedType := WOLFCOSE_ATT_MLDSA, key_mldsaSeed := s, key_mldsaSeedLen := (if s \<noteq> None then n else 0), key_hasPrivate := kx_mldsa_priv_set K v\<rparr>"
    then show ?thesis using key_typed_seed [OF made_mldsa.IH]
      by (elim exE conjE) (simp add: key_typed_def attached_def)
  qed
next
  case (made_lms k w r k')
  from made_lms.hyps(2) have "k' = k \<or> (\<exists>v. w = Some v \<and> k' = drop_signer b (clear_union k)\<lparr>key_kty := WOLFCOSE_KTY_HSS_LMS, key_alg := WOLFCOSE_ALG_HSS_LMS, key_crv := 0, key_lms := Some v,
     key_attachedType := WOLFCOSE_ATT_LMS, key_hasPrivate := (lms_state v = WC_LMS_STATE_OK)\<rparr>)"
    by (auto simp: wc_CoseKey_SetLms_def split: option.splits if_splits)
  then show ?case
  proof
    assume "k' = k"
    then show ?thesis using made_lms.IH by simp
  next
    assume "\<exists>v. w = Some v \<and> k' = drop_signer b (clear_union k)\<lparr>key_kty := WOLFCOSE_KTY_HSS_LMS, key_alg := WOLFCOSE_ALG_HSS_LMS, key_crv := 0, key_lms := Some v,
     key_attachedType := WOLFCOSE_ATT_LMS, key_hasPrivate := (lms_state v = WC_LMS_STATE_OK)\<rparr>"
    then show ?thesis using key_typed_seed [OF made_lms.IH]
      by (elim exE conjE) (simp add: key_typed_def attached_def)
  qed
next
  case (made_rsa k w r k')
  from made_rsa.hyps(2) have "k' = k \<or> (\<exists>v. w = Some v \<and> k' = drop_signer b (clear_union k)\<lparr>key_kty := WOLFCOSE_KTY_RSA, key_alg := WOLFCOSE_ALG_UNSET, key_rsa := Some v,
     key_attachedType := WOLFCOSE_ATT_RSA, key_hasPrivate := (rsa_size v > 0 \<and> kx_rsa_private_type K v)\<rparr>)"
    by (auto simp: wc_CoseKey_SetRsa_def split: option.splits if_splits)
  then show ?case
  proof
    assume "k' = k"
    then show ?thesis using made_rsa.IH by simp
  next
    assume "\<exists>v. w = Some v \<and> k' = drop_signer b (clear_union k)\<lparr>key_kty := WOLFCOSE_KTY_RSA, key_alg := WOLFCOSE_ALG_UNSET, key_rsa := Some v,
     key_attachedType := WOLFCOSE_ATT_RSA, key_hasPrivate := (rsa_size v > 0 \<and> kx_rsa_private_type K v)\<rparr>"
    then show ?thesis using key_typed_seed [OF made_rsa.IH]
      by (elim exE conjE) (simp add: key_typed_def attached_def)
  qed
next
  case (made_symm k p n r k')
  from made_symm.hyps(2) have "k' = k \<or> (\<exists>v. p = Some v \<and> n > 0 \<and> k' = drop_signer b (clear_union k)\<lparr>key_kty := WOLFCOSE_KTY_SYMMETRIC, key_alg := WOLFCOSE_ALG_UNSET, key_symm := Some v, key_symmLen := n,
     key_attachedType := WOLFCOSE_ATT_SYMMETRIC, key_hasPrivate := True\<rparr>)"
    by (auto simp: wc_CoseKey_SetSymmetric_def split: option.splits if_splits)
  then show ?case
  proof
    assume "k' = k"
    then show ?thesis using made_symm.IH by simp
  next
    assume "\<exists>v. p = Some v \<and> n > 0 \<and> k' = drop_signer b (clear_union k)\<lparr>key_kty := WOLFCOSE_KTY_SYMMETRIC, key_alg := WOLFCOSE_ALG_UNSET, key_symm := Some v, key_symmLen := n,
     key_attachedType := WOLFCOSE_ATT_SYMMETRIC, key_hasPrivate := True\<rparr>"
    then show ?thesis using key_typed_seed [OF made_symm.IH]
      by (elim exE conjE) (simp add: key_typed_def attached_def)
  qed
next
  case (made_free k k')
  then show ?case by (auto simp: wc_CoseKey_Free_def key_zero_def key_typed_def attached_def)
next
  case (made_meta k a cb n p)
  have "attached (k\<lparr>key_kid := p, key_kidLen := n, key_alg := a, key_signCb := cb\<rparr>) = attached k" by (simp add: attached_def)
  then show ?case using made_meta.IH made_meta.hyps(2)
    unfolding key_typed_def by (elim disjE conjE; cases "key_attachedType k = WOLFCOSE_ATT_NONE") auto
qed

text \<open>C13: however keys are attached one after the other, freed, or refused, the discriminator of a key tells its type: the key
  type, the curve (checked against the wolfCrypt key) or the algorithm, and the one member of the union that is set, agree with
  it, a symmetric key is never empty, and an ML-DSA seed has 32 bytes.\<close>

theorem Key_attached_typed:
  assumes "made_key b K k"
  shows "key_typed k"
  by (rule made_key_typed [OF assms])

lemma toy_made: "made_key full_build toy_keys (key_zero\<lparr>key_kty := WOLFCOSE_KTY_SYMMETRIC, key_alg := WOLFCOSE_ALG_UNSET, key_symm := Some [1, 2],
    key_symmLen := 2, key_attachedType := WOLFCOSE_ATT_SYMMETRIC, key_hasPrivate := True\<rparr>)"
proof -
  have z: "made_key full_build toy_keys key_zero"
    by (rule made_init [of undefined WOLFCOSE_SUCCESS]) (simp add: wc_CoseKey_Init_def)
  have e: "made_key full_build toy_keys key_zero"
    by (rule made_ecc [OF z, of 9 None WOLFCOSE_E_INVALID_ARG]) (simp add: wc_CoseKey_SetEcc_def)
  show ?thesis
    by (rule made_symm [OF e, of "Some [1, 2]" 2 WOLFCOSE_SUCCESS]) (simp add: wc_CoseKey_SetSymmetric_def drop_signer_def clear_union_def key_zero_def)
qed

lemma Key_attached_typed_witness: "key_typed (key_zero\<lparr>key_kty := WOLFCOSE_KTY_SYMMETRIC, key_alg := WOLFCOSE_ALG_UNSET, key_symm := Some [1, 2],
    key_symmLen := 2, key_attachedType := WOLFCOSE_ATT_SYMMETRIC, key_hasPrivate := True\<rparr>)"
  by (rule Key_attached_typed [OF toy_made])

end
