(* ===== verification/Spec2Isabelle.thy ===== *)
theory Spec2Isabelle
  imports Cose_Mac0Verify Cose_Encrypt0Decrypt Cose_HdrSkip Cose_Sign1Verify Cose_KeySize
begin

text \<open>
  A model of wolfCOSE, the C library for CBOR (RFC 8949) and COSE (RFC 9052/9053), with the theorems
  that make its encoder, its decoders and its messages correct.

  \<^bold>\<open>The parts of the program and the theories that model them.\<close>

  \<^item> \<open>Cose_Prelude\<close>: return codes (\<open>rc\<close>, the \<open>WOLFCOSE_E_*\<close> macros), machine integers, the
    big-endian helpers of \<open>src/wolfcose_internal.h\<close>, the chaining of fallible steps (\<open>on_success\<close>,
    \<open>repeat_ok\<close>: the code's \<open>if (ret == WOLFCOSE_SUCCESS)\<close> and its loops that stop at the first error).
  \<^item> \<open>Cose_Build\<close>: the compile-time configuration (\<open>include/wolfcose/settings.h\<close>) as one record
    \<open>build\<close>; every theorem holds for every configuration unless it names a condition on it.
  \<^item> \<open>Cbor_Ctx\<close>, \<open>Cbor_Utf8\<close>, \<open>Cbor_Encode\<close>, \<open>Cbor_Decode\<close>, \<open>Cbor_Skip\<close>: \<open>src/wolfcose_cbor.c\<close>, function
    by function. Interfaces are locales: \<open>cbor_writer\<close> (an encoder appends given bytes or reports a too
    small buffer), \<open>cbor_reader\<close> (a decoder only moves its cursor forward), \<open>cbor_codec\<close> (a decoder
    accepts exactly the strings of an encoding) and \<open>cbor_round_trip\<close>; every encoder and decoder of the
    file interprets them, and the header and message theories use them through those facts.
  \<^item> \<open>Cose_HdrState\<close>, \<open>Cose_Hdr\<close>, \<open>Cose_HdrSpec\<close>: \<open>src/wolfcose_hdr.c\<close>. The bookkeeping of labels refines a
    set of labels; an accepted bucket is a map with distinct labels whose critical labels are honoured,
    and the header structure holds its values.
  \<^item> \<open>Cose_Alg\<close>: \<open>src/wolfcose_alg.c\<close>, the algorithm tables and the key checks.
  \<^item> \<open>Cose_Struct\<close>: \<open>src/wolfcose_struct.c\<close> and parts of \<open>src/wolfcose_util.c\<close>; the structures that are
    signed, MACed or authenticated, which are injective in their components.
  \<^item> \<open>Cose_HdrSkip\<close>: the rest of \<open>src/wolfcose_hdr.c\<close>, the structural decoders of signatures and recipients
    that a caller did not select, with their bounded stack of nested recipients.
  \<^item> \<open>Cose_Msg\<close>, \<open>Cose_Msg4\<close>: the stages in which the message functions read tag, array, headers, payload
    and tag, and the parser of the messages of four fields.
  \<^item> \<open>Cose_Mac\<close>, \<open>Cose_Mac0\<close>, \<open>Cose_Mac0Spec\<close>, \<open>Cose_Mac0Verify\<close>: \<open>src/wolfcose_mac0.c\<close>; AES-CBC-MAC is
    CBC-MAC, a created COSE_Mac0 is exactly the RFC 9052 message, a verified one carries the MAC of
    what is handed out, and verification accepts what creation wrote.
  \<^item> \<open>Cose_Aead\<close>, \<open>Cose_Encrypt0\<close>, \<open>Cose_Encrypt0Spec\<close>, \<open>Cose_Encrypt0Decrypt\<close>: \<open>src/wolfcose_encrypt0.c\<close>
    without HPKE; the message that is written, what a decryption that succeeds has authenticated, and the
    round trip, with the ciphertext in the message or detached.
  \<^item> \<open>Cose_Sig\<close>, \<open>Cose_Sign1\<close>, \<open>Cose_Sign1Spec\<close>: \<open>src/wolfcose_sign1.c\<close> and \<open>src/wolfcose_ecc.c\<close>; every
    algorithm family, the delegated signer, and the relation \<open>signs\<close> that says which signature a key makes.
    \<open>Cose_Sign1Size\<close>: the size query announces what signing writes, and so an LMS key is not spent on an
    output that is too small. \<open>Cose_Sign1Verify\<close>: what a verified message carries (\<open>accepts\<close>), and that
    verification accepts what signing wrote. \<open>Cose_Key\<close>
    (\<open>src/wolfcose_key.c\<close>): attaching keys, encoding a COSE_Key of each type, and the size of an
    encoding. \<open>Cose_KeySpec\<close>: an interface for encoders whose bytes come from wolfCrypt (\<open>cbor_maker\<close>), what the map of a key
    is (\<open>key_map_bytes\<close>, \<open>key_material\<close>), and that private material is not serialised when it must not be.
    \<open>Cose_KeySize\<close>: the announced size is exact; the discriminator of an attached key tells its type.

  \<^bold>\<open>How C is read.\<close> \<open>size_t\<close> is \<open>nat\<close> with the wrap-around of a 64-bit \<open>size_t\<close> written out where sizes
  are added (\<open>sz_add\<close>, \<open>sz_sub\<close>, \<open>SIZE_MAX\<close>); fixed-width integers are words. \<open>NULL\<close> is \<open>None\<close>; a pointer
  to bytes is the memory from the pointed-to byte to the end of its object. An out-parameter is a value
  that is passed in and returned. An access outside a buffer sets the ghost flag \<open>ctx_fault\<close>, which no
  operation reads; the safety theorems show it is never set. A function's locals are a record where
  the function has stages, and a stage runs when the return code so far is \<open>WOLFCOSE_SUCCESS\<close>. Stack
  buffers start as zeros. Buffers the caller passes are distinct objects that hold at least the
  length the caller claims; the theorems say so in their hypotheses. A strict decoder (no flags) is
  specified exactly; a tolerant one (\<open>DECODE_ALLOW_NONPREFERRED\<close>) where the theorem has a \<open>flags\<close>.

  \<^bold>\<open>What is a parameter.\<close> wolfCrypt is not part of the repository: the record \<open>wolfcrypt\<close> holds its HMAC and
  AES calls, \<open>ecc_view\<close> and \<open>rsa_view\<close> what it reports of an attached key. \<open>crypt_ok\<close> and \<open>aes_honest\<close> state
  the documented behaviour that is relied on (sizes of digests and blocks; CBC mode of a block cipher for the key lengths AES has),
  and \<open>toy_crypt\<close> is an instance, over which the witnesses compute. In the same way \<open>wolfaead\<close> holds the AEAD
  calls (\<open>aead_ok\<close>, \<open>aead_inverts\<close>, \<open>toy_aead\<close>) and \<open>wolfsig\<close> the signature calls (\<open>sig_ok\<close> and
  \<open>sig_exact\<close> for lengths, \<open>key_pair\<close> for a key whose halves belong together, \<open>toy_sig\<close>),
  and \<open>wolfkey\<close> the exports of key material.
  A signing callback is part of the key that carries it, as in the code (\<open>signer_ok\<close>).

  \<^bold>\<open>Bounds and loops.\<close> Every loop of the modelled code ends: \<open>utf8_loop\<close> and \<open>skip_loop\<close> by a measure on
  the bytes that are left, the loops over map entries by their count (\<open>repeat_ok\<close>). No fuel is used.

  \<^bold>\<open>Not modelled.\<close> COSE_Sign, COSE_Mac, COSE_Encrypt and countersignatures, the recipient layer, HPKE, the
  decoding of COSE_Key and the PSA EAT profile; the roll-back of wolfCrypt key
  imports (\<open>src/wolfcose_util.c\<close>), which works on the internals of wolfCrypt structures; the command line
  tool, examples, tests and IDE projects. The test hooks (\<open>INJECT_FAILURE\<close>,
  \<open>WOLFCOSE_TEST_ZEROIZE_HOOK\<close>) are read as in a production build.
\<close>

end
